(* ===== verification/NF_Evidence.thy ===== *)
theory NF_Evidence
  imports NF_Prelude
begin

text \<open>
  Captured SMTP authentication and reputation facts (\<open>src/evidence.rs\<close>), the shared rules
  that say when such a fact may be used (\<open>src/evidence/eligibility.rs\<close>), and the
  receipt-time eligibility of threat-intelligence targets (\<open>src/protection/evidence.rs\<close>).
  The lemmas show that an unknown, mixed-zone, temporary, stale or conflicting answer never
  becomes a detection.
\<close>

section \<open>Captured observations\<close>

datatype evidence_source = ContentOnly | SuppliedEnvelope | SmtpSession

datatype state = St_Disabled | St_NotRun | St_Complete | St_Unavailable | St_Busy | St_Skipped
  | St_Limited

definition state_configured :: "bool \<Rightarrow> state" where
  "state_configured enabled = (if enabled then St_NotRun else St_Disabled)"

datatype auth_result = A_Pass | A_Fail | A_SoftFail | A_Neutral | A_None | A_TempError | A_PermError

record authentication =
  au_state :: state
  au_spf_state :: state
  au_spf :: "auth_result option"
  au_dkim_state :: state
  au_dkim :: "auth_result list option"
  au_dmarc_state :: state
  au_dmarc_spf :: "auth_result option"
  au_dmarc_dkim :: "auth_result option"
  au_arc_state :: state
  au_arc :: "auth_result option"
  au_arc_can_seal :: "bool option"

datatype domain_role = EnvelopeFrom | Helo | HeaderFrom | Body

datatype dataset = Zen | Dbl

text \<open>An \<open>Ipv4Addr\<close> is its four octets, ordered lexicographically.\<close>

type_synonym ipv4 = "u8 \<times> u8 \<times> u8 \<times> u8"

fun dqs_known :: "dataset \<Rightarrow> ipv4 \<Rightarrow> bool" where
  "dqs_known Zen (a, b, c, d) \<longleftrightarrow> c = 0 \<and> d \<in> {2, 3, 4, 9, 10, 11, 30}"
| "dqs_known Dbl (a, b, c, d) \<longleftrightarrow> c = 1 \<and> d \<in> {2, 4, 5, 6, 102, 103, 104, 105, 106}"

fun dqs_loopback :: "ipv4 \<Rightarrow> bool" where
  "dqs_loopback (a, b, c, d) \<longleftrightarrow> a = 127 \<and> b = 0"

definition dqs_codes :: "ipv4 list \<Rightarrow> dataset \<Rightarrow> ipv4 list result" where
  "dqs_codes records ds =
     and_then (ensure (records \<noteq> [] \<and> length records \<le> 32) ''invalid DQS answer size'') (\<lambda>_.
     and_then (check_all (\<lambda>address.
         ensure (dqs_loopback address \<and> dqs_known ds address)
           ''DQS provider error or unsupported return code'') records) (\<lambda>_.
     Inr (remdups_adj (sort records))))"

fun malicious_domain_code :: "ipv4 \<Rightarrow> bool" where
  "malicious_domain_code (a, b, c, d) \<longleftrightarrow> a = 127 \<and> b = 0 \<and> c = 1 \<and> d \<in> {2, 4, 5, 6}"

definition malicious_domain :: "ipv4 list \<Rightarrow> bool" where
  "malicious_domain codes \<longleftrightarrow> list_ex malicious_domain_code codes"

fun malicious_ip_code :: "ipv4 \<Rightarrow> bool" where
  "malicious_ip_code (a, b, c, d) \<longleftrightarrow> a = 127 \<and> b = 0 \<and> c = 0 \<and> d \<in> {2, 3, 4, 9}"

definition malicious_ip :: "ipv4 list \<Rightarrow> bool" where
  "malicious_ip codes \<longleftrightarrow> is_ok (dqs_codes codes Zen) \<and> list_ex malicious_ip_code codes"

record dns_query =
  q_state :: state
  q_codes :: "ipv4 list"

definition dns_query_new :: "state \<Rightarrow> dns_query" where
  "dns_query_new st = \<lparr>q_state = st, q_codes = []\<rparr>"

record domain_query =
  dq_roles :: "domain_role list"
  dq_result :: dns_query

record reputation =
  rep_state :: state
  rep_version :: string
  rep_ip :: dns_query
  rep_domains :: "domain_query list"
  rep_stopped_after_positive :: bool

text \<open>
  \<open>Evidence\<close> carries more fields than the policy code reads (model logits, scanner copies and
  build artifacts); the model keeps the ones that take part in a decision.
\<close>

record evidence =
  ev_schema :: string
  ev_source :: evidence_source
  ev_authentication :: authentication
  ev_reputation :: reputation

definition SCHEMA :: string where "SCHEMA = ''noisefence-evidence-1''"
definition REPUTATION_VERSION :: string where "REPUTATION_VERSION = ''spamhaus-context-1''"

section \<open>Eligibility of a transport observation\<close>

datatype exclusion = MissingEnvelopeContext | UnsupportedSchema | InactiveParent
  | IncompleteCheck | InvalidResult | TemporaryFailure

datatype auth_check = Spf | Dkim | Dmarc | Arc

definition eligible_context :: "evidence \<Rightarrow> exclusion + unit" where
  "eligible_context e =
     (if ev_schema e \<noteq> SCHEMA then Inl UnsupportedSchema
      else if ev_source e = ContentOnly then Inl MissingEnvelopeContext
      else Inr ())"

definition parent :: "state \<Rightarrow> bool" where
  "parent st \<longleftrightarrow> st \<in> {St_Complete, St_Limited, St_Unavailable}"

fun auth_state_values :: "authentication \<Rightarrow> auth_check \<Rightarrow> state \<times> auth_result list option" where
  "auth_state_values a Spf = (au_spf_state a, map_option (\<lambda>r. [r]) (au_spf a))"
| "auth_state_values a Dkim = (au_dkim_state a, au_dkim a)"
| "auth_state_values a Dmarc =
     (au_dmarc_state a,
      (case (au_dmarc_spf a, au_dmarc_dkim a) of
         (Some spf, Some dkim) \<Rightarrow> Some [spf, dkim] | _ \<Rightarrow> None))"
| "auth_state_values a Arc = (au_arc_state a, map_option (\<lambda>r. [r]) (au_arc a))"

fun auth_value_invalid :: "auth_check \<Rightarrow> auth_result \<Rightarrow> bool" where
  "auth_value_invalid Dmarc v \<longleftrightarrow> v \<in> {A_SoftFail, A_Neutral}"
| "auth_value_invalid Dkim v \<longleftrightarrow> v = A_SoftFail"
| "auth_value_invalid Arc v \<longleftrightarrow> v = A_SoftFail"
| "auth_value_invalid Spf v \<longleftrightarrow> False"

definition eligible_authentication :: "evidence \<Rightarrow> auth_check \<Rightarrow> exclusion + unit" where
  "eligible_authentication e check =
     and_then (eligible_context e) (\<lambda>_.
     (let a = ev_authentication e in
      if check \<noteq> Arc \<and> \<not> parent (au_state a) then Inl InactiveParent
      else (case auth_state_values a check of (st, vs) \<Rightarrow>
        if st \<noteq> St_Complete then Inl IncompleteCheck
        else (case vs of
            None \<Rightarrow> Inl InvalidResult
          | Some values \<Rightarrow>
              if length values > 16 \<or> list_ex (auth_value_invalid check) values
              then Inl InvalidResult
              else if A_TempError \<in> set values then Inl TemporaryFailure
              else Inr ()))))"

definition dmarc_pass :: "evidence \<Rightarrow> bool" where
  "dmarc_pass e \<longleftrightarrow>
     is_ok (eligible_authentication e Dmarc) \<and>
     Some A_Pass \<in> set [au_dmarc_spf (ev_authentication e), au_dmarc_dkim (ev_authentication e)]"

definition eligible_query :: "evidence \<Rightarrow> dns_query \<Rightarrow> dataset \<Rightarrow> exclusion + unit" where
  "eligible_query e q ds =
     and_then (eligible_context e) (\<lambda>_.
     if rep_version (ev_reputation e) \<noteq> REPUTATION_VERSION then Inl UnsupportedSchema
     else if \<not> parent (rep_state (ev_reputation e)) then Inl InactiveParent
     else if q_state q \<noteq> St_Complete then Inl IncompleteCheck
     else if q_codes q \<noteq> [] \<and> \<not> is_ok (dqs_codes (q_codes q) ds) then Inl InvalidResult
     else Inr ())"

fun malicious_codes :: "dataset \<Rightarrow> ipv4 list \<Rightarrow> bool" where
  "malicious_codes Zen codes = malicious_ip codes"
| "malicious_codes Dbl codes = malicious_domain codes"

definition malicious_query :: "evidence \<Rightarrow> dns_query \<Rightarrow> dataset \<Rightarrow> bool" where
  "malicious_query e q ds \<longleftrightarrow> is_ok (eligible_query e q ds) \<and> malicious_codes ds (q_codes q)"

section \<open>Provider targets\<close>

datatype provider = Crdf | Virustotal

datatype pstatus = P_Disabled | P_Complete | P_NotConfigured | P_NotRun | P_Unknown | P_Limited
  | P_Busy | P_Unavailable | P_Quota | P_Stale

record provider_observation =
  po_indicator :: string
  po_scope :: string
  po_verdict :: string
  po_queried_at :: int

record provider_report =
  pr_status :: pstatus
  pr_captured_at :: "int option"
  pr_omitted :: nat
  pr_observations :: "provider_observation list"

datatype pexclusion = InvalidTarget | InvalidTargetResult | UnavailableProvider
  | MissingCaptureTime | InvalidObservationTime | StaleResult | DuplicateTarget
  | ConflictingTarget

record target =
  t_index :: nat
  t_value :: provider_observation
  t_exclusion :: "pexclusion option"

record provider_evaluation =
  pe_status :: pstatus
  pe_targets :: "target list"
  pe_omitted :: nat

definition MAX_TARGETS :: nat where "MAX_TARGETS = 48"

definition hex_digit :: "char \<Rightarrow> bool" where
  "hex_digit c \<longleftrightarrow> (48 \<le> byte c \<and> byte c \<le> 57) \<or> (97 \<le> byte c \<and> byte c \<le> 102)"

definition valid_hash :: "string \<Rightarrow> bool" where
  "valid_hash v \<longleftrightarrow> length v = 64 \<and> list_all hex_digit v"

definition target_usable :: "target \<Rightarrow> bool" where
  "target_usable t \<longleftrightarrow> t_exclusion t = None"

definition target_malicious :: "target \<Rightarrow> bool" where
  "target_malicious t \<longleftrightarrow> target_usable t \<and> po_verdict (t_value t) = ''malicious''"

definition target_group :: "target \<Rightarrow> string \<times> string" where
  "target_group t =
     (if po_scope (t_value t) = ''file'' then ''file'' else ''host'', po_indicator (t_value t))"

fun provider_scope :: "provider \<Rightarrow> string \<Rightarrow> bool" where
  "provider_scope Crdf s \<longleftrightarrow> s = ''host_lookup''"
| "provider_scope Virustotal s \<longleftrightarrow> s = ''domain'' \<or> s = ''file''"

definition known_verdict :: "string \<Rightarrow> bool" where
  "known_verdict v \<longleftrightarrow>
     v \<in> set [''malicious'', ''suspicious'', ''no_hit'', ''unknown'', ''stale'']"

definition provider_exclusion ::
    "provider \<Rightarrow> provider_report \<Rightarrow> provider_observation \<Rightarrow> pexclusion option" where
  "provider_exclusion p report target =
     (if \<not> provider_scope p (po_scope target) \<or> \<not> valid_hash (po_indicator target)
      then Some InvalidTarget
      else if \<not> known_verdict (po_verdict target) then Some InvalidTargetResult
      else if pr_status report \<in> {P_Disabled, P_NotConfigured, P_NotRun, P_Unknown}
      then Some UnavailableProvider
      else (case option_filter (\<lambda>t. t > 0) (pr_captured_at report) of
          None \<Rightarrow> Some MissingCaptureTime
        | Some cap \<Rightarrow>
            if po_queried_at target \<le> 0 \<or> po_queried_at target < i64_saturating_sub cap 300
               \<or> po_queried_at target > i64_saturating_add cap 60
            then Some InvalidObservationTime
            else if po_verdict target = ''stale'' \<or> pr_status report = P_Stale
            then Some StaleResult
            else None))"

text \<open>
  The \<open>BTreeMap\<close> of \<open>(scope, indicator)\<close> groups, in key order, each with the indexes of its
  targets in order.
\<close>

definition target_key :: "target \<Rightarrow> string \<times> string" where
  "target_key t = (po_scope (t_value t), po_indicator (t_value t))"

definition target_groups :: "target list \<Rightarrow> nat list list" where
  "target_groups ts =
     (let hs = filter (\<lambda>t. valid_hash (po_indicator (t_value t))) ts
      in map (\<lambda>k. map t_index (filter (\<lambda>t. target_key t = k) hs))
           (sort (remdups (map target_key hs))))"

definition set_exclusion :: "pexclusion \<Rightarrow> target list \<Rightarrow> nat \<Rightarrow> target list" where
  "set_exclusion x ts i = ts[i := (ts ! i)\<lparr>t_exclusion := Some x\<rparr>]"

fun mark_conflicting :: "target list \<Rightarrow> nat list \<Rightarrow> target list" where
  "mark_conflicting ts [] = ts"
| "mark_conflicting ts (i # is) =
     mark_conflicting (if target_usable (ts ! i) then set_exclusion ConflictingTarget ts i else ts) is"

fun mark_duplicates :: "bool \<Rightarrow> target list \<Rightarrow> nat list \<Rightarrow> target list" where
  "mark_duplicates seen ts [] = ts"
| "mark_duplicates seen ts (i # is) =
     (if target_usable (ts ! i)
      then if seen then mark_duplicates True (set_exclusion DuplicateTarget ts i) is
           else mark_duplicates True ts is
      else mark_duplicates seen ts is)"

definition mark_group :: "target list \<Rightarrow> nat list \<Rightarrow> target list" where
  "mark_group ts indexes =
     (if length (remdups (map (\<lambda>i. po_verdict (t_value (ts ! i))) indexes)) > 1
      then mark_conflicting ts indexes
      else mark_duplicates False ts indexes)"

definition initial_targets :: "provider \<Rightarrow> provider_report \<Rightarrow> target list" where
  "initial_targets p report =
     map (\<lambda>(i, v). \<lparr>t_index = i, t_value = v, t_exclusion = provider_exclusion p report v\<rparr>)
       (enumerate 0 (take MAX_TARGETS (pr_observations report)))"

definition provider_evaluate :: "provider \<Rightarrow> provider_report \<Rightarrow> provider_evaluation" where
  "provider_evaluate p report =
     (let targets0 = initial_targets p report;
          targets = foldl mark_group targets0
            (filter (\<lambda>v. length v > 1) (target_groups targets0));
          omitted = length (pr_observations report) - MAX_TARGETS;
          status = (if pr_status report = P_Complete \<and>
                       (omitted > 0 \<or> pr_omitted report > 0 \<or>
                        list_ex (\<lambda>t. is_some_and (t_exclusion t) (\<lambda>e. e \<noteq> DuplicateTarget)) targets)
                    then P_Limited else pr_status report)
      in \<lparr>pe_status = status, pe_targets = targets, pe_omitted = omitted\<rparr>)"

definition shared_malicious_targets :: "provider_evaluation \<Rightarrow> provider_evaluation \<Rightarrow> nat" where
  "shared_malicious_targets crdf vt =
     (let a = remdups (map target_group (filter target_malicious (pe_targets crdf)));
          b = remdups (map target_group (filter target_malicious (pe_targets vt)))
      in length (filter (\<lambda>g. g \<in> set b) a))"

section \<open>Lemmas: transport evidence\<close>

lemma is_ok_dqs_codes:
  "is_ok (dqs_codes cs ds) \<longleftrightarrow>
     cs \<noteq> [] \<and> length cs \<le> 32 \<and> (\<forall>c \<in> set cs. dqs_loopback c \<and> dqs_known ds c)"
  by (auto simp: dqs_codes_def is_ok_iff and_then_Inr_iff check_all_iff)

lemma dqs_codes_result:
  "dqs_codes cs ds = Inr out \<Longrightarrow> set out = set cs \<and> sorted out \<and> distinct out"
  by (auto simp: dqs_codes_def and_then_Inr_iff distinct_remdups_adj)

lemma eligible_context_iff:
  "eligible_context e = Inr u \<longleftrightarrow> ev_schema e = SCHEMA \<and> ev_source e \<noteq> ContentOnly"
  by (simp add: eligible_context_def)

lemma eligible_authentication_context:
  "is_ok (eligible_authentication e c) \<Longrightarrow> ev_source e \<noteq> ContentOnly \<and> ev_schema e = SCHEMA"
  by (auto simp: eligible_authentication_def is_ok_iff and_then_Inr_iff eligible_context_iff)

lemma eligible_authentication_complete:
  "is_ok (eligible_authentication e c) \<Longrightarrow>
     \<exists>vs. auth_state_values (ev_authentication e) c = (St_Complete, Some vs)
       \<and> length vs \<le> 16 \<and> A_TempError \<notin> set vs \<and> list_all (\<lambda>v. \<not> auth_value_invalid c v) vs"
  by (auto simp: eligible_authentication_def is_ok_iff and_then_Inr_iff Let_def list_ex_iff
      list_all_iff split: prod.splits if_splits option.splits)

lemma eligible_query_iff:
  "is_ok (eligible_query e q ds) \<longleftrightarrow>
     ev_schema e = SCHEMA \<and> ev_source e \<noteq> ContentOnly
     \<and> rep_version (ev_reputation e) = REPUTATION_VERSION \<and> parent (rep_state (ev_reputation e))
     \<and> q_state q = St_Complete \<and> (q_codes q \<noteq> [] \<longrightarrow> is_ok (dqs_codes (q_codes q) ds))"
  by (auto simp: eligible_query_def eligible_context_def is_ok_iff and_then_Inr_iff)

text \<open>Every code of a malicious answer is a documented code of the queried zone.\<close>

lemma malicious_query_known:
  assumes "malicious_query e q ds"
  shows "q_codes q \<noteq> [] \<and> (\<forall>c \<in> set (q_codes q). dqs_loopback c \<and> dqs_known ds c)"
proof -
  from assms have ne: "q_codes q \<noteq> []"
    by (cases ds) (auto simp: malicious_query_def malicious_ip_def malicious_domain_def)
  with assms have "is_ok (dqs_codes (q_codes q) ds)"
    by (simp add: malicious_query_def eligible_query_iff)
  with ne show ?thesis by (simp add: is_ok_dqs_codes)
qed

section \<open>Lemmas: provider targets\<close>

text \<open>
  Marking only ever turns \<^const>\<open>None\<close> into an exclusion: values and indexes stay, and a target
  that was excluded stays excluded.
\<close>

definition marks_only :: "target list \<Rightarrow> target list \<Rightarrow> bool" where
  "marks_only ts us \<longleftrightarrow>
     length us = length ts \<and>
     (\<forall>i < length ts. t_value (us ! i) = t_value (ts ! i) \<and> t_index (us ! i) = t_index (ts ! i)
        \<and> (t_exclusion (ts ! i) \<noteq> None \<longrightarrow> t_exclusion (us ! i) = t_exclusion (ts ! i)))"

lemma marks_only_refl [simp]: "marks_only ts ts"
  by (simp add: marks_only_def)

lemma marks_only_trans: "marks_only ts us \<Longrightarrow> marks_only us vs \<Longrightarrow> marks_only ts vs"
  by (auto simp: marks_only_def)

lemma marks_only_set:
  assumes "i < length ts" and "target_usable (ts ! i)"
  shows "marks_only ts (set_exclusion x ts i)"
  using assms by (auto simp: marks_only_def set_exclusion_def target_usable_def nth_list_update)

lemma marks_only_length: "marks_only ts us \<Longrightarrow> length us = length ts"
  by (simp add: marks_only_def)

lemma mark_conflicting_marks:
  "\<forall>i \<in> set is. i < length ts \<Longrightarrow> marks_only ts (mark_conflicting ts is)"
proof (induction ts "is" rule: mark_conflicting.induct)
  case (1 ts)
  then show ?case by simp
next
  case (2 ts i "is")
  let ?ts = "if target_usable (ts ! i) then set_exclusion ConflictingTarget ts i else ts"
  from 2 have step: "marks_only ts ?ts" by (auto intro: marks_only_set)
  with 2 have "marks_only ?ts (mark_conflicting ?ts is)" by (auto dest: marks_only_length)
  with step show ?case by (auto intro: marks_only_trans)
qed

lemma mark_duplicates_marks:
  "\<forall>i \<in> set is. i < length ts \<Longrightarrow> marks_only ts (mark_duplicates seen ts is)"
proof (induction seen ts "is" rule: mark_duplicates.induct)
  case (1 seen ts)
  then show ?case by simp
next
  case (2 seen ts i "is")
  show ?case
  proof (cases "target_usable (ts ! i) \<and> seen")
    case True
    let ?ts = "set_exclusion DuplicateTarget ts i"
    from 2 True have step: "marks_only ts ?ts" by (auto intro: marks_only_set)
    with 2 True have "marks_only ?ts (mark_duplicates True ?ts is)" by (auto dest: marks_only_length)
    with step True show ?thesis by (auto intro: marks_only_trans)
  next
    case False
    with 2 show ?thesis by auto
  qed
qed

lemma mark_group_marks: "\<forall>i \<in> set is. i < length ts \<Longrightarrow> marks_only ts (mark_group ts is)"
  by (simp add: mark_group_def mark_conflicting_marks mark_duplicates_marks)

lemma foldl_mark_group_marks:
  "\<forall>g \<in> set gs. \<forall>i \<in> set g. i < length ts \<Longrightarrow> marks_only ts (foldl mark_group ts gs)"
proof (induction gs arbitrary: ts)
  case Nil
  then show ?case by simp
next
  case (Cons g gs)
  then have step: "marks_only ts (mark_group ts g)" by (simp add: mark_group_marks)
  with Cons have "marks_only (mark_group ts g) (foldl mark_group (mark_group ts g) gs)"
    by (simp add: marks_only_length)
  with step show ?case by (auto intro: marks_only_trans)
qed

lemma initial_targets_nth:
  "i < length (initial_targets p r) \<Longrightarrow>
     t_index (initial_targets p r ! i) = i
     \<and> t_value (initial_targets p r ! i) = pr_observations r ! i
     \<and> t_exclusion (initial_targets p r ! i) = provider_exclusion p r (pr_observations r ! i)"
  by (simp add: initial_targets_def nth_enumerate_eq)

lemma length_initial_targets:
  "length (initial_targets p r) = min (length (pr_observations r)) MAX_TARGETS"
  by (simp add: initial_targets_def min.commute)

lemma target_groups_bounded:
  assumes "g \<in> set (target_groups (initial_targets p r))" and "i \<in> set g"
  shows "i < length (initial_targets p r)"
proof -
  from assms obtain t where "t \<in> set (initial_targets p r)" and "i = t_index t"
    by (auto simp: target_groups_def Let_def)
  then show ?thesis by (metis in_set_conv_nth initial_targets_nth)
qed

lemma provider_evaluate_marks:
  "marks_only (initial_targets p r) (pe_targets (provider_evaluate p r))"
  unfolding provider_evaluate_def Let_def
  by (simp, rule foldl_mark_group_marks) (auto dest: target_groups_bounded)

text \<open>A usable target passed every receipt-time rule.\<close>

lemma evaluate_usable_eligible:
  assumes "t \<in> set (pe_targets (provider_evaluate p r))" and "target_usable t"
  shows "t_value t \<in> set (pr_observations r) \<and> provider_exclusion p r (t_value t) = None"
proof -
  let ?us = "pe_targets (provider_evaluate p r)" and ?ts = "initial_targets p r"
  from assms(1) obtain i where i: "i < length ?us" "t = ?us ! i"
    by (auto simp: in_set_conv_nth)
  from provider_evaluate_marks [of p r] i have "i < length ?ts" and "t_value t = t_value (?ts ! i)"
    and "t_exclusion (?ts ! i) = None"
    using assms(2) by (auto simp: marks_only_def target_usable_def)
  with initial_targets_nth [of i p r] length_initial_targets [of p r] show ?thesis by auto
qed

text \<open>After a group is marked at most one of its targets is usable, and none if verdicts differ.\<close>

lemma marks_only_usable:
  "marks_only ts us \<Longrightarrow> i < length ts \<Longrightarrow> target_usable (us ! i) \<Longrightarrow> target_usable (ts ! i)"
  by (auto simp: marks_only_def target_usable_def)

lemma set_exclusion_unusable: "i < length ts \<Longrightarrow> \<not> target_usable (set_exclusion x ts i ! i)"
  by (simp add: set_exclusion_def target_usable_def)

lemma mark_conflicting_unusable:
  "\<forall>i \<in> set is. i < length ts \<Longrightarrow> i \<in> set is \<Longrightarrow> \<not> target_usable (mark_conflicting ts is ! i)"
proof (induction ts "is" rule: mark_conflicting.induct)
  case (2 ts j "is")
  let ?ts = "if target_usable (ts ! j) then set_exclusion ConflictingTarget ts j else ts"
  have len: "length ?ts = length ts" by (simp add: set_exclusion_def)
  have marks: "marks_only ?ts (mark_conflicting ?ts is)"
    by (rule mark_conflicting_marks) (use "2.prems" len in auto)
  show ?case
  proof (cases "i \<in> set is")
    case True
    with 2 len show ?thesis by simp
  next
    case False
    with "2.prems" have "i = j" by simp
    moreover have "\<not> target_usable (?ts ! j)" using "2.prems" by (simp add: set_exclusion_unusable)
    ultimately show ?thesis using marks_only_usable [OF marks] len "2.prems" by auto
  qed
qed simp

lemma mark_duplicates_unique:
  "distinct is \<Longrightarrow> \<forall>i \<in> set is. i < length ts \<Longrightarrow> i \<in> set is \<Longrightarrow>
     target_usable (mark_duplicates seen ts is ! i) \<Longrightarrow>
     \<not> seen \<and> (\<forall>j \<in> set is. target_usable (mark_duplicates seen ts is ! j) \<longrightarrow> j = i)"
proof (induction seen ts "is" arbitrary: i rule: mark_duplicates.induct)
  case (2 seen ts k "is")
  let ?x = "set_exclusion DuplicateTarget ts k"
  have len: "length ?x = length ts" by (simp add: set_exclusion_def)
  have bounds: "\<forall>i \<in> set is. i < length ts" "k < length ts" using "2.prems" by auto
  have bx: "\<forall>i \<in> set is. i < length ?x" unfolding len by (rule bounds(1))
  note m1 = mark_duplicates_marks [OF bx, of True] and m2 = mark_duplicates_marks [OF bounds(1)]
  consider "target_usable (ts ! k)" seen | "target_usable (ts ! k)" "\<not> seen" | "\<not> target_usable (ts ! k)"
    by blast
  then show ?case
  proof cases
    case 1
    have "\<not> target_usable (mark_duplicates True ?x is ! k)"
      using marks_only_usable [OF m1, of k] set_exclusion_unusable [OF bounds(2)] bounds(2) len by auto
    moreover have "\<not> target_usable (mark_duplicates True ?x is ! i)" if "i \<in> set is"
      using "2.IH"(1) [OF 1 _ bx that] "2.prems"(1) by auto
    ultimately show ?thesis using 1 "2.prems"(3,4) by auto
  next
    case 2
    note IH = "2.IH"(2) [OF 2]
    have "\<not> target_usable (mark_duplicates True ts is ! j)" if "j \<in> set is" for j
      using IH [of j] "2.prems"(1) bounds(1) that by auto
    with 2 "2.prems" show ?thesis by auto
  next
    case 3
    have "\<not> target_usable (mark_duplicates seen ts is ! k)"
      using marks_only_usable [OF m2, of k seen] 3 bounds(2) by auto
    with 3 "2.IH"(3) [OF 3] "2.prems" bounds show ?thesis by auto
  qed
qed simp


definition group_settled :: "target list \<Rightarrow> nat list \<Rightarrow> bool" where
  "group_settled ts g \<longleftrightarrow> (\<forall>i \<in> set g. target_usable (ts ! i) \<longrightarrow>
     (\<forall>j \<in> set g. (target_usable (ts ! j) \<longrightarrow> j = i) \<and> po_verdict (t_value (ts ! j)) = po_verdict (t_value (ts ! i))))"

lemma group_settled_marks:
  assumes "marks_only ts us" and "\<forall>i \<in> set g. i < length ts" and "group_settled ts g"
  shows "group_settled us g"
proof -
  have use: "target_usable (ts ! i)" and val: "t_value (us ! i) = t_value (ts ! i)"
    if "i \<in> set g" "target_usable (us ! i)" for i
    using that assms(1,2) marks_only_usable [OF assms(1)] by (auto simp: marks_only_def)
  have val': "t_value (us ! i) = t_value (ts ! i)" if "i \<in> set g" for i
    using that assms(1,2) by (simp add: marks_only_def)
  show ?thesis
    unfolding group_settled_def
  proof (intro ballI impI conjI)
    fix i j assume ij: "i \<in> set g" "target_usable (us ! i)" "j \<in> set g"
    show "j = i" if "target_usable (us ! j)"
      using assms(3) ij that use unfolding group_settled_def by blast
    show "po_verdict (t_value (us ! j)) = po_verdict (t_value (us ! i))"
      using assms(3) ij use val' unfolding group_settled_def by metis
  qed
qed

lemma length_remdups_one:
  assumes "\<not> length (remdups xs) > 1" and "a \<in> set xs" and "b \<in> set xs"
  shows "a = b"
proof -
  have "card (set xs) \<le> 1" using assms(1) by (simp add: length_remdups_card_conv)
  then show ?thesis using assms(2,3) by (auto dest: card_le_Suc0_iff_eq [OF finite_set, THEN iffD1])
qed

lemma mark_group_settled:
  assumes "distinct g" and b: "\<forall>i \<in> set g. i < length ts"
  shows "group_settled (mark_group ts g) g"
proof (cases "length (remdups (map (\<lambda>i. po_verdict (t_value (ts ! i))) g)) > 1")
  case True
  then show ?thesis using mark_conflicting_unusable [OF b] by (auto simp: group_settled_def mark_group_def)
next
  case False
  then have same: "po_verdict (t_value (ts ! i)) = po_verdict (t_value (ts ! j))"
    if "i \<in> set g" "j \<in> set g" for i j
    using length_remdups_one [OF False] that by simp
  have v: "t_value (mark_group ts g ! i) = t_value (ts ! i)" if "i \<in> set g" for i
    using mark_group_marks [OF b] b that by (simp add: marks_only_def)
  have eq: "mark_group ts g = mark_duplicates False ts g" using False by (simp add: mark_group_def)
  show ?thesis
    unfolding group_settled_def
  proof (intro ballI impI conjI)
    fix i j assume ij: "i \<in> set g" "target_usable (mark_group ts g ! i)" "j \<in> set g"
    show "j = i" if "target_usable (mark_group ts g ! j)"
      using mark_duplicates_unique [OF assms, of i False] ij that unfolding eq by blast
    show "po_verdict (t_value (mark_group ts g ! j)) = po_verdict (t_value (mark_group ts g ! i))"
      using same [OF ij(3,1)] v [OF ij(1)] v [OF ij(3)] by simp
  qed
qed

lemma foldl_mark_group_settled:
  assumes "\<forall>g \<in> set gs. distinct g \<and> (\<forall>i \<in> set g. i < length ts)" and "g \<in> set gs"
  shows "group_settled (foldl mark_group ts gs) g"
  using assms
proof (induction gs arbitrary: ts)
  case (Cons h gs)
  let ?ts = "mark_group ts h"
  have h: "marks_only ts ?ts" using Cons.prems by (simp add: mark_group_marks)
  then have len: "length ?ts = length ts" by (rule marks_only_length)
  show ?case
  proof (cases "g \<in> set gs")
    case True
    with Cons len show ?thesis by simp
  next
    case False
    then have "g = h" using Cons.prems by simp
    then have "group_settled ?ts g" using Cons.prems by (simp add: mark_group_settled)
    moreover have "marks_only ?ts (foldl mark_group ?ts gs)"
      by (rule foldl_mark_group_marks) (use Cons.prems len in auto)
    moreover have "\<forall>i \<in> set g. i < length ?ts" using Cons.prems len \<open>g = h\<close> by simp
    ultimately show ?thesis using group_settled_marks by simp
  qed
qed simp


lemma map_index_filter_initial: "map t_index (initial_targets p r) = [0..<length (initial_targets p r)]"
  by (rule nth_equalityI) (simp_all add: initial_targets_nth)

lemma distinct_group:
  "distinct (map t_index (filter P (initial_targets p r)))"
  by (rule distinct_map_filter) (simp add: map_index_filter_initial)

text \<open>The group of a key holds exactly the indexes of the well-formed targets with that key.\<close>

lemma target_group_of:
  assumes "i < length (initial_targets p r)" and "valid_hash (po_indicator (pr_observations r ! i))"
  shows "\<exists>g \<in> set (target_groups (initial_targets p r)). distinct g \<and> (\<forall>j. j \<in> set g \<longleftrightarrow>
     j < length (initial_targets p r)
     \<and> (po_scope (pr_observations r ! j), po_indicator (pr_observations r ! j))
       = (po_scope (pr_observations r ! i), po_indicator (pr_observations r ! i)))"
proof -
  let ?ts = "initial_targets p r"
  let ?hs = "filter (\<lambda>t. valid_hash (po_indicator (t_value t))) ?ts"
  let ?k = "(po_scope (pr_observations r ! i), po_indicator (pr_observations r ! i))"
  let ?g = "map t_index (filter (\<lambda>t. target_key t = ?k) ?hs)"
  note nth = initial_targets_nth [of _ p r]
  have "?ts ! i \<in> set ?hs" "target_key (?ts ! i) = ?k"
    using assms nth [OF assms(1)] by (auto simp: target_key_def)
  then have "?k \<in> set (map target_key ?hs)" by (metis image_eqI list.set_map)
  then have "?g \<in> set (target_groups ?ts)" by (auto simp: target_groups_def Let_def)
  moreover have "distinct ?g" using distinct_group [of _ p r] by (simp add: filter_filter)
  moreover have "j \<in> set ?g \<longleftrightarrow> j < length ?ts \<and> (po_scope (pr_observations r ! j), po_indicator (pr_observations r ! j)) = ?k"
    for j
  proof
    assume "j \<in> set ?g"
    then obtain n where "n < length ?ts" "target_key (?ts ! n) = ?k" "j = t_index (?ts ! n)"
      by (auto simp: in_set_conv_nth [of _ ?ts])
    then show "j < length ?ts \<and> (po_scope (pr_observations r ! j), po_indicator (pr_observations r ! j)) = ?k"
      using nth [of n] by (simp add: target_key_def)
  next
    assume j: "j < length ?ts \<and> (po_scope (pr_observations r ! j), po_indicator (pr_observations r ! j)) = ?k"
    then have "?ts ! j \<in> set (filter (\<lambda>t. target_key t = ?k) ?hs)" "j = t_index (?ts ! j)"
      using nth [of j] assms(2) by (auto simp: target_key_def)
    then show "j \<in> set ?g" by (metis image_eqI list.set_map)
  qed
  ultimately show ?thesis by blast
qed

lemma evaluate_settled:
  assumes "g \<in> set (target_groups (initial_targets p r))" and "distinct g"
  shows "group_settled (pe_targets (provider_evaluate p r)) g"
proof (cases "length g > 1")
  case True
  have d: "distinct h" if "h \<in> set (target_groups (initial_targets p r))" for h
    using that distinct_group [of _ p r] by (auto simp: target_groups_def Let_def filter_filter)
  have "group_settled (foldl mark_group (initial_targets p r)
      (filter (\<lambda>v. length v > 1) (target_groups (initial_targets p r)))) g"
    by (rule foldl_mark_group_settled) (use True assms d target_groups_bounded in auto)
  then show ?thesis by (simp add: provider_evaluate_def Let_def)
next
  case False
  then have "i = j" if "i \<in> set g" "j \<in> set g" for i j
    using that by (cases g) auto
  then show ?thesis by (auto simp: group_settled_def)
qed

section \<open>Properties\<close>

text \<open>
  an unknown answer never becomes a detection. A reputation query counts as malicious only
  for a known envelope and a supported schema, when the query completed, every returned code
  is a documented code of the queried zone and one of them is a documented malicious code.
\<close>

theorem reputation_detection_sound:
  assumes "malicious_query e q ds"
  shows "ev_schema e = SCHEMA \<and> ev_source e \<noteq> ContentOnly \<and> q_state q = St_Complete
    \<and> rep_version (ev_reputation e) = REPUTATION_VERSION
    \<and> length (q_codes q) \<le> 32 \<and> (\<forall>c \<in> set (q_codes q). dqs_loopback c \<and> dqs_known ds c)
    \<and> (\<exists>c \<in> set (q_codes q). case ds of Zen \<Rightarrow> malicious_ip_code c | Dbl \<Rightarrow> malicious_domain_code c)"
proof -
  have "is_ok (eligible_query e q ds)" and m: "malicious_codes ds (q_codes q)"
    using assms by (simp_all add: malicious_query_def)
  moreover from m have "\<exists>c \<in> set (q_codes q). case ds of Zen \<Rightarrow> malicious_ip_code c | Dbl \<Rightarrow> malicious_domain_code c"
    by (cases ds) (auto simp: malicious_ip_def malicious_domain_def list_ex_iff)
  ultimately show ?thesis
    using malicious_query_known [OF assms] by (simp add: eligible_query_iff is_ok_dqs_codes)
qed

definition sample_evidence :: evidence where
  "sample_evidence =
     \<lparr>ev_schema = SCHEMA, ev_source = SmtpSession,
      ev_authentication = \<lparr>au_state = St_Complete, au_spf_state = St_Complete, au_spf = Some A_Pass,
        au_dkim_state = St_Complete, au_dkim = Some [A_Pass], au_dmarc_state = St_Complete,
        au_dmarc_spf = Some A_Pass, au_dmarc_dkim = Some A_Pass, au_arc_state = St_Complete,
        au_arc = Some A_None, au_arc_can_seal = None\<rparr>,
      ev_reputation = \<lparr>rep_state = St_Complete, rep_version = REPUTATION_VERSION,
        rep_ip = \<lparr>q_state = St_Complete, q_codes = [(127, 0, 0, 2)]\<rparr>, rep_domains = [],
        rep_stopped_after_positive = False\<rparr>\<rparr>"

theorem reputation_detection_sound_witness:
  "q_state (rep_ip (ev_reputation sample_evidence)) = St_Complete"
proof -
  have "malicious_query sample_evidence (rep_ip (ev_reputation sample_evidence)) Zen" by code_simp
  from reputation_detection_sound [OF this] show ?thesis by blast
qed

text \<open>
  threat-intelligence targets are counted once and never against contradicting answers. A
  usable target passed every receipt-time rule, no other usable target has the same scope and
  indicator, and every observation of the report's first 48 with that scope and indicator gives
  the same verdict.
\<close>

theorem provider_targets_settled:
  assumes "i < length (pe_targets (provider_evaluate p r))"
    and "target_usable (pe_targets (provider_evaluate p r) ! i)"
    and "j < length (pe_targets (provider_evaluate p r))"
    and "po_scope (pr_observations r ! j) = po_scope (pr_observations r ! i)"
    and "po_indicator (pr_observations r ! j) = po_indicator (pr_observations r ! i)"
  shows "provider_exclusion p r (pr_observations r ! i) = None
    \<and> (target_usable (pe_targets (provider_evaluate p r) ! j) \<longrightarrow> j = i)
    \<and> po_verdict (pr_observations r ! j) = po_verdict (pr_observations r ! i)"
proof -
  let ?ts = "initial_targets p r" and ?us = "pe_targets (provider_evaluate p r)"
  note m = provider_evaluate_marks [of p r]
  have len: "length ?us = length ?ts" by (rule marks_only_length [OF m])
  have val: "t_value (?us ! n) = pr_observations r ! n" if "n < length ?ts" for n
    using m that initial_targets_nth [OF that] by (simp add: marks_only_def)
  have ex: "provider_exclusion p r (pr_observations r ! i) = None"
    using marks_only_usable [OF m _ assms(2)] initial_targets_nth [of i p r] assms(1) len
    by (simp add: target_usable_def)
  then have h: "valid_hash (po_indicator (pr_observations r ! i))"
    by (auto simp: provider_exclusion_def split: if_splits)
  obtain g where g: "g \<in> set (target_groups ?ts)" "distinct g" "i \<in> set g" "j \<in> set g"
    using target_group_of [of i p r] h assms len by auto
  from evaluate_settled [OF g(1,2)] g(3,4) assms(2) ex val [of i] val [of j] assms(1,3) len show ?thesis
    unfolding group_settled_def by metis
qed

definition sample_report :: provider_report where
  "sample_report = \<lparr>pr_status = P_Complete, pr_captured_at = Some 1000, pr_omitted = 0,
     pr_observations = [\<lparr>po_indicator = replicate 64 (CHR ''a''), po_scope = ''file'',
        po_verdict = ''malicious'', po_queried_at = 1000\<rparr>,
       \<lparr>po_indicator = replicate 64 (CHR ''a''), po_scope = ''file'',
        po_verdict = ''malicious'', po_queried_at = 1001\<rparr>]\<rparr>"

theorem provider_targets_settled_witness:
  "\<not> target_usable (pe_targets (provider_evaluate Virustotal sample_report) ! 1)"
proof -
  have l: "length (pe_targets (provider_evaluate Virustotal sample_report)) = 2" by code_simp
  have b: "0 < length (pe_targets (provider_evaluate Virustotal sample_report))"
    "1 < length (pe_targets (provider_evaluate Virustotal sample_report))" by (simp_all only: l)
  have u: "target_usable (pe_targets (provider_evaluate Virustotal sample_report) ! 0)" by code_simp
  have "po_scope (pr_observations sample_report ! 1) = po_scope (pr_observations sample_report ! 0)"
    "po_indicator (pr_observations sample_report ! 1) = po_indicator (pr_observations sample_report ! 0)"
    by (simp_all add: sample_report_def)
  from provider_targets_settled [OF b(1) u b(2) this] show ?thesis by simp
qed

end
