(* ===== verification/NF_Scan.thy ===== *)
theory NF_Scan
  imports NF_Evidence
begin

text \<open>
  The data that travels through classification: detector results, the canonical decision,
  receipt-time records and \<open>Scan\<close> itself (\<open>src/engine.rs\<close> and the modules whose types it
  holds), with the small read-only functions over it: the language-model opinion, valid
  scores, the legacy decision and the delivered category. Fields that no modelled function
  reads or writes (timings, extracted features, subject text of other subsystems) are left
  out of the records.
\<close>

section \<open>Detector results\<close>

record signal =
  sig_id :: string
  sig_detail :: string
  sig_weight :: f64

datatype antivirus_status = Av_Disabled | Av_Clean | Av_Malware | Av_Suspicious | Av_Unscannable
  | Av_Unavailable

record antivirus_result =
  av_status :: antivirus_status
  av_signature :: "string option"

datatype outcome = Legitimate | Unwanted | Undetermined

datatype llm_status = Llm_Disabled | Llm_NotNeeded | Llm_Busy | Llm_BudgetLimited
  | Llm_PricingExpired | Llm_Unavailable | Llm_Complete

datatype llm_category = L_Legitimate | L_Spam | L_Phishing | L_Ambiguous

record llm_verdict =
  lv_category :: llm_category
  lv_spam_probability :: f64
  lv_confidence :: f64
  lv_explanation :: string

datatype grounding_issue = MissingEvidence | InvalidCitation | QuoteNotFound
  | AuthenticationNotObserved | DomainDifferenceNotObserved | OwnershipNotObserved
  | AttachmentThreatNotObserved | ExtortionNotObserved | ReportWithoutCurrentRequest
  | ConditionalNoticeWithoutThreat

record grounding_report =
  gr_version :: string
  gr_supported :: bool
  gr_accepted_citations :: nat
  gr_issues :: "grounding_issue list"

record llm_result =
  llm_status_of :: llm_status
  llm_verdict_of :: "llm_verdict option"
  llm_grounding :: "grounding_report option"

definition verdict_validate :: "llm_verdict \<Rightarrow> unit result" where
  "verdict_validate v =
     and_then (ensure (f64_is_finite (lv_spam_probability v)
         \<and> f64_within (Fin 0) (Fin 1) (lv_spam_probability v)
         \<and> f64_is_finite (lv_confidence v) \<and> f64_within (Fin 0) (Fin 1) (lv_confidence v))
         ''invalid LLM confidence'') (\<lambda>_.
     ensure (lv_explanation v \<noteq> [] \<and> length (chars (lv_explanation v)) \<le> 400
         \<and> \<not> list_ex char_is_control (chars (lv_explanation v))) ''invalid LLM explanation'')"

definition verdict_coherent :: "llm_verdict \<Rightarrow> bool" where
  "verdict_coherent v \<longleftrightarrow> is_ok (verdict_validate v) \<and>
     (case lv_category v of
        L_Legitimate \<Rightarrow> f64_lt (lv_spam_probability v) (Fin (1/2))
      | L_Spam \<Rightarrow> f64_gt (lv_spam_probability v) (Fin (1/2))
      | L_Phishing \<Rightarrow> f64_gt (lv_spam_probability v) (Fin (1/2))
      | L_Ambiguous \<Rightarrow> True)"

definition llm_opinion :: "llm_result \<Rightarrow> outcome option" where
  "llm_opinion r =
     (case option_filter (\<lambda>v. llm_status_of r = Llm_Complete \<and> is_ok (verdict_validate v))
         (llm_verdict_of r) of
        None \<Rightarrow> None
      | Some v \<Rightarrow>
          if is_some_and (llm_grounding r) (\<lambda>g. \<not> gr_supported g) then Some Undetermined
          else Some
            (if lv_category v = L_Legitimate \<and> f64_ge (lv_confidence v) (Fin (1/2))
                 \<and> f64_lt (lv_spam_probability v) (Fin (1/2))
             then Legitimate
             else if (lv_category v = L_Spam \<or> lv_category v = L_Phishing)
                 \<and> f64_ge (lv_confidence v) (Fin (1/2))
                 \<and> f64_gt (lv_spam_probability v) (Fin (1/2))
             then Unwanted
             else Undetermined))"

record message_context =
  mc_encrypted :: bool
  mc_threat_report :: bool
  mc_transaction_notice :: bool
  mc_conditional_security_notice :: bool
  mc_passive_service_notice :: bool
  mc_action_demand :: bool
  mc_direct_extortion :: bool
  mc_injected_reward_lure :: bool

datatype mailing_status = Ml_Complete | Ml_Limited

datatype mailing_verdict = Ml_None | Ml_Promotion | Ml_Newsletter | Ml_Transactional
  | Ml_Conversation

record mailing_report =
  ml_status :: mailing_status
  ml_verdict :: mailing_verdict

definition is_publicity :: "mailing_report \<Rightarrow> bool" where
  "is_publicity m \<longleftrightarrow> ml_status m = Ml_Complete \<and> ml_verdict m \<in> {Ml_Promotion, Ml_Newsletter}"

datatype category = Spam | Publicity | Cat_Legitimate | Cat_Undetermined

fun category_str :: "category \<Rightarrow> string" where
  "category_str Spam = ''spam''"
| "category_str Publicity = ''publicity''"
| "category_str Cat_Legitimate = ''legitimate''"
| "category_str Cat_Undetermined = ''undetermined''"

record finding =
  fi_id :: string
  fi_indicator :: string
  fi_sources :: "string list"

record url_resolution =
  ur_omitted :: nat
  ur_local_inventory_available :: "bool option"
  ur_chains_complete :: "bool list"

record protection_report =
  prt_observation_only :: bool
  prt_local_status :: pstatus
  prt_crdf :: provider_report
  prt_virustotal :: provider_report
  prt_findings :: "finding list"
  prt_url_resolution :: "url_resolution option"

datatype rbl_status = Rbl_NotListed | Rbl_Listed | Rbl_Policy | Rbl_Unavailable | Rbl_Skipped

record contribution =
  co_id :: string
  co_retained :: "f64 option"

record scoring_report =
  sco_version :: string
  sco_contributions :: "contribution list"

definition SCORING_VERSION :: string where
  "SCORING_VERSION = ''content-evidence-combination-3''"

definition GROUNDING_VERSION :: string where
  "GROUNDING_VERSION = ''llm-grounding-2''"

datatype fusion_mode = Fu_Observe | Fu_Decision

datatype fusion_status = Fu_Disabled | Fu_NotRun | Fu_Complete | Fu_Unavailable
  | Fu_UnsupportedProfile | Fu_ValidationExpired

record fusion_observation =
  fo_mode :: fusion_mode
  fo_status :: fusion_status
  fo_model_sha256 :: "string option"

section \<open>Decisions\<close>

datatype decision_source = Src_Legacy | Src_Fusion | Src_Antivirus

record decision =
  d_source :: decision_source
  d_outcome :: outcome
  d_score :: "f64 option"
  d_model :: string

text \<open>The derived \<open>PartialEq\<close> of \<open>Decision\<close> and of \<open>Option<Decision>\<close>.\<close>

definition decision_eq :: "decision \<Rightarrow> decision \<Rightarrow> bool" where
  "decision_eq a b \<longleftrightarrow> d_source a = d_source b \<and> d_outcome a = d_outcome b
     \<and> opt_f64_eq (d_score a) (d_score b) \<and> d_model a = d_model b"

record score_resolution =
  sr_version :: string
  sr_previous :: decision
  sr_decision :: decision
  sr_threshold :: f64
  sr_score :: "f64 option"
  sr_partial :: bool
  sr_previous_category :: "category option"
  sr_projected :: bool
  sr_guard :: "string option"

datatype resolution = Agreement | Disagreement | Ambiguous | Corroborated

record arbitration =
  ar_version :: string
  ar_baseline :: decision
  ar_opinion :: outcome
  ar_resolution :: resolution
  ar_decision :: decision

section \<open>Actions and assessments\<close>

datatype action = Deliver | Tag | Quarantine

datatype basis = TrafficPolicy | Delivery | CompleteAnalysis | PrimaryMalware | RecipientRule
  | EstablishedThreat | ScoreThreshold | ValidatedFusion | MessageKind | Unresolved

datatype requirement = R_TransportPolicyMet | R_CompleteAnalysis | R_PrimaryMalware
  | R_MatchedRecipientRule | R_EstablishedThreat | R_UsableContent | R_UsableScore
  | R_ThresholdMet | R_AutomaticScorePolicy | R_ValidatedFusion | R_MessageKind
  | R_DeterminateClassification | R_SubjectRewrite

record coverage_evaluation =
  ce_version :: string
  ce_partial_actions :: bool
  ce_basis :: basis
  ce_required :: "requirement list"
  ce_missing :: "requirement list"

record applied =
  ap_coverage :: "coverage_evaluation option"
  ap_requested :: action
  ap_effective :: action
  ap_reason :: string
  ap_quarantine_days :: u16

datatype mode = Observe | Mode_Tag | Enforce

record analysis_policy =
  pol_version :: string
  pol_threshold :: f64
  pol_mode :: mode
  pol_require_corroboration :: bool

datatype boundary_source = Content | Fusion

record calibration =
  cal_slope :: f64
  cal_intercept :: f64

record boundary =
  bo_version :: u8
  bo_source :: boundary_source
  bo_value :: f64
  bo_cutoff :: f64
  bo_index_cutoff :: f64
  bo_above :: bool
  bo_model :: string
  bo_model_sha256 :: "string option"
  bo_calibration :: "calibration option"

datatype score_kind = Sk_Unavailable | Sk_Partial | Sk_Internal | Sk_Advisory | Sk_Decision
  | Sk_Content

datatype score_source = Ss_Unavailable | Ss_Decision | Ss_Raw

datatype classification_source = Cs_ScoreThreshold | Cs_RecipientPolicy | Cs_RecordedDecision
  | Cs_HistoricalFallback

datatype subject_tag = No_Tag | Tag_Spam | Tag_Publicity

record score =
  so_value :: "f64 option"
  so_raw :: "f64 option"
  so_decision :: "f64 option"
  so_kind :: score_kind
  so_source :: score_source
  so_model :: string
  so_scale :: u8

record assessment =
  as_score_boundary :: "boundary option"
  as_score_resolution :: "score_resolution option"
  as_version :: u8
  as_score :: score
  as_category :: category
  as_classification_source :: classification_source
  as_decision :: decision
  as_decision_recorded :: bool
  as_complete :: bool
  as_incomplete_reasons :: "string list"
  as_supplementary_gaps :: "string list"
  as_content_threshold :: "f64 option"
  as_mode :: "mode option"
  as_policy_version :: "string option"
  as_action :: "applied option"
  as_subject_tag :: subject_tag

section \<open>Receipt-time records\<close>

record epoch =
  ep_sequence :: u64
  ep_revision :: int
  ep_digest :: string

datatype coverage = Cov_Complete | Cov_Partial | Cov_Unavailable

datatype classification = Cl_Legitimate | Cl_Publicity | Cl_Spam | Cl_Phishing | Cl_Malware
  | Cl_Unassessed

record analysis_result =
  an_activation_epoch :: "epoch option"
  an_score_boundary :: "boundary option"
  an_scoring :: "scoring_report option"
  an_version :: u32
  an_raw_sha256 :: "string option"
  an_score :: score
  an_detector_decision :: decision
  an_coverage :: coverage
  an_missing_checks :: "string list"
  an_supplementary_gaps :: "string list"
  an_reasons :: "signal list"

record recipient_decision =
  rd_activation_epoch :: "epoch option"
  rd_version :: u32
  rd_recorded_at :: int
  rd_policy_sha256 :: string
  rd_profile :: "string option"
  rd_rule_ids :: "string list"
  rd_classification :: classification
  rd_coverage :: coverage
  rd_assessment :: assessment

section \<open>The scan\<close>

record scan =
  scan_activation_epoch :: "epoch option"
  scan_fusion_boundary :: "boundary option"
  scan_scoring :: "scoring_report option"
  scan_subject_rewrite_ready :: "bool option"
  scan_analysis_result :: "analysis_result option"
  scan_recipient_decision :: "recipient_decision option"
  scan_score_resolution :: "score_resolution option"
  scan_message_context :: "message_context option"
  scan_delivery_classification :: "category option"
  scan_analysis_policy :: "analysis_policy option"
  scan_action :: "applied option"
  scan_score :: f64
  scan_tagged :: bool
  scan_pub_tagged :: bool
  scan_complete :: bool
  scan_features_complete :: "bool option"
  scan_model :: string
  scan_reasons :: "signal list"
  scan_subject :: string
  scan_sender :: string
  scan_raw_sha256 :: "string option"
  scan_antivirus :: antivirus_result
  scan_signatures :: antivirus_result
  scan_llm :: llm_result
  scan_early_rbl :: "rbl_status list option"
  scan_protection :: "protection_report option"
  scan_mailing :: "mailing_report option"
  scan_evidence :: "evidence option"
  scan_decision :: "decision option"
  scan_arbitration :: "arbitration option"
  scan_fusion :: fusion_observation
  scan_identity_policy_sha256 :: "string option"

definition has_reason :: "string \<Rightarrow> scan \<Rightarrow> bool" where
  "has_reason i s \<longleftrightarrow> list_ex (\<lambda>r. sig_id r = i) (scan_reasons s)"

definition retain_reasons :: "(string \<Rightarrow> bool) \<Rightarrow> scan \<Rightarrow> scan" where
  "retain_reasons keep s = s\<lparr>scan_reasons := filter (\<lambda>r. keep (sig_id r)) (scan_reasons s)\<rparr>"

definition push_reason :: "string \<Rightarrow> string \<Rightarrow> scan \<Rightarrow> scan" where
  "push_reason i detail s =
     s\<lparr>scan_reasons := scan_reasons s @ [\<lparr>sig_id = i, sig_detail = detail, sig_weight = Fin 0\<rparr>]\<rparr>"

text \<open>
  A scan on which concrete instances are evaluated: a complete analysis with a middling score
  and nothing else observed.
\<close>

definition quiet_provider :: provider_report where
  "quiet_provider = \<lparr>pr_status = P_Disabled, pr_captured_at = None, pr_omitted = 0, pr_observations = []\<rparr>"

definition clean_antivirus :: antivirus_result where
  "clean_antivirus = \<lparr>av_status = Av_Clean, av_signature = None\<rparr>"

definition sample_scan :: scan where
  "sample_scan =
     \<lparr>scan_activation_epoch = None, scan_fusion_boundary = None, scan_scoring = None,
      scan_subject_rewrite_ready = None, scan_analysis_result = None, scan_recipient_decision = None,
      scan_score_resolution = None, scan_message_context = None,
      scan_delivery_classification = None, scan_analysis_policy = None, scan_action = None,
      scan_score = Fin 60, scan_tagged = False, scan_pub_tagged = False, scan_complete = True,
      scan_features_complete = Some True, scan_model = ''m'', scan_reasons = [],
      scan_subject = [], scan_sender = [], scan_raw_sha256 = None,
      scan_antivirus = clean_antivirus, scan_signatures = clean_antivirus,
      scan_llm = \<lparr>llm_status_of = Llm_Disabled, llm_verdict_of = None, llm_grounding = None\<rparr>,
      scan_early_rbl = None, scan_protection = None, scan_mailing = None, scan_evidence = None,
      scan_decision = None, scan_arbitration = None,
      scan_fusion = \<lparr>fo_mode = Fu_Observe, fo_status = Fu_Disabled, fo_model_sha256 = None\<rparr>,
      scan_identity_policy_sha256 = None\<rparr>"

section \<open>Read-only views\<close>

definition valid_score :: "f64 option \<Rightarrow> f64 option" where
  "valid_score v = option_filter (\<lambda>x. f64_is_finite x \<and> f64_within (Fin 0) (Fin 100) x) v"

definition recorded_threshold :: "scan \<Rightarrow> f64 option" where
  "recorded_threshold s = valid_score (map_option pol_threshold (scan_analysis_policy s))"

definition decision_legacy :: "scan \<Rightarrow> f64 \<Rightarrow> decision" where
  "decision_legacy s threshold =
     \<lparr>d_source = Src_Legacy,
      d_outcome = (if \<not> scan_complete s then Undetermined
                   else if f64_ge (scan_score s) threshold then Unwanted else Legitimate),
      d_score = (if scan_complete s then Some (scan_score s) else None),
      d_model = scan_model s\<rparr>"

definition INCOMPLETE_REASONS :: "string list" where
  "INCOMPLETE_REASONS =
     [''score_combination_invalid'', ''encrypted_content'', ''analysis_budget'',
      ''signature_budget'', ''checks_unavailable'', ''llm_unavailable'', ''semantic_unavailable'',
      ''smtp_policy_unavailable'', ''vision_incomplete'', ''complementary_signature_unavailable'']"

definition readable_with_dns_gap :: "scan \<Rightarrow> bool" where
  "readable_with_dns_gap s \<longleftrightarrow>
     scan_features_complete s = Some True
     \<and> av_status (scan_antivirus s) \<notin> {Av_Unavailable, Av_Unscannable}
     \<and> has_reason ''smtp_policy_unavailable'' s
     \<and> list_all (\<lambda>r. sig_id r \<notin> set INCOMPLETE_REASONS \<or> sig_id r = ''smtp_policy_unavailable'')
         (scan_reasons s)"

definition scan_category :: "scan \<Rightarrow> f64 \<Rightarrow> category" where
  "scan_category s threshold =
     (case scan_recipient_decision s of
        Some record \<Rightarrow> as_category (rd_assessment record)
      | None \<Rightarrow>
         (case scan_delivery_classification s of
            Some c \<Rightarrow> c
          | None \<Rightarrow>
             (let d = unwrap_or (scan_decision s)
                        (decision_legacy s (unwrap_or (recorded_threshold s) threshold))
              in case d_outcome d of
                   Unwanted \<Rightarrow> Spam
                 | Undetermined \<Rightarrow> Cat_Undetermined
                 | Legitimate \<Rightarrow>
                     if (scan_complete s \<or> readable_with_dns_gap s)
                        \<and> is_some_and (scan_mailing s) is_publicity
                     then Publicity else Cat_Legitimate)))"

section \<open>Lemmas\<close>

lemma valid_score_Some_iff:
  "valid_score v = Some x \<longleftrightarrow> v = Some x \<and> (\<exists>q. x = Fin q \<and> 0 \<le> q \<and> q \<le> 100)"
  by (cases x) (auto simp: valid_score_def f64_within_def)

lemma valid_score_None [simp]: "valid_score None = None"
  by (simp add: valid_score_def option_filter_def)

lemma valid_score_not_NaN: "valid_score v = Some x \<Longrightarrow> x \<noteq> NaN"
  by (auto simp: valid_score_Some_iff)

lemma valid_score_Fin: "valid_score (Some (Fin q)) = (if 0 \<le> q \<and> q \<le> 100 then Some (Fin q) else None)"
  by (auto simp: valid_score_def option_filter_def f64_within_def)

lemma valid_score_idem [simp]: "valid_score (valid_score v) = valid_score v"
  by (auto simp: valid_score_def option_filter_def split: option.splits)

lemma decision_eq_imp: "decision_eq a b \<Longrightarrow> a = b"
  by (cases a; cases b) (auto simp: decision_eq_def dest: opt_f64_eq_imp)

lemma decision_eq_refl_iff: "decision_eq d d \<longleftrightarrow> d_score d \<noteq> Some NaN"
  by (simp add: decision_eq_def opt_f64_eq_refl_iff)

lemma has_reason_retain [simp]: "has_reason i (retain_reasons keep s) \<longleftrightarrow> keep i \<and> has_reason i s"
  by (auto simp: has_reason_def retain_reasons_def list_ex_iff)

lemma has_reason_push [simp]: "has_reason i (push_reason j d s) \<longleftrightarrow> i = j \<or> has_reason i s"
  by (auto simp: has_reason_def push_reason_def)

text \<open>
  The canonical decision, its explanation rows and the wire marks are policy state. What is
  left is what the detectors measured: no policy stage may change it.
\<close>

definition POLICY_REASONS :: "string list" where
  "POLICY_REASONS =
     [''malware_priority'', ''advisory_disagreement'', ''context_requires_review'',
      ''observed_threat_partial'', ''score_threshold_resolution'', ''confirmation_missing'']"

definition observations :: "scan \<Rightarrow> scan" where
  "observations s =
     s\<lparr>scan_decision := None, scan_arbitration := None, scan_score_resolution := None,
       scan_delivery_classification := None, scan_tagged := False, scan_pub_tagged := False,
       scan_reasons := filter (\<lambda>r. sig_id r \<notin> set POLICY_REASONS) (scan_reasons s)\<rparr>"

lemma observations_simps [frame_simps]:
  "observations (s\<lparr>scan_decision := d\<rparr>) = observations s"
  "observations (s\<lparr>scan_arbitration := a\<rparr>) = observations s"
  "observations (s\<lparr>scan_score_resolution := r\<rparr>) = observations s"
  "observations (s\<lparr>scan_delivery_classification := c\<rparr>) = observations s"
  "observations (s\<lparr>scan_tagged := b\<rparr>) = observations s"
  "observations (s\<lparr>scan_pub_tagged := b\<rparr>) = observations s"
  by (simp_all add: observations_def)

lemma observations_push [frame_simps]:
  "i \<in> set POLICY_REASONS \<Longrightarrow> observations (push_reason i d s) = observations s"
  by (simp add: observations_def push_reason_def)

lemma observations_retain:
  assumes "\<And>i. i \<notin> set POLICY_REASONS \<Longrightarrow> keep i"
  shows "observations (retain_reasons keep s) = observations s"
proof -
  have "filter (\<lambda>r. keep (sig_id r) \<and> sig_id r \<notin> set POLICY_REASONS) xs
        = filter (\<lambda>r. sig_id r \<notin> set POLICY_REASONS) xs" for xs :: "signal list"
    using assms by (auto intro: filter_cong)
  then show ?thesis by (simp add: observations_def retain_reasons_def)
qed

lemma observations_retain_ne [frame_simps]:
  "k \<in> set POLICY_REASONS \<Longrightarrow> observations (retain_reasons (\<lambda>i. i \<noteq> k) s) = observations s"
  by (rule observations_retain) auto

lemma retain_reasons_fields [simp]:
  "scan_decision (retain_reasons keep s) = scan_decision s"
  "scan_complete (retain_reasons keep s) = scan_complete s"
  "scan_arbitration (retain_reasons keep s) = scan_arbitration s"
  "scan_score_resolution (retain_reasons keep s) = scan_score_resolution s"
  "scan_delivery_classification (retain_reasons keep s) = scan_delivery_classification s"
  "scan_tagged (retain_reasons keep s) = scan_tagged s"
  "scan_pub_tagged (retain_reasons keep s) = scan_pub_tagged s"
  "scan_recipient_decision (retain_reasons keep s) = scan_recipient_decision s"
  "scan_antivirus (retain_reasons keep s) = scan_antivirus s"
  "scan_signatures (retain_reasons keep s) = scan_signatures s"
  "scan_llm (retain_reasons keep s) = scan_llm s"
  "scan_evidence (retain_reasons keep s) = scan_evidence s"
  "scan_message_context (retain_reasons keep s) = scan_message_context s"
  "scan_scoring (retain_reasons keep s) = scan_scoring s"
  "scan_protection (retain_reasons keep s) = scan_protection s"
  "scan_mailing (retain_reasons keep s) = scan_mailing s"
  "scan_features_complete (retain_reasons keep s) = scan_features_complete s"
  "scan_score (retain_reasons keep s) = scan_score s"
  "scan_model (retain_reasons keep s) = scan_model s"
  "scan_analysis_policy (retain_reasons keep s) = scan_analysis_policy s"
  "scan_analysis_result (retain_reasons keep s) = scan_analysis_result s"
  "scan_fusion (retain_reasons keep s) = scan_fusion s"
  "scan_subject_rewrite_ready (retain_reasons keep s) = scan_subject_rewrite_ready s"
  "scan_action (retain_reasons keep s) = scan_action s"
  by (simp_all add: retain_reasons_def)

lemma push_reason_fields [simp]:
  "scan_decision (push_reason i d s) = scan_decision s"
  "scan_complete (push_reason i d s) = scan_complete s"
  "scan_arbitration (push_reason i d s) = scan_arbitration s"
  "scan_score_resolution (push_reason i d s) = scan_score_resolution s"
  "scan_delivery_classification (push_reason i d s) = scan_delivery_classification s"
  "scan_tagged (push_reason i d s) = scan_tagged s"
  "scan_pub_tagged (push_reason i d s) = scan_pub_tagged s"
  "scan_recipient_decision (push_reason i d s) = scan_recipient_decision s"
  "scan_antivirus (push_reason i d s) = scan_antivirus s"
  "scan_signatures (push_reason i d s) = scan_signatures s"
  "scan_llm (push_reason i d s) = scan_llm s"
  "scan_evidence (push_reason i d s) = scan_evidence s"
  "scan_message_context (push_reason i d s) = scan_message_context s"
  "scan_scoring (push_reason i d s) = scan_scoring s"
  "scan_protection (push_reason i d s) = scan_protection s"
  "scan_mailing (push_reason i d s) = scan_mailing s"
  "scan_features_complete (push_reason i d s) = scan_features_complete s"
  "scan_score (push_reason i d s) = scan_score s"
  "scan_model (push_reason i d s) = scan_model s"
  "scan_analysis_policy (push_reason i d s) = scan_analysis_policy s"
  "scan_analysis_result (push_reason i d s) = scan_analysis_result s"
  "scan_fusion (push_reason i d s) = scan_fusion s"
  "scan_subject_rewrite_ready (push_reason i d s) = scan_subject_rewrite_ready s"
  "scan_action (push_reason i d s) = scan_action s"
  by (simp_all add: push_reason_def)

lemma observations_fields:
  assumes "observations s = observations t"
  shows "scan_score s = scan_score t"
    and "scan_complete s = scan_complete t"
    and "scan_features_complete s = scan_features_complete t"
    and "scan_model s = scan_model t"
    and "scan_antivirus s = scan_antivirus t"
    and "scan_signatures s = scan_signatures t"
    and "scan_llm s = scan_llm t"
    and "scan_evidence s = scan_evidence t"
    and "scan_message_context s = scan_message_context t"
    and "scan_scoring s = scan_scoring t"
    and "scan_protection s = scan_protection t"
    and "scan_mailing s = scan_mailing t"
    and "scan_recipient_decision s = scan_recipient_decision t"
    and "scan_analysis_policy s = scan_analysis_policy t"
    and "scan_analysis_result s = scan_analysis_result t"
    and "scan_fusion s = scan_fusion t"
    and "scan_subject_rewrite_ready s = scan_subject_rewrite_ready t"
    and "scan_subject s = scan_subject t"
    and "scan_sender s = scan_sender t"
  using arg_cong [OF assms, of scan_score]
    arg_cong [OF assms, of scan_complete]
    arg_cong [OF assms, of scan_features_complete]
    arg_cong [OF assms, of scan_model]
    arg_cong [OF assms, of scan_antivirus]
    arg_cong [OF assms, of scan_signatures]
    arg_cong [OF assms, of scan_llm]
    arg_cong [OF assms, of scan_evidence]
    arg_cong [OF assms, of scan_message_context]
    arg_cong [OF assms, of scan_scoring]
    arg_cong [OF assms, of scan_protection]
    arg_cong [OF assms, of scan_mailing]
    arg_cong [OF assms, of scan_recipient_decision]
    arg_cong [OF assms, of scan_analysis_policy]
    arg_cong [OF assms, of scan_analysis_result]
    arg_cong [OF assms, of scan_fusion]
    arg_cong [OF assms, of scan_subject_rewrite_ready]
    arg_cong [OF assms, of scan_subject]
    arg_cong [OF assms, of scan_sender]
  by (simp_all add: observations_def)

end
