(* ===== verification/NF_Confirmation.thy ===== *)
theory NF_Confirmation
  imports NF_Scan
begin

text \<open>
  Corroboration of an uncalibrated score (\<open>src/confirmation.rs\<close>) and the review conditions of
  a message's context (\<open>needs_review\<close> in \<open>src/message_context.rs\<close>). Both read detector
  observations only, which is what lets the policy stages be re-run without treating their
  own abstentions as evidence.
\<close>

definition CONFIRMATION_REVIEW_REASON :: string where
  "CONFIRMATION_REVIEW_REASON = ''confirmation_missing''"

definition DECISION_REVIEW_REASON :: string where
  "DECISION_REVIEW_REASON = ''advisory_disagreement''"

definition retained_reward_lure :: "scoring_report \<Rightarrow> bool" where
  "retained_reward_lure ledger \<longleftrightarrow>
     sco_version ledger = SCORING_VERSION \<and>
     list_ex (\<lambda>r. co_id r = ''injected_reward_lure''
         \<and> is_some_and (co_retained r) (\<lambda>v. f64_is_finite v \<and> f64_gt v (Fin 0)))
       (sco_contributions ledger)"

definition corroborated :: "scan \<Rightarrow> bool" where
  "corroborated s =
     (if av_status (scan_antivirus s) = Av_Malware then True
      else (case scan_evidence s of
          None \<Rightarrow> False
        | Some e \<Rightarrow>
            if \<not> is_ok (eligible_context e) then False
            else if is_some_and (scan_message_context s) mc_injected_reward_lure
                 \<and> is_some_and (scan_scoring s) retained_reward_lure then True
            else if is_ok (eligible_authentication e Dmarc)
                 \<and> au_dmarc_spf (ev_authentication e) = Some A_Fail
                 \<and> au_dmarc_dkim (ev_authentication e) = Some A_Fail then True
            else if malicious_query e (rep_ip (ev_reputation e)) Zen then True
            else list_ex (\<lambda>d. malicious_query e (dq_result d) Dbl)
                   (take 12 (rep_domains (ev_reputation e)))))"

definition needs_review :: "scan \<Rightarrow> bool" where
  "needs_review s =
     (case scan_message_context s of
        None \<Rightarrow> False
      | Some c \<Rightarrow>
          if \<not> (mc_threat_report c \<or> mc_transaction_notice c \<or> mc_conditional_security_notice c
                 \<or> mc_passive_service_notice c)
             \<or> mc_action_demand c \<or> mc_direct_extortion c \<or> mc_injected_reward_lure c
             \<or> corroborated s
          then False
          else (case scan_evidence s of None \<Rightarrow> False | Some e \<Rightarrow> dmarc_pass e))"

definition CONFIRMATION_DETAIL :: string where
  "CONFIRMATION_DETAIL =
     ''Required corroboration is missing: the content index alone cannot classify this message as spam. Automatic policy accepts it without claiming legitimacy.''"

definition confirmation_apply :: "scan \<Rightarrow> bool \<Rightarrow> scan" where
  "confirmation_apply s enabled =
     (let already_reviewed = has_reason CONFIRMATION_REVIEW_REASON s
                             \<or> has_reason DECISION_REVIEW_REASON s;
          s1 = retain_reasons (\<lambda>i. i \<noteq> CONFIRMATION_REVIEW_REASON) s
      in if \<not> enabled \<or> corroborated s1 then s1
         else (case scan_decision s1 of
             None \<Rightarrow> s1
           | Some d \<Rightarrow>
               if d_source d = Src_Legacy
                  \<and> (d_outcome d = Unwanted
                     \<or> (d_outcome d = Undetermined \<and> (already_reviewed \<or> \<not> scan_complete s1)))
               then push_reason CONFIRMATION_REVIEW_REASON CONFIRMATION_DETAIL
                      (s1\<lparr>scan_decision := Some (d\<lparr>d_outcome := Undetermined\<rparr>),
                          scan_tagged := False, scan_pub_tagged := False\<rparr>)
               else s1))"

section \<open>Audit counters\<close>

record counts =
  spam_detected :: nat
  spam_missed :: nat
  spam_to_review :: nat
  legitimate :: nat
  false_positives :: nat
  legitimate_to_review :: nat

fun counts_add :: "counts \<Rightarrow> outcome \<Rightarrow> bool \<Rightarrow> counts" where
  "counts_add c Unwanted True = c\<lparr>spam_detected := spam_detected c + 1\<rparr>"
| "counts_add c Legitimate True = c\<lparr>spam_missed := spam_missed c + 1\<rparr>"
| "counts_add c Undetermined True = c\<lparr>spam_to_review := spam_to_review c + 1\<rparr>"
| "counts_add c Unwanted False = c\<lparr>false_positives := false_positives c + 1\<rparr>"
| "counts_add c Legitimate False = c\<lparr>legitimate := legitimate c + 1\<rparr>"
| "counts_add c Undetermined False = c\<lparr>legitimate_to_review := legitimate_to_review c + 1\<rparr>"

section \<open>Lemmas\<close>

lemma CONFIRMATION_REASON_policy [simp]: "CONFIRMATION_REVIEW_REASON \<in> set POLICY_REASONS"
  by (simp add: CONFIRMATION_REVIEW_REASON_def POLICY_REASONS_def)

lemma review_reasons_distinct [simp]: "CONFIRMATION_REVIEW_REASON \<noteq> DECISION_REVIEW_REASON"
  by (simp add: CONFIRMATION_REVIEW_REASON_def DECISION_REVIEW_REASON_def)

text \<open>Corroboration, review and readability are functions of the observations alone.\<close>

lemma corroborated_observations:
  assumes "observations s = observations t"
  shows "corroborated s = corroborated t"
  by (simp only: corroborated_def observations_fields [OF assms])

lemma needs_review_observations:
  assumes "observations s = observations t"
  shows "needs_review s = needs_review t"
  by (simp only: needs_review_def observations_fields [OF assms] corroborated_observations [OF assms])

lemma reasons_observations:
  assumes "observations s = observations t"
  shows "filter (\<lambda>r. sig_id r \<notin> set POLICY_REASONS) (scan_reasons s)
       = filter (\<lambda>r. sig_id r \<notin> set POLICY_REASONS) (scan_reasons t)"
  using arg_cong [OF assms, of scan_reasons] by (simp add: observations_def)

lemma has_reason_observations:
  assumes "observations s = observations t" and "i \<notin> set POLICY_REASONS"
  shows "has_reason i s = has_reason i t"
proof -
  have "has_reason i u \<longleftrightarrow>
      (\<exists>r \<in> set (filter (\<lambda>r. sig_id r \<notin> set POLICY_REASONS) (scan_reasons u)). sig_id r = i)" for u
    using assms(2) by (auto simp: has_reason_def list_ex_iff)
  then show ?thesis by (simp only: reasons_observations [OF assms(1)])
qed

lemma INCOMPLETE_not_POLICY: "i \<in> set INCOMPLETE_REASONS \<Longrightarrow> i \<notin> set POLICY_REASONS"
  by (auto simp: INCOMPLETE_REASONS_def POLICY_REASONS_def)

lemma other_gap_has_reason:
  "list_all (\<lambda>r. sig_id r \<notin> set INCOMPLETE_REASONS \<or> sig_id r = k) (scan_reasons s)
   \<longleftrightarrow> (\<forall>i \<in> set INCOMPLETE_REASONS. i \<noteq> k \<longrightarrow> \<not> has_reason i s)"
  by (auto simp: list_all_iff has_reason_def list_ex_iff)

lemma readable_with_dns_gap_observations:
  assumes "observations s = observations t"
  shows "readable_with_dns_gap s = readable_with_dns_gap t"
proof -
  have gap: "has_reason i s = has_reason i t" if "i \<in> set INCOMPLETE_REASONS" for i
    using has_reason_observations [OF assms] INCOMPLETE_not_POLICY that by blast
  have smtp: "''smtp_policy_unavailable'' \<in> set INCOMPLETE_REASONS"
    by (simp add: INCOMPLETE_REASONS_def)
  show ?thesis
    unfolding readable_with_dns_gap_def other_gap_has_reason
    using gap gap [OF smtp] by (auto simp: observations_fields [OF assms])
qed

text \<open>The contract of a policy stage: it may rewrite the policy state, nothing else.\<close>

locale policy_stage =
  fixes stage :: "scan \<Rightarrow> scan"
  assumes stage_observations: "observations (stage s) = observations s"
begin

lemma stage_corroborated: "corroborated (stage s) = corroborated s"
  by (rule corroborated_observations) (rule stage_observations)

lemma stage_needs_review: "needs_review (stage s) = needs_review s"
  by (rule needs_review_observations) (rule stage_observations)

lemma stage_readable: "readable_with_dns_gap (stage s) = readable_with_dns_gap s"
  by (rule readable_with_dns_gap_observations) (rule stage_observations)

lemmas stage_fields = observations_fields [OF stage_observations]

lemma stage_has_reason: "i \<notin> set POLICY_REASONS \<Longrightarrow> has_reason i (stage s) = has_reason i s"
  by (rule has_reason_observations) (rule stage_observations)

lemma iterated_observations: "observations ((stage ^^ n) s) = observations s"
  by (induction n) (simp_all add: stage_observations)

end

lemma policy_stage_compose:
  "policy_stage f \<Longrightarrow> policy_stage g \<Longrightarrow> policy_stage (\<lambda>s. f (g s))"
  by (simp add: policy_stage_def)

lemma confirmation_observations [frame_simps]:
  "observations (confirmation_apply s enabled) = observations s"
  by (simp add: confirmation_apply_def Let_def frame_simps split: option.split)

interpretation confirm: policy_stage "\<lambda>s. confirmation_apply s enabled" for enabled
  by unfold_locales (rule confirmation_observations)

lemma corroborated_retain [simp]:
  "corroborated (retain_reasons keep s) = corroborated s"
  by (simp only: corroborated_def retain_reasons_fields)

lemma confirmation_never_promotes:
  "scan_decision (confirmation_apply s en) = Some d \<Longrightarrow>
     \<exists>d0. scan_decision s = Some d0 \<and> (d = d0 \<or> d = d0\<lparr>d_outcome := Undetermined\<rparr>)"
  by (auto simp: confirmation_apply_def Let_def split: if_splits option.splits)

lemma confirmation_required:
  assumes "\<not> corroborated s" and "scan_decision (confirmation_apply s True) = Some d"
    and "d_source d = Src_Legacy"
  shows "d_outcome d \<noteq> Unwanted"
  using assms
  by (auto simp: confirmation_apply_def Let_def split: if_splits option.splits)

end
