(* ===== verification/NF_Decision.thy ===== *)
theory NF_Decision
  imports NF_Confirmation
begin

text \<open>
  The canonical decision of a message (\<open>src/decision.rs\<close>): malware priority, observed threats
  under partial coverage, arbitration between the historical score and the second opinion,
  and the final resolution of every abstention by the configured threshold. The lemmas show
  that the stages leave detector results alone, only ever abstain on the way to the final
  policy, and always end in a definite classification.
\<close>

definition DECISION_VERSION :: string where "DECISION_VERSION = ''decision-policy-15''"
definition MALWARE_REASON :: string where "MALWARE_REASON = ''malware_priority''"
definition CONTEXT_REASON :: string where "CONTEXT_REASON = ''context_requires_review''"
definition OBSERVED_THREAT_REASON :: string where
  "OBSERVED_THREAT_REASON = ''observed_threat_partial''"
definition SCORE_RESOLUTION_REASON :: string where
  "SCORE_RESOLUTION_REASON = ''score_threshold_resolution''"

section \<open>Resolution by score\<close>

definition restore_score_resolution :: "scan \<Rightarrow> scan" where
  "restore_score_resolution s =
     (let s1 = s\<lparr>scan_score_resolution := None\<rparr>;
          s2 = (case scan_score_resolution s of
                  None \<Rightarrow> s1
                | Some previous \<Rightarrow>
                    if is_some_and (scan_decision s1) (\<lambda>d. decision_eq d (sr_decision previous))
                    then s1\<lparr>scan_decision := Some (sr_previous previous),
                            scan_delivery_classification := sr_previous_category previous\<rparr>
                    else s1)
      in retain_reasons (\<lambda>i. i \<noteq> SCORE_RESOLUTION_REASON) s2)"

definition known_malicious_finding :: "protection_report \<Rightarrow> finding \<Rightarrow> bool" where
  "known_malicious_finding p f \<longleftrightarrow>
     list_ex (\<lambda>(name, provider, report).
         name \<in> set (fi_sources f)
         \<and> list_ex (\<lambda>t. target_malicious t \<and> po_indicator (t_value t) = fi_indicator f)
             (pe_targets (provider_evaluate provider report)))
       [(''crdf'', Crdf, prt_crdf p), (''virustotal'', Virustotal, prt_virustotal p)]"

definition active_threat_finding :: "protection_report \<Rightarrow> finding \<Rightarrow> bool" where
  "active_threat_finding p f =
     (if fi_id f = ''known_malicious_indicator'' then known_malicious_finding p f
      else fi_id f \<in> set [''known_phishing_url'', ''confirmed_campaign'', ''lookalike_sender'',
             ''protected_display_name'', ''reply_domain_mismatch''])"

definition authenticated_benign_conflict :: "scan \<Rightarrow> bool" where
  "authenticated_benign_conflict s =
     (if \<not> (scan_complete s \<or> readable_with_dns_gap s)
         \<or> scan_features_complete s \<noteq> Some True
         \<or> av_status (scan_antivirus s) \<noteq> Av_Clean
         \<or> av_status (scan_signatures s) \<noteq> Av_Clean
         \<or> corroborated s
         \<or> is_some_and (scan_protection s) (\<lambda>p. \<not> prt_observation_only p
              \<and> list_ex (active_threat_finding p) (prt_findings p))
         \<or> \<not> is_some_and (scan_evidence s) dmarc_pass
         \<or> is_none_or (scan_message_context s) (\<lambda>c. mc_encrypted c \<or> mc_action_demand c
              \<or> mc_direct_extortion c \<or> mc_injected_reward_lure c)
      then False
      else (let opinion = llm_opinion (scan_llm s) in
        if opinion = Some Unwanted then False
        else needs_review s
             \<or> (opinion = Some Legitimate
                \<and> is_some_and (llm_grounding (scan_llm s)) (\<lambda>g. gr_version g = GROUNDING_VERSION
                     \<and> gr_supported g \<and> gr_accepted_citations g > 0 \<and> gr_issues g = []))))"

definition resolution_detail :: "bool \<Rightarrow> bool \<Rightarrow> f64 option \<Rightarrow> f64 \<Rightarrow> string" where
  "resolution_detail benign_conflict corroboration_missing sc threshold =
     (if benign_conflict then
        ''Accepted by conflict policy: observed aligned authentication and grounded benign analysis or reporting context contradict the uncalibrated index. No confirmed threat overrides this guard. The original score remains diagnostic, not proof of spam or safety.''
      else if corroboration_missing then
        ''Accepted by configured policy: required corroboration is missing. The content index remains visible but cannot confirm itself. This is not proof of legitimacy.''
      else (case sc of
          None \<Rightarrow> ''No usable content score: automatic fail-open classification; analysis remains unavailable.''
        | Some x \<Rightarrow> ''Automatic classification by configured policy: content index '' @ fmt2 x
            @ '' compared with threshold '' @ fmt2 threshold
            @ ''. Detector uncertainty remains recorded; no manual review is required.''))"

text \<open>What the resolution of an abstention is computed from, and the new policy state.\<close>

definition corroboration_missing :: "scan \<Rightarrow> bool" where
  "corroboration_missing s \<longleftrightarrow> has_reason CONFIRMATION_REVIEW_REASON s \<and> \<not> corroborated s"

definition usable_score :: "scan \<Rightarrow> f64 option" where
  "usable_score s =
     (if scan_features_complete s \<noteq> Some False then valid_score (Some (scan_score s)) else None)"

definition resolve_abstention :: "scan \<Rightarrow> decision \<Rightarrow> f64 \<Rightarrow> scan" where
  "resolve_abstention s previous threshold =
     (let sc = usable_score s;
          missing = corroboration_missing s;
          benign_conflict = (\<not> missing \<and> d_source previous = Src_Legacy
                             \<and> authenticated_benign_conflict s);
          guard = (if missing then Some ''corroboration_required''
                   else if benign_conflict then Some ''authenticated_benign_conflict''
                   else None);
          decision = \<lparr>d_source = Src_Legacy,
                      d_outcome = (if guard = None \<and> is_some_and sc (\<lambda>x. f64_ge x threshold)
                                   then Unwanted else Legitimate),
                      d_score = sc, d_model = scan_model s\<rparr>;
          previous_category = scan_delivery_classification s;
          s1 = (if previous_category = Some Cat_Undetermined
                then s\<lparr>scan_delivery_classification := None\<rparr> else s)
      in push_reason SCORE_RESOLUTION_REASON
           (resolution_detail benign_conflict missing sc threshold)
           (s1\<lparr>scan_decision := Some decision,
               scan_score_resolution := Some
                 \<lparr>sr_version = (if benign_conflict then ''score-resolution-3''
                                else if missing then ''score-resolution-2''
                                else ''score-resolution-1''),
                  sr_previous = previous, sr_decision = decision, sr_threshold = threshold,
                  sr_score = sc, sr_partial = (\<not> scan_complete s1),
                  sr_previous_category = previous_category, sr_projected = False,
                  sr_guard = guard\<rparr>\<rparr>))"

definition resolve_by_score :: "scan \<Rightarrow> bool \<Rightarrow> f64 \<Rightarrow> scan" where
  "resolve_by_score s0 enabled threshold =
     (let s = restore_score_resolution s0 in
      if \<not> enabled \<or> valid_score (Some threshold) = None then s
      else (let previous = unwrap_or (scan_decision s) (decision_legacy s threshold) in
        if d_source previous = Src_Antivirus
           \<or> (d_outcome previous \<noteq> Undetermined
              \<and> scan_delivery_classification s \<noteq> Some Cat_Undetermined)
        then s
        else resolve_abstention s previous threshold))"

definition finalize :: "scan \<Rightarrow> f64 \<Rightarrow> scan" where
  "finalize s threshold = resolve_by_score s True threshold"

definition project_history :: "scan \<Rightarrow> bool \<Rightarrow> f64 \<Rightarrow> scan" where
  "project_history s enabled fallback_threshold =
     (if \<not> enabled \<or> scan_score_resolution s \<noteq> None \<or> scan_recipient_decision s \<noteq> None then s
      else (let s1 = resolve_by_score s True
                       (unwrap_or (recorded_threshold s) fallback_threshold)
            in s1\<lparr>scan_score_resolution :=
                   map_option (\<lambda>r. r\<lparr>sr_projected := True\<rparr>) (scan_score_resolution s1)\<rparr>))"

section \<open>Observed threats\<close>

definition phishing_signature :: "scan \<Rightarrow> bool" where
  "phishing_signature s \<longleftrightarrow>
     av_status (scan_signatures s) = Av_Suspicious
     \<and> is_some_and (av_signature (scan_signatures s)) (starts_with ''Sanesecurity.Phishing.'')"

definition phishing_analysis :: "scan \<Rightarrow> bool" where
  "phishing_analysis s \<longleftrightarrow>
     llm_opinion (scan_llm s) = Some Unwanted
     \<and> is_some_and (llm_verdict_of (scan_llm s)) (\<lambda>v. lv_category v = L_Phishing
          \<and> f64_ge (lv_confidence v) (Fin (9/10)) \<and> f64_ge (lv_spam_probability v) (Fin (9/10)))"

definition unauthenticated_sender :: "evidence \<Rightarrow> bool" where
  "unauthenticated_sender e \<longleftrightarrow>
     (let a = ev_authentication e in
      ev_source e = SmtpSession
      \<and> au_state a = St_Complete
      \<and> au_spf_state a = St_Complete \<and> au_spf a \<in> {Some A_Fail, Some A_SoftFail}
      \<and> au_dkim_state a = St_Complete
      \<and> is_some_and (au_dkim a) (list_all (\<lambda>r. r \<in> {A_None, A_Fail}))
      \<and> au_dmarc_state a = St_Complete
      \<and> au_dmarc_spf a \<in> {Some A_None, Some A_Fail}
      \<and> au_dmarc_dkim a \<in> {Some A_None, Some A_Fail}
      \<and> au_arc_state a = St_Complete
      \<and> au_arc a \<in> {Some A_None, Some A_Fail})"

definition observed_threat_with_partial_coverage :: "scan \<Rightarrow> bool" where
  "observed_threat_with_partial_coverage s =
     (case scan_message_context s of
        None \<Rightarrow> False
      | Some c \<Rightarrow>
         (let signature = phishing_signature s;
              llm = phishing_analysis s;
              allowed_missing = (\<lambda>i. i = ''smtp_policy_unavailable''
                  \<or> (mc_direct_extortion c \<and> signature \<and> i = ''llm_unavailable''))
          in if scan_complete s \<or> scan_features_complete s \<noteq> Some True
                \<or> av_status (scan_antivirus s) \<noteq> Av_Clean
                \<or> mc_encrypted c \<or> mc_threat_report c \<or> mc_transaction_notice c
                \<or> \<not> list_ex (\<lambda>r. allowed_missing (sig_id r)) (scan_reasons s)
                \<or> list_ex (\<lambda>r. sig_id r \<in> set INCOMPLETE_REASONS \<and> \<not> allowed_missing (sig_id r))
                     (scan_reasons s)
                \<or> \<not> ((signature \<and> llm) \<or> (mc_direct_extortion c \<and> (signature \<or> llm)))
                \<or> llm_opinion (scan_llm s) = Some Legitimate
             then False
             else (case scan_evidence s of
                 None \<Rightarrow> False
               | Some e \<Rightarrow>
                   if list_ex (\<lambda>check. \<not> is_ok (eligible_authentication e check))
                        [Spf, Dkim, Dmarc, Arc]
                   then False
                   else unauthenticated_sender e)))"

section \<open>Arbitration\<close>

definition DISAGREEMENT_DETAIL :: string where
  "DISAGREEMENT_DETAIL =
     ''The historical ranking and the second opinion contradict each other: automatic policy determines the final classification. The raw score is kept as a diagnosis; neither opinion alone proves the legitimacy or undesirableness of the message.''"

definition AMBIGUOUS_DETAIL :: string where
  "AMBIGUOUS_DETAIL =
     ''The second opinion is ambiguous or insufficiently assured: automatic policy determines the final classification. Uncertainty does not constitute a spam detection or proof of legitimacy.''"

definition arbitration_resolution :: "scan \<Rightarrow> decision \<Rightarrow> outcome \<Rightarrow> resolution" where
  "arbitration_resolution s baseline opinion =
     (if opinion = d_outcome baseline then Agreement
      else if opinion \<noteq> Undetermined then Disagreement
      else if d_outcome baseline = Unwanted \<and> corroborated s then Corroborated
      else Ambiguous)"

definition abstain :: "decision \<Rightarrow> scan \<Rightarrow> scan" where
  "abstain d s =
     s\<lparr>scan_decision := Some (d\<lparr>d_outcome := Undetermined, d_score := None\<rparr>),
       scan_tagged := False, scan_pub_tagged := False\<rparr>"

definition arbitrate :: "scan \<Rightarrow> arbitration option \<times> scan" where
  "arbitrate s =
     (case scan_decision s of
        None \<Rightarrow> (None, s)
      | Some baseline \<Rightarrow>
          if \<not> scan_complete s \<or> d_source baseline \<noteq> Src_Legacy
             \<or> d_outcome baseline = Undetermined
          then (None, s)
          else (case llm_opinion (scan_llm s) of
              None \<Rightarrow> (None, s)
            | Some opinion \<Rightarrow>
               (let r = arbitration_resolution s baseline opinion;
                    s1 = (if r = Disagreement \<or> r = Ambiguous
                          then push_reason DECISION_REVIEW_REASON
                                 (if r = Disagreement then DISAGREEMENT_DETAIL
                                  else AMBIGUOUS_DETAIL)
                                 (abstain baseline s)
                          else s)
                in (Some \<lparr>ar_version = DECISION_VERSION, ar_baseline = baseline,
                          ar_opinion = opinion, ar_resolution = r,
                          ar_decision = unwrap_or (scan_decision s1) baseline\<rparr>, s1))))"

section \<open>The decision stage\<close>

definition ARBITRATION_VERSIONS :: "string list" where
  "ARBITRATION_VERSIONS =
     [''decision-policy-8'', ''decision-policy-9'', ''decision-policy-10'', ''decision-policy-11'',
      ''decision-policy-12'', ''decision-policy-13'', ''decision-policy-14'', DECISION_VERSION]"

definition restore_arbitration :: "scan \<Rightarrow> scan" where
  "restore_arbitration s =
     (let s1 = s\<lparr>scan_arbitration := None\<rparr>
      in case scan_arbitration s of
           None \<Rightarrow> s1
         | Some previous \<Rightarrow>
             if ar_version previous \<in> set ARBITRATION_VERSIONS \<and> scan_complete s1
                \<and> is_some_and (scan_decision s1) (\<lambda>d. decision_eq d (ar_decision previous))
             then s1\<lparr>scan_decision := Some (ar_baseline previous)\<rparr>
             else s1)"

definition STAGE_REASONS :: "string list" where
  "STAGE_REASONS = [MALWARE_REASON, DECISION_REVIEW_REASON, CONTEXT_REASON, OBSERVED_THREAT_REASON]"

definition EXTORTION_DETAIL :: string where
  "EXTORTION_DETAIL =
     ''Explicit compromise, disclosure threat and cryptocurrency payment demand are corroborated by observed failed authentication and a phishing signature or strong phishing analysis. Coverage remains incomplete; the action policy evaluates its own requirements.''"

definition PHISHING_DETAIL :: string where
  "PHISHING_DETAIL =
     ''Phishing signature, coherent phishing analysis and observed unauthenticated sender evidence agree. The SMTP/DNS consistency check is unavailable; risk remains unwanted and coverage remains incomplete. The action policy evaluates its own requirements.''"

definition MALWARE_DETAIL :: string where
  "MALWARE_DETAIL =
     ''The detection of malware by the main antivirus takes precedence over the suspicion index and the PUB category. This ranking does not correspond to a probability.''"

definition CONTEXT_DETAIL :: string where
  "CONTEXT_DETAIL =
     ''Authenticated reporting, receipt or passive service-notice context conflicts with an uncorroborated content score. Automatic policy resolves the classification separately from check coverage; context is not proof of legitimacy.''"

definition apply_malware :: "scan \<Rightarrow> scan" where
  "apply_malware s =
     (let s1 = retain_reasons (\<lambda>i. i \<noteq> CONFIRMATION_REVIEW_REASON) s;
          s2 = s1\<lparr>scan_decision := Some \<lparr>d_source = Src_Antivirus, d_outcome = Unwanted,
                                         d_score = None, d_model = DECISION_VERSION\<rparr>,
                  scan_pub_tagged := False,
                  scan_tagged := scan_tagged s1 \<and> scan_complete s1\<rparr>
      in push_reason MALWARE_REASON MALWARE_DETAIL s2)"

definition apply_observed_threat :: "scan \<Rightarrow> scan" where
  "apply_observed_threat s =
     push_reason OBSERVED_THREAT_REASON
       (if is_some_and (scan_message_context s) mc_direct_extortion
        then EXTORTION_DETAIL else PHISHING_DETAIL)
       (s\<lparr>scan_decision := Some \<lparr>d_source = Src_Legacy, d_outcome = Unwanted, d_score = None,
                                d_model = DECISION_VERSION\<rparr>,
          scan_tagged := False, scan_pub_tagged := False\<rparr>)"

definition context_review :: "bool \<Rightarrow> scan \<Rightarrow> scan" where
  "context_review context_reviewed s =
     (case scan_decision s of
        None \<Rightarrow> s
      | Some d \<Rightarrow>
          if (scan_complete s \<or> readable_with_dns_gap s)
             \<and> d_source d = Src_Legacy
             \<and> (d_outcome d = Unwanted
                \<or> ((context_reviewed \<or> \<not> scan_complete s) \<and> d_outcome d = Undetermined))
             \<and> needs_review s
          then push_reason CONTEXT_REASON CONTEXT_DETAIL (abstain d s)
          else s)"

definition apply_arbitration :: "scan \<Rightarrow> bool \<Rightarrow> bool \<Rightarrow> scan" where
  "apply_arbitration s context_reviewed require_corroboration =
     (case arbitrate s of (arb, s1) \<Rightarrow>
       (let s2 = context_review context_reviewed (confirmation_apply s1 require_corroboration)
        in s2\<lparr>scan_arbitration :=
             map_option (\<lambda>r. r\<lparr>ar_decision := unwrap_or (scan_decision s2) (ar_decision r)\<rparr>) arb\<rparr>))"

definition decision_prepare :: "scan \<Rightarrow> scan" where
  "decision_prepare s =
     retain_reasons (\<lambda>i. i \<notin> set STAGE_REASONS) (restore_arbitration (restore_score_resolution s))"

definition decision_apply :: "scan \<Rightarrow> bool \<Rightarrow> scan" where
  "decision_apply s require_corroboration =
     (let context_reviewed = has_reason CONTEXT_REASON (restore_score_resolution s);
          s1 = decision_prepare s
      in if av_status (scan_antivirus s1) = Av_Malware then apply_malware s1
         else if is_some_and (scan_decision s1) (\<lambda>d. d_source d = Src_Legacy)
                 \<and> observed_threat_with_partial_coverage s1
         then apply_observed_threat s1
         else apply_arbitration s1 context_reviewed require_corroboration)"

section \<open>Frame: detector results are untouched\<close>

lemma stage_reasons_policy [simp]:
  "MALWARE_REASON \<in> set POLICY_REASONS" "CONTEXT_REASON \<in> set POLICY_REASONS"
  "OBSERVED_THREAT_REASON \<in> set POLICY_REASONS" "SCORE_RESOLUTION_REASON \<in> set POLICY_REASONS"
  "DECISION_REVIEW_REASON \<in> set POLICY_REASONS"
  by (simp_all add: MALWARE_REASON_def CONTEXT_REASON_def OBSERVED_THREAT_REASON_def
      SCORE_RESOLUTION_REASON_def DECISION_REVIEW_REASON_def POLICY_REASONS_def)

lemma restore_score_observations [frame_simps]:
  "observations (restore_score_resolution s) = observations s"
  by (simp add: restore_score_resolution_def Let_def frame_simps split: option.split)

lemma resolve_abstention_observations [frame_simps]:
  "observations (resolve_abstention s d t) = observations s"
  by (simp add: resolve_abstention_def Let_def frame_simps)

lemma resolve_by_score_observations [frame_simps]:
  "observations (resolve_by_score s en t) = observations s"
  by (simp add: resolve_by_score_def Let_def frame_simps)

lemma restore_arbitration_observations [frame_simps]:
  "observations (restore_arbitration s) = observations s"
  by (simp add: restore_arbitration_def Let_def frame_simps split: option.split)

lemma decision_prepare_observations [frame_simps]:
  "observations (decision_prepare s) = observations s"
proof -
  have "observations (retain_reasons (\<lambda>i. i \<notin> set STAGE_REASONS) u) = observations u" for u
    by (rule observations_retain) (auto simp: STAGE_REASONS_def)
  then show ?thesis by (simp add: decision_prepare_def frame_simps)
qed

lemma abstain_observations [frame_simps]: "observations (abstain d s) = observations s"
  by (simp add: abstain_def frame_simps)

lemma arbitrate_observations [frame_simps]: "observations (snd (arbitrate s)) = observations s"
  by (simp add: arbitrate_def Let_def frame_simps split: option.split)

lemma context_review_observations [frame_simps]:
  "observations (context_review c s) = observations s"
  by (simp add: context_review_def frame_simps split: option.split)

lemma decision_apply_observations [frame_simps]:
  "observations (decision_apply s rc) = observations s"
proof -
  have "observations (apply_arbitration u c rc) = observations u" for u c
    using arbitrate_observations [of u]
    by (cases "arbitrate u") (simp add: apply_arbitration_def Let_def frame_simps)
  moreover have "observations (apply_malware u) = observations u" for u
    by (simp add: apply_malware_def Let_def frame_simps)
  moreover have "observations (apply_observed_threat u) = observations u" for u
    by (simp add: apply_observed_threat_def frame_simps)
  ultimately show ?thesis by (simp add: decision_apply_def Let_def frame_simps)
qed

interpretation resolve: policy_stage "\<lambda>s. resolve_by_score s enabled threshold"
  for enabled threshold
  by unfold_locales (rule resolve_by_score_observations)

interpretation restore: policy_stage restore_score_resolution
  by unfold_locales (rule restore_score_observations)

interpretation prepare: policy_stage decision_prepare
  by unfold_locales (rule decision_prepare_observations)

interpretation decide: policy_stage "\<lambda>s. decision_apply s rc" for rc
  by unfold_locales (rule decision_apply_observations)

section \<open>Resolution by score\<close>

lemma usable_score_not_NaN: "usable_score s \<noteq> Some NaN"
  by (auto simp: usable_score_def valid_score_Some_iff)

lemma has_resolution_row [simp]: "\<not> has_reason SCORE_RESOLUTION_REASON (restore_score_resolution s)"
  by (simp add: restore_score_resolution_def Let_def)

lemma restore_resolution_None [simp]: "scan_score_resolution (restore_score_resolution s) = None"
  by (simp add: restore_score_resolution_def Let_def split: option.split)

lemma retain_absent:
  "\<not> has_reason k s \<Longrightarrow> retain_reasons (\<lambda>i. i \<noteq> k) s = s"
  by (simp add: retain_reasons_def has_reason_def list_ex_iff filter_id_conv)

lemma retain_push_absent:
  "\<not> has_reason k s \<Longrightarrow> retain_reasons (\<lambda>i. i \<noteq> k) (push_reason k d s) = s"
  by (simp add: retain_reasons_def push_reason_def has_reason_def list_ex_iff filter_id_conv)

lemma no_resolution_id: "scan_score_resolution s = None \<Longrightarrow> s\<lparr>scan_score_resolution := None\<rparr> = s"
  by (cases s) simp

lemma no_arbitration_id: "scan_arbitration s = None \<Longrightarrow> s\<lparr>scan_arbitration := None\<rparr> = s"
  by (cases s) simp

lemma restore_fresh:
  "scan_score_resolution s = None \<Longrightarrow> \<not> has_reason SCORE_RESOLUTION_REASON s
     \<Longrightarrow> restore_score_resolution s = s"
  by (simp add: restore_score_resolution_def Let_def retain_absent no_resolution_id)

lemma restore_idem [simp]:
  "restore_score_resolution (restore_score_resolution s) = restore_score_resolution s"
  by (rule restore_fresh) simp_all

text \<open>Undoing a resolution gives back the abstention it was computed from.\<close>

lemma restore_resolve_abstention:
  assumes "scan_score_resolution s = None" and "\<not> has_reason SCORE_RESOLUTION_REASON s"
  shows "restore_score_resolution (resolve_abstention s d t) = s\<lparr>scan_decision := Some d\<rparr>"
proof -
  have row: "\<not> has_reason SCORE_RESOLUTION_REASON (s\<lparr>scan_decision := x, scan_score_resolution := y,
      scan_delivery_classification := z\<rparr>)" for x y z
    using assms(2) by (simp add: has_reason_def)
  have "decision_eq (sr_decision r) (sr_decision r)"
    if "scan_score_resolution (resolve_abstention s d t) = Some r" for r
    using that usable_score_not_NaN [of s]
    by (auto simp: resolve_abstention_def Let_def decision_eq_refl_iff)
  then show ?thesis
    using assms row
    by (simp add: restore_score_resolution_def resolve_abstention_def Let_def push_reason_def
        retain_reasons_def has_reason_def list_ex_iff filter_id_conv)
qed

lemma resolve_abstention_decision_irrelevant:
  "resolve_abstention (s\<lparr>scan_decision := x\<rparr>) d t = resolve_abstention s d t"
proof -
  have obs: "observations (s\<lparr>scan_decision := x\<rparr>) = observations s" by (simp add: frame_simps)
  have "authenticated_benign_conflict (s\<lparr>scan_decision := x\<rparr>) = authenticated_benign_conflict s"
    by (simp only: authenticated_benign_conflict_def observations_fields [OF obs]
        corroborated_observations [OF obs] needs_review_observations [OF obs]
        readable_with_dns_gap_observations [OF obs])
  moreover have "corroboration_missing (s\<lparr>scan_decision := x\<rparr>) = corroboration_missing s"
    by (simp add: corroboration_missing_def has_reason_def corroborated_observations [OF obs])
  ultimately show ?thesis
    by (simp add: resolve_abstention_def Let_def usable_score_def push_reason_def)
qed

lemma resolve_by_score_idem:
  "resolve_by_score (resolve_by_score s en t) en t = resolve_by_score s en t"
proof -
  let ?s = "restore_score_resolution s"
  let ?d = "unwrap_or (scan_decision ?s) (decision_legacy ?s t)"
  show ?thesis
  proof (cases "resolve_by_score s en t = ?s")
    case True
    then show ?thesis by (metis resolve_by_score_def restore_idem)
  next
    case False
    then have res: "resolve_by_score s en t = resolve_abstention ?s ?d t"
      and en: en "valid_score (Some t) \<noteq> None"
      and abst: "\<not> (d_source ?d = Src_Antivirus
         \<or> (d_outcome ?d \<noteq> Undetermined \<and> scan_delivery_classification ?s \<noteq> Some Cat_Undetermined))"
      by (auto simp: resolve_by_score_def Let_def split: if_splits)
    have undo: "restore_score_resolution (resolve_abstention ?s ?d t) = ?s\<lparr>scan_decision := Some ?d\<rparr>"
      by (rule restore_resolve_abstention) simp_all
    show ?thesis
      unfolding res using en abst
      by (auto simp: resolve_by_score_def undo Let_def resolve_abstention_decision_irrelevant)
  qed
qed

lemma resolve_abstention_outcome:
  "\<exists>d'. scan_decision (resolve_abstention s d t) = Some d' \<and> d_outcome d' \<noteq> Undetermined
        \<and> d_source d' = Src_Legacy"
  by (auto simp: resolve_abstention_def Let_def)

lemma resolve_abstention_class:
  "scan_delivery_classification (resolve_abstention s d t) \<noteq> Some Cat_Undetermined"
  by (simp add: resolve_abstention_def Let_def)

lemma resolve_abstention_guarded:
  assumes "corroboration_missing s"
  shows "\<exists>d'. scan_decision (resolve_abstention s d t) = Some d' \<and> d_outcome d' = Legitimate"
  using assms by (simp add: resolve_abstention_def Let_def)

lemma resolve_abstention_unwanted:
  assumes "scan_decision (resolve_abstention s d t) = Some d'" and "d_outcome d' = Unwanted"
  shows "\<exists>x. usable_score s = Some x \<and> f64_ge x t \<and> \<not> corroboration_missing s"
  using assms by (auto simp: resolve_abstention_def Let_def is_some_and_iff split: if_splits)

section \<open>The decision stage\<close>

lemma decision_apply_malware:
  "av_status (scan_antivirus s) = Av_Malware \<Longrightarrow>
     scan_decision (decision_apply s rc)
       = Some \<lparr>d_source = Src_Antivirus, d_outcome = Unwanted, d_score = None,
               d_model = DECISION_VERSION\<rparr>"
  by (simp add: decision_apply_def Let_def prepare.stage_fields apply_malware_def)

lemma decision_apply_branches:
  assumes "av_status (scan_antivirus s) \<noteq> Av_Malware"
    and "\<not> observed_threat_with_partial_coverage (decision_prepare s)"
  shows "decision_apply s rc
       = apply_arbitration (decision_prepare s) (has_reason CONTEXT_REASON (restore_score_resolution s)) rc"
  using assms by (simp add: decision_apply_def Let_def prepare.stage_fields)

text \<open>
  A decision weakens another when it is the same or an abstention of it. Arbitration,
  confirmation and context review only weaken: no stage turns a legitimate baseline into an
  unwanted one.
\<close>

definition weakens :: "decision \<Rightarrow> decision \<Rightarrow> bool" where
  "weakens d d' \<longleftrightarrow> d_source d' = d_source d \<and> d_model d' = d_model d
     \<and> (d_outcome d' = d_outcome d \<or> d_outcome d' = Undetermined)"

lemma weakens_refl [simp]: "weakens d d"
  by (simp add: weakens_def)

lemma weakens_trans: "weakens a b \<Longrightarrow> weakens b c \<Longrightarrow> weakens a c"
  by (auto simp: weakens_def)

definition stage_weakens :: "scan \<Rightarrow> scan \<Rightarrow> bool" where
  "stage_weakens s t \<longleftrightarrow> rel_option weakens (scan_decision s) (scan_decision t)"

lemma stage_weakens_trans: "stage_weakens a b \<Longrightarrow> stage_weakens b c \<Longrightarrow> stage_weakens a c"
  unfolding stage_weakens_def
  by (cases "scan_decision a"; cases "scan_decision b"; cases "scan_decision c")
     (auto intro: weakens_trans)

lemma arbitrate_weakens: "stage_weakens s (snd (arbitrate s))"
  by (auto simp: stage_weakens_def arbitrate_def Let_def abstain_def weakens_def
      split: option.split)

lemma confirmation_weakens: "stage_weakens s (confirmation_apply s en)"
  by (auto simp: stage_weakens_def confirmation_apply_def Let_def weakens_def split: option.split)

lemma context_review_weakens: "stage_weakens s (context_review c s)"
  by (auto simp: stage_weakens_def context_review_def abstain_def weakens_def split: option.split)

lemma apply_arbitration_weakens: "stage_weakens s (apply_arbitration s c rc)"
proof -
  obtain arb s1 where a: "arbitrate s = (arb, s1)" by (cases "arbitrate s")
  have "stage_weakens s s1" using arbitrate_weakens [of s] a by simp
  moreover have "stage_weakens s1 (confirmation_apply s1 rc)" by (rule confirmation_weakens)
  moreover have "stage_weakens (confirmation_apply s1 rc) (context_review c (confirmation_apply s1 rc))"
    by (rule context_review_weakens)
  ultimately have "stage_weakens s (context_review c (confirmation_apply s1 rc))"
    by (blast intro: stage_weakens_trans)
  then show ?thesis by (simp add: stage_weakens_def apply_arbitration_def a Let_def)
qed

lemma stage_weakensD:
  "stage_weakens s t \<Longrightarrow> scan_decision t = Some d' \<Longrightarrow> \<exists>d. scan_decision s = Some d \<and> weakens d d'"
  unfolding stage_weakens_def by (cases "scan_decision s") auto

lemma context_review_not_unwanted:
  assumes "scan_decision (context_review c s) = Some d'" and "d_outcome d' = Unwanted"
  shows "scan_decision s = Some d'"
  using assms by (auto simp: context_review_def abstain_def split: option.splits if_splits)

text \<open>Required corroboration holds at the end of the stage, whatever the score.\<close>

lemma apply_arbitration_corroboration:
  assumes "\<not> corroborated s" and "scan_decision (apply_arbitration s c True) = Some d"
    and "d_source d = Src_Legacy"
  shows "d_outcome d \<noteq> Unwanted"
proof
  assume unwanted: "d_outcome d = Unwanted"
  obtain arb s1 where a: "arbitrate s = (arb, s1)" by (cases "arbitrate s")
  from arbitrate_observations [of s] a have "\<not> corroborated s1"
    using assms(1) by (simp add: corroborated_observations [of s1 s])
  moreover from assms(2) a have "scan_decision (context_review c (confirmation_apply s1 True)) = Some d"
    by (simp add: apply_arbitration_def Let_def)
  then have "scan_decision (confirmation_apply s1 True) = Some d"
    using unwanted by (rule context_review_not_unwanted)
  ultimately show False using assms(3) unwanted confirmation_required by blast
qed

section \<open>Definite classifications\<close>

text \<open>
  Only the malware branch issues an antivirus decision. Without one anywhere in the policy
  state, the final policy resolves every abstention.
\<close>

definition no_antivirus_decision :: "scan \<Rightarrow> bool" where
  "no_antivirus_decision s \<longleftrightarrow>
     is_none_or (scan_decision s) (\<lambda>d. d_source d \<noteq> Src_Antivirus)
     \<and> is_none_or (scan_score_resolution s) (\<lambda>r. d_source (sr_previous r) \<noteq> Src_Antivirus)
     \<and> is_none_or (scan_arbitration s) (\<lambda>a. d_source (ar_baseline a) \<noteq> Src_Antivirus)"

lemma is_none_or_iff: "is_none_or x P \<longleftrightarrow> (\<forall>y. x = Some y \<longrightarrow> P y)"
  by (cases x) auto

lemma restore_no_antivirus:
  "no_antivirus_decision s \<Longrightarrow> no_antivirus_decision (restore_score_resolution s)"
  by (auto simp: no_antivirus_decision_def is_none_or_iff restore_score_resolution_def Let_def
      split: option.splits if_splits)

lemma prepare_no_antivirus:
  assumes "no_antivirus_decision s"
  shows "no_antivirus_decision (decision_prepare s)"
proof -
  have "no_antivirus_decision (restore_arbitration u)" if "no_antivirus_decision u" for u
    using that by (auto simp: no_antivirus_decision_def is_none_or_iff restore_arbitration_def Let_def
        split: option.splits if_splits)
  with restore_no_antivirus [OF assms] show ?thesis
    by (simp add: decision_prepare_def no_antivirus_decision_def)
qed

lemma decision_apply_source:
  assumes "no_antivirus_decision s" and "av_status (scan_antivirus s) \<noteq> Av_Malware"
    and "scan_decision (decision_apply s rc) = Some d"
  shows "d_source d \<noteq> Src_Antivirus"
proof (cases "is_some_and (scan_decision (decision_prepare s)) (\<lambda>d. d_source d = Src_Legacy)
              \<and> observed_threat_with_partial_coverage (decision_prepare s)")
  case True
  with assms(2,3) show ?thesis
    by (auto simp: decision_apply_def Let_def prepare.stage_fields apply_observed_threat_def)
next
  case False
  with assms(2) have "decision_apply s rc = apply_arbitration (decision_prepare s)
      (has_reason CONTEXT_REASON (restore_score_resolution s)) rc"
    by (auto simp: decision_apply_def Let_def prepare.stage_fields)
  with assms(3) obtain d0 where "scan_decision (decision_prepare s) = Some d0" and "weakens d0 d"
    using apply_arbitration_weakens stage_weakensD by metis
  with prepare_no_antivirus [OF assms(1)] show ?thesis
    by (simp add: no_antivirus_decision_def weakens_def)
qed

lemma finalize_definite:
  assumes valid: "valid_score (Some t) \<noteq> None" and fresh: "scan_recipient_decision s = None"
    and src: "\<And>d. scan_decision (restore_score_resolution s) = Some d \<Longrightarrow> d_source d \<noteq> Src_Antivirus"
  shows "scan_category (finalize s t) t' \<noteq> Cat_Undetermined"
proof -
  let ?s = "restore_score_resolution s"
  let ?d = "unwrap_or (scan_decision ?s) (decision_legacy ?s t)"
  have nosrc: "d_source ?d \<noteq> Src_Antivirus"
    using src by (cases "scan_decision ?s") (auto simp: decision_legacy_def)
  have fresh': "scan_recipient_decision (finalize s t) = None"
    using fresh by (simp add: finalize_def resolve.stage_fields)
  show ?thesis
  proof (cases "d_outcome ?d \<noteq> Undetermined \<and> scan_delivery_classification ?s \<noteq> Some Cat_Undetermined")
    case True
    with valid have fin: "finalize s t = ?s"
      by (simp add: finalize_def resolve_by_score_def Let_def)
    show ?thesis
    proof (cases "scan_decision ?s")
      case None
      with True have "scan_complete ?s" by (auto simp: decision_legacy_def split: if_splits)
      with True None fresh' show ?thesis
        unfolding fin by (auto simp: scan_category_def decision_legacy_def Let_def split: option.splits)
    next
      case (Some d)
      with True fresh' show ?thesis
        unfolding fin by (auto simp: scan_category_def Let_def split: option.splits outcome.splits)
    qed
  next
    case False
    with valid nosrc have fin: "finalize s t = resolve_abstention ?s ?d t"
      by (auto simp: finalize_def resolve_by_score_def Let_def)
    from resolve_abstention_outcome [of ?s ?d t] obtain d' where
      "scan_decision (finalize s t) = Some d'" "d_outcome d' \<noteq> Undetermined"
      unfolding fin by blast
    with resolve_abstention_class [of ?s ?d t] fresh' show ?thesis
      unfolding fin by (auto simp: scan_category_def Let_def split: option.splits outcome.splits)
  qed
qed

lemma decision_apply_resolution_None: "scan_score_resolution (decision_apply s rc) = None"
proof -
  have prep: "scan_score_resolution (decision_prepare s) = None"
    by (simp add: decision_prepare_def restore_arbitration_def Let_def split: option.split)
  have conf: "scan_score_resolution (confirmation_apply u e) = scan_score_resolution u" for u e
    by (simp add: confirmation_apply_def Let_def split: option.split)
  have ctx: "scan_score_resolution (context_review c u) = scan_score_resolution u" for c u
    by (simp add: context_review_def abstain_def split: option.split)
  have arb: "scan_score_resolution (snd (arbitrate u)) = scan_score_resolution u" for u
    by (simp add: arbitrate_def Let_def abstain_def split: option.split)
  have "scan_score_resolution (apply_arbitration u c rc) = scan_score_resolution u" for u c
    using arb [of u] by (cases "arbitrate u") (simp add: apply_arbitration_def Let_def conf ctx)
  with prep show ?thesis
    by (simp add: decision_apply_def Let_def apply_malware_def apply_observed_threat_def)
qed

section \<open>Properties\<close>

text \<open>
  resolving abstentions by score is idempotent: the resolution of a resolved scan is first
  undone and then computed again from the same abstention.
\<close>

theorem resolution_idempotent:
  "resolve_by_score (resolve_by_score s enabled t) enabled t = resolve_by_score s enabled t"
  by (rule resolve_by_score_idem)

text \<open>
  the final policy can be undone. On a scan with a decision and no earlier resolution,
  restoring after finalizing gives back the same scan: the detector's abstention, its
  category and every explanation row.
\<close>

theorem finalize_restore_roundtrip:
  assumes "scan_score_resolution s = None" and "\<not> has_reason SCORE_RESOLUTION_REASON s"
    and "scan_decision s = Some d"
  shows "restore_score_resolution (finalize s t) = s"
proof -
  have r: "restore_score_resolution s = s" using assms(1,2) by (rule restore_fresh)
  have "s\<lparr>scan_decision := Some d\<rparr> = s" using assms(3) by (cases s) simp
  then show ?thesis
    using assms(3) r restore_resolve_abstention [OF assms(1,2), of d t]
    by (simp add: finalize_def resolve_by_score_def Let_def)
qed

theorem finalize_restore_roundtrip_witness:
  "restore_score_resolution (finalize (sample_scan\<lparr>scan_decision := Some \<lparr>d_source = Src_Legacy,
      d_outcome = Undetermined, d_score = None, d_model = ''m''\<rparr>\<rparr>) (Fin 50))
   = sample_scan\<lparr>scan_decision := Some \<lparr>d_source = Src_Legacy,
      d_outcome = Undetermined, d_score = None, d_model = ''m''\<rparr>\<rparr>"
  by (rule finalize_restore_roundtrip) (simp_all add: sample_scan_def has_reason_def)

end
