(* ===== verification/NF_Rerun.thy ===== *)
theory NF_Rerun
  imports NF_Decision
begin

text \<open>
  Re-running the decision stage. \<open>decision::apply\<close> is called again whenever evidence is
  replayed; the theory computes the stage in closed form (three independent abstentions) and
  shows that a second run on the result of the first changes nothing.
\<close>

section \<open>Re-running the stage\<close>

text \<open>
  The stage in closed form: three independent abstentions (arbitration, confirmation, context),
  each a function of the observations, the decision and the review rows.
\<close>

definition abstains :: "scan \<Rightarrow> bool" where
  "abstains s \<longleftrightarrow> scan_complete s \<and> is_some_and (scan_decision s) (\<lambda>b.
     d_source b = Src_Legacy \<and> d_outcome b \<noteq> Undetermined
     \<and> is_some_and (llm_opinion (scan_llm s)) (\<lambda>opinion.
          arbitration_resolution s b opinion \<in> {Disagreement, Ambiguous}))"

definition hide :: "decision \<Rightarrow> decision" where
  "hide d = d\<lparr>d_outcome := Undetermined, d_score := None\<rparr>"

definition arbitrated_decision :: "scan \<Rightarrow> decision option" where
  "arbitrated_decision s =
     (if abstains s then map_option hide (scan_decision s) else scan_decision s)"

definition confirms :: "bool \<Rightarrow> scan \<Rightarrow> bool" where
  "confirms rc s \<longleftrightarrow> rc \<and> \<not> corroborated s \<and> is_some_and (arbitrated_decision s) (\<lambda>d.
     d_source d = Src_Legacy \<and> (d_outcome d = Unwanted
       \<or> (d_outcome d = Undetermined
          \<and> (has_reason CONFIRMATION_REVIEW_REASON s \<or> has_reason DECISION_REVIEW_REASON s
             \<or> abstains s \<or> \<not> scan_complete s))))"

definition confirmed_decision :: "bool \<Rightarrow> scan \<Rightarrow> decision option" where
  "confirmed_decision rc s =
     (if confirms rc s then map_option (\<lambda>d. d\<lparr>d_outcome := Undetermined\<rparr>) (arbitrated_decision s)
      else arbitrated_decision s)"

definition contextual :: "bool \<Rightarrow> bool \<Rightarrow> scan \<Rightarrow> bool" where
  "contextual c rc s \<longleftrightarrow> (scan_complete s \<or> readable_with_dns_gap s) \<and> needs_review s
     \<and> is_some_and (confirmed_decision rc s) (\<lambda>d. d_source d = Src_Legacy
          \<and> (d_outcome d = Unwanted \<or> ((c \<or> \<not> scan_complete s) \<and> d_outcome d = Undetermined)))"

definition reviewed_decision :: "bool \<Rightarrow> bool \<Rightarrow> scan \<Rightarrow> decision option" where
  "reviewed_decision c rc s =
     (if contextual c rc s then map_option hide (confirmed_decision rc s)
      else confirmed_decision rc s)"

definition review_row :: "string \<Rightarrow> string \<Rightarrow> signal" where
  "review_row i d = \<lparr>sig_id = i, sig_detail = d, sig_weight = Fin 0\<rparr>"

definition arbitration_detail :: "scan \<Rightarrow> string" where
  "arbitration_detail s =
     (if is_some_and (fst (arbitrate s)) (\<lambda>a. ar_resolution a = Disagreement)
      then DISAGREEMENT_DETAIL else AMBIGUOUS_DETAIL)"

definition stage_rows :: "bool \<Rightarrow> bool \<Rightarrow> scan \<Rightarrow> signal list" where
  "stage_rows c rc s =
     (if abstains s then [review_row DECISION_REVIEW_REASON (arbitration_detail s)] else [])
     @ (if confirms rc s then [review_row CONFIRMATION_REVIEW_REASON CONFIRMATION_DETAIL] else [])
     @ (if contextual c rc s then [review_row CONTEXT_REASON CONTEXT_DETAIL] else [])"

lemma scan_eqI:
  assumes "observations s = observations t" and "scan_decision s = scan_decision t"
    and "scan_arbitration s = scan_arbitration t"
    and "scan_score_resolution s = scan_score_resolution t"
    and "scan_delivery_classification s = scan_delivery_classification t"
    and "scan_tagged s = scan_tagged t" and "scan_pub_tagged s = scan_pub_tagged t"
    and "scan_reasons s = scan_reasons t"
  shows "s = t"
  using assms by (cases s; cases t) (simp add: observations_def)

lemma arbitrate_closed:
  "snd (arbitrate s) = (if abstains s
     then push_reason DECISION_REVIEW_REASON (arbitration_detail s) (abstain (the (scan_decision s)) s)
     else s)"
  by (auto simp: arbitrate_def abstains_def arbitration_detail_def Let_def split: option.split)

lemma arbitrate_fields:
  "scan_decision (snd (arbitrate s)) = arbitrated_decision s"
  "scan_tagged (snd (arbitrate s)) = (scan_tagged s \<and> \<not> abstains s)"
  "scan_pub_tagged (snd (arbitrate s)) = (scan_pub_tagged s \<and> \<not> abstains s)"
  "scan_reasons (snd (arbitrate s)) = scan_reasons s
     @ (if abstains s then [review_row DECISION_REVIEW_REASON (arbitration_detail s)] else [])"
  "scan_score_resolution (snd (arbitrate s)) = scan_score_resolution s"
  "scan_delivery_classification (snd (arbitrate s)) = scan_delivery_classification s"
  by (auto simp: arbitrate_closed arbitrated_decision_def abstain_def hide_def abstains_def
      is_some_and_iff push_reason_def review_row_def)

lemma confirmation_fields:
  assumes "arbitrate s = (arb, s1)"
  shows "scan_decision (confirmation_apply s1 rc) = confirmed_decision rc s"
    and "scan_tagged (confirmation_apply s1 rc) = (scan_tagged s1 \<and> \<not> confirms rc s)"
    and "scan_pub_tagged (confirmation_apply s1 rc) = (scan_pub_tagged s1 \<and> \<not> confirms rc s)"
    and "scan_reasons (confirmation_apply s1 rc)
       = filter (\<lambda>r. sig_id r \<noteq> CONFIRMATION_REVIEW_REASON) (scan_reasons s1)
         @ (if confirms rc s then [review_row CONFIRMATION_REVIEW_REASON CONFIRMATION_DETAIL] else [])"
    and "scan_score_resolution (confirmation_apply s1 rc) = scan_score_resolution s1"
    and "scan_delivery_classification (confirmation_apply s1 rc) = scan_delivery_classification s1"
proof -
  have s1: "s1 = snd (arbitrate s)" using assms by simp
  have obs: "observations s1 = observations s" by (simp add: s1 frame_simps)
  have corr: "corroborated s1 = corroborated s" by (rule corroborated_observations [OF obs])
  have comp: "scan_complete s1 = scan_complete s" by (rule observations_fields(2) [OF obs])
  have row: "(has_reason CONFIRMATION_REVIEW_REASON s1 \<or> has_reason DECISION_REVIEW_REASON s1)
      = (has_reason CONFIRMATION_REVIEW_REASON s \<or> has_reason DECISION_REVIEW_REASON s \<or> abstains s)"
    by (auto simp: has_reason_def s1 arbitrate_fields(4) review_row_def)
  have dec: "scan_decision s1 = arbitrated_decision s" by (simp add: s1 arbitrate_fields)
  have closed: "confirmation_apply s1 rc =
    (if confirms rc s
     then push_reason CONFIRMATION_REVIEW_REASON CONFIRMATION_DETAIL
            ((retain_reasons (\<lambda>i. i \<noteq> CONFIRMATION_REVIEW_REASON) s1)
              \<lparr>scan_decision := map_option (\<lambda>d. d\<lparr>d_outcome := Undetermined\<rparr>) (arbitrated_decision s),
               scan_tagged := False, scan_pub_tagged := False\<rparr>)
     else retain_reasons (\<lambda>i. i \<noteq> CONFIRMATION_REVIEW_REASON) s1)"
    unfolding confirmation_apply_def Let_def row
    by (cases "arbitrated_decision s") (auto simp: confirms_def corr comp dec)
  show "scan_decision (confirmation_apply s1 rc) = confirmed_decision rc s"
    by (simp add: closed confirmed_decision_def dec)
  show "scan_tagged (confirmation_apply s1 rc) = (scan_tagged s1 \<and> \<not> confirms rc s)"
    and "scan_pub_tagged (confirmation_apply s1 rc) = (scan_pub_tagged s1 \<and> \<not> confirms rc s)"
    and "scan_score_resolution (confirmation_apply s1 rc) = scan_score_resolution s1"
    and "scan_delivery_classification (confirmation_apply s1 rc) = scan_delivery_classification s1"
    by (simp_all add: closed)
  show "scan_reasons (confirmation_apply s1 rc)
       = filter (\<lambda>r. sig_id r \<noteq> CONFIRMATION_REVIEW_REASON) (scan_reasons s1)
         @ (if confirms rc s then [review_row CONFIRMATION_REVIEW_REASON CONFIRMATION_DETAIL] else [])"
    by (simp add: closed push_reason_def retain_reasons_def review_row_def)
qed

lemma apply_arbitration_fields:
  "scan_decision (apply_arbitration s c rc) = reviewed_decision c rc s"
  "scan_tagged (apply_arbitration s c rc)
     = (scan_tagged s \<and> \<not> abstains s \<and> \<not> confirms rc s \<and> \<not> contextual c rc s)"
  "scan_pub_tagged (apply_arbitration s c rc)
     = (scan_pub_tagged s \<and> \<not> abstains s \<and> \<not> confirms rc s \<and> \<not> contextual c rc s)"
  "scan_reasons (apply_arbitration s c rc)
     = filter (\<lambda>r. sig_id r \<noteq> CONFIRMATION_REVIEW_REASON) (scan_reasons s) @ stage_rows c rc s"
  "scan_score_resolution (apply_arbitration s c rc) = scan_score_resolution s"
  "scan_delivery_classification (apply_arbitration s c rc) = scan_delivery_classification s"
  "scan_arbitration (apply_arbitration s c rc) = map_option (\<lambda>r. r\<lparr>ar_decision :=
     unwrap_or (reviewed_decision c rc s) (ar_decision r)\<rparr>) (fst (arbitrate s))"
proof -
  obtain arb s1 where a: "arbitrate s = (arb, s1)" by (cases "arbitrate s")
  then have s1: "s1 = snd (arbitrate s)" by simp
  let ?s2 = "confirmation_apply s1 rc"
  have obs: "observations ?s2 = observations s" by (simp add: s1 frame_simps)
  have cond: "needs_review ?s2 = needs_review s" "readable_with_dns_gap ?s2 = readable_with_dns_gap s"
    "scan_complete ?s2 = scan_complete s"
    by (rule needs_review_observations [OF obs] readable_with_dns_gap_observations [OF obs]
        observations_fields(2) [OF obs])+
  have closed: "context_review c ?s2 =
     (if contextual c rc s
      then push_reason CONTEXT_REASON CONTEXT_DETAIL (abstain (the (confirmed_decision rc s)) ?s2)
      else ?s2)"
    by (cases "confirmed_decision rc s")
       (auto simp: context_review_def contextual_def confirmation_fields [OF a] cond)
  have res: "apply_arbitration s c rc = (context_review c ?s2)\<lparr>scan_arbitration :=
      map_option (\<lambda>r. r\<lparr>ar_decision := unwrap_or (scan_decision (context_review c ?s2)) (ar_decision r)\<rparr>) arb\<rparr>"
    by (simp add: apply_arbitration_def a Let_def)
  have dec: "scan_decision (context_review c ?s2) = reviewed_decision c rc s"
    by (auto simp: closed reviewed_decision_def abstain_def hide_def contextual_def is_some_and_iff
        confirmation_fields [OF a])
  show "scan_decision (apply_arbitration s c rc) = reviewed_decision c rc s"
    by (simp add: res dec)
  show "scan_arbitration (apply_arbitration s c rc) = map_option (\<lambda>r. r\<lparr>ar_decision :=
     unwrap_or (reviewed_decision c rc s) (ar_decision r)\<rparr>) (fst (arbitrate s))"
    by (simp add: res dec a)
  show "scan_tagged (apply_arbitration s c rc)
     = (scan_tagged s \<and> \<not> abstains s \<and> \<not> confirms rc s \<and> \<not> contextual c rc s)"
    "scan_pub_tagged (apply_arbitration s c rc)
     = (scan_pub_tagged s \<and> \<not> abstains s \<and> \<not> confirms rc s \<and> \<not> contextual c rc s)"
    "scan_score_resolution (apply_arbitration s c rc) = scan_score_resolution s"
    "scan_delivery_classification (apply_arbitration s c rc) = scan_delivery_classification s"
    by (simp_all add: res closed abstain_def confirmation_fields [OF a], simp_all add: s1 arbitrate_fields)
  have "sig_id (review_row DECISION_REVIEW_REASON x) \<noteq> CONFIRMATION_REVIEW_REASON" for x
    by (simp add: review_row_def review_reasons_distinct [symmetric] del: review_reasons_distinct)
  then show "scan_reasons (apply_arbitration s c rc)
     = filter (\<lambda>r. sig_id r \<noteq> CONFIRMATION_REVIEW_REASON) (scan_reasons s) @ stage_rows c rc s"
    by (simp add: res closed abstain_def push_reason_def confirmation_fields [OF a] stage_rows_def review_row_def)
       (simp add: s1 arbitrate_fields review_row_def)
qed

lemma observed_threat_observations:
  assumes "observations s = observations t"
  shows "observed_threat_with_partial_coverage s = observed_threat_with_partial_coverage t"
proof -
  have row: "list_ex (\<lambda>r. P (sig_id r)) (scan_reasons u) \<longleftrightarrow> (\<exists>i. P i \<and> has_reason i u)"
    for P and u :: scan
    by (auto simp: has_reason_def list_ex_iff)
  have obs: "has_reason i s = has_reason i t" if "i \<in> set INCOMPLETE_REASONS" for i
    using has_reason_observations [OF assms] INCOMPLETE_not_POLICY that by blast
  have "''smtp_policy_unavailable'' \<in> set INCOMPLETE_REASONS"
    and "''llm_unavailable'' \<in> set INCOMPLETE_REASONS"
    by (simp_all add: INCOMPLETE_REASONS_def)
  with obs have smtp: "has_reason ''smtp_policy_unavailable'' s = has_reason ''smtp_policy_unavailable'' t"
    and llm: "has_reason ''llm_unavailable'' s = has_reason ''llm_unavailable'' t" by blast+
  have allowed: "list_ex (\<lambda>r. sig_id r = ''smtp_policy_unavailable'' \<or> x \<and> y \<and> sig_id r = ''llm_unavailable'')
        (scan_reasons s)
      = list_ex (\<lambda>r. sig_id r = ''smtp_policy_unavailable'' \<or> x \<and> y \<and> sig_id r = ''llm_unavailable'')
        (scan_reasons t)" for x y
    using smtp llm row [of "\<lambda>i. i = ''smtp_policy_unavailable'' \<or> x \<and> y \<and> i = ''llm_unavailable''"]
    by blast
  have other: "list_ex (\<lambda>r. sig_id r \<in> set INCOMPLETE_REASONS \<and> Q (sig_id r)) (scan_reasons s)
      = list_ex (\<lambda>r. sig_id r \<in> set INCOMPLETE_REASONS \<and> Q (sig_id r)) (scan_reasons t)" for Q
    using obs row [of "\<lambda>i. i \<in> set INCOMPLETE_REASONS \<and> Q i"] by blast
  have views: "phishing_signature s = phishing_signature t" "phishing_analysis s = phishing_analysis t"
    by (simp_all only: phishing_signature_def phishing_analysis_def observations_fields [OF assms])
  show ?thesis
    unfolding observed_threat_with_partial_coverage_def Let_def
    by (simp only: observations_fields [OF assms] allowed views
        other [of "\<lambda>i. \<not> (i = ''smtp_policy_unavailable'' \<or> x \<and> y \<and> i = ''llm_unavailable'')" for x y])
qed

text \<open>The abstentions depend on the observations and the decision only.\<close>

lemma arbitration_resolution_observations:
  assumes "observations s = observations t"
  shows "arbitration_resolution s b x = arbitration_resolution t b x"
  by (simp only: arbitration_resolution_def corroborated_observations [OF assms])

lemma arbitrate_cong:
  assumes "observations s = observations t" and "scan_decision s = scan_decision t"
  shows "abstains s = abstains t" and "fst (arbitrate s) = fst (arbitrate t)"
    and "arbitration_detail s = arbitration_detail t"
    and "arbitrated_decision s = arbitrated_decision t"
proof -
  show a: "abstains s = abstains t"
    unfolding abstains_def
    by (simp only: assms(2) observations_fields [OF assms(1)] arbitration_resolution_observations [OF assms(1)])
  show f: "fst (arbitrate s) = fst (arbitrate t)"
    unfolding arbitrate_def abstain_def
    by (simp add: assms(2) observations_fields(2,7) [OF assms(1)] Let_def
        arbitration_resolution_observations [OF assms(1)] split: option.split)
  show "arbitration_detail s = arbitration_detail t" by (simp only: arbitration_detail_def f)
  show "arbitrated_decision s = arbitrated_decision t"
    by (simp only: arbitrated_decision_def a assms(2))
qed

lemma arbitrate_None: "fst (arbitrate s) = None \<Longrightarrow> \<not> abstains s"
  by (auto simp: arbitrate_def abstains_def is_some_and_iff Let_def split: if_splits)

lemma arbitrate_Some:
  assumes "fst (arbitrate s) = Some a"
  shows "ar_version a = DECISION_VERSION" and "ar_baseline a = the (scan_decision s)"
    and "\<exists>b. scan_decision s = Some b \<and> d_source b = Src_Legacy \<and> d_outcome b \<noteq> Undetermined"
    and "scan_complete s"
  using assms by (auto simp: arbitrate_def Let_def split: option.splits if_splits)

text \<open>What a second run starts from.\<close>

lemma decision_prepare_fields:
  "scan_tagged (decision_prepare s) = scan_tagged s"
  "scan_pub_tagged (decision_prepare s) = scan_pub_tagged s"
  "scan_arbitration (decision_prepare s) = None"
  "scan_score_resolution (decision_prepare s) = None"
  "\<not> has_reason SCORE_RESOLUTION_REASON (decision_prepare s)"
  by (simp_all add: decision_prepare_def restore_arbitration_def restore_score_resolution_def Let_def
      has_reason_def retain_reasons_def list_ex_iff split: option.split)

lemma decision_prepare_no_stage:
  "filter (\<lambda>r. sig_id r \<notin> set STAGE_REASONS) (scan_reasons (decision_prepare s))
     = scan_reasons (decision_prepare s)"
  by (simp add: decision_prepare_def retain_reasons_def)

lemma decision_prepare_fresh:
  assumes "scan_score_resolution r = None" and "\<not> has_reason SCORE_RESOLUTION_REASON r"
  shows "scan_reasons (decision_prepare r)
           = filter (\<lambda>x. sig_id x \<notin> set STAGE_REASONS) (scan_reasons r)"
    and "scan_delivery_classification (decision_prepare r) = scan_delivery_classification r"
    and "scan_arbitration r = None \<Longrightarrow> scan_decision (decision_prepare r) = scan_decision r"
    and "scan_arbitration r = Some a \<Longrightarrow> ar_version a = DECISION_VERSION \<Longrightarrow> scan_complete r \<Longrightarrow>
      scan_decision r = Some (ar_decision a) \<Longrightarrow> d_score (ar_decision a) \<noteq> Some NaN \<Longrightarrow>
      scan_decision (decision_prepare r) = Some (ar_baseline a)"
  by (simp_all add: decision_prepare_def restore_fresh [OF assms] restore_arbitration_def Let_def
      retain_reasons_def ARBITRATION_VERSIONS_def decision_eq_refl_iff split: option.split)


lemma reason_rows_distinct [simp]:
  "CONFIRMATION_REVIEW_REASON \<notin> set STAGE_REASONS" "SCORE_RESOLUTION_REASON \<notin> set STAGE_REASONS"
  "DECISION_REVIEW_REASON \<in> set STAGE_REASONS" "CONTEXT_REASON \<in> set STAGE_REASONS"
  "MALWARE_REASON \<in> set STAGE_REASONS" "OBSERVED_THREAT_REASON \<in> set STAGE_REASONS"
  "CONFIRMATION_REVIEW_REASON \<noteq> SCORE_RESOLUTION_REASON" "MALWARE_REASON \<noteq> SCORE_RESOLUTION_REASON"
  "OBSERVED_THREAT_REASON \<noteq> SCORE_RESOLUTION_REASON" "CONTEXT_REASON \<noteq> SCORE_RESOLUTION_REASON"
  "DECISION_REVIEW_REASON \<noteq> SCORE_RESOLUTION_REASON" "CONTEXT_REASON \<noteq> CONFIRMATION_REVIEW_REASON"
  "CONFIRMATION_REVIEW_REASON \<noteq> CONTEXT_REASON"
  "DECISION_REVIEW_REASON \<noteq> CONTEXT_REASON" "DECISION_REVIEW_REASON \<noteq> CONFIRMATION_REVIEW_REASON"
  by (simp_all add: STAGE_REASONS_def CONFIRMATION_REVIEW_REASON_def SCORE_RESOLUTION_REASON_def
      DECISION_REVIEW_REASON_def CONTEXT_REASON_def MALWARE_REASON_def OBSERVED_THREAT_REASON_def)

lemma review_row_id [simp]: "sig_id (review_row i d) = i"
  by (simp add: review_row_def)

lemma malware_fields:
  "scan_decision (apply_malware w) = Some \<lparr>d_source = Src_Antivirus, d_outcome = Unwanted,
     d_score = None, d_model = DECISION_VERSION\<rparr>"
  "scan_tagged (apply_malware w) = (scan_tagged w \<and> scan_complete w)"
  "scan_pub_tagged (apply_malware w) = False"
  "scan_arbitration (apply_malware w) = scan_arbitration w"
  "scan_score_resolution (apply_malware w) = scan_score_resolution w"
  "scan_delivery_classification (apply_malware w) = scan_delivery_classification w"
  "scan_complete (apply_malware w) = scan_complete w"
  "observations (apply_malware w) = observations w"
  by (simp_all add: apply_malware_def Let_def frame_simps)

lemma scan_malware_idem:
  assumes "av_status (scan_antivirus s) = Av_Malware"
  shows "decision_apply (decision_apply s rc) rc = decision_apply s rc"
proof -
  let ?u = "decision_prepare s"
  have r: "decision_apply s rc = apply_malware ?u"
    using assms by (simp add: decision_apply_def Let_def prepare.stage_fields)
  have res: "scan_score_resolution (apply_malware ?u) = None"
    "\<not> has_reason SCORE_RESOLUTION_REASON (apply_malware ?u)"
    "scan_arbitration (apply_malware ?u) = None"
    using decision_prepare_fields [of s] reason_rows_distinct
    by (auto simp: apply_malware_def Let_def has_reason_def push_reason_def retain_reasons_def list_ex_iff)
  note prep = decision_prepare_fresh [OF res(1,2)]
  have "decision_apply (apply_malware ?u) rc = apply_malware (decision_prepare (apply_malware ?u))"
    using assms by (simp add: decision_apply_def Let_def prepare.stage_fields apply_malware_def)
  also have "\<dots> = apply_malware ?u"
  proof (rule scan_eqI)
    have rows: "filter (\<lambda>x. sig_id x \<noteq> CONFIRMATION_REVIEW_REASON) (scan_reasons (decision_prepare (apply_malware ?u)))
      = filter (\<lambda>x. sig_id x \<noteq> CONFIRMATION_REVIEW_REASON) (scan_reasons ?u)"
      unfolding prep(1) using decision_prepare_no_stage [of s]
      by (auto simp: apply_malware_def Let_def push_reason_def retain_reasons_def filter_id_conv
          intro!: filter_cong)
    show "scan_reasons (apply_malware (decision_prepare (apply_malware ?u))) = scan_reasons (apply_malware ?u)"
      using rows by (simp add: apply_malware_def [of "decision_prepare _"] Let_def push_reason_def retain_reasons_def)
  qed (simp_all add: malware_fields frame_simps decision_prepare_fields prep prepare.stage_fields)
  finally show ?thesis by (simp add: r)
qed


lemma threat_fields:
  "scan_decision (apply_observed_threat w) = Some \<lparr>d_source = Src_Legacy, d_outcome = Unwanted,
     d_score = None, d_model = DECISION_VERSION\<rparr>"
  "scan_tagged (apply_observed_threat w) = False" "scan_pub_tagged (apply_observed_threat w) = False"
  "scan_arbitration (apply_observed_threat w) = scan_arbitration w"
  "scan_score_resolution (apply_observed_threat w) = scan_score_resolution w"
  "scan_delivery_classification (apply_observed_threat w) = scan_delivery_classification w"
  by (simp_all add: apply_observed_threat_def)

lemma scan_threat_idem:
  assumes "av_status (scan_antivirus s) \<noteq> Av_Malware"
    and "is_some_and (scan_decision (decision_prepare s)) (\<lambda>d. d_source d = Src_Legacy)"
    and threat: "observed_threat_with_partial_coverage (decision_prepare s)"
  shows "decision_apply (decision_apply s rc) rc = decision_apply s rc"
proof -
  let ?u = "decision_prepare s"
  let ?r = "apply_observed_threat ?u"
  let ?v = "decision_prepare ?r"
  have r: "decision_apply s rc = ?r"
    using assms by (simp add: decision_apply_def Let_def prepare.stage_fields)
  have res: "scan_score_resolution ?r = None" "\<not> has_reason SCORE_RESOLUTION_REASON ?r"
    "scan_arbitration ?r = None"
    using decision_prepare_fields [of s] reason_rows_distinct
    by (auto simp: apply_observed_threat_def has_reason_def push_reason_def list_ex_iff)
  note prep = decision_prepare_fresh [OF res(1,2)]
  have obs: "observations ?v = observations ?u"
    by (simp add: prepare.stage_observations apply_observed_threat_def frame_simps)
  have dec: "scan_decision ?v = scan_decision ?r" by (rule prep(3) [OF res(3)])
  have "decision_apply ?r rc = apply_observed_threat ?v"
    using assms(1) threat observed_threat_observations [OF obs]
    by (simp add: decision_apply_def Let_def prepare.stage_fields dec)
       (simp add: apply_observed_threat_def prepare.stage_fields)
  also have "\<dots> = ?r"
  proof (rule scan_eqI)
    have "scan_message_context ?v = scan_message_context ?u" by (rule observations_fields(9) [OF obs])
    moreover have "scan_reasons ?v = scan_reasons ?u"
      unfolding prep(1) using decision_prepare_no_stage [of s]
      by (simp add: apply_observed_threat_def push_reason_def)
    ultimately show "scan_reasons (apply_observed_threat ?v) = scan_reasons ?r"
      by (simp add: apply_observed_threat_def push_reason_def)
    have "observations (apply_observed_threat w) = observations w" for w
      by (simp add: apply_observed_threat_def frame_simps)
    then show "observations (apply_observed_threat ?v) = observations ?r" by (simp add: obs)
  qed (simp_all add: threat_fields decision_prepare_fields prep)
  finally show ?thesis by (simp add: r)
qed

text \<open>
  The arbitration branch. \<open>u\<close> is the prepared scan, \<open>v\<close> what the second run prepares from the
  result of the first: it has the same observations, either the same decision (restored by
  the recorded arbitration) or the reviewed one, and keeps only the confirmation row.
\<close>

definition second_run :: "bool \<Rightarrow> bool \<Rightarrow> scan \<Rightarrow> scan \<Rightarrow> bool" where
  "second_run c rc u v \<longleftrightarrow>
     observations v = observations u
     \<and> (if fst (arbitrate u) = None then scan_decision v = reviewed_decision c rc u
        else scan_decision v = scan_decision u)
     \<and> has_reason CONFIRMATION_REVIEW_REASON v = confirms rc u
     \<and> \<not> has_reason DECISION_REVIEW_REASON v"

lemma hide_idem [simp]: "hide (hide d) = hide d" "hide (d\<lparr>d_outcome := x\<rparr>) = hide d"
  "d_outcome (hide d) = Undetermined" "d_source (hide d) = d_source d"
  by (simp_all add: hide_def)

lemma second_run_views:
  assumes "second_run c rc u v"
  shows "corroborated v = corroborated u" and "needs_review v = needs_review u"
    and "readable_with_dns_gap v = readable_with_dns_gap u" and "scan_complete v = scan_complete u"
    and "llm_opinion (scan_llm v) = llm_opinion (scan_llm u)"
proof -
  from assms have obs: "observations v = observations u" by (simp add: second_run_def)
  show "corroborated v = corroborated u" by (rule corroborated_observations [OF obs])
  show "needs_review v = needs_review u" by (rule needs_review_observations [OF obs])
  show "readable_with_dns_gap v = readable_with_dns_gap u"
    by (rule readable_with_dns_gap_observations [OF obs])
  show "scan_complete v = scan_complete u" by (rule observations_fields(2) [OF obs])
  show "llm_opinion (scan_llm v) = llm_opinion (scan_llm u)"
    by (simp only: observations_fields(7) [OF obs])
qed

lemma second_run_arbitrated:
  assumes sr: "second_run c rc u v" and some: "fst (arbitrate u) = Some a"
  shows "fst (arbitrate v) = fst (arbitrate u)" and "abstains v = abstains u"
    and "arbitration_detail v = arbitration_detail u"
    and "confirms rc v = confirms rc u" and "confirmed_decision rc v = confirmed_decision rc u"
    and "contextual (contextual c rc u) rc v = contextual c rc u"
    and "reviewed_decision (contextual c rc u) rc v = reviewed_decision c rc u"
proof -
  from sr some have eq: "observations v = observations u" "scan_decision v = scan_decision u"
    by (simp_all add: second_run_def)
  note cong = arbitrate_cong [OF eq]
  show "fst (arbitrate v) = fst (arbitrate u)" "abstains v = abstains u"
    "arbitration_detail v = arbitration_detail u" by (rule cong)+
  obtain b where b: "scan_decision u = Some b" "d_outcome b \<noteq> Undetermined" and comp: "scan_complete u"
    using arbitrate_Some [OF some] by blast
  note views = second_run_views [OF sr]
  show conf: "confirms rc v = confirms rc u"
    using b comp by (auto simp: confirms_def cong(2) cong(1) views arbitrated_decision_def eq(2))
  show dec: "confirmed_decision rc v = confirmed_decision rc u"
    by (simp add: confirmed_decision_def conf cong)
  show ctx: "contextual (contextual c rc u) rc v = contextual c rc u"
    using comp by (cases "confirmed_decision rc u") (auto simp: contextual_def dec views)
  show "reviewed_decision (contextual c rc u) rc v = reviewed_decision c rc u"
    by (simp add: reviewed_decision_def ctx dec)
qed


lemma not_arbitrated:
  assumes "fst (arbitrate u) = None"
  shows "arbitrated_decision u = scan_decision u" and "snd (arbitrate u) = u"
  using arbitrate_None [OF assms] by (simp_all add: arbitrated_decision_def arbitrate_closed)

lemma reviewed_weakens:
  assumes "fst (arbitrate u) = None" and "reviewed_decision c rc u = Some d"
  shows "\<exists>b. scan_decision u = Some b \<and> d_source d = d_source b
     \<and> (d_outcome d = d_outcome b \<or> d_outcome d = Undetermined)"
  using assms(2) not_arbitrated(1) [OF assms(1)]
  by (cases "scan_decision u") (auto simp: reviewed_decision_def confirmed_decision_def split: if_splits)

lemma second_run_unarbitrated:
  assumes sr: "second_run c rc u v" and none: "fst (arbitrate u) = None"
  shows "fst (arbitrate v) = None"
proof (rule ccontr)
  assume "fst (arbitrate v) \<noteq> None"
  then obtain b opinion where b: "scan_complete v" "scan_decision v = Some b" "d_source b = Src_Legacy"
    "d_outcome b \<noteq> Undetermined" "llm_opinion (scan_llm v) = Some opinion"
    by (auto simp: arbitrate_def Let_def split: option.splits if_splits)
  with sr none have "reviewed_decision c rc u = Some b" by (simp add: second_run_def)
  from reviewed_weakens [OF none this] b obtain b' where
    "scan_decision u = Some b'" "d_source b' = Src_Legacy" "d_outcome b' \<noteq> Undetermined" by auto
  with b second_run_views [OF sr] none show False
    by (simp add: arbitrate_def Let_def)
qed

lemma second_run_fixed:
  assumes sr: "second_run c rc u v" and none: "fst (arbitrate u) = None"
  shows "confirms rc v = confirms rc u"
    and "contextual (contextual c rc u) rc v = contextual c rc u"
    and "reviewed_decision (contextual c rc u) rc v = reviewed_decision c rc u"
proof -
  note noneV = second_run_unarbitrated [OF sr none]
  note views = second_run_views [OF sr]
  note arb = not_arbitrated [OF none] arbitrate_None [OF none]
    not_arbitrated [OF noneV] arbitrate_None [OF noneV]
  have v: "scan_decision v = reviewed_decision c rc u"
    "has_reason CONFIRMATION_REVIEW_REASON v = confirms rc u" "\<not> has_reason DECISION_REVIEW_REASON v"
    using sr none by (simp_all add: second_run_def)
  show conf: "confirms rc v = confirms rc u"
    unfolding confirms_def [of rc v] arb v views
    by (cases "scan_decision u")
       (auto simp: confirms_def arb v(3) reviewed_decision_def confirmed_decision_def contextual_def)
  have dec: "confirmed_decision rc v = reviewed_decision c rc u"
    by (cases "scan_decision u")
       (auto simp: confirmed_decision_def conf arb v reviewed_decision_def hide_def)
  show ctx: "contextual (contextual c rc u) rc v = contextual c rc u"
    unfolding contextual_def [of _ rc v] dec views
    by (cases "confirmed_decision rc u") (auto simp: reviewed_decision_def contextual_def)
  show "reviewed_decision (contextual c rc u) rc v = reviewed_decision c rc u"
    unfolding reviewed_decision_def [of _ rc v] ctx dec
    by (cases "confirmed_decision rc u") (auto simp: reviewed_decision_def)
qed


lemma apply_arbitration_has_rows:
  assumes "\<not> has_reason SCORE_RESOLUTION_REASON u"
    and stage: "filter (\<lambda>r. sig_id r \<notin> set STAGE_REASONS) (scan_reasons u) = scan_reasons u"
  shows "\<not> has_reason SCORE_RESOLUTION_REASON (apply_arbitration u c rc)"
    and "has_reason CONTEXT_REASON (apply_arbitration u c rc) = contextual c rc u"
    and "filter (\<lambda>r. sig_id r \<notin> set STAGE_REASONS) (scan_reasons (apply_arbitration u c rc))
       = filter (\<lambda>r. sig_id r \<noteq> CONFIRMATION_REVIEW_REASON) (scan_reasons u)
         @ (if confirms rc u then [review_row CONFIRMATION_REVIEW_REASON CONFIRMATION_DETAIL] else [])"
proof -
  have mem: "r \<in> set (scan_reasons u) \<Longrightarrow> sig_id r \<notin> set STAGE_REASONS" for r
    using stage by (metis filter_id_conv)
  show "\<not> has_reason SCORE_RESOLUTION_REASON (apply_arbitration u c rc)"
    using assms(1) reason_rows_distinct
    by (auto simp: has_reason_def apply_arbitration_fields stage_rows_def list_ex_iff)
  have no_ctx: "r \<in> set (scan_reasons u) \<Longrightarrow> sig_id r \<noteq> CONTEXT_REASON" for r
    using mem [of r] reason_rows_distinct(4) by metis
  show "has_reason CONTEXT_REASON (apply_arbitration u c rc) = contextual c rc u"
    using no_ctx reason_rows_distinct
    by (auto simp: has_reason_def apply_arbitration_fields stage_rows_def list_ex_iff)
  have "filter (\<lambda>r. sig_id r \<noteq> CONFIRMATION_REVIEW_REASON \<and> sig_id r \<notin> set STAGE_REASONS) (scan_reasons u)
      = filter (\<lambda>r. sig_id r \<noteq> CONFIRMATION_REVIEW_REASON) (scan_reasons u)"
    using mem by (auto intro: filter_cong)
  then show "filter (\<lambda>r. sig_id r \<notin> set STAGE_REASONS) (scan_reasons (apply_arbitration u c rc))
       = filter (\<lambda>r. sig_id r \<noteq> CONFIRMATION_REVIEW_REASON) (scan_reasons u)
         @ (if confirms rc u then [review_row CONFIRMATION_REVIEW_REASON CONFIRMATION_DETAIL] else [])"
    by (simp add: apply_arbitration_fields stage_rows_def)
qed

lemma reviewed_not_NaN:
  assumes "\<And>d. scan_decision u = Some d \<Longrightarrow> d_score d \<noteq> Some NaN" and "reviewed_decision c rc u = Some d"
  shows "d_score d \<noteq> Some NaN"
  using assms
  by (auto simp: reviewed_decision_def confirmed_decision_def arbitrated_decision_def hide_def split: if_splits)

lemma second_run_holds:
  assumes u: "u = decision_prepare s" and nan: "\<And>d. scan_decision u = Some d \<Longrightarrow> d_score d \<noteq> Some NaN"
    and r: "r = apply_arbitration u c rc"
  shows "second_run c rc u (decision_prepare r)"
    and "scan_reasons (decision_prepare r)
       = filter (\<lambda>r. sig_id r \<noteq> CONFIRMATION_REVIEW_REASON) (scan_reasons u)
         @ (if confirms rc u then [review_row CONFIRMATION_REVIEW_REASON CONFIRMATION_DETAIL] else [])"
    and "scan_delivery_classification (decision_prepare r) = scan_delivery_classification u"
proof -
  have nosr: "\<not> has_reason SCORE_RESOLUTION_REASON u" and stage: "filter (\<lambda>r. sig_id r \<notin> set STAGE_REASONS) (scan_reasons u) = scan_reasons u"
    by (simp_all add: u decision_prepare_fields decision_prepare_no_stage)
  note rows = apply_arbitration_has_rows [OF nosr stage, of c rc, folded r]
  have res: "scan_score_resolution r = None" by (simp add: r u apply_arbitration_fields decision_prepare_fields)
  note prep = decision_prepare_fresh [OF res rows(1)]
  show reasons: "scan_reasons (decision_prepare r)
       = filter (\<lambda>r. sig_id r \<noteq> CONFIRMATION_REVIEW_REASON) (scan_reasons u)
         @ (if confirms rc u then [review_row CONFIRMATION_REVIEW_REASON CONFIRMATION_DETAIL] else [])"
    by (simp add: prep(1) rows(3))
  show "scan_delivery_classification (decision_prepare r) = scan_delivery_classification u"
    unfolding prep(2) by (simp add: r apply_arbitration_fields)
  have obs: "observations (apply_arbitration w c rc) = observations w" for w
    using arbitrate_observations [of w]
    by (cases "arbitrate w") (simp add: apply_arbitration_def Let_def frame_simps)
  have mem: "x \<in> set (scan_reasons u) \<Longrightarrow> sig_id x \<noteq> DECISION_REVIEW_REASON" for x
    using stage reason_rows_distinct(3) by (metis (mono_tags, lifting) filter_id_conv)
  show "second_run c rc u (decision_prepare r)"
    unfolding second_run_def
  proof (intro conjI)
    show "observations (decision_prepare r) = observations u" by (simp add: r obs frame_simps)
    show "has_reason CONFIRMATION_REVIEW_REASON (decision_prepare r) = confirms rc u"
      by (auto simp: has_reason_def reasons list_ex_iff)
    show "\<not> has_reason DECISION_REVIEW_REASON (decision_prepare r)"
      using mem reason_rows_distinct by (auto simp: has_reason_def reasons list_ex_iff)
    show "if fst (arbitrate u) = None then scan_decision (decision_prepare r) = reviewed_decision c rc u
        else scan_decision (decision_prepare r) = scan_decision u"
    proof (cases "fst (arbitrate u)")
      case None
      then show ?thesis using prep(3) by (simp add: r apply_arbitration_fields)
    next
      case (Some a)
      from arbitrate_Some [OF Some] obtain b where b: "scan_decision u = Some b" "ar_baseline a = b" by auto
      then obtain d where d: "reviewed_decision c rc u = Some d"
        by (cases "reviewed_decision c rc u")
           (auto simp: reviewed_decision_def confirmed_decision_def arbitrated_decision_def split: if_splits)
      have "scan_complete r" using arbitrate_Some(4) [OF Some] obs [of u] by (simp add: r observations_fields(2) [OF obs])
      then show ?thesis
        using prep(4) [of "a\<lparr>ar_decision := d\<rparr>"] Some b d arbitrate_Some(1) [OF Some]
          reviewed_not_NaN [OF nan d]
        by (simp add: r apply_arbitration_fields)
    qed
  qed
qed


lemma scan_arbitration_idem:
  assumes nan: "\<And>d. scan_decision (decision_prepare s) = Some d \<Longrightarrow> d_score d \<noteq> Some NaN"
    and av: "av_status (scan_antivirus s) \<noteq> Av_Malware"
    and branch: "\<not> (is_some_and (scan_decision (decision_prepare s)) (\<lambda>d. d_source d = Src_Legacy)
      \<and> observed_threat_with_partial_coverage (decision_prepare s))"
  shows "decision_apply (decision_apply s rc) rc = decision_apply s rc"
proof -
  define u where "u = decision_prepare s"
  define c where "c = has_reason CONTEXT_REASON (restore_score_resolution s)"
  define r where "r = apply_arbitration u c rc"
  define v where "v = decision_prepare r"
  have run: "decision_apply s rc = r"
    using av branch by (auto simp: decision_apply_def Let_def prepare.stage_fields r_def u_def c_def)
  have nosr: "\<not> has_reason SCORE_RESOLUTION_REASON u"
    and stage: "filter (\<lambda>r. sig_id r \<notin> set STAGE_REASONS) (scan_reasons u) = scan_reasons u"
    by (simp_all add: u_def decision_prepare_fields decision_prepare_no_stage)
  note rows = apply_arbitration_has_rows [OF nosr stage, of c rc, folded r_def]
  have fields: "scan_score_resolution r = None" "scan_score_resolution u = None" "scan_arbitration v = None"
    "scan_score_resolution v = None" "scan_tagged v = scan_tagged r" "scan_pub_tagged v = scan_pub_tagged r"
    by (simp_all add: r_def u_def v_def apply_arbitration_fields decision_prepare_fields)
  note second = second_run_holds [OF u_def nan [folded u_def] r_def, folded v_def]
  note sr = second(1)
  have same: "fst (arbitrate v) = fst (arbitrate u)" "abstains v = abstains u"
    "abstains u \<longrightarrow> arbitration_detail v = arbitration_detail u"
    "confirms rc v = confirms rc u" "contextual (contextual c rc u) rc v = contextual c rc u"
    "reviewed_decision (contextual c rc u) rc v = reviewed_decision c rc u"
    using second_run_arbitrated [OF sr] second_run_unarbitrated [OF sr] second_run_fixed [OF sr]
      arbitrate_None [of u] arbitrate_None [of v]
    by (cases "fst (arbitrate u)"; simp)+
  have obs: "observations v = observations u" using sr by (simp add: second_run_def)
  have threat: "observed_threat_with_partial_coverage v = observed_threat_with_partial_coverage u"
    by (rule observed_threat_observations [OF obs])
  have legacy: "is_some_and (scan_decision u) (\<lambda>d. d_source d = Src_Legacy)"
    if "is_some_and (scan_decision v) (\<lambda>d. d_source d = Src_Legacy)"
    using that sr reviewed_weakens [of u c rc]
    by (cases "fst (arbitrate u)") (auto simp: second_run_def is_some_and_iff)
  have "scan_antivirus r = scan_antivirus s"
    unfolding run [symmetric] by (rule decide.stage_fields)
  with av have "av_status (scan_antivirus r) \<noteq> Av_Malware" by simp
  then have again: "decision_apply r rc = apply_arbitration v (contextual c rc u) rc"
    using branch legacy threat rows(1,2) fields(1) restore_fresh [of r]
    by (auto simp: decision_apply_def Let_def prepare.stage_fields v_def u_def)
  also have "\<dots> = r"
  proof (rule scan_eqI)
    show "observations (apply_arbitration v (contextual c rc u) rc) = observations r"
      using again obs run by (metis decide.stage_observations)
    show "scan_reasons (apply_arbitration v (contextual c rc u) rc) = scan_reasons r"
      by (simp add: apply_arbitration_fields r_def second(2) stage_rows_def same)
  qed (use same second(3) in \<open>auto simp: apply_arbitration_fields r_def fields\<close>)
  finally show ?thesis by (simp add: run)
qed

lemma decision_apply_idem:
  assumes "\<And>d. scan_decision (decision_prepare s) = Some d \<Longrightarrow> d_score d \<noteq> Some NaN"
  shows "decision_apply (decision_apply s rc) rc = decision_apply s rc"
  using scan_malware_idem scan_threat_idem scan_arbitration_idem [OF assms] by blast

end
