(* ===== verification/NF_Config.thy ===== *)
theory NF_Config
  imports NF_Prelude
begin

text \<open>
  Addresses, routes and recipient resolution (\<open>src/config.rs\<close>): syntax of domains and
  mailboxes, explicit relay endpoints, and the single alias hop from an accepted address to
  the canonical mailbox that delivery and access control use.
\<close>

section \<open>Syntax of domains, mailboxes and routes\<close>

definition valid_label :: "string \<Rightarrow> bool" where
  "valid_label l \<longleftrightarrow>
     l \<noteq> [] \<and> length l \<le> 63 \<and> \<not> starts_with ''-'' l \<and> \<not> ends_with ''-'' l
     \<and> list_all (\<lambda>c. is_ascii_alphanumeric c \<or> c = CHR ''-'') l"

definition valid_domain :: "string \<Rightarrow> bool" where
  "valid_domain s \<longleftrightarrow>
     s \<noteq> [] \<and> length s \<le> 253 \<and> list_all is_ascii_char s
     \<and> list_all valid_label (split_char (CHR ''.'') s)"

text \<open>The scan of a quoted local part: \<open>escaped\<close> and \<open>valid\<close> are the loop's variables.\<close>

fun quoted_local :: "bool \<Rightarrow> bool \<Rightarrow> string \<Rightarrow> bool" where
  "quoted_local escaped valid [] \<longleftrightarrow> valid \<and> \<not> escaped"
| "quoted_local escaped valid (c # cs) =
     (if escaped then quoted_local False (valid \<and> 32 \<le> byte c \<and> byte c \<le> 126) cs
      else if c = CHR 0x5C then quoted_local True valid cs
      else quoted_local False (valid \<and> 32 \<le> byte c \<and> byte c \<le> 126 \<and> c \<noteq> CHR 0x22) cs)"

definition atext_extra :: string where
  "atext_extra = ''!#$%&'' @ [CHR 0x27] @ ''*+-/=?^_`{|}~.''"

definition local_valid :: "string \<Rightarrow> bool" where
  "local_valid l =
     (if starts_with [CHR 0x22] l \<and> ends_with [CHR 0x22] l \<and> length l \<ge> 2
      then quoted_local False True (butlast (tl l))
      else \<not> starts_with ''.'' l \<and> \<not> ends_with ''.'' l \<and> \<not> contains_str ''..'' l
           \<and> list_all (\<lambda>c. is_ascii_alphanumeric c \<or> c \<in> set atext_extra) l)"

definition valid_address :: "string \<Rightarrow> bool" where
  "valid_address s =
     (case rsplit_once (CHR ''@'') s of
        None \<Rightarrow> False
      | Some (l, d) \<Rightarrow>
          l \<noteq> [] \<and> length l \<le> 64 \<and> length s \<le> 254 \<and> valid_domain d \<and> local_valid l)"

text \<open>\<open>str::parse::<u16>\<close>: an optional plus sign, at least one digit, no overflow.\<close>

fun parse_digits :: "nat \<Rightarrow> string \<Rightarrow> nat option" where
  "parse_digits acc [] = Some acc"
| "parse_digits acc (c # cs) =
     (if 48 \<le> byte c \<and> byte c \<le> 57 then parse_digits (acc * 10 + (byte c - 48)) cs else None)"

definition parse_u16 :: "string \<Rightarrow> u16 option" where
  "parse_u16 s =
     (let ds = (case s of c # cs \<Rightarrow> if c = CHR ''+'' then cs else s | [] \<Rightarrow> s)
      in if ds = [] then None
         else (case parse_digits 0 ds of
             None \<Rightarrow> None
           | Some n \<Rightarrow> if n < 65536 then Some (of_nat n) else None))"

definition strip_root_dot :: "string \<Rightarrow> string" where
  "strip_root_dot h = unwrap_or (strip_suffix ''.'' h) h"

definition endpoint :: "string \<Rightarrow> u16 \<Rightarrow> (string \<times> u16) option" where
  "endpoint value default_port =
     (case (case split_once (CHR '':'') value of
              Some (h, p) \<Rightarrow> map_option (Pair h) (parse_u16 p)
            | None \<Rightarrow> Some (value, default_port)) of
        None \<Rightarrow> None
      | Some (h, port) \<Rightarrow>
          (let host = strip_root_dot h
           in if valid_domain host \<and> port > 0 then Some (host, port) else None))"

section \<open>Recipients\<close>

text \<open>The aliases of a domain are a \<open>BTreeMap\<close>, listed in key order.\<close>

record domain =
  dom_name :: string
  dom_next_hops :: "string list"
  dom_accept_all_recipients :: bool
  dom_recipients :: "string list"
  dom_aliases :: "(string \<times> string) list"

record recipient =
  rc_address :: string
  rc_destination :: string
  rc_hosts :: "string list"

definition same_mailbox :: "string \<Rightarrow> string \<Rightarrow> bool" where
  "same_mailbox left right =
     (case (rsplit_once (CHR ''@'') left, rsplit_once (CHR ''@'') right) of
        (Some (ll, ld), Some (rl, rd)) \<Rightarrow> ll = rl \<and> eq_ignore_ascii_case ld rd
      | _ \<Rightarrow> False)"

definition owner_domain :: "domain list \<Rightarrow> string \<Rightarrow> domain option" where
  "owner_domain ds name = find (\<lambda>d. eq_ignore_ascii_case (dom_name d) name) ds"

definition canonical_destination :: "domain list \<Rightarrow> string \<Rightarrow> (string \<times> domain) option" where
  "canonical_destination ds address =
     (if \<not> valid_address address then None
      else (case rsplit_once (CHR ''@'') address of
          None \<Rightarrow> None
        | Some (l, name) \<Rightarrow>
           (case owner_domain ds name of
              None \<Rightarrow> None
            | Some d \<Rightarrow>
                if list_ex (\<lambda>(alias, _). same_mailbox alias address) (dom_aliases d) then None
                else (case find (\<lambda>configured. same_mailbox configured address) (dom_recipients d) of
                    Some configured \<Rightarrow> Some (configured, d)
                  | None \<Rightarrow>
                      if dom_accept_all_recipients d
                      then Some (l @ ''@'' @ to_ascii_lowercase (dom_name d), d) else None))))"

definition config_recipient :: "domain list \<Rightarrow> string \<Rightarrow> recipient option" where
  "config_recipient ds address =
     (case canonical_destination ds address of
        Some (canonical, owner) \<Rightarrow>
          Some \<lparr>rc_address = canonical, rc_destination = canonical, rc_hosts = dom_next_hops owner\<rparr>
      | None \<Rightarrow>
         (case rsplit_once (CHR ''@'') address of
            None \<Rightarrow> None
          | Some (_, name) \<Rightarrow>
             (case owner_domain ds name of
                None \<Rightarrow> None
              | Some incoming \<Rightarrow>
                 (case find (\<lambda>(alias, _). same_mailbox alias address) (dom_aliases incoming) of
                    None \<Rightarrow> None
                  | Some (alias, target) \<Rightarrow>
                     (case canonical_destination ds target of
                        None \<Rightarrow> None
                      | Some (canonical, owner) \<Rightarrow>
                          Some \<lparr>rc_address = alias, rc_destination = canonical,
                                rc_hosts = dom_next_hops owner\<rparr>)))))"

section \<open>Lemmas\<close>

lemma byte_eq_iff: "byte a = byte b \<longleftrightarrow> a = b"
  by (simp add: byte_def)

lemma byte_ascii_lower:
  "byte (ascii_lower c) = (if 65 \<le> byte c \<and> byte c \<le> 90 then byte c + 32 else byte c)"
  by (simp add: ascii_lower_def byte_def)

lemma ascii_lower_at [simp]: "ascii_lower c = CHR ''@'' \<longleftrightarrow> c = CHR ''@''"
proof -
  have at64: "byte (CHR ''@'') = 64" by (simp add: byte_def)
  have "byte (ascii_lower c) = 64 \<longleftrightarrow> byte c = 64" by (simp add: byte_ascii_lower)
  then show ?thesis using at64 byte_eq_iff by metis
qed

lemma at_in_lowercase [simp]: "CHR ''@'' \<in> set (to_ascii_lowercase s) \<longleftrightarrow> CHR ''@'' \<in> set s"
  by (induction s) (simp_all add: to_ascii_lowercase_def eq_commute [of "CHR ''@''"])

lemma eq_ignore_case_at:
  "eq_ignore_ascii_case a b \<Longrightarrow> CHR ''@'' \<in> set a \<longleftrightarrow> CHR ''@'' \<in> set b"
  by (metis at_in_lowercase eq_ignore_ascii_case_def)

lemma rsplit_once_at:
  "CHR ''@'' \<notin> set d \<Longrightarrow> rsplit_once (CHR ''@'') (l @ CHR ''@'' # d) = Some (l, d)"
proof -
  assume "CHR ''@'' \<notin> set d"
  moreover have "split_once c (xs @ c # ys) = Some (xs, ys)" if "c \<notin> set xs" for c xs ys
    using that by (induction xs) auto
  ultimately show ?thesis by (simp add: rsplit_once_def)
qed

lemma same_mailbox_trans: "same_mailbox a b \<Longrightarrow> same_mailbox b c \<Longrightarrow> same_mailbox a c"
  by (auto simp: same_mailbox_def eq_ignore_ascii_case_def split: option.splits)

lemma same_mailbox_sym: "same_mailbox a b \<Longrightarrow> same_mailbox b a"
  by (auto simp: same_mailbox_def eq_ignore_ascii_case_def split: option.splits)

lemma find_SomeD: "find P xs = Some x \<Longrightarrow> x \<in> set xs \<and> P x"
  by (auto simp: find_Some_iff)

lemma lowercase_idem [simp]: "to_ascii_lowercase (to_ascii_lowercase s) = to_ascii_lowercase s"
proof -
  have "ascii_lower (ascii_lower c) = ascii_lower c" for c
    using byte_ascii_lower [of c] byte_ascii_lower [of "ascii_lower c"]
    by (simp add: byte_eq_iff [symmetric])
  then show ?thesis by (simp add: to_ascii_lowercase_def)
qed

lemma canonical_destination_same:
  assumes "canonical_destination ds a = Some (c, d)"
  shows "same_mailbox c a \<and> d \<in> set ds
       \<and> \<not> list_ex (\<lambda>(alias, _). same_mailbox alias a) (dom_aliases d)"
proof -
  from assms obtain l name where
    a: "rsplit_once (CHR ''@'') a = Some (l, name)" "owner_domain ds name = Some d"
    and noalias: "\<not> list_ex (\<lambda>(alias, _). same_mailbox alias a) (dom_aliases d)"
    and c: "(\<exists>r. find (\<lambda>x. same_mailbox x a) (dom_recipients d) = Some r \<and> c = r)
            \<or> c = l @ ''@'' @ to_ascii_lowercase (dom_name d)"
    by (auto simp: canonical_destination_def split: if_splits option.splits)
  from a(2) have own: "d \<in> set ds" "eq_ignore_ascii_case (dom_name d) name"
    by (auto simp: owner_domain_def dest: find_SomeD)
  from rsplit_once_Some [OF a(1)] own(2) have "CHR ''@'' \<notin> set (dom_name d)"
    by (auto dest: eq_ignore_case_at)
  then have "rsplit_once (CHR ''@'') (l @ ''@'' @ to_ascii_lowercase (dom_name d))
      = Some (l, to_ascii_lowercase (dom_name d))"
    by (simp add: rsplit_once_at)
  then have "same_mailbox (l @ ''@'' @ to_ascii_lowercase (dom_name d)) a"
    using a(1) own(2) by (simp add: same_mailbox_def eq_ignore_ascii_case_def)
  with c own noalias show ?thesis by (auto dest: find_SomeD)
qed

section \<open>Lemmas: decimal numbers\<close>

lemma byte_char_of [simp]: "n < 256 \<Longrightarrow> byte (char_of n) = n"
  by (simp add: byte_def)

lemma parse_digits_append:
  "parse_digits acc (xs @ ys) = Option.bind (parse_digits acc xs) (\<lambda>a. parse_digits a ys)"
  by (induction acc xs rule: parse_digits.induct) auto

lemma parse_nat_digits: "parse_digits 0 (nat_digits n) = Some n"
proof (induction n rule: nat_digits.induct)
  case (1 n)
  show ?case
  proof (cases "n < 10")
    case True
    then show ?thesis by (subst nat_digits.simps) simp
  next
    case False
    have "n mod 10 < 10" by simp
    then have "48 + n mod 10 < 256" by linarith
    with False 1 show ?thesis by (subst nat_digits.simps) (simp add: parse_digits_append)
  qed
qed

lemma nat_digits_inj: "nat_digits m = nat_digits n \<Longrightarrow> m = n"
  by (metis option.inject parse_nat_digits)


section \<open>Lemmas: printable addresses\<close>

text \<open>The bytes an accepted address may hold: visible ASCII and the space.\<close>

definition printable :: "char \<Rightarrow> bool" where
  "printable c \<longleftrightarrow> 32 \<le> byte c \<and> byte c \<le> 126"

lemma printable_alphanumeric: "is_ascii_alphanumeric c \<Longrightarrow> printable c"
  by (auto simp: is_ascii_alphanumeric_def printable_def)

lemma printable_const [simp]: "printable (CHR ''@'')" "printable (CHR ''-'')" "printable (CHR ''.'')"
  "printable (CHR 0x22)" "printable (CHR 0x5C)"
  by (simp_all add: printable_def byte_def)

lemma set_split_char: "set s \<subseteq> insert c (\<Union> (set ` set (split_char c s)))"
proof (induction s)
  case (Cons x xs)
  then show ?case by (cases "split_char c xs") auto
qed simp

lemma valid_domain_printable: "valid_domain d \<Longrightarrow> list_all printable d"
proof -
  assume v: "valid_domain d"
  have "printable c" if "c \<in> set l" "l \<in> set (split_char (CHR ''.'') d)" for c l
  proof -
    from v that have "is_ascii_alphanumeric c \<or> c = CHR ''-''"
      by (simp add: valid_domain_def valid_label_def list_all_iff)
    then show ?thesis using printable_alphanumeric by auto
  qed
  then show ?thesis
    using set_split_char [of d "CHR ''.''"] by (auto simp: list_all_iff)
qed

lemma quoted_local_valid: "quoted_local esc valid cs \<Longrightarrow> valid"
  by (induction esc valid cs rule: quoted_local.induct) (auto split: if_splits)

lemma quoted_local_printable: "quoted_local esc valid cs \<Longrightarrow> list_all printable cs"
proof (induction cs arbitrary: esc valid)
  case (Cons c cs)
  have tail: "list_all printable cs"
    using Cons.prems by (auto split: if_splits intro: Cons.IH)
  show ?case
  proof (cases "\<not> esc \<and> c = CHR 0x5C")
    case False
    with Cons.prems obtain b v where "quoted_local b (v \<and> printable c) cs"
      by (simp add: printable_def split: if_splits) (metis conj_assoc)+
    then have "printable c" using quoted_local_valid by blast
    with tail show ?thesis by simp
  qed (use tail in simp)
qed simp

lemma atext_printable: "list_all printable atext_extra"
  by (simp add: atext_extra_def printable_def byte_def)

lemma local_valid_printable: "local_valid l \<Longrightarrow> list_all printable l"
proof (cases "starts_with [CHR 0x22] l \<and> ends_with [CHR 0x22] l \<and> length l \<ge> 2")
  case True
  assume v: "local_valid l"
  from True obtain m where m: "l = CHR 0x22 # m" by (auto simp: starts_with_iff_prefix prefix_def)
  with True obtain n where n: "m = n @ [CHR 0x22]"
    by (cases m rule: rev_cases) (auto simp: ends_with_iff_suffix suffix_def)
  from v True m n have "quoted_local False True n" by (simp add: local_valid_def butlast_append)
  then show ?thesis using m n by (simp add: quoted_local_printable)
next
  case False
  assume "local_valid l"
  with False have "list_all (\<lambda>c. is_ascii_alphanumeric c \<or> c \<in> set atext_extra) l"
    by (auto simp: local_valid_def)
  then show ?thesis
    using atext_printable printable_alphanumeric by (auto simp: list_all_iff)
qed

section \<open>Lemmas: endpoints\<close>

lemma nat_digits_nonempty: "nat_digits n \<noteq> []"
  by (subst nat_digits.simps) simp

lemma nat_digits_chars: "c \<in> set (nat_digits n) \<Longrightarrow> 48 \<le> byte c \<and> byte c \<le> 57"
proof (induction n rule: nat_digits.induct)
  case (1 n)
  have "n mod 10 < 10" by simp
  then have "48 + n mod 10 < 256" by linarith
  with 1 show ?case
    by (subst (asm) nat_digits.simps) (auto split: if_splits)
qed

lemma parse_u16_print: "parse_u16 (nat_digits (unat (p::u16))) = Some p"
proof -
  have "hd (nat_digits (unat p)) \<noteq> CHR ''+''"
    using nat_digits_chars [OF hd_in_set [OF nat_digits_nonempty [of "unat p"]]]
    by (auto simp: byte_def)
  moreover have "unat p < 65536" using unsigned_less [of p] by simp
  ultimately show ?thesis
    using nat_digits_nonempty [of "unat p"] parse_nat_digits [of "unat p"]
    by (cases "nat_digits (unat p)") (simp_all add: parse_u16_def del: parse_digits.simps)
qed

lemma split_char_snoc: "\<exists>f fs. split_char c (s @ [c]) = f # fs \<and> [] \<in> set fs"
  by (induction s) auto

lemma valid_domain_no_root_dot: "valid_domain h \<Longrightarrow> strip_root_dot h = h"
proof -
  assume v: "valid_domain h"
  have "h \<noteq> r @ ''.''" for r
    using v split_char_snoc [of "CHR ''.''" r]
    by (auto simp: valid_domain_def valid_label_def list_all_iff)
  then have "\<not> ends_with ''.'' h" by (auto simp: ends_with_iff_suffix suffix_def)
  then show ?thesis by (simp add: strip_root_dot_def ends_with_def)
qed

lemma valid_domain_no_colon: "valid_domain h \<Longrightarrow> CHR '':'' \<notin> set h"
proof
  assume v: "valid_domain h" and c: "CHR '':'' \<in> set h"
  with set_split_char [of h "CHR ''.''"] obtain l
    where "l \<in> set (split_char (CHR ''.'') h)" "CHR '':'' \<in> set l" by auto
  with v have "is_ascii_alphanumeric (CHR '':'')"
    by (auto simp: valid_domain_def valid_label_def list_all_iff)
  then show False by (simp add: is_ascii_alphanumeric_def byte_def)
qed

lemma split_once_append: "c \<notin> set xs \<Longrightarrow> split_once c (xs @ c # ys) = Some (xs, ys)"
  by (induction xs) auto

section \<open>Properties\<close>

text \<open>
  an address the gateway accepts holds visible ASCII and spaces only, at most 254 bytes:
  no carriage return, line feed or other control byte of a recipient or sender can reach an
  SMTP command or a header.
\<close>

theorem valid_address_printable:
  assumes "valid_address s"
  shows "list_all printable s \<and> length s \<le> 254 \<and> CHR ''@'' \<in> set s"
proof -
  from assms obtain l d where "rsplit_once (CHR ''@'') s = Some (l, d)" "valid_domain d"
    "local_valid l" "length s \<le> 254"
    by (auto simp: valid_address_def split: option.splits)
  moreover from this rsplit_once_Some have "s = l @ CHR ''@'' # d" by blast
  ultimately show ?thesis
    using valid_domain_printable local_valid_printable by auto
qed

theorem valid_address_printable_witness:
  "valid_address ''a.b@ex-1.org'' \<and> list_all printable ''a.b@ex-1.org''"
proof -
  have v: "valid_address ''a.b@ex-1.org''" by code_simp
  with valid_address_printable [OF v] show ?thesis by blast
qed

text \<open>
  printing a valid relay host and port and parsing it back gives the same endpoint,
  whatever the default port.
\<close>

theorem endpoint_roundtrip:
  assumes "valid_domain host" and "port > 0"
  shows "endpoint (host @ '':'' @ nat_digits (unat port)) default_port = Some (host, port)"
  using assms valid_domain_no_root_dot [OF assms(1)]
    split_once_append [OF valid_domain_no_colon [OF assms(1)]]
  by (simp add: endpoint_def parse_u16_print)

theorem endpoint_roundtrip_witness:
  "endpoint (''mx.example.org'' @ '':'' @ nat_digits (unat (2525::u16))) 25
     = Some (''mx.example.org'', 2525)"
proof (rule endpoint_roundtrip)
  show "valid_domain ''mx.example.org''" by code_simp
qed simp

text \<open>
  resolution follows at most one alias hop. The mailbox a message is delivered to belongs
  to a configured domain and is not itself an alias of that domain, and the relay hosts are
  those of the domain that owns the destination, not of the domain the message was sent to.
\<close>

theorem recipient_single_hop:
  assumes "config_recipient ds a = Some r"
  shows "\<exists>owner \<in> set ds. rc_hosts r = dom_next_hops owner
     \<and> (\<forall>(alias, target) \<in> set (dom_aliases owner). \<not> same_mailbox alias (rc_destination r))"
proof -
  from assms obtain b c owner where can: "canonical_destination ds b = Some (c, owner)"
    and r: "rc_destination r = c" "rc_hosts r = dom_next_hops owner"
    by (auto simp: config_recipient_def split: option.splits)
  from canonical_destination_same [OF can] have "owner \<in> set ds" "same_mailbox c b"
    "\<not> list_ex (\<lambda>(alias, _). same_mailbox alias b) (dom_aliases owner)" by auto
  with same_mailbox_trans r show ?thesis by (fastforce simp: list_ex_iff)
qed

theorem recipient_single_hop_witness:
  "\<exists>owner \<in> set [\<lparr>dom_name = ''ex.org'', dom_next_hops = [''mx''], dom_accept_all_recipients = False,
        dom_recipients = [''bob@ex.org''], dom_aliases = [(''b@ex.org'', ''bob@ex.org'')]\<rparr>].
     dom_next_hops owner = [''mx'']
     \<and> (\<forall>(alias, target) \<in> set (dom_aliases owner). \<not> same_mailbox alias ''bob@ex.org'')"
proof -
  have "config_recipient [\<lparr>dom_name = ''ex.org'', dom_next_hops = [''mx''],
        dom_accept_all_recipients = False, dom_recipients = [''bob@ex.org''],
        dom_aliases = [(''b@ex.org'', ''bob@ex.org'')]\<rparr>] ''b@EX.org''
      = Some \<lparr>rc_address = ''b@ex.org'', rc_destination = ''bob@ex.org'', rc_hosts = [''mx'']\<rparr>"
    by code_simp
  from recipient_single_hop [OF this] show ?thesis by simp
qed

end
