(* ===== verification/NF_Actions.thy ===== *)
theory NF_Actions
  imports NF_Decision NF_Config
begin

text \<open>
  From a classification to a delivery action: the evidence an action needs
  (\<open>src/action_coverage.rs\<close>), the operational restrictions common to global and scoped
  policies (\<open>src/actions.rs\<close>) and the subject mark (\<open>subject_tag\<close> in \<open>src/decision.rs\<close>).
\<close>

section \<open>Configuration\<close>

record filter_config =
  fc_partial_actions :: bool
  fc_resolve_uncertain_by_score :: bool
  fc_mode :: mode
  fc_threshold :: f64
  fc_require_corroboration :: bool

record action_policy =
  acp_spam :: action
  acp_publicity :: action
  acp_malware :: action
  acp_quarantine_days :: u16

record mailing_policy =
  mp_include_newsletters :: bool
  mp_tag_subject :: bool

text \<open>
  The parts of \<open>Config\<close> that the decision path reads: the filter section, the action policy,
  the mailing policy, the fusion mode and the domains, each optional where the source has an \<open>Option\<close>.
\<close>

record policy_config =
  cfg_filter :: filter_config
  cfg_actions :: "action_policy option"
  cfg_mailing :: "mailing_policy option"
  cfg_fusion_mode :: "fusion_mode option"
  cfg_domains :: "domain list"

definition action_policy_from_config :: "policy_config \<Rightarrow> action_policy" where
  "action_policy_from_config cfg =
     unwrap_or (cfg_actions cfg)
       \<lparr>acp_spam = Tag,
        acp_publicity = (if is_some_and (cfg_mailing cfg) mp_tag_subject then Tag else Deliver),
        acp_malware = Tag, acp_quarantine_days = 14\<rparr>"

definition action_policy_validate :: "action_policy \<Rightarrow> unit result" where
  "action_policy_validate p =
     ensure (1 \<le> acp_quarantine_days p \<and> acp_quarantine_days p \<le> 30)
       ''Quarantine storage: 1 to 30 days.''"

definition spam_tag :: "action_policy \<Rightarrow> bool" where
  "spam_tag p \<longleftrightarrow> acp_spam p = Tag \<or> acp_malware p = Tag"

section \<open>Evidence required by an action\<close>

definition COVERAGE_VERSION :: string where "COVERAGE_VERSION = ''action-coverage-1''"

definition coverage_eligible :: "coverage_evaluation \<Rightarrow> bool" where
  "coverage_eligible e \<longleftrightarrow> ce_missing e = []"

definition require :: "requirement \<Rightarrow> bool \<Rightarrow> coverage_evaluation \<Rightarrow> coverage_evaluation" where
  "require r met e =
     e\<lparr>ce_required := ce_required e @ [r],
       ce_missing := (if met then ce_missing e else ce_missing e @ [r])\<rparr>"

record coverage_context =
  cx_reason :: string
  cx_threshold :: f64
  cx_matched_rule :: bool

definition fusion_decided :: "scan \<Rightarrow> policy_config \<Rightarrow> bool" where
  "fusion_decided s cfg \<longleftrightarrow>
     is_some_and (scan_decision s) (\<lambda>d. d_source d = Src_Fusion)
     \<or> cfg_fusion_mode cfg = Some Fu_Decision"

definition fusion_validated :: "scan \<Rightarrow> bool" where
  "fusion_validated s \<longleftrightarrow>
     fo_mode (scan_fusion s) = Fu_Decision \<and> fo_status (scan_fusion s) = Fu_Complete
     \<and> is_some_and (scan_decision s) (\<lambda>d. d_source d = Src_Fusion \<and> d_outcome d = Unwanted
          \<and> valid_score (d_score d) \<noteq> None)"

definition threshold_met :: "scan \<Rightarrow> f64 \<Rightarrow> bool" where
  "threshold_met s threshold =
     (case (valid_score (Some (scan_score s)), valid_score (Some threshold)) of
        (Some x, Some t) \<Rightarrow> f64_ge x t | _ \<Rightarrow> False)"

definition coverage_basis ::
    "scan \<Rightarrow> policy_config \<Rightarrow> category \<Rightarrow> action \<Rightarrow> coverage_context \<Rightarrow> coverage_evaluation \<Rightarrow>
     coverage_evaluation" where
  "coverage_basis s cfg cat act cx report =
     (let malware = (av_status (scan_antivirus s) = Av_Malware) in
      if malware \<and> act = Quarantine then
        require R_PrimaryMalware True (report\<lparr>ce_basis := PrimaryMalware\<rparr>)
      else if scan_complete s \<or> \<not> fc_partial_actions (cfg_filter cfg) then
        require R_CompleteAnalysis (scan_complete s) (report\<lparr>ce_basis := CompleteAnalysis\<rparr>)
      else if malware then
        require R_PrimaryMalware True (report\<lparr>ce_basis := PrimaryMalware\<rparr>)
      else if cx_matched_rule cx then
        require R_MatchedRecipientRule True (report\<lparr>ce_basis := RecipientRule\<rparr>)
      else if cat = Publicity then
        require R_MessageKind (is_some_and (scan_mailing s) is_publicity)
          (report\<lparr>ce_basis := MessageKind\<rparr>)
      else if cat = Spam then
        (if observed_threat_with_partial_coverage s then
           require R_EstablishedThreat True (report\<lparr>ce_basis := EstablishedThreat\<rparr>)
         else if fusion_decided s cfg then
           require R_ValidatedFusion (fusion_validated s) (report\<lparr>ce_basis := ValidatedFusion\<rparr>)
         else
           require R_ThresholdMet (threshold_met s (cx_threshold cx))
             (require R_AutomaticScorePolicy (fc_resolve_uncertain_by_score (cfg_filter cfg))
               (require R_UsableScore (valid_score (Some (scan_score s)) \<noteq> None)
                 (require R_UsableContent (scan_features_complete s = Some True)
                   (report\<lparr>ce_basis := ScoreThreshold\<rparr>)))))
      else
        require R_DeterminateClassification False (report\<lparr>ce_basis := Unresolved\<rparr>))"

definition coverage_evaluate ::
    "scan \<Rightarrow> policy_config \<Rightarrow> category \<Rightarrow> action \<Rightarrow> coverage_context \<Rightarrow> coverage_evaluation" where
  "coverage_evaluate s cfg cat act cx =
     (let report = \<lparr>ce_version = COVERAGE_VERSION,
                    ce_partial_actions = fc_partial_actions (cfg_filter cfg),
                    ce_basis = Delivery, ce_required = [], ce_missing = []\<rparr>
      in if act = Deliver then report
         else (let report1 = coverage_basis s cfg cat act cx report in
           if act = Tag then
             require R_SubjectRewrite
               (if \<not> scan_complete s \<and> fc_partial_actions (cfg_filter cfg)
                then scan_subject_rewrite_ready s = Some True
                else scan_subject_rewrite_ready s \<noteq> Some False) report1
           else report1))"

section \<open>Operational restrictions\<close>

definition constrain ::
    "scan \<Rightarrow> policy_config \<Rightarrow> category \<Rightarrow> action \<Rightarrow> u16 \<Rightarrow> coverage_context \<Rightarrow> applied" where
  "constrain s cfg cat requested quarantine_days cx =
     (let coverage = coverage_evaluate s cfg cat requested cx;
          er = (if fc_mode (cfg_filter cfg) = Observe then (Deliver, ''observation'')
                else if \<not> coverage_eligible coverage then
                  (Deliver,
                   if R_SubjectRewrite \<in> set (ce_missing coverage)
                   then ''subject_rewrite_unavailable''
                   else if fc_partial_actions (cfg_filter cfg) then ''action_requirements_unmet''
                   else ''incomplete'')
                else if requested = Tag \<and> cat \<notin> {Spam, Publicity} then
                  (Deliver, ''category_without_prefix'')
                else (requested, cx_reason cx))
      in \<lparr>ap_coverage = Some coverage, ap_requested = requested, ap_effective = fst er,
          ap_reason = snd er, ap_quarantine_days = quarantine_days\<rparr>)"

definition actions_evaluate :: "scan \<Rightarrow> policy_config \<Rightarrow> applied" where
  "actions_evaluate s cfg =
     (case Option.bind (scan_recipient_decision s) (\<lambda>r. as_action (rd_assessment r)) of
        Some a \<Rightarrow> a
      | None \<Rightarrow>
         (let policy = action_policy_from_config cfg;
              malware = (av_status (scan_antivirus s) = Av_Malware);
              cat = scan_category s (fc_threshold (cfg_filter cfg));
              requested = (if malware then acp_malware policy
                           else case cat of Spam \<Rightarrow> acp_spam policy
                                          | Publicity \<Rightarrow> acp_publicity policy
                                          | _ \<Rightarrow> Deliver)
          in constrain s cfg cat requested (acp_quarantine_days policy)
               \<lparr>cx_reason = (if malware then ''malware_priority'' else ''category''),
                cx_threshold = fc_threshold (cfg_filter cfg), cx_matched_rule = False\<rparr>))"

definition decision_subject_tag :: "scan \<Rightarrow> policy_config \<Rightarrow> subject_tag option" where
  "decision_subject_tag s cfg =
     (if ap_effective (actions_evaluate s cfg) \<noteq> Tag then None
      else (case scan_category s (fc_threshold (cfg_filter cfg)) of
          Spam \<Rightarrow> Some Tag_Spam
        | Publicity \<Rightarrow> Some Tag_Publicity
        | _ \<Rightarrow> None))"

section \<open>Lemmas\<close>

lemma require_missing [simp]:
  "ce_missing (require r met e) = ce_missing e @ (if met then [] else [r])"
  by (simp add: require_def)

lemma require_required [simp]: "ce_required (require r met e) = ce_required e @ [r]"
  by (simp add: require_def)

text \<open>A report lists as missing a subsequence of what it requires.\<close>

definition report_wf :: "coverage_evaluation \<Rightarrow> bool" where
  "report_wf e \<longleftrightarrow> subseq (ce_missing e) (ce_required e)"

lemma report_wf_require: "report_wf e \<Longrightarrow> report_wf (require r met e)"
  by (auto simp: report_wf_def intro!: list_emb_append_mono)

lemma report_wf_basis: "report_wf r \<Longrightarrow> report_wf (coverage_basis s cfg cat act cx r)"
proof -
  assume "report_wf r"
  then have "report_wf (r\<lparr>ce_basis := b\<rparr>)" for b by (simp add: report_wf_def)
  then show ?thesis by (simp add: coverage_basis_def Let_def report_wf_require)
qed

lemma report_wf_evaluate: "report_wf (coverage_evaluate s cfg cat act cx)"
proof -
  have "report_wf \<lparr>ce_version = v, ce_partial_actions = p, ce_basis = b, ce_required = [],
      ce_missing = []\<rparr>" for v p b
    by (simp add: report_wf_def)
  then show ?thesis
    by (simp add: coverage_evaluate_def Let_def report_wf_require report_wf_basis)
qed

lemma constrain_effective:
  "ap_effective (constrain s cfg cat req days cx) \<in> {Deliver, req}"
  by (simp add: constrain_def Let_def)

lemma constrain_observe:
  "fc_mode (cfg_filter cfg) = Observe \<Longrightarrow> ap_effective (constrain s cfg cat req days cx) = Deliver"
  by (simp add: constrain_def Let_def)

lemma constrain_effective_iff:
  assumes "req \<noteq> Deliver"
  shows "ap_effective (constrain s cfg cat req days cx) = req \<longleftrightarrow>
      fc_mode (cfg_filter cfg) \<noteq> Observe
      \<and> coverage_eligible (coverage_evaluate s cfg cat req cx)
      \<and> (req = Tag \<longrightarrow> cat \<in> {Spam, Publicity})"
  using assms by (auto simp: constrain_def Let_def)

text \<open>
  The specification of an action's evidence, independent of the order in which the evaluator
  looks for a basis.
\<close>

definition spam_established :: "scan \<Rightarrow> policy_config \<Rightarrow> f64 \<Rightarrow> bool" where
  "spam_established s cfg threshold \<longleftrightarrow>
     observed_threat_with_partial_coverage s
     \<or> (fusion_decided s cfg \<and> fusion_validated s)
     \<or> (\<not> fusion_decided s cfg \<and> scan_features_complete s = Some True
        \<and> fc_resolve_uncertain_by_score (cfg_filter cfg) \<and> threshold_met s threshold)"

definition action_justified ::
    "scan \<Rightarrow> policy_config \<Rightarrow> category \<Rightarrow> action \<Rightarrow> coverage_context \<Rightarrow> bool" where
  "action_justified s cfg cat act cx \<longleftrightarrow>
     scan_complete s
     \<or> (av_status (scan_antivirus s) = Av_Malware \<and> act = Quarantine)
     \<or> (fc_partial_actions (cfg_filter cfg)
        \<and> (av_status (scan_antivirus s) = Av_Malware \<or> cx_matched_rule cx
           \<or> (cat = Publicity \<and> is_some_and (scan_mailing s) is_publicity)
           \<or> (cat = Spam \<and> spam_established s cfg (cx_threshold cx))))"

lemma threshold_met_score: "threshold_met s t \<Longrightarrow> valid_score (Some (scan_score s)) \<noteq> None"
  by (auto simp: threshold_met_def split: option.splits)

lemma coverage_basis_missing_iff:
  "ce_missing r = [] \<Longrightarrow>
     ce_missing (coverage_basis s cfg cat act cx r) = [] \<longleftrightarrow> action_justified s cfg cat act cx"
  using threshold_met_score [of s "cx_threshold cx"]
  by (cases cat) (auto simp: coverage_basis_def Let_def action_justified_def spam_established_def)

definition subject_rewrite_available :: "scan \<Rightarrow> policy_config \<Rightarrow> bool" where
  "subject_rewrite_available s cfg \<longleftrightarrow>
     (if \<not> scan_complete s \<and> fc_partial_actions (cfg_filter cfg)
      then scan_subject_rewrite_ready s = Some True
      else scan_subject_rewrite_ready s \<noteq> Some False)"

lemma coverage_eligible_iff:
  "act \<noteq> Deliver \<Longrightarrow>
     coverage_eligible (coverage_evaluate s cfg cat act cx) \<longleftrightarrow>
       action_justified s cfg cat act cx \<and> (act = Tag \<longrightarrow> subject_rewrite_available s cfg)"
  by (simp add: coverage_eligible_def coverage_evaluate_def Let_def coverage_basis_missing_iff
      subject_rewrite_available_def)

text \<open>A configuration for concrete instances: enforcing mode, threshold 95, malware quarantined.\<close>

definition sample_config :: policy_config where
  "sample_config =
     \<lparr>cfg_filter = \<lparr>fc_partial_actions = False, fc_resolve_uncertain_by_score = True, fc_mode = Enforce,
        fc_threshold = Fin 95, fc_require_corroboration = False\<rparr>,
      cfg_actions = Some \<lparr>acp_spam = Tag, acp_publicity = Deliver, acp_malware = Quarantine,
        acp_quarantine_days = 14\<rparr>,
      cfg_mailing = None, cfg_fusion_mode = None, cfg_domains = []\<rparr>"

lemma constrain_effective_cases:
  "ap_effective (constrain s cfg cat req days cx) =
     (if fc_mode (cfg_filter cfg) \<noteq> Observe
         \<and> (req = Deliver \<or> action_justified s cfg cat req cx)
         \<and> (req = Tag \<longrightarrow> subject_rewrite_available s cfg \<and> cat \<in> {Spam, Publicity})
      then req else Deliver)"
proof (cases "req = Deliver")
  case False
  show ?thesis
    using constrain_effective_iff [OF False, of s cfg cat days cx] coverage_eligible_iff [OF False, of s cfg cat cx]
      constrain_effective [of s cfg cat req days cx] False
    by auto
qed (use constrain_effective [of s cfg cat req days cx] in simp)

section \<open>Properties\<close>

text \<open>
  a requested action takes effect exactly outside observation mode, with its evidence
  present and, for a tag, a category that has a mark; in every other case the message is
  delivered unchanged.
\<close>

theorem effective_action:
  "ap_effective (constrain s cfg cat req days cx) =
     (if fc_mode (cfg_filter cfg) \<noteq> Observe
         \<and> (req = Deliver \<or> action_justified s cfg cat req cx)
         \<and> (req = Tag \<longrightarrow> subject_rewrite_available s cfg \<and> cat \<in> {Spam, Publicity})
      then req else Deliver)"
  by (rule constrain_effective_cases)

theorem effective_action_witness:
  "ap_effective (constrain sample_scan sample_config Spam Tag 14
       \<lparr>cx_reason = [], cx_threshold = Fin 95, cx_matched_rule = False\<rparr>) = Tag"
  by (subst effective_action)
     (simp add: sample_scan_def sample_config_def action_justified_def subject_rewrite_available_def)

text \<open>
  without the partial-actions option an incomplete analysis changes nothing but the
  quarantine of a malware detection: no incomplete message is tagged, and none is quarantined
  for its score, category or fusion decision.
\<close>

theorem incomplete_action_safe:
  assumes "\<not> scan_complete s" and "\<not> fc_partial_actions (cfg_filter cfg)"
    and "scan_recipient_decision s = None" and "ap_effective (actions_evaluate s cfg) \<noteq> Deliver"
  shows "av_status (scan_antivirus s) = Av_Malware \<and> ap_effective (actions_evaluate s cfg) = Quarantine
    \<and> acp_malware (action_policy_from_config cfg) = Quarantine"
  using assms coverage_eligible_iff [of _ s cfg]
  by (auto simp: actions_evaluate_def Let_def constrain_def action_justified_def split: if_splits category.splits)


theorem incomplete_action_safe_witness:
  "ap_effective (actions_evaluate (sample_scan\<lparr>scan_complete := False,
       scan_antivirus := \<lparr>av_status = Av_Malware, av_signature = None\<rparr>\<rparr>) sample_config) = Quarantine"
proof -
  let ?s = "sample_scan\<lparr>scan_complete := False,
       scan_antivirus := \<lparr>av_status = Av_Malware, av_signature = None\<rparr>\<rparr>"
  have "ap_effective (actions_evaluate ?s sample_config) \<noteq> Deliver"
    by (simp add: actions_evaluate_def Let_def constrain_effective_cases sample_scan_def sample_config_def
        action_policy_from_config_def action_justified_def)
  then show ?thesis
    using incomplete_action_safe [of ?s sample_config] by (simp add: sample_scan_def sample_config_def)
qed

end
