(* ===== verification/NF_Assessment.thy ===== *)
theory NF_Assessment
  imports NF_Actions
begin

text \<open>
  The read-only assessment shared by the API, SMTP diagnostics and console
  (\<open>src/assessment.rs\<close>), the operating point recorded with a score
  (\<open>src/score_boundary.rs\<close>), and the SQL projection of the historical category. IEEE
  operations that round (and \<open>exp\<close>) are an argument of the definitions that compute with
  them; comparisons are exact.
\<close>

section \<open>Score boundaries\<close>

record float_ops =
  fl_add :: "f64 \<Rightarrow> f64 \<Rightarrow> f64"
  fl_sub :: "f64 \<Rightarrow> f64 \<Rightarrow> f64"
  fl_mul :: "f64 \<Rightarrow> f64 \<Rightarrow> f64"
  fl_div :: "f64 \<Rightarrow> f64 \<Rightarrow> f64"
  fl_exp :: "f64 \<Rightarrow> f64"

fun f64_neg :: "f64 \<Rightarrow> f64" where
  "f64_neg NaN = NaN"
| "f64_neg NegInf = PosInf"
| "f64_neg PosInf = NegInf"
| "f64_neg (Fin x) = Fin (- x)"

fun f64_abs :: "f64 \<Rightarrow> f64" where
  "f64_abs NaN = NaN"
| "f64_abs NegInf = PosInf"
| "f64_abs PosInf = PosInf"
| "f64_abs (Fin x) = Fin \<bar>x\<bar>"

definition F64_EPSILON :: f64 where "F64_EPSILON = Fin (1 / 2 ^ 52)"
definition F64_FROM_BITS_1 :: f64 where "F64_FROM_BITS_1 = Fin (1 / 2 ^ 1074)"

definition probability :: "float_ops \<Rightarrow> f64 \<Rightarrow> f64 \<Rightarrow> f64 \<Rightarrow> f64" where
  "probability fl logit slope intercept =
     (let x = fl_add fl (fl_mul fl slope logit) intercept in
      if f64_ge x (Fin 0)
      then fl_div fl (Fin 1) (fl_add fl (Fin 1) (fl_exp fl (f64_neg x)))
      else (let p = fl_exp fl x in fl_div fl p (fl_add fl (Fin 1) p)))"

definition same_mapping :: "float_ops \<Rightarrow> f64 \<Rightarrow> f64 \<Rightarrow> bool" where
  "same_mapping fl actual expected \<longleftrightarrow>
     f64_is_finite actual \<and> f64_is_finite expected
     \<and> f64_le (f64_abs (fl_sub fl actual expected))
         (fl_add fl (fl_mul fl (fl_mul fl (Fin 8) F64_EPSILON) (f64_abs expected))
            (fl_mul fl (Fin 8) F64_FROM_BITS_1))"

record fusion_model =
  fm_version :: string
  fm_cutoff :: f64
  fm_calibration :: calibration

definition boundary_fusion :: "float_ops \<Rightarrow> fusion_model \<Rightarrow> string \<Rightarrow> f64 \<Rightarrow> boundary" where
  "boundary_fusion fl model hash logit =
     \<lparr>bo_version = 1, bo_source = Fusion, bo_value = logit, bo_cutoff = fm_cutoff model,
      bo_index_cutoff = fl_mul fl (Fin 100)
        (probability fl (fm_cutoff model) (cal_slope (fm_calibration model))
           (cal_intercept (fm_calibration model))),
      bo_above = f64_ge logit (fm_cutoff model), bo_model = fm_version model,
      bo_model_sha256 = Some hash,
      bo_calibration = Some \<lparr>cal_slope = cal_slope (fm_calibration model),
                             cal_intercept = cal_intercept (fm_calibration model)\<rparr>\<rparr>"

definition boundary_index :: "float_ops \<Rightarrow> boundary \<Rightarrow> score \<Rightarrow> f64 result" where
  "boundary_index fl b sc =
     (case bo_source b of
        Content \<Rightarrow>
          and_then (ensure (bo_calibration b = None \<and> bo_model_sha256 b = None
              \<and> valid_score (Some (bo_cutoff b)) \<noteq> None
              \<and> f64_eq (bo_index_cutoff b) (bo_cutoff b)) ''Invalid content boundary'')
            (\<lambda>_. Inr (bo_value b))
      | Fusion \<Rightarrow>
          (case bo_calibration b of
             None \<Rightarrow> Inl ''Missing boundary calibration''
           | Some cal \<Rightarrow>
               and_then (ensure (so_source sc = Ss_Decision
                   \<and> is_some_and (bo_model_sha256 b) valid_hash
                   \<and> f64_is_finite (cal_slope cal)
                   \<and> f64_within (Fin 0) (Fin 1000000) (cal_slope cal)
                   \<and> f64_is_finite (cal_intercept cal)
                   \<and> f64_le (f64_abs (cal_intercept cal)) (Fin 1000000)
                   \<and> f64_le (f64_abs (bo_cutoff b)) (Fin 1000000)
                   \<and> same_mapping fl (bo_index_cutoff b)
                       (fl_mul fl (Fin 100)
                          (probability fl (bo_cutoff b) (cal_slope cal) (cal_intercept cal))))
                   ''Invalid fusion boundary'')
                 (\<lambda>_. Inr (fl_mul fl (Fin 100)
                        (probability fl (bo_value b) (cal_slope cal) (cal_intercept cal))))))"

definition boundary_validate :: "float_ops \<Rightarrow> boundary \<Rightarrow> score \<Rightarrow> unit result" where
  "boundary_validate fl b sc =
     and_then (ensure (bo_version b = 1 \<and> f64_is_finite (bo_value b) \<and> f64_is_finite (bo_cutoff b)
         \<and> bo_above b = f64_ge (bo_value b) (bo_cutoff b) \<and> bo_model b = so_model sc)
         ''Invalid score boundary identity or comparison'') (\<lambda>_.
     and_then (boundary_index fl b sc) (\<lambda>index.
     ensure (valid_score (Some index) \<noteq> None \<and> valid_score (Some (bo_index_cutoff b)) \<noteq> None
         \<and> is_some_and (so_value sc) (\<lambda>actual. case bo_source b of
              Content \<Rightarrow> f64_eq actual index
            | Fusion \<Rightarrow> valid_score (Some actual) \<noteq> None \<and> same_mapping fl actual index))
         ''Boundary does not describe the selected score''))"

definition boundary_content :: "score \<Rightarrow> f64 \<Rightarrow> f64 \<Rightarrow> boundary" where
  "boundary_content sc value cutoff =
     \<lparr>bo_version = 1, bo_source = Content, bo_value = value, bo_cutoff = cutoff,
      bo_index_cutoff = cutoff, bo_above = f64_ge value cutoff, bo_model = so_model sc,
      bo_model_sha256 = None, bo_calibration = None\<rparr>"

definition boundary_selected :: "float_ops \<Rightarrow> scan \<Rightarrow> score \<Rightarrow> f64 option \<Rightarrow> boundary option" where
  "boundary_selected fl s sc threshold =
     (case so_value sc of
        None \<Rightarrow> None
      | Some value \<Rightarrow>
          if so_source sc = Ss_Decision \<and> scan_decision s = None then None
          else if so_source sc = Ss_Decision
               \<and> is_some_and (scan_decision s) (\<lambda>d. d_source d = Src_Fusion) then
            (case scan_fusion_boundary s of
               None \<Rightarrow> None
             | Some b \<Rightarrow>
                 if bo_model_sha256 b \<noteq> fo_model_sha256 (scan_fusion s) \<or> bo_source b \<noteq> Fusion
                 then None
                 else if is_ok (boundary_validate fl b sc) then Some b else None)
          else
            (case valid_score threshold of
               None \<Rightarrow> None
             | Some cutoff \<Rightarrow>
                 if is_ok (boundary_validate fl (boundary_content sc value cutoff) sc)
                 then Some (boundary_content sc value cutoff) else None))"

section \<open>Assessment\<close>

definition provider_missing :: "pstatus \<Rightarrow> bool" where
  "provider_missing st \<longleftrightarrow> st \<notin> {P_Complete, P_Disabled, P_NotConfigured}"

definition protection_gaps :: "protection_report \<Rightarrow> string list" where
  "protection_gaps p =
     map fst (filter (\<lambda>(name, r). provider_missing (pr_status r) \<or> pr_omitted r > 0)
       [(''crdf'', prt_crdf p), (''virustotal'', prt_virustotal p)])
     @ (if provider_missing (prt_local_status p) then [''link_inventory''] else [])
     @ (if is_some_and (prt_url_resolution p) (\<lambda>r. ur_omitted r > 0
             \<or> ur_local_inventory_available r = Some False
             \<or> list_ex (\<lambda>c. \<not> c) (ur_chains_complete r))
        then [''url_resolution''] else [])"

definition supplementary_gaps :: "scan \<Rightarrow> string list" where
  "supplementary_gaps s =
     (case scan_protection s of None \<Rightarrow> [] | Some p \<Rightarrow> protection_gaps p)
     @ (if is_some_and (scan_early_rbl s) (list_ex (\<lambda>st. st \<in> {Rbl_Unavailable, Rbl_Skipped}))
        then [''rbl''] else [])
     @ (if is_some_and (scan_mailing s) (\<lambda>m. ml_status m = Ml_Limited) then [''mailing''] else [])"

definition assessment_decision_score :: "scan \<Rightarrow> f64 option" where
  "assessment_decision_score s =
     Option.bind (option_filter (\<lambda>d. d_source d \<noteq> Src_Antivirus) (scan_decision s))
       (\<lambda>d. valid_score (d_score d))"

definition assessment_raw_score :: "scan \<Rightarrow> f64 option" where
  "assessment_raw_score s =
     (if scan_features_complete s = Some False
         \<or> is_some_and (scan_score_resolution s) (\<lambda>r. sr_score r = None)
      then None else valid_score (Some (scan_score s)))"

definition assessment_kind :: "scan \<Rightarrow> f64 option \<Rightarrow> f64 option \<Rightarrow> score_kind" where
  "assessment_kind s decision_score value =
     (if value = None then Sk_Unavailable
      else if \<not> scan_complete s then Sk_Partial
      else if scan_model s = ''dsn'' then Sk_Internal
      else if is_some_and (scan_decision s)
                (\<lambda>d. d_source d = Src_Antivirus \<or> d_outcome d = Undetermined) then Sk_Advisory
      else if decision_score \<noteq> None
              \<and> is_some_and (scan_decision s) (\<lambda>d. d_source d = Src_Fusion) then Sk_Decision
      else Sk_Content)"

definition assessment_score :: "scan \<Rightarrow> score" where
  "assessment_score s =
     (let ds = assessment_decision_score s; raw = assessment_raw_score s; value = option_or ds raw
      in \<lparr>so_value = value, so_raw = raw, so_decision = ds,
          so_kind = assessment_kind s ds value,
          so_source = (if ds \<noteq> None then Ss_Decision
                       else if raw \<noteq> None then Ss_Raw else Ss_Unavailable),
          so_model = (if ds \<noteq> None then d_model (the (scan_decision s)) else scan_model s),
          so_scale = 100\<rparr>)"

definition incomplete_reasons :: "scan \<Rightarrow> string list" where
  "incomplete_reasons s =
     (if scan_complete s then []
      else (let known = filter (\<lambda>i. has_reason i s) INCOMPLETE_REASONS
                        @ (case av_status (scan_antivirus s) of
                             Av_Unavailable \<Rightarrow> [''antivirus_unavailable'']
                           | Av_Unscannable \<Rightarrow> [''antivirus_unscannable'']
                           | _ \<Rightarrow> [])
            in if known = [] then [''unspecified''] else known))"

definition wire_tag :: "scan \<Rightarrow> subject_tag" where
  "wire_tag s = (if scan_tagged s then Tag_Spam
                 else if scan_pub_tagged s then Tag_Publicity else No_Tag)"

definition assess_unrecorded :: "float_ops \<Rightarrow> scan \<Rightarrow> f64 \<Rightarrow> assessment" where
  "assess_unrecorded fl s fallback_threshold =
     (let sc = assessment_score s; ct = recorded_threshold s in
      \<lparr>as_score_boundary = boundary_selected fl s sc ct,
       as_score_resolution = scan_score_resolution s,
       as_version = 1, as_score = sc,
       as_category = scan_category s fallback_threshold,
       as_classification_source =
         (if scan_delivery_classification s \<noteq> None then Cs_RecipientPolicy
          else if scan_score_resolution s \<noteq> None then Cs_ScoreThreshold
          else if scan_decision s \<noteq> None then Cs_RecordedDecision
          else Cs_HistoricalFallback),
       as_decision = unwrap_or (scan_decision s)
         (decision_legacy s (unwrap_or (recorded_threshold s) fallback_threshold)),
       as_decision_recorded = (scan_decision s \<noteq> None
          \<and> \<not> is_some_and (scan_score_resolution s) sr_projected),
       as_complete = scan_complete s,
       as_incomplete_reasons = incomplete_reasons s,
       as_supplementary_gaps = supplementary_gaps s,
       as_content_threshold = ct,
       as_mode = map_option pol_mode (scan_analysis_policy s),
       as_policy_version = map_option pol_version (scan_analysis_policy s),
       as_action = scan_action s,
       as_subject_tag = wire_tag s\<rparr>)"

definition assess :: "float_ops \<Rightarrow> scan \<Rightarrow> f64 \<Rightarrow> assessment" where
  "assess fl s fallback_threshold =
     (case scan_recipient_decision s of
        Some record \<Rightarrow> rd_assessment record
      | None \<Rightarrow> assess_unrecorded fl s fallback_threshold)"

definition historical :: "float_ops \<Rightarrow> scan \<Rightarrow> assessment" where
  "historical fl s =
     (let view = assess fl s NaN in
      if scan_recipient_decision s = None \<and> scan_decision s = None \<and> recorded_threshold s = None
      then view\<lparr>as_decision := (as_decision view)\<lparr>d_outcome := Undetermined\<rparr>,
                as_category := unwrap_or (scan_delivery_classification s) Cat_Undetermined\<rparr>
      else view)"

fun assessment_verdict :: "category \<Rightarrow> string" where
  "assessment_verdict Spam = ''spam''"
| "assessment_verdict Publicity = ''pub''"
| "assessment_verdict Cat_Legitimate = ''ham''"
| "assessment_verdict Cat_Undetermined = ''ham''"

section \<open>The SQL projection\<close>

text \<open>
  \<open>category_sql\<close> is a \<open>CASE\<close> expression over the JSON of a stored scan; the definition is its
  value. A missing field or a JSON null is SQL NULL, a comparison with NULL is not true, and
  a non-finite \<open>f64\<close> is stored as null.
\<close>

definition sql_signal :: "scan \<Rightarrow> bool" where
  "sql_signal s \<longleftrightarrow> is_some_and (scan_mailing s) (\<lambda>m. ml_status m = Ml_Complete
      \<and> ml_verdict m \<in> {Ml_Promotion, Ml_Newsletter})"

fun sql_number :: "f64 \<Rightarrow> rat option" where
  "sql_number (Fin x) = Some x"
| "sql_number _ = None"

definition sql_between :: "rat \<Rightarrow> rat \<Rightarrow> rat option \<Rightarrow> bool" where
  "sql_between lo hi v \<longleftrightarrow> is_some_and v (\<lambda>x. lo \<le> x \<and> x \<le> hi)"

definition sql_ge :: "rat option \<Rightarrow> rat option \<Rightarrow> bool" where
  "sql_ge a b = (case (a, b) of (Some x, Some y) \<Rightarrow> x \<ge> y | _ \<Rightarrow> False)"

definition sql_threshold :: "scan \<Rightarrow> rat option" where
  "sql_threshold s = Option.bind (scan_analysis_policy s) (\<lambda>p. sql_number (pol_threshold p))"

definition category_sql :: "scan \<Rightarrow> string" where
  "category_sql s =
     (case scan_recipient_decision s of
        Some r \<Rightarrow> category_str (as_category (rd_assessment r))
      | None \<Rightarrow>
         (case scan_delivery_classification s of
            Some c \<Rightarrow> category_str c
          | None \<Rightarrow>
              if map_option d_outcome (scan_decision s) = Some Unwanted then ''spam''
              else if map_option d_outcome (scan_decision s) = Some Legitimate then
                (if scan_complete s \<and> sql_signal s then ''publicity'' else ''legitimate'')
              else if scan_decision s = None \<and> scan_complete s
                      \<and> sql_between 0 100 (sql_threshold s) then
                (if sql_ge (sql_number (scan_score s)) (sql_threshold s) then ''spam''
                 else if sql_signal s then ''publicity'' else ''legitimate'')
              else ''undetermined''))"

definition verdict_category_sql :: "scan \<Rightarrow> string" where
  "verdict_category_sql s =
     (if category_sql s = ''spam'' then ''spam''
      else if category_sql s = ''publicity'' then ''publicity'' else ''legitimate'')"

section \<open>Lemmas\<close>

lemma decision_score_valid:
  "assessment_decision_score s = Some x \<Longrightarrow> valid_score (Some x) = Some x"
  by (auto simp: assessment_decision_score_def valid_score_Some_iff bind_eq_Some_conv)

lemma raw_score_valid: "assessment_raw_score s = Some x \<Longrightarrow> valid_score (Some x) = Some x"
  by (auto simp: assessment_raw_score_def valid_score_Some_iff split: if_splits)

lemma assessment_score_range:
  "so_value (assessment_score s) = Some x \<Longrightarrow> valid_score (Some x) = Some x"
  by (cases "assessment_decision_score s")
     (auto simp: assessment_score_def Let_def dest: decision_score_valid raw_score_valid)

lemma assessment_score_source:
  "so_source (assessment_score s) = Ss_Decision \<longleftrightarrow> so_decision (assessment_score s) \<noteq> None"
  by (auto simp: assessment_score_def Let_def)

lemma boundary_selected_validates:
  "boundary_selected fl s sc t = Some b \<Longrightarrow> is_ok (boundary_validate fl b sc)"
  by (auto simp: boundary_selected_def split: option.splits if_splits)

lemma boundary_validate_above:
  "is_ok (boundary_validate fl b sc) \<Longrightarrow>
     bo_above b = f64_ge (bo_value b) (bo_cutoff b) \<and> bo_model b = so_model sc"
  by (auto simp: boundary_validate_def is_ok_iff)

lemma boundary_content_valid:
  assumes "so_value sc = Some v" and "valid_score (Some v) = Some v" and "valid_score (Some c) = Some c"
  shows "is_ok (boundary_validate fl (boundary_content sc v c) sc)"
  using assms
  by (auto simp: boundary_validate_def boundary_index_def boundary_content_def is_ok_iff
      and_then_Inr_iff valid_score_Some_iff f64_eq_def)

lemma sql_signal_is_publicity: "sql_signal s \<longleftrightarrow> is_some_and (scan_mailing s) is_publicity"
  by (cases "scan_mailing s") (auto simp: sql_signal_def is_publicity_def)

lemma sql_threshold_recorded:
  "sql_between 0 100 (sql_threshold s) \<longleftrightarrow> recorded_threshold s \<noteq> None"
proof (cases "scan_analysis_policy s")
  case (Some p)
  then show ?thesis
    by (cases "pol_threshold p")
       (auto simp: sql_threshold_def sql_between_def recorded_threshold_def valid_score_def
         option_filter_def f64_within_def)
qed (simp add: sql_threshold_def sql_between_def recorded_threshold_def)

lemma sql_ge_score:
  assumes "recorded_threshold s = Some t" and "scan_score s = Fin x"
  shows "sql_ge (sql_number (scan_score s)) (sql_threshold s) \<longleftrightarrow> f64_ge (scan_score s) t"
  using assms
  by (auto simp: recorded_threshold_def valid_score_Some_iff sql_threshold_def sql_ge_def)

text \<open>Which score an assessment has to show: that of a decision, else that of the scan itself.\<close>

definition decides_score :: "scan \<Rightarrow> decision \<Rightarrow> rat \<Rightarrow> bool" where
  "decides_score s d q \<longleftrightarrow> scan_decision s = Some d \<and> d_source d \<noteq> Src_Antivirus \<and> d_score d = Some (Fin q) \<and> 0 \<le> q \<and> q \<le> 100"

definition own_score :: "scan \<Rightarrow> rat \<Rightarrow> bool" where
  "own_score s q \<longleftrightarrow> scan_score s = Fin q \<and> 0 \<le> q \<and> q \<le> 100 \<and> scan_features_complete s \<noteq> Some False
     \<and> (case scan_score_resolution s of None \<Rightarrow> True | Some r \<Rightarrow> sr_score r \<noteq> None)"

lemma decision_score_iff: "assessment_decision_score s = Some x \<longleftrightarrow> (\<exists>d q. decides_score s d q \<and> x = Fin q)"
  by (auto simp: assessment_decision_score_def bind_eq_Some_conv valid_score_Some_iff decides_score_def option_filter_def
      split: option.splits if_splits)

lemma raw_score_iff: "assessment_raw_score s = Some x \<longleftrightarrow> (\<exists>q. own_score s q \<and> x = Fin q)"
  by (auto simp: assessment_raw_score_def valid_score_Some_iff own_score_def split: option.splits)

lemma score_shown:
  "decides_score s d q \<Longrightarrow> so_source (assessment_score s) = Ss_Decision \<and> so_value (assessment_score s) = Some (Fin q)
     \<and> so_model (assessment_score s) = d_model d"
  "(\<nexists>d q. decides_score s d q) \<Longrightarrow> own_score s q \<Longrightarrow> so_source (assessment_score s) = Ss_Raw
     \<and> so_value (assessment_score s) = Some (Fin q) \<and> so_model (assessment_score s) = scan_model s"
  "(\<nexists>d q. decides_score s d q) \<Longrightarrow> (\<nexists>q. own_score s q) \<Longrightarrow> so_source (assessment_score s) = Ss_Unavailable
     \<and> so_value (assessment_score s) = None"
proof -
  assume d: "decides_score s d q"
  then have "assessment_decision_score s = Some (Fin q)" "scan_decision s = Some d"
    unfolding decision_score_iff by (auto simp: decides_score_def)
  then show "so_source (assessment_score s) = Ss_Decision \<and> so_value (assessment_score s) = Some (Fin q)
     \<and> so_model (assessment_score s) = d_model d" by (simp add: assessment_score_def Let_def)
next
  assume "\<nexists>d q. decides_score s d q" "own_score s q"
  then have "assessment_decision_score s = None" "assessment_raw_score s = Some (Fin q)"
    using decision_score_iff [of s] raw_score_iff [of s] by (metis not_Some_eq, metis)
  then show "so_source (assessment_score s) = Ss_Raw \<and> so_value (assessment_score s) = Some (Fin q)
     \<and> so_model (assessment_score s) = scan_model s" by (simp add: assessment_score_def Let_def)
next
  assume "\<nexists>d q. decides_score s d q" "\<nexists>q. own_score s q"
  then have "assessment_decision_score s = None" "assessment_raw_score s = None"
    using decision_score_iff [of s] raw_score_iff [of s] by (metis not_Some_eq)+
  then show "so_source (assessment_score s) = Ss_Unavailable \<and> so_value (assessment_score s) = None"
    by (simp add: assessment_score_def Let_def)
qed

abbreviation fusion_scored :: "scan \<Rightarrow> score \<Rightarrow> bool" where
  "fusion_scored s sc \<equiv> so_source sc = Ss_Decision \<and> map_option d_source (scan_decision s) = Some Src_Fusion"

lemma content_boundary_reported:
  assumes "sc = assessment_score s" "\<not> fusion_scored s sc"
  shows "boundary_selected fl s sc (recorded_threshold s) = Some b \<longleftrightarrow> (\<exists>p q c. so_value sc = Some (Fin q)
      \<and> scan_analysis_policy s = Some p \<and> pol_threshold p = Fin c \<and> 0 \<le> c \<and> c \<le> 100
      \<and> b = \<lparr>bo_version = 1, bo_source = Content, bo_value = Fin q, bo_cutoff = Fin c, bo_index_cutoff = Fin c, bo_above = (c \<le> q),
            bo_model = so_model sc, bo_model_sha256 = None, bo_calibration = None\<rparr>)"
proof (cases "so_value sc")
  case (Some v)
  then have v: "valid_score (Some v) = Some v" using assessment_score_range assms(1) by blast
  then obtain q where q: "v = Fin q" by (auto simp: valid_score_Some_iff)
  have d: "\<not> (so_source sc = Ss_Decision \<and> scan_decision s = None)"
  proof
    assume n: "so_source sc = Ss_Decision \<and> scan_decision s = None"
    then have "so_decision (assessment_score s) \<noteq> None" using assessment_score_source [of s] assms(1) by blast
    then show False using n by (simp add: assessment_score_def Let_def assessment_decision_score_def option_filter_def)
  qed
  have f: "\<not> (so_source sc = Ss_Decision \<and> is_some_and (scan_decision s) (\<lambda>d. d_source d = Src_Fusion))"
    using assms(2) by (cases "scan_decision s") auto
  have c: "boundary_selected fl s sc (recorded_threshold s)
      = map_option (\<lambda>c. boundary_content sc v c) (valid_score (recorded_threshold s))"
  proof (cases "valid_score (recorded_threshold s)")
    case None
    then show ?thesis using d f by (simp only: boundary_selected_def Some option.case if_False option.map)
  next
    case th: (Some c)
    then have "valid_score (Some c) = Some c" by (simp add: valid_score_Some_iff)
    from boundary_content_valid [OF Some v this, of fl] show ?thesis
      using d f by (simp only: boundary_selected_def Some th option.case if_False if_True option.map)
  qed
  show ?thesis unfolding c by (auto simp: Some q recorded_threshold_def boundary_content_def valid_score_Some_iff)
qed (simp add: boundary_selected_def)

lemma fusion_boundary_reported:
  assumes "fusion_scored s sc" "boundary_selected fl s sc th = Some b"
  shows "scan_fusion_boundary s = Some b \<and> bo_model_sha256 b = fo_model_sha256 (scan_fusion s) \<and> bo_model b = so_model sc
    \<and> bo_above b = f64_ge (bo_value b) (bo_cutoff b)
    \<and> (\<exists>v cal. so_value sc = Some v \<and> bo_calibration b = Some cal
         \<and> same_mapping fl v (fl_mul fl (Fin 100) (probability fl (bo_value b) (cal_slope cal) (cal_intercept cal))))"
proof -
  have b: "scan_fusion_boundary s = Some b" "bo_model_sha256 b = fo_model_sha256 (scan_fusion s)" "bo_source b = Fusion"
    "is_ok (boundary_validate fl b sc)" using assms by (auto simp: boundary_selected_def split: option.splits if_splits)
  then have "\<exists>v cal. so_value sc = Some v \<and> bo_calibration b = Some cal
      \<and> same_mapping fl v (fl_mul fl (Fin 100) (probability fl (bo_value b) (cal_slope cal) (cal_intercept cal)))"
    by (cases "so_value sc") (auto simp: boundary_validate_def boundary_index_def is_ok_iff and_then_Inr_iff split: option.splits)
  with b boundary_validate_above [OF b(4)] show ?thesis by blast
qed

section \<open>Properties\<close>

text \<open>
  C40: what an assessment reports about the score comes from where it says. The displayed value is the
  decision's score when a decision other than the antivirus's has one between 0 and 100, and then the
  source is the decision and the model is the decision's; otherwise it is the scan's own score with the
  scan's model, if that lies between 0 and 100, the features are not marked incomplete and no resolution
  has withdrawn it; otherwise there is none. The operating point of a score that is not fusion's is reported exactly when
  a value and a recorded threshold between 0 and 100 exist, with these two and their comparison. That of
  fusion is the stored one of the same model, compares as it claims and maps to the displayed value.
\<close>

theorem assessment_score_sound:
  assumes "a = assess_unrecorded fl s t" "sc = as_score a"
  shows "(\<forall>d q. decides_score s d q \<longrightarrow> so_source sc = Ss_Decision \<and> so_value sc = Some (Fin q) \<and> so_model sc = d_model d)
    \<and> ((\<nexists>d q. decides_score s d q) \<longrightarrow>
         (\<forall>q. own_score s q \<longrightarrow> so_source sc = Ss_Raw \<and> so_value sc = Some (Fin q) \<and> so_model sc = scan_model s)
         \<and> ((\<nexists>q. own_score s q) \<longrightarrow> so_source sc = Ss_Unavailable \<and> so_value sc = None))
    \<and> (\<forall>b. as_score_boundary a = Some b \<longrightarrow> so_source sc = Ss_Decision \<and> map_option d_source (scan_decision s) = Some Src_Fusion \<longrightarrow>
         scan_fusion_boundary s = Some b \<and> bo_model_sha256 b = fo_model_sha256 (scan_fusion s) \<and> bo_model b = so_model sc
         \<and> bo_above b = f64_ge (bo_value b) (bo_cutoff b)
         \<and> (\<exists>v cal. so_value sc = Some v \<and> bo_calibration b = Some cal
              \<and> same_mapping fl v (fl_mul fl (Fin 100) (probability fl (bo_value b) (cal_slope cal) (cal_intercept cal)))))
    \<and> (\<forall>b. \<not> (so_source sc = Ss_Decision \<and> map_option d_source (scan_decision s) = Some Src_Fusion) \<longrightarrow>
         (as_score_boundary a = Some b \<longleftrightarrow> (\<exists>p q c. so_value sc = Some (Fin q)
            \<and> scan_analysis_policy s = Some p \<and> pol_threshold p = Fin c \<and> 0 \<le> c \<and> c \<le> 100
            \<and> b = \<lparr>bo_version = 1, bo_source = Content, bo_value = Fin q, bo_cutoff = Fin c, bo_index_cutoff = Fin c, bo_above = (c \<le> q),
                  bo_model = so_model sc, bo_model_sha256 = None, bo_calibration = None\<rparr>)))"
proof -
  have sc: "sc = assessment_score s" "as_score_boundary a = boundary_selected fl s sc (recorded_threshold s)"
    by (simp_all add: assms assess_unrecorded_def Let_def)
  note shown = score_shown [of s, folded sc(1)]
  show ?thesis unfolding sc(2)
  proof (intro conjI)
  qed (use shown fusion_boundary_reported [where s = s and sc = sc and fl = fl and th = "recorded_threshold s"] content_boundary_reported [OF sc(1), where fl = fl] in blast)+
qed

text \<open>An instance of the arithmetic for concrete runs: exact on finite values, constant \<open>exp\<close>.\<close>

fun exact_op :: "(rat \<Rightarrow> rat \<Rightarrow> rat) \<Rightarrow> f64 \<Rightarrow> f64 \<Rightarrow> f64" where
  "exact_op f (Fin a) (Fin b) = Fin (f a b)"
| "exact_op f _ _ = NaN"

definition exact_ops :: float_ops where
  "exact_ops = \<lparr>fl_add = exact_op (+), fl_sub = exact_op (-), fl_mul = exact_op (*),
     fl_div = exact_op (/), fl_exp = (\<lambda>_. Fin 1)\<rparr>"

definition policy_scan :: scan where
  "policy_scan = sample_scan\<lparr>scan_analysis_policy := Some \<lparr>pol_version = ''p'', pol_threshold = Fin 50,
     pol_mode = Enforce, pol_require_corroboration = False\<rparr>\<rparr>"

theorem assessment_score_sound_witness:
  "so_value (as_score (assess_unrecorded exact_ops policy_scan (Fin 95))) = Some (Fin 60)
   \<and> so_source (as_score (assess_unrecorded exact_ops policy_scan (Fin 95))) = Ss_Raw
   \<and> (\<exists>b. as_score_boundary (assess_unrecorded exact_ops policy_scan (Fin 95)) = Some b \<and> bo_cutoff b = Fin 50 \<and> bo_above b)"
proof -
  let ?a = "assess_unrecorded exact_ops policy_scan (Fin 95)"
  note r = assessment_score_sound [OF refl refl, where fl = exact_ops and s = policy_scan and t = "Fin 95"]
  have "\<nexists>d q. decides_score policy_scan d q" "own_score policy_scan 60"
    by (simp_all add: decides_score_def own_score_def policy_scan_def sample_scan_def)
  with r [THEN conjunct2, THEN conjunct1] have v: "so_source (as_score ?a) = Ss_Raw \<and> so_value (as_score ?a) = Some (Fin 60)" by blast
  have "scan_analysis_policy policy_scan = Some \<lparr>pol_version = ''p'', pol_threshold = Fin 50, pol_mode = Enforce,
      pol_require_corroboration = False\<rparr>" by (simp add: policy_scan_def)
  then have "as_score_boundary ?a = Some \<lparr>bo_version = 1, bo_source = Content, bo_value = Fin 60, bo_cutoff = Fin 50,
      bo_index_cutoff = Fin 50, bo_above = True, bo_model = so_model (as_score ?a), bo_model_sha256 = None, bo_calibration = None\<rparr>"
    using v by (subst r [THEN conjunct2, THEN conjunct2, THEN conjunct2, rule_format]) simp_all
  with v show ?thesis by simp
qed

text \<open>
  the SQL projection of the historical category agrees with the assessment shown for the
  same scan, for every finite score, unless the analysis is incomplete with a readable
  message whose only gap is the SMTP/DNS check.
\<close>

theorem category_sql_parity:
  assumes "scan_complete s \<or> \<not> readable_with_dns_gap s" and "f64_is_finite (scan_score s)"
  shows "category_sql s = category_str (as_category (historical fl s))"
proof -
  obtain x where x: "scan_score s = Fin x" using assms(2) by (cases "scan_score s") auto
  show ?thesis
  proof (cases "recorded_threshold s")
    case None
    then have "\<not> sql_between 0 100 (sql_threshold s)" by (simp add: sql_threshold_recorded)
    with assms(1) None show ?thesis
      by (cases "scan_decision s")
         (auto simp: category_sql_def historical_def assess_def assess_unrecorded_def Let_def
           scan_category_def sql_signal_is_publicity split: option.splits outcome.splits)
  next
    case (Some t)
    then have "sql_between 0 100 (sql_threshold s)" by (simp add: sql_threshold_recorded)
    with assms(1) Some sql_ge_score [OF Some x] show ?thesis
      by (cases "scan_decision s")
         (auto simp: category_sql_def historical_def assess_def assess_unrecorded_def Let_def
           scan_category_def decision_legacy_def sql_signal_is_publicity
           split: option.splits outcome.splits)
  qed
qed

theorem category_sql_parity_witness:
  "category_sql policy_scan = category_str (as_category (historical exact_ops policy_scan))"
  by (rule category_sql_parity) (simp_all add: policy_scan_def sample_scan_def)

definition newsletter_with_dns_gap :: scan where
  "newsletter_with_dns_gap = sample_scan
     \<lparr>scan_complete := False,
      scan_reasons := [\<lparr>sig_id = ''smtp_policy_unavailable'', sig_detail = [], sig_weight = Fin 0\<rparr>],
      scan_mailing := Some \<lparr>ml_status = Ml_Complete, ml_verdict = Ml_Newsletter\<rparr>,
      scan_decision := Some \<lparr>d_source = Src_Legacy, d_outcome = Legitimate, d_score = None, d_model = ''m''\<rparr>\<rparr>"

text \<open>
  the parity is not total. On a newsletter decided legitimate whose SMTP/DNS check was
  unavailable, the assessment says publicity and the SQL projection says legitimate.
\<close>

theorem category_sql_divergence:
  "category_sql newsletter_with_dns_gap = ''legitimate''
   \<and> as_category (historical fl newsletter_with_dns_gap) = Publicity"
  by (simp add: newsletter_with_dns_gap_def sample_scan_def category_sql_def historical_def assess_def
      assess_unrecorded_def Let_def scan_category_def readable_with_dns_gap_def has_reason_def
      INCOMPLETE_REASONS_def is_publicity_def clean_antivirus_def)

end
