(* ===== verification/NF_Engine.thy ===== *)
theory NF_Engine
  imports NF_Rerun NF_Assessment
begin

text \<open>
  The decision step of the engine: the fusion model's observation or decision
  (\<open>Runtime::apply\<close> in \<open>src/fusion/runtime.rs\<close>), the policy captured with the scan
  (\<open>AnalysisPolicy::capture\<close> in \<open>src/diagnostics.rs\<close>) and \<open>Engine::decide\<close>
  (\<open>src/engine.rs\<close>), which composes them with the canonical decision and the final policy.
  The prediction of the fusion model and the outcome of its validation report are arguments.
  \<open>Evidence::refresh\<close> copies detector results into fields of the evidence that the policy does
  not read, so it is the identity on the modelled record; the native observer and the quality
  snapshot read the finished scan and write their own fields.
\<close>

record prediction =
  fp_logit :: f64
  fp_probability :: f64
  fp_above_threshold :: bool
  fp_profile_supported :: bool
  fp_tag_eligible :: bool

record fusion_runtime =
  fr_model :: fusion_model
  fr_sha256 :: string
  fr_mode :: fusion_mode

text \<open>
  \<open>valid\<close> says whether a validation report is present and still validates; \<open>predict\<close> is the
  model's answer on the captured evidence, with None for its error.
\<close>

definition fusion_predicted ::
    "bool \<Rightarrow> (evidence \<Rightarrow> prediction option) \<Rightarrow> fusion_runtime \<Rightarrow> scan \<Rightarrow> fusion_status \<times> prediction option" where
  "fusion_predicted valid predict rt s =
     (if fr_mode rt = Fu_Decision \<and> \<not> valid then (Fu_ValidationExpired, None)
      else (case option_filter (\<lambda>e. ev_source e \<noteq> ContentOnly) (scan_evidence s) of
          None \<Rightarrow> (Fu_NotRun, None)
        | Some e \<Rightarrow>
            (case predict e of
               Some p \<Rightarrow> (if fp_profile_supported p then Fu_Complete else Fu_UnsupportedProfile, Some p)
             | None \<Rightarrow> (Fu_Unavailable, None))))"

definition fusion_apply ::
    "float_ops \<Rightarrow> bool \<Rightarrow> (evidence \<Rightarrow> prediction option) \<Rightarrow> fusion_runtime \<Rightarrow> scan \<Rightarrow> scan" where
  "fusion_apply fl valid predict rt s =
     (case fusion_predicted valid predict rt s of (status, pred) \<Rightarrow>
       (let s1 = s\<lparr>scan_fusion_boundary :=
                   map_option (\<lambda>p. boundary_fusion fl (fr_model rt) (fr_sha256 rt) (fp_logit p)) pred\<rparr>;
            usable = (status = Fu_Complete \<and> is_some_and pred fp_tag_eligible);
            s2 = (if fr_mode rt = Fu_Decision
                  then (let chosen = (if usable then pred else None);
                            s' = s1\<lparr>scan_decision := Some
                              \<lparr>d_source = Src_Fusion,
                               d_outcome = (case chosen of
                                   None \<Rightarrow> Undetermined
                                 | Some p \<Rightarrow> if fp_above_threshold p then Unwanted else Legitimate),
                               d_score = map_option (\<lambda>p. fl_mul fl (fp_probability p) (Fin 100)) chosen,
                               d_model = fm_version (fr_model rt)\<rparr>\<rparr>
                        in if usable then s' else s'\<lparr>scan_complete := False\<rparr>)
                  else s1)
        in s2\<lparr>scan_fusion := \<lparr>fo_mode = fr_mode rt, fo_status = status,
                              fo_model_sha256 = Some (fr_sha256 rt)\<rparr>\<rparr>))"

definition policy_capture :: "policy_config \<Rightarrow> analysis_policy" where
  "policy_capture cfg =
     \<lparr>pol_version = DECISION_VERSION, pol_threshold = fc_threshold (cfg_filter cfg),
      pol_mode = fc_mode (cfg_filter cfg),
      pol_require_corroboration = fc_require_corroboration (cfg_filter cfg)\<rparr>"

definition engine_prepare :: "policy_config \<Rightarrow> scan \<Rightarrow> scan" where
  "engine_prepare cfg s =
     (let s1 = retain_reasons (\<lambda>i. i \<noteq> CONFIRMATION_REVIEW_REASON \<and> i \<noteq> MALWARE_REASON
                 \<and> i \<noteq> DECISION_REVIEW_REASON)
                 (s\<lparr>scan_analysis_policy := Some (policy_capture cfg)\<rparr>);
          s2 = s1\<lparr>scan_arbitration := None, scan_score_resolution := None\<rparr>
      in s2\<lparr>scan_decision := Some (decision_legacy s2 (fc_threshold (cfg_filter cfg)))\<rparr>)"

definition engine_decide ::
    "float_ops \<Rightarrow> (fusion_runtime \<times> bool \<times> (evidence \<Rightarrow> prediction option)) option \<Rightarrow> policy_config \<Rightarrow>
     scan \<Rightarrow> scan" where
  "engine_decide fl fusion cfg s =
     (let s1 = engine_prepare cfg s;
          s2 = (case fusion of None \<Rightarrow> s1 | Some (rt, valid, predict) \<Rightarrow> fusion_apply fl valid predict rt s1)
      in finalize (decision_apply s2 (fc_require_corroboration (cfg_filter cfg)))
           (fc_threshold (cfg_filter cfg)))"

section \<open>Lemmas\<close>

lemma engine_prepare_fields [simp]:
  "scan_recipient_decision (engine_prepare cfg s) = scan_recipient_decision s"
  "scan_delivery_classification (engine_prepare cfg s) = scan_delivery_classification s"
  "scan_arbitration (engine_prepare cfg s) = None"
  "scan_score_resolution (engine_prepare cfg s) = None"
  "scan_antivirus (engine_prepare cfg s) = scan_antivirus s"
  "scan_complete (engine_prepare cfg s) = scan_complete s"
  "scan_evidence (engine_prepare cfg s) = scan_evidence s"
  by (simp_all add: engine_prepare_def Let_def)

lemma engine_prepare_decision:
  "scan_decision (engine_prepare cfg s) = Some
     \<lparr>d_source = Src_Legacy,
      d_outcome = (if \<not> scan_complete s then Undetermined
        else if f64_ge (scan_score s) (fc_threshold (cfg_filter cfg)) then Unwanted else Legitimate),
      d_score = (if scan_complete s then Some (scan_score s) else None), d_model = scan_model s\<rparr>"
  by (simp add: engine_prepare_def Let_def decision_legacy_def retain_reasons_def)

lemma fusion_apply_frame:
  "scan_recipient_decision (fusion_apply fl v pr rt s) = scan_recipient_decision s"
  "scan_delivery_classification (fusion_apply fl v pr rt s) = scan_delivery_classification s"
  "scan_arbitration (fusion_apply fl v pr rt s) = scan_arbitration s"
  "scan_score_resolution (fusion_apply fl v pr rt s) = scan_score_resolution s"
  "scan_antivirus (fusion_apply fl v pr rt s) = scan_antivirus s"
  "scan_reasons (fusion_apply fl v pr rt s) = scan_reasons s"
  "scan_score (fusion_apply fl v pr rt s) = scan_score s"
  by (cases "fusion_predicted v pr rt s"; simp add: fusion_apply_def Let_def)+

lemma fusion_apply_observe:
  "fr_mode rt = Fu_Observe \<Longrightarrow> scan_decision (fusion_apply fl v pr rt s) = scan_decision s
     \<and> scan_complete (fusion_apply fl v pr rt s) = scan_complete s"
  by (cases "fusion_predicted v pr rt s") (simp add: fusion_apply_def Let_def)

lemma fusion_apply_decision:
  assumes "fr_mode rt = Fu_Decision"
  shows "map_option d_source (scan_decision (fusion_apply fl v pr rt s)) = Some Src_Fusion"
    and "map_option d_outcome (scan_decision (fusion_apply fl v pr rt s)) = Some Unwanted \<Longrightarrow>
      \<exists>e p. scan_evidence s = Some e \<and> ev_source e \<noteq> ContentOnly \<and> v \<and> pr e = Some p
        \<and> fp_profile_supported p \<and> fp_tag_eligible p \<and> fp_above_threshold p"
  using assms
  by (auto simp: fusion_apply_def fusion_predicted_def Let_def is_some_and_iff
      split: option.splits if_splits)

lemma restore_no_resolution:
  assumes "scan_score_resolution s = None"
  shows "scan_delivery_classification (restore_score_resolution s) = scan_delivery_classification s"
    and "scan_decision (restore_score_resolution s) = scan_decision s"
  using assms by (simp_all add: restore_score_resolution_def Let_def)

section \<open>The decision pipeline\<close>

text \<open>The last two steps of \<open>decide\<close>: the canonical decision, then the final policy.\<close>

definition decided :: "scan \<Rightarrow> bool \<Rightarrow> f64 \<Rightarrow> scan" where
  "decided s require_corroboration threshold = finalize (decision_apply s require_corroboration) threshold"

lemma decided_fields:
  "scan_recipient_decision (decided s rc t) = scan_recipient_decision s"
  "scan_antivirus (decided s rc t) = scan_antivirus s"
  by (simp_all add: decided_def finalize_def resolve.stage_fields decide.stage_fields)

lemma decision_apply_restore_decision:
  "scan_decision (restore_score_resolution (decision_apply s rc)) = scan_decision (decision_apply s rc)"
  "scan_delivery_classification (restore_score_resolution (decision_apply s rc))
     = scan_delivery_classification (decision_apply s rc)"
  by (simp_all add: restore_score_resolution_def decision_apply_resolution_None Let_def)

lemma decided_malware:
  assumes "av_status (scan_antivirus s) = Av_Malware"
  shows "decided s rc t = restore_score_resolution (decision_apply s rc)"
  using decision_apply_malware [OF assms, of rc]
  by (simp add: decided_def finalize_def resolve_by_score_def Let_def decision_apply_restore_decision)

lemma delivery_apply:
  "scan_delivery_classification (decision_apply s rc)
     = scan_delivery_classification (restore_score_resolution s)"
proof -
  have "scan_delivery_classification (decision_prepare s)
      = scan_delivery_classification (restore_score_resolution s)"
    by (simp add: decision_prepare_def restore_arbitration_def Let_def split: option.split)
  then show ?thesis
    by (simp add: decision_apply_def Let_def malware_fields threat_fields apply_arbitration_fields)
qed

lemma decided_malware_spam:
  assumes "av_status (scan_antivirus s) = Av_Malware" and "scan_recipient_decision s = None"
    and "scan_delivery_classification (restore_score_resolution s) = None"
  shows "scan_decision (decided s rc t) = Some \<lparr>d_source = Src_Antivirus, d_outcome = Unwanted,
      d_score = None, d_model = DECISION_VERSION\<rparr>"
    and "scan_category (decided s rc t) t' = Spam"
proof -
  show dec: "scan_decision (decided s rc t) = Some \<lparr>d_source = Src_Antivirus, d_outcome = Unwanted,
      d_score = None, d_model = DECISION_VERSION\<rparr>"
    using decision_apply_malware [OF assms(1)]
    by (simp add: decided_malware [OF assms(1)] decision_apply_restore_decision)
  have "scan_delivery_classification (decided s rc t) = None"
    using assms(3) by (simp add: decided_malware [OF assms(1)] decision_apply_restore_decision delivery_apply)
  with dec show "scan_category (decided s rc t) t' = Spam"
    using assms(2) by (simp add: scan_category_def decided_fields)
qed

lemma decided_definite:
  assumes "valid_score (Some t) \<noteq> None" and "scan_recipient_decision s = None"
    and "scan_delivery_classification (restore_score_resolution s) = None"
    and "no_antivirus_decision s"
  shows "scan_category (decided s rc t) t' \<noteq> Cat_Undetermined"
proof (cases "av_status (scan_antivirus s) = Av_Malware")
  case True
  with decided_malware_spam(2) assms(2,3) show ?thesis by simp
next
  case False
  show ?thesis
    unfolding decided_def
  proof (rule finalize_definite)
    show "scan_recipient_decision (decision_apply s rc) = None"
      using assms(2) by (simp add: decide.stage_fields)
    show "d_source d \<noteq> Src_Antivirus"
      if "scan_decision (restore_score_resolution (decision_apply s rc)) = Some d" for d
      using decision_apply_source [OF assms(4) False] that by (simp add: decision_apply_restore_decision)
  qed (rule assms)
qed

definition engine_predecision ::
    "float_ops \<Rightarrow> (fusion_runtime \<times> bool \<times> (evidence \<Rightarrow> prediction option)) option \<Rightarrow> policy_config \<Rightarrow>
     scan \<Rightarrow> scan" where
  "engine_predecision fl fusion cfg s =
     (case fusion of None \<Rightarrow> engine_prepare cfg s
      | Some (rt, valid, predict) \<Rightarrow> fusion_apply fl valid predict rt (engine_prepare cfg s))"

lemma engine_decide_decided:
  "engine_decide fl fusion cfg s = decided (engine_predecision fl fusion cfg s)
     (fc_require_corroboration (cfg_filter cfg)) (fc_threshold (cfg_filter cfg))"
  by (simp add: engine_decide_def engine_predecision_def decided_def Let_def)

lemma engine_predecision_fields:
  "scan_recipient_decision (engine_predecision fl fusion cfg s) = scan_recipient_decision s"
  "scan_delivery_classification (engine_predecision fl fusion cfg s) = scan_delivery_classification s"
  "scan_antivirus (engine_predecision fl fusion cfg s) = scan_antivirus s"
  "scan_score_resolution (engine_predecision fl fusion cfg s) = None"
  "scan_arbitration (engine_predecision fl fusion cfg s) = None"
  by (auto simp: engine_predecision_def fusion_apply_frame split: option.split)

lemma engine_predecision_source:
  "map_option d_source (scan_decision (engine_predecision fl fusion cfg s)) \<in> {Some Src_Legacy, Some Src_Fusion}"
proof (cases fusion)
  case (Some x)
  obtain rt v pr where x: "x = (rt, v, pr)" by (cases x)
  show ?thesis
    using fusion_apply_decision(1) [of rt fl v pr "engine_prepare cfg s"]
      fusion_apply_observe [of rt fl v pr "engine_prepare cfg s"]
    by (cases "fr_mode rt") (simp_all add: Some x engine_predecision_def engine_prepare_decision)
qed (simp add: engine_predecision_def engine_prepare_decision)

lemma engine_predecision_no_antivirus: "no_antivirus_decision (engine_predecision fl fusion cfg s)"
  using engine_predecision_source [of fl fusion cfg s]
  by (cases "scan_decision (engine_predecision fl fusion cfg s)")
     (auto simp: no_antivirus_decision_def engine_predecision_fields)

lemma decided_fusion_source:
  assumes "scan_decision (decided u rc t) = Some d" and "d_source d = Src_Fusion"
  shows "scan_decision (decision_apply u rc) = Some d"
proof -
  let ?f = "restore_score_resolution (decision_apply u rc)"
  have "decided u rc t = ?f"
  proof (rule ccontr)
    assume "decided u rc t \<noteq> ?f"
    then obtain prev where "decided u rc t = resolve_abstention ?f prev t"
      by (auto simp: decided_def finalize_def resolve_by_score_def Let_def split: if_splits)
    with resolve_abstention_outcome [of ?f prev t] assms show False by auto
  qed
  with assms(1) show ?thesis by (simp add: decision_apply_restore_decision)
qed

lemma decision_apply_fusion:
  assumes "scan_decision (decision_apply u rc) = Some d" and "d_source d = Src_Fusion"
    and "scan_arbitration u = None" and "scan_score_resolution u = None" and "d_outcome d \<noteq> Undetermined"
  shows "\<exists>b. scan_decision u = Some b \<and> d_source b = Src_Fusion \<and> d_outcome b = d_outcome d"
proof -
  have prep: "scan_decision (decision_prepare u) = scan_decision u"
    using assms(3,4) by (simp add: decision_prepare_def restore_arbitration_def restore_score_resolution_def Let_def)
  have "decision_apply u rc = apply_arbitration (decision_prepare u)
      (has_reason CONTEXT_REASON (restore_score_resolution u)) rc"
    using assms(1,2) by (auto simp: decision_apply_def Let_def malware_fields threat_fields split: if_splits)
  with assms(1) obtain b where "scan_decision u = Some b" "weakens b d"
    using apply_arbitration_weakens stage_weakensD prep by metis
  with assms(2,5) show ?thesis by (auto simp: weakens_def)
qed

section \<open>Properties\<close>

text \<open>
  the engine always decides. For every new message, with or without a fusion model and
  whatever the detectors reported, the category after \<open>decide\<close> is spam, publicity or
  legitimate, provided the configured threshold is a usable score.
\<close>

theorem engine_always_decides:
  assumes "valid_score (Some (fc_threshold (cfg_filter cfg))) \<noteq> None"
    and "scan_recipient_decision s = None" and "scan_delivery_classification s = None"
  shows "scan_category (engine_decide fl fusion cfg s) t \<noteq> Cat_Undetermined"
proof -
  let ?u = "engine_predecision fl fusion cfg s"
  have fresh: "scan_recipient_decision ?u = None" "scan_delivery_classification (restore_score_resolution ?u) = None"
    using assms(2,3) by (simp_all add: engine_predecision_fields restore_no_resolution)
  show ?thesis
    unfolding engine_decide_decided
    by (rule decided_definite [OF assms(1) fresh engine_predecision_no_antivirus])
qed

theorem engine_always_decides_witness:
  "scan_category (engine_decide exact_ops None sample_config (sample_scan\<lparr>scan_complete := False\<rparr>)) (Fin 1)
     \<noteq> Cat_Undetermined"
  by (rule engine_always_decides) (simp_all add: sample_config_def sample_scan_def valid_score_Fin)

text \<open>
  fusion condemns only with valid evidence of its own. If the engine ends with an unwanted
  decision of the fusion model, the model runs in decision mode with a validation report that
  still validates, the message came with an envelope, and the prediction supports the profile,
  allows a tag and lies above the model's threshold.
\<close>

theorem fusion_condemns_validated:
  assumes "scan_decision (engine_decide fl (Some (rt, valid, predict)) cfg s) = Some d"
    and "d_source d = Src_Fusion" and "d_outcome d = Unwanted"
  shows "fr_mode rt = Fu_Decision \<and> valid \<and> (\<exists>e p. scan_evidence s = Some e \<and> ev_source e \<noteq> ContentOnly
    \<and> predict e = Some p \<and> fp_profile_supported p \<and> fp_tag_eligible p \<and> fp_above_threshold p)"
proof -
  let ?u = "fusion_apply fl valid predict rt (engine_prepare cfg s)"
  have u: "engine_predecision fl (Some (rt, valid, predict)) cfg s = ?u"
    by (simp add: engine_predecision_def)
  from assms(1,2) have "scan_decision (decision_apply ?u (fc_require_corroboration (cfg_filter cfg))) = Some d"
    unfolding engine_decide_decided u by (rule decided_fusion_source)
  from decision_apply_fusion [OF this assms(2)] assms(3) obtain b where
    b: "scan_decision ?u = Some b" "d_source b = Src_Fusion" "d_outcome b = Unwanted"
    by (auto simp: fusion_apply_frame)
  have mode: "fr_mode rt = Fu_Decision"
    using b fusion_apply_observe [of rt fl valid predict "engine_prepare cfg s"]
    by (cases "fr_mode rt") (auto simp: engine_prepare_decision)
  from fusion_apply_decision(2) [OF mode, of fl valid predict "engine_prepare cfg s"] b mode show ?thesis
    by auto
qed

definition sample_fusion :: fusion_runtime where
  "sample_fusion = \<lparr>fr_model = \<lparr>fm_version = ''f'', fm_cutoff = Fin 0,
     fm_calibration = \<lparr>cal_slope = Fin 1, cal_intercept = Fin 0\<rparr>\<rparr>, fr_sha256 = [], fr_mode = Fu_Decision\<rparr>"

definition sample_prediction :: prediction where
  "sample_prediction = \<lparr>fp_logit = Fin 3, fp_probability = Fin (9/10), fp_above_threshold = True,
     fp_profile_supported = True, fp_tag_eligible = True\<rparr>"

theorem fusion_condemns_validated_witness:
  "\<exists>e. scan_evidence (sample_scan\<lparr>scan_evidence := Some sample_evidence\<rparr>) = Some e \<and> ev_source e \<noteq> ContentOnly"
proof -
  let ?r = "engine_decide exact_ops (Some (sample_fusion, True, \<lambda>_. Some sample_prediction)) sample_config
     (sample_scan\<lparr>scan_evidence := Some sample_evidence\<rparr>)"
  have "map_option (\<lambda>d. (d_source d, d_outcome d)) (scan_decision ?r) = Some (Src_Fusion, Unwanted)"
    by code_simp
  then obtain d where "scan_decision ?r = Some d" "d_source d = Src_Fusion" "d_outcome d = Unwanted"
    by auto
  from fusion_condemns_validated [OF this] show ?thesis by blast
qed

end
