(* ===== verification/NF_Custom.thy ===== *)
theory NF_Custom
  imports NF_Assessment
begin

text \<open>
  Scoped administrator and personal rules evaluated after the common detector pipeline
  (\<open>src/custom_filtering.rs\<close>, with the receipt trace of \<open>src/policy_trace.rs\<close>).
  Unicode case mapping and the decimal text of an \<open>f64\<close> come from the standard library and
  are the argument \<open>tx\<close>; the digest of a policy (SHA-256 of its JSON) is the argument
  \<open>policy_digest\<close>; a parsed MIME message is an argument of \<open>facts_message\<close>.
\<close>

section \<open>Policies\<close>

record text_ops =
  tx_lowercase :: "string \<Rightarrow> string"
  tx_parse_f64 :: "string \<Rightarrow> f64 option"
  tx_display_f64 :: "f64 \<Rightarrow> string"

datatype ordering = LegacyPriority | Scoped

record profile =
  pf_id :: string
  pf_name :: string
  pf_threshold :: "f64 option"
  pf_require_corroboration :: bool
  pf_spam :: action
  pf_publicity :: action
  pf_review :: action
  pf_quarantine_days :: u16

record binding =
  bd_scope :: string
  bd_profile :: string

datatype field = F_EnvelopeFrom | F_FromDomain | F_HeaderFrom | F_Subject | F_Body | F_Recipient
  | F_RecipientDomain | F_Size | F_Score | F_Category | F_Signal | F_Dmarc

datatype operator = Op_Equals | Op_Contains | Op_StartsWith | Op_EndsWith | Op_Present | Op_Absent
  | Op_AtLeast | Op_AtMost

record condition =
  cd_field :: field
  cd_op :: operator
  cd_value :: string

record rule =
  ru_id :: string
  ru_name :: string
  ru_enabled :: bool
  ru_priority :: u16
  ru_scope :: string
  ru_expires :: "int option"
  ru_any :: bool
  ru_conditions :: "condition list"
  ru_category :: "category option"
  ru_action :: "action option"
  ru_stop :: bool

text \<open>The two maps of \<open>Origins\<close> (personal identifier to the owner's identifier) as entry lists.\<close>

record custom_policy =
  cu_ordering :: ordering
  cu_origin_rules :: "(string \<times> string) list"
  cu_origin_profiles :: "(string \<times> string) list"
  cu_profiles :: "profile list"
  cu_bindings :: "binding list"
  cu_rules :: "rule list"

definition sensitivity_locked :: "policy_config \<Rightarrow> bool" where
  "sensitivity_locked cfg \<longleftrightarrow> cfg_fusion_mode cfg = Some Fu_Decision"

definition domain_of :: "string \<Rightarrow> string option" where
  "domain_of a = map_option snd (rsplit_once (CHR ''@'') a)"

definition scope_rank :: "string \<Rightarrow> recipient \<Rightarrow> nat option" where
  "scope_rank scope r =
     (if scope = ''*'' then Some 0
      else if scope = rc_address r then Some 4
      else if scope = rc_destination r then Some 3
      else (case strip_prefix ''*@'' scope of
          None \<Rightarrow> None
        | Some name \<Rightarrow>
            if domain_of (rc_address r) = Some name then Some 2
            else if domain_of (rc_destination r) = Some name then Some 1
            else None))"

definition valid_scope :: "string \<Rightarrow> policy_config \<Rightarrow> bool" where
  "valid_scope scope cfg \<longleftrightarrow>
     scope = ''*''
     \<or> (case strip_prefix ''*@'' scope of
          Some d \<Rightarrow> list_ex (\<lambda>dom. dom_name dom = d) (cfg_domains cfg)
        | None \<Rightarrow> is_some_and (config_recipient (cfg_domains cfg) scope) (\<lambda>r. rc_address r = scope))"

definition text_valid :: "string \<Rightarrow> nat \<Rightarrow> bool" where
  "text_valid s max_len \<longleftrightarrow>
     list_ex (\<lambda>c. \<not> char_is_whitespace c) (chars s) \<and> length s \<le> max_len
     \<and> \<not> list_ex char_is_control (chars s)"

section \<open>Validation\<close>

fun validate_profiles :: "policy_config \<Rightarrow> string list \<Rightarrow> profile list \<Rightarrow> string list result" where
  "validate_profiles cfg ids [] = Inr ids"
| "validate_profiles cfg ids (p # ps) =
     and_then (ensure (text_valid (pf_id p) 64 \<and> text_valid (pf_name p) 100 \<and> pf_id p \<notin> set ids)
         ''Profile invalid or duplicated.'') (\<lambda>_.
     and_then (ensure (1 \<le> pf_quarantine_days p \<and> pf_quarantine_days p \<le> 30)
         ''Quarantine: 1 to 30 days.'') (\<lambda>_.
     and_then (ensure (pf_review p \<noteq> Tag)
         ''A classification to be examined cannot be marked SPAM/PUB.'') (\<lambda>_.
     and_then (case pf_threshold p of
         None \<Rightarrow> Inr ()
       | Some t \<Rightarrow>
           and_then (ensure (f64_is_finite t \<and> f64_within (Fin 50) (Fin 100) t)
               ''Threshold: 50 to 100.'') (\<lambda>_.
           ensure (\<not> sensitivity_locked cfg)
               ''Validated fusion has its own threshold: choose Inherit.'')) (\<lambda>_.
     validate_profiles cfg (pf_id p # ids) ps))))"

fun validate_bindings ::
    "policy_config \<Rightarrow> string list \<Rightarrow> string list \<Rightarrow> binding list \<Rightarrow> unit result" where
  "validate_bindings cfg ids scopes [] = Inr ()"
| "validate_bindings cfg ids scopes (b # bs) =
     and_then (ensure (valid_scope (bd_scope b) cfg \<and> bd_scope b \<notin> set scopes
           \<and> bd_profile b \<in> set ids) ''Unknown, invalid or duplicated assignment.'') (\<lambda>_.
     validate_bindings cfg ids (bd_scope b # scopes) bs)"

definition validate_condition :: "text_ops \<Rightarrow> condition \<Rightarrow> unit result" where
  "validate_condition tx c =
     and_then (ensure (length (cd_value c) \<le> 256 \<and> \<not> list_ex char_is_control (chars (cd_value c)))
         ''Invalid condition value (maximum 256 bytes).'') (\<lambda>_.
     if cd_op c \<in> {Op_AtLeast, Op_AtMost} then
       ensure (cd_field c \<in> {F_Score, F_Size}
           \<and> is_some_and (tx_parse_f64 tx (cd_value c)) (\<lambda>n. f64_is_finite n \<and> f64_ge n (Fin 0)))
         ''Invalid numerical comparison.''
     else if cd_op c \<notin> {Op_Present, Op_Absent} then
       ensure (cd_value c \<noteq> []) ''Condition value is empty.''
     else Inr ())"

fun validate_rules :: "text_ops \<Rightarrow> policy_config \<Rightarrow> string list \<Rightarrow> rule list \<Rightarrow> unit result" where
  "validate_rules tx cfg ids [] = Inr ()"
| "validate_rules tx cfg ids (r # rs) =
     and_then (ensure (text_valid (ru_id r) 64 \<and> text_valid (ru_name r) 100 \<and> ru_id r \<notin> set ids
           \<and> valid_scope (ru_scope r) cfg) ''Invalid/duplicated rule or scope.'') (\<lambda>_.
     and_then (ensure (1 \<le> length (ru_conditions r) \<and> length (ru_conditions r) \<le> 8
           \<and> (ru_category r \<noteq> None \<or> ru_action r \<noteq> None))
         ''A rule requires 1 to 8 conditions and an effect.'') (\<lambda>_.
     and_then (ensure (is_none_or (ru_expires r) (\<lambda>e. e > 0)) ''Expiration invalide.'') (\<lambda>_.
     and_then (ensure (\<not> (ru_action r = Some Tag
           \<and> is_some_and (ru_category r) (\<lambda>c. c \<notin> {Spam, Publicity})))
         ''Marking requires SPAM or PUB.'') (\<lambda>_.
     and_then (check_all (validate_condition tx) (ru_conditions r)) (\<lambda>_.
     validate_rules tx cfg (ru_id r # ids) rs)))))"

definition custom_policy_validate ::
    "text_ops \<Rightarrow> custom_policy \<Rightarrow> policy_config \<Rightarrow> unit result" where
  "custom_policy_validate tx p cfg =
     and_then (ensure (length (cu_profiles p) \<le> 32 \<and> length (cu_bindings p) \<le> 1000
           \<and> length (cu_rules p) \<le> 100)
         ''Maximum: 32 profiles, 1,000 assignments, 100 rules.'') (\<lambda>_.
     and_then (validate_profiles cfg [] (cu_profiles p)) (\<lambda>ids.
     and_then (validate_bindings cfg ids [] (cu_bindings p)) (\<lambda>_.
     validate_rules tx cfg [] (cu_rules p))))"

definition custom_policy_tags :: "custom_policy \<Rightarrow> bool \<times> bool" where
  "custom_policy_tags p =
     (let rule_tag = (\<lambda>cat. list_ex (\<lambda>r. ru_enabled r \<and> ru_action r = Some Tag
            \<and> (ru_category r = None \<or> ru_category r = Some cat)) (cu_rules p))
      in (rule_tag Spam \<or> list_ex (\<lambda>f. pf_spam f = Tag) (cu_profiles p),
          rule_tag Publicity \<or> list_ex (\<lambda>f. pf_publicity f = Tag) (cu_profiles p)))"

section \<open>Facts\<close>

type_synonym facts = "field \<rightharpoonup> string list"

definition put :: "field \<Rightarrow> string \<Rightarrow> facts \<Rightarrow> facts" where
  "put k v f = f(k \<mapsto> [v])"

definition dmarc_fact :: "scan \<Rightarrow> string option" where
  "dmarc_fact s =
     (case scan_evidence s of
        None \<Rightarrow> None
      | Some e \<Rightarrow>
         (let a = ev_authentication e; results = [au_dmarc_spf a, au_dmarc_dkim a] in
          if au_dmarc_state a \<noteq> St_Complete then None
          else if Some A_Pass \<in> set results then Some ''pass''
          else if list_all (\<lambda>r. r = Some A_Fail) results then Some ''fail''
          else None))"

definition facts_metadata :: "text_ops \<Rightarrow> string \<Rightarrow> scan \<Rightarrow> facts" where
  "facts_metadata tx sender s =
     (let f0 = put F_FromDomain (unwrap_or (domain_of sender) [])
                 (put F_EnvelopeFrom sender Map.empty);
          f1 = (if valid_score (Some (scan_score s)) \<noteq> None \<and> scan_features_complete s \<noteq> Some False
                then put F_Score (tx_display_f64 tx (scan_score s)) f0 else f0);
          f2 = put F_Category (category_str (scan_category s (Fin 95))) f1;
          f3 = (if scan_complete s then f2(F_Signal \<mapsto> map sig_id (scan_reasons s)) else f2);
          f4 = (case dmarc_fact s of None \<Rightarrow> f3 | Some v \<Rightarrow> put F_Dmarc v f3)
      in if scan_features_complete s = Some True
         then put F_HeaderFrom (scan_sender s)
                (if length (chars (scan_subject s)) < 500 then put F_Subject (scan_subject s) f4
                 else f4)
         else f4)"

text \<open>What \<open>mail_parser\<close> returned for the message, as far as the rules look at it.\<close>

record parsed_message =
  pm_parts :: nat
  pm_subject :: "string option"
  pm_from :: "string option"
  pm_text_bodies :: "string option list"
  pm_html_body_count :: nat

text \<open>The loop over text bodies: it stops, incomplete, before exceeding 100,000 bytes.\<close>

fun collect_body :: "string \<Rightarrow> string option list \<Rightarrow> string \<times> bool" where
  "collect_body body [] = (body, True)"
| "collect_body body (None # ts) = collect_body body ts"
| "collect_body body (Some text # ts) =
     (if length body + length text > 100000 then (body, False)
      else collect_body (body @ text @ [CHR 0x0A]) ts)"

definition facts_message ::
    "text_ops \<Rightarrow> string \<Rightarrow> (string \<Rightarrow> parsed_message option) \<Rightarrow> string \<Rightarrow> scan \<Rightarrow> nat \<Rightarrow> facts" where
  "facts_message tx raw parse sender s limit =
     (let f = put F_Size (nat_digits (length raw)) (facts_metadata tx sender s) in
      if length raw \<le> limit then
        (case parse raw of
           None \<Rightarrow> f
         | Some m \<Rightarrow>
             if pm_parts m \<le> 200 then
               (let f1 = put F_HeaderFrom (unwrap_or (pm_from m) [])
                           (put F_Subject (unwrap_or (pm_subject m) []) f);
                    n = length (pm_text_bodies m);
                    c0 = (n \<le> 20 \<and> (n > 0 \<or> pm_html_body_count m = 0));
                    bc = collect_body [] (take 20 (pm_text_bodies m))
                in if c0 \<and> snd bc then put F_Body (fst bc) f1 else f1)
             else f)
      else f)"

definition value_matches :: "text_ops \<Rightarrow> operator \<Rightarrow> string \<Rightarrow> string \<Rightarrow> bool" where
  "value_matches tx op target value =
     (case op of
        Op_Equals \<Rightarrow> value = target
      | Op_Contains \<Rightarrow> contains_str target value
      | Op_StartsWith \<Rightarrow> starts_with target value
      | Op_EndsWith \<Rightarrow> ends_with target value
      | Op_AtLeast \<Rightarrow> (case (tx_parse_f64 tx value, tx_parse_f64 tx target) of
            (Some v, Some t) \<Rightarrow> f64_ge v t | _ \<Rightarrow> False)
      | Op_AtMost \<Rightarrow> (case (tx_parse_f64 tx value, tx_parse_f64 tx target) of
            (Some v, Some t) \<Rightarrow> f64_le v t | _ \<Rightarrow> False)
      | _ \<Rightarrow> False)"

definition facts_matches :: "text_ops \<Rightarrow> facts \<Rightarrow> condition \<Rightarrow> bool option" where
  "facts_matches tx f c =
     (case f (cd_field c) of
        None \<Rightarrow> None
      | Some values \<Rightarrow>
          if cd_op c = Op_Present then Some (list_ex (\<lambda>v. v \<noteq> []) values)
          else if cd_op c = Op_Absent then Some (list_all (\<lambda>v. v = []) values)
          else Some (list_ex (\<lambda>v. value_matches tx (cd_op c) (tx_lowercase tx (cd_value c))
                                    (tx_lowercase tx v)) values))"

record prepared =
  prep_matches :: "bool option list list"
  prep_digest :: string

definition prepared_new ::
    "text_ops \<Rightarrow> (custom_policy \<Rightarrow> string) \<Rightarrow> custom_policy \<Rightarrow> facts \<Rightarrow> prepared" where
  "prepared_new tx policy_digest p f =
     \<lparr>prep_matches = map (\<lambda>r. map (facts_matches tx f) (ru_conditions r)) (cu_rules p),
      prep_digest = policy_digest p\<rparr>"

section \<open>Applicable profiles and rules\<close>

type_synonym ranked_profile = "nat \<times> profile \<times> string"

definition personal_profile :: "custom_policy \<Rightarrow> profile \<Rightarrow> bool" where
  "personal_profile p f \<longleftrightarrow> map_of (cu_origin_profiles p) (pf_id f) \<noteq> None"

definition personal_rule :: "custom_policy \<Rightarrow> rule \<Rightarrow> bool" where
  "personal_rule p r \<longleftrightarrow> map_of (cu_origin_rules p) (ru_id r) \<noteq> None"

text \<open>The comparators, as keys: ranks run from 0 to 4, so \<open>4 - rank\<close> is the descending order.\<close>

definition profile_key :: "custom_policy \<Rightarrow> ranked_profile \<Rightarrow> nat \<times> bool \<times> string" where
  "profile_key p x =
     (4 - fst x,
      cu_ordering p = Scoped \<and> \<not> personal_profile p (fst (snd x)),
      pf_id (fst (snd x)))"

definition applicable_profiles :: "custom_policy \<Rightarrow> recipient \<Rightarrow> ranked_profile list" where
  "applicable_profiles p r =
     sort_by (\<lambda>a b. profile_key p a \<le> profile_key p b)
       (List.map_filter (\<lambda>b.
          case (scope_rank (bd_scope b) r, find (\<lambda>f. pf_id f = bd_profile b) (cu_profiles p)) of
            (Some rank, Some f) \<Rightarrow> Some (rank, f, bd_scope b) | _ \<Rightarrow> None) (cu_bindings p))"

definition rank_key :: "nat option \<Rightarrow> nat" where
  "rank_key x = (case x of None \<Rightarrow> 0 | Some n \<Rightarrow> Suc n)"

definition rule_key ::
    "custom_policy \<Rightarrow> recipient \<Rightarrow> nat \<times> rule \<Rightarrow> (bool \<times> nat) \<times> (u16 \<times> string) \<times> string" where
  "rule_key p rcp x =
     (let r = snd x in
      ((if cu_ordering p = Scoped
        then (\<not> personal_rule p r, rank_key (scope_rank (ru_scope r) rcp)) else (False, 0)),
       (ru_priority r, unwrap_or (map_of (cu_origin_rules p) (ru_id r)) (ru_id r)), ru_id r))"

definition rule_applies :: "recipient \<Rightarrow> int \<Rightarrow> rule \<Rightarrow> bool" where
  "rule_applies rcp now r \<longleftrightarrow>
     ru_enabled r \<and> is_none_or (ru_expires r) (\<lambda>t. t > now) \<and> scope_rank (ru_scope r) rcp \<noteq> None"

definition applicable_rules :: "custom_policy \<Rightarrow> recipient \<Rightarrow> int \<Rightarrow> (nat \<times> rule) list" where
  "applicable_rules p rcp now =
     sort_by (\<lambda>a b. rule_key p rcp a \<le> rule_key p rcp b)
       (filter (\<lambda>x. rule_applies rcp now (snd x)) (enumerate 0 (cu_rules p)))"

section \<open>The receipt trace\<close>

datatype origin = Administrator | Personal

datatype rule_outcome = Matched | NoMatch | MissingFacts | Stopped

record trace_profile =
  tp_id :: string
  tp_name :: string
  tp_scope :: string
  tp_origin :: origin
  tp_threshold :: "f64 option"
  tp_selected :: bool

record trace_rule =
  tr_id :: string
  tr_name :: string
  tr_scope :: string
  tr_origin :: origin
  tr_priority :: u16
  tr_outcome :: rule_outcome
  tr_unavailable :: "field list"
  tr_category_before :: category
  tr_category_after :: category
  tr_action_before :: action
  tr_action_after :: action
  tr_stop :: bool

record trace =
  tc_version :: string
  tc_ordering :: ordering
  tc_profiles :: "trace_profile list"
  tc_threshold_profile :: "string option"
  tc_threshold_locked :: bool
  tc_rules :: "trace_rule list"
  tc_stopped_by :: "string option"
  tc_category_rule :: "string option"
  tc_action_rule :: "string option"
  tc_malware_override :: bool

record hit =
  hit_id :: string
  hit_name :: string
  hit_fields :: "field list"

record custom_assessment =
  ca_trace :: trace
  ca_policy :: string
  ca_profile :: "string option"
  ca_threshold :: f64
  ca_original_category :: category
  ca_category :: category
  ca_matched :: "hit list"
  ca_unavailable_conditions :: nat
  ca_action :: applied

section \<open>Evaluation\<close>

definition override_threshold ::
    "policy_config \<Rightarrow> scan \<Rightarrow> ranked_profile list \<Rightarrow> f64 option" where
  "override_threshold cfg s profiles =
     option_filter (\<lambda>t. \<not> sensitivity_locked cfg
         \<and> is_none_or (scan_decision s) (\<lambda>d. d_source d = Src_Legacy)
         \<and> f64_is_finite t \<and> f64_within (Fin 50) (Fin 100) t
         \<and> f64_is_finite (scan_score s) \<and> f64_within (Fin 0) (Fin 100) (scan_score s))
       (find_map (\<lambda>(_, p, _). pf_threshold p) profiles)"

definition profile_category ::
    "policy_config \<Rightarrow> scan \<Rightarrow> f64 \<Rightarrow> bool \<Rightarrow> profile \<Rightarrow> category" where
  "profile_category cfg s threshold overridden p =
     (let c0 = (if overridden
                then s\<lparr>scan_arbitration := None, scan_score_resolution := None,
                       scan_delivery_classification := None,
                       scan_decision := Some (decision_legacy s threshold)\<rparr>
                else s);
          c1 = decision_apply c0 (fc_require_corroboration (cfg_filter cfg)
                 \<or> pf_require_corroboration p \<or> overridden)
      in scan_category (finalize c1 threshold) threshold)"

fun choose_action :: "profile option \<Rightarrow> action_policy \<Rightarrow> category \<Rightarrow> action" where
  "choose_action (Some p) g Spam = pf_spam p"
| "choose_action (Some p) g Publicity = pf_publicity p"
| "choose_action (Some p) g Cat_Undetermined = pf_review p"
| "choose_action None g Spam = acp_spam g"
| "choose_action None g Publicity = acp_publicity g"
| "choose_action _ g _ = Deliver"

definition rule_category :: "scan \<Rightarrow> f64 \<Rightarrow> category \<Rightarrow> category" where
  "rule_category s threshold c =
     (if c = Cat_Undetermined
      then scan_category (resolve_by_score (s\<lparr>scan_score_resolution := None,
              scan_delivery_classification := Some Cat_Undetermined\<rparr>) True threshold) threshold
      else c)"

record rule_state =
  rs_category :: category
  rs_requested :: action
  rs_matched :: "hit list"
  rs_unavailable :: nat
  rs_trace :: "trace_rule list"
  rs_stopped_by :: "string option"
  rs_category_rule :: "string option"
  rs_action_rule :: "string option"

text \<open>Everything a step of the rule loop reads and does not change.\<close>

record rule_env =
  re_text :: text_ops
  re_policy :: custom_policy
  re_scan :: scan
  re_facts :: facts
  re_prepared :: prepared
  re_threshold :: f64
  re_choose :: "category \<Rightarrow> action"

definition condition_values :: "rule_env \<Rightarrow> nat \<Rightarrow> rule \<Rightarrow> bool option list" where
  "condition_values env index r =
     map (\<lambda>(i, c).
         if cd_field c \<in> {F_Recipient, F_RecipientDomain, F_Category}
            \<or> (cu_ordering (re_policy env) = Scoped \<and> cd_field c = F_Score)
         then facts_matches (re_text env) (re_facts env) c
         else prep_matches (re_prepared env) ! index ! i)
       (enumerate 0 (ru_conditions r))"

definition rule_hit :: "rule \<Rightarrow> bool option list \<Rightarrow> bool" where
  "rule_hit r values =
     (if ru_any r then Some True \<in> set values else list_all (\<lambda>v. v = Some True) values)"

definition unavailable_fields :: "rule \<Rightarrow> bool option list \<Rightarrow> field list" where
  "unavailable_fields r values =
     map (cd_field \<circ> fst) (filter (\<lambda>(_, v). v = None) (zip (ru_conditions r) values))"

definition trace_step :: "rule_env \<Rightarrow> rule_state \<Rightarrow> rule \<Rightarrow> trace_rule" where
  "trace_step env st r =
     \<lparr>tr_id = ru_id r, tr_name = ru_name r, tr_scope = ru_scope r,
      tr_origin = (if personal_rule (re_policy env) r then Personal else Administrator),
      tr_priority = ru_priority r, tr_outcome = Stopped, tr_unavailable = [],
      tr_category_before = rs_category st, tr_category_after = rs_category st,
      tr_action_before = rs_requested st, tr_action_after = rs_requested st,
      tr_stop = ru_stop r\<rparr>"

definition rule_effects :: "rule_env \<Rightarrow> rule \<Rightarrow> rule_state \<Rightarrow> rule_state" where
  "rule_effects env r st =
     (let st1 = (case ru_category r of
                   None \<Rightarrow> st
                 | Some c \<Rightarrow>
                     (let cat = rule_category (re_scan env) (re_threshold env) c
                      in st\<lparr>rs_category := cat, rs_requested := re_choose env cat,
                            rs_category_rule := Some (ru_id r),
                            rs_action_rule := Some (ru_id r)\<rparr>))
      in case ru_action r of
           None \<Rightarrow> st1
         | Some a \<Rightarrow> st1\<lparr>rs_requested := a, rs_action_rule := Some (ru_id r)\<rparr>)"

definition rule_step :: "rule_env \<Rightarrow> rule_state \<Rightarrow> nat \<times> rule \<Rightarrow> rule_state" where
  "rule_step env st x =
     (case x of (index, r) \<Rightarrow>
       (let step = trace_step env st r in
        if rs_stopped_by st \<noteq> None then st\<lparr>rs_trace := rs_trace st @ [step]\<rparr>
        else
         (let values = condition_values env index r;
              st1 = st\<lparr>rs_unavailable := rs_unavailable st
                        + length (filter (\<lambda>v. v = None) values)\<rparr>;
              missing = unavailable_fields r values
          in if \<not> rule_hit r values then
               st1\<lparr>rs_trace := rs_trace st1 @
                 [step\<lparr>tr_unavailable := missing,
                       tr_outcome := (if missing = [] then NoMatch else MissingFacts)\<rparr>]\<rparr>
             else
              (let st2 = rule_effects env r st1
               in st2\<lparr>rs_matched := rs_matched st2 @
                        [\<lparr>hit_id = ru_id r, hit_name = ru_name r,
                          hit_fields = map cd_field (ru_conditions r)\<rparr>],
                      rs_trace := rs_trace st2 @
                        [step\<lparr>tr_unavailable := missing, tr_outcome := Matched,
                              tr_category_after := rs_category st2,
                              tr_action_after := rs_requested st2\<rparr>],
                      rs_stopped_by := (if ru_stop r then Some (ru_id r) else None)\<rparr>))))"

definition run_rules :: "rule_env \<Rightarrow> rule_state \<Rightarrow> (nat \<times> rule) list \<Rightarrow> rule_state" where
  "run_rules env st rules = foldl (rule_step env) st rules"

definition recipient_facts ::
    "text_ops \<Rightarrow> float_ops \<Rightarrow> custom_policy \<Rightarrow> policy_config \<Rightarrow> scan \<Rightarrow> recipient \<Rightarrow> category \<Rightarrow> facts" where
  "recipient_facts tx fl p cfg s rcp original =
     (let f = put F_Category (category_str original)
                (put F_RecipientDomain (unwrap_or (domain_of (rc_address rcp)) [])
                  (put F_Recipient (rc_address rcp) Map.empty))
      in if cu_ordering p = Scoped
         then (case so_value (as_score (assess fl s (fc_threshold (cfg_filter cfg)))) of
                 Some x \<Rightarrow> put F_Score (tx_display_f64 tx x) f
               | None \<Rightarrow> f)
         else f)"

definition TRACE_VERSION :: string where "TRACE_VERSION = ''recipient-policy-trace-1''"

definition trace_profiles :: "custom_policy \<Rightarrow> ranked_profile list \<Rightarrow> trace_profile list" where
  "trace_profiles p profiles =
     map (\<lambda>(i, _, f, scope).
         \<lparr>tp_id = pf_id f, tp_name = pf_name f, tp_scope = scope,
          tp_origin = (if personal_profile p f then Personal else Administrator),
          tp_threshold = pf_threshold f, tp_selected = (i = 0)\<rparr>)
       (enumerate (0::nat) profiles)"

definition initial_category ::
    "policy_config \<Rightarrow> scan \<Rightarrow> f64 \<Rightarrow> bool \<Rightarrow> profile option \<Rightarrow> category \<Rightarrow> category" where
  "initial_category cfg s threshold overridden prof original =
     (case prof of None \<Rightarrow> original | Some p \<Rightarrow> profile_category cfg s threshold overridden p)"

definition first_profile :: "ranked_profile list \<Rightarrow> profile option" where
  "first_profile ps = (case ps of [] \<Rightarrow> None | x # _ \<Rightarrow> Some (fst (snd x)))"

definition original_category :: "policy_config \<Rightarrow> scan \<Rightarrow> category" where
  "original_category cfg s =
     scan_category (finalize s (fc_threshold (cfg_filter cfg))) (fc_threshold (cfg_filter cfg))"

text \<open>
  The evaluation up to the end of the rule loop, in the order of the source: the threshold in
  force, the environment of the loop, its initial state and its final one.
\<close>

definition policy_threshold :: "policy_config \<Rightarrow> scan \<Rightarrow> ranked_profile list \<Rightarrow> f64" where
  "policy_threshold cfg s profiles =
     unwrap_or (override_threshold cfg s profiles) (fc_threshold (cfg_filter cfg))"

definition rule_environment ::
    "text_ops \<Rightarrow> float_ops \<Rightarrow> custom_policy \<Rightarrow> policy_config \<Rightarrow> scan \<Rightarrow> prepared \<Rightarrow> recipient \<Rightarrow> rule_env" where
  "rule_environment tx fl p cfg s prep rcp =
     (let profiles = applicable_profiles p rcp
      in \<lparr>re_text = tx, re_policy = p, re_scan = s,
          re_facts = recipient_facts tx fl p cfg s rcp (original_category cfg s),
          re_prepared = prep, re_threshold = policy_threshold cfg s profiles,
          re_choose = choose_action (first_profile profiles) (action_policy_from_config cfg)\<rparr>)"

definition start_category :: "custom_policy \<Rightarrow> policy_config \<Rightarrow> scan \<Rightarrow> recipient \<Rightarrow> category" where
  "start_category p cfg s rcp =
     (let profiles = applicable_profiles p rcp
      in initial_category cfg s (policy_threshold cfg s profiles)
           (override_threshold cfg s profiles \<noteq> None) (first_profile profiles)
           (original_category cfg s))"

definition start_state :: "category \<Rightarrow> action \<Rightarrow> rule_state" where
  "start_state cat requested =
     \<lparr>rs_category = cat, rs_requested = requested, rs_matched = [], rs_unavailable = 0,
      rs_trace = [], rs_stopped_by = None, rs_category_rule = None, rs_action_rule = None\<rparr>"

definition rules_outcome ::
    "text_ops \<Rightarrow> float_ops \<Rightarrow> custom_policy \<Rightarrow> policy_config \<Rightarrow> scan \<Rightarrow> prepared \<Rightarrow> recipient \<Rightarrow> int \<Rightarrow>
     rule_state" where
  "rules_outcome tx fl p cfg s prep rcp now =
     (let env = rule_environment tx fl p cfg s prep rcp; cat = start_category p cfg s rcp
      in run_rules env (start_state cat (re_choose env cat)) (applicable_rules p rcp now))"

definition assess_prepared ::
    "text_ops \<Rightarrow> float_ops \<Rightarrow> custom_policy \<Rightarrow> policy_config \<Rightarrow> scan \<Rightarrow> prepared \<Rightarrow> recipient \<Rightarrow> int \<Rightarrow>
     custom_assessment" where
  "assess_prepared tx fl p cfg s prep rcp now =
     (let profiles = applicable_profiles p rcp;
          prof = first_profile profiles;
          threshold = policy_threshold cfg s profiles;
          global = action_policy_from_config cfg;
          st = rules_outcome tx fl p cfg s prep rcp now;
          malware = (av_status (scan_antivirus s) = Av_Malware);
          cat = (if malware then Spam else rs_category st);
          requested = (if malware then acp_malware global else rs_requested st)
      in \<lparr>ca_trace = \<lparr>tc_version = TRACE_VERSION, tc_ordering = cu_ordering p,
            tc_profiles = trace_profiles p profiles,
            tc_threshold_profile = (if override_threshold cfg s profiles = None then None
               else map_option (\<lambda>x. pf_id (fst (snd x)))
                      (find (\<lambda>x. pf_threshold (fst (snd x)) \<noteq> None) profiles)),
            tc_threshold_locked = (sensitivity_locked cfg
               \<or> is_some_and (scan_decision s) (\<lambda>d. d_source d \<noteq> Src_Legacy)),
            tc_rules = rs_trace st, tc_stopped_by = rs_stopped_by st,
            tc_category_rule = (if malware then None else rs_category_rule st),
            tc_action_rule = (if malware then None else rs_action_rule st),
            tc_malware_override = malware\<rparr>,
          ca_policy = prep_digest prep,
          ca_profile = map_option pf_name prof,
          ca_threshold = threshold,
          ca_original_category = original_category cfg s,
          ca_category = cat,
          ca_matched = rs_matched st,
          ca_unavailable_conditions = rs_unavailable st,
          ca_action = constrain s cfg cat requested
            (case prof of Some q \<Rightarrow> pf_quarantine_days q | None \<Rightarrow> acp_quarantine_days global)
            \<lparr>cx_reason = (if malware then ''malware_priority'' else ''custom_policy''),
             cx_threshold = threshold, cx_matched_rule = (rs_matched st \<noteq> [])\<rparr>\<rparr>)"

definition custom_assess ::
    "text_ops \<Rightarrow> float_ops \<Rightarrow> (custom_policy \<Rightarrow> string) \<Rightarrow> custom_policy \<Rightarrow> policy_config \<Rightarrow> scan \<Rightarrow>
     facts \<Rightarrow> recipient \<Rightarrow> int \<Rightarrow> custom_assessment" where
  "custom_assess tx fl policy_digest p cfg s f rcp now =
     assess_prepared tx fl p cfg s (prepared_new tx policy_digest p f) rcp now"

section \<open>Lemmas: orders\<close>

interpretation profile_order: comparator_order "\<lambda>a b. profile_key p a \<le> profile_key p b" for p
  by (rule comparator_order_key)

interpretation rule_order: comparator_order "\<lambda>a b. rule_key p rcp a \<le> rule_key p rcp b" for p rcp
  by (rule comparator_order_key)

lemma scope_rank_le: "scope_rank sc r = Some n \<Longrightarrow> n \<le> 4"
  by (auto simp: scope_rank_def split: if_splits option.splits)

lemma applicable_profiles_rank:
  "x \<in> set (applicable_profiles p r) \<Longrightarrow> scope_rank (snd (snd x)) r = Some (fst x) \<and> fst x \<le> 4"
  by (auto simp: applicable_profiles_def List.map_filter_def scope_rank_le split: option.splits)

text \<open>The selected profile is bound to the most specific scope that covers the recipient.\<close>

lemma applicable_profiles_first:
  assumes "applicable_profiles p r = x # xs" and "y \<in> set xs"
  shows "fst y \<le> fst x"
proof -
  have "profile_key p x \<le> profile_key p y"
    using assms profile_order.sort_by_before [of p _ "[]" x xs y]
    by (simp add: applicable_profiles_def)
  then have "4 - fst x \<le> 4 - fst y" by (auto simp: profile_key_def less_eq_prod_def)
  moreover have "fst x \<le> 4" "fst y \<le> 4"
    using applicable_profiles_rank [of _ p r] assms by auto
  ultimately show ?thesis by linarith
qed

text \<open>In scoped order every personal rule comes before every administrator rule.\<close>

lemma applicable_rules_personal_first:
  assumes "cu_ordering p = Scoped" and "applicable_rules p rcp now = as @ x # bs"
    and "y \<in> set bs" and "personal_rule p (snd y)"
  shows "personal_rule p (snd x)"
proof (rule ccontr)
  assume "\<not> ?thesis"
  moreover have "rule_key p rcp x \<le> rule_key p rcp y"
    using assms(2,3) rule_order.sort_by_before [of p rcp _ as x bs y]
    by (simp add: applicable_rules_def)
  ultimately show False
    using assms(1,4) by (simp add: rule_key_def Let_def less_eq_prod_def)
qed

lemma applicable_rules_valid:
  "(i, r) \<in> set (applicable_rules p rcp now) \<Longrightarrow>
     i < length (cu_rules p) \<and> r = cu_rules p ! i \<and> rule_applies rcp now r"
  by (auto simp: applicable_rules_def in_set_enumerate_eq)

section \<open>Lemmas: the rule loop\<close>

lemma rule_step_stopped:
  "rs_stopped_by st \<noteq> None \<Longrightarrow>
     rule_step env st x = st\<lparr>rs_trace := rs_trace st @ [trace_step env st (snd x)]\<rparr>"
  by (cases x) (simp add: rule_step_def Let_def)

lemma trace_step_trace [simp]: "trace_step env (st\<lparr>rs_trace := t\<rparr>) r = trace_step env st r"
  by (simp add: trace_step_def)

lemma run_rules_stopped:
  "rs_stopped_by st \<noteq> None \<Longrightarrow>
     run_rules env st xs
       = st\<lparr>rs_trace := rs_trace st @ map (\<lambda>x. trace_step env st (snd x)) xs\<rparr>"
proof (induction xs arbitrary: st)
  case (Cons x xs)
  from Cons.IH [of "rule_step env st x"] Cons.prems show ?case
    by (simp add: run_rules_def rule_step_stopped)
qed (simp add: run_rules_def)

lemma run_rules_append: "run_rules env st (xs @ ys) = run_rules env (run_rules env st xs) ys"
  by (simp add: run_rules_def)

lemma run_rules_simps [simp]:
  "run_rules env st [] = st"
  "run_rules env st (x # xs) = run_rules env (rule_step env st x) xs"
  by (simp_all add: run_rules_def)

lemma rule_effects_frame [simp]:
  "rs_matched (rule_effects env r st) = rs_matched st"
  "rs_trace (rule_effects env r st) = rs_trace st"
  "rs_stopped_by (rule_effects env r st) = rs_stopped_by st"
  "rs_unavailable (rule_effects env r st) = rs_unavailable st"
  by (simp_all add: rule_effects_def Let_def split: option.split)

lemma rule_step_miss:
  assumes "rs_stopped_by st = None" and "\<not> rule_hit r (condition_values env i r)"
  shows "rs_category (rule_step env st (i, r)) = rs_category st"
    and "rs_requested (rule_step env st (i, r)) = rs_requested st"
    and "rs_matched (rule_step env st (i, r)) = rs_matched st"
    and "rs_stopped_by (rule_step env st (i, r)) = None"
  using assms by (simp_all add: rule_step_def Let_def)

lemma rule_step_stop_flag:
  "rs_stopped_by (rule_step env st (i, r)) \<noteq> None \<Longrightarrow> rs_stopped_by st \<noteq> None \<or> ru_stop r"
  by (auto simp: rule_step_def Let_def split: if_splits)

lemma run_rules_not_stopped:
  "rs_stopped_by st = None \<Longrightarrow> list_all (\<lambda>x. \<not> ru_stop (snd x)) xs \<Longrightarrow>
     rs_stopped_by (run_rules env st xs) = None"
proof (induction xs arbitrary: st)
  case (Cons x xs)
  obtain i r where x: "x = (i, r)" by (cases x)
  with Cons.prems rule_step_stop_flag [of env st i r] have "rs_stopped_by (rule_step env st x) = None"
    by (cases "rs_stopped_by (rule_step env st x)") auto
  with Cons show ?case by simp
qed simp

text \<open>A condition on a missing fact makes an all-of rule miss.\<close>

lemma rule_hit_all_missing: "\<not> ru_any r \<Longrightarrow> None \<in> set values \<Longrightarrow> \<not> rule_hit r values"
  by (auto simp: rule_hit_def list_all_iff)

text \<open>
  The trace is a chain: each row starts from the category and the action the previous row
  left, and the matched rules are exactly the rows marked so.
\<close>

definition chained :: "category \<Rightarrow> action \<Rightarrow> trace_rule list \<Rightarrow> category \<Rightarrow> action \<Rightarrow> bool" where
  "chained c a ts c' a' \<longleftrightarrow>
     map (\<lambda>t. (tr_category_before t, tr_action_before t)) ts @ [(c', a')]
       = (c, a) # map (\<lambda>t. (tr_category_after t, tr_action_after t)) ts"

lemma chained_Nil [simp]: "chained c a [] c' a' \<longleftrightarrow> c' = c \<and> a' = a"
  by (simp add: chained_def)

lemma chained_snoc [simp]:
  "chained c a (ts @ [t]) c' a' \<longleftrightarrow>
     chained c a ts (tr_category_before t) (tr_action_before t)
     \<and> tr_category_after t = c' \<and> tr_action_after t = a'"
  by (auto simp: chained_def)

definition trace_faithful :: "category \<Rightarrow> action \<Rightarrow> rule_state \<Rightarrow> bool" where
  "trace_faithful c a st \<longleftrightarrow>
     chained c a (rs_trace st) (rs_category st) (rs_requested st)
     \<and> map hit_id (rs_matched st)
         = map tr_id (filter (\<lambda>t. tr_outcome t = Matched) (rs_trace st))"

lemma rule_step_faithful: "trace_faithful c a st \<Longrightarrow> trace_faithful c a (rule_step env st x)"
proof (cases x)
  fix i r assume tf: "trace_faithful c a st" and x: "x = (i, r)"
  show ?thesis
  proof (cases "rs_stopped_by st = None")
    case True
    with tf show ?thesis
      unfolding x by (simp add: rule_step_def Let_def trace_faithful_def trace_step_def)
  next
    case False
    with tf show ?thesis
      unfolding x by (simp add: rule_step_stopped trace_faithful_def trace_step_def)
  qed
qed

lemma run_rules_faithful: "trace_faithful c a st \<Longrightarrow> trace_faithful c a (run_rules env st xs)"
  by (induction xs arbitrary: st) (simp_all add: rule_step_faithful)

lemma run_rules_trace_ids:
  "map tr_id (rs_trace (run_rules env st xs)) = map tr_id (rs_trace st) @ map (ru_id \<circ> snd) xs"
proof (induction xs arbitrary: st)
  case (Cons x xs)
  obtain i r where "x = (i, r)" by (cases x)
  then have "map tr_id (rs_trace (rule_step env st x)) = map tr_id (rs_trace st) @ [ru_id (snd x)]"
    by (simp add: rule_step_def Let_def trace_step_def)
  with Cons show ?case by simp
qed simp

section \<open>Lemmas: thresholds and categories\<close>

lemma override_threshold_bounds:
  assumes "override_threshold cfg s profiles = Some t"
  shows "\<exists>q. t = Fin q \<and> 50 \<le> q \<and> q \<le> 100" and "\<not> sensitivity_locked cfg"
    and "is_none_or (scan_decision s) (\<lambda>d. d_source d = Src_Legacy)"
    and "\<exists>x \<in> set profiles. pf_threshold (fst (snd x)) = Some t"
  using assms
  by (auto simp: override_threshold_def dest!: find_map_Some f64_within_FinD intro: rev_bexI)

lemma policy_threshold_valid:
  assumes "valid_score (Some (fc_threshold (cfg_filter cfg))) \<noteq> None"
  shows "valid_score (Some (policy_threshold cfg s profiles)) \<noteq> None"
proof (cases "override_threshold cfg s profiles")
  case (Some t)
  with override_threshold_bounds(1) [OF Some] show ?thesis
    by (auto simp: policy_threshold_def valid_score_Fin)
qed (use assms in \<open>simp add: policy_threshold_def\<close>)

lemma no_antivirus_update:
  assumes "no_antivirus_decision s"
  shows "no_antivirus_decision (s\<lparr>scan_score_resolution := None\<rparr>)"
    and "no_antivirus_decision (s\<lparr>scan_delivery_classification := c\<rparr>)"
    and "no_antivirus_decision (s\<lparr>scan_arbitration := None\<rparr>)"
    and "d_source d \<noteq> Src_Antivirus \<Longrightarrow> no_antivirus_decision (s\<lparr>scan_decision := Some d\<rparr>)"
  using assms by (simp_all add: no_antivirus_decision_def)

lemma no_antivirus_restored:
  "no_antivirus_decision s \<Longrightarrow> scan_decision (restore_score_resolution s) = Some d \<Longrightarrow>
     d_source d \<noteq> Src_Antivirus"
  using restore_no_antivirus [of s] by (simp add: no_antivirus_decision_def)

lemma original_category_definite:
  assumes "valid_score (Some (fc_threshold (cfg_filter cfg))) \<noteq> None"
    and "scan_recipient_decision s = None" and "no_antivirus_decision s"
  shows "original_category cfg s \<noteq> Cat_Undetermined"
  unfolding original_category_def
  by (rule finalize_definite) (use assms no_antivirus_restored in blast)+

lemma rule_category_definite:
  assumes "valid_score (Some t) \<noteq> None" and "scan_recipient_decision s = None"
    and "no_antivirus_decision s"
  shows "rule_category s t c \<noteq> Cat_Undetermined"
proof (cases "c = Cat_Undetermined")
  case True
  let ?s = "s\<lparr>scan_score_resolution := None, scan_delivery_classification := Some Cat_Undetermined\<rparr>"
  have "no_antivirus_decision ?s" using assms(3) by (simp add: no_antivirus_decision_def)
  then have "scan_category (finalize ?s t) t \<noteq> Cat_Undetermined"
    by (intro finalize_definite) (use assms no_antivirus_restored in auto)
  with True show ?thesis by (simp add: rule_category_def finalize_def)
qed (simp add: rule_category_def)

lemma profile_category_definite:
  assumes "valid_score (Some t) \<noteq> None" and "scan_recipient_decision s = None"
    and "no_antivirus_decision s" and "av_status (scan_antivirus s) \<noteq> Av_Malware"
  shows "profile_category cfg s t ov p \<noteq> Cat_Undetermined"
proof -
  let ?c = "if ov then s\<lparr>scan_arbitration := None, scan_score_resolution := None,
      scan_delivery_classification := None, scan_decision := Some (decision_legacy s t)\<rparr> else s"
  let ?rc = "fc_require_corroboration (cfg_filter cfg) \<or> pf_require_corroboration p \<or> ov"
  have c: "no_antivirus_decision ?c" "av_status (scan_antivirus ?c) \<noteq> Av_Malware"
    "scan_recipient_decision ?c = None"
    using assms by (simp_all add: no_antivirus_decision_def decision_legacy_def)
  let ?a = "decision_apply ?c ?rc"
  have "scan_decision (restore_score_resolution ?a) = scan_decision ?a"
    by (simp add: restore_score_resolution_def decision_apply_resolution_None Let_def)
  then have "scan_category (finalize ?a t) t \<noteq> Cat_Undetermined"
    by (intro finalize_definite)
       (use assms(1) c decision_apply_source decide.stage_fields in auto)
  then show ?thesis by (simp add: profile_category_def Let_def)
qed

lemma start_category_definite:
  assumes "valid_score (Some (fc_threshold (cfg_filter cfg))) \<noteq> None"
    and "scan_recipient_decision s = None" and "no_antivirus_decision s"
    and "av_status (scan_antivirus s) \<noteq> Av_Malware"
  shows "start_category p cfg s rcp \<noteq> Cat_Undetermined"
  using original_category_definite [OF assms(1-3)]
    profile_category_definite [OF policy_threshold_valid [OF assms(1)] assms(2-4)]
  by (simp add: start_category_def Let_def initial_category_def split: option.split)

text \<open>An invariant of the category that every rule re-establishes holds at the end of the loop.\<close>

lemma rule_step_category:
  assumes "P (rs_category st)" and "\<And>c. P (rule_category (re_scan env) (re_threshold env) c)"
  shows "P (rs_category (rule_step env st x))"
  using assms by (cases x) (simp add: rule_step_def Let_def rule_effects_def split: option.split)

lemma run_rules_category:
  assumes "P (rs_category st)" and "\<And>c. P (rule_category (re_scan env) (re_threshold env) c)"
  shows "P (rs_category (run_rules env st xs))"
  using assms(1) by (induction xs arbitrary: st) (simp_all add: rule_step_category assms(2))

lemma start_state_simps [simp]:
  "rs_category (start_state c a) = c" "rs_requested (start_state c a) = a"
  "rs_matched (start_state c a) = []" "rs_trace (start_state c a) = []"
  "rs_stopped_by (start_state c a) = None"
  by (simp_all add: start_state_def)

lemma rule_environment_simps [simp]:
  "re_scan (rule_environment tx fl p cfg s prep rcp) = s"
  "re_policy (rule_environment tx fl p cfg s prep rcp) = p"
  "re_threshold (rule_environment tx fl p cfg s prep rcp)
     = policy_threshold cfg s (applicable_profiles p rcp)"
  by (simp_all add: rule_environment_def Let_def)

lemma rules_outcome_definite:
  assumes "valid_score (Some (fc_threshold (cfg_filter cfg))) \<noteq> None"
    and "scan_recipient_decision s = None" and "no_antivirus_decision s"
    and "av_status (scan_antivirus s) \<noteq> Av_Malware"
  shows "rs_category (rules_outcome tx fl p cfg s prep rcp now) \<noteq> Cat_Undetermined"
  unfolding rules_outcome_def Let_def
  using start_category_definite [OF assms]
    rule_category_definite [OF policy_threshold_valid [OF assms(1)] assms(2,3)]
  by (intro run_rules_category [where P = "\<lambda>c. c \<noteq> Cat_Undetermined"]) simp_all

lemma assess_prepared_fields:
  "ca_category (assess_prepared tx fl p cfg s prep rcp now)
     = (if av_status (scan_antivirus s) = Av_Malware then Spam
        else rs_category (rules_outcome tx fl p cfg s prep rcp now))"
  "ca_threshold (assess_prepared tx fl p cfg s prep rcp now)
     = policy_threshold cfg s (applicable_profiles p rcp)"
  "ca_matched (assess_prepared tx fl p cfg s prep rcp now)
     = rs_matched (rules_outcome tx fl p cfg s prep rcp now)"
  "tc_rules (ca_trace (assess_prepared tx fl p cfg s prep rcp now))
     = rs_trace (rules_outcome tx fl p cfg s prep rcp now)"
  "ap_requested (ca_action (assess_prepared tx fl p cfg s prep rcp now))
     = (if av_status (scan_antivirus s) = Av_Malware then acp_malware (action_policy_from_config cfg)
        else rs_requested (rules_outcome tx fl p cfg s prep rcp now))"
  by (simp_all add: assess_prepared_def Let_def constrain_def)

lemma rules_outcome_faithful:
  "trace_faithful (start_category p cfg s rcp)
     (re_choose (rule_environment tx fl p cfg s prep rcp) (start_category p cfg s rcp))
     (rules_outcome tx fl p cfg s prep rcp now)"
  unfolding rules_outcome_def Let_def
  by (rule run_rules_faithful) (simp add: trace_faithful_def)

text \<open>
  When no personal rule carries the stop flag, the administrator rules are the last to run and
  none of them is skipped because of a personal rule.
\<close>

lemma sorted_partition:
  assumes "\<And>as x bs y. xs = as @ x # bs \<Longrightarrow> y \<in> set bs \<Longrightarrow> P y \<Longrightarrow> P x"
  shows "xs = filter P xs @ filter (\<lambda>x. \<not> P x) xs"
  using assms
proof (induction xs)
  case (Cons x xs)
  have IH: "xs = filter P xs @ filter (\<lambda>x. \<not> P x) xs"
    using Cons.prems by (intro Cons.IH) (metis append_Cons)
  show ?case
  proof (cases "P x")
    case True
    with IH show ?thesis by simp
  next
    case False
    then have "filter P xs = []"
      using Cons.prems [of "[]" x xs] by (auto simp: filter_empty_conv)
    with False IH show ?thesis by simp
  qed
qed simp

lemma applicable_rules_split:
  assumes "cu_ordering p = Scoped"
  shows "applicable_rules p rcp now =
      filter (\<lambda>x. personal_rule p (snd x)) (applicable_rules p rcp now)
      @ filter (\<lambda>x. \<not> personal_rule p (snd x)) (applicable_rules p rcp now)"
  by (rule sorted_partition) (use applicable_rules_personal_first [OF assms] in blast)

text \<open>Concrete text operations and a policy of one administrator rule for instances.\<close>

definition ascii_text :: text_ops where
  "ascii_text = \<lparr>tx_lowercase = to_ascii_lowercase, tx_parse_f64 = (\<lambda>_. None), tx_display_f64 = fmt2\<rparr>"

definition sample_rule :: rule where
  "sample_rule = \<lparr>ru_id = ''r1'', ru_name = ''r1'', ru_enabled = True, ru_priority = 10, ru_scope = ''*'',
     ru_expires = None, ru_any = False,
     ru_conditions = [\<lparr>cd_field = F_Recipient, cd_op = Op_Present, cd_value = []\<rparr>],
     ru_category = Some Publicity, ru_action = None, ru_stop = True\<rparr>"

definition sample_profile :: profile where
  "sample_profile = \<lparr>pf_id = ''p'', pf_name = ''p'', pf_threshold = Some (Fin 70),
     pf_require_corroboration = True, pf_spam = Quarantine, pf_publicity = Tag, pf_review = Deliver,
     pf_quarantine_days = 7\<rparr>"

definition sample_policy :: custom_policy where
  "sample_policy = \<lparr>cu_ordering = Scoped, cu_origin_rules = [], cu_origin_profiles = [],
     cu_profiles = [sample_profile, sample_profile\<lparr>pf_id := ''q''\<rparr>],
     cu_bindings = [\<lparr>bd_scope = ''*'', bd_profile = ''p''\<rparr>, \<lparr>bd_scope = ''*@ex.org'', bd_profile = ''q''\<rparr>],
     cu_rules = [sample_rule]\<rparr>"

definition sample_recipient :: recipient where
  "sample_recipient = \<lparr>rc_address = ''a@ex.org'', rc_destination = ''a@ex.org'', rc_hosts = []\<rparr>"

definition sample_prepared :: prepared where
  "sample_prepared = \<lparr>prep_matches = [[Some True]], prep_digest = []\<rparr>"

definition sample_env :: rule_env where
  "sample_env = \<lparr>re_text = ascii_text, re_policy = sample_policy, re_scan = sample_scan,
     re_facts = Map.empty, re_prepared = sample_prepared, re_threshold = Fin 95, re_choose = (\<lambda>_. Deliver)\<rparr>"

section \<open>Properties\<close>

text \<open>
  scoped policies always reach a definite category. Whatever profiles and rules apply, a
  fresh scan with a usable configured threshold is classified as spam, publicity or
  legitimate, never as undetermined.
\<close>

theorem custom_category_definite:
  assumes "valid_score (Some (fc_threshold (cfg_filter cfg))) \<noteq> None"
    and "scan_recipient_decision s = None" and "no_antivirus_decision s"
  shows "ca_category (assess_prepared tx fl p cfg s prep rcp now) \<noteq> Cat_Undetermined"
  using rules_outcome_definite [OF assms] by (simp add: assess_prepared_fields)

theorem custom_category_definite_witness:
  "ca_category (assess_prepared ascii_text exact_ops sample_policy sample_config sample_scan
     sample_prepared sample_recipient 0) \<noteq> Cat_Undetermined"
  by (rule custom_category_definite)
     (simp_all add: sample_config_def sample_scan_def no_antivirus_decision_def valid_score_Fin)

text \<open>
  C39: the receipt trace is faithful. It lists every applicable rule in evaluation order, each
  row starts from the category and action the previous row left, the first from those before the
  rules, and the matched rules are exactly the rows marked as matched. Without malware the recorded
  category and requested action are those the last row left. With malware the trace says that they were
  overridden: they are spam and the action configured for malware, whatever the rows ended in, and no
  rule is credited with either.
\<close>

theorem trace_is_faithful:
  "let a = assess_prepared tx fl p cfg s prep rcp now; rows = tc_rules (ca_trace a) in
    map tr_id rows = map (ru_id \<circ> snd) (applicable_rules p rcp now)
    \<and> map hit_id (ca_matched a) = map tr_id (filter (\<lambda>t. tr_outcome t = Matched) rows)
    \<and> (\<exists>cat act.
        chained (start_category p cfg s rcp)
          (choose_action (first_profile (applicable_profiles p rcp)) (action_policy_from_config cfg) (start_category p cfg s rcp))
          rows cat act
        \<and> (if av_status (scan_antivirus s) = Av_Malware
           then tc_malware_override (ca_trace a) \<and> ca_category a = Spam
             \<and> ap_requested (ca_action a) = acp_malware (action_policy_from_config cfg)
             \<and> tc_category_rule (ca_trace a) = None \<and> tc_action_rule (ca_trace a) = None
           else \<not> tc_malware_override (ca_trace a) \<and> ca_category a = cat \<and> ap_requested (ca_action a) = act))"
proof -
  let ?st = "rules_outcome tx fl p cfg s prep rcp now"
  have "map tr_id (rs_trace ?st) = map (ru_id \<circ> snd) (applicable_rules p rcp now)"
    using run_rules_trace_ids [of "rule_environment tx fl p cfg s prep rcp" _ "applicable_rules p rcp now"]
    by (simp add: rules_outcome_def Let_def)
  moreover have "tc_malware_override (ca_trace (assess_prepared tx fl p cfg s prep rcp now)) = (av_status (scan_antivirus s) = Av_Malware)"
    "av_status (scan_antivirus s) = Av_Malware \<Longrightarrow> tc_category_rule (ca_trace (assess_prepared tx fl p cfg s prep rcp now)) = None"
    "av_status (scan_antivirus s) = Av_Malware \<Longrightarrow> tc_action_rule (ca_trace (assess_prepared tx fl p cfg s prep rcp now)) = None"
    by (simp_all add: assess_prepared_def Let_def)
  ultimately show ?thesis using rules_outcome_faithful [of p cfg s rcp tx fl prep now]
    unfolding Let_def trace_faithful_def assess_prepared_fields
    by (intro conjI exI [of _ "rs_category ?st"] exI [of _ "rs_requested ?st"]) (simp_all add: rule_environment_def Let_def)
qed

theorem trace_is_faithful_witness:
  "map tr_id (tc_rules (ca_trace (assess_prepared ascii_text exact_ops sample_policy sample_config
     sample_scan sample_prepared sample_recipient 0))) = [''r1'']"
proof -
  have "applicable_rules sample_policy sample_recipient 0 = [(0, sample_rule)]"
    by (simp add: applicable_rules_def sample_policy_def sample_rule_def rule_applies_def scope_rank_def
        sort_by_def)
  then show ?thesis
    using trace_is_faithful [of ascii_text exact_ops sample_policy sample_config sample_scan sample_prepared
        sample_recipient 0]
    by (simp add: sample_rule_def Let_def)
qed

text \<open>
  a stop is final. Once a matched rule has stopped the evaluation, the rules after it
  change neither the category nor the action nor the matched rules, and each is recorded as
  stopped.
\<close>

theorem stop_is_final:
  assumes "rs_stopped_by st \<noteq> None"
  shows "rs_category (run_rules env st xs) = rs_category st
    \<and> rs_requested (run_rules env st xs) = rs_requested st
    \<and> rs_matched (run_rules env st xs) = rs_matched st
    \<and> (\<exists>rows. rs_trace (run_rules env st xs) = rs_trace st @ rows
         \<and> list_all (\<lambda>t. tr_outcome t = Stopped) rows)"
  using run_rules_stopped [OF assms, of env xs] by (simp add: trace_step_def list_all_iff)

theorem stop_is_final_witness:
  "rs_category (run_rules sample_env ((start_state Spam Tag)\<lparr>rs_stopped_by := Some ''r1''\<rparr>) [(0, sample_rule)]) = Spam"
  using stop_is_final [of "(start_state Spam Tag)\<lparr>rs_stopped_by := Some ''r1''\<rparr>" sample_env "[(0, sample_rule)]"]
  by simp

text \<open>
  a profile never moves the threshold where it must not. An effective threshold different
  from the configured one comes from an applicable profile, lies between 50 and 100, and is
  used only when fusion does not decide and the decision, if any, is the legacy one.
\<close>

theorem threshold_override_bounded:
  assumes "ca_threshold (assess_prepared tx fl p cfg s prep rcp now) \<noteq> fc_threshold (cfg_filter cfg)"
  shows "\<exists>q. ca_threshold (assess_prepared tx fl p cfg s prep rcp now) = Fin q \<and> 50 \<le> q \<and> q \<le> 100
    \<and> (\<exists>x \<in> set (applicable_profiles p rcp). pf_threshold (fst (snd x)) = Some (Fin q))
    \<and> \<not> sensitivity_locked cfg \<and> is_none_or (scan_decision s) (\<lambda>d. d_source d = Src_Legacy)"
proof (cases "override_threshold cfg s (applicable_profiles p rcp)")
  case None
  with assms show ?thesis by (simp add: assess_prepared_fields policy_threshold_def)
next
  case (Some t)
  with override_threshold_bounds [OF Some] show ?thesis
    by (fastforce simp: assess_prepared_fields policy_threshold_def)
qed

theorem threshold_override_bounded_witness:
  "\<exists>q. ca_threshold (assess_prepared ascii_text exact_ops sample_policy sample_config sample_scan
     sample_prepared sample_recipient 0) = Fin q \<and> 50 \<le> q \<and> q \<le> 100"
proof -
  have o: "override_threshold sample_config sample_scan (applicable_profiles sample_policy sample_recipient)
      = Some (Fin 70)"
    by code_simp
  have "ca_threshold (assess_prepared ascii_text exact_ops sample_policy sample_config sample_scan
     sample_prepared sample_recipient 0) \<noteq> fc_threshold (cfg_filter sample_config)"
    using o by (simp add: assess_prepared_fields policy_threshold_def sample_config_def)
  from threshold_override_bounded [OF this] show ?thesis by blast
qed

text \<open>
  the selected profile is the one bound to the most specific scope that covers the
  recipient, and it is covered by its scope.
\<close>

theorem most_specific_profile:
  assumes "applicable_profiles p r = x # xs"
  shows "scope_rank (snd (snd x)) r = Some (fst x) \<and> (\<forall>y \<in> set xs. fst y \<le> fst x)"
  using assms applicable_profiles_rank [of x p r] applicable_profiles_first [OF assms] by simp

theorem most_specific_profile_witness:
  "\<exists>x xs. applicable_profiles sample_policy sample_recipient = x # xs \<and> fst x = 2 \<and> (\<forall>y \<in> set xs. fst y \<le> 2)"
proof -
  have e: "applicable_profiles sample_policy sample_recipient
      = [(2, sample_profile\<lparr>pf_id := ''q''\<rparr>, ''*@ex.org''), (0, sample_profile, ''*'')]"
    by code_simp
  from most_specific_profile [OF e] e show ?thesis by auto
qed

text \<open>
  a rule that needs every condition has no effect while one of its facts is missing: an
  unavailable observation is never read as absent.
\<close>

theorem missing_fact_no_effect:
  assumes "rs_stopped_by st = None" and "\<not> ru_any r" and "None \<in> set (condition_values env i r)"
  shows "rs_category (rule_step env st (i, r)) = rs_category st
    \<and> rs_requested (rule_step env st (i, r)) = rs_requested st
    \<and> rs_matched (rule_step env st (i, r)) = rs_matched st
    \<and> rs_stopped_by (rule_step env st (i, r)) = None"
  using rule_step_miss [OF assms(1) rule_hit_all_missing [OF assms(2,3)]] by simp

theorem missing_fact_no_effect_witness:
  "rs_category (rule_step sample_env (start_state Spam Tag) (0, sample_rule)) = Spam"
  by (subst missing_fact_no_effect [THEN conjunct1])
     (simp_all add: sample_rule_def sample_env_def condition_values_def facts_matches_def)

text \<open>
  no profile and no rule can weaken a malware detection: the category is spam and the
  action asked for is the global one for malware.
\<close>

theorem custom_malware_override:
  assumes "av_status (scan_antivirus s) = Av_Malware"
  shows "ca_category (assess_prepared tx fl p cfg s prep rcp now) = Spam
    \<and> ap_requested (ca_action (assess_prepared tx fl p cfg s prep rcp now))
        = acp_malware (action_policy_from_config cfg)"
  using assms by (simp add: assess_prepared_fields)

theorem custom_malware_override_witness:
  "ca_category (assess_prepared ascii_text exact_ops sample_policy sample_config
     (sample_scan\<lparr>scan_antivirus := \<lparr>av_status = Av_Malware, av_signature = None\<rparr>\<rparr>)
     sample_prepared sample_recipient 0) = Spam"
  using custom_malware_override
    [of "sample_scan\<lparr>scan_antivirus := \<lparr>av_status = Av_Malware, av_signature = None\<rparr>\<rparr>"] by simp

end
