(* ===== verification/NF_Record.thy ===== *)
theory NF_Record
  imports NF_Custom
begin

text \<open>
  Receipt-time contracts (\<open>src/decision_record.rs\<close>): the analysis captured once per message,
  the effective recipient decision frozen before headers are rendered, and the activation
  epoch both are bound to (\<open>Epoch::validate\<close> in \<open>src/cluster/activation.rs\<close>). The SHA-256 of
  the serialized policy is the argument \<open>digest\<close>.
\<close>

definition RECORD_VERSION :: u32 where "RECORD_VERSION = 2"

section \<open>Activation identity\<close>

definition epoch_validate :: "epoch \<Rightarrow> unit result" where
  "epoch_validate e =
     ensure (ep_sequence e \<le> 2 ^ 63 - 1 \<and> ep_revision e \<ge> 0 \<and> valid_hash (ep_digest e))
       ''Invalid activation epoch''"

definition receipt_contracts :: "scan \<Rightarrow> (u32 \<times> epoch option) list" where
  "receipt_contracts s =
     (case scan_analysis_result s of None \<Rightarrow> [] | Some r \<Rightarrow> [(an_version r, an_activation_epoch r)])
     @ (case scan_recipient_decision s of
          None \<Rightarrow> [] | Some r \<Rightarrow> [(rd_version r, rd_activation_epoch r)])"

definition validate_contract :: "scan \<Rightarrow> u32 \<times> epoch option \<Rightarrow> unit result" where
  "validate_contract s c =
     (case c of (version, epoch) \<Rightarrow>
       and_then (ensure (1 \<le> version \<and> version \<le> RECORD_VERSION)
           ''Unsupported receipt contract version'') (\<lambda>_.
       and_then (case epoch of None \<Rightarrow> Inr () | Some e \<Rightarrow> epoch_validate e) (\<lambda>_.
       if version \<ge> 2 \<or> epoch \<noteq> None then
         ensure (epoch = scan_activation_epoch s)
           ''Receipt activation identity disagrees with its transport epoch''
       else Inr ())))"

definition validate_activation :: "scan \<Rightarrow> unit result" where
  "validate_activation s =
     and_then (case scan_activation_epoch s of None \<Rightarrow> Inr () | Some e \<Rightarrow> epoch_validate e) (\<lambda>_.
     check_all (validate_contract s) (receipt_contracts s))"

definition recorded_activation :: "scan \<Rightarrow> epoch option" where
  "recorded_activation s =
     (if \<not> is_ok (validate_activation s) then None
      else option_or (Option.bind (scan_recipient_decision s) rd_activation_epoch)
             (Option.bind (scan_analysis_result s) an_activation_epoch))"

section \<open>Records\<close>

definition scan_coverage :: "scan \<Rightarrow> coverage" where
  "scan_coverage s =
     (if scan_complete s then Cov_Complete
      else if scan_features_complete s = Some False then Cov_Unavailable else Cov_Partial)"

definition record_analysis :: "float_ops \<Rightarrow> scan \<Rightarrow> policy_config \<Rightarrow> scan" where
  "record_analysis fl s cfg =
     (if scan_analysis_result s \<noteq> None then s
      else (let view = assess_unrecorded fl s (fc_threshold (cfg_filter cfg)) in
        s\<lparr>scan_analysis_result := Some
           \<lparr>an_activation_epoch = scan_activation_epoch s,
            an_score_boundary = as_score_boundary view,
            an_scoring = scan_scoring s,
            an_version = RECORD_VERSION,
            an_raw_sha256 = scan_raw_sha256 s,
            an_score = as_score view,
            an_detector_decision = as_decision view,
            an_coverage = scan_coverage s,
            an_missing_checks = as_incomplete_reasons view,
            an_supplementary_gaps = as_supplementary_gaps view,
            an_reasons = scan_reasons s\<rparr>\<rparr>))"

text \<open>The JSON document whose digest the receipt carries.\<close>

record receipt_policy =
  rp_version :: u32
  rp_analysis_policy :: "analysis_policy option"
  rp_custom_policy :: "string option"
  rp_profile :: "string option"
  rp_threshold :: "f64 option"
  rp_category :: category
  rp_score_boundary :: "boundary option"
  rp_classification :: classification
  rp_action :: "applied option"
  rp_rule_ids :: "string list"
  rp_trace :: "trace option"
  rp_identity_policy_sha256 :: "string option"

definition phishing_opinion :: "scan \<Rightarrow> bool" where
  "phishing_opinion s \<longleftrightarrow>
     llm_opinion (scan_llm s) = Some Unwanted
     \<and> is_some_and (llm_verdict_of (scan_llm s)) (\<lambda>v. lv_category v = L_Phishing)"

definition receipt_classification :: "scan \<Rightarrow> assessment \<Rightarrow> classification" where
  "receipt_classification s view =
     (if av_status (scan_antivirus s) = Av_Malware then Cl_Malware
      else (case as_category view of
          Spam \<Rightarrow> if phishing_opinion s then Cl_Phishing else Cl_Spam
        | Publicity \<Rightarrow> Cl_Publicity
        | Cat_Legitimate \<Rightarrow> if so_value (as_score view) \<noteq> None then Cl_Legitimate else Cl_Unassessed
        | Cat_Undetermined \<Rightarrow> Cl_Unassessed))"

text \<open>The view a receipt freezes, before the fail-open correction of an unassessed message.\<close>

definition receipt_view ::
    "float_ops \<Rightarrow> scan \<Rightarrow> policy_config \<Rightarrow> custom_assessment option \<Rightarrow> f64 \<Rightarrow> assessment" where
  "receipt_view fl s cfg policy threshold =
     (let v0 = assess_unrecorded fl s threshold;
          v1 = (if scan_score_resolution s \<noteq> None
                then v0\<lparr>as_action := Some (actions_evaluate s cfg)\<rparr> else v0);
          v2 = (case policy of
                  None \<Rightarrow> v1
                | Some p \<Rightarrow>
                    (let v = v1\<lparr>as_content_threshold := Some (ca_threshold p)\<rparr>;
                         v' = (if ca_category p \<noteq> Cat_Undetermined
                               then v\<lparr>as_category := ca_category p\<rparr> else v)
                     in v'\<lparr>as_action := Some (ca_action p),
                           as_classification_source := Cs_RecipientPolicy\<rparr>));
          v3 = v2\<lparr>as_content_threshold :=
                 option_or (as_content_threshold v2) (Some (fc_threshold (cfg_filter cfg)))\<rparr>
      in v3\<lparr>as_score_boundary := boundary_selected fl s (as_score v3) (as_content_threshold v3),
            as_mode := option_or (as_mode v3) (Some (fc_mode (cfg_filter cfg))),
            as_policy_version := option_or (as_policy_version v3) (Some DECISION_VERSION)\<rparr>)"

definition receipt_threshold :: "policy_config \<Rightarrow> custom_assessment option \<Rightarrow> f64" where
  "receipt_threshold cfg policy =
     (case policy of None \<Rightarrow> fc_threshold (cfg_filter cfg) | Some p \<Rightarrow> ca_threshold p)"

definition record_recipient ::
    "float_ops \<Rightarrow> (receipt_policy \<Rightarrow> string) \<Rightarrow> scan \<Rightarrow> policy_config \<Rightarrow> custom_assessment option \<Rightarrow> int \<Rightarrow>
     scan" where
  "record_recipient fl digest s0 cfg policy recorded_at =
     (if scan_recipient_decision s0 \<noteq> None then s0
      else
       (let threshold = receipt_threshold cfg policy;
            s = finalize (record_analysis fl s0 cfg) threshold;
            view0 = receipt_view fl s cfg policy threshold;
            classification = receipt_classification s view0;
            view = (if classification = Cl_Unassessed then view0\<lparr>as_category := Cat_Legitimate\<rparr>
                    else view0);
            rule_ids = (case policy of None \<Rightarrow> [] | Some p \<Rightarrow> map hit_id (ca_matched p));
            receipt = \<lparr>rp_version = RECORD_VERSION, rp_analysis_policy = scan_analysis_policy s,
              rp_custom_policy = map_option ca_policy policy,
              rp_profile = Option.bind policy ca_profile,
              rp_threshold = as_content_threshold view, rp_category = as_category view,
              rp_score_boundary = as_score_boundary view, rp_classification = classification,
              rp_action = as_action view, rp_rule_ids = rule_ids,
              rp_trace = map_option ca_trace policy,
              rp_identity_policy_sha256 = scan_identity_policy_sha256 s\<rparr>
        in s\<lparr>scan_recipient_decision := Some
             \<lparr>rd_activation_epoch = scan_activation_epoch s, rd_version = RECORD_VERSION,
              rd_recorded_at = recorded_at, rd_policy_sha256 = digest receipt,
              rd_profile = Option.bind policy ca_profile, rd_rule_ids = rule_ids,
              rd_classification = classification, rd_coverage = scan_coverage s,
              rd_assessment = view\<rparr>\<rparr>))"

definition record_subject_tag :: "scan \<Rightarrow> scan" where
  "record_subject_tag s =
     s\<lparr>scan_recipient_decision := map_option (\<lambda>r. r\<lparr>rd_assessment :=
         (rd_assessment r)\<lparr>as_subject_tag :=
            (if scan_tagged s then Tag_Spam else if scan_pub_tagged s then Tag_Publicity
             else No_Tag)\<rparr>\<rparr>) (scan_recipient_decision s)\<rparr>"

section \<open>Lemmas\<close>

lemma record_analysis_fields [simp]:
  "scan_recipient_decision (record_analysis fl s cfg) = scan_recipient_decision s"
  "scan_antivirus (record_analysis fl s cfg) = scan_antivirus s"
  "scan_activation_epoch (record_analysis fl s cfg) = scan_activation_epoch s"
  "scan_llm (record_analysis fl s cfg) = scan_llm s"
  by (simp_all add: record_analysis_def Let_def)

lemma record_analysis_once:
  "scan_analysis_result (record_analysis fl (record_analysis fl s cfg) cfg')
     = scan_analysis_result (record_analysis fl s cfg)"
  by (simp add: record_analysis_def Let_def)

lemma record_recipient_kept:
  "scan_recipient_decision s \<noteq> None \<Longrightarrow> record_recipient fl dg s cfg pol at' = s"
  by (simp add: record_recipient_def)

lemma record_recipient_some: "scan_recipient_decision (record_recipient fl dg s cfg pol at') \<noteq> None"
  by (simp add: record_recipient_def Let_def)

lemma record_recipient_idem:
  "record_recipient fl dg (record_recipient fl dg s cfg pol t) cfg' pol' t'
     = record_recipient fl dg s cfg pol t"
  by (rule record_recipient_kept) (rule record_recipient_some)

lemma finalize_epoch: "scan_activation_epoch (finalize s t) = scan_activation_epoch s"
  by (simp add: finalize_def resolve_by_score_def resolve_abstention_def restore_score_resolution_def
      Let_def push_reason_def retain_reasons_def split: option.split)

text \<open>What a fresh receipt says, read off the view it freezes.\<close>

definition finalized_scan :: "float_ops \<Rightarrow> scan \<Rightarrow> policy_config \<Rightarrow> custom_assessment option \<Rightarrow> scan" where
  "finalized_scan fl s cfg pol = finalize (record_analysis fl s cfg) (receipt_threshold cfg pol)"

definition frozen_view ::
    "float_ops \<Rightarrow> scan \<Rightarrow> policy_config \<Rightarrow> custom_assessment option \<Rightarrow> assessment" where
  "frozen_view fl s cfg pol =
     receipt_view fl (finalized_scan fl s cfg pol) cfg pol (receipt_threshold cfg pol)"

lemma record_recipient_fresh:
  assumes "scan_recipient_decision s = None"
    and "scan_recipient_decision (record_recipient fl dg s cfg pol t) = Some r"
  shows "rd_classification r
           = receipt_classification (finalized_scan fl s cfg pol) (frozen_view fl s cfg pol)"
    and "as_category (rd_assessment r) = (if rd_classification r = Cl_Unassessed
           then Cat_Legitimate else as_category (frozen_view fl s cfg pol))"
    and "as_score (rd_assessment r) = as_score (frozen_view fl s cfg pol)"
    and "as_action (rd_assessment r) = as_action (frozen_view fl s cfg pol)"
    and "rd_version r = RECORD_VERSION" and "rd_activation_epoch r = scan_activation_epoch s"
  using assms
  by (auto simp: record_recipient_def Let_def finalize_epoch finalized_scan_def frozen_view_def)

lemma finalized_scan_fields [simp]:
  "scan_antivirus (finalized_scan fl s cfg pol) = scan_antivirus s"
  "scan_llm (finalized_scan fl s cfg pol) = scan_llm s"
  "scan_recipient_decision (finalized_scan fl s cfg pol) = scan_recipient_decision s"
  by (simp_all add: finalized_scan_def finalize_def resolve.stage_fields)

lemma record_recipient_analysis:
  "scan_analysis_result s = None \<Longrightarrow> scan_recipient_decision s = None \<Longrightarrow>
     \<exists>a. scan_analysis_result (record_recipient fl dg s cfg pol t) = Some a
       \<and> an_version a = RECORD_VERSION \<and> an_activation_epoch a = scan_activation_epoch s"
  using resolve.stage_fields(15) [of "record_analysis fl s cfg" True]
  by (simp add: record_recipient_def Let_def finalize_def record_analysis_def)

lemma record_recipient_epoch:
  "scan_activation_epoch (record_recipient fl dg s cfg pol t) = scan_activation_epoch s"
  by (simp add: record_recipient_def Let_def finalize_epoch)

lemma receipt_classification_category:
  assumes "av_status (scan_antivirus s) \<noteq> Av_Malware"
  shows "receipt_classification s v \<in> {Cl_Spam, Cl_Phishing} \<longleftrightarrow> as_category v = Spam"
    and "receipt_classification s v = Cl_Publicity \<longleftrightarrow> as_category v = Publicity"
    and "receipt_classification s v = Cl_Legitimate \<longleftrightarrow>
         as_category v = Cat_Legitimate \<and> so_value (as_score v) \<noteq> None"
    and "receipt_classification s v \<noteq> Cl_Malware"
  using assms by (auto simp: receipt_classification_def split: category.splits if_splits)

definition sample_receipt :: scan where
  "sample_receipt = record_recipient exact_ops (\<lambda>_. []) sample_scan sample_config None 7"

section \<open>Properties\<close>

text \<open>
  C34: a receipt is frozen. After the first recording, recording again under any other
  configuration, policy or time changes nothing, and the category and the assessment read
  later do not depend on the threshold in force at that time.
\<close>

theorem receipt_frozen:
  "record_recipient fl dg (record_recipient fl dg s cfg pol at1) cfg' pol' at2
     = record_recipient fl dg s cfg pol at1
   \<and> scan_category (record_recipient fl dg s cfg pol at1) t
     = scan_category (record_recipient fl dg s cfg pol at1) t'
   \<and> assess fl (record_recipient fl dg s cfg pol at1) t
     = assess fl (record_recipient fl dg s cfg pol at1) t'"
  using record_recipient_some [of fl dg s cfg pol at1]
  by (auto simp: record_recipient_idem scan_category_def assess_def)

text \<open>
  an unmeasured risk is never recorded as a verified legitimate message. A receipt says
  legitimate only with a score, spam or phishing only for the spam category, publicity only
  for the publicity category; an unassessed message is delivered as legitimate, and no
  receipt of a message without malware leaves the category undetermined.
\<close>

theorem receipt_classification_sound:
  assumes "av_status (scan_antivirus s) \<noteq> Av_Malware" and "scan_recipient_decision s = None"
    and "scan_recipient_decision (record_recipient fl dg s cfg pol time) = Some r"
  shows "as_category (rd_assessment r) \<noteq> Cat_Undetermined
    \<and> (rd_classification r \<in> {Cl_Spam, Cl_Phishing} \<longleftrightarrow> as_category (rd_assessment r) = Spam)
    \<and> (rd_classification r = Cl_Publicity \<longleftrightarrow> as_category (rd_assessment r) = Publicity)
    \<and> (rd_classification r = Cl_Legitimate \<longrightarrow> so_value (as_score (rd_assessment r)) \<noteq> None)
    \<and> (rd_classification r = Cl_Unassessed \<longrightarrow> as_category (rd_assessment r) = Cat_Legitimate)
    \<and> rd_classification r \<noteq> Cl_Malware"
proof -
  let ?v = "frozen_view fl s cfg pol" and ?u = "finalized_scan fl s cfg pol"
  have av: "av_status (scan_antivirus ?u) \<noteq> Av_Malware" using assms(1) by simp
  note cl = record_recipient_fresh [OF assms(2,3)] receipt_classification_category [OF av, of ?v]
  have un: "as_category ?v = Cat_Undetermined \<Longrightarrow> receipt_classification ?u ?v = Cl_Unassessed"
    using av by (simp add: receipt_classification_def)
  show ?thesis
    using cl un by (cases "as_category ?v") (auto simp: receipt_classification_def)
qed

theorem receipt_classification_sound_witness:
  "\<exists>r. scan_recipient_decision sample_receipt = Some r \<and> as_category (rd_assessment r) \<noteq> Cat_Undetermined"
proof -
  obtain r where r: "scan_recipient_decision sample_receipt = Some r"
    using record_recipient_some unfolding sample_receipt_def by blast
  have "av_status (scan_antivirus sample_scan) \<noteq> Av_Malware" "scan_recipient_decision sample_scan = None"
    by (simp_all add: sample_scan_def clean_antivirus_def)
  from receipt_classification_sound [OF this r [unfolded sample_receipt_def]] r show ?thesis by blast
qed

text \<open>
  receipts are bound to the activation they were taken under. Recording a fresh scan
  whose own epoch is valid gives a scan whose activation validates, and the recorded epoch is
  the scan's.
\<close>

theorem receipt_activation_bound:
  assumes "scan_analysis_result s = None" and "scan_recipient_decision s = None"
    and "scan_activation_epoch s = Some e" and "is_ok (epoch_validate e)"
  shows "is_ok (validate_activation (record_recipient fl dg s cfg pol time))
    \<and> recorded_activation (record_recipient fl dg s cfg pol time) = Some e"
proof -
  let ?r = "record_recipient fl dg s cfg pol time"
  obtain a where a: "scan_analysis_result ?r = Some a" "an_version a = RECORD_VERSION"
    "an_activation_epoch a = Some e"
    using record_recipient_analysis [OF assms(1,2), of fl dg cfg pol time] assms(3) by auto
  obtain r where r: "scan_recipient_decision ?r = Some r"
    using record_recipient_some [of fl dg s cfg pol time] by blast
  note f = record_recipient_fresh(5,6) [OF assms(2) r]
  have e: "epoch_validate e = Inr ()" using assms(4) by (simp add: is_ok_iff)
  have ok: "is_ok (validate_activation ?r)"
    using a r f assms(3) e
    by (simp add: validate_activation_def receipt_contracts_def validate_contract_def
        record_recipient_epoch RECORD_VERSION_def ensure_def)
  then show ?thesis using r f assms(3) by (simp add: recorded_activation_def)
qed

theorem receipt_activation_bound_witness:
  "recorded_activation (record_recipient exact_ops (\<lambda>_. [])
     (sample_scan\<lparr>scan_activation_epoch := Some \<lparr>ep_sequence = 3, ep_revision = 2,
        ep_digest = replicate 64 (CHR ''a'')\<rparr>\<rparr>) sample_config None 7)
   = Some \<lparr>ep_sequence = 3, ep_revision = 2, ep_digest = replicate 64 (CHR ''a'')\<rparr>"
proof (rule receipt_activation_bound [THEN conjunct2])
  show "is_ok (epoch_validate \<lparr>ep_sequence = 3, ep_revision = 2, ep_digest = replicate 64 (CHR ''a'')\<rparr>)"
    by code_simp
qed (simp_all add: sample_scan_def)

end
