(* ===== verification/NF_Preferences.thy ===== *)
theory NF_Preferences
  imports NF_Custom
begin

text \<open>
  Mailbox-owned policy (\<open>src/preferences.rs\<close>): who may edit a scope, the validation of
  personal settings, and the composition of a personal preference with the administrator's
  policy into the one that is evaluated. The transport part of a preference is
  \<open>traffic::Policy\<close> (\<open>src/traffic.rs\<close>).
\<close>

section \<open>Transport policy\<close>

datatype traffic_action = Tr_Observe | Tr_Defer | Tr_Quarantine

record traffic_policy =
  tf_action :: traffic_action
  tf_window_seconds :: u32
  tf_sender_limit :: u32
  tf_domain_limit :: u32
  tf_recipient_limit :: u32
  tf_duplicate_limit :: u32
  tf_verify_new_senders :: bool
  tf_trusted_senders :: "string list"

definition traffic_policy_validate :: "traffic_policy \<Rightarrow> unit result" where
  "traffic_policy_validate p =
     and_then (ensure (10 \<le> tf_window_seconds p \<and> tf_window_seconds p \<le> 3600)
         ''Traffic window must be 10..3600 seconds'') (\<lambda>_.
     and_then (ensure (list_all (\<lambda>v. v \<le> 100000)
           [tf_sender_limit p, tf_domain_limit p, tf_recipient_limit p, tf_duplicate_limit p])
         ''Traffic quota exceeds 100000'') (\<lambda>_.
     ensure (length (tf_trusted_senders p) \<le> 128 \<and> list_all valid_address (tf_trusted_senders p))
         ''Invalid authenticated sender exceptions''))"

section \<open>Settings\<close>

record preference =
  pref_traffic :: "traffic_policy option"
  pref_profile :: "profile option"
  pref_rules :: "rule list"

text \<open>The mailboxes are a \<open>BTreeMap\<close>: entries in key order, keys distinct.\<close>

record preference_settings =
  ps_enabled :: bool
  ps_minimum_threshold :: f64
  ps_maximum_threshold :: f64
  ps_max_rules :: nat
  ps_allowed_actions :: "action list"
  ps_mailboxes :: "(string \<times> preference) list"

definition permitted :: "string \<Rightarrow> bool \<Rightarrow> string list \<Rightarrow> bool" where
  "permitted scope admin grants \<longleftrightarrow>
     scope \<noteq> ''*'' \<and> (admin \<or> list_ex (\<lambda>g. g = scope
       \<or> is_some_and (strip_prefix ''*@'' g)
           (\<lambda>d. is_some_and (rsplit_once (CHR ''@'') scope) (\<lambda>x. snd x = d))) grants)"

definition preference_policy :: "preference \<Rightarrow> string \<Rightarrow> custom_policy" where
  "preference_policy p scope =
     \<lparr>cu_ordering = LegacyPriority, cu_origin_rules = [], cu_origin_profiles = [],
      cu_profiles = (case pref_profile p of None \<Rightarrow> [] | Some f \<Rightarrow> [f]),
      cu_bindings = (case pref_profile p of None \<Rightarrow> [] | Some f \<Rightarrow>
         [\<lparr>bd_scope = scope, bd_profile = pf_id f\<rparr>]),
      cu_rules = pref_rules p\<rparr>"

definition inherited_threshold_profile ::
    "custom_policy \<Rightarrow> recipient \<Rightarrow> (profile \<times> string) option" where
  "inherited_threshold_profile base rcp =
     (let profiles = sort_by (\<lambda>a b. fst b \<le> fst a)
            (List.map_filter (\<lambda>b.
              case (scope_rank (bd_scope b) rcp, find (\<lambda>f. pf_id f = bd_profile b) (cu_profiles base)) of
                (Some rank, Some f) \<Rightarrow> Some (rank, f, bd_scope b) | _ \<Rightarrow> None) (cu_bindings base))
      in map_option snd (find (\<lambda>(_, p, _). pf_threshold p \<noteq> None) profiles))"

section \<open>Validation\<close>

definition validate_personal_rule :: "preference_settings \<Rightarrow> string \<Rightarrow> rule \<Rightarrow> unit result" where
  "validate_personal_rule ps scope r =
     ensure (ru_scope r = scope \<and> \<not> ru_stop r
         \<and> is_none_or (ru_action r) (\<lambda>a. a \<in> set (ps_allowed_actions ps)))
       ''Personal rule out of reach or unauthorized action.''"

definition validate_personal_profile :: "preference_settings \<Rightarrow> profile \<Rightarrow> unit result" where
  "validate_personal_profile ps f =
     and_then (ensure (is_none_or (pf_threshold f)
           (f64_within (ps_minimum_threshold ps) (ps_maximum_threshold ps)) \<and> pf_require_corroboration f)
         ''Out-of-limit threshold or substantiation disabled.'') (\<lambda>_.
     ensure (list_all (\<lambda>a. a \<in> set (ps_allowed_actions ps)) [pf_spam f, pf_publicity f, pf_review f])
         ''Unauthorized personal action.'')"

definition validate_mailbox ::
    "text_ops \<Rightarrow> preference_settings \<Rightarrow> policy_config \<Rightarrow> string \<times> preference \<Rightarrow> unit result" where
  "validate_mailbox tx ps cfg entry =
     (case entry of (scope, p) \<Rightarrow>
       and_then (ensure (scope \<noteq> ''*'') ''A preference requires an address or domain.'') (\<lambda>_.
       and_then (ensure (is_some_and (strip_prefix ''*@'' scope)
             (\<lambda>d. list_ex (\<lambda>v. dom_name v = d) (cfg_domains cfg))
           \<or> is_some_and (config_recipient (cfg_domains cfg) scope) (\<lambda>r. rc_address r = scope))
           ''Unknown personal scope.'') (\<lambda>_.
       and_then (case pref_traffic p of
           None \<Rightarrow> Inr ()
         | Some traffic \<Rightarrow>
             and_then (traffic_policy_validate traffic) (\<lambda>_.
             ensure (tf_action traffic \<noteq> Tr_Quarantine \<or> Quarantine \<in> set (ps_allowed_actions ps))
               ''Personal quarantine action is not allowed'')) (\<lambda>_.
       and_then (ensure (length (pref_rules p) \<le> ps_max_rules ps) ''Too many personal rules.'') (\<lambda>_.
       and_then (check_all (validate_personal_rule ps scope) (pref_rules p)) (\<lambda>_.
       and_then (case pref_profile p of
           None \<Rightarrow> Inr () | Some f \<Rightarrow> validate_personal_profile ps f) (\<lambda>_.
       custom_policy_validate tx (preference_policy p scope) cfg)))))))"

definition preference_validate ::
    "text_ops \<Rightarrow> preference_settings \<Rightarrow> policy_config \<Rightarrow> unit result" where
  "preference_validate tx ps cfg =
     and_then (ensure (f64_is_finite (ps_minimum_threshold ps) \<and> f64_is_finite (ps_maximum_threshold ps)
         \<and> f64_le (Fin 50) (ps_minimum_threshold ps)
         \<and> f64_le (ps_minimum_threshold ps) (ps_maximum_threshold ps)
         \<and> f64_le (ps_maximum_threshold ps) (Fin 100)) ''Impaired personal thresholds.'') (\<lambda>_.
     and_then (ensure (ps_max_rules ps \<le> 20 \<and> length (ps_mailboxes ps) \<le> 1000
         \<and> ps_allowed_actions ps \<noteq> []) ''Limits of invalid preferences.'') (\<lambda>_.
     check_all (validate_mailbox tx ps cfg) (ps_mailboxes ps)))"

definition preference_tags :: "preference_settings \<Rightarrow> bool \<times> bool" where
  "preference_tags ps =
     (if \<not> ps_enabled ps then (False, False)
      else foldl (\<lambda>(a, b) (s, p).
          (let t = custom_policy_tags (preference_policy p s) in (a \<or> fst t, b \<or> snd t)))
        (False, False) (ps_mailboxes ps))"

section \<open>Composition\<close>

text \<open>
  The search for an unused identifier, \<open>(start..).map(...).find(...)\<close>. Among one more
  candidates than there are identifiers in use, one is free (\<open>fresh_id_unused\<close>), so the
  unbounded search ends within the range searched here.
\<close>

definition fresh_id :: "string \<Rightarrow> nat \<Rightarrow> string list \<Rightarrow> string" where
  "fresh_id stem start taken =
     unwrap_or (find (\<lambda>i. i \<notin> set taken)
       (map (\<lambda>n. stem @ nat_digits n) [start ..< start + Suc (length taken)])) []"

definition origin_insert :: "string \<Rightarrow> string \<Rightarrow> (string \<times> string) list \<Rightarrow> (string \<times> string) list" where
  "origin_insert k v m = (k, v) # filter (\<lambda>x. fst x \<noteq> k) m"

text \<open>\<open>max_by_key\<close> keeps the last of several maxima.\<close>

definition max_by_rank :: "(nat \<times> 'a) list \<Rightarrow> (nat \<times> 'a) option" where
  "max_by_rank xs = foldl (\<lambda>acc x. case acc of
       None \<Rightarrow> Some x | Some y \<Rightarrow> if fst x \<ge> fst y then Some x else Some y) None xs"

definition legacy_preference :: "preference_settings \<Rightarrow> recipient \<Rightarrow> (nat \<times> preference) option" where
  "legacy_preference ps rcp =
     max_by_rank (List.map_filter (\<lambda>(scope, p). map_option (\<lambda>r. (r, p)) (scope_rank scope rcp))
       (ps_mailboxes ps))"

definition priority_le :: "rule \<Rightarrow> rule \<Rightarrow> bool" where
  "priority_le a b \<longleftrightarrow> (ru_priority a, ru_id a) \<le> (ru_priority b, ru_id b)"

fun rename_rules ::
    "nat \<Rightarrow> string list \<Rightarrow> (string \<times> string) list \<Rightarrow> rule list \<Rightarrow> rule list \<times> (string \<times> string) list" where
  "rename_rules i base origins [] = ([], origins)"
| "rename_rules i base origins (r # rs) =
     (let nid = fresh_id ''mailbox-'' i (base @ map fst origins);
          rest = rename_rules (Suc i) base (origin_insert nid (ru_id r) origins) rs
      in (r\<lparr>ru_id := nid, ru_stop := False\<rparr> # fst rest, snd rest))"

definition legacy_profile :: "custom_policy \<Rightarrow> recipient \<Rightarrow> profile \<Rightarrow> custom_policy" where
  "legacy_profile base rcp f =
     (let nid = fresh_id ''__mailbox_'' 0 (map pf_id (cu_profiles base));
          threshold = (if pf_threshold f = None
                       then Option.bind (inherited_threshold_profile base rcp) (pf_threshold \<circ> fst)
                       else pf_threshold f)
      in base\<lparr>cu_bindings := filter (\<lambda>b. bd_scope b \<noteq> rc_address rcp) (cu_bindings base)
                @ [\<lparr>bd_scope = rc_address rcp, bd_profile = nid\<rparr>],
              cu_origin_profiles := origin_insert nid (pf_id f) (cu_origin_profiles base),
              cu_profiles := cu_profiles base @ [f\<lparr>pf_id := nid, pf_threshold := threshold\<rparr>]\<rparr>)"

definition legacy_policy :: "custom_policy \<Rightarrow> recipient \<Rightarrow> preference \<Rightarrow> custom_policy" where
  "legacy_policy base rcp personal =
     (let combined = (case pref_profile personal of
            None \<Rightarrow> base | Some f \<Rightarrow> legacy_profile base rcp f);
          admin = sort_by priority_le (cu_rules combined);
          own = rename_rules 0 (map ru_id (cu_rules base)) (cu_origin_rules combined)
                  (sort_by priority_le (pref_rules personal));
          rules = map (\<lambda>(i, r). r\<lparr>ru_priority := of_nat i\<rparr>) (enumerate 0 (fst own @ admin))
      in combined\<lparr>cu_origin_rules := snd own, cu_rules := rules\<rparr>)"

definition scoped_profile :: "string \<Rightarrow> profile \<Rightarrow> custom_policy \<Rightarrow> custom_policy" where
  "scoped_profile scope f p =
     (let nid = fresh_id ''__personal_profile_'' 0 (map pf_id (cu_profiles p))
      in p\<lparr>cu_origin_profiles := origin_insert nid (pf_id f) (cu_origin_profiles p),
           cu_bindings := cu_bindings p @ [\<lparr>bd_scope = scope, bd_profile = nid\<rparr>],
           cu_profiles := cu_profiles p @ [f\<lparr>pf_id := nid\<rparr>]\<rparr>)"

definition scoped_rule :: "custom_policy \<Rightarrow> rule \<Rightarrow> custom_policy" where
  "scoped_rule p r =
     (let nid = fresh_id ''__personal_rule_'' 0 (map ru_id (cu_rules p))
      in p\<lparr>cu_origin_rules := origin_insert nid (ru_id r) (cu_origin_rules p),
           cu_rules := cu_rules p @ [r\<lparr>ru_id := nid, ru_stop := False\<rparr>]\<rparr>)"

definition scoped_preference :: "custom_policy \<Rightarrow> nat \<times> string \<times> preference \<Rightarrow> custom_policy" where
  "scoped_preference p x =
     (case x of (_, scope, pref) \<Rightarrow>
       foldl scoped_rule
         (case pref_profile pref of None \<Rightarrow> p | Some f \<Rightarrow> scoped_profile scope f p) (pref_rules pref))"

definition scoped_policy :: "preference_settings \<Rightarrow> custom_policy \<Rightarrow> recipient \<Rightarrow> custom_policy" where
  "scoped_policy ps base rcp =
     (let selected = sort_by (\<lambda>a b. (fst a, fst (snd a)) \<le> (fst b, fst (snd b)))
            (List.map_filter (\<lambda>(scope, p). map_option (\<lambda>r. (r, scope, p)) (scope_rank scope rcp))
              (ps_mailboxes ps))
      in foldl scoped_preference base selected)"

definition effective_policy :: "preference_settings \<Rightarrow> custom_policy \<Rightarrow> recipient \<Rightarrow> custom_policy" where
  "effective_policy ps base rcp =
     (if \<not> ps_enabled ps then base
      else if cu_ordering base = Scoped then scoped_policy ps base rcp
      else (case legacy_preference ps rcp of
          None \<Rightarrow> base
        | Some (_, personal) \<Rightarrow> legacy_policy base rcp personal))"

section \<open>Editing and simulation\<close>

definition validate_traffic_edit ::
    "preference_settings \<Rightarrow> bool \<Rightarrow> string \<Rightarrow> preference option \<Rightarrow> unit result" where
  "validate_traffic_edit ps personal_allowed scope next_pref =
     (let old = Option.bind (map_of (ps_mailboxes ps) scope) pref_traffic;
          new = Option.bind next_pref pref_traffic
      in ensure (new = None \<or> new = old \<or> personal_allowed) ''Personal traffic controls are disabled'')"

definition simulate ::
    "text_ops \<Rightarrow> float_ops \<Rightarrow> (custom_policy \<Rightarrow> string) \<Rightarrow> preference_settings \<Rightarrow> custom_policy \<Rightarrow>
     policy_config \<Rightarrow> scan \<Rightarrow> string \<Rightarrow> recipient \<Rightarrow> int \<Rightarrow> custom_assessment" where
  "simulate tx fl policy_digest ps p cfg received sender rcp time =
     (let c0 = (case scan_analysis_result received of
                  None \<Rightarrow> received
                | Some a \<Rightarrow> received\<lparr>scan_score := unwrap_or (so_raw (an_score a)) (Fin (-1)),
                    scan_reasons := an_reasons a, scan_decision := Some (an_detector_decision a)\<rparr>);
          c1 = c0\<lparr>scan_analysis_result := None, scan_recipient_decision := None,
                  scan_delivery_classification := None, scan_action := None, scan_arbitration := None,
                  scan_score_resolution := None, scan_tagged := False, scan_pub_tagged := False\<rparr>;
          c2 = (if is_none_or (scan_decision c1) (\<lambda>d. d_source d = Src_Legacy)
                then c1\<lparr>scan_decision := Some (decision_legacy c1 (fc_threshold (cfg_filter cfg)))\<rparr>
                else c1);
          c3 = finalize (decision_apply c2 (fc_require_corroboration (cfg_filter cfg)))
                 (fc_threshold (cfg_filter cfg))
      in custom_assess tx fl policy_digest (effective_policy ps p rcp) cfg c3
           (facts_metadata tx sender c3) rcp time)"

section \<open>Lemmas: fresh identifiers\<close>

lemma fresh_id_unused: "fresh_id stem start taken \<notin> set taken"
proof -
  let ?cs = "map (\<lambda>n. stem @ nat_digits n) [start ..< start + Suc (length taken)]"
  have "distinct ?cs"
    unfolding distinct_map by (auto simp del: upt_Suc simp: inj_on_def dest: nat_digits_inj)
  then have "card (set ?cs) = Suc (length taken)" by (simp only: distinct_card) simp
  moreover have "card (set taken) \<le> length taken" by (rule card_length)
  ultimately have "\<not> set ?cs \<subseteq> set taken"
    using card_mono [OF finite_set, of "set ?cs" taken] by linarith
  then obtain x where "x \<in> set ?cs" "x \<notin> set taken" by blast
  then have "find (\<lambda>i. i \<notin> set taken) ?cs \<noteq> None" by (auto simp: find_None_iff)
  then obtain y where y: "find (\<lambda>i. i \<notin> set taken) ?cs = Some y" by blast
  then have "y \<notin> set taken" by (auto simp: find_Some_iff)
  with y show ?thesis by (simp add: fresh_id_def)
qed

lemma origin_insert_lookup:
  "map_of (origin_insert k v m) k' = (if k' = k then Some v else map_of m k')"
  by (induction m) (auto simp: origin_insert_def)

section \<open>Lemmas: personal rules\<close>

text \<open>
  A policy extends the administrator's rules \<open>base\<close> with personal ones \<open>own\<close>: the origins name
  exactly the personal identifiers, no administrator identifier is among them, and no
  personal rule may stop the evaluation.
\<close>

definition composed :: "string list \<Rightarrow> (string \<times> string) list \<Rightarrow> rule list \<Rightarrow> bool" where
  "composed base_ids origins own \<longleftrightarrow>
     (\<forall>r \<in> set own. \<not> ru_stop r \<and> map_of origins (ru_id r) \<noteq> None)
     \<and> (\<forall>i \<in> set base_ids. map_of origins i = None)"

lemma composed_insert:
  assumes "composed base_ids origins own" and "nid \<notin> set base_ids"
  shows "composed base_ids (origin_insert nid v origins) own"
  using assms by (auto simp: composed_def origin_insert_lookup)

lemma rename_rules_composed:
  assumes "composed base_ids origins []" and "rename_rules i base_ids origins rs = (own, origins')"
  shows "composed base_ids origins' own \<and> length own = length rs
     \<and> (\<forall>k. map_of origins k \<noteq> None \<longrightarrow> map_of origins' k \<noteq> None)"
  using assms
proof (induction rs arbitrary: i origins own)
  case (Cons r rs)
  let ?nid = "fresh_id ''mailbox-'' i (base_ids @ map fst origins)"
  let ?o = "origin_insert ?nid (ru_id r) origins"
  obtain own1 where rec: "rename_rules (Suc i) base_ids ?o rs = (own1, origins')"
    and own: "own = r\<lparr>ru_id := ?nid, ru_stop := False\<rparr> # own1"
    using Cons.prems(2) by (cases "rename_rules (Suc i) base_ids ?o rs") (auto simp: Let_def)
  have "?nid \<notin> set base_ids"
    using fresh_id_unused [of "''mailbox-''" i "base_ids @ map fst origins"] by simp
  then have "composed base_ids ?o []" using composed_insert Cons.prems(1) by blast
  note IH = Cons.IH [OF this rec]
  have "map_of origins' ?nid \<noteq> None" using IH by (simp add: origin_insert_lookup)
  then have "composed base_ids origins' own"
    using IH by (auto simp: own composed_def)
  moreover have "map_of origins' k \<noteq> None" if "map_of origins k \<noteq> None" for k
    using IH that by (auto simp: origin_insert_lookup)
  ultimately show ?case using IH own by auto
qed simp

definition scoped_inv :: "custom_policy \<Rightarrow> custom_policy \<Rightarrow> bool" where
  "scoped_inv base p \<longleftrightarrow> cu_ordering p = cu_ordering base
     \<and> (\<exists>own. cu_rules p = cu_rules base @ own
          \<and> composed (map ru_id (cu_rules base)) (cu_origin_rules p) own)"

lemma scoped_rule_inv: "scoped_inv base p \<Longrightarrow> scoped_inv base (scoped_rule p r)"
proof -
  assume "scoped_inv base p"
  then obtain own where own: "cu_rules p = cu_rules base @ own"
    "composed (map ru_id (cu_rules base)) (cu_origin_rules p) own" and ord: "cu_ordering p = cu_ordering base"
    by (auto simp: scoped_inv_def)
  let ?nid = "fresh_id ''__personal_rule_'' 0 (map ru_id (cu_rules p))"
  have fresh: "?nid \<notin> set (map ru_id (cu_rules p))" by (rule fresh_id_unused)
  then have "?nid \<notin> set (map ru_id (cu_rules base))" by (simp add: own(1))
  from composed_insert [OF own(2) this] have
    "composed (map ru_id (cu_rules base)) (origin_insert ?nid (ru_id r) (cu_origin_rules p))
       (own @ [r\<lparr>ru_id := ?nid, ru_stop := False\<rparr>])"
    by (auto simp: composed_def origin_insert_lookup)
  then show ?thesis using own(1) ord by (auto simp: scoped_inv_def scoped_rule_def Let_def)
qed

lemma scoped_rules_inv: "scoped_inv base p \<Longrightarrow> scoped_inv base (foldl scoped_rule p rs)"
  by (induction rs arbitrary: p) (simp_all add: scoped_rule_inv)

lemma scoped_preference_inv: "scoped_inv base p \<Longrightarrow> scoped_inv base (scoped_preference p x)"
proof (cases x)
  fix rank scope pref assume inv: "scoped_inv base p" and x: "x = (rank, scope, pref)"
  have "scoped_inv base (scoped_profile scope f p)" for f
    using inv by (simp add: scoped_inv_def scoped_profile_def Let_def)
  with inv show ?thesis by (auto simp: x scoped_preference_def intro!: scoped_rules_inv split: option.split)
qed

lemma scoped_policy_inv:
  assumes "cu_origin_rules base = []"
  shows "scoped_inv base (scoped_policy ps base rcp)"
proof -
  have "scoped_inv base base" using assms by (simp add: scoped_inv_def composed_def)
  moreover have "scoped_inv base (foldl scoped_preference p xs)" if "scoped_inv base p" for p xs
    using that by (induction xs arbitrary: p) (simp_all add: scoped_preference_inv)
  ultimately show ?thesis by (simp add: scoped_policy_def Let_def)
qed

text \<open>The legacy composition puts the personal rules first and numbers the priorities.\<close>

definition legacy_own :: "custom_policy \<Rightarrow> preference \<Rightarrow> rule list" where
  "legacy_own base pref = fst (rename_rules 0 (map ru_id (cu_rules base)) (cu_origin_rules base)
     (sort_by priority_le (pref_rules pref)))"

lemma legacy_profile_fields [simp]:
  "cu_rules (legacy_profile base rcp f) = cu_rules base"
  "cu_origin_rules (legacy_profile base rcp f) = cu_origin_rules base"
  "cu_ordering (legacy_profile base rcp f) = cu_ordering base"
  by (simp_all add: legacy_profile_def Let_def)

lemma legacy_policy_fields:
  "cu_rules (legacy_policy base rcp pref) = map (\<lambda>(i, r). r\<lparr>ru_priority := of_nat i\<rparr>)
     (enumerate 0 (legacy_own base pref @ sort_by priority_le (cu_rules base)))"
  "cu_ordering (legacy_policy base rcp pref) = cu_ordering base"
  "cu_origin_rules base = [] \<Longrightarrow>
     composed (map ru_id (cu_rules base)) (cu_origin_rules (legacy_policy base rcp pref)) (legacy_own base pref)"
proof -
  show "cu_rules (legacy_policy base rcp pref) = map (\<lambda>(i, r). r\<lparr>ru_priority := of_nat i\<rparr>)
     (enumerate 0 (legacy_own base pref @ sort_by priority_le (cu_rules base)))"
    by (simp add: legacy_policy_def Let_def legacy_own_def split: option.split)
  show "cu_ordering (legacy_policy base rcp pref) = cu_ordering base"
    by (simp add: legacy_policy_def Let_def split: option.split)
  assume none: "cu_origin_rules base = []"
  have eq: "cu_origin_rules (legacy_policy base rcp pref)
      = snd (rename_rules 0 (map ru_id (cu_rules base)) (cu_origin_rules base) (sort_by priority_le (pref_rules pref)))"
    by (simp add: legacy_policy_def Let_def split: option.split)
  have "composed (map ru_id (cu_rules base)) (cu_origin_rules base) []"
    by (simp add: composed_def none)
  from rename_rules_composed [OF this, of 0 "sort_by priority_le (pref_rules pref)"]
  show "composed (map ru_id (cu_rules base)) (cu_origin_rules (legacy_policy base rcp pref)) (legacy_own base pref)"
    by (simp add: eq legacy_own_def)
qed

section \<open>Lemmas: evaluation order\<close>

lemma composed_personal:
  assumes "composed base_ids origins own" and "r \<in> set own"
    and "cu_origin_rules p = origins"
  shows "personal_rule p r \<and> \<not> ru_stop r"
  using assms by (auto simp: composed_def personal_rule_def)

lemma composed_administrator:
  assumes "composed base_ids origins own" and "ru_id r \<in> set base_ids"
    and "cu_origin_rules p = origins"
  shows "\<not> personal_rule p r"
  using assms by (auto simp: composed_def personal_rule_def)

lemma legacy_policy_nth:
  assumes "i < length (legacy_own base pref @ sort_by priority_le (cu_rules base))"
  shows "cu_rules (legacy_policy base rcp pref) ! i
     = ((legacy_own base pref @ sort_by priority_le (cu_rules base)) ! i)\<lparr>ru_priority := of_nat i\<rparr>"
  using assms by (simp add: legacy_policy_fields nth_enumerate_eq)

lemma legacy_policy_personal:
  assumes "cu_origin_rules base = []" and "i < length (cu_rules (legacy_policy base rcp pref))"
  shows "personal_rule (legacy_policy base rcp pref) (cu_rules (legacy_policy base rcp pref) ! i)
     \<longleftrightarrow> i < length (legacy_own base pref)"
    and "i < length (legacy_own base pref) \<Longrightarrow> \<not> ru_stop (cu_rules (legacy_policy base rcp pref) ! i)"
proof -
  let ?p = "legacy_policy base rcp pref" and ?own = "legacy_own base pref"
  let ?adm = "sort_by priority_le (cu_rules base)"
  have len: "i < length (?own @ ?adm)" using assms(2) by (simp add: legacy_policy_fields)
  have comp: "composed (map ru_id (cu_rules base)) (cu_origin_rules ?p) ?own"
    by (rule legacy_policy_fields(3) [OF assms(1)])
  have ids: "ru_id (cu_rules ?p ! i) = ru_id ((?own @ ?adm) ! i)"
    "ru_stop (cu_rules ?p ! i) = ru_stop ((?own @ ?adm) ! i)"
    using legacy_policy_nth [OF len] by simp_all
  have own: "?own ! i \<in> set ?own" if "i < length ?own" using that by simp
  show "personal_rule ?p (cu_rules ?p ! i) \<longleftrightarrow> i < length ?own"
  proof (cases "i < length ?own")
    case True
    with own composed_personal [OF comp, of "?own ! i" ?p] ids show ?thesis
      by (simp add: personal_rule_def nth_append)
  next
    case False
    then have "?adm ! (i - length ?own) \<in> set ?adm" using len by (intro nth_mem) simp
    then have "ru_id ((?own @ ?adm) ! i) \<in> set (map ru_id (cu_rules base))"
      using False by (simp add: nth_append)
    with composed_administrator [OF comp, of "cu_rules ?p ! i" ?p] ids False show ?thesis by simp
  qed
  show "\<not> ru_stop (cu_rules ?p ! i)" if "i < length ?own"
    using that own composed_personal [OF comp, of "?own ! i" ?p] ids by (simp add: nth_append)
qed

text \<open>In both orders a personal rule is never evaluated after an administrator's.\<close>

lemma legacy_personal_first:
  assumes ord: "cu_ordering base \<noteq> Scoped" and none: "cu_origin_rules base = []"
    and bound: "length (cu_rules (legacy_policy base rcp pref)) < 65536"
    and split: "applicable_rules (legacy_policy base rcp pref) rcp now = as @ x # bs"
    and y: "y \<in> set bs" "personal_rule (legacy_policy base rcp pref) (snd y)"
  shows "personal_rule (legacy_policy base rcp pref) (snd x)"
proof -
  let ?p = "legacy_policy base rcp pref"
  obtain i r j q where xy: "x = (i, r)" "y = (j, q)" by (cases x, cases y)
  have "x \<in> set (applicable_rules ?p rcp now)" "y \<in> set (applicable_rules ?p rcp now)"
    using y(1) by (auto simp: split)
  then have ir: "i < length (cu_rules ?p)" "r = cu_rules ?p ! i"
    and jq: "j < length (cu_rules ?p)" "q = cu_rules ?p ! j"
    using applicable_rules_valid xy by blast+
  have "rule_key ?p rcp x \<le> rule_key ?p rcp y"
    using split y(1) rule_order.sort_by_before [of ?p rcp _ as x bs y] by (simp add: applicable_rules_def)
  then have "ru_priority r \<le> ru_priority q"
    using ord by (auto simp: rule_key_def Let_def xy legacy_policy_fields(2) less_eq_prod_def)
  moreover have "ru_priority (cu_rules ?p ! n) = of_nat n" if "n < length (cu_rules ?p)" for n
    using that legacy_policy_nth [of n base pref rcp] by (simp add: legacy_policy_fields)
  ultimately have "(of_nat i :: u16) \<le> of_nat j" using ir jq by simp
  then have "i \<le> j" using ir(1) jq(1) bound by (simp add: word_le_nat_alt unat_of_nat take_bit_nat_eq_self)
  then show ?thesis
    using y(2) legacy_policy_personal(1) [OF none] ir jq xy by auto
qed

lemma effective_cases:
  assumes "cu_origin_rules base = []"
  obtains (admin) "effective_policy ps base rcp = base"
  | (scoped) "effective_policy ps base rcp = scoped_policy ps base rcp" "cu_ordering base = Scoped"
  | (legacy) pref where "effective_policy ps base rcp = legacy_policy base rcp pref" "cu_ordering base \<noteq> Scoped"
proof -
  consider "\<not> ps_enabled ps \<or> cu_ordering base \<noteq> Scoped \<and> legacy_preference ps rcp = None"
    | "ps_enabled ps" "cu_ordering base = Scoped"
    | x pref where "ps_enabled ps" "cu_ordering base \<noteq> Scoped" "legacy_preference ps rcp = Some (x, pref)"
    by (cases "legacy_preference ps rcp") auto
  then show thesis
  proof cases
    case 1
    then show thesis using admin by (auto simp: effective_policy_def)
  next
    case 2
    then show thesis using scoped by (simp add: effective_policy_def)
  next
    case (3 x pref)
    then show thesis using legacy [of pref] by (simp add: effective_policy_def)
  qed
qed

lemma effective_personal_no_stop:
  assumes none: "cu_origin_rules base = []" and r: "r \<in> set (cu_rules (effective_policy ps base rcp))"
    and personal: "personal_rule (effective_policy ps base rcp) r"
  shows "\<not> ru_stop r"
  using none
proof (cases rule: effective_cases [of base ps rcp])
  case admin
  then show ?thesis using personal none by (simp add: personal_rule_def)
next
  case scoped
  from scoped_policy_inv [OF none, of ps rcp] obtain own where
    own: "cu_rules (scoped_policy ps base rcp) = cu_rules base @ own"
      "composed (map ru_id (cu_rules base)) (cu_origin_rules (scoped_policy ps base rcp)) own"
    by (auto simp: scoped_inv_def)
  from r own(1) scoped consider "r \<in> set own" | "r \<in> set (cu_rules base)" by auto
  then show ?thesis
    using personal scoped composed_personal [OF own(2)] composed_administrator [OF own(2), of r] by cases auto
next
  case (legacy pref)
  from r legacy obtain i where i: "i < length (cu_rules (legacy_policy base rcp pref))"
    "r = cu_rules (legacy_policy base rcp pref) ! i" by (auto simp: in_set_conv_nth)
  then show ?thesis
    using personal legacy legacy_policy_personal [OF none i(1)] by simp
qed

lemma effective_personal_first:
  assumes none: "cu_origin_rules base = []"
    and bound: "length (cu_rules (effective_policy ps base rcp)) < 65536"
    and split: "applicable_rules (effective_policy ps base rcp) rcp now = as @ x # bs"
    and y: "y \<in> set bs" "personal_rule (effective_policy ps base rcp) (snd y)"
  shows "personal_rule (effective_policy ps base rcp) (snd x)"
  using none
proof (cases rule: effective_cases [of base ps rcp])
  case admin
  then show ?thesis using y(2) none by (simp add: personal_rule_def)
next
  case scoped
  then have "cu_ordering (effective_policy ps base rcp) = Scoped"
    using scoped_policy_inv [OF none, of ps rcp] by (simp add: scoped_inv_def)
  then show ?thesis using split y by (rule applicable_rules_personal_first)
next
  case (legacy pref)
  then show ?thesis using legacy_personal_first [OF _ none] bound split y by metis
qed

definition sample_settings :: preference_settings where
  "sample_settings = \<lparr>ps_enabled = True, ps_minimum_threshold = Fin 85, ps_maximum_threshold = Fin 100,
     ps_max_rules = 20, ps_allowed_actions = [Deliver, Tag, Quarantine],
     ps_mailboxes = [(''a@ex.org'', \<lparr>pref_traffic = None,
       pref_profile = Some (sample_profile\<lparr>pf_threshold := Some (Fin 90)\<rparr>),
       pref_rules = [sample_rule\<lparr>ru_scope := ''a@ex.org'', ru_stop := False\<rparr>]\<rparr>)]\<rparr>"

section \<open>Properties\<close>

text \<open>
  C33: personal rules cannot silence the administrator's. In the policy composed for a
  recipient, in either ordering, the applicable personal rules are evaluated first, the
  administrator's after all of them, and no personal rule stops the evaluation before the
  administrator's rules are reached.
\<close>

theorem administrator_rules_authoritative:
  assumes "cu_origin_rules base = []" and "length (cu_rules (effective_policy ps base rcp)) < 65536"
  shows "let p = effective_policy ps base rcp; xs = applicable_rules p rcp now;
            own = filter (\<lambda>x. personal_rule p (snd x)) xs
         in xs = own @ filter (\<lambda>x. \<not> personal_rule p (snd x)) xs
            \<and> rs_stopped_by (run_rules env (start_state cat act) own) = None"
proof -
  let ?p = "effective_policy ps base rcp"
  let ?xs = "applicable_rules ?p rcp now"
  have "?xs = filter (\<lambda>x. personal_rule ?p (snd x)) ?xs @ filter (\<lambda>x. \<not> personal_rule ?p (snd x)) ?xs"
    by (rule sorted_partition) (rule effective_personal_first [OF assms])
  moreover have "snd x \<in> set (cu_rules ?p)" if "x \<in> set ?xs" for x
    using that applicable_rules_valid [of "fst x" "snd x" ?p rcp now] by simp
  then have "list_all (\<lambda>x. \<not> ru_stop (snd x)) (filter (\<lambda>x. personal_rule ?p (snd x)) ?xs)"
    using effective_personal_no_stop [OF assms(1)] by (fastforce simp: list_all_iff)
  then have "rs_stopped_by (run_rules env (start_state cat act) (filter (\<lambda>x. personal_rule ?p (snd x)) ?xs)) = None"
    by (intro run_rules_not_stopped) simp_all
  ultimately show ?thesis by (simp add: Let_def)
qed

theorem administrator_rules_authoritative_witness:
  "let p = effective_policy sample_settings sample_policy sample_recipient;
       xs = applicable_rules p sample_recipient 0; own = filter (\<lambda>x. personal_rule p (snd x)) xs
   in xs = own @ filter (\<lambda>x. \<not> personal_rule p (snd x)) xs
      \<and> rs_stopped_by (run_rules sample_env (start_state Spam Tag) own) = None"
proof (rule administrator_rules_authoritative)
  show "cu_origin_rules sample_policy = []" by (simp add: sample_policy_def)
  show "length (cu_rules (effective_policy sample_settings sample_policy sample_recipient)) < 65536"
    by code_simp
qed

text \<open>
  validated personal settings stay within the administrator's limits. A personal profile
  keeps corroboration required and its threshold between the configured bounds, themselves
  within 50 and 100; its actions are allowed ones; a personal rule applies to its own scope,
  never stops the evaluation and asks only for allowed actions.
\<close>

theorem personal_settings_bounded:
  assumes "preference_validate tx ps cfg = Inr ()" and "(scope, p) \<in> set (ps_mailboxes ps)"
  shows "(\<forall>f t. pref_profile p = Some f \<longrightarrow> pf_require_corroboration f
        \<and> (pf_threshold f = Some t \<longrightarrow> f64_within (ps_minimum_threshold ps) (ps_maximum_threshold ps) t
             \<and> f64_within (Fin 50) (Fin 100) t)
        \<and> {pf_spam f, pf_publicity f, pf_review f} \<subseteq> set (ps_allowed_actions ps))
    \<and> (\<forall>r \<in> set (pref_rules p). ru_scope r = scope \<and> \<not> ru_stop r
        \<and> (\<forall>a. ru_action r = Some a \<longrightarrow> a \<in> set (ps_allowed_actions ps)))"
proof -
  from assms(1) have bounds: "f64_le (Fin 50) (ps_minimum_threshold ps)" "f64_le (ps_maximum_threshold ps) (Fin 100)"
    and all: "\<forall>x \<in> set (ps_mailboxes ps). validate_mailbox tx ps cfg x = Inr ()"
    by (auto simp: preference_validate_def check_all_iff)
  from all assms(2) have m: "validate_mailbox tx ps cfg (scope, p) = Inr ()" by blast
  then have rules: "\<forall>r \<in> set (pref_rules p). validate_personal_rule ps scope r = Inr ()"
    and prof: "\<forall>f. pref_profile p = Some f \<longrightarrow> validate_personal_profile ps f = Inr ()"
    by (auto simp: validate_mailbox_def check_all_iff)
  have within: "f64_within (Fin 50) (Fin 100) t"
    if "f64_within (ps_minimum_threshold ps) (ps_maximum_threshold ps) t" for t
    using that bounds f64_le_trans by (auto simp: f64_within_def)
  show ?thesis
    using rules prof within by (auto simp: validate_personal_rule_def validate_personal_profile_def)
qed

theorem personal_settings_bounded_witness:
  "\<exists>p \<in> snd ` set (ps_mailboxes sample_settings). \<forall>r \<in> set (pref_rules p). \<not> ru_stop r"
proof -
  let ?cfg = "sample_config\<lparr>cfg_domains := [\<lparr>dom_name = ''ex.org'', dom_next_hops = [], dom_accept_all_recipients = True,
    dom_recipients = [], dom_aliases = []\<rparr>]\<rparr>"
  have v: "preference_validate ascii_text sample_settings ?cfg = Inr ()" by code_simp
  obtain scope p where m: "(scope, p) \<in> set (ps_mailboxes sample_settings)"
    by (simp add: sample_settings_def)
  from personal_settings_bounded [OF v m] m show ?thesis by (metis image_eqI snd_conv)
qed

text \<open>
  delegated edits stay within the grants. Without administrator rights a scope may be
  edited only if it is granted by name or is an address of a granted domain, and the global
  scope never.
\<close>

theorem permitted_within_grants:
  assumes "permitted scope False grants"
  shows "scope \<noteq> ''*'' \<and> (scope \<in> set grants
    \<or> (\<exists>l d. scope = l @ ''@'' @ d \<and> (''*@'' @ d) \<in> set grants))"
proof -
  from assms obtain g where g: "g \<in> set grants" and cases: "g = scope
      \<or> is_some_and (strip_prefix ''*@'' g) (\<lambda>d. is_some_and (rsplit_once (CHR ''@'') scope) (\<lambda>x. snd x = d))"
    and star: "scope \<noteq> ''*''"
    by (auto simp: permitted_def list_ex_iff)
  show ?thesis
  proof (cases "g = scope")
    case False
    with cases obtain l d where "strip_prefix ''*@'' g = Some d" "rsplit_once (CHR ''@'') scope = Some (l, d)"
      by (auto simp: is_some_and_iff)
    then have "g = ''*@'' @ d" "scope = l @ ''@'' @ d"
      using rsplit_once_Some [of "CHR ''@''" scope l d] by (auto simp: strip_prefix_Some_iff)
    with g star show ?thesis by blast
  qed (use g star in simp)
qed

theorem permitted_within_grants_witness:
  "''a@ex.org'' \<noteq> ''*'' \<and> (''a@ex.org'' \<in> set [''*@ex.org'']
    \<or> (\<exists>l d. ''a@ex.org'' = l @ ''@'' @ d \<and> (''*@'' @ d) \<in> set [''*@ex.org'']))"
proof (rule permitted_within_grants)
  show "permitted ''a@ex.org'' False [''*@ex.org'']" by code_simp
qed

end
