(* ===== verification/NF_Capacity.thy ===== *)
theory NF_Capacity
  imports NF_Prelude
begin

text \<open>
  The shared admission counter (\<open>src/capacity.rs\<close>). \<open>usize\<close> is 64 bits. The operations are
  modelled twice: as the functions one caller sees, and as the atomic steps of concurrent
  callers (load, limit check, compare-exchange, release, change of the limit), whose
  interleavings are an inductive relation. The lemmas show that permits are never lost,
  duplicated or issued above the largest limit in force, and that an undisturbed caller
  obtains a free permit.
\<close>

record capacity =
  cap_active :: u64
  cap_limit :: u64

definition capacity_new :: "u64 \<Rightarrow> capacity" where
  "capacity_new limit = \<lparr>cap_active = 0, cap_limit = limit\<rparr>"

definition set_limit :: "u64 \<Rightarrow> capacity \<Rightarrow> capacity" where
  "set_limit limit c = c\<lparr>cap_limit := limit\<rparr>"

text \<open>\<open>AtomicUsize::compare_exchange\<close>: the current value on failure.\<close>

definition compare_exchange :: "u64 \<Rightarrow> u64 \<Rightarrow> capacity \<Rightarrow> (u64 + u64) \<times> capacity" where
  "compare_exchange current new c =
     (if cap_active c = current then (Inr current, c\<lparr>cap_active := new\<rparr>)
      else (Inl (cap_active c), c))"

text \<open>One caller alone: the first exchange succeeds, so the loop body runs once.\<close>

definition try_acquire :: "capacity \<Rightarrow> capacity option" where
  "try_acquire c =
     (let active = cap_active c in
      if active \<ge> cap_limit c then None
      else (case compare_exchange active (active + 1) c of
          (Inr _, c') \<Rightarrow> Some c'
        | (Inl _, _) \<Rightarrow> None))"

definition permit_drop :: "capacity \<Rightarrow> capacity" where
  "permit_drop c = c\<lparr>cap_active := cap_active c - 1\<rparr>"

definition available_permits :: "capacity \<Rightarrow> u64" where
  "available_permits c = (if cap_limit c \<ge> cap_active c then cap_limit c - cap_active c else 0)"

section \<open>Concurrent callers\<close>

text \<open>
  Where a caller stands: outside, after a load of the counter, after a limit check that
  passed, or holding a permit.
\<close>

datatype caller = Outside | Loaded u64 | Checked u64 | Holding

type_synonym system = "capacity \<times> caller list"

inductive cap_step :: "system \<Rightarrow> system \<Rightarrow> bool" where
  load: "i < length ws \<Longrightarrow> ws ! i = Outside \<Longrightarrow>
     cap_step (c, ws) (c, ws[i := Loaded (cap_active c)])"
| refuse: "i < length ws \<Longrightarrow> ws ! i = Loaded a \<Longrightarrow> a \<ge> cap_limit c \<Longrightarrow>
     cap_step (c, ws) (c, ws[i := Outside])"
| admit: "i < length ws \<Longrightarrow> ws ! i = Loaded a \<Longrightarrow> a < cap_limit c \<Longrightarrow>
     cap_step (c, ws) (c, ws[i := Checked a])"
| exchange: "i < length ws \<Longrightarrow> ws ! i = Checked a \<Longrightarrow> compare_exchange a (a + 1) c = (Inr x, c') \<Longrightarrow>
     cap_step (c, ws) (c', ws[i := Holding])"
| retry: "i < length ws \<Longrightarrow> ws ! i = Checked a \<Longrightarrow> compare_exchange a (a + 1) c = (Inl x, c') \<Longrightarrow>
     cap_step (c, ws) (c', ws[i := Loaded x])"
| release: "i < length ws \<Longrightarrow> ws ! i = Holding \<Longrightarrow>
     cap_step (c, ws) (permit_drop c, ws[i := Outside])"
| relimit: "cap_step (c, ws) (set_limit n c, ws)"

inductive_cases cap_stepE: "cap_step s t"

text \<open>Reachable systems in which every limit ever in force is at most \<open>L\<close>.\<close>

inductive reachable :: "u64 \<Rightarrow> system \<Rightarrow> bool" for L where
  start: "limit \<le> L \<Longrightarrow> reachable L (capacity_new limit, replicate n Outside)"
| step: "reachable L s \<Longrightarrow> cap_step s t \<Longrightarrow> cap_limit (fst t) \<le> L \<Longrightarrow> reachable L t"

definition holders :: "caller list \<Rightarrow> nat" where
  "holders ws = length (filter (\<lambda>w. w = Holding) ws)"

section \<open>Lemmas\<close>

lemma compare_exchange_cases [simp]:
  "compare_exchange a b c = (Inr x, c') \<longleftrightarrow> cap_active c = a \<and> x = a \<and> c' = c\<lparr>cap_active := b\<rparr>"
  "compare_exchange a b c = (Inl x, c') \<longleftrightarrow> cap_active c \<noteq> a \<and> x = cap_active c \<and> c' = c"
  by (auto simp: compare_exchange_def)

lemma holders_update:
  "i < length ws \<Longrightarrow> holders (ws[i := w]) + (if ws ! i = Holding then 1 else 0)
     = holders ws + (if w = Holding then 1 else 0)"
proof (induction ws arbitrary: i)
  case (Cons x ws)
  show ?case
  proof (cases i)
    case 0
    then show ?thesis by (simp add: holders_def)
  next
    case (Suc j)
    with Cons.IH [of j] Cons.prems show ?thesis
      by (cases "w = Holding"; cases "ws ! j = Holding") (simp_all add: holders_def)
  qed
qed simp

lemma holders_pos: "i < length ws \<Longrightarrow> ws ! i = Holding \<Longrightarrow> 0 < holders ws"
  by (auto simp: holders_def filter_empty_conv in_set_conv_nth)

lemma unat_plus_one_less: "(a::u64) < b \<Longrightarrow> unat (a + 1) = Suc (unat a) \<and> a + 1 \<le> b"
proof -
  assume less: "a < b"
  then have "a + 1 \<noteq> 0"
    by (metis add.commute add_diff_cancel_left' diff_0 less_le word_n1_ge not_le order_refl)
  then have u: "unat (a + 1) = Suc (unat a)" by (simp add: unatSuc add.commute)
  with less show ?thesis by (simp add: word_less_nat_alt word_le_nat_alt)
qed

text \<open>The counter is the number of permits, and stays below the largest limit.\<close>

definition cap_inv :: "u64 \<Rightarrow> system \<Rightarrow> bool" where
  "cap_inv L s \<longleftrightarrow> unat (cap_active (fst s)) = holders (snd s) \<and> cap_active (fst s) \<le> L
     \<and> cap_limit (fst s) \<le> L \<and> (\<forall>a. Checked a \<in> set (snd s) \<longrightarrow> a < L)"

lemma set_update_other: "w' \<in> set (ws[i := w]) \<Longrightarrow> w' \<noteq> w \<Longrightarrow> w' \<in> set ws"
  using set_update_subset_insert by fastforce

lemma cap_step_inv:
  assumes "cap_inv L s" and "cap_step s t" and "cap_limit (fst t) \<le> L"
  shows "cap_inv L t"
  using assms(2)
proof cases
  case (load i ws c)
  with assms(1) holders_update [OF load(3), of "Loaded (cap_active c)"] show ?thesis
    by (auto simp: cap_inv_def dest: set_update_other)
next
  case (refuse i ws a c)
  with assms(1) holders_update [OF refuse(3), of Outside] show ?thesis
    by (auto simp: cap_inv_def dest: set_update_other)
next
  case (admit i ws a c)
  moreover have "a' < L" if "Checked a' \<in> set (ws[i := Checked a])" for a'
    using that admit assms(1) set_update_other [OF that]
    by (cases "a' = a") (auto simp: cap_inv_def)
  ultimately show ?thesis
    using assms(1) holders_update [OF admit(3), of "Checked a"] by (auto simp: cap_inv_def)
next
  case (exchange i ws a c x c')
  then have "a < L" using assms(1) by (auto simp: cap_inv_def dest: nth_mem)
  with exchange assms(1) holders_update [OF exchange(3), of Holding] unat_plus_one_less [of a L] show ?thesis
    by (auto simp: cap_inv_def dest: set_update_other)
next
  case (retry i ws a c x c')
  with assms(1) holders_update [OF retry(3), of "Loaded x"] show ?thesis
    by (auto simp: cap_inv_def dest: set_update_other)
next
  case (release i ws c)
  have pos: "0 < unat (cap_active c)"
    using release assms(1) holders_pos [OF release(3,4)] by (simp add: cap_inv_def)
  then have ne: "cap_active c \<noteq> 0" by auto
  then have dec: "unat (cap_active c - 1) = unat (cap_active c) - 1"
    by (simp add: unat_minus_one)
  then have "cap_active c - 1 \<le> cap_active c" by (simp add: word_le_nat_alt)
  with dec pos release assms(1) holders_update [OF release(3), of Outside] show ?thesis
    by (auto simp: cap_inv_def permit_drop_def dest: set_update_other intro: order_trans)
next
  case (relimit c ws n)
  with assms show ?thesis by (simp add: cap_inv_def set_limit_def)
qed

lemma reachable_inv: "reachable L s \<Longrightarrow> cap_inv L s"
proof (induction rule: reachable.induct)
  case (start limit n)
  then show ?case by (simp add: cap_inv_def capacity_new_def holders_def)
next
  case (step s t)
  then show ?case using cap_step_inv by blast
qed

section \<open>Permits as a resource\<close>

text \<open>
  What a client of the counter relies on: a permit is counted while it is held, is refused
  at the limit, and giving it back restores the counter.
\<close>

locale permits =
  fixes acquire :: "'s \<Rightarrow> 's option" and release :: "'s \<Rightarrow> 's"
    and used :: "'s \<Rightarrow> nat" and bound :: "'s \<Rightarrow> nat"
  assumes acquire_used: "acquire s = Some t \<Longrightarrow> used t = Suc (used s) \<and> bound t = bound s"
    and acquire_free: "acquire s \<noteq> None \<longleftrightarrow> used s < bound s"
    and release_acquire: "acquire s = Some t \<Longrightarrow> release t = s"
begin

text \<open>Work done under a permit leaves the resource as it found it.\<close>

definition with_permit :: "('s \<Rightarrow> 'a) \<Rightarrow> 'a \<Rightarrow> 's \<Rightarrow> 'a \<times> 's" where
  "with_permit work refused s = (case acquire s of None \<Rightarrow> (refused, s) | Some t \<Rightarrow> (work t, release t))"

lemma with_permit_restores: "snd (with_permit work refused s) = s"
  by (auto simp: with_permit_def release_acquire split: option.split)

lemma with_permit_bounded: "used s \<le> bound s \<Longrightarrow> acquire s = Some t \<Longrightarrow> used t \<le> bound t"
  using acquire_free [of s] acquire_used [of s t] by auto

fun acquire_many :: "nat \<Rightarrow> 's \<Rightarrow> 's option" where
  "acquire_many 0 s = Some s"
| "acquire_many (Suc n) s = (case acquire s of None \<Rightarrow> None | Some t \<Rightarrow> acquire_many n t)"

lemma acquire_many_bound:
  "used s \<le> bound s \<Longrightarrow> acquire_many n s \<noteq> None \<longleftrightarrow> used s + n \<le> bound s"
proof (induction n arbitrary: s)
  case (Suc n)
  show ?case
  proof (cases "acquire s")
    case None
    then show ?thesis using acquire_free [of s] by auto
  next
    case (Some t)
    then show ?thesis
      using Suc acquire_used [OF Some] with_permit_bounded [OF Suc.prems Some] by auto
  qed
qed simp

end

lemma try_acquire_Some:
  "try_acquire c = Some d \<longleftrightarrow> cap_active c < cap_limit c \<and> d = c\<lparr>cap_active := cap_active c + 1\<rparr>"
  by (auto simp: try_acquire_def Let_def compare_exchange_def not_le)

interpretation slots: permits try_acquire permit_drop "\<lambda>c. unat (cap_active c)" "\<lambda>c. unat (cap_limit c)"
proof
  fix c d
  show "try_acquire c = Some d \<Longrightarrow> unat (cap_active d) = Suc (unat (cap_active c)) \<and> unat (cap_limit d) = unat (cap_limit c)"
    using unat_plus_one_less [of "cap_active c" "cap_limit c"] by (auto simp: try_acquire_Some)
  show "try_acquire c \<noteq> None \<longleftrightarrow> unat (cap_active c) < unat (cap_limit c)"
    using try_acquire_Some [of c] by (auto simp: word_less_nat_alt)
  show "try_acquire c = Some d \<Longrightarrow> permit_drop d = c"
    by (auto simp: try_acquire_Some permit_drop_def)
qed

section \<open>Properties\<close>

text \<open>
  permits are counted exactly and never over-issued. Under every interleaving of loads,
  checks, exchanges, retries, releases and limit changes, the counter equals the number of
  permits held and never exceeds the largest limit in force so far.
\<close>

theorem permits_never_exceed_limit:
  assumes "reachable L (c, callers)"
  shows "unat (cap_active c) = holders callers \<and> cap_active c \<le> L"
  using reachable_inv [OF assms] by (simp add: cap_inv_def)

theorem permits_never_exceed_limit_witness:
  "unat (cap_active \<lparr>cap_active = 1, cap_limit = 1\<rparr>) = holders [Holding, Outside]"
proof -
  have r0: "reachable 1 (capacity_new 1, replicate 2 Outside)" by (rule reachable.start) simp
  have "cap_step (capacity_new 1, [Outside, Outside]) (capacity_new 1, [Outside, Outside][0 := Loaded (cap_active (capacity_new 1))])"
    by (rule cap_step.load) simp_all
  then have r1: "reachable 1 (capacity_new 1, [Loaded 0, Outside])"
    using reachable.step [OF r0] by (simp add: capacity_new_def numeral_2_eq_2)
  have "cap_step (capacity_new 1, [Loaded 0, Outside]) (capacity_new 1, [Loaded 0, Outside][0 := Checked 0])"
    by (rule cap_step.admit) (simp_all add: capacity_new_def)
  then have r2: "reachable 1 (capacity_new 1, [Checked 0, Outside])"
    using reachable.step [OF r1] by (simp add: capacity_new_def)
  have "cap_step (capacity_new 1, [Checked 0, Outside]) (\<lparr>cap_active = 1, cap_limit = 1\<rparr>, [Checked 0, Outside][0 := Holding])"
    by (rule cap_step.exchange) (simp_all add: capacity_new_def)
  then have "reachable 1 (\<lparr>cap_active = 1, cap_limit = 1\<rparr>, [Holding, Outside])"
    using reachable.step [OF r2] by simp
  from permits_never_exceed_limit [OF this] show ?thesis by blast
qed

text \<open>
  a free permit can be obtained. From any system in which a caller is outside and fewer
  permits are held than the limit allows, three steps of that caller alone end with it
  holding a permit, and the counter is the one \<open>try_acquire\<close> computes.
\<close>

theorem undisturbed_caller_acquires:
  assumes "i < length ws" and "ws ! i = Outside" and "cap_active c < cap_limit c"
  shows "\<exists>d u v. cap_step (c, ws) u \<and> cap_step u v \<and> cap_step v (d, ws[i := Holding]) \<and> try_acquire c = Some d"
proof -
  let ?u = "(c, ws[i := Loaded (cap_active c)])" and ?v = "(c, ws[i := Checked (cap_active c)])"
  let ?d = "c\<lparr>cap_active := cap_active c + 1\<rparr>"
  have "cap_step (c, ws) ?u" using assms by (intro cap_step.load)
  moreover have "cap_step ?u ?v"
    using cap_step.admit [of i "ws[i := Loaded (cap_active c)]" "cap_active c" c] assms by simp
  moreover have "cap_step ?v (?d, ws[i := Holding])"
    using cap_step.exchange [of i "ws[i := Checked (cap_active c)]" "cap_active c" c "cap_active c" ?d] assms
    by simp
  ultimately show ?thesis using assms(3) try_acquire_Some [of c ?d] by blast
qed

theorem undisturbed_caller_acquires_witness:
  "\<exists>d. try_acquire (capacity_new 1) = Some d"
  using undisturbed_caller_acquires [of 0 "[Outside]" "capacity_new 1"] by (auto simp: capacity_new_def)

text \<open>
  exactly the free permits can be taken one after another: starting from a counter within
  its limit, \<open>n\<close> acquisitions succeed if and only if \<open>n\<close> permits are free.
\<close>

theorem acquisitions_up_to_limit:
  assumes "cap_active c \<le> cap_limit c"
  shows "slots.acquire_many n c \<noteq> None \<longleftrightarrow> n \<le> unat (available_permits c)"
proof -
  have le: "unat (cap_active c) \<le> unat (cap_limit c)" using assms by (simp add: word_le_nat_alt)
  have "unat (available_permits c) = unat (cap_limit c) - unat (cap_active c)"
    using assms by (simp add: available_permits_def unat_sub)
  with slots.acquire_many_bound [OF le, of n] le show ?thesis by auto
qed

theorem acquisitions_up_to_limit_witness:
  "slots.acquire_many 3 (capacity_new 3) \<noteq> None"
  by (subst acquisitions_up_to_limit) (simp_all add: capacity_new_def available_permits_def)

end
