(* ===== verification/NF_SmtpPolicy.thy ===== *)
theory NF_SmtpPolicy
  imports NF_Assessment NF_Capacity
begin

text \<open>
  Weighted SMTP identity checks (\<open>src/smtp_policy.rs\<close>): the bounded DNS cache, the HELO,
  reverse-DNS and sender checks as functions of DNS answers, and the combination of the
  three under a permit of the shared capacity. The resolver is an argument, as the source
  abstracts it by the trait \<open>Resolver\<close>; times are nanoseconds of the monotonic clock, each
  reading an argument; the textual form of an IPv6 address is parsed by the argument \<open>v6\<close>;
  the addition of the three weights is the rounding operation of \<open>float_ops\<close>.
\<close>

section \<open>Configuration and results\<close>

record smtp_policy_config =
  sp_contribute_to_score :: bool
  sp_timeout_ms :: nat
  sp_max_parallel :: nat
  sp_cache_entries :: nat
  sp_cache_ttl_seconds :: nat

definition smtp_policy_default :: smtp_policy_config where
  "smtp_policy_default = \<lparr>sp_contribute_to_score = False, sp_timeout_ms = 800, sp_max_parallel = 8,
     sp_cache_entries = 4096, sp_cache_ttl_seconds = 300\<rparr>"

definition smtp_policy_validate :: "smtp_policy_config \<Rightarrow> unit result" where
  "smtp_policy_validate c =
     and_then (ensure (10 \<le> sp_timeout_ms c \<and> sp_timeout_ms c \<le> 2000)
         ''SMTP policy timeout must be 10..2000 ms'') (\<lambda>_.
     and_then (ensure (1 \<le> sp_max_parallel c \<and> sp_max_parallel c \<le> 64)
         ''SMTP policy concurrency must be 1..64'') (\<lambda>_.
     and_then (ensure (1 \<le> sp_cache_entries c \<and> sp_cache_entries c \<le> 16384)
         ''SMTP policy cache must be 1..16384 entries'') (\<lambda>_.
     ensure (1 \<le> sp_cache_ttl_seconds c \<and> sp_cache_ttl_seconds c \<le> 3600)
         ''SMTP policy cache TTL must be 1..3600 seconds'')))"

datatype policy_status = Po_Disabled | Po_Complete | Po_Unavailable | Po_Busy

datatype check_kind = Ck_Helo | Ck_Ptr | Ck_Sender

record policy_result =
  por_status :: policy_status
  por_candidate_weight :: f64
  por_applied_weight :: f64
  por_scoring_enabled :: bool
  por_checks :: "signal list"
  por_timeouts :: "check_kind list"

definition policy_result_default :: policy_result where
  "policy_result_default = \<lparr>por_status = Po_Disabled, por_candidate_weight = Fin 0,
     por_applied_weight = Fin 0, por_scoring_enabled = False, por_checks = [], por_timeouts = []\<rparr>"

definition CONTRIBUTION_DETAIL :: string where
  "CONTRIBUTION_DETAIL = ''SMTP/DNS consistency: capped contribution (smtp-policy-2)''"

definition UNAVAILABLE_DETAIL :: string where
  "UNAVAILABLE_DETAIL = ''SMTP/DNS checks incomplete; no contribution, deliver without prefix''"

definition policy_result_apply :: "policy_result \<Rightarrow> scan \<Rightarrow> scan" where
  "policy_result_apply r s =
     (let s1 = s\<lparr>scan_reasons := scan_reasons s
                 @ map (\<lambda>g. g\<lparr>sig_weight := Fin 0\<rparr>) (por_checks r)\<rparr>
      in if por_status r = Po_Complete then
           s1\<lparr>scan_reasons := scan_reasons s1 @ [\<lparr>sig_id = ''smtp_policy_contribution'',
               sig_detail = CONTRIBUTION_DETAIL, sig_weight = por_applied_weight r\<rparr>]\<rparr>
         else if por_status r \<noteq> Po_Disabled then
           push_reason ''smtp_policy_unavailable'' UNAVAILABLE_DETAIL (s1\<lparr>scan_complete := False\<rparr>)
         else s1)"

section \<open>Addresses and names\<close>

type_synonym ipv6 = "128 word"

datatype ip_addr = V4 ipv4 | V6 ipv6

text \<open>\<open>IpAddr::to_canonical\<close>: an IPv4-mapped IPv6 address is the IPv4 address.\<close>

definition to_canonical :: "ip_addr \<Rightarrow> ip_addr" where
  "to_canonical a =
     (case a of
        V4 x \<Rightarrow> V4 x
      | V6 w \<Rightarrow> if unat w div 2 ^ 32 = 65535
          then V4 (of_nat (unat w div 2 ^ 24), of_nat (unat w div 2 ^ 16), of_nat (unat w div 2 ^ 8),
                   of_nat (unat w))
          else V6 w)"

text \<open>\<open>Ipv4Addr::from_str\<close>: four decimal octets without leading zeros.\<close>

definition parse_octet :: "string \<Rightarrow> u8 option" where
  "parse_octet s =
     (if s = [] \<or> length s > 3 \<or> (length s > 1 \<and> hd s = CHR ''0'') then None
      else (case parse_digits 0 s of
          None \<Rightarrow> None | Some n \<Rightarrow> if n < 256 then Some (of_nat n) else None))"

definition parse_ipv4 :: "string \<Rightarrow> ipv4 option" where
  "parse_ipv4 s =
     (case map parse_octet (split_char (CHR ''.'') s) of
        [Some a, Some b, Some c, Some d] \<Rightarrow> Some (a, b, c, d)
      | _ \<Rightarrow> None)"

definition parse_ip :: "(string \<Rightarrow> ipv6 option) \<Rightarrow> string \<Rightarrow> ip_addr option" where
  "parse_ip v6 s = (case parse_ipv4 s of Some a \<Rightarrow> Some (V4 a) | None \<Rightarrow> map_option V6 (v6 s))"

definition host :: "(string \<Rightarrow> ipv6 option) \<Rightarrow> string \<Rightarrow> string option" where
  "host v6 name0 =
     (let name = strip_root_dot name0 in
      if valid_domain name \<and> CHR ''.'' \<in> set name \<and> parse_ip v6 name = None
      then Some (to_ascii_lowercase name) else None)"

definition literal :: "(string \<Rightarrow> ipv6 option) \<Rightarrow> string \<Rightarrow> ip_addr option" where
  "literal v6 name0 =
     (case Option.bind (strip_prefix ''['' name0) (strip_suffix '']'') of
        None \<Rightarrow> None
      | Some name \<Rightarrow>
          if length name \<ge> 5 \<and> eq_ignore_ascii_case (take 5 name) ''IPv6:''
          then map_option V6 (v6 (drop 5 name))
          else map_option V4 (parse_ipv4 name))"

section \<open>The DNS cache\<close>

datatype query = Q_A string | Q_Aaaa string | Q_Ptr ip_addr | Q_Mx string

datatype dns_record = R_Ip ip_addr | R_Host string | R_Mx u16 string

type_synonym lookup_result = "unit + dns_record list"

record answer =
  an_records :: lookup_result
  an_ttl :: nat

definition answer_unavailable :: answer where
  "answer_unavailable = \<lparr>an_records = Inl (), an_ttl = 1000000000\<rparr>"

definition MAX_RECORDS :: nat where "MAX_RECORDS = 32"
definition MAX_PTR :: nat where "MAX_PTR = 4"

text \<open>
  The system resolver (\<open>SystemDns\<close>): of the answers that the DNS library returns those of the
  asked type are kept, an oversized answer is unavailable, and an authenticated absence is an
  empty answer with its negative lifetime. The library's response is the argument \<open>outcome\<close>:
  the resource data with the instant until which it is valid, an authenticated absence
  (\<open>NoError\<close> or \<open>NXDomain\<close>) with its negative lifetime in seconds, or any other error.
\<close>

datatype rdata = RD_A ipv4 | RD_AAAA ipv6 | RD_PTR string | RD_MX u16 string | RD_Other

datatype dns_outcome = Found "rdata list" nat | NoRecords "nat option" | Failed

fun record_of :: "query \<Rightarrow> rdata \<Rightarrow> dns_record option" where
  "record_of (Q_A _) (RD_A ip) = Some (R_Ip (V4 ip))"
| "record_of (Q_Aaaa _) (RD_AAAA ip) = Some (R_Ip (V6 ip))"
| "record_of (Q_Ptr _) (RD_PTR h) = Some (R_Host (to_ascii_lowercase h))"
| "record_of (Q_Mx _) (RD_MX preference h) = Some (R_Mx preference (to_ascii_lowercase h))"
| "record_of _ _ = None"

definition system_lookup :: "nat \<Rightarrow> query \<Rightarrow> dns_outcome \<Rightarrow> answer" where
  "system_lookup now q outcome =
     (case outcome of
        Found answers valid_until \<Rightarrow>
          (let records = take (MAX_RECORDS + 1) (List.map_filter (record_of q) answers) in
           if length records > MAX_RECORDS then answer_unavailable
           else \<lparr>an_records = Inr records, an_ttl = valid_until - now\<rparr>)
      | NoRecords negative \<Rightarrow> \<lparr>an_records = Inr [], an_ttl = unwrap_or negative 0 * 1000000000\<rparr>
      | Failed \<Rightarrow> answer_unavailable)"

type_synonym dns_cache = "(query \<times> nat \<times> answer) list"

text \<open>
  A lookup holds the cache's lock twice, and other lookups may run while the resolver is
  asked: \<open>cache_probe\<close> is the first critical section at the clock reading \<open>t0\<close>,
  \<open>cache_store\<close> the second, with \<open>t1\<close> the clock when expired entries are dropped and \<open>t2\<close>
  when the new entry is stored. \<open>lookup\<close> is the undisturbed composition.
\<close>

definition cache_probe :: "nat \<Rightarrow> query \<Rightarrow> dns_cache \<Rightarrow> lookup_result option" where
  "cache_probe t0 q cache =
     (case map_of cache q of
        Some (expires, ans) \<Rightarrow> if expires > t0 then Some (an_records ans) else None
      | None \<Rightarrow> None)"

definition evict :: "nat \<Rightarrow> nat \<Rightarrow> dns_cache \<Rightarrow> dns_cache" where
  "evict entries t1 cache =
     (if length cache \<ge> entries
      then (let kept = filter (\<lambda>(_, expires, _). expires > t1) cache
            in if length kept \<ge> entries then [] else kept)
      else cache)"

definition cache_insert :: "query \<Rightarrow> nat \<times> answer \<Rightarrow> dns_cache \<Rightarrow> dns_cache" where
  "cache_insert q v cache = (q, v) # filter (\<lambda>e. fst e \<noteq> q) cache"

definition entry_ttl :: "smtp_policy_config \<Rightarrow> answer \<Rightarrow> nat" where
  "entry_ttl cfg ans = min (an_ttl ans) (sp_cache_ttl_seconds cfg * 1000000000)"

definition cache_store ::
    "smtp_policy_config \<Rightarrow> nat \<Rightarrow> nat \<Rightarrow> query \<Rightarrow> answer \<Rightarrow> dns_cache \<Rightarrow> dns_cache" where
  "cache_store cfg t1 t2 q ans cache =
     (let cache1 = evict (sp_cache_entries cfg) t1 cache
      in if entry_ttl cfg ans = 0 then cache1
         else cache_insert q (t2 + entry_ttl cfg ans, ans) cache1)"

definition lookup ::
    "smtp_policy_config \<Rightarrow> (query \<Rightarrow> answer) \<Rightarrow> nat \<Rightarrow> nat \<Rightarrow> nat \<Rightarrow> query \<Rightarrow> dns_cache \<Rightarrow>
     lookup_result \<times> dns_cache" where
  "lookup cfg resolver t0 t1 t2 q cache =
     (case cache_probe t0 q cache of
        Some records \<Rightarrow> (records, cache)
      | None \<Rightarrow> (an_records (resolver q), cache_store cfg t1 t2 q (resolver q) cache))"

section \<open>The checks\<close>

text \<open>The answers a check receives: \<open>look\<close> is the result of the lookup of each query.\<close>

definition policy_signal :: "string \<Rightarrow> string \<Rightarrow> f64 \<Rightarrow> signal" where
  "policy_signal i d w = \<lparr>sig_id = i, sig_detail = d, sig_weight = w\<rparr>"

fun is_ipv4 :: "ip_addr \<Rightarrow> bool" where
  "is_ipv4 (V4 _) = True"
| "is_ipv4 (V6 _) = False"

definition peer_addresses :: "(query \<Rightarrow> lookup_result) \<Rightarrow> string \<Rightarrow> ip_addr \<Rightarrow> lookup_result" where
  "peer_addresses look name peer = look (if is_ipv4 peer then Q_A name else Q_Aaaa name)"

text \<open>\<open>has_address\<close> takes whichever answer arrives first; \<open>first\<close> and \<open>second\<close> are in that order.\<close>

definition positive :: "lookup_result \<Rightarrow> bool" where
  "positive r = (case r of Inr rs \<Rightarrow> rs \<noteq> [] | Inl _ \<Rightarrow> False)"

definition address_pair :: "lookup_result \<Rightarrow> lookup_result \<Rightarrow> unit + bool" where
  "address_pair first second =
     (if positive first then Inr True
      else if positive second then Inr True
      else and_then first (\<lambda>_. and_then second (\<lambda>_. Inr False)))"

definition has_address :: "(query \<Rightarrow> lookup_result) \<Rightarrow> bool \<Rightarrow> string \<Rightarrow> unit + bool" where
  "has_address look a_first name =
     (if a_first then address_pair (look (Q_A name)) (look (Q_Aaaa name))
      else address_pair (look (Q_Aaaa name)) (look (Q_A name)))"

definition trim_dots :: "string \<Rightarrow> string" where
  "trim_dots s = rev (dropWhile (\<lambda>c. c = CHR ''.'') (rev s))"

definition helo_check ::
    "(string \<Rightarrow> ipv6 option) \<Rightarrow> (query \<Rightarrow> lookup_result) \<Rightarrow> bool \<Rightarrow> ip_addr \<Rightarrow> string \<Rightarrow> string \<Rightarrow> unit + signal" where
  "helo_check v6 look a_first ip helo hostname =
     (case literal v6 helo of
        Some lit \<Rightarrow> Inr (if to_canonical lit = ip
          then policy_signal ''helo_literal_match'' ''HELO IP literal matches the connection'' (Fin 0)
          else policy_signal ''helo_literal_mismatch'' ''HELO IP literal differs from the connection'' (Fin (1/2)))
      | None \<Rightarrow>
         (case host v6 helo of
            None \<Rightarrow> Inr (policy_signal ''helo_invalid''
              ''HELO is not fully qualified or has unusual syntax'' (Fin (1/2)))
          | Some name \<Rightarrow>
              if name = trim_dots (to_ascii_lowercase hostname) then
                Inr (policy_signal ''helo_local_identity''
                  (''HELO claims this gateway'' @ [CHR 0xE2, CHR 0x80, CHR 0x99] @ ''s identity'') (Fin (3/4)))
              else and_then (peer_addresses look name ip) (\<lambda>addresses.
                if R_Ip ip \<in> set addresses then
                  Inr (policy_signal ''helo_verified''
                    ''HELO DNS resolution matches the connecting IP'' (Fin (-3/20)))
                else if addresses = [] then
                  and_then (has_address look a_first name) (\<lambda>found. Inr
                    (if \<not> found
                     then policy_signal ''helo_no_address'' ''HELO has no A/AAAA address'' (Fin (1/2))
                     else policy_signal ''helo_address_mismatch''
                            ''HELO DNS resolution differs from the connecting IP'' (Fin (1/4))))
                else Inr (policy_signal ''helo_address_mismatch''
                       ''HELO DNS resolution differs from the connecting IP'' (Fin (1/4))))))"

text \<open>The names of a PTR answer: the loop's \<open>unknown\<close> flag and the distinct host names.\<close>

fun ptr_names :: "(string \<Rightarrow> ipv6 option) \<Rightarrow> bool \<Rightarrow> string list \<Rightarrow> dns_record list \<Rightarrow> unit + (bool \<times> string list)" where
  "ptr_names v6 unknown names [] = Inr (unknown, names)"
| "ptr_names v6 unknown names (R_Host h # rs) =
     (case host v6 h of
        None \<Rightarrow> ptr_names v6 True names rs
      | Some n \<Rightarrow> ptr_names v6 unknown (if n \<in> set names then names else names @ [n]) rs)"
| "ptr_names v6 unknown names (_ # rs) = Inl ()"

text \<open>
  The forward confirmations, polled as they become ready: \<open>answers\<close> is the order of arrival.
  The source polls until the round that confirms and does not read \<open>unknown\<close> after it, so the
  model stops at the first confirmation.
\<close>

fun confirm_forward :: "ip_addr \<Rightarrow> bool \<Rightarrow> lookup_result list \<Rightarrow> bool \<times> bool" where
  "confirm_forward ip unknown [] = (False, unknown)"
| "confirm_forward ip unknown (Inr ips # rest) =
     (if R_Ip ip \<in> set ips then (True, unknown) else confirm_forward ip unknown rest)"
| "confirm_forward ip unknown (Inl _ # rest) = confirm_forward ip True rest"

definition reverse_check ::
    "(string \<Rightarrow> ipv6 option) \<Rightarrow> (query \<Rightarrow> lookup_result) \<Rightarrow> (string list \<Rightarrow> string list) \<Rightarrow> ip_addr \<Rightarrow> unit + signal" where
  "reverse_check v6 look arrival ip =
     and_then (look (Q_Ptr ip)) (\<lambda>records.
     if records = [] then Inr (policy_signal ''ptr_missing'' ''Reverse DNS has no PTR record'' (Fin (1/4)))
     else if length records > MAX_PTR then Inl ()
     else and_then (ptr_names v6 False [] records) (\<lambda>(unknown, names).
       (case confirm_forward ip unknown (map (\<lambda>n. peer_addresses look n ip) (arrival names)) of
          (confirmed, unknown') \<Rightarrow>
            if confirmed then Inr (policy_signal ''ptr_verified''
                ''Reverse DNS PTR is confirmed by A/AAAA resolution'' (Fin (-3/20)))
            else if unknown' then Inl ()
            else Inr (policy_signal ''ptr_unconfirmed''
                ''No reverse DNS PTR resolves back to the connecting IP'' (Fin (1/2))))))"

definition sender_check ::
    "(string \<Rightarrow> ipv6 option) \<Rightarrow> (query \<Rightarrow> lookup_result) \<Rightarrow> bool \<Rightarrow> string \<Rightarrow> unit + signal" where
  "sender_check v6 look a_first sender =
     (if sender = [] then
        Inr (policy_signal ''sender_null'' ''Null envelope: delivery notification permitted'' (Fin 0))
      else (case rsplit_once (CHR ''@'') sender of
          None \<Rightarrow> Inl ()
        | Some (_, d) \<Rightarrow>
           (case host v6 d of
              None \<Rightarrow> Inl ()
            | Some name \<Rightarrow>
                and_then (look (Q_Mx name)) (\<lambda>records.
                if records = [] then
                  and_then (has_address look a_first name) (\<lambda>found. Inr
                    (if \<not> found
                     then policy_signal ''sender_no_mail_route''
                            ''Envelope domain has no MX or A/AAAA fallback'' (Fin (3/4))
                     else policy_signal ''sender_implicit_mx''
                            ''Envelope domain has a valid SMTP A/AAAA fallback without explicit MX'' (Fin 0)))
                else if records = [R_Mx 0 ''.''] then
                  Inr (policy_signal ''sender_null_mx''
                    ''Envelope domain publishes Null MX: it declares that it does not receive mail'' (Fin (3/4)))
                else if list_ex (\<lambda>r. case r of R_Mx _ n \<Rightarrow> host v6 n = None | _ \<Rightarrow> True) records then Inl ()
                else Inr (policy_signal ''sender_mx_present'' ''Envelope domain has an explicit MX'' (Fin 0))))))"

section \<open>Combining the checks\<close>

text \<open>What the deadline left of a check: nothing, or the check's own result.\<close>

type_synonym check_outcome = "(unit + signal) option"

definition check_rows :: "check_outcome list \<Rightarrow> (string \<times> check_kind \<times> check_outcome) list" where
  "check_rows outcomes = zip [''helo'', ''ptr'', ''sender''] (zip [Ck_Helo, Ck_Ptr, Ck_Sender] outcomes)"

definition collect_check :: "policy_result \<Rightarrow> string \<times> check_kind \<times> check_outcome \<Rightarrow> policy_result" where
  "collect_check r x =
     (case x of
        (_, _, Some (Inr g)) \<Rightarrow> r\<lparr>por_checks := por_checks r @ [g]\<rparr>
      | (name, kind, missing) \<Rightarrow>
          r\<lparr>por_status := Po_Unavailable,
            por_timeouts := (if missing = None then por_timeouts r @ [kind] else por_timeouts r),
            por_checks := por_checks r @ [policy_signal (name @ ''_dns_unavailable'')
              (if missing = None then ''SMTP identity check exceeded its DNS deadline''
               else ''SMTP identity check has incomplete DNS evidence'') (Fin 0)]\<rparr>)"

definition f64_clamp :: "f64 \<Rightarrow> f64 \<Rightarrow> f64 \<Rightarrow> f64" where
  "f64_clamp lo hi x = (if f64_lt x lo then lo else if f64_gt x hi then hi else x)"

definition weigh :: "float_ops \<Rightarrow> smtp_policy_config \<Rightarrow> policy_result \<Rightarrow> policy_result" where
  "weigh fl cfg r =
     (if por_status r = Po_Complete then
        (let candidate = f64_clamp (Fin (-1/4)) (Fin (3/2))
               (foldl (fl_add fl) (Fin 0) (map sig_weight (por_checks r)))
         in r\<lparr>por_candidate_weight := candidate,
              por_applied_weight := (if sp_contribute_to_score cfg then candidate else por_applied_weight r)\<rparr>)
      else r\<lparr>por_checks := map (\<lambda>g. g\<lparr>sig_weight := Fin 0\<rparr>) (por_checks r)\<rparr>)"

definition policy_check ::
    "float_ops \<Rightarrow> smtp_policy_config \<Rightarrow> check_outcome \<Rightarrow> check_outcome \<Rightarrow> check_outcome \<Rightarrow> capacity \<Rightarrow>
     policy_result \<times> capacity" where
  "policy_check fl cfg helo reverse sender slots =
     (let r0 = policy_result_default\<lparr>por_scoring_enabled := sp_contribute_to_score cfg\<rparr>
      in case try_acquire slots of
           None \<Rightarrow> (r0\<lparr>por_status := Po_Busy\<rparr>, slots)
         | Some held \<Rightarrow>
             (weigh fl cfg (foldl collect_check (r0\<lparr>por_status := Po_Complete\<rparr>)
                (check_rows [helo, reverse, sender])), permit_drop held))"

text \<open>
  The whole of \<open>SmtpPolicy::check\<close>: \<open>in_time\<close> tells which checks met the shared deadline,
  \<open>a_first\<close> whose answer of an address pair arrives first and \<open>arrival\<close> the order of the
  forward confirmations.
\<close>

definition smtp_check ::
    "float_ops \<Rightarrow> smtp_policy_config \<Rightarrow> (string \<Rightarrow> ipv6 option) \<Rightarrow> (query \<Rightarrow> lookup_result) \<Rightarrow>
     (check_kind \<Rightarrow> bool) \<Rightarrow> bool \<Rightarrow> (string list \<Rightarrow> string list) \<Rightarrow> ip_addr \<Rightarrow> string \<Rightarrow> string \<Rightarrow> string \<Rightarrow> capacity \<Rightarrow>
     policy_result \<times> capacity" where
  "smtp_check fl cfg v6 look in_time a_first arrival ip helo sender hostname slots =
     policy_check fl cfg
       (if in_time Ck_Helo then Some (helo_check v6 look a_first (to_canonical ip) helo hostname) else None)
       (if in_time Ck_Ptr then Some (reverse_check v6 look arrival (to_canonical ip)) else None)
       (if in_time Ck_Sender then Some (sender_check v6 look a_first sender) else None) slots"

section \<open>Lemmas: the cache\<close>

definition cache_wf :: "nat \<Rightarrow> dns_cache \<Rightarrow> bool" where
  "cache_wf entries cache \<longleftrightarrow> distinct (map fst cache) \<and> length cache \<le> entries"

lemma evict_length: "entries > 0 \<Longrightarrow> length (evict entries t cache) < entries"
  by (simp add: evict_def Let_def)

lemma distinct_fst_filter: "distinct (map fst xs) \<Longrightarrow> distinct (map fst (filter P xs))"
  by (induction xs) auto

lemma evict_distinct: "distinct (map fst cache) \<Longrightarrow> distinct (map fst (evict entries t cache))"
  by (simp add: evict_def Let_def distinct_fst_filter)

lemma evict_subset: "set (evict entries t cache) \<subseteq> set cache"
  by (auto simp: evict_def Let_def)

lemma cache_insert_wf:
  "distinct (map fst cache) \<Longrightarrow> length cache < entries \<Longrightarrow> cache_wf entries (cache_insert q v cache)"
  by (auto simp: cache_wf_def cache_insert_def distinct_fst_filter
      intro: Suc_leI le_less_trans [OF length_filter_le])

lemma cache_store_wf:
  assumes "cache_wf (sp_cache_entries cfg) cache" and "sp_cache_entries cfg > 0"
  shows "cache_wf (sp_cache_entries cfg) (cache_store cfg t1 t2 q ans cache)"
proof -
  let ?c = "evict (sp_cache_entries cfg) t1 cache"
  have d: "distinct (map fst ?c)" and l: "length ?c < sp_cache_entries cfg"
    using assms evict_distinct evict_length by (auto simp: cache_wf_def)
  then have "cache_wf (sp_cache_entries cfg) ?c" by (simp add: cache_wf_def)
  with cache_insert_wf [OF d l] show ?thesis by (simp add: cache_store_def Let_def)
qed

text \<open>
  The second critical sections of any number of concurrent lookups, in the order in which they
  took the lock; the first ones do not change the cache.
\<close>

type_synonym store_event = "nat \<times> nat \<times> query \<times> answer"

fun event_store :: "smtp_policy_config \<Rightarrow> dns_cache \<Rightarrow> store_event \<Rightarrow> dns_cache" where
  "event_store cfg cache (t1, t2, q, ans) = cache_store cfg t1 t2 q ans cache"

definition cache_after :: "smtp_policy_config \<Rightarrow> store_event list \<Rightarrow> dns_cache" where
  "cache_after cfg events = foldl (event_store cfg) [] events"

lemma cache_after_Nil [simp]: "cache_after cfg [] = []"
  by (simp add: cache_after_def)

lemma cache_after_snoc [simp]:
  "cache_after cfg (events @ [(t1, t2, q, ans)]) = cache_store cfg t1 t2 q ans (cache_after cfg events)"
  by (simp add: cache_after_def)

lemma cache_after_wf:
  assumes "sp_cache_entries cfg > 0"
  shows "cache_wf (sp_cache_entries cfg) (cache_after cfg events)"
proof (induction events rule: rev_induct)
  case Nil
  show ?case by (simp add: cache_wf_def)
next
  case (snoc e events)
  then show ?case by (cases e) (simp add: cache_store_wf assms)
qed

text \<open>An entry of the cache is the latest answer stored for its question.\<close>

definition latest_store :: "smtp_policy_config \<Rightarrow> store_event list \<Rightarrow> query \<Rightarrow> nat \<Rightarrow> answer \<Rightarrow> bool" where
  "latest_store cfg events q expires ans \<longleftrightarrow> (\<exists>before t1 t2 later.
     events = before @ (t1, t2, q, ans) # later \<and> expires = t2 + entry_ttl cfg ans \<and> entry_ttl cfg ans > 0 \<and>
     (\<forall>(t1', t2', q', ans') \<in> set later. q' = q \<longrightarrow> entry_ttl cfg ans' = 0))"

lemma latest_store_new:
  "entry_ttl cfg ans > 0 \<Longrightarrow> latest_store cfg (events @ [(t1, t2, q, ans)]) q (t2 + entry_ttl cfg ans) ans"
  unfolding latest_store_def by (intro exI [of _ events] exI [of _ t1] exI [of _ t2] exI [of _ "[]"]) simp

lemma latest_store_keep:
  assumes "latest_store cfg events q expires ans" and "q' = q \<Longrightarrow> entry_ttl cfg ans' = 0"
  shows "latest_store cfg (events @ [(t1', t2', q', ans')]) q expires ans"
proof -
  from assms(1) obtain before t1 t2 later where
    "events = before @ (t1, t2, q, ans) # later" "expires = t2 + entry_ttl cfg ans" "entry_ttl cfg ans > 0"
    "\<forall>(t1', t2', q', ans') \<in> set later. q' = q \<longrightarrow> entry_ttl cfg ans' = 0"
    unfolding latest_store_def by blast
  with assms(2) show ?thesis
    unfolding latest_store_def
    by (intro exI [of _ before] exI [of _ t1] exI [of _ t2] exI [of _ "later @ [(t1', t2', q', ans')]"]) auto
qed

lemma cache_store_entries:
  assumes "(q, expires, ans) \<in> set (cache_store cfg t1 t2 q' ans' cache)"
  shows "(q = q' \<and> ans = ans' \<and> expires = t2 + entry_ttl cfg ans' \<and> entry_ttl cfg ans' > 0) \<or>
    ((q, expires, ans) \<in> set cache \<and> (q' = q \<longrightarrow> entry_ttl cfg ans' = 0))"
  using assms evict_subset [of "sp_cache_entries cfg" t1 cache]
  by (auto simp: cache_store_def cache_insert_def Let_def split: if_splits)

lemma cache_after_latest:
  "(q, expires, ans) \<in> set (cache_after cfg events) \<Longrightarrow> latest_store cfg events q expires ans"
proof (induction events rule: rev_induct)
  case (snoc e events)
  obtain t1 t2 q' ans' where e: "e = (t1, t2, q', ans')" by (cases e)
  with snoc.prems have "(q, expires, ans) \<in> set (cache_store cfg t1 t2 q' ans' (cache_after cfg events))" by simp
  from cache_store_entries [OF this] show ?case
    using latest_store_new [of cfg ans] latest_store_keep [OF snoc.IH, of q' ans'] e by auto
qed simp

lemma cache_probe_Some:
  "cache_probe t0 q cache = Some r \<longleftrightarrow>
     (\<exists>expires ans. map_of cache q = Some (expires, ans) \<and> t0 < expires \<and> r = an_records ans)"
  by (auto simp: cache_probe_def split: option.split)

text \<open>
  The system resolver's answers are bounded and of the asked type, so a PTR answer only has
  host names and the early return of the reverse check on another record is not taken.
\<close>

lemma system_lookup_records:
  assumes "an_records (system_lookup now q outcome) = Inr rs"
  shows "length rs \<le> MAX_RECORDS" and "r \<in> set rs \<Longrightarrow> \<exists>d. record_of q d = Some r"
  using assms
  by (auto simp: system_lookup_def answer_unavailable_def Let_def List.map_filter_def
      dest!: in_set_takeD split: dns_outcome.splits if_splits) blast

lemma record_of_ptr: "record_of (Q_Ptr ip) d = Some r \<Longrightarrow> \<exists>h. r = R_Host h"
  by (cases d) auto

section \<open>Lemmas: order of answers\<close>

lemma address_pair_commute: "address_pair a b = address_pair b a"
  by (cases a; cases b) (auto simp: address_pair_def positive_def)

lemma confirm_forward_confirmed:
  "fst (confirm_forward ip unknown answers) \<longleftrightarrow> (\<exists>ips. Inr ips \<in> set answers \<and> R_Ip ip \<in> set ips)"
  by (induction ip unknown answers rule: confirm_forward.induct) auto

lemma confirm_forward_unknown:
  "\<not> fst (confirm_forward ip unknown answers) \<Longrightarrow>
     snd (confirm_forward ip unknown answers) \<longleftrightarrow> unknown \<or> Inl () \<in> set answers"
  by (induction ip unknown answers rule: confirm_forward.induct) (auto split: if_splits)

section \<open>Lemmas: combining\<close>

lemma collect_check_status:
  "por_status (collect_check r x) = (case snd (snd x) of Some (Inr _) \<Rightarrow> por_status r | _ \<Rightarrow> Po_Unavailable)"
  by (cases x) (auto simp: collect_check_def split: option.split sum.split)

lemma foldl_fl_add_not_NaN:
  assumes "\<And>x b. x \<noteq> NaN \<Longrightarrow> fl_add fl x (Fin b) \<noteq> NaN" and "acc \<noteq> NaN"
    and "list_all f64_is_finite ws"
  shows "foldl (fl_add fl) acc ws \<noteq> NaN"
  using assms(2,3)
proof (induction ws arbitrary: acc)
  case (Cons w ws)
  then obtain b where "w = Fin b" by (cases w) auto
  with Cons assms(1) show ?case by simp
qed simp

lemma f64_clamp_bounds:
  "x \<noteq> NaN \<Longrightarrow> lo \<le> hi \<Longrightarrow> f64_within (Fin lo) (Fin hi) (f64_clamp (Fin lo) (Fin hi) x)"
  by (cases x) (auto simp: f64_clamp_def f64_within_def f64_lt_iff_le)

lemma check_rows_three [simp]:
  "check_rows [a, b, c] = [(''helo'', Ck_Helo, a), (''ptr'', Ck_Ptr, b), (''sender'', Ck_Sender, c)]"
  by (simp add: check_rows_def)

definition settled :: "check_outcome \<Rightarrow> bool" where
  "settled x \<longleftrightarrow> (case x of Some (Inr _) \<Rightarrow> True | _ \<Rightarrow> False)"

lemma collect_check_checks:
  "por_checks (collect_check r x) = por_checks r @
     [case x of (_, _, Some (Inr g)) \<Rightarrow> g
      | (name, _, missing) \<Rightarrow> policy_signal (name @ ''_dns_unavailable'')
          (if missing = None then ''SMTP identity check exceeded its DNS deadline''
           else ''SMTP identity check has incomplete DNS evidence'') (Fin 0)]"
  by (cases x) (auto simp: collect_check_def split: option.split sum.split)

lemma collect_check_other [simp]:
  "por_applied_weight (collect_check r x) = por_applied_weight r"
  "por_candidate_weight (collect_check r x) = por_candidate_weight r"
  "por_scoring_enabled (collect_check r x) = por_scoring_enabled r"
  by (cases x; auto simp: collect_check_def split: option.split sum.split)+

definition finite_weight :: "check_outcome \<Rightarrow> bool" where
  "finite_weight x \<longleftrightarrow> (case x of Some (Inr g) \<Rightarrow> f64_is_finite (sig_weight g) | _ \<Rightarrow> True)"

lemma collect_check_finite:
  "list_all (\<lambda>g. f64_is_finite (sig_weight g)) (por_checks r) \<Longrightarrow> finite_weight (snd (snd x)) \<Longrightarrow>
     list_all (\<lambda>g. f64_is_finite (sig_weight g)) (por_checks (collect_check r x))"
  by (cases x) (auto simp: collect_check_checks finite_weight_def policy_signal_def split: option.splits sum.splits)

lemma and_then_case: "and_then r f = (case r of Inl e \<Rightarrow> Inl e | Inr x \<Rightarrow> f x)"
  by (cases r) simp_all

lemma helo_check_finite: "finite_weight (Some (helo_check v6 look a ip helo hostname))"
  by (auto simp: finite_weight_def helo_check_def policy_signal_def and_then_case Let_def
      split: option.split sum.split)

lemma reverse_check_finite: "finite_weight (Some (reverse_check v6 look arrival ip))"
  by (auto simp: finite_weight_def reverse_check_def policy_signal_def and_then_case Let_def
      split: option.split sum.split prod.split)

lemma sender_check_finite: "finite_weight (Some (sender_check v6 look a sender))"
  by (auto simp: finite_weight_def sender_check_def policy_signal_def and_then_case Let_def
      split: option.split sum.split)

lemmas check_finite = helo_check_finite reverse_check_finite sender_check_finite

lemma policy_check_granted:
  assumes "try_acquire slots = Some held"
  shows "policy_check fl cfg a b c slots =
    (weigh fl cfg (collect_check (collect_check (collect_check
       (policy_result_default\<lparr>por_scoring_enabled := sp_contribute_to_score cfg, por_status := Po_Complete\<rparr>)
       (''helo'', Ck_Helo, a)) (''ptr'', Ck_Ptr, b)) (''sender'', Ck_Sender, c)), slots)"
  using slots.release_acquire [OF assms] by (simp add: policy_check_def Let_def assms)

lemma policy_check_restores: "snd (policy_check fl cfg a b c slots) = slots"
  by (cases "try_acquire slots") (simp_all add: policy_check_granted, simp add: policy_check_def Let_def)

lemma weigh_status [simp]: "por_status (weigh fl cfg r) = por_status r"
  by (simp add: weigh_def Let_def)

lemma policy_check_status:
  "por_status (fst (policy_check fl cfg a b c slots)) =
     (if try_acquire slots = None then Po_Busy
      else if settled a \<and> settled b \<and> settled c then Po_Complete else Po_Unavailable)"
proof (cases "try_acquire slots")
  case None
  then show ?thesis by (simp add: policy_check_def Let_def)
next
  case (Some held)
  then show ?thesis
    by (simp add: policy_check_granted collect_check_status settled_def split: option.split sum.split)
qed

lemma policy_check_incomplete:
  assumes "por_status (fst (policy_check fl cfg a b c slots)) \<noteq> Po_Complete"
  shows "por_applied_weight (fst (policy_check fl cfg a b c slots)) = Fin 0"
    and "list_all (\<lambda>g. sig_weight g = Fin 0) (por_checks (fst (policy_check fl cfg a b c slots)))"
proof -
  have w: "por_applied_weight (weigh fl cfg r) = por_applied_weight r \<and>
      list_all (\<lambda>g. sig_weight g = Fin 0) (por_checks (weigh fl cfg r))" if "por_status r \<noteq> Po_Complete" for r
    using that by (simp add: weigh_def list_all_iff)
  have "por_applied_weight (fst (policy_check fl cfg a b c slots)) = Fin 0 \<and>
      list_all (\<lambda>g. sig_weight g = Fin 0) (por_checks (fst (policy_check fl cfg a b c slots)))"
  proof (cases "try_acquire slots")
    case None
    then show ?thesis by (simp add: policy_check_def Let_def policy_result_default_def)
  next
    case (Some held)
    with assms w show ?thesis by (simp add: policy_check_granted policy_result_default_def)
  qed
  then show "por_applied_weight (fst (policy_check fl cfg a b c slots)) = Fin 0"
    and "list_all (\<lambda>g. sig_weight g = Fin 0) (por_checks (fst (policy_check fl cfg a b c slots)))" by simp_all
qed

lemma weigh_bounded:
  assumes "\<And>x b. x \<noteq> NaN \<Longrightarrow> fl_add fl x (Fin b) \<noteq> NaN"
    and "list_all (\<lambda>g. f64_is_finite (sig_weight g)) (por_checks r)"
    and "f64_within (Fin (-1/4)) (Fin (3/2)) (por_candidate_weight r)"
  shows "f64_within (Fin (-1/4)) (Fin (3/2)) (por_candidate_weight (weigh fl cfg r))"
proof -
  have "foldl (fl_add fl) (Fin 0) (map sig_weight (por_checks r)) \<noteq> NaN"
    by (rule foldl_fl_add_not_NaN [OF assms(1)]) (use assms(2) in \<open>simp_all add: list_all_iff\<close>)
  from f64_clamp_bounds [OF this, of "-1/4" "3/2"] assms(3) show ?thesis by (simp add: weigh_def Let_def)
qed

lemma policy_check_bounded:
  assumes "\<And>x b. x \<noteq> NaN \<Longrightarrow> fl_add fl x (Fin b) \<noteq> NaN"
    and "finite_weight a" and "finite_weight b" and "finite_weight c"
  shows "f64_within (Fin (-1/4)) (Fin (3/2)) (por_candidate_weight (fst (policy_check fl cfg a b c slots)))"
proof (cases "try_acquire slots")
  case None
  then show ?thesis by (simp add: policy_check_def Let_def policy_result_default_def f64_within_def)
next
  case (Some held)
  let ?r = "collect_check (collect_check (collect_check
       (policy_result_default\<lparr>por_scoring_enabled := sp_contribute_to_score cfg, por_status := Po_Complete\<rparr>)
       (''helo'', Ck_Helo, a)) (''ptr'', Ck_Ptr, b)) (''sender'', Ck_Sender, c)"
  have "list_all (\<lambda>g. f64_is_finite (sig_weight g)) (por_checks ?r)"
    by (intro collect_check_finite) (use assms(2-) in \<open>simp_all add: policy_result_default_def\<close>)
  from weigh_bounded [OF assms(1) this] Some show ?thesis
    by (simp add: policy_check_granted policy_result_default_def f64_within_def)
qed

lemma policy_check_applied:
  "por_applied_weight (fst (policy_check fl cfg a b c slots)) \<in>
     {Fin 0, por_candidate_weight (fst (policy_check fl cfg a b c slots))} \<and>
   (\<not> sp_contribute_to_score cfg \<longrightarrow> por_applied_weight (fst (policy_check fl cfg a b c slots)) = Fin 0)"
proof (cases "try_acquire slots")
  case None
  then show ?thesis by (simp add: policy_check_def Let_def policy_result_default_def)
next
  case (Some held)
  then show ?thesis by (simp add: policy_check_granted weigh_def Let_def policy_result_default_def)
qed

lemma confirm_forward_mset:
  assumes "mset xs = mset ys"
  shows "fst (confirm_forward ip u xs) = fst (confirm_forward ip u ys)"
    and "\<not> fst (confirm_forward ip u xs) \<Longrightarrow> snd (confirm_forward ip u xs) = snd (confirm_forward ip u ys)"
proof -
  have s: "set xs = set ys" using assms by (metis set_mset_mset)
  then show f: "fst (confirm_forward ip u xs) = fst (confirm_forward ip u ys)"
    by (simp add: confirm_forward_confirmed)
  show "snd (confirm_forward ip u xs) = snd (confirm_forward ip u ys)" if "\<not> fst (confirm_forward ip u xs)"
    using that f confirm_forward_unknown [of ip u xs] confirm_forward_unknown [of ip u ys] s by simp
qed

lemma reverse_check_arrival:
  assumes "\<And>names. mset (arrival names) = mset names"
  shows "reverse_check v6 look arrival ip = reverse_check v6 look (\<lambda>names. names) ip"
proof -
  have m: "mset (map f (arrival names)) = mset (map f names)" for f :: "string \<Rightarrow> lookup_result" and names
    by (simp add: assms)
  show ?thesis
    unfolding reverse_check_def
    using confirm_forward_mset [OF m]
    by (simp add: split_beta and_then_case cong: if_cong split: sum.split)
qed

lemma has_address_arrival: "has_address look a name = has_address look b name"
  by (cases a; cases b) (simp_all add: has_address_def address_pair_commute)

section \<open>Properties\<close>

lemma cache_probe_fresh:
  assumes "cache_probe t0 q (cache_after cfg events) = Some r"
  shows "\<exists>before t1 t2 ans later.
      events = before @ (t1, t2, q, ans) # later \<and> r = an_records ans
      \<and> t0 < t2 + an_ttl ans \<and> t0 < t2 + sp_cache_ttl_seconds cfg * 1000000000
      \<and> (\<forall>(t1', t2', q', ans') \<in> set later. q' = q \<longrightarrow> entry_ttl cfg ans' = 0)"
proof -
  from assms obtain expires ans where m: "map_of (cache_after cfg events) q = Some (expires, ans)"
    and e: "t0 < expires" and r: "r = an_records ans" by (auto simp: cache_probe_Some)
  from cache_after_latest [OF map_of_SomeD [OF m]] obtain before t1 t2 later where
    "events = before @ (t1, t2, q, ans) # later" and x: "expires = t2 + entry_ttl cfg ans"
    and "\<forall>(t1', t2', q', ans') \<in> set later. q' = q \<longrightarrow> entry_ttl cfg ans' = 0"
    unfolding latest_store_def by blast
  moreover have "t0 < t2 + an_ttl ans" and "t0 < t2 + sp_cache_ttl_seconds cfg * 1000000000"
    using e x by (auto simp: entry_ttl_def min_def split: if_splits)
  ultimately show ?thesis using r by blast
qed

text \<open>
  the DNS cache stays bounded and fresh under concurrent lookups. After any interleaving of
  their storing sections, with any questions, answers and clock readings, the cache holds at most
  the configured number of entries and one per question; and a cached answer is the latest
  cacheable answer to the same question, read within the resolver's lifetime of it and within
  the configured one.
\<close>

theorem dns_cache_bounded_and_fresh:
  assumes "sp_cache_entries cfg > 0"
  shows "length (cache_after cfg events) \<le> sp_cache_entries cfg
    \<and> distinct (map fst (cache_after cfg events))
    \<and> (cache_probe t0 q (cache_after cfg events) = Some r \<longrightarrow> (\<exists>before t1 t2 ans later.
      events = before @ (t1, t2, q, ans) # later \<and> r = an_records ans
      \<and> t0 < t2 + an_ttl ans \<and> t0 < t2 + sp_cache_ttl_seconds cfg * 1000000000
      \<and> (\<forall>(t1', t2', q', ans') \<in> set later. q' = q \<longrightarrow> entry_ttl cfg ans' = 0)))"
  using cache_after_wf [OF assms, of events] cache_probe_fresh [of t0 q cfg events r]
  unfolding cache_wf_def by blast

definition sample_answer :: answer where
  "sample_answer = \<lparr>an_records = Inr [R_Ip (V4 (192, 0, 2, 1))], an_ttl = 5000000000\<rparr>"

definition sample_events :: "store_event list" where
  "sample_events = [(10, 20, Q_A ''mx.example'', sample_answer), (30, 40, Q_A ''b.example'', sample_answer)]"

lemma sample_probe:
  "cache_probe 50 (Q_A ''mx.example'') (cache_after smtp_policy_default sample_events)
     = Some (Inr [R_Ip (V4 (192, 0, 2, 1))])"
  by (simp add: cache_probe_def cache_after_def sample_events_def cache_store_def evict_def
      cache_insert_def entry_ttl_def smtp_policy_default_def sample_answer_def Let_def)

theorem dns_cache_bounded_and_fresh_witness:
  "length (cache_after smtp_policy_default sample_events) \<le> 4096
   \<and> (\<exists>before t1 t2 ans later. sample_events = before @ (t1, t2, Q_A ''mx.example'', ans) # later
        \<and> an_records ans = Inr [R_Ip (V4 (192, 0, 2, 1))] \<and> 50 < t2 + an_ttl ans)"
proof -
  have p: "sp_cache_entries smtp_policy_default > 0" by (simp add: smtp_policy_default_def)
  have "length (cache_after smtp_policy_default sample_events) \<le> 4096"
    using dns_cache_bounded_and_fresh [OF p, of sample_events] by (simp add: smtp_policy_default_def)
  moreover have "\<exists>before t1 t2 ans later. sample_events = before @ (t1, t2, Q_A ''mx.example'', ans) # later
        \<and> an_records ans = Inr [R_Ip (V4 (192, 0, 2, 1))] \<and> 50 < t2 + an_ttl ans"
    using dns_cache_bounded_and_fresh [OF p, of sample_events 50 "Q_A ''mx.example''"] sample_probe by metis
  ultimately show ?thesis by blast
qed

text \<open>
  the race of DNS answers does not reach the verdict. Whichever address family answers first
  and in whatever order the forward confirmations arrive, the SMTP identity check gives the same
  result.
\<close>

theorem identity_check_arrival_independent:
  assumes "\<And>names. mset (arrival names) = mset names"
  shows "smtp_check fl cfg v6 look in_time a_first arrival ip helo sender hostname slots =
    smtp_check fl cfg v6 look in_time True (\<lambda>names. names) ip helo sender hostname slots"
proof -
  have h: "helo_check v6 look a_first (to_canonical ip) helo hostname
      = helo_check v6 look True (to_canonical ip) helo hostname"
    unfolding helo_check_def by (simp only: has_address_arrival [of look a_first _ True])
  have s: "sender_check v6 look a_first sender = sender_check v6 look True sender"
    unfolding sender_check_def by (simp only: has_address_arrival [of look a_first _ True])
  show ?thesis unfolding smtp_check_def h s reverse_check_arrival [OF assms] ..
qed

definition sample_look :: "query \<Rightarrow> lookup_result" where
  "sample_look q = (case q of
       Q_A n \<Rightarrow> if n = ''mx.example'' then Inr [R_Ip (V4 (192, 0, 2, 1))] else Inr []
     | Q_Aaaa _ \<Rightarrow> Inr []
     | Q_Ptr _ \<Rightarrow> Inr [R_Host ''mx.example.'']
     | Q_Mx _ \<Rightarrow> Inl ())"

theorem identity_check_arrival_independent_witness:
  "smtp_check exact_ops smtp_policy_default (\<lambda>_. None) sample_look (\<lambda>_. True) False rev
     (V4 (192, 0, 2, 1)) ''mx.example'' ''a@b.example'' ''gw.example'' (capacity_new 8) =
   smtp_check exact_ops smtp_policy_default (\<lambda>_. None) sample_look (\<lambda>_. True) True (\<lambda>names. names)
     (V4 (192, 0, 2, 1)) ''mx.example'' ''a@b.example'' ''gw.example'' (capacity_new 8)"
  by (rule identity_check_arrival_independent) simp

lemma smtp_check_facts:
  assumes "\<And>x b. x \<noteq> NaN \<Longrightarrow> fl_add fl x (Fin b) \<noteq> NaN"
    and "smtp_check fl cfg v6 look in_time a_first arrival ip helo sender hostname slots = (r, slots')"
  shows "f64_within (Fin (-1/4)) (Fin (3/2)) (por_candidate_weight r)"
    and "por_applied_weight r = por_candidate_weight r \<or> por_applied_weight r = Fin 0"
    and "\<not> sp_contribute_to_score cfg \<Longrightarrow> por_applied_weight r = Fin 0"
    and "por_status r \<noteq> Po_Complete \<Longrightarrow>
      por_applied_weight r = Fin 0 \<and> list_all (\<lambda>g. sig_weight g = Fin 0) (por_checks r)"
    and "por_status r = Po_Complete \<Longrightarrow> in_time Ck_Helo \<and> in_time Ck_Ptr \<and> in_time Ck_Sender
      \<and> is_ok (helo_check v6 look a_first (to_canonical ip) helo hostname)
      \<and> is_ok (reverse_check v6 look arrival (to_canonical ip)) \<and> is_ok (sender_check v6 look a_first sender)"
    and "slots' = slots"
proof -
  let ?a = "if in_time Ck_Helo then Some (helo_check v6 look a_first (to_canonical ip) helo hostname) else None"
  let ?b = "if in_time Ck_Ptr then Some (reverse_check v6 look arrival (to_canonical ip)) else None"
  let ?c = "if in_time Ck_Sender then Some (sender_check v6 look a_first sender) else None"
  have r: "r = fst (policy_check fl cfg ?a ?b ?c slots)" and s: "slots' = snd (policy_check fl cfg ?a ?b ?c slots)"
    using assms(2) by (simp_all add: smtp_check_def)
  have n: "finite_weight None" by (simp add: finite_weight_def)
  show "f64_within (Fin (-1/4)) (Fin (3/2)) (por_candidate_weight r)"
    unfolding r using check_finite n by (intro policy_check_bounded assms(1)) simp_all
  show "por_applied_weight r = por_candidate_weight r \<or> por_applied_weight r = Fin 0"
    using policy_check_applied [of fl cfg ?a ?b ?c slots] unfolding r by blast
  show "\<not> sp_contribute_to_score cfg \<Longrightarrow> por_applied_weight r = Fin 0"
    using policy_check_applied [of fl cfg ?a ?b ?c slots] unfolding r by blast
  show "por_status r \<noteq> Po_Complete \<Longrightarrow>
      por_applied_weight r = Fin 0 \<and> list_all (\<lambda>g. sig_weight g = Fin 0) (por_checks r)"
    using policy_check_incomplete [of fl cfg ?a ?b ?c slots] unfolding r by blast
  show "por_status r = Po_Complete \<Longrightarrow> in_time Ck_Helo \<and> in_time Ck_Ptr \<and> in_time Ck_Sender
      \<and> is_ok (helo_check v6 look a_first (to_canonical ip) helo hostname)
      \<and> is_ok (reverse_check v6 look arrival (to_canonical ip)) \<and> is_ok (sender_check v6 look a_first sender)"
    unfolding r policy_check_status
    by (auto simp: settled_def split: if_splits sum.splits)
  show "slots' = slots" unfolding s by (rule policy_check_restores)
qed

text \<open>
  missing DNS evidence is never adverse evidence, and verified DNS is never a bypass. The
  check is complete only when all three parts met the deadline with evidence; otherwise nothing
  is added to the score and no row carries a weight. A complete check contributes between -0.25
  and 1.5, and nothing unless scoring is enabled. The permit it took is returned.
\<close>

theorem identity_weight_bounded:
  assumes "\<And>x b. x \<noteq> NaN \<Longrightarrow> fl_add fl x (Fin b) \<noteq> NaN"
    and "smtp_check fl cfg v6 look in_time a_first arrival ip helo sender hostname slots = (r, slots')"
  shows "f64_within (Fin (-1/4)) (Fin (3/2)) (por_candidate_weight r)
    \<and> (por_applied_weight r = por_candidate_weight r \<or> por_applied_weight r = Fin 0)
    \<and> (\<not> sp_contribute_to_score cfg \<longrightarrow> por_applied_weight r = Fin 0)
    \<and> (por_status r \<noteq> Po_Complete \<longrightarrow>
        por_applied_weight r = Fin 0 \<and> list_all (\<lambda>g. sig_weight g = Fin 0) (por_checks r))
    \<and> (por_status r = Po_Complete \<longrightarrow> in_time Ck_Helo \<and> in_time Ck_Ptr \<and> in_time Ck_Sender
        \<and> is_ok (helo_check v6 look a_first (to_canonical ip) helo hostname)
        \<and> is_ok (reverse_check v6 look arrival (to_canonical ip)) \<and> is_ok (sender_check v6 look a_first sender))
    \<and> slots' = slots"
  using smtp_check_facts [OF assms] by blast

theorem identity_weight_bounded_witness:
  "\<exists>r. smtp_check (exact_ops\<lparr>fl_add := (\<lambda>x y. case (x, y) of (Fin a, Fin b) \<Rightarrow> Fin (a + b) | _ \<Rightarrow> x)\<rparr>)
       smtp_policy_default (\<lambda>_. None) sample_look (\<lambda>_. True) True (\<lambda>names. names)
       (V4 (192, 0, 2, 1)) ''mx.example'' ''a@b.example'' ''gw.example'' (capacity_new 8) = (r, capacity_new 8)
     \<and> f64_within (Fin (-1/4)) (Fin (3/2)) (por_candidate_weight r) \<and> por_applied_weight r = Fin 0"
proof -
  let ?fl = "exact_ops\<lparr>fl_add := (\<lambda>x y. case (x, y) of (Fin a, Fin b) \<Rightarrow> Fin (a + b) | _ \<Rightarrow> x)\<rparr>"
  have nan: "x \<noteq> NaN \<Longrightarrow> fl_add ?fl x (Fin b) \<noteq> NaN" for x b by (cases x) simp_all
  obtain r s where rs: "smtp_check ?fl smtp_policy_default (\<lambda>_. None) sample_look (\<lambda>_. True) True (\<lambda>names. names)
       (V4 (192, 0, 2, 1)) ''mx.example'' ''a@b.example'' ''gw.example'' (capacity_new 8) = (r, s)"
    by fastforce
  show ?thesis
    using rs identity_weight_bounded [OF nan rs] by (simp add: smtp_policy_default_def)
qed

lemma policy_result_unavailable:
  assumes "por_status r = Po_Unavailable \<or> por_status r = Po_Busy"
    and "scan_features_complete s = Some True" and "av_status (scan_antivirus s) \<notin> {Av_Unavailable, Av_Unscannable}"
    and "list_all (\<lambda>g. sig_id g \<notin> set INCOMPLETE_REASONS) (scan_reasons s)"
    and "list_all (\<lambda>g. sig_id g \<notin> set INCOMPLETE_REASONS) (por_checks r)"
  shows "readable_with_dns_gap (policy_result_apply r s)"
    and "\<not> scan_complete (policy_result_apply r s)"
    and "\<exists>rows. scan_reasons (policy_result_apply r s) = scan_reasons s @ rows
      \<and> list_all (\<lambda>g. sig_weight g = Fin 0) rows"
    and "scan_score (policy_result_apply r s) = scan_score s"
proof -
  let ?rows = "map (\<lambda>g. g\<lparr>sig_weight := Fin 0\<rparr>) (por_checks r)"
  have st: "por_status r \<noteq> Po_Complete" "por_status r \<noteq> Po_Disabled" using assms(1) by auto
  have ap: "policy_result_apply r s = s\<lparr>scan_complete := False, scan_reasons := scan_reasons s @ ?rows
      @ [\<lparr>sig_id = ''smtp_policy_unavailable'', sig_detail = UNAVAILABLE_DETAIL, sig_weight = Fin 0\<rparr>]\<rparr>"
    using st by (simp add: policy_result_apply_def Let_def push_reason_def)
  show "readable_with_dns_gap (policy_result_apply r s)"
    using assms(2-) unfolding readable_with_dns_gap_def ap
    by (auto simp: has_reason_def list_all_iff)
  show "\<not> scan_complete (policy_result_apply r s)" and "scan_score (policy_result_apply r s) = scan_score s"
    by (simp_all add: ap)
  show "\<exists>rows. scan_reasons (policy_result_apply r s) = scan_reasons s @ rows
      \<and> list_all (\<lambda>g. sig_weight g = Fin 0) rows"
    by (rule exI [of _ "?rows @ [\<lparr>sig_id = ''smtp_policy_unavailable'', sig_detail = UNAVAILABLE_DETAIL,
         sig_weight = Fin 0\<rparr>]"]) (simp add: ap list_all_iff)
qed

text \<open>
  an unavailable SMTP identity check leaves a readable message readable. Applied to a
  complete scan with analysed content, a settled antivirus verdict and no incompleteness of its
  own, it adds rows of weight zero only, marks the scan incomplete, and the scan is then one of
  the readable ones with a DNS gap, so that a malware-free message is delivered unprefixed.
\<close>

theorem unavailable_identity_is_a_dns_gap:
  assumes "por_status r = Po_Unavailable \<or> por_status r = Po_Busy"
    and "scan_features_complete s = Some True" and "av_status (scan_antivirus s) \<notin> {Av_Unavailable, Av_Unscannable}"
    and "list_all (\<lambda>g. sig_id g \<notin> set INCOMPLETE_REASONS) (scan_reasons s)"
    and "list_all (\<lambda>g. sig_id g \<notin> set INCOMPLETE_REASONS) (por_checks r)"
  shows "readable_with_dns_gap (policy_result_apply r s)
    \<and> \<not> scan_complete (policy_result_apply r s)
    \<and> (\<exists>rows. scan_reasons (policy_result_apply r s) = scan_reasons s @ rows
        \<and> list_all (\<lambda>g. sig_weight g = Fin 0) rows)
    \<and> scan_score (policy_result_apply r s) = scan_score s"
  using policy_result_unavailable [OF assms] by blast

theorem unavailable_identity_is_a_dns_gap_witness:
  "readable_with_dns_gap (policy_result_apply (policy_result_default\<lparr>por_status := Po_Busy\<rparr>)
     (sample_scan\<lparr>scan_features_complete := Some True\<rparr>))"
  by (rule conjunct1 [OF unavailable_identity_is_a_dns_gap])
     (simp_all add: policy_result_default_def sample_scan_def clean_antivirus_def)

end
