(* ===== verification/NF_Activation.thy ===== *)
theory NF_Activation
  imports NF_Record
begin

text \<open>
  The coordinator of coordinated activation (\<open>src/cluster/activation.rs\<close>): the durable
  journal of one authority, with a rollout that is prepared by every participant, committed,
  applied by every participant and released, or aborted, or recovered by a successor. Each
  operation is a function from a journal to a journal or an error, as in the source; the SQL
  transaction around it loads and stores the journal and is not modelled.

  \<open>BTreeMap\<close> is an association list in key order. \<open>bv\<close> is \<open>Bundle::validate\<close>, which checks the
  digest of a bundle's serialized content; the settings, shared values and file manifest of a
  bundle are kept as their serialized text.
\<close>

section \<open>Data\<close>

record policy_bundle =
  bu_credential_generation :: "string option"
  bu_revision :: int
  bu_settings :: string
  bu_shared :: string
  bu_files :: string
  bu_digest :: string

type_synonym bundle_validator = "policy_bundle \<Rightarrow> unit result"

datatype phase = Preparing | Committed | Released | Aborted

datatype progress = Waiting | Prepared | Applied

text \<open>The derived order of \<open>Progress\<close>.\<close>

fun progress_rank :: "progress \<Rightarrow> nat" where
  "progress_rank Waiting = 0"
| "progress_rank Prepared = 1"
| "progress_rank Applied = 2"

lemma progress_rank_inj: "progress_rank p = progress_rank q \<Longrightarrow> p = q"
  by (cases p; cases q) simp_all

instantiation progress :: linorder
begin

definition less_eq_progress :: "progress \<Rightarrow> progress \<Rightarrow> bool" where
  "p \<le> q \<longleftrightarrow> progress_rank p \<le> progress_rank q"

definition less_progress :: "progress \<Rightarrow> progress \<Rightarrow> bool" where
  "p < q \<longleftrightarrow> progress_rank p < progress_rank q"

instance
  by standard (auto simp: less_eq_progress_def less_progress_def dest: progress_rank_inj)

end

lemma progress_ge_Prepared [simp]: "Prepared \<le> p \<longleftrightarrow> p \<noteq> Waiting"
  by (cases p) (simp_all add: less_eq_progress_def)

lemma Waiting_least [simp]: "Waiting \<le> p"
  by (simp add: less_eq_progress_def)

lemma Applied_greatest [simp]: "Applied \<le> p \<longleftrightarrow> p = Applied"
  by (cases p) (simp_all add: less_eq_progress_def)

record acknowledgement =
  ack_epoch :: epoch
  ack_progress :: progress

type_synonym participants = "(string \<times> progress) list"

record rollout =
  ro_epoch :: epoch
  ro_base_epoch :: epoch
  ro_base :: policy_bundle
  ro_candidate :: policy_bundle
  ro_phase :: phase
  ro_participants :: participants
  ro_started :: int
  ro_updated :: int
  ro_recovery_of :: "epoch option"

record journal =
  jo_version :: u8
  jo_owner :: string
  jo_current :: policy_bundle
  jo_sequence :: u64
  jo_current_sequence :: u64
  jo_rollout :: "rollout option"

definition epoch_new :: "u64 \<Rightarrow> policy_bundle \<Rightarrow> epoch" where
  "epoch_new sequence b = \<lparr>ep_sequence = sequence, ep_revision = bu_revision b, ep_digest = bu_digest b\<rparr>"

definition abortable :: "rollout \<Rightarrow> bool" where
  "abortable r \<longleftrightarrow> ro_phase r = Preparing \<and> ro_recovery_of r = None"

definition journal_bundles :: "journal \<Rightarrow> policy_bundle list" where
  "journal_bundles j =
     jo_current j # (case jo_rollout j of None \<Rightarrow> [] | Some r \<Rightarrow> [ro_base r, ro_candidate r])"

definition current_epoch :: "journal \<Rightarrow> epoch" where
  "current_epoch j = epoch_new (jo_current_sequence j) (jo_current j)"

definition released :: "journal \<Rightarrow> bool" where
  "released j = is_none_or (jo_rollout j) (\<lambda>r. ro_phase r \<in> {Released, Aborted})"

text \<open>\<open>valid_id\<close> of \<open>src/cluster.rs\<close>.\<close>

definition id_byte :: "char \<Rightarrow> bool" where
  "id_byte c \<longleftrightarrow> (CHR ''a'' \<le> c \<and> c \<le> CHR ''z'') \<or> (CHR ''0'' \<le> c \<and> c \<le> CHR ''9'') \<or> c \<in> set ''-_''"

definition valid_id :: "string \<Rightarrow> bool" where
  "valid_id i \<longleftrightarrow> i \<noteq> [] \<and> length i \<le> 40 \<and> list_all id_byte i"

section \<open>The journal's own validation\<close>

definition validate_rollout_identity :: "journal \<Rightarrow> rollout \<Rightarrow> unit result" where
  "validate_rollout_identity j r =
     ensure (jo_sequence j = ep_sequence (ro_epoch r)
         \<and> jo_sequence j > 0
         \<and> ep_sequence (ro_base_epoch r) < jo_sequence j
         \<and> ro_base_epoch r = epoch_new (ep_sequence (ro_base_epoch r)) (ro_base r)
         \<and> ro_epoch r = epoch_new (jo_sequence j) (ro_candidate r)
         \<and> bu_revision (ro_candidate r) > bu_revision (ro_base r)
         \<and> 1 \<le> length (ro_participants r) \<and> length (ro_participants r) \<le> 64
         \<and> jo_owner j \<in> fst ` set (ro_participants r)
         \<and> list_all (\<lambda>(n, _). valid_id n) (ro_participants r)
         \<and> ro_started r \<ge> 0 \<and> ro_updated r \<ge> ro_started r)
       ''Invalid rollout identity or membership''"

definition validate_recovery :: "rollout \<Rightarrow> unit result" where
  "validate_recovery r =
     (case ro_recovery_of r of
        None \<Rightarrow> Inr ()
      | Some previous \<Rightarrow>
          and_then (epoch_validate previous) (\<lambda>_.
          ensure (ep_sequence previous < ep_sequence (ro_epoch r)
              \<and> ep_revision previous = bu_revision (ro_base r)
              \<and> ep_digest previous = bu_digest (ro_base r)
              \<and> ro_phase r \<noteq> Aborted)
            ''Invalid recovery lineage''))"

definition validate_phase :: "journal \<Rightarrow> rollout \<Rightarrow> unit result" where
  "validate_phase j r =
     (case ro_phase r of
        Committed \<Rightarrow>
          ensure (jo_current_sequence j = jo_sequence j
              \<and> bu_digest (jo_current j) = bu_digest (ro_candidate r)
              \<and> list_all (\<lambda>(_, p). p \<ge> Prepared) (ro_participants r))
            ''Incomplete commit barrier''
      | Released \<Rightarrow>
          ensure (jo_current_sequence j = jo_sequence j
              \<and> bu_digest (jo_current j) = bu_digest (ro_candidate r)
              \<and> list_all (\<lambda>(_, p). p = Applied) (ro_participants r))
            ''Incomplete release barrier''
      | _ \<Rightarrow>
          ensure (jo_current_sequence j < jo_sequence j
              \<and> current_epoch j = ro_base_epoch r
              \<and> bu_digest (jo_current j) = bu_digest (ro_base r)
              \<and> list_all (\<lambda>(_, p). p \<noteq> Applied) (ro_participants r))
            ''Uncommitted rollout cannot contain an applied acknowledgement'')"

definition validate_rollout :: "bundle_validator \<Rightarrow> journal \<Rightarrow> rollout \<Rightarrow> unit result" where
  "validate_rollout bv j r =
     and_then (epoch_validate (ro_epoch r)) (\<lambda>_.
     and_then (epoch_validate (ro_base_epoch r)) (\<lambda>_.
     and_then (bv (ro_base r)) (\<lambda>_.
     and_then (bv (ro_candidate r)) (\<lambda>_.
     and_then (validate_rollout_identity j r) (\<lambda>_.
     and_then (validate_recovery r) (\<lambda>_.
     validate_phase j r))))))"

definition journal_validate :: "bundle_validator \<Rightarrow> journal \<Rightarrow> unit result" where
  "journal_validate bv j =
     and_then (ensure (jo_version j = 1 \<and> valid_id (jo_owner j)) ''Invalid activation journal'') (\<lambda>_.
     and_then (bv (jo_current j)) (\<lambda>_.
     and_then (epoch_validate (current_epoch j)) (\<lambda>_.
     and_then (ensure (jo_current_sequence j \<le> jo_sequence j) ''Invalid current activation sequence'') (\<lambda>_.
     case jo_rollout j of
       Some r \<Rightarrow> validate_rollout bv j r
     | None \<Rightarrow> ensure (jo_sequence j = 0) ''Missing activation rollout''))))"

definition validated :: "bundle_validator \<Rightarrow> journal \<Rightarrow> journal result" where
  "validated bv j = and_then (journal_validate bv j) (\<lambda>_. Inr j)"

section \<open>Operations\<close>

definition journal_initial :: "bundle_validator \<Rightarrow> string \<Rightarrow> policy_bundle \<Rightarrow> journal result" where
  "journal_initial bv owner active =
     validated bv \<lparr>jo_version = 1, jo_owner = owner, jo_current = active, jo_sequence = 0,
       jo_current_sequence = 0, jo_rollout = None\<rparr>"

definition checked_rollout :: "journal \<Rightarrow> epoch \<Rightarrow> int \<Rightarrow> rollout result" where
  "checked_rollout j e time =
     (case jo_rollout j of
        None \<Rightarrow> Inl ''No activation rollout''
      | Some r \<Rightarrow>
          and_then (ensure (ro_epoch r = e \<and> time \<ge> ro_updated r) ''Stale activation operation'') (\<lambda>_. Inr r))"

text \<open>\<open>BTreeMap::insert\<close>: the previous value and the map in key order.\<close>

fun btree_insert :: "'k::linorder \<Rightarrow> 'v \<Rightarrow> ('k \<times> 'v) list \<Rightarrow> ('k \<times> 'v) list" where
  "btree_insert k v [] = [(k, v)]"
| "btree_insert k v ((k', v') # m) =
     (if k < k' then (k, v) # (k', v') # m
      else if k = k' then (k, v) # m
      else (k', v') # btree_insert k v m)"

fun waiting_nodes :: "string list \<Rightarrow> participants \<Rightarrow> participants result" where
  "waiting_nodes [] nodes = Inr nodes"
| "waiting_nodes (i # ids) nodes =
     (if i \<in> fst ` set nodes then Inl ''Duplicate activation participant''
      else waiting_nodes ids (btree_insert i Waiting nodes))"

definition checked_succ :: "u64 \<Rightarrow> u64 option" where
  "checked_succ n = (if n = - 1 then None else Some (n + 1))"

definition start ::
    "policy_bundle \<Rightarrow> participants \<Rightarrow> int \<Rightarrow> epoch option \<Rightarrow> journal \<Rightarrow> journal result" where
  "start candidate nodes time recovery_of j =
     and_then (ensure (time \<ge> (case jo_rollout j of None \<Rightarrow> 0 | Some r \<Rightarrow> ro_updated r))
         ''Stale activation clock'') (\<lambda>_.
     case checked_succ (jo_sequence j) of
       None \<Rightarrow> Inl ''Activation sequence exhausted''
     | Some sequence \<Rightarrow> Inr (j\<lparr>jo_sequence := sequence, jo_rollout := Some
         \<lparr>ro_epoch = epoch_new sequence candidate, ro_base_epoch = current_epoch j,
          ro_base = jo_current j, ro_candidate = candidate, ro_phase = Preparing,
          ro_participants = nodes, ro_started = time, ro_updated = time,
          ro_recovery_of = recovery_of\<rparr>\<rparr>))"

definition proposed ::
    "bundle_validator \<Rightarrow> policy_bundle \<Rightarrow> string list \<Rightarrow> int \<Rightarrow> journal \<Rightarrow> journal result" where
  "proposed bv candidate ids time j =
     and_then (ensure (released j) ''Finish or explicitly recover the current activation'') (\<lambda>_.
     and_then (waiting_nodes ids []) (\<lambda>nodes.
     and_then (start candidate nodes time None j) (validated bv)))"

definition acknowledged ::
    "bundle_validator \<Rightarrow> string \<Rightarrow> acknowledgement \<Rightarrow> int \<Rightarrow> journal \<Rightarrow> journal result" where
  "acknowledged bv node ack time j =
     and_then (checked_rollout j (ack_epoch ack) time) (\<lambda>r.
     and_then (ensure (node \<in> fst ` set (ro_participants r)) ''Node is not an activation participant'') (\<lambda>_.
     and_then (ensure (ack_progress ack \<noteq> Waiting \<and> ro_phase r \<noteq> Aborted)
         ''Invalid activation acknowledgement'') (\<lambda>_.
     and_then (ensure (ack_progress ack \<noteq> Applied \<or> ro_phase r \<in> {Committed, Released})
         ''Cannot apply before durable commit'') (\<lambda>_.
     validated bv (j\<lparr>jo_rollout := Some (r
       \<lparr>ro_participants := map (\<lambda>(n, p). (n, if n = node then max p (ack_progress ack) else p))
           (ro_participants r),
        ro_updated := time\<rparr>)\<rparr>)))))"

definition committed :: "bundle_validator \<Rightarrow> epoch \<Rightarrow> int \<Rightarrow> journal \<Rightarrow> journal result" where
  "committed bv e time j =
     and_then (checked_rollout j e time) (\<lambda>r.
     and_then (ensure (ro_phase r \<noteq> Aborted \<and> list_all (\<lambda>(_, p). p \<ge> Prepared) (ro_participants r))
         ''Every participant must be prepared behind a drained admission fence'') (\<lambda>_.
     validated bv (j\<lparr>jo_current := ro_candidate r, jo_current_sequence := ep_sequence e,
       jo_rollout := Some (r\<lparr>ro_phase := (if ro_phase r = Preparing then Committed else ro_phase r),
         ro_updated := time\<rparr>)\<rparr>)))"

definition released_at :: "bundle_validator \<Rightarrow> epoch \<Rightarrow> int \<Rightarrow> journal \<Rightarrow> journal result" where
  "released_at bv e time j =
     and_then (checked_rollout j e time) (\<lambda>r.
     and_then (ensure (ro_phase r \<in> {Committed, Released}
           \<and> list_all (\<lambda>(_, p). p = Applied) (ro_participants r))
         ''Every participant must apply before admission resumes'') (\<lambda>_.
     validated bv (j\<lparr>jo_rollout := Some (r\<lparr>ro_phase := Released, ro_updated := time\<rparr>)\<rparr>)))"

definition aborted :: "bundle_validator \<Rightarrow> epoch \<Rightarrow> int \<Rightarrow> journal \<Rightarrow> journal result" where
  "aborted bv e time j =
     and_then (checked_rollout j e time) (\<lambda>r.
     and_then (ensure (abortable r \<or> ro_phase r = Aborted)
         ''Committed or recovery activation cannot abort into mixed policies'') (\<lambda>_.
     validated bv (j\<lparr>jo_rollout := Some (r\<lparr>ro_phase := Aborted, ro_updated := time\<rparr>)\<rparr>)))"

definition recovered :: "bundle_validator \<Rightarrow> epoch \<Rightarrow> policy_bundle \<Rightarrow> int \<Rightarrow> journal \<Rightarrow> journal result" where
  "recovered bv e rollback time j =
     and_then (checked_rollout j e time) (\<lambda>r.
     and_then (ensure (ro_phase r = Committed \<and> ro_recovery_of r = None)
         ''Only an original partially committed rollout can recover its previous policy'') (\<lambda>_.
     and_then (ensure (bu_settings rollback = bu_settings (ro_base r)
           \<and> bu_shared rollback = bu_shared (ro_base r) \<and> bu_files rollback = bu_files (ro_base r))
         ''Recovery must restore the exact previous policy and model bytes'') (\<lambda>_.
     and_then (start rollback (map (\<lambda>(n, _). (n, Waiting)) (ro_participants r)) time (Some e) j)
       (validated bv))))"

text \<open>The operations as one step function.\<close>

datatype journal_op =
    Propose policy_bundle "string list" int
  | Acknowledge string acknowledgement int
  | Commit epoch int
  | Release epoch int
  | Abort epoch int
  | Recover epoch policy_bundle int

fun journal_step :: "bundle_validator \<Rightarrow> journal_op \<Rightarrow> journal \<Rightarrow> journal result" where
  "journal_step bv (Propose candidate ids time) j = proposed bv candidate ids time j"
| "journal_step bv (Acknowledge node ack time) j = acknowledged bv node ack time j"
| "journal_step bv (Commit e time) j = committed bv e time j"
| "journal_step bv (Release e time) j = released_at bv e time j"
| "journal_step bv (Abort e time) j = aborted bv e time j"
| "journal_step bv (Recover e rollback time) j = recovered bv e rollback time j"

section \<open>Lemmas: validity\<close>

abbreviation journal_ok :: "bundle_validator \<Rightarrow> journal \<Rightarrow> bool" where
  "journal_ok bv j \<equiv> is_ok (journal_validate bv j)"

lemma validated_Inr [simp]: "validated bv j = Inr j' \<longleftrightarrow> j' = j \<and> journal_ok bv j"
  by (cases "journal_validate bv j") (auto simp: validated_def)

lemma is_ok_seq: "is_ok (and_then r (\<lambda>_. s)) \<longleftrightarrow> is_ok r \<and> is_ok s"
  by (cases r) simp_all

lemma journal_validate_ok:
  "journal_ok bv j \<longleftrightarrow> jo_version j = 1 \<and> valid_id (jo_owner j) \<and> is_ok (bv (jo_current j))
     \<and> is_ok (epoch_validate (current_epoch j)) \<and> jo_current_sequence j \<le> jo_sequence j
     \<and> (case jo_rollout j of None \<Rightarrow> jo_sequence j = 0 | Some r \<Rightarrow> is_ok (validate_rollout bv j r))"
  unfolding journal_validate_def is_ok_seq by (auto split: option.split)

lemma validate_rollout_ok:
  "is_ok (validate_rollout bv j r) \<longleftrightarrow> is_ok (epoch_validate (ro_epoch r)) \<and> is_ok (epoch_validate (ro_base_epoch r))
     \<and> is_ok (bv (ro_base r)) \<and> is_ok (bv (ro_candidate r)) \<and> is_ok (validate_rollout_identity j r)
     \<and> is_ok (validate_recovery r) \<and> is_ok (validate_phase j r)"
  unfolding validate_rollout_def is_ok_seq ..

lemma journal_rolloutD:
  assumes "journal_ok bv j" and "jo_rollout j = Some r"
  shows "jo_sequence j = ep_sequence (ro_epoch r)" and "ro_epoch r = epoch_new (jo_sequence j) (ro_candidate r)"
    and "jo_sequence j > 0" and "is_ok (validate_phase j r)" and "is_ok (validate_recovery r)"
    and "is_ok (epoch_validate (ro_epoch r))"
proof -
  have v: "is_ok (validate_rollout bv j r)" using assms by (simp add: journal_validate_ok)
  then have "is_ok (validate_rollout_identity j r)" using validate_rollout_ok by blast
  then show "jo_sequence j = ep_sequence (ro_epoch r)"
    and "ro_epoch r = epoch_new (jo_sequence j) (ro_candidate r)" and "jo_sequence j > 0"
    unfolding validate_rollout_identity_def is_ok_ensure by blast+
  from v show "is_ok (validate_phase j r)" and "is_ok (validate_recovery r)" and "is_ok (epoch_validate (ro_epoch r))"
    using validate_rollout_ok by blast+
qed

lemma journal_uncommittedD:
  assumes "journal_ok bv j" and "jo_rollout j = Some r" and "ro_phase r \<in> {Preparing, Aborted}"
  shows "jo_current_sequence j < jo_sequence j" and "current_epoch j = ro_base_epoch r"
  using journal_rolloutD(4) [OF assms(1,2)] assms(3) by (auto simp: validate_phase_def)

lemma applied_prepared:
  "list_all (\<lambda>(_, p). p = Applied) xs \<Longrightarrow> list_all (\<lambda>(_, p). p \<ge> Prepared) xs"
  by (induction xs) auto

lemma journal_committedD:
  assumes "journal_ok bv j" and "jo_rollout j = Some r" and "ro_phase r \<in> {Committed, Released}"
  shows "jo_current_sequence j = jo_sequence j" and "list_all (\<lambda>(_, p). p \<ge> Prepared) (ro_participants r)"
  using journal_rolloutD(4) [OF assms(1,2)] assms(3)
  by (auto simp: validate_phase_def simp del: progress_ge_Prepared dest: applied_prepared)

lemma checked_rollout_Inr:
  "checked_rollout j e time = Inr r \<longleftrightarrow> jo_rollout j = Some r \<and> ro_epoch r = e \<and> ro_updated r \<le> time"
  by (auto simp: checked_rollout_def and_then_Inr_iff split: option.split)

lemma current_epoch_rollout [simp]:
  "current_epoch (j\<lparr>jo_rollout := r\<rparr>) = current_epoch j"
  by (simp add: current_epoch_def)

lemma start_Inr:
  "start candidate nodes time rec j = Inr j' \<longleftrightarrow>
     (case jo_rollout j of None \<Rightarrow> 0 | Some r \<Rightarrow> ro_updated r) \<le> time \<and> jo_sequence j \<noteq> - 1 \<and>
     j' = j\<lparr>jo_sequence := jo_sequence j + 1, jo_rollout := Some
         \<lparr>ro_epoch = epoch_new (jo_sequence j + 1) candidate, ro_base_epoch = current_epoch j,
          ro_base = jo_current j, ro_candidate = candidate, ro_phase = Preparing,
          ro_participants = nodes, ro_started = time, ro_updated = time, ro_recovery_of = rec\<rparr>\<rparr>"
  by (auto simp: start_def and_then_Inr_iff checked_succ_def)

lemma succ_greater: "n \<noteq> - 1 \<Longrightarrow> n < n + 1" for n :: u64
proof -
  assume "n \<noteq> - 1"
  then have "1 + n \<noteq> 0" by (metis add.commute eq_neg_iff_add_eq_0)
  then show ?thesis by (simp add: word_less_nat_alt unatSuc add.commute)
qed

section \<open>Lemmas: one operation\<close>

text \<open>
  In every journal that operations produce, the current epoch of a committed rollout is that
  rollout's epoch. Validation alone compares the digest only.
\<close>

definition journal_inv :: "bundle_validator \<Rightarrow> journal \<Rightarrow> bool" where
  "journal_inv bv j \<longleftrightarrow> journal_ok bv j \<and>
     (\<forall>r. jo_rollout j = Some r \<and> ro_phase r \<in> {Committed, Released} \<longrightarrow> current_epoch j = ro_epoch r)"

text \<open>What one operation may change, whatever it is.\<close>

definition advances :: "journal \<Rightarrow> journal \<Rightarrow> bool" where
  "advances j j' \<longleftrightarrow>
     jo_owner j' = jo_owner j
     \<and> jo_sequence j \<le> jo_sequence j' \<and> jo_current_sequence j \<le> jo_current_sequence j'
     \<and> (jo_current_sequence j' = jo_current_sequence j \<longrightarrow> current_epoch j' = current_epoch j)
     \<and> (jo_current_sequence j' \<noteq> jo_current_sequence j \<longrightarrow>
          jo_sequence j' = jo_sequence j \<and> jo_current_sequence j' = jo_sequence j
          \<and> (\<exists>r. jo_rollout j = Some r \<and> ro_phase r = Preparing
               \<and> list_all (\<lambda>(_, p). p \<ge> Prepared) (ro_participants r)))
     \<and> (\<forall>r. jo_rollout j = Some r \<and> ro_phase r \<in> {Released, Aborted} \<and> jo_sequence j' = jo_sequence j \<longrightarrow>
          (\<exists>r'. jo_rollout j' = Some r' \<and> ro_phase r' = ro_phase r))"

lemma start_advances:
  assumes "start candidate nodes time rec j = Inr j'"
  shows "advances j j'"
proof -
  have "jo_sequence j < jo_sequence j + 1" using assms succ_greater by (auto simp: start_Inr)
  then show ?thesis using assms by (auto simp: start_Inr advances_def current_epoch_def)
qed

lemma start_Preparing:
  "start candidate nodes time rec j = Inr j' \<Longrightarrow> \<exists>r. jo_rollout j' = Some r \<and> ro_phase r = Preparing"
  by (auto simp: start_Inr)

lemma proposed_Inr:
  "proposed bv candidate ids time j = Inr j' \<longleftrightarrow> released j \<and> journal_ok bv j' \<and>
     (\<exists>nodes. waiting_nodes ids [] = Inr nodes \<and> start candidate nodes time None j = Inr j')"
  by (auto simp: proposed_def and_then_Inr_iff)

lemma recovered_Inr:
  "recovered bv e rollback time j = Inr j' \<longleftrightarrow> journal_ok bv j' \<and>
     (\<exists>r. jo_rollout j = Some r \<and> ro_epoch r = e \<and> ro_updated r \<le> time \<and> ro_phase r = Committed
        \<and> ro_recovery_of r = None \<and> bu_settings rollback = bu_settings (ro_base r)
        \<and> bu_shared rollback = bu_shared (ro_base r) \<and> bu_files rollback = bu_files (ro_base r)
        \<and> start rollback (map (\<lambda>(n, _). (n, Waiting)) (ro_participants r)) time (Some e) j = Inr j')"
  unfolding recovered_def and_then_Inr_iff checked_rollout_Inr ensure_Inr_iff validated_Inr by blast

definition record_ack :: "string \<Rightarrow> progress \<Rightarrow> participants \<Rightarrow> participants" where
  "record_ack node p = map (\<lambda>(n, q). (n, if n = node then max q p else q))"

lemma acknowledged_Inr:
  "acknowledged bv node ack time j = Inr j' \<longleftrightarrow> journal_ok bv j' \<and>
     (\<exists>r. jo_rollout j = Some r \<and> ro_epoch r = ack_epoch ack \<and> ro_updated r \<le> time
        \<and> node \<in> fst ` set (ro_participants r) \<and> ack_progress ack \<noteq> Waiting \<and> ro_phase r \<noteq> Aborted
        \<and> (ack_progress ack = Applied \<longrightarrow> ro_phase r \<in> {Committed, Released})
        \<and> j' = j\<lparr>jo_rollout := Some (r\<lparr>ro_participants := record_ack node (ack_progress ack) (ro_participants r),
            ro_updated := time\<rparr>)\<rparr>)"
  unfolding acknowledged_def and_then_Inr_iff checked_rollout_Inr ensure_Inr_iff validated_Inr record_ack_def by blast

lemma committed_Inr:
  "committed bv e time j = Inr j' \<longleftrightarrow> journal_ok bv j' \<and>
     (\<exists>r. jo_rollout j = Some r \<and> ro_epoch r = e \<and> ro_updated r \<le> time \<and> ro_phase r \<noteq> Aborted
        \<and> list_all (\<lambda>(_, p). p \<ge> Prepared) (ro_participants r)
        \<and> j' = j\<lparr>jo_current := ro_candidate r, jo_current_sequence := ep_sequence e,
            jo_rollout := Some (r\<lparr>ro_phase := (if ro_phase r = Preparing then Committed else ro_phase r),
              ro_updated := time\<rparr>)\<rparr>)"
  unfolding committed_def and_then_Inr_iff checked_rollout_Inr ensure_Inr_iff validated_Inr by blast

lemma released_at_Inr:
  "released_at bv e time j = Inr j' \<longleftrightarrow> journal_ok bv j' \<and>
     (\<exists>r. jo_rollout j = Some r \<and> ro_epoch r = e \<and> ro_updated r \<le> time \<and> ro_phase r \<in> {Committed, Released}
        \<and> list_all (\<lambda>(_, p). p = Applied) (ro_participants r)
        \<and> j' = j\<lparr>jo_rollout := Some (r\<lparr>ro_phase := Released, ro_updated := time\<rparr>)\<rparr>)"
  unfolding released_at_def and_then_Inr_iff checked_rollout_Inr ensure_Inr_iff validated_Inr by blast

lemma aborted_Inr:
  "aborted bv e time j = Inr j' \<longleftrightarrow> journal_ok bv j' \<and>
     (\<exists>r. jo_rollout j = Some r \<and> ro_epoch r = e \<and> ro_updated r \<le> time \<and> (abortable r \<or> ro_phase r = Aborted)
        \<and> j' = j\<lparr>jo_rollout := Some (r\<lparr>ro_phase := Aborted, ro_updated := time\<rparr>)\<rparr>)"
  unfolding aborted_def and_then_Inr_iff checked_rollout_Inr ensure_Inr_iff validated_Inr by blast

lemmas journal_op_Inr = proposed_Inr acknowledged_Inr committed_Inr released_at_Inr aborted_Inr recovered_Inr

lemma journal_step_ok: "journal_step bv op j = Inr j' \<Longrightarrow> journal_ok bv j'"
  by (cases op) (simp_all add: journal_op_Inr)

text \<open>An operation on the current rollout keeps the epoch, the base, the members and the lineage.\<close>

lemma same_rollout_advances:
  assumes "jo_rollout j = Some r" and "jo_rollout j' = Some r'" and "jo_owner j' = jo_owner j"
    and "jo_sequence j' = jo_sequence j"
    and "jo_current_sequence j' = jo_current_sequence j" and "current_epoch j' = current_epoch j"
    and "ro_phase r \<in> {Released, Aborted} \<Longrightarrow> ro_phase r' = ro_phase r"
  shows "advances j j'"
  using assms by (auto simp: advances_def)

lemma current_epoch_committed:
  assumes "journal_ok bv j" and "jo_rollout j = Some r" and "ro_epoch r = e"
  shows "current_epoch (j\<lparr>jo_current := ro_candidate r, jo_current_sequence := ep_sequence e, jo_rollout := x\<rparr>) = e"
  using journal_rolloutD(1,2) [OF assms(1,2)] assms(3) by (simp add: current_epoch_def)

lemma committed_advances:
  assumes inv: "journal_inv bv j" and "committed bv e time j = Inr j'"
  shows "advances j j'" and "journal_inv bv j'"
proof -
  have ok: "journal_ok bv j" using inv by (simp add: journal_inv_def)
  from assms(2) obtain r where r: "jo_rollout j = Some r" "ro_epoch r = e" "ro_phase r \<noteq> Aborted"
    and all: "list_all (\<lambda>(_, p). p \<ge> Prepared) (ro_participants r)" and ok': "journal_ok bv j'"
    and j': "j' = j\<lparr>jo_current := ro_candidate r, jo_current_sequence := ep_sequence e,
            jo_rollout := Some (r\<lparr>ro_phase := (if ro_phase r = Preparing then Committed else ro_phase r),
              ro_updated := time\<rparr>)\<rparr>"
    unfolding committed_Inr by blast
  have e': "current_epoch j' = e" unfolding j' by (rule current_epoch_committed [OF ok r(1,2)])
  have s: "jo_sequence j = ep_sequence e" using journal_rolloutD(1) [OF ok r(1)] r(2) by simp
  have c: "jo_current_sequence j' = jo_sequence j" "jo_sequence j' = jo_sequence j" "jo_owner j' = jo_owner j"
    using s by (simp_all add: j')
  have le: "jo_current_sequence j \<le> jo_sequence j" using ok by (simp add: journal_validate_ok)
  show "journal_inv bv j'" using ok' e' r(2) by (auto simp: journal_inv_def j')
  show "advances j j'"
  proof (cases "ro_phase r = Preparing")
    case True
    then have "jo_current_sequence j < jo_sequence j" using journal_uncommittedD(1) [OF ok r(1)] by simp
    with True all c r le show ?thesis by (auto simp: advances_def)
  next
    case False
    with r(3) have "ro_phase r \<in> {Committed, Released}" by (cases "ro_phase r") auto
    with inv r(1,2) journal_committedD(1) [OF ok r(1)] have "current_epoch j = e" "jo_current_sequence j = jo_sequence j"
      by (auto simp: journal_inv_def)
    moreover from False have "\<exists>r'. jo_rollout j' = Some r' \<and> ro_phase r' = ro_phase r" by (simp add: j')
    ultimately show ?thesis using c e' r by (auto simp: advances_def)
  qed
qed

lemma journal_step_advances:
  assumes inv: "journal_inv bv j" and step: "journal_step bv op j = Inr j'"
  shows "advances j j' \<and> journal_inv bv j'"
proof -
  have ok: "journal_ok bv j" using inv by (simp add: journal_inv_def)
  have ok': "journal_ok bv j'" using step by (rule journal_step_ok)
  show ?thesis
  proof (cases op)
    case (Propose candidate ids time)
    then obtain nodes where "start candidate nodes time None j = Inr j'" using step by (auto simp: proposed_Inr)
    then show ?thesis using start_advances start_Preparing ok' by (fastforce simp: journal_inv_def)
  next
    case (Acknowledge node ack time)
    then obtain r where r: "jo_rollout j = Some r" and j': "j' = j\<lparr>jo_rollout :=
        Some (r\<lparr>ro_participants := record_ack node (ack_progress ack) (ro_participants r), ro_updated := time\<rparr>)\<rparr>"
      using step by (auto simp: acknowledged_Inr)
    then have r': "jo_rollout j' = Some (r\<lparr>ro_participants :=
        record_ack node (ack_progress ack) (ro_participants r), ro_updated := time\<rparr>)" by simp
    have "advances j j'" by (rule same_rollout_advances [OF r r']) (simp_all add: j')
    with inv ok' r show ?thesis by (auto simp: journal_inv_def j')
  next
    case (Commit e time)
    then show ?thesis using committed_advances [OF inv, of e time j'] step by simp
  next
    case (Release e time)
    then obtain r where r: "jo_rollout j = Some r" "ro_phase r \<in> {Committed, Released}"
      and j': "j' = j\<lparr>jo_rollout := Some (r\<lparr>ro_phase := Released, ro_updated := time\<rparr>)\<rparr>"
      using step by (auto simp: released_at_Inr)
    then have r': "jo_rollout j' = Some (r\<lparr>ro_phase := Released, ro_updated := time\<rparr>)" by simp
    have "advances j j'" by (rule same_rollout_advances [OF r(1) r']) (use r(2) in \<open>auto simp: j'\<close>)
    with inv ok' r show ?thesis by (auto simp: journal_inv_def j')
  next
    case (Abort e time)
    then obtain r where r: "jo_rollout j = Some r" "abortable r \<or> ro_phase r = Aborted"
      and j': "j' = j\<lparr>jo_rollout := Some (r\<lparr>ro_phase := Aborted, ro_updated := time\<rparr>)\<rparr>"
      using step by (auto simp: aborted_Inr)
    then have r': "jo_rollout j' = Some (r\<lparr>ro_phase := Aborted, ro_updated := time\<rparr>)" by simp
    have "advances j j'" by (rule same_rollout_advances [OF r(1) r']) (use r(2) in \<open>auto simp: j' abortable_def\<close>)
    with inv ok' r show ?thesis by (auto simp: journal_inv_def j')
  next
    case (Recover e rollback time)
    then obtain nodes where "start rollback nodes time (Some e) j = Inr j'" using step by (auto simp: recovered_Inr)
    then show ?thesis using start_advances start_Preparing ok' by (fastforce simp: journal_inv_def)
  qed
qed

text \<open>The journals an authority can reach, and the one it starts from.\<close>

inductive journal_reachable :: "bundle_validator \<Rightarrow> journal \<Rightarrow> bool" for bv where
  initial: "journal_initial bv owner active = Inr j \<Longrightarrow> journal_reachable bv j"
| step: "journal_reachable bv j \<Longrightarrow> journal_step bv op j = Inr j' \<Longrightarrow> journal_reachable bv j'"

lemma journal_initial_inv: "journal_initial bv owner active = Inr j \<Longrightarrow> journal_inv bv j"
  by (auto simp: journal_initial_def journal_inv_def)

lemma journal_reachable_inv: "journal_reachable bv j \<Longrightarrow> journal_inv bv j"
  by (induction rule: journal_reachable.induct) (use journal_initial_inv journal_step_advances in blast)+

section \<open>Lemmas: any number of operations\<close>

text \<open>
  What an older journal of the same authority says about the present one. A directive that
  arrives late carries such a journal.
\<close>

definition older :: "journal \<Rightarrow> journal \<Rightarrow> bool" where
  "older h j \<longleftrightarrow>
     jo_sequence h \<le> jo_sequence j \<and> jo_current_sequence h \<le> jo_current_sequence j
     \<and> (jo_current_sequence h = jo_current_sequence j \<longrightarrow> current_epoch h = current_epoch j)
     \<and> (\<forall>r. jo_rollout h = Some r \<and> ro_phase r = Aborted \<longrightarrow>
          jo_current_sequence j = jo_current_sequence h \<or> jo_current_sequence j > jo_sequence h)
     \<and> (\<forall>r. jo_rollout h = Some r \<and> ro_phase r \<in> {Released, Aborted} \<and> jo_sequence h = jo_sequence j \<longrightarrow>
          (\<exists>r'. jo_rollout j = Some r' \<and> ro_phase r' = ro_phase r))"

lemma older_refl: "older j j"
  by (auto simp: older_def)

lemma older_advances:
  assumes h: "older h j" and a: "advances j j'"
  shows "older h j'"
proof -
  have s: "jo_sequence h \<le> jo_sequence j" "jo_sequence j \<le> jo_sequence j'"
    and c: "jo_current_sequence h \<le> jo_current_sequence j" "jo_current_sequence j \<le> jo_current_sequence j'"
    using h a by (auto simp: older_def advances_def)
  have e: "current_epoch h = current_epoch j'" if "jo_current_sequence h = jo_current_sequence j'"
  proof -
    have "jo_current_sequence h = jo_current_sequence j" "jo_current_sequence j' = jo_current_sequence j"
      using that c by auto
    then show ?thesis using h a by (auto simp: older_def advances_def)
  qed
  have p: "\<exists>r'. jo_rollout j' = Some r' \<and> ro_phase r' = ro_phase r"
    if "jo_rollout h = Some r" "ro_phase r \<in> {Released, Aborted}" "jo_sequence h = jo_sequence j'" for r
  proof -
    have "jo_sequence h = jo_sequence j" "jo_sequence j' = jo_sequence j" using that(3) s by auto
    with h a that(1,2) show ?thesis unfolding older_def advances_def by metis
  qed
  have x: "jo_current_sequence j' = jo_current_sequence h \<or> jo_current_sequence j' > jo_sequence h"
    if r: "jo_rollout h = Some r" "ro_phase r = Aborted" for r
  proof (cases "jo_current_sequence j' = jo_current_sequence j")
    case True
    then show ?thesis using h r by (auto simp: older_def)
  next
    case False
    then obtain r0 where r0: "jo_rollout j = Some r0" "ro_phase r0 = Preparing"
      and j': "jo_current_sequence j' = jo_sequence j"
      using a by (auto simp: advances_def)
    have "jo_sequence h \<noteq> jo_sequence j" using h r r0 by (auto simp: older_def)
    with s(1) j' show ?thesis by auto
  qed
  show ?thesis using s c e p x unfolding older_def by auto
qed

section \<open>Lemmas: a whole rollout\<close>

fun journal_run :: "bundle_validator \<Rightarrow> journal_op list \<Rightarrow> journal \<Rightarrow> journal result" where
  "journal_run bv [] j = Inr j"
| "journal_run bv (op # ops) j = and_then (journal_step bv op j) (journal_run bv ops)"

lemma journal_run_append:
  "journal_run bv (ops @ ops') j = and_then (journal_run bv ops j) (journal_run bv ops')"
proof (induction ops arbitrary: j)
  case (Cons op ops)
  then show ?case by (cases "journal_step bv op j") simp_all
qed simp

definition members_ok :: "string \<Rightarrow> participants \<Rightarrow> bool" where
  "members_ok owner parts \<longleftrightarrow> 1 \<le> length parts \<and> length parts \<le> 64 \<and> owner \<in> fst ` set parts
     \<and> list_all (\<lambda>(n, _). valid_id n) parts"

lemma btree_insert_length: "k \<notin> fst ` set m \<Longrightarrow> length (btree_insert k v m) = Suc (length m)"
  by (induction k v m rule: btree_insert.induct) auto

lemma btree_insert_fst: "fst ` set (btree_insert k v m) = insert k (fst ` set m)"
  by (induction k v m rule: btree_insert.induct) auto

lemma btree_insert_snd: "snd ` set (btree_insert k v m) \<subseteq> insert v (snd ` set m)"
  by (induction k v m rule: btree_insert.induct) auto

lemma waiting_nodes_distinct:
  assumes "distinct ids" and "set ids \<inter> fst ` set m = {}"
  shows "\<exists>m'. waiting_nodes ids m = Inr m' \<and> length m' = length ids + length m
    \<and> fst ` set m' = set ids \<union> fst ` set m \<and> snd ` set m' \<subseteq> insert Waiting (snd ` set m)"
  using assms
proof (induction ids arbitrary: m)
  case (Cons i ids)
  have "set ids \<inter> fst ` set (btree_insert i Waiting m) = {}" using Cons.prems by (auto simp: btree_insert_fst)
  from Cons.IH [OF _ this] Cons.prems(1) obtain m' where m': "waiting_nodes ids (btree_insert i Waiting m) = Inr m'"
    "length m' = length ids + length (btree_insert i Waiting m)"
    "fst ` set m' = set ids \<union> fst ` set (btree_insert i Waiting m)"
    "snd ` set m' \<subseteq> insert Waiting (snd ` set (btree_insert i Waiting m))"
    by auto
  have i: "i \<notin> fst ` set m" using Cons.prems by simp
  have "snd ` set m' \<subseteq> insert Waiting (snd ` set m)" using m'(4) btree_insert_snd [of i Waiting m] by blast
  with m' i show ?case by (auto simp: btree_insert_length btree_insert_fst)
qed (simp add: subset_insertI)

lemma record_ack_members: "members_ok owner parts \<Longrightarrow> members_ok owner (record_ack n p parts)"
  by (force simp: members_ok_def record_ack_def list_all_iff)

lemma record_ack_list_all:
  "(\<And>q. P q \<Longrightarrow> P (max q p)) \<Longrightarrow> list_all (\<lambda>(_, q). P q) parts \<Longrightarrow> list_all (\<lambda>(_, q). P q) (record_ack n p parts)"
  by (induction parts) (auto simp: record_ack_def)

lemma max_progress:
  "q \<noteq> Applied \<Longrightarrow> max q Prepared \<noteq> Applied" "max q Applied = Applied"
  by (cases q; simp add: max_def less_eq_progress_def)+

lemma record_ack_fst: "map fst (record_ack n p parts) = map fst parts"
  by (auto simp: record_ack_def)

definition record_acks :: "progress \<Rightarrow> string list \<Rightarrow> participants \<Rightarrow> participants" where
  "record_acks p ids parts = foldl (\<lambda>ps n. record_ack n p ps) parts ids"

lemma record_acks_simps [simp]:
  "record_acks p [] parts = parts"
  "record_acks p (n # ids) parts = record_acks p ids (record_ack n p parts)"
  by (simp_all add: record_acks_def)

lemma record_acks_map:
  "record_acks p ids parts = map (\<lambda>(n, q). (n, if n \<in> set ids then max q p else q)) parts"
proof (induction ids arbitrary: parts)
  case (Cons i ids)
  then show ?case by (auto simp: record_ack_def max_def)
qed simp

lemma record_acks_members: "members_ok owner parts \<Longrightarrow> members_ok owner (record_acks p ids parts)"
  by (induction ids arbitrary: parts) (simp_all add: record_ack_members)

lemma record_acks_all:
  "fst ` set parts \<subseteq> set ids \<Longrightarrow> list_all (\<lambda>(_, q). q \<ge> p) (record_acks p ids parts)"
  by (force simp: record_acks_map list_all_iff)

text \<open>
  The shapes of the journal during a rollout: \<open>preparing\<close> before the commit, \<open>switched\<close> after
  it.
\<close>

definition rollout_of :: "journal \<Rightarrow> policy_bundle \<Rightarrow> int \<Rightarrow> phase \<Rightarrow> participants \<Rightarrow> rollout" where
  "rollout_of j candidate time ph parts =
     \<lparr>ro_epoch = epoch_new (jo_sequence j + 1) candidate, ro_base_epoch = current_epoch j,
      ro_base = jo_current j, ro_candidate = candidate, ro_phase = ph, ro_participants = parts,
      ro_started = time, ro_updated = time, ro_recovery_of = None\<rparr>"

definition preparing :: "journal \<Rightarrow> policy_bundle \<Rightarrow> int \<Rightarrow> participants \<Rightarrow> journal" where
  "preparing j candidate time parts =
     j\<lparr>jo_sequence := jo_sequence j + 1, jo_rollout := Some (rollout_of j candidate time Preparing parts)\<rparr>"

definition switched :: "journal \<Rightarrow> policy_bundle \<Rightarrow> int \<Rightarrow> phase \<Rightarrow> participants \<Rightarrow> journal" where
  "switched j candidate time ph parts =
     j\<lparr>jo_current := candidate, jo_sequence := jo_sequence j + 1, jo_current_sequence := jo_sequence j + 1,
       jo_rollout := Some (rollout_of j candidate time ph parts)\<rparr>"

text \<open>A proposal the authority accepts.\<close>

definition proposable :: "bundle_validator \<Rightarrow> journal \<Rightarrow> policy_bundle \<Rightarrow> string list \<Rightarrow> int \<Rightarrow> bool" where
  "proposable bv j candidate ids time \<longleftrightarrow>
     released j \<and> is_ok (bv candidate) \<and> valid_hash (bu_digest candidate)
     \<and> bu_revision candidate > bu_revision (jo_current j) \<and> jo_sequence j < 2 ^ 63 - 1
     \<and> distinct ids \<and> length ids \<le> 64 \<and> jo_owner j \<in> set ids \<and> list_all valid_id ids
     \<and> time \<ge> 0 \<and> (case jo_rollout j of None \<Rightarrow> 0 | Some r \<Rightarrow> ro_updated r) \<le> time"

lemma proposable_sequence:
  assumes "proposable bv j candidate ids time"
  shows "jo_sequence j + 1 \<le> 2 ^ 63 - 1" and "jo_sequence j < jo_sequence j + 1" and "jo_sequence j \<noteq> - 1"
proof -
  have s: "jo_sequence j < 2 ^ 63 - 1" using assms by (simp add: proposable_def)
  then show "jo_sequence j + 1 \<le> 2 ^ 63 - 1" by (rule inc_le)
  show "jo_sequence j \<noteq> - 1" using s by auto
  then show "jo_sequence j < jo_sequence j + 1" by (rule succ_greater)
qed

lemma preparing_ok:
  assumes inv: "journal_ok bv j" and p: "proposable bv j candidate ids time"
    and m: "members_ok (jo_owner j) parts" and w: "list_all (\<lambda>(_, q). q \<noteq> Applied) parts"
  shows "journal_ok bv (preparing j candidate time parts)"
proof -
  note s = proposable_sequence [OF p]
  have j: "jo_version j = 1" "valid_id (jo_owner j)" "is_ok (bv (jo_current j))"
    "is_ok (epoch_validate (current_epoch j))" "jo_current_sequence j \<le> jo_sequence j"
    using inv by (simp_all add: journal_validate_ok)
  have c: "jo_current_sequence j < jo_sequence j + 1" "jo_current_sequence j \<le> jo_sequence j + 1"
    using s(2) j(5) by auto
  have pos: "jo_sequence j + 1 > 0" using s(2) by (rule le_less_trans [OF word_zero_le])
  have "is_ok (epoch_validate (epoch_new (jo_sequence j + 1) candidate))"
    using p s(1) j(4) by (auto simp: proposable_def epoch_validate_def epoch_new_def current_epoch_def)
  then show ?thesis
    using j c pos p m w
    by (simp add: journal_validate_ok preparing_def rollout_of_def validate_rollout_ok validate_rollout_identity_def
        validate_recovery_def validate_phase_def members_ok_def proposable_def)
       (simp add: current_epoch_def epoch_new_def)
qed

lemma switched_ok:
  assumes inv: "journal_ok bv j" and p: "proposable bv j candidate ids time"
    and m: "members_ok (jo_owner j) parts"
    and w: "(ph = Committed \<and> list_all (\<lambda>(_, q). q \<ge> Prepared) parts) \<or> (ph = Released \<and> list_all (\<lambda>(_, q). q = Applied) parts)"
  shows "journal_ok bv (switched j candidate time ph parts)"
proof -
  note s = proposable_sequence [OF p]
  have j: "jo_version j = 1" "valid_id (jo_owner j)" "is_ok (bv (jo_current j))"
    "is_ok (epoch_validate (current_epoch j))" "jo_current_sequence j \<le> jo_sequence j"
    using inv by (simp_all add: journal_validate_ok)
  have c: "jo_current_sequence j < jo_sequence j + 1" using s(2) j(5) by auto
  have pos: "jo_sequence j + 1 > 0" using s(2) by (rule le_less_trans [OF word_zero_le])
  have e: "is_ok (epoch_validate (epoch_new (jo_sequence j + 1) candidate))"
    using p s(1) j(4) by (auto simp: proposable_def epoch_validate_def epoch_new_def current_epoch_def)
  have k: "current_epoch (switched j candidate time ph parts) = epoch_new (jo_sequence j + 1) candidate"
    by (simp add: current_epoch_def switched_def)
  show ?thesis
    using j c pos p m w e k
    by (auto simp: journal_validate_ok switched_def rollout_of_def validate_rollout_ok validate_rollout_identity_def
        validate_recovery_def validate_phase_def members_ok_def proposable_def current_epoch_def epoch_new_def
        simp del: progress_ge_Prepared)
qed

lemma preparing_ack:
  assumes inv: "journal_ok bv j" and p: "proposable bv j candidate ids time"
    and m: "members_ok (jo_owner j) parts" and w: "list_all (\<lambda>(_, q). q \<noteq> Applied) parts"
    and n: "n \<in> fst ` set parts"
  shows "acknowledged bv n \<lparr>ack_epoch = epoch_new (jo_sequence j + 1) candidate, ack_progress = Prepared\<rparr> time
      (preparing j candidate time parts) = Inr (preparing j candidate time (record_ack n Prepared parts))
    \<and> list_all (\<lambda>(_, q). q \<noteq> Applied) (record_ack n Prepared parts)"
proof -
  have w': "list_all (\<lambda>(_, q). q \<noteq> Applied) (record_ack n Prepared parts)"
    using max_progress(1) w by (rule record_ack_list_all)
  show ?thesis
    using preparing_ok [OF inv p record_ack_members [OF m] w'] w' n
    by (simp add: acknowledged_Inr) (simp add: preparing_def rollout_of_def)
qed

lemma preparing_acks:
  assumes inv: "journal_ok bv j" and p: "proposable bv j candidate ids time"
    and "members_ok (jo_owner j) parts" and "list_all (\<lambda>(_, q). q \<noteq> Applied) parts"
    and "set ns \<subseteq> fst ` set parts"
  shows "journal_run bv (map (\<lambda>n. Acknowledge n
      \<lparr>ack_epoch = epoch_new (jo_sequence j + 1) candidate, ack_progress = Prepared\<rparr> time) ns)
      (preparing j candidate time parts) = Inr (preparing j candidate time (record_acks Prepared ns parts))"
  using assms(3-)
proof (induction ns arbitrary: parts)
  case (Cons n ns)
  have "set ns \<subseteq> fst ` set (record_ack n Prepared parts)"
    using Cons.prems(3) record_ack_fst [of n Prepared parts] by (metis list.set_map set_subset_Cons subset_trans)
  with Cons preparing_ack [OF inv p Cons.prems(1,2), of n] record_ack_members show ?case by simp
qed simp

lemma switched_ack:
  assumes inv: "journal_ok bv j" and p: "proposable bv j candidate ids time"
    and m: "members_ok (jo_owner j) parts" and w: "list_all (\<lambda>(_, q). q \<ge> Prepared) parts"
    and n: "n \<in> fst ` set parts"
  shows "acknowledged bv n \<lparr>ack_epoch = epoch_new (jo_sequence j + 1) candidate, ack_progress = Applied\<rparr> time
      (switched j candidate time Committed parts) = Inr (switched j candidate time Committed (record_ack n Applied parts))
    \<and> list_all (\<lambda>(_, q). q \<ge> Prepared) (record_ack n Applied parts)"
proof -
  have w': "list_all (\<lambda>(_, q). q \<ge> Prepared) (record_ack n Applied parts)"
    using _ w by (rule record_ack_list_all) (simp add: max_progress)
  show ?thesis
    using switched_ok [OF inv p record_ack_members [OF m], of Committed] w' n
    by (simp add: acknowledged_Inr) (simp add: switched_def rollout_of_def)
qed

lemma switched_acks:
  assumes inv: "journal_ok bv j" and p: "proposable bv j candidate ids time"
    and "members_ok (jo_owner j) parts" and "list_all (\<lambda>(_, q). q \<ge> Prepared) parts"
    and "set ns \<subseteq> fst ` set parts"
  shows "journal_run bv (map (\<lambda>n. Acknowledge n
      \<lparr>ack_epoch = epoch_new (jo_sequence j + 1) candidate, ack_progress = Applied\<rparr> time) ns)
      (switched j candidate time Committed parts) = Inr (switched j candidate time Committed (record_acks Applied ns parts))"
  using assms(3-)
proof (induction ns arbitrary: parts)
  case (Cons n ns)
  have "set ns \<subseteq> fst ` set (record_ack n Applied parts)"
    using Cons.prems(3) record_ack_fst [of n Applied parts] by (metis list.set_map set_subset_Cons subset_trans)
  with Cons switched_ack [OF inv p Cons.prems(1,2), of n] record_ack_members show ?case by simp
qed simp

lemma proposed_preparing:
  assumes ok: "journal_ok bv j" and p: "proposable bv j candidate ids time"
  shows "\<exists>parts. proposed bv candidate ids time j = Inr (preparing j candidate time parts)
    \<and> members_ok (jo_owner j) parts \<and> fst ` set parts = set ids \<and> list_all (\<lambda>(_, q). q \<noteq> Applied) parts"
proof -
  obtain parts where w: "waiting_nodes ids [] = Inr parts" "length parts = length ids"
    "fst ` set parts = set ids" "snd ` set parts \<subseteq> {Waiting}"
    using waiting_nodes_distinct [of ids "[]"] p by (auto simp: proposable_def)
  have m: "members_ok (jo_owner j) parts"
  proof -
    have "ids \<noteq> []" using p by (auto simp: proposable_def)
    moreover have "valid_id n" if "(n, q) \<in> set parts" for n q
    proof -
      have "n \<in> set ids" using that w(3) by force
      then show ?thesis using p by (simp add: proposable_def list_all_iff)
    qed
    ultimately show ?thesis using w p by (cases ids) (auto simp: members_ok_def list_all_iff proposable_def)
  qed
  have a: "list_all (\<lambda>(_, q). q \<noteq> Applied) parts" using w(4) by (force simp: list_all_iff)
  have "start candidate parts time None j = Inr (preparing j candidate time parts)"
    using p proposable_sequence(3) [OF p] by (simp add: start_Inr preparing_def rollout_of_def proposable_def)
  then have "proposed bv candidate ids time j = Inr (preparing j candidate time parts)"
    using w(1) preparing_ok [OF ok p m a] p by (auto simp: proposed_Inr proposable_def)
  with m w(3) a show ?thesis by blast
qed

lemma preparing_committed:
  assumes "journal_ok bv j" and "proposable bv j candidate ids time"
    and "members_ok (jo_owner j) parts" and w: "list_all (\<lambda>(_, q). q \<ge> Prepared) parts"
  shows "committed bv (epoch_new (jo_sequence j + 1) candidate) time (preparing j candidate time parts)
    = Inr (switched j candidate time Committed parts)"
proof -
  let ?r = "rollout_of j candidate time Preparing parts"
  have "switched j candidate time Committed parts = (preparing j candidate time parts)
      \<lparr>jo_current := ro_candidate ?r, jo_current_sequence := ep_sequence (epoch_new (jo_sequence j + 1) candidate),
       jo_rollout := Some (?r\<lparr>ro_phase := (if ro_phase ?r = Preparing then Committed else ro_phase ?r),
         ro_updated := time\<rparr>)\<rparr>"
    by (simp add: preparing_def switched_def rollout_of_def epoch_new_def)
  moreover have "jo_rollout (preparing j candidate time parts) = Some ?r"
    "ro_epoch ?r = epoch_new (jo_sequence j + 1) candidate" "ro_updated ?r \<le> time" "ro_phase ?r \<noteq> Aborted"
    "ro_participants ?r = parts"
    by (simp_all add: preparing_def rollout_of_def)
  ultimately show ?thesis
    unfolding committed_Inr using switched_ok [OF assms(1-3), of Committed] w by metis
qed

lemma switched_released:
  assumes "journal_ok bv j" and "proposable bv j candidate ids time"
    and "members_ok (jo_owner j) parts" and w: "list_all (\<lambda>(_, q). q \<ge> Applied) parts"
  shows "released_at bv (epoch_new (jo_sequence j + 1) candidate) time (switched j candidate time Committed parts)
    = Inr (switched j candidate time Released parts)"
  using switched_ok [OF assms(1-3), of Released] w
  by (simp add: released_at_Inr) (simp add: switched_def rollout_of_def)

text \<open>A small authority on which concrete instances are evaluated.\<close>

definition sample_bundle :: "int \<Rightarrow> char \<Rightarrow> policy_bundle" where
  "sample_bundle revision digit = \<lparr>bu_credential_generation = None, bu_revision = revision,
     bu_settings = [], bu_shared = [], bu_files = [], bu_digest = replicate 64 digit\<rparr>"

definition sample_epoch :: epoch where
  "sample_epoch = epoch_new 1 (sample_bundle 2 (CHR ''b''))"

definition sample_journal :: journal where
  "sample_journal = \<lparr>jo_version = 1, jo_owner = ''a'', jo_current = sample_bundle 1 (CHR ''a''),
     jo_sequence = 0, jo_current_sequence = 0, jo_rollout = None\<rparr>"

lemma sample_initial: "journal_initial (\<lambda>_. Inr ()) ''a'' (sample_bundle 1 (CHR ''a'')) = Inr sample_journal"
  by code_simp

lemma sample_bundle_revision [simp]: "bu_revision (sample_bundle r d) = r"
  by (simp add: sample_bundle_def)

lemma sample_bundle_digest [simp]:
  "valid_hash (bu_digest (sample_bundle r (CHR ''a'')))" "valid_hash (bu_digest (sample_bundle r (CHR ''b'')))"
  by (simp_all add: sample_bundle_def valid_hash_def list_all_iff) code_simp+

lemma sample_id [simp]: "valid_id ''a''"
  by code_simp

lemmas journal_defs = sample_journal_def sample_epoch_def proposed_def released_def start_def checked_succ_def
  current_epoch_def epoch_new_def validated_def journal_validate_def epoch_validate_def validate_rollout_def
  validate_rollout_identity_def validate_recovery_def validate_phase_def ensure_def acknowledged_def
  checked_rollout_def committed_def released_at_def

lemma sample_reachable: "journal_reachable (\<lambda>_. Inr ()) sample_journal"
  by (rule journal_reachable.initial [OF sample_initial])

lemma journal_run_reachable:
  "journal_run bv ops j = Inr j' \<Longrightarrow> journal_reachable bv j \<Longrightarrow> journal_reachable bv j'"
  by (induction ops arbitrary: j) (auto simp: and_then_Inr_iff intro: journal_reachable.step)

section \<open>Properties\<close>

text \<open>
  C7: the policy in force changes only through the commit barrier. An operation on a journal of
  the authority never lowers its sequence numbers; if it changes the current epoch it is the
  commit of the epoch that was being prepared, every participant has acknowledged preparation,
  and the new policy is the candidate; and no journal is released before every participant has
  applied.
\<close>

theorem commit_barrier:
  assumes "journal_reachable bv j" and "journal_step bv op j = Inr j'"
  shows "jo_sequence j \<le> jo_sequence j' \<and> jo_current_sequence j \<le> jo_current_sequence j'
    \<and> (current_epoch j' \<noteq> current_epoch j \<longrightarrow> (\<exists>e time r. op = Commit e time \<and> jo_rollout j = Some r
         \<and> ro_epoch r = e \<and> ro_phase r = Preparing \<and> list_all (\<lambda>(_, p). p \<ge> Prepared) (ro_participants r)
         \<and> current_epoch j' = e \<and> jo_current j' = ro_candidate r))
    \<and> (\<forall>r. jo_rollout j' = Some r \<and> ro_phase r = Released \<longrightarrow> list_all (\<lambda>(_, p). p = Applied) (ro_participants r))"
proof -
  have inv: "journal_inv bv j" using assms(1) by (rule journal_reachable_inv)
  then have ok: "journal_ok bv j" by (simp add: journal_inv_def)
  have a: "advances j j'" and inv': "journal_inv bv j'" using journal_step_advances [OF inv assms(2)] by auto
  have rel: "list_all (\<lambda>(_, p). p = Applied) (ro_participants r)"
    if "jo_rollout j' = Some r" "ro_phase r = Released" for r
    using journal_rolloutD(4) [of bv j' r] inv' that by (simp add: journal_inv_def validate_phase_def)
  have com: "\<exists>e time r. op = Commit e time \<and> jo_rollout j = Some r
         \<and> ro_epoch r = e \<and> ro_phase r = Preparing \<and> list_all (\<lambda>(_, p). p \<ge> Prepared) (ro_participants r)
         \<and> current_epoch j' = e \<and> jo_current j' = ro_candidate r"
    if ne: "current_epoch j' \<noteq> current_epoch j"
  proof -
    from a ne obtain r where r: "jo_rollout j = Some r" "ro_phase r = Preparing"
      and all: "list_all (\<lambda>(_, p). p \<ge> Prepared) (ro_participants r)"
      unfolding advances_def by blast
    obtain e time where op: "op = Commit e time"
      using assms(2) ne
      by (cases op) (auto simp: proposed_Inr acknowledged_Inr released_at_Inr aborted_Inr recovered_Inr start_Inr
          current_epoch_def)
    with assms(2) r have e: "ro_epoch r = e" and c: "jo_current j' = ro_candidate r"
      by (auto simp: committed_Inr)
    have "current_epoch j' = e"
      using assms(2) op current_epoch_committed [OF ok r(1) e] r(1) by (auto simp: committed_Inr)
    with op r e all c show ?thesis by blast
  qed
  show ?thesis using a rel com by (auto simp: advances_def)
qed

theorem commit_barrier_witness:
  "\<exists>j j'. journal_reachable (\<lambda>_. Inr ()) j \<and> journal_step (\<lambda>_. Inr ()) (Commit sample_epoch 12) j = Inr j'
     \<and> jo_sequence j \<le> jo_sequence j'
     \<and> current_epoch j' = sample_epoch \<and> current_epoch j \<noteq> sample_epoch
     \<and> (\<exists>r. jo_rollout j = Some r \<and> list_all (\<lambda>(_, p). p \<ge> Prepared) (ro_participants r))"
proof -
  let ?bv = "\<lambda>_. Inr ()"
  let ?ops = "[Propose (sample_bundle 2 (CHR ''b'')) [''a''] 10,
    Acknowledge ''a'' \<lparr>ack_epoch = sample_epoch, ack_progress = Prepared\<rparr> 11]"
  have "\<exists>j j'. journal_run ?bv ?ops sample_journal = Inr j
      \<and> journal_step ?bv (Commit sample_epoch 12) j = Inr j'
      \<and> current_epoch j' = sample_epoch \<and> current_epoch j \<noteq> sample_epoch"
    by (simp add: journal_defs)
  then obtain j j' where run: "journal_run ?bv ?ops sample_journal = Inr j"
    and com: "journal_step ?bv (Commit sample_epoch 12) j = Inr j'"
    and ne: "current_epoch j' = sample_epoch" "current_epoch j \<noteq> sample_epoch" by blast
  have r: "journal_reachable ?bv j" by (rule journal_run_reachable [OF run sample_reachable])
  from commit_barrier [OF r com] ne r com show ?thesis by metis
qed

text \<open>
  C23: a rollout can complete. From any journal of the authority that is released, a proposal
  with a newer valid policy to any list of distinct valid nodes with the authority among them,
  followed by the nodes' acknowledgements in any given order, the commit, their second
  acknowledgements and the release, is accepted at every step and ends released with the
  candidate in force.
\<close>

theorem rollout_completes:
  assumes "journal_reachable bv j" and "proposable bv j candidate ids time" and "mset ns = mset ids" and "mset ms = mset ids"
  shows "\<exists>j'. journal_run bv
      ([Propose candidate ids time]
       @ map (\<lambda>n. Acknowledge n \<lparr>ack_epoch = epoch_new (jo_sequence j + 1) candidate, ack_progress = Prepared\<rparr> time) ns
       @ [Commit (epoch_new (jo_sequence j + 1) candidate) time]
       @ map (\<lambda>n. Acknowledge n \<lparr>ack_epoch = epoch_new (jo_sequence j + 1) candidate, ack_progress = Applied\<rparr> time) ms
       @ [Release (epoch_new (jo_sequence j + 1) candidate) time]) j = Inr j'
    \<and> released j' \<and> jo_current j' = candidate \<and> current_epoch j' = epoch_new (jo_sequence j + 1) candidate"
proof -
  have ok: "journal_ok bv j" using journal_reachable_inv [OF assms(1)] by (simp add: journal_inv_def)
  note p = assms(2)
  obtain parts where pro: "proposed bv candidate ids time j = Inr (preparing j candidate time parts)"
    and m: "members_ok (jo_owner j) parts" and k: "fst ` set parts = set ids"
    and w: "list_all (\<lambda>(_, q). q \<noteq> Applied) parts"
    using proposed_preparing [OF ok p] by blast
  have sets: "set ns = set ids" "set ms = set ids" using assms(3,4) by (metis set_mset_mset)+
  let ?ps = "record_acks Prepared ns parts" and ?qs = "record_acks Applied ms (record_acks Prepared ns parts)"
  have mp: "members_ok (jo_owner j) ?ps" and mq: "members_ok (jo_owner j) ?qs"
    using m by (simp_all add: record_acks_members)
  have k': "fst ` set ?ps = set ids" using k by (force simp: record_acks_map)
  have ap: "list_all (\<lambda>(_, q). q \<ge> Prepared) ?ps" by (rule record_acks_all) (simp add: k sets)
  have aq: "list_all (\<lambda>(_, q). q \<ge> Applied) ?qs" by (rule record_acks_all) (simp only: k' sets order_refl)
  have "released (switched j candidate time Released ?qs)"
    by (simp add: released_def switched_def rollout_of_def)
  moreover have "jo_current (switched j candidate time Released ?qs) = candidate"
    and "current_epoch (switched j candidate time Released ?qs) = epoch_new (jo_sequence j + 1) candidate"
    by (simp_all add: switched_def current_epoch_def)
  ultimately show ?thesis
    using pro preparing_acks [OF ok p m w, of ns] preparing_committed [OF ok p mp ap]
      switched_acks [OF ok p mp ap, of ms] switched_released [OF ok p mq aq] k k' sets
    by (simp add: journal_run_append)
qed

theorem rollout_completes_witness:
  "\<exists>j'. journal_run (\<lambda>_. Inr ())
      [Propose (sample_bundle 2 (CHR ''b'')) [''a''] 10,
       Acknowledge ''a'' \<lparr>ack_epoch = sample_epoch, ack_progress = Prepared\<rparr> 10,
       Commit sample_epoch 10,
       Acknowledge ''a'' \<lparr>ack_epoch = sample_epoch, ack_progress = Applied\<rparr> 10,
       Release sample_epoch 10] sample_journal = Inr j'
     \<and> released j' \<and> current_epoch j' = sample_epoch"
proof -
  have p: "proposable (\<lambda>_. Inr ()) sample_journal (sample_bundle 2 (CHR ''b'')) [''a''] 10"
    by (simp add: proposable_def released_def sample_journal_def)
  have e: "epoch_new (jo_sequence sample_journal + 1) (sample_bundle 2 (CHR ''b'')) = sample_epoch"
    by (simp add: sample_epoch_def sample_journal_def)
  from rollout_completes [OF sample_reachable p refl refl] show ?thesis unfolding e by auto
qed

end
