(* ===== verification/NF_Gate.thy ===== *)
theory NF_Gate
  imports NF_Activation
begin

text \<open>
  A node's side of coordinated activation: the admission gate
  (\<open>src/cluster/activation/gate.rs\<close>) and the participant's durable view of the authority
  (\<open>src/cluster/activation/participant.rs\<close>). Each critical section of the gate is a function
  of its state; \<open>drain\<close> has two, one that raises the fence and one that is repeated after
  each notification until the last acceptance has ended. A \<open>Drained\<close> proof is the fence it
  was issued for; the pointer comparison that rejects a proof of another gate is not modelled,
  since a gate is one value here.
\<close>

section \<open>The gate\<close>

record gate =
  ga_active :: "epoch option"
  ga_fence :: "epoch option"
  ga_closed :: bool
  ga_accepting :: u64

definition gate_new :: "epoch option \<Rightarrow> bool \<Rightarrow> gate" where
  "gate_new active shut = \<lparr>ga_active = active, ga_fence = None, ga_closed = shut, ga_accepting = 0\<rparr>"

definition gate_legacy :: gate where
  "gate_legacy = gate_new None False"

definition gate_recovering :: "epoch option \<Rightarrow> gate result" where
  "gate_recovering active =
     and_then (case active of None \<Rightarrow> Inr () | Some e \<Rightarrow> epoch_validate e) (\<lambda>_. Inr (gate_new active True))"

definition gate_ready :: "gate \<Rightarrow> bool" where
  "gate_ready g \<longleftrightarrow> \<not> ga_closed g"

definition gate_enter :: "epoch option \<Rightarrow> gate \<Rightarrow> gate result" where
  "gate_enter expected g =
     and_then (ensure (\<not> ga_closed g \<and> ga_active g = expected)
         ''Activation in progress or SMTP policy changed; retry'') (\<lambda>_.
     case checked_succ (ga_accepting g) of
       None \<Rightarrow> Inl ''Too many acceptance leases''
     | Some n \<Rightarrow> Inr (g\<lparr>ga_accepting := n\<rparr>))"

definition acceptance_drop :: "gate \<Rightarrow> gate" where
  "acceptance_drop g = g\<lparr>ga_accepting := ga_accepting g - 1\<rparr>"

definition drain_fence :: "epoch \<Rightarrow> gate \<Rightarrow> gate result" where
  "drain_fence target g =
     and_then (epoch_validate target) (\<lambda>_.
     and_then (case ga_fence g of
         None \<Rightarrow> Inr ()
       | Some previous \<Rightarrow>
           ensure (ep_sequence target > ep_sequence previous \<or> (target = previous \<and> ga_closed g))
             ''Stale or conflicting activation fence'') (\<lambda>_.
     and_then (ensure (is_none_or (ga_active g) (\<lambda>active. target = active
           \<or> (ep_sequence target > ep_sequence active \<and> ep_revision target > ep_revision active)))
         ''Fence predates or conflicts with loaded runtime'') (\<lambda>_.
     Inr (g\<lparr>ga_closed := True, ga_fence := Some target\<rparr>))))"

text \<open>One turn of the waiting loop: an error, or whether the gate is drained.\<close>

definition drain_poll :: "epoch \<Rightarrow> gate \<Rightarrow> bool result" where
  "drain_poll target g =
     and_then (ensure (ga_closed g \<and> ga_fence g = Some target) ''Activation fence superseded'') (\<lambda>_.
     Inr (ga_accepting g = 0))"

definition bind_initial :: "epoch \<Rightarrow> epoch \<Rightarrow> gate \<Rightarrow> gate result" where
  "bind_initial proof_fence installed g =
     and_then (epoch_validate installed) (\<lambda>_.
     and_then (ensure (ga_closed g \<and> ga_accepting g = 0 \<and> ga_fence g = Some proof_fence \<and> ga_active g = None
           \<and> ep_sequence installed < ep_sequence proof_fence \<and> ep_revision installed < ep_revision proof_fence)
         ''Initial snapshot cannot be bound'') (\<lambda>_.
     Inr (g\<lparr>ga_active := Some installed\<rparr>)))"

definition resume :: "epoch \<Rightarrow> epoch \<Rightarrow> gate \<Rightarrow> gate result" where
  "resume proof_fence installed g =
     and_then (epoch_validate installed) (\<lambda>_.
     and_then (ensure (ga_fence g = Some proof_fence) ''Stale drain proof'') (\<lambda>_.
     and_then (ensure (installed = proof_fence \<or> ga_active g = Some installed)
         ''Unprepared runtime cannot resume admission'') (\<lambda>_.
     if \<not> ga_closed g then
       and_then (ensure (ga_active g = Some installed) ''Release replay changed the runtime'') (\<lambda>_. Inr g)
     else
       and_then (ensure (ga_accepting g = 0) ''Acceptance still running'') (\<lambda>_.
       Inr (g\<lparr>ga_active := Some installed, ga_closed := False\<rparr>)))))"

section \<open>The participant's journal\<close>

record participant =
  lo_version :: u8
  lo_node :: string
  lo_authority :: journal
  lo_installed :: policy_bundle
  lo_installed_epoch :: epoch
  lo_prepared :: "epoch option"

definition lo_acknowledgement :: "participant \<Rightarrow> acknowledgement option" where
  "lo_acknowledgement l =
     (case jo_rollout (lo_authority l) of
        None \<Rightarrow> None
      | Some r \<Rightarrow>
          if ro_phase r = Aborted then None
          else if lo_installed_epoch l = ro_epoch r then
            Some \<lparr>ack_epoch = ro_epoch r, ack_progress = Applied\<rparr>
          else if lo_prepared l = Some (ro_epoch r) then
            Some \<lparr>ack_epoch = ro_epoch r, ack_progress = Prepared\<rparr>
          else None)"

definition validate_local_phase :: "participant \<Rightarrow> rollout \<Rightarrow> unit result" where
  "validate_local_phase l r =
     (case ro_phase r of
        Preparing \<Rightarrow> ensure (ep_sequence (lo_installed_epoch l) < ep_sequence (ro_epoch r))
          ''Uncommitted runtime installed''
      | Committed \<Rightarrow> ensure (lo_prepared l = Some (ro_epoch r)) ''Commit without local preparation''
      | Released \<Rightarrow> ensure (lo_prepared l = Some (ro_epoch r) \<and> lo_installed_epoch l = ro_epoch r)
          ''Release without local application''
      | Aborted \<Rightarrow> ensure (lo_installed_epoch l = ro_base_epoch r) ''Abort would restore a different runtime'')"

definition local_validate :: "bundle_validator \<Rightarrow> participant \<Rightarrow> unit result" where
  "local_validate bv l =
     and_then (journal_validate bv (lo_authority l)) (\<lambda>_.
     and_then (bv (lo_installed l)) (\<lambda>_.
     and_then (epoch_validate (lo_installed_epoch l)) (\<lambda>_.
     case jo_rollout (lo_authority l) of
       None \<Rightarrow> Inl ''Missing participant rollout''
     | Some r \<Rightarrow>
         and_then (ensure (lo_version l = 1 \<and> lo_node l \<in> fst ` set (ro_participants r)
             \<and> lo_installed_epoch l = epoch_new (ep_sequence (lo_installed_epoch l)) (lo_installed l)
             \<and> ep_sequence (lo_installed_epoch l) \<le> ep_sequence (ro_epoch r)
             \<and> is_none_or (lo_prepared l) (\<lambda>e. e = ro_epoch r))
           ''Invalid participant journal'') (\<lambda>_.
         validate_local_phase l r))))"

text \<open>
  \<open>Local::observe\<close>, whose \<open>unwrap\<close> on the saved rollout is a panic: a saved journal was
  validated and has one, and the model gives the error of the validation there.
\<close>

definition observe_same :: "rollout \<Rightarrow> rollout \<Rightarrow> unit result" where
  "observe_same old r =
     and_then (ensure (ro_epoch r = ro_epoch old \<and> ro_base_epoch r = ro_base_epoch old
           \<and> ro_recovery_of r = ro_recovery_of old
           \<and> map fst (ro_participants r) = map fst (ro_participants old)
           \<and> list_all (\<lambda>(n, p). case map_of (ro_participants old) n of None \<Rightarrow> False | Some q \<Rightarrow> p \<ge> q)
               (ro_participants r))
         ''Conflicting activation directive'') (\<lambda>_.
     ensure (ro_phase r = ro_phase old
           \<or> (ro_phase old, ro_phase r) \<in> {(Preparing, Committed), (Preparing, Aborted), (Committed, Released)})
         ''Activation phase regressed or skipped'')"

definition observe_recovery :: "rollout \<Rightarrow> epoch \<Rightarrow> rollout \<Rightarrow> unit result" where
  "observe_recovery old previous r =
     ensure (previous = ro_epoch old \<and> ro_base_epoch r = ro_epoch old
         \<and> ro_phase old \<in> {Preparing, Committed} \<and> ro_phase r = Preparing
         \<and> map fst (ro_participants r) = map fst (ro_participants old))
       ''Invalid recovery transition''"

definition observe_transition :: "participant \<Rightarrow> rollout \<Rightarrow> rollout \<Rightarrow> unit result" where
  "observe_transition l old r =
     and_then (ensure (ep_sequence (ro_epoch r) \<ge> ep_sequence (ro_epoch old)) ''Stale activation directive'') (\<lambda>_.
     if ep_sequence (ro_epoch r) = ep_sequence (ro_epoch old) then observe_same old r
     else case ro_recovery_of r of
         Some previous \<Rightarrow> observe_recovery old previous r
       | None \<Rightarrow> ensure (ro_phase r \<in> {Preparing, Aborted} \<and> ro_base_epoch r = lo_installed_epoch l)
           ''Previous activation not resolved locally'')"

definition enroll :: "string \<Rightarrow> journal \<Rightarrow> rollout \<Rightarrow> participant result" where
  "enroll node authority r =
     and_then (ensure (ro_phase r \<in> {Preparing, Aborted} \<and> ro_recovery_of r = None)
         ''An unprepared node cannot enroll into a committed rollout'') (\<lambda>_.
     Inr \<lparr>lo_version = 1, lo_node = node, lo_authority = authority, lo_installed = ro_base r,
       lo_installed_epoch = ro_base_epoch r, lo_prepared = None\<rparr>)"

definition local_validated :: "bundle_validator \<Rightarrow> participant \<Rightarrow> participant result" where
  "local_validated bv l = and_then (local_validate bv l) (\<lambda>_. Inr l)"

definition observe_from :: "participant option \<Rightarrow> string \<Rightarrow> journal \<Rightarrow> rollout \<Rightarrow> participant result" where
  "observe_from previous node authority r =
     (case previous of
        None \<Rightarrow> enroll node authority r
      | Some l \<Rightarrow>
          and_then (ensure (lo_node l = node \<and> jo_owner (lo_authority l) = jo_owner authority)
              ''Activation authority changed'') (\<lambda>_.
          case jo_rollout (lo_authority l) of
            None \<Rightarrow> Inl ''Missing participant rollout''
          | Some old \<Rightarrow> and_then (observe_transition l old r) (\<lambda>_. Inr l)))"

definition observe :: "bundle_validator \<Rightarrow> participant option \<Rightarrow> string \<Rightarrow> journal \<Rightarrow> participant result" where
  "observe bv previous node authority =
     and_then (journal_validate bv authority) (\<lambda>_.
     case jo_rollout authority of
       None \<Rightarrow> Inl ''Missing activation directive''
     | Some r \<Rightarrow>
         and_then (ensure (node \<in> fst ` set (ro_participants r)) ''Node excluded from activation'') (\<lambda>_.
         and_then (observe_from previous node authority r) (\<lambda>l.
         local_validated bv (l
           \<lparr>lo_prepared := (if map_option ro_epoch (jo_rollout (lo_authority l)) \<noteq> Some (ro_epoch r)
                then None else lo_prepared l),
            lo_authority := authority\<rparr>))))"

definition prepared_local :: "bundle_validator \<Rightarrow> participant \<Rightarrow> participant result" where
  "prepared_local bv l =
     (case jo_rollout (lo_authority l) of
        None \<Rightarrow> Inl ''Missing participant rollout''
      | Some r \<Rightarrow>
          and_then (ensure (ro_phase r = Preparing) ''Not preparing'') (\<lambda>_.
          local_validated bv (l\<lparr>lo_prepared := Some (ro_epoch r)\<rparr>)))"

definition applied_local :: "bundle_validator \<Rightarrow> participant \<Rightarrow> participant result" where
  "applied_local bv l =
     (case jo_rollout (lo_authority l) of
        None \<Rightarrow> Inl ''Missing participant rollout''
      | Some r \<Rightarrow>
          and_then (ensure (ro_phase r = Committed \<and> lo_prepared l = Some (ro_epoch r)) ''Not prepared for commit'') (\<lambda>_.
          local_validated bv (l\<lparr>lo_installed := ro_candidate r, lo_installed_epoch := ro_epoch r\<rparr>)))"

section \<open>Lemmas\<close>

abbreviation participant_ok :: "bundle_validator \<Rightarrow> participant \<Rightarrow> bool" where
  "participant_ok bv l \<equiv> is_ok (local_validate bv l)"

definition lo_sequence :: "participant \<Rightarrow> u64" where
  "lo_sequence l = jo_sequence (lo_authority l)"

lemma local_validated_Inr [simp]: "local_validated bv l = Inr l' \<longleftrightarrow> l' = l \<and> participant_ok bv l"
  by (cases "local_validate bv l") (auto simp: local_validated_def)

lemma participant_okD:
  assumes "participant_ok bv l"
  obtains r where "jo_rollout (lo_authority l) = Some r" "journal_ok bv (lo_authority l)"
    "is_ok (validate_local_phase l r)" "is_ok (epoch_validate (lo_installed_epoch l))"
proof (cases "jo_rollout (lo_authority l)")
  case None
  with assms have False unfolding local_validate_def is_ok_seq by simp
  then show thesis ..
next
  case (Some r)
  with assms have "journal_ok bv (lo_authority l)" "is_ok (validate_local_phase l r)"
    "is_ok (epoch_validate (lo_installed_epoch l))"
    unfolding local_validate_def is_ok_seq by (auto split: sum.splits)
  with Some that show thesis by blast
qed

lemma lo_sequence_rollout:
  "participant_ok bv l \<Longrightarrow> jo_rollout (lo_authority l) = Some r \<Longrightarrow> lo_sequence l = ep_sequence (ro_epoch r)"
  by (erule participant_okD) (simp add: lo_sequence_def journal_rolloutD(1))

lemma observe_Inr:
  assumes "observe bv previous node j = Inr l"
  shows "participant_ok bv l" and "lo_authority l = j"
    and "previous = Some old \<Longrightarrow> participant_ok bv old \<Longrightarrow> lo_sequence old \<le> lo_sequence l"
proof -
  from assms obtain r l0 where ok: "journal_ok bv j" and r: "jo_rollout j = Some r"
    and from_l0: "observe_from previous node j r = Inr l0" and l: "participant_ok bv l"
    and a: "lo_authority l = j"
    by (auto simp: observe_def and_then_Inr_iff is_ok_iff split: option.splits)
  show "participant_ok bv l" "lo_authority l = j" using l a by simp_all
  assume p: "previous = Some old" and o: "participant_ok bv old"
  from o obtain ro where ro: "jo_rollout (lo_authority old) = Some ro" by (rule participant_okD)
  from from_l0 p ro have "ep_sequence (ro_epoch ro) \<le> ep_sequence (ro_epoch r)"
    by (auto simp: observe_from_def observe_transition_def and_then_Inr_iff)
  then show "lo_sequence old \<le> lo_sequence l"
    using lo_sequence_rollout [OF o ro] lo_sequence_rollout [OF l, of r] r a by simp
qed

lemma prepared_local_Inr:
  "prepared_local bv l = Inr l' \<Longrightarrow> participant_ok bv l' \<and> lo_authority l' = lo_authority l"
  by (auto simp: prepared_local_def and_then_Inr_iff split: option.splits)

lemma applied_local_Inr:
  "applied_local bv l = Inr l' \<Longrightarrow> participant_ok bv l' \<and> lo_authority l' = lo_authority l"
  by (auto simp: applied_local_def and_then_Inr_iff split: option.splits)

lemma lo_acknowledgement_epoch:
  "lo_acknowledgement l = Some a \<Longrightarrow> participant_ok bv l \<Longrightarrow> ep_sequence (ack_epoch a) = lo_sequence l"
  by (auto simp: lo_acknowledgement_def dest: lo_sequence_rollout split: option.splits if_splits)

lemma drain_fence_Inr:
  "drain_fence target g = Inr g' \<Longrightarrow> ga_closed g' \<and> ga_active g' = ga_active g \<and> ga_accepting g' = ga_accepting g"
  by (auto simp: drain_fence_def and_then_Inr_iff)

lemma resume_Inr:
  "resume fence installed g = Inr g' \<Longrightarrow> ga_active g' = Some installed \<and> ga_accepting g' = ga_accepting g"
  by (auto simp: resume_def and_then_Inr_iff split: if_splits)

lemma bind_initial_Inr:
  "bind_initial fence installed g = Inr g' \<Longrightarrow> ga_closed g' = ga_closed g \<and> ga_accepting g' = ga_accepting g"
  by (auto simp: bind_initial_def and_then_Inr_iff)

lemma gate_enter_Inr:
  "gate_enter expected g = Inr g' \<Longrightarrow> \<not> ga_closed g \<and> ga_closed g' = ga_closed g \<and> ga_active g' = ga_active g"
  by (auto simp: gate_enter_def and_then_Inr_iff split: option.splits)

end
