(* ===== verification/NF_Cluster.thy ===== *)
theory NF_Cluster
  imports NF_Gate
begin

text \<open>
  The cluster under coordinated activation: one authority with its journal, nodes that run
  the participant driver (\<open>synchronize_activation\<close> in \<open>src/control/activation.rs\<close>) and a
  network that may lose, delay, repeat and reorder both directives and acknowledgements.

  A node's task is cut at the points where the source releases control: after the fence is
  raised, after the drained fence and the observed journal are persisted, and after the action
  of the phase. It may fail at any point, and the process may stop and start again, which loses
  the gate, the task and the resident runtime and keeps the persisted journal. A task whose
  runtime does not load or whose transaction fails ends in the failure step. What the driver
  reads of the process around it (the clock, credential fingerprints, the snapshot that runs)
  is the request of a directive; the lease it extends (\<open>cluster_until\<close>) is not modelled.
\<close>

section \<open>A node\<close>

datatype task = Fencing participant | Persisted participant

record node =
  nd_local :: "participant option"
  nd_gate :: gate
  nd_task :: "task option"
  nd_resident :: "epoch option"

definition node_new :: node where
  "node_new = \<lparr>nd_local = None, nd_gate = gate_legacy, nd_task = None, nd_resident = None\<rparr>"

text \<open>
  What a directive brings and what the driver reads beside the journal: the fingerprint of the
  credentials received and of the ones installed, the two clocks, and the running snapshot, with
  the digest the resident publication has (on the authority) and the digest of a bundle with
  its credential binding removed.
\<close>

record sync_request =
  sr_keys :: string
  sr_server_time :: int
  sr_now :: int
  sr_worker :: bool
  sr_installed_digest :: string
  sr_revision :: int
  sr_credential_generation :: "string option"
  sr_provider_fingerprint :: "string option"
  sr_publication_digest :: "string result"
  sr_unbound_digest :: "policy_bundle \<Rightarrow> string result"
  sr_cluster_keys :: string

definition unbound_matches :: "sync_request \<Rightarrow> string \<Rightarrow> rollout \<Rightarrow> bool result" where
  "unbound_matches rq installed r =
     (if sr_credential_generation rq \<noteq> None then Inr False
      else and_then (sr_unbound_digest rq (ro_base r)) (\<lambda>digest.
           Inr (installed = digest
             \<and> is_none_or (bu_credential_generation (ro_base r)) (\<lambda>h. sr_provider_fingerprint rq = Some h))))"

definition base_installed :: "sync_request \<Rightarrow> string \<Rightarrow> rollout \<Rightarrow> bool result" where
  "base_installed rq installed r =
     (if installed = ep_digest (ro_base_epoch r) then Inr True else unbound_matches rq installed r)"

definition validate_enrollment :: "sync_request \<Rightarrow> rollout \<Rightarrow> unit result" where
  "validate_enrollment rq r =
     (if sr_worker rq then
        (if sr_installed_digest rq = [] \<and> sr_revision rq = 0 then Inr ()
         else and_then (base_installed rq (sr_installed_digest rq) r) (\<lambda>same.
              ensure (same \<and> sr_revision rq = ep_revision (ro_base_epoch r))
                ''Enrollment base differs from the installed worker policy''))
      else and_then (sr_publication_digest rq) (\<lambda>digest.
           and_then (base_installed rq digest r) (\<lambda>same.
           ensure same ''Enrollment base differs from the resident authority policy'')))"

definition selected_keys :: "sync_request \<Rightarrow> rollout \<Rightarrow> string" where
  "selected_keys rq r =
     (case bu_credential_generation (if ro_phase r = Aborted then ro_base r else ro_candidate r) of
        Some generation \<Rightarrow> generation
      | None \<Rightarrow> sr_keys rq)"

text \<open>
  The first part of the driver, under the permit that serializes it: the directive is observed,
  and either the running runtime is the one it selects, and the observation is persisted, or
  the fence is raised.
\<close>

definition sync_start ::
    "bundle_validator \<Rightarrow> sync_request \<Rightarrow> string \<Rightarrow> journal \<Rightarrow> node \<Rightarrow> (node \<times> acknowledgement option) result" where
  "sync_start bv rq name j nd =
     and_then (ensure (\<bar>sr_server_time rq - sr_now rq\<bar> \<le> 300) ''Activation clock skew'') (\<lambda>_.
     and_then (ensure (valid_hash (sr_keys rq)) ''Invalid credential fingerprint'') (\<lambda>_.
     and_then (ensure (nd_task nd = None) ''Busy'') (\<lambda>_.
     and_then (observe bv (nd_local nd) name j) (\<lambda>l.
     case jo_rollout (lo_authority l) of
       None \<Rightarrow> Inl ''Missing participant rollout''
     | Some r \<Rightarrow>
         and_then (if nd_local nd = None then validate_enrollment rq r else Inr ()) (\<lambda>_.
         if ro_phase r \<in> {Released, Aborted} \<and> gate_ready (nd_gate nd)
            \<and> nd_resident nd = Some (lo_installed_epoch l)
         then and_then (ensure (sr_cluster_keys rq = selected_keys rq r)
                  ''Credentials changed; prepare a new activation'') (\<lambda>_.
              Inr (nd\<lparr>nd_local := Some l\<rparr>, lo_acknowledgement l))
         else and_then (drain_fence (ro_epoch r) (nd_gate nd)) (\<lambda>g.
              Inr (nd\<lparr>nd_gate := g, nd_task := Some (Fencing l)\<rparr>, None)))))))"

text \<open>Once the gate is drained, the fence is persisted, and a legacy runtime is bound.\<close>

definition sync_drained :: "node \<Rightarrow> node result" where
  "sync_drained nd =
     (case nd_task nd of
        Some (Fencing l) \<Rightarrow>
          (case jo_rollout (lo_authority l) of
             None \<Rightarrow> Inl ''Missing participant rollout''
           | Some r \<Rightarrow>
               and_then (drain_poll (ro_epoch r) (nd_gate nd)) (\<lambda>drained.
               if \<not> drained then Inl ''Waiting for acceptances''
               else (let nd1 = nd\<lparr>nd_local := Some l, nd_task := Some (Persisted l)\<rparr>
                     in if ga_active (nd_gate nd) \<noteq> None then Inr nd1
                        else and_then (bind_initial (ro_epoch r) (lo_installed_epoch l) (nd_gate nd)) (\<lambda>g.
                             Inr (nd1\<lparr>nd_gate := g, nd_resident := Some (lo_installed_epoch l)\<rparr>)))))
      | _ \<Rightarrow> Inl ''No fence'')"

text \<open>The action of the phase, which ends the task and gives the receipt.\<close>

definition sync_finish ::
    "bundle_validator \<Rightarrow> node \<Rightarrow> (node \<times> acknowledgement option) result" where
  "sync_finish bv nd =
     (case nd_task nd of
        Some (Persisted l) \<Rightarrow>
          (case jo_rollout (lo_authority l) of
             None \<Rightarrow> Inl ''Missing participant rollout''
           | Some r \<Rightarrow>
               (case ro_phase r of
                  Preparing \<Rightarrow>
                    and_then (prepared_local bv l) (\<lambda>l'.
                    Inr (nd\<lparr>nd_local := Some l', nd_task := None\<rparr>, lo_acknowledgement l'))
                | Committed \<Rightarrow>
                    and_then (applied_local bv l) (\<lambda>l'.
                    Inr (nd\<lparr>nd_local := Some l', nd_task := None,
                           nd_resident := Some (lo_installed_epoch l')\<rparr>, lo_acknowledgement l'))
                | _ \<Rightarrow>
                    and_then (resume (ro_epoch r) (lo_installed_epoch l) (nd_gate nd)) (\<lambda>g.
                    Inr (nd\<lparr>nd_gate := g, nd_task := None,
                           nd_resident := Some (lo_installed_epoch l)\<rparr>, lo_acknowledgement l))))
      | _ \<Rightarrow> Inl ''Not drained'')"

text \<open>
  Opening the store: with a participant's journal, or on the authority with its own, the gate
  is recovered closed; without either the node is a legacy one and admits.
\<close>

definition restart_gate :: "epoch option \<Rightarrow> participant option \<Rightarrow> gate result" where
  "restart_gate authority_epoch l =
     (case option_or (map_option lo_installed_epoch l) authority_epoch of
        Some e \<Rightarrow> gate_recovering (Some e)
      | None \<Rightarrow> Inr gate_legacy)"

section \<open>The cluster\<close>

record cluster =
  cl_journal :: journal
  cl_history :: "journal set"
  cl_acks :: "(string \<times> acknowledgement) set"
  cl_node :: "string \<Rightarrow> node"

definition cluster_new :: "journal \<Rightarrow> cluster" where
  "cluster_new j = \<lparr>cl_journal = j, cl_history = {j}, cl_acks = {}, cl_node = (\<lambda>_. node_new)\<rparr>"

text \<open>
  The authority proposes to every registered node and takes acknowledgements that their nodes
  have sent.
\<close>

definition op_allowed :: "string set \<Rightarrow> (string \<times> acknowledgement) set \<Rightarrow> journal_op \<Rightarrow> bool" where
  "op_allowed nodes acks op =
     (case op of
        Propose _ ids _ \<Rightarrow> set ids = nodes
      | Acknowledge n a _ \<Rightarrow> (n, a) \<in> acks
      | _ \<Rightarrow> True)"

definition send :: "string \<Rightarrow> acknowledgement option \<Rightarrow> (string \<times> acknowledgement) set \<Rightarrow> (string \<times> acknowledgement) set" where
  "send n a acks = (case a of None \<Rightarrow> acks | Some x \<Rightarrow> insert (n, x) acks)"

definition set_node :: "string \<Rightarrow> node \<Rightarrow> cluster \<Rightarrow> cluster" where
  "set_node n nd c = c\<lparr>cl_node := (cl_node c)(n := nd)\<rparr>"

inductive cluster_step :: "bundle_validator \<Rightarrow> string set \<Rightarrow> cluster \<Rightarrow> cluster \<Rightarrow> bool"
  for bv nodes where
  authority: "op_allowed nodes (cl_acks c) op \<Longrightarrow> journal_step bv op (cl_journal c) = Inr j \<Longrightarrow>
    cluster_step bv nodes c (c\<lparr>cl_journal := j, cl_history := insert j (cl_history c)\<rparr>)"
| directive: "j \<in> cl_history c \<Longrightarrow> sync_start bv rq n j (cl_node c n) = Inr (nd, a) \<Longrightarrow>
    cluster_step bv nodes c (set_node n nd (c\<lparr>cl_acks := send n a (cl_acks c)\<rparr>))"
| drained: "sync_drained (cl_node c n) = Inr nd \<Longrightarrow> cluster_step bv nodes c (set_node n nd c)"
| finish: "sync_finish bv (cl_node c n) = Inr (nd, a) \<Longrightarrow>
    cluster_step bv nodes c (set_node n nd (c\<lparr>cl_acks := send n a (cl_acks c)\<rparr>))"
| failure: "nd_task (cl_node c n) = Some t \<Longrightarrow>
    cluster_step bv nodes c (set_node n ((cl_node c n)\<lparr>nd_task := None, nd_resident := e\<rparr>) c)"
| restart: "restart_gate (if n = jo_owner (cl_journal c) then Some (current_epoch (cl_journal c)) else None)
      (nd_local (cl_node c n)) = Inr g \<Longrightarrow> (ga_closed g \<or> e = None) \<Longrightarrow>
    cluster_step bv nodes c (set_node n ((cl_node c n)\<lparr>nd_gate := g, nd_task := None, nd_resident := e\<rparr>) c)"
| enter: "gate_enter expected (nd_gate (cl_node c n)) = Inr g \<Longrightarrow>
    cluster_step bv nodes c (set_node n ((cl_node c n)\<lparr>nd_gate := g\<rparr>) c)"
| leave: "ga_accepting (nd_gate (cl_node c n)) \<noteq> 0 \<Longrightarrow>
    cluster_step bv nodes c
      (set_node n ((cl_node c n)\<lparr>nd_gate := acceptance_drop (nd_gate (cl_node c n))\<rparr>) c)"

inductive cluster_reachable :: "bundle_validator \<Rightarrow> string set \<Rightarrow> cluster \<Rightarrow> bool" for bv nodes where
  initial: "journal_initial bv owner active = Inr j \<Longrightarrow> cluster_reachable bv nodes (cluster_new j)"
| step: "cluster_reachable bv nodes c \<Longrightarrow> cluster_step bv nodes c c' \<Longrightarrow> cluster_reachable bv nodes c'"

section \<open>Invariants\<close>

text \<open>A gate serves while it is open or a message it let in is still being accepted.\<close>

definition gate_serving :: "gate \<Rightarrow> bool" where
  "gate_serving g \<longleftrightarrow> \<not> ga_closed g \<or> ga_accepting g \<noteq> 0"

abbreviation serving :: "node \<Rightarrow> bool" where
  "serving nd \<equiv> gate_serving (nd_gate nd)"

definition nd_sequence :: "node \<Rightarrow> u64" where
  "nd_sequence nd = (case nd_local nd of None \<Rightarrow> 0 | Some l \<Rightarrow> lo_sequence l)"

text \<open>The runtime a serving node was opened for: the legacy one, or one its journal settled.\<close>

definition settled_for :: "participant option \<Rightarrow> gate \<Rightarrow> bool" where
  "settled_for lo g \<longleftrightarrow>
     (case lo of
        None \<Rightarrow> ga_active g = None
      | Some l \<Rightarrow> ga_active g = Some (lo_installed_epoch l)
          \<and> (case jo_rollout (lo_authority l) of None \<Rightarrow> False | Some r \<Rightarrow> ro_phase r \<in> {Released, Aborted}))"

definition task_inv :: "bundle_validator \<Rightarrow> journal set \<Rightarrow> node \<Rightarrow> bool" where
  "task_inv bv history nd \<longleftrightarrow>
     (case nd_task nd of
        None \<Rightarrow> True
      | Some (Fencing l) \<Rightarrow> ga_closed (nd_gate nd) \<and> participant_ok bv l \<and> lo_authority l \<in> history
          \<and> nd_sequence nd \<le> lo_sequence l
      | Some (Persisted l) \<Rightarrow> ga_closed (nd_gate nd) \<and> ga_accepting (nd_gate nd) = 0 \<and> nd_local nd = Some l)"

definition node_inv :: "bundle_validator \<Rightarrow> journal set \<Rightarrow> node \<Rightarrow> bool" where
  "node_inv bv history nd \<longleftrightarrow>
     (\<forall>l. nd_local nd = Some l \<longrightarrow> participant_ok bv l \<and> lo_authority l \<in> history)
     \<and> task_inv bv history nd
     \<and> (serving nd \<longrightarrow> settled_for (nd_local nd) (nd_gate nd))
     \<and> (\<not> ga_closed (nd_gate nd) \<longrightarrow> nd_resident nd = ga_active (nd_gate nd))"

text \<open>What the authority knows of its members is true of them.\<close>

definition members_inv :: "string set \<Rightarrow> cluster \<Rightarrow> bool" where
  "members_inv nodes c \<longleftrightarrow>
     (\<forall>n a. (n, a) \<in> cl_acks c \<longrightarrow> ep_sequence (ack_epoch a) \<le> nd_sequence (cl_node c n))
     \<and> (\<forall>n \<in> nodes. jo_current_sequence (cl_journal c) \<le> nd_sequence (cl_node c n))
     \<and> (\<forall>r. jo_rollout (cl_journal c) = Some r \<longrightarrow> fst ` set (ro_participants r) = nodes
          \<and> (\<forall>n p. (n, p) \<in> set (ro_participants r) \<and> p \<noteq> Waiting \<longrightarrow>
               jo_sequence (cl_journal c) \<le> nd_sequence (cl_node c n)))"

definition history_inv :: "bundle_validator \<Rightarrow> cluster \<Rightarrow> bool" where
  "history_inv bv c \<longleftrightarrow> cl_journal c \<in> cl_history c
     \<and> (\<forall>h \<in> cl_history c. journal_inv bv h \<and> older h (cl_journal c))"

definition cluster_inv :: "bundle_validator \<Rightarrow> string set \<Rightarrow> cluster \<Rightarrow> bool" where
  "cluster_inv bv nodes c \<longleftrightarrow> history_inv bv c \<and> members_inv nodes c
     \<and> (\<forall>n. node_inv bv (cl_history c) (cl_node c n))"

section \<open>Lemmas: a node's steps\<close>

lemmas node_inv_defs = node_inv_def task_inv_def settled_for_def gate_serving_def

lemma node_inv_new: "node_inv bv history node_new"
  by (simp add: node_inv_defs node_new_def gate_legacy_def gate_new_def)

lemma node_inv_history: "node_inv bv history nd \<Longrightarrow> history \<subseteq> history' \<Longrightarrow> node_inv bv history' nd"
  by (auto simp: node_inv_def task_inv_def split: option.splits task.splits)

lemma node_localD: "node_inv bv history nd \<Longrightarrow> nd_local nd = Some l \<Longrightarrow> participant_ok bv l \<and> lo_authority l \<in> history"
  by (simp add: node_inv_def)

lemma observed_sequence:
  assumes "node_inv bv history nd" and "observe bv (nd_local nd) name j = Inr l"
  shows "nd_sequence nd \<le> lo_sequence l"
  using observe_Inr(3) [OF assms(2)] node_localD [OF assms(1)]
  by (cases "nd_local nd") (auto simp: nd_sequence_def)

lemma sync_start_cases:
  assumes "sync_start bv rq name j nd = Inr (nd', a)"
  obtains l r where "nd_task nd = None" "observe bv (nd_local nd) name j = Inr l"
    "jo_rollout (lo_authority l) = Some r" "ro_phase r \<in> {Released, Aborted}" "\<not> ga_closed (nd_gate nd)"
    "nd_resident nd = Some (lo_installed_epoch l)" "nd' = nd\<lparr>nd_local := Some l\<rparr>" "a = lo_acknowledgement l"
  | l r g where "nd_task nd = None" "observe bv (nd_local nd) name j = Inr l"
    "jo_rollout (lo_authority l) = Some r" "drain_fence (ro_epoch r) (nd_gate nd) = Inr g"
    "nd' = nd\<lparr>nd_gate := g, nd_task := Some (Fencing l)\<rparr>" "a = None"
  using assms unfolding sync_start_def
  by (auto simp: and_then_Inr_iff gate_ready_def split: option.splits if_split_asm)

lemma sync_start_inv:
  assumes inv: "node_inv bv history nd" and j: "j \<in> history" and start: "sync_start bv rq name j nd = Inr (nd', a)"
  shows "node_inv bv history nd' \<and> nd_sequence nd \<le> nd_sequence nd'
    \<and> (\<forall>x. a = Some x \<longrightarrow> ep_sequence (ack_epoch x) \<le> nd_sequence nd')"
  using start
proof (cases rule: sync_start_cases)
  case (1 l r)
  note o = observe_Inr [OF 1(2)]
  have "nd_sequence nd' = lo_sequence l" by (simp add: 1(7) nd_sequence_def)
  moreover have "node_inv bv history nd'"
    using inv 1 o(1,2) j by (auto simp: node_inv_defs)
  ultimately show ?thesis
    using observed_sequence [OF inv 1(2)] lo_acknowledgement_epoch [OF _ o(1)] 1(8) by auto
next
  case (2 l r g)
  note o = observe_Inr [OF 2(2)] and g = drain_fence_Inr [OF 2(4)]
  have q: "nd_sequence nd' = nd_sequence nd" by (simp add: 2(5) nd_sequence_def)
  have "task_inv bv history nd'"
    using o(1,2) g j observed_sequence [OF inv 2(2)] q by (simp add: task_inv_def 2(5) nd_sequence_def)
  moreover have "serving nd' \<longrightarrow> settled_for (nd_local nd') (nd_gate nd')"
    using inv g by (auto simp: node_inv_def gate_serving_def settled_for_def 2(5) split: option.splits)
  ultimately show ?thesis
    using inv g q 2(6) by (auto simp: node_inv_def 2(5))
qed

lemma sync_drained_cases:
  assumes "sync_drained nd = Inr nd'"
  obtains l g e where "nd_task nd = Some (Fencing l)" "ga_accepting (nd_gate nd) = 0" "ga_closed (nd_gate nd)"
    "ga_closed g" "ga_accepting g = 0"
    "nd' = nd\<lparr>nd_local := Some l, nd_task := Some (Persisted l), nd_gate := g, nd_resident := e\<rparr>"
proof -
  from assms obtain l r where t: "nd_task nd = Some (Fencing l)" and r: "jo_rollout (lo_authority l) = Some r"
    and p: "drain_poll (ro_epoch r) (nd_gate nd) = Inr True"
    unfolding sync_drained_def by (auto simp: and_then_Inr_iff split: option.splits task.splits if_splits)
  from p have d: "ga_closed (nd_gate nd)" "ga_accepting (nd_gate nd) = 0"
    by (auto simp: drain_poll_def and_then_Inr_iff)
  show thesis
  proof (cases "ga_active (nd_gate nd) = None")
    case False
    with assms t r p have "nd' = nd\<lparr>nd_local := Some l, nd_task := Some (Persisted l)\<rparr>"
      by (simp add: sync_drained_def Let_def)
    with that [of l "nd_gate nd" "nd_resident nd"] t d show thesis by (cases nd) simp
  next
    case True
    with assms t r p obtain g where "bind_initial (ro_epoch r) (lo_installed_epoch l) (nd_gate nd) = Inr g"
      "nd' = nd\<lparr>nd_local := Some l, nd_task := Some (Persisted l), nd_gate := g,
         nd_resident := Some (lo_installed_epoch l)\<rparr>"
      by (auto simp: sync_drained_def Let_def and_then_Inr_iff)
    with that t d bind_initial_Inr show thesis by metis
  qed
qed

lemma sync_drained_inv:
  assumes inv: "node_inv bv history nd" and d: "sync_drained nd = Inr nd'"
  shows "node_inv bv history nd' \<and> nd_sequence nd \<le> nd_sequence nd'"
  using d
proof (cases rule: sync_drained_cases)
  case (1 l g e)
  then show ?thesis using inv by (auto simp: node_inv_defs nd_sequence_def)
qed

lemma sync_finish_cases:
  assumes "sync_finish bv nd = Inr (nd', a)"
  obtains l l' e where "nd_task nd = Some (Persisted l)" "participant_ok bv l'" "lo_authority l' = lo_authority l"
    "nd' = nd\<lparr>nd_local := Some l', nd_task := None, nd_resident := e\<rparr>" "a = lo_acknowledgement l'"
  | l r g where "nd_task nd = Some (Persisted l)" "jo_rollout (lo_authority l) = Some r"
    "ro_phase r \<in> {Released, Aborted}" "ga_active g = Some (lo_installed_epoch l)"
    "nd' = nd\<lparr>nd_gate := g, nd_task := None, nd_resident := Some (lo_installed_epoch l)\<rparr>"
    "a = lo_acknowledgement l"
proof -
  from assms obtain l r where t: "nd_task nd = Some (Persisted l)" and r: "jo_rollout (lo_authority l) = Some r"
    unfolding sync_finish_def by (auto split: option.splits task.splits)
  consider "ro_phase r = Preparing" | "ro_phase r = Committed" | "ro_phase r \<in> {Released, Aborted}"
    by (cases "ro_phase r") auto
  then show thesis
  proof cases
    case 1
    with assms t r obtain l' where "prepared_local bv l = Inr l'"
      "nd' = nd\<lparr>nd_local := Some l', nd_task := None\<rparr>" "a = lo_acknowledgement l'"
      by (auto simp: sync_finish_def and_then_Inr_iff)
    with that(1) [of l l' "nd_resident nd"] t prepared_local_Inr show thesis by (cases nd) auto
  next
    case 2
    with assms t r obtain l' where "applied_local bv l = Inr l'"
      "nd' = nd\<lparr>nd_local := Some l', nd_task := None, nd_resident := Some (lo_installed_epoch l')\<rparr>"
      "a = lo_acknowledgement l'"
      by (auto simp: sync_finish_def and_then_Inr_iff)
    with that(1) t applied_local_Inr show thesis by blast
  next
    case 3
    with assms t r obtain g where "resume (ro_epoch r) (lo_installed_epoch l) (nd_gate nd) = Inr g"
      "nd' = nd\<lparr>nd_gate := g, nd_task := None, nd_resident := Some (lo_installed_epoch l)\<rparr>"
      "a = lo_acknowledgement l"
      by (auto simp: sync_finish_def and_then_Inr_iff)
    with that(2) t r 3 resume_Inr show thesis by blast
  qed
qed

lemma sync_finish_inv:
  assumes inv: "node_inv bv history nd" and f: "sync_finish bv nd = Inr (nd', a)"
  shows "node_inv bv history nd' \<and> nd_sequence nd \<le> nd_sequence nd'
    \<and> (\<forall>x. a = Some x \<longrightarrow> ep_sequence (ack_epoch x) \<le> nd_sequence nd')"
  using f
proof (cases rule: sync_finish_cases)
  case (1 l l' e)
  have l: "nd_local nd = Some l" "ga_closed (nd_gate nd)" "ga_accepting (nd_gate nd) = 0"
    using inv 1(1) by (auto simp: node_inv_def task_inv_def)
  have q: "nd_sequence nd' = lo_sequence l'" "nd_sequence nd = lo_sequence l" "lo_sequence l' = lo_sequence l"
    using l 1(3) by (simp_all add: 1(4) nd_sequence_def lo_sequence_def)
  have "node_inv bv history nd'"
    using node_localD [OF inv l(1)] l 1(2,3) by (auto simp: node_inv_defs 1(4))
  with q lo_acknowledgement_epoch [OF _ 1(2)] 1(5) show ?thesis by auto
next
  case (2 l r g)
  have l: "nd_local nd = Some l" using inv 2(1) by (auto simp: node_inv_def task_inv_def)
  have q: "nd_sequence nd' = lo_sequence l" "nd_sequence nd = lo_sequence l"
    using l by (simp_all add: 2(5) nd_sequence_def)
  have "node_inv bv history nd'"
    using node_localD [OF inv l] l 2(2,3,4) by (auto simp: node_inv_defs 2(5))
  with q lo_acknowledgement_epoch [of l] node_localD [OF inv l] 2(6) show ?thesis by auto
qed

lemma failure_inv:
  "node_inv bv history nd \<Longrightarrow> nd_task nd = Some t \<Longrightarrow> node_inv bv history (nd\<lparr>nd_task := None, nd_resident := e\<rparr>)"
  by (cases t) (auto simp: node_inv_defs)

lemma restart_inv:
  assumes "node_inv bv history nd" and "restart_gate a (nd_local nd) = Inr g" and "ga_closed g \<or> e = None"
  shows "node_inv bv history (nd\<lparr>nd_gate := g, nd_task := None, nd_resident := e\<rparr>)"
  using assms
  by (auto simp: node_inv_defs restart_gate_def gate_recovering_def gate_legacy_def gate_new_def
      and_then_Inr_iff split: option.splits)

lemma enter_inv:
  "node_inv bv history nd \<Longrightarrow> gate_enter expected (nd_gate nd) = Inr g \<Longrightarrow> node_inv bv history (nd\<lparr>nd_gate := g\<rparr>)"
  by (drule gate_enter_Inr) (auto simp: node_inv_defs split: option.splits task.splits)

lemma leave_inv:
  "node_inv bv history nd \<Longrightarrow> ga_accepting (nd_gate nd) \<noteq> 0 \<Longrightarrow>
     node_inv bv history (nd\<lparr>nd_gate := acceptance_drop (nd_gate nd)\<rparr>)"
  by (auto simp: node_inv_defs nd_sequence_def acceptance_drop_def split: option.splits task.splits)

section \<open>Lemmas: the authority's steps\<close>

lemma btree_insert_set: "set (btree_insert k v m) \<subseteq> insert (k, v) (set m)"
  by (induction k v m rule: btree_insert.induct) auto

lemma btree_insert_keys: "fst ` set (btree_insert k v m) = insert k (fst ` set m)"
  by (induction k v m rule: btree_insert.induct) auto

lemma waiting_nodes_Inr:
  assumes "waiting_nodes ids m = Inr m'" and "\<forall>x \<in> set m. snd x = Waiting"
  shows "fst ` set m' = set ids \<union> fst ` set m" and "\<forall>x \<in> set m'. snd x = Waiting"
proof -
  have "fst ` set m' = set ids \<union> fst ` set m \<and> (\<forall>x \<in> set m'. snd x = Waiting)"
    using assms
  proof (induction ids m rule: waiting_nodes.induct)
    case (2 i ids nodes)
    have "\<forall>x \<in> set (btree_insert i Waiting nodes). snd x = Waiting"
      using 2(3) btree_insert_set [of i Waiting nodes] by auto
    with 2 show ?case by (auto simp: btree_insert_keys split: if_splits)
  qed simp
  then show "fst ` set m' = set ids \<union> fst ` set m" and "\<forall>x \<in> set m'. snd x = Waiting" by blast+
qed

lemma record_ack_keys: "fst ` set (record_ack node p parts) = fst ` set parts"
  by (force simp: record_ack_def)

lemma record_ack_mem:
  "(n, q) \<in> set (record_ack node p parts) \<Longrightarrow> n = node \<or> (n, q) \<in> set parts"
  by (auto simp: record_ack_def split: if_splits)

text \<open>The members of the rollout after an operation, and what it records of them.\<close>

definition members_reported :: "string set \<Rightarrow> (string \<Rightarrow> node) \<Rightarrow> journal \<Rightarrow> bool" where
  "members_reported nodes ns j \<longleftrightarrow>
     (\<forall>r. jo_rollout j = Some r \<longrightarrow> fst ` set (ro_participants r) = nodes
        \<and> (\<forall>n p. (n, p) \<in> set (ro_participants r) \<and> p \<noteq> Waiting \<longrightarrow> jo_sequence j \<le> nd_sequence (ns n)))"

lemma members_inv_iff:
  "members_inv nodes c \<longleftrightarrow>
     (\<forall>n a. (n, a) \<in> cl_acks c \<longrightarrow> ep_sequence (ack_epoch a) \<le> nd_sequence (cl_node c n))
     \<and> (\<forall>n \<in> nodes. jo_current_sequence (cl_journal c) \<le> nd_sequence (cl_node c n))
     \<and> members_reported nodes (cl_node c) (cl_journal c)"
  by (simp add: members_inv_def members_reported_def)

lemma members_mono:
  assumes "members_reported nodes ns j" and le: "\<And>m. nd_sequence (ns m) \<le> nd_sequence (ns' m)"
  shows "members_reported nodes ns' j"
proof -
  have "jo_sequence j \<le> nd_sequence (ns' n)" if "jo_sequence j \<le> nd_sequence (ns n)" for n
    using order_trans [OF that le] .
  with assms(1) show ?thesis unfolding members_reported_def by blast
qed

lemma members_waiting:
  assumes "start candidate m time rec j = Inr j'" and "fst ` set m = nodes" and "\<forall>x \<in> set m. snd x = Waiting"
  shows "members_reported nodes ns j'"
  using assms by (fastforce simp: members_reported_def start_Inr)

lemma members_same:
  assumes "members_reported nodes ns j" and "jo_rollout j = Some r" and "jo_rollout j' = Some r'"
    and "ro_participants r' = ro_participants r" and "jo_sequence j' = jo_sequence j"
  shows "members_reported nodes ns j'"
  using assms by (simp add: members_reported_def)

lemma members_step:
  assumes inv: "members_inv nodes c" and ok: "journal_ok bv (cl_journal c)"
    and allowed: "op_allowed nodes (cl_acks c) op" and step: "journal_step bv op (cl_journal c) = Inr j"
  shows "members_reported nodes (cl_node c) j"
proof (cases op)
  case (Propose candidate ids time)
  then obtain m where m: "waiting_nodes ids [] = Inr m" "start candidate m time None (cl_journal c) = Inr j"
    using step by (auto simp: proposed_Inr)
  have "set ids = nodes" using allowed Propose by (simp add: op_allowed_def)
  with waiting_nodes_Inr [OF m(1)] members_waiting [OF m(2)] show ?thesis by simp
next
  case (Acknowledge node ack time)
  then obtain r where r: "jo_rollout (cl_journal c) = Some r" "ro_epoch r = ack_epoch ack"
    and j: "j = (cl_journal c)\<lparr>jo_rollout := Some (r\<lparr>ro_participants :=
        record_ack node (ack_progress ack) (ro_participants r), ro_updated := time\<rparr>)\<rparr>"
    using step by (auto simp: acknowledged_Inr)
  have "(node, ack) \<in> cl_acks c" using allowed Acknowledge by (simp add: op_allowed_def)
  then have "jo_sequence (cl_journal c) \<le> nd_sequence (cl_node c node)"
    using inv journal_rolloutD(1) [OF ok r(1)] r(2) by (auto simp: members_inv_def)
  with inv r(1) show ?thesis
    by (auto simp: members_inv_iff members_reported_def j record_ack_keys dest!: record_ack_mem)
next
  case (Recover e rollback time)
  then obtain r where r: "jo_rollout (cl_journal c) = Some r"
    and s: "start rollback (map (\<lambda>(n, _). (n, Waiting)) (ro_participants r)) time (Some e) (cl_journal c) = Inr j"
    using step by (auto simp: recovered_Inr)
  have k: "fst ` set (ro_participants r) = nodes" using inv r by (simp add: members_inv_def)
  have "fst ` set (map (\<lambda>(n, _). (n, Waiting)) (ro_participants r)) = nodes"
    unfolding k [symmetric] by force
  then show ?thesis by (rule members_waiting [OF s]) auto
next
  case (Commit e time)
  then show ?thesis using step inv by (auto simp: committed_Inr members_inv_iff intro: members_same)
next
  case (Release e time)
  then show ?thesis using step inv by (auto simp: released_at_Inr members_inv_iff intro: members_same)
next
  case (Abort e time)
  then show ?thesis using step inv by (auto simp: aborted_Inr members_inv_iff intro: members_same)
qed

lemma authority_inv:
  assumes inv: "cluster_inv bv nodes c" and allowed: "op_allowed nodes (cl_acks c) op"
    and step: "journal_step bv op (cl_journal c) = Inr j"
  shows "cluster_inv bv nodes (c\<lparr>cl_journal := j, cl_history := insert j (cl_history c)\<rparr>)"
proof -
  let ?c = "c\<lparr>cl_journal := j, cl_history := insert j (cl_history c)\<rparr>"
  have h: "history_inv bv c" and m: "members_inv nodes c"
    and n: "\<And>n. node_inv bv (cl_history c) (cl_node c n)"
    using inv by (auto simp: cluster_inv_def)
  have ji: "journal_inv bv (cl_journal c)" using h by (auto simp: history_inv_def)
  then have ok: "journal_ok bv (cl_journal c)" by (simp add: journal_inv_def)
  have a: "advances (cl_journal c) j" and ji': "journal_inv bv j" using journal_step_advances [OF ji step] by auto
  have "history_inv bv ?c"
    using h ji' older_advances [OF _ a] older_refl by (auto simp: history_inv_def)
  moreover have "jo_current_sequence j \<le> nd_sequence (cl_node c n)" if n: "n \<in> nodes" for n
  proof (cases "jo_current_sequence j = jo_current_sequence (cl_journal c)")
    case True
    with m n show ?thesis by (simp add: members_inv_def)
  next
    case False
    then obtain r where r: "jo_rollout (cl_journal c) = Some r" "jo_current_sequence j = jo_sequence (cl_journal c)"
      and all: "list_all (\<lambda>(_, p). p \<ge> Prepared) (ro_participants r)"
      using a by (auto simp: advances_def)
    from m r(1) n obtain p where "(n, p) \<in> set (ro_participants r)" by (fastforce simp: members_inv_def)
    with m r all show ?thesis by (fastforce simp: members_inv_def list_all_iff)
  qed
  then have "members_inv nodes ?c"
    using m members_step [OF m ok allowed step] by (auto simp: members_inv_iff)
  moreover have "\<And>n. node_inv bv (cl_history ?c) (cl_node ?c n)"
    by (simp add: node_inv_history [OF n] subset_insertI)
  ultimately show ?thesis by (simp add: cluster_inv_def)
qed

section \<open>Lemmas: the cluster\<close>

lemma set_node_inv:
  assumes inv: "cluster_inv bv nodes c" and nd: "node_inv bv (cl_history c) nd"
    and q: "nd_sequence (cl_node c n) \<le> nd_sequence nd"
    and a: "\<And>x. a = Some x \<Longrightarrow> ep_sequence (ack_epoch x) \<le> nd_sequence nd"
  shows "cluster_inv bv nodes (set_node n nd (c\<lparr>cl_acks := send n a (cl_acks c)\<rparr>))"
proof -
  let ?c = "set_node n nd (c\<lparr>cl_acks := send n a (cl_acks c)\<rparr>)"
  have le: "nd_sequence (cl_node c m) \<le> nd_sequence (cl_node ?c m)" for m
    using q by (simp add: set_node_def)
  have m: "members_inv nodes c" using inv by (simp add: cluster_inv_def)
  have "ep_sequence (ack_epoch x) \<le> nd_sequence (cl_node ?c m)" if "(m, x) \<in> cl_acks ?c" for m x
  proof (cases "(m, x) \<in> cl_acks c")
    case True
    with m le [of m] show ?thesis by (auto simp: members_inv_def intro: order_trans)
  next
    case False
    with that a show ?thesis by (auto simp: set_node_def send_def split: option.splits)
  qed
  moreover have "jo_current_sequence (cl_journal c) \<le> nd_sequence (cl_node ?c m)" if "m \<in> nodes" for m
    using m le [of m] that by (auto simp: members_inv_def intro: order_trans)
  moreover have "members_reported nodes (cl_node ?c) (cl_journal c)"
    using m members_mono [OF _ le] by (simp add: members_inv_iff)
  ultimately have "members_inv nodes ?c" by (auto simp: members_inv_iff set_node_def)
  with inv nd show ?thesis by (auto simp: cluster_inv_def history_inv_def set_node_def)
qed

lemma set_node_inv_quiet:
  assumes "cluster_inv bv nodes c" and "node_inv bv (cl_history c) nd"
    and "nd_sequence (cl_node c n) \<le> nd_sequence nd"
  shows "cluster_inv bv nodes (set_node n nd c)"
  using set_node_inv [OF assms, of None] by (simp add: send_def)

lemma cluster_step_inv:
  assumes "cluster_step bv nodes c c'" and inv: "cluster_inv bv nodes c"
  shows "cluster_inv bv nodes c'"
  using assms(1)
proof cases
  case (authority op j)
  then show ?thesis using authority_inv [OF inv] by simp
next
  case (directive j rq n nd a)
  then show ?thesis
    using sync_start_inv [of bv "cl_history c" "cl_node c n" j rq n nd a] set_node_inv [OF inv, of nd n a] inv
    by (simp add: cluster_inv_def)
next
  case (drained n nd)
  then show ?thesis
    using sync_drained_inv [of bv "cl_history c" "cl_node c n" nd] set_node_inv_quiet [OF inv, of nd n] inv
    by (simp add: cluster_inv_def)
next
  case (finish n nd a)
  then show ?thesis
    using sync_finish_inv [of bv "cl_history c" "cl_node c n" nd a] set_node_inv [OF inv, of nd n a] inv
    by (simp add: cluster_inv_def)
next
  case (failure n t e)
  have "node_inv bv (cl_history c) (cl_node c n)" using inv by (simp add: cluster_inv_def)
  from failure_inv [OF this failure(2)] show ?thesis
    unfolding failure(1) by (intro set_node_inv_quiet [OF inv]) (simp_all add: nd_sequence_def)
next
  case (restart n g e)
  have "node_inv bv (cl_history c) (cl_node c n)" using inv by (simp add: cluster_inv_def)
  from restart_inv [OF this restart(2,3)] show ?thesis
    unfolding restart(1) by (intro set_node_inv_quiet [OF inv]) (simp_all add: nd_sequence_def)
next
  case (enter expected n g)
  have "node_inv bv (cl_history c) (cl_node c n)" using inv by (simp add: cluster_inv_def)
  from enter_inv [OF this enter(2)] show ?thesis
    unfolding enter(1) by (intro set_node_inv_quiet [OF inv]) (simp_all add: nd_sequence_def)
next
  case (leave n)
  have "node_inv bv (cl_history c) (cl_node c n)" using inv by (simp add: cluster_inv_def)
  from leave_inv [OF this leave(2)] show ?thesis
    unfolding leave(1) by (intro set_node_inv_quiet [OF inv]) (simp_all add: nd_sequence_def)
qed

lemma cluster_new_inv:
  assumes "journal_initial bv owner active = Inr j"
  shows "cluster_inv bv nodes (cluster_new j)"
proof -
  have "jo_rollout j = None" "jo_current_sequence j = 0" using assms by (auto simp: journal_initial_def)
  with journal_initial_inv [OF assms] show ?thesis
    by (simp add: cluster_inv_def cluster_new_def history_inv_def members_inv_def older_refl node_inv_new)
qed

lemma cluster_reachable_inv: "cluster_reachable bv nodes c \<Longrightarrow> cluster_inv bv nodes c"
  by (induction rule: cluster_reachable.induct) (use cluster_new_inv cluster_step_inv in blast)+

text \<open>A settled participant's installed epoch is the one the authority has current.\<close>

lemma settled_current:
  assumes j: "journal_inv bv h" "older h j" and l: "participant_ok bv l" "lo_authority l = h"
    and r: "jo_rollout h = Some r" "ro_phase r \<in> {Released, Aborted}"
    and c: "jo_current_sequence j \<le> jo_sequence h"
  shows "lo_installed_epoch l = current_epoch j"
proof -
  have ok: "journal_ok bv h" using j(1) by (simp add: journal_inv_def)
  have v: "is_ok (validate_local_phase l r)" using l r(1) by (auto elim: participant_okD)
  show ?thesis
  proof (cases "ro_phase r = Released")
    case True
    have "jo_current_sequence h = jo_sequence h" using journal_committedD(1) [OF ok r(1)] True by simp
    with j(2) c have "current_epoch h = current_epoch j" by (auto simp: older_def)
    moreover have "current_epoch h = ro_epoch r" using j(1) r True by (auto simp: journal_inv_def)
    ultimately show ?thesis using v True by (simp add: validate_local_phase_def)
  next
    case False
    with r(2) have ab: "ro_phase r = Aborted" by simp
    then have "jo_current_sequence j = jo_current_sequence h" using j(2) r(1) c by (auto simp: older_def)
    with j(2) have "current_epoch h = current_epoch j" by (auto simp: older_def)
    moreover have "current_epoch h = ro_base_epoch r" using journal_uncommittedD(2) [OF ok r(1)] ab by simp
    ultimately show ?thesis using v ab by (simp add: validate_local_phase_def)
  qed
qed

lemma serving_current:
  assumes inv: "cluster_inv bv nodes c" and n: "n \<in> nodes" and s: "serving (cl_node c n)"
  shows "ga_active (nd_gate (cl_node c n)) = Some (current_epoch (cl_journal c))
    \<or> (ga_active (nd_gate (cl_node c n)) = None \<and> jo_current_sequence (cl_journal c) = 0)"
proof -
  let ?nd = "cl_node c n"
  have ni: "node_inv bv (cl_history c) ?nd" and h: "history_inv bv c"
    and q: "jo_current_sequence (cl_journal c) \<le> nd_sequence ?nd"
    using inv n by (auto simp: cluster_inv_def members_inv_def)
  have st: "settled_for (nd_local ?nd) (nd_gate ?nd)" using ni s by (simp add: node_inv_def)
  show ?thesis
  proof (cases "nd_local ?nd")
    case None
    then show ?thesis using st q by (auto simp: settled_for_def nd_sequence_def)
  next
    case (Some l)
    then obtain r where r: "jo_rollout (lo_authority l) = Some r" "ro_phase r \<in> {Released, Aborted}"
      and g: "ga_active (nd_gate ?nd) = Some (lo_installed_epoch l)"
      using st by (auto simp: settled_for_def split: option.splits)
    have l: "participant_ok bv l" "lo_authority l \<in> cl_history c" using node_localD [OF ni Some] by auto
    then have "journal_inv bv (lo_authority l)" "older (lo_authority l) (cl_journal c)"
      using h by (auto simp: history_inv_def)
    from settled_current [OF this l(1) refl r] q Some g show ?thesis
      by (simp add: nd_sequence_def lo_sequence_def)
  qed
qed

lemma barrier:
  assumes inv: "cluster_inv bv nodes c" and n: "n \<in> nodes"
    and r: "jo_rollout (cl_journal c) = Some r" "ro_phase r = Committed"
  shows "\<not> serving (cl_node c n)"
proof
  let ?nd = "cl_node c n"
  assume s: "serving ?nd"
  have ni: "node_inv bv (cl_history c) ?nd" and h: "history_inv bv c" and m: "members_inv nodes c"
    using inv by (auto simp: cluster_inv_def)
  have ok: "journal_ok bv (cl_journal c)" using h by (auto simp: history_inv_def journal_inv_def)
  have q: "jo_sequence (cl_journal c) \<le> nd_sequence ?nd"
    using m n journal_committedD(1) [OF ok r(1)] r(2) by (auto simp: members_inv_def)
  have pos: "jo_sequence (cl_journal c) > 0" by (rule journal_rolloutD(3) [OF ok r(1)])
  then obtain l where l: "nd_local ?nd = Some l" using q by (cases "nd_local ?nd") (auto simp: nd_sequence_def)
  obtain r' where r': "jo_rollout (lo_authority l) = Some r'" "ro_phase r' \<in> {Released, Aborted}"
    using ni s l by (auto simp: node_inv_def settled_for_def split: option.splits)
  have old: "older (lo_authority l) (cl_journal c)"
    using h node_localD [OF ni l] by (auto simp: history_inv_def)
  then have "jo_sequence (lo_authority l) = jo_sequence (cl_journal c)"
    using q l by (auto simp: older_def nd_sequence_def lo_sequence_def)
  with old r' r show False by (auto simp: older_def)
qed

section \<open>Properties\<close>

text \<open>
  C1: the cluster never serves two policies. Whatever is lost, delayed, repeated or reordered,
  whichever tasks fail and nodes restart, a registered node that admits mail or still accepts a
  message it let in does so under the authority's current epoch (or, before anything was ever
  committed, under the legacy runtime it started with), so any two such nodes that run an
  epoch run the same one; and while a rollout is committed and not released no node does.
\<close>

theorem no_mixed_policies:
  assumes "cluster_reachable bv nodes c" and "n \<in> nodes" and "serving (cl_node c n)"
  shows "(ga_active (nd_gate (cl_node c n)) = Some (current_epoch (cl_journal c))
      \<or> ga_active (nd_gate (cl_node c n)) = None \<and> jo_current_sequence (cl_journal c) = 0)
    \<and> (\<forall>m \<in> nodes. serving (cl_node c m) \<and> ga_active (nd_gate (cl_node c m)) \<noteq> None
         \<and> ga_active (nd_gate (cl_node c n)) \<noteq> None \<longrightarrow>
         ga_active (nd_gate (cl_node c m)) = ga_active (nd_gate (cl_node c n)))
    \<and> (\<forall>r. jo_rollout (cl_journal c) = Some r \<longrightarrow> ro_phase r \<noteq> Committed)"
proof -
  have inv: "cluster_inv bv nodes c" using assms(1) by (rule cluster_reachable_inv)
  show ?thesis
    using serving_current [OF inv] barrier [OF inv assms(2)] assms(2,3) by (metis option.distinct(1))
qed

text \<open>
  A rollout of a one-node cluster, step by step: proposed, fenced, drained, prepared,
  acknowledged, committed, applied, acknowledged, released and resumed.
\<close>

datatype cluster_event = Ev_Authority journal_op | Ev_Directive sync_request string | Ev_Drained string | Ev_Finish string

fun cluster_apply :: "bundle_validator \<Rightarrow> string list \<Rightarrow> cluster_event \<Rightarrow> cluster \<Rightarrow> cluster option" where
  "cluster_apply bv nodes (Ev_Authority op) c =
     (if op_allowed (set nodes) (cl_acks c) op then
        (case journal_step bv op (cl_journal c) of
           Inl _ \<Rightarrow> None
         | Inr j \<Rightarrow> Some (c\<lparr>cl_journal := j, cl_history := insert j (cl_history c)\<rparr>))
      else None)"
| "cluster_apply bv nodes (Ev_Directive rq n) c =
     (if cl_journal c \<in> cl_history c then
        (case sync_start bv rq n (cl_journal c) (cl_node c n) of
           Inl _ \<Rightarrow> None
         | Inr (nd, a) \<Rightarrow> Some (set_node n nd (c\<lparr>cl_acks := send n a (cl_acks c)\<rparr>)))
      else None)"
| "cluster_apply bv nodes (Ev_Drained n) c =
     (case sync_drained (cl_node c n) of Inl _ \<Rightarrow> None | Inr nd \<Rightarrow> Some (set_node n nd c))"
| "cluster_apply bv nodes (Ev_Finish n) c =
     (case sync_finish bv (cl_node c n) of
        Inl _ \<Rightarrow> None
      | Inr (nd, a) \<Rightarrow> Some (set_node n nd (c\<lparr>cl_acks := send n a (cl_acks c)\<rparr>)))"

lemma cluster_apply_step: "cluster_apply bv nodes ev c = Some c' \<Longrightarrow> cluster_step bv (set nodes) c c'"
  by (cases ev) (auto intro: cluster_step.intros split: if_splits sum.splits)

fun cluster_run :: "bundle_validator \<Rightarrow> string list \<Rightarrow> cluster_event list \<Rightarrow> cluster \<Rightarrow> cluster option" where
  "cluster_run bv nodes [] c = Some c"
| "cluster_run bv nodes (ev # evs) c =
     (case cluster_apply bv nodes ev c of None \<Rightarrow> None | Some c' \<Rightarrow> cluster_run bv nodes evs c')"

lemma cluster_run_reachable:
  "cluster_run bv nodes evs c = Some c' \<Longrightarrow> cluster_reachable bv (set nodes) c \<Longrightarrow> cluster_reachable bv (set nodes) c'"
  by (induction evs arbitrary: c)
     (auto dest: cluster_apply_step intro: cluster_reachable.step split: option.splits)

definition sample_request :: sync_request where
  "sample_request = \<lparr>sr_keys = replicate 64 CHR ''0'', sr_server_time = 100, sr_now = 90, sr_worker = False,
     sr_installed_digest = [], sr_revision = 1, sr_credential_generation = None, sr_provider_fingerprint = None,
     sr_publication_digest = Inr (bu_digest (sample_bundle 1 (CHR ''a''))), sr_unbound_digest = (\<lambda>_. Inr []),
     sr_cluster_keys = replicate 64 CHR ''0''\<rparr>"

definition sample_rollout :: "cluster_event list" where
  "sample_rollout =
     [Ev_Authority (Propose (sample_bundle 2 (CHR ''b'')) [''a''] 10),
      Ev_Directive sample_request ''a'', Ev_Drained ''a'', Ev_Finish ''a'',
      Ev_Authority (Acknowledge ''a'' \<lparr>ack_epoch = sample_epoch, ack_progress = Prepared\<rparr> 11),
      Ev_Authority (Commit sample_epoch 12),
      Ev_Directive sample_request ''a'', Ev_Drained ''a'', Ev_Finish ''a'',
      Ev_Authority (Acknowledge ''a'' \<lparr>ack_epoch = sample_epoch, ack_progress = Applied\<rparr> 13),
      Ev_Authority (Release sample_epoch 14),
      Ev_Directive sample_request ''a'', Ev_Drained ''a'', Ev_Finish ''a'']"

lemma sample_keys: "valid_hash (replicate 64 CHR ''0'')"
  by code_simp

lemmas rollout_defs = sample_keys journal_defs cluster_new_def sample_rollout_def op_allowed_def
  sync_start_def sample_request_def validate_enrollment_def base_installed_def observe_def observe_from_def enroll_def
  local_validated_def local_validate_def validate_local_phase_def gate_ready_def gate_legacy_def gate_new_def
  node_new_def drain_fence_def set_node_def send_def sync_drained_def drain_poll_def bind_initial_def
  sync_finish_def prepared_local_def applied_local_def lo_acknowledgement_def
  resume_def observe_transition_def observe_same_def

lemma sample_rollout_runs:
  "\<exists>c. cluster_run (\<lambda>_. Inr ()) [''a''] sample_rollout (cluster_new sample_journal) = Some c
     \<and> \<not> ga_closed (nd_gate (cl_node c ''a'')) \<and> ga_active (nd_gate (cl_node c ''a'')) = Some sample_epoch
     \<and> jo_current_sequence (cl_journal c) = 1"
  by (simp add: rollout_defs)

theorem no_mixed_policies_witness:
  "\<exists>c. cluster_reachable (\<lambda>_. Inr ()) {''a''} c \<and> serving (cl_node c ''a'')
     \<and> current_epoch (cl_journal c) = sample_epoch"
proof -
  obtain c where run: "cluster_run (\<lambda>_. Inr ()) [''a''] sample_rollout (cluster_new sample_journal) = Some c"
    and g: "\<not> ga_closed (nd_gate (cl_node c ''a''))" "ga_active (nd_gate (cl_node c ''a'')) = Some sample_epoch"
    using sample_rollout_runs by blast
  have r: "cluster_reachable (\<lambda>_. Inr ()) {''a''} c"
    using cluster_run_reachable [OF run] cluster_reachable.initial [OF sample_initial] by simp
  have s: "serving (cl_node c ''a'')" using g(1) by (simp add: gate_serving_def)
  from no_mixed_policies [OF r _ s] g(2) have "current_epoch (cl_journal c) = sample_epoch" by simp
  with r s show ?thesis by blast
qed

end
