(* ===== verification/NF_Budget.thy ===== *)
theory NF_Budget
  imports NF_Confirmation NF_Config
begin

text \<open>
  Money and request quotas. The budgeted language-model review (\<open>src/llm.rs\<close>): which messages
  are reviewed, the price of a review, and the durable reservation that is taken before the
  request and settled after it. The escrow that shares one budget between the nodes of a
  cluster (\<open>src/cluster/budget.rs\<close>) and the reservation of a threat-intelligence request
  (\<open>Client::reserve\<close> in \<open>src/protection/providers.rs\<close>).

  A database is a record with one component per table: a table looked up by its primary key is
  a partial function, the reservations are a list of rows. A column read as \<open>u64\<close> fails on a
  negative value and a \<open>u64\<close> above \<open>i64::MAX\<close> cannot be bound, as \<open>rusqlite\<close> has it. A
  transaction that ends in an error changes nothing. \<open>crate::now()\<close> is never negative and is a
  natural number here; SQLite's \<open>strftime('%Y-%m', t, 'unixepoch')\<close> is the argument \<open>month\<close>,
  and with the modifier \<open>'-1 month'\<close> the argument \<open>month_before\<close>.
\<close>

section \<open>Integers at the database boundary\<close>

definition u64_max :: nat where "u64_max = 2 ^ 64 - 1"

definition wrap64 :: "nat \<Rightarrow> nat" where "wrap64 n = n mod 2 ^ 64"

definition u64_saturating_add :: "nat \<Rightarrow> nat \<Rightarrow> nat" where
  "u64_saturating_add a b = min (a + b) u64_max"

definition get_u64 :: "int \<Rightarrow> nat result" where
  "get_u64 i = (if i < 0 then Inl ''Integer out of range'' else Inr (nat i))"

definition bind_u64 :: "nat \<Rightarrow> int result" where
  "bind_u64 n = (if int n \<le> i64_max then Inr (int n) else Inl ''Parameter out of range'')"

definition i64_as_u64 :: "int \<Rightarrow> nat" where "i64_as_u64 i = nat (i mod 2 ^ 64)"

section \<open>Selection and price of a review\<close>

record llm_config =
  lc_project_id :: string
  lc_model :: string
  lc_api_key_env :: string
  lc_monthly_budget_micro_eur :: nat
  lc_input_micro_eur_per_million :: nat
  lc_output_micro_eur_per_million :: nat
  lc_pricing_checked_at :: int
  lc_timeout_ms :: nat
  lc_max_text_bytes :: nat
  lc_max_output_tokens :: nat
  lc_score_low :: f64
  lc_score_high :: f64
  lc_review_unconfirmed_high :: bool
  lc_max_parallel :: nat

datatype selection = NotSelected | ScoreInterval | UnconfirmedHigh

definition llm_selection :: "llm_config \<Rightarrow> scan \<Rightarrow> selection" where
  "llm_selection cfg s =
     (if \<not> unwrap_or (scan_features_complete s) (scan_complete s)
         \<or> has_reason ''encrypted_content'' s
         \<or> av_status (scan_antivirus s) = Av_Malware
         \<or> \<not> f64_is_finite (scan_score s)
         \<or> \<not> f64_within (Fin 0) (Fin 100) (scan_score s)
      then NotSelected
      else if f64_within (lc_score_low cfg) (lc_score_high cfg) (scan_score s) then ScoreInterval
      else if lc_review_unconfirmed_high cfg \<and> f64_gt (scan_score s) (lc_score_high cfg)
              \<and> \<not> corroborated s
      then UnconfirmedHigh
      else NotSelected)"

text \<open>\<open>uuid\<close> is the canonical text of a parsed UUID, if the text parses.\<close>

definition llm_config_validate :: "(string \<Rightarrow> string option) \<Rightarrow> int \<Rightarrow> llm_config \<Rightarrow> unit result" where
  "llm_config_validate uuid now cfg =
     and_then (case uuid (lc_project_id cfg) of
         None \<Rightarrow> Inl ''invalid LLM project UUID''
       | Some canonical \<Rightarrow>
           ensure (canonical = lc_project_id cfg) ''LLM project UUID must use canonical lowercase form'') (\<lambda>_.
     and_then (ensure (lc_pricing_checked_at cfg \<ge> 0 \<and> lc_pricing_checked_at cfg \<le> now)
         ''invalid LLM pricing verification date'') (\<lambda>_.
     and_then (ensure (lc_model cfg \<noteq> [] \<and> length (lc_model cfg) \<le> 128
           \<and> list_all (\<lambda>c. is_ascii_alphanumeric c \<or> c \<in> set ''-._/'') (lc_model cfg))
         ''invalid LLM model'') (\<lambda>_.
     and_then (ensure (lc_api_key_env cfg \<noteq> [] \<and> length (lc_api_key_env cfg) \<le> 128
           \<and> list_all (\<lambda>c. (CHR ''A'' \<le> c \<and> c \<le> CHR ''Z'') \<or> (CHR ''0'' \<le> c \<and> c \<le> CHR ''9'') \<or> c = CHR ''_'')
               (lc_api_key_env cfg))
         ''invalid LLM key environment name'') (\<lambda>_.
     and_then (ensure (lc_monthly_budget_micro_eur cfg \<le> 10000000000)
         ''LLM budget exceeds local supported limit'') (\<lambda>_.
     and_then (ensure (1 \<le> lc_input_micro_eur_per_million cfg \<and> lc_input_micro_eur_per_million cfg \<le> 1000000000
           \<and> 1 \<le> lc_output_micro_eur_per_million cfg \<and> lc_output_micro_eur_per_million cfg \<le> 1000000000)
         ''LLM prices must be explicit and positive'') (\<lambda>_.
     and_then (ensure (100 \<le> lc_timeout_ms cfg \<and> lc_timeout_ms cfg \<le> 5000
           \<and> 512 \<le> lc_max_text_bytes cfg \<and> lc_max_text_bytes cfg \<le> 24000
           \<and> 64 \<le> lc_max_output_tokens cfg \<and> lc_max_output_tokens cfg \<le> 512
           \<and> 1 \<le> lc_max_parallel cfg \<and> lc_max_parallel cfg \<le> 4)
         ''invalid LLM resource limits'') (\<lambda>_.
     ensure (f64_is_finite (lc_score_low cfg) \<and> f64_is_finite (lc_score_high cfg)
         \<and> f64_le (Fin 0) (lc_score_low cfg) \<and> f64_lt (lc_score_low cfg) (lc_score_high cfg)
         \<and> f64_le (lc_score_high cfg) (Fin 100))
       ''invalid LLM ambiguity interval'')))))))"

definition div_ceil :: "nat \<Rightarrow> nat \<Rightarrow> nat" where
  "div_ceil a b = a div b + (if a mod b = 0 then 0 else 1)"

text \<open>A release build wraps on overflow.\<close>

definition estimated_cost :: "llm_config \<Rightarrow> nat \<Rightarrow> nat \<Rightarrow> nat" where
  "estimated_cost cfg input output =
     wrap64 (div_ceil (wrap64 (input * lc_input_micro_eur_per_million cfg)) 1000000
       + div_ceil (wrap64 (output * lc_output_micro_eur_per_million cfg)) 1000000)"

definition advisory_weight :: "llm_result \<Rightarrow> f64" where
  "advisory_weight r =
     (case option_filter (\<lambda>v. llm_status_of r = Llm_Complete \<and> verdict_coherent v) (llm_verdict_of r) of
        None \<Rightarrow> Fin 0
      | Some v \<Rightarrow>
          if is_some_and (llm_grounding r) (\<lambda>g. \<not> gr_supported g) then Fin 0
          else if lv_category v \<in> {L_Spam, L_Phishing} \<and> f64_ge (lv_confidence v) (Fin (9/10))
               \<and> f64_ge (lv_spam_probability v) (Fin (9/10)) then Fin (3/2)
          else if lv_category v = L_Legitimate \<and> f64_ge (lv_confidence v) (Fin (95/100))
               \<and> f64_le (lv_spam_probability v) (Fin (1/10)) then Fin (-1/2)
          else Fin 0)"

section \<open>Databases\<close>

record reservation =
  rv_month :: string
  rv_cost :: int
  rv_settled :: bool

record budget_db =
  bd_months :: "string \<Rightarrow> (int \<times> int) option"
  bd_reservations :: "(string \<times> reservation) list"
  bd_wallet_mode :: bool
  bd_wallet :: "string \<times> string \<Rightarrow> (int \<times> bool) option"
  bd_unlimited_lease :: "string \<Rightarrow> int option"
  bd_allocations :: "string \<times> string \<times> string \<Rightarrow> int option"
  bd_quota :: "string \<Rightarrow> (int \<times> int \<times> int \<times> int) option"
  bd_cache :: "string \<Rightarrow> (int \<times> string) option"
  bd_cooldown :: "string \<Rightarrow> int option"

definition empty_db :: budget_db where
  "empty_db = \<lparr>bd_months = (\<lambda>_. None), bd_reservations = [], bd_wallet_mode = False, bd_wallet = (\<lambda>_. None),
     bd_unlimited_lease = (\<lambda>_. None), bd_allocations = (\<lambda>_. None), bd_quota = (\<lambda>_. None),
     bd_cache = (\<lambda>_. None), bd_cooldown = (\<lambda>_. None)\<rparr>"

text \<open>The data directory of a node: the two databases and the recovery hold.\<close>

record budget_root =
  br_llm :: budget_db
  br_reputation :: budget_db
  br_hold :: bool

definition enable_worker :: "budget_root \<Rightarrow> budget_root" where
  "enable_worker rt = rt\<lparr>br_llm := (br_llm rt)\<lparr>bd_wallet_mode := True\<rparr>,
     br_reputation := (br_reputation rt)\<lparr>bd_wallet_mode := True\<rparr>\<rparr>"

definition month_used :: "budget_db \<Rightarrow> string \<Rightarrow> nat result" where
  "month_used db m = (case bd_months db m of None \<Rightarrow> Inr 0 | Some (accounted, _) \<Rightarrow> get_u64 accounted)"

definition ceiling_at :: "budget_db \<Rightarrow> string \<Rightarrow> string \<Rightarrow> nat \<Rightarrow> nat \<Rightarrow> nat result" where
  "ceiling_at db resource window maximum now =
     (if \<not> bd_wallet_mode db then Inr maximum
      else (case bd_wallet db (resource, window) of
          Some (amount, unlimited) \<Rightarrow>
            and_then (get_u64 amount) (\<lambda>n.
            Inr (if unlimited then (if maximum = u64_max then maximum else 0) else min n maximum))
        | None \<Rightarrow>
            Inr (if maximum = u64_max \<and> resource \<noteq> ''llm''
                 then (if is_some_and (bd_unlimited_lease db resource) (\<lambda>expires. expires > int now)
                       then maximum else 0)
                 else 0)))"

section \<open>Reservations of a review\<close>

definition add_month :: "string \<Rightarrow> int \<Rightarrow> int \<Rightarrow> budget_db \<Rightarrow> budget_db" where
  "add_month m cost requests db = db\<lparr>bd_months := (bd_months db)(m \<mapsto>
     (case bd_months db m of None \<Rightarrow> (cost, requests) | Some (a, r) \<Rightarrow> (a + cost, r + requests)))\<rparr>"

definition llm_reserve ::
    "(int \<Rightarrow> string) \<Rightarrow> (int \<Rightarrow> string) \<Rightarrow> string \<Rightarrow> nat \<Rightarrow> nat \<Rightarrow> nat \<Rightarrow> budget_db \<Rightarrow>
     (budget_db \<times> string option) result" where
  "llm_reserve month month_before fresh cost maximum now db =
     (let m = month (int now) in
      and_then (month_used db m) (\<lambda>used.
      and_then (ceiling_at db ''llm'' m maximum now) (\<lambda>limit.
      if cost = 0 \<or> u64_saturating_add used cost > limit then Inr (db, None)
      else
        and_then (bind_u64 cost) (\<lambda>c.
        and_then (ensure (fresh \<notin> fst ` set (bd_reservations db)) ''UNIQUE constraint failed'') (\<lambda>_.
        let db1 = add_month m c 1 db
        in Inr (db1\<lparr>bd_reservations :=
             filter (\<lambda>(_, r). \<not> rv_month r < month_before (int now))
               (bd_reservations db1 @ [(fresh, \<lparr>rv_month = m, rv_cost = c, rv_settled = False\<rparr>)])\<rparr>,
           Some fresh))))))"

definition llm_settle :: "string \<Rightarrow> nat \<Rightarrow> budget_db \<Rightarrow> budget_db result" where
  "llm_settle i actual db =
     (case map_of (bd_reservations db) i of
        None \<Rightarrow> Inl ''Query returned no rows''
      | Some r \<Rightarrow>
          and_then (get_u64 (rv_cost r)) (\<lambda>reserved.
          if rv_settled r then Inr db
          else
            and_then (ensure (actual \<le> reserved) ''LLM usage exceeds conservative reservation'') (\<lambda>_.
            Inr (db\<lparr>bd_months :=
                   (case bd_months db (rv_month r) of
                      None \<Rightarrow> bd_months db
                    | Some (a, n) \<Rightarrow> (bd_months db)(rv_month r \<mapsto> (a - (int reserved - int actual), n))),
                 bd_reservations := map (\<lambda>(j, x). (j, if j = i then x\<lparr>rv_settled := True, rv_cost := int actual\<rparr> else x))
                   (bd_reservations db)\<rparr>))))"


section \<open>Escrow\<close>

record budget_request =
  rq_known :: "(string \<times> nat) list"
  rq_replenish :: "string list"

record credit =
  cr_resource :: string
  cr_window :: string
  cr_amount :: nat
  cr_unlimited :: bool

definition known_key :: "string \<Rightarrow> string \<Rightarrow> string" where
  "known_key resource window = resource @ '':'' @ window"

definition allocate ::
    "string \<Rightarrow> string \<Rightarrow> string \<Rightarrow> budget_request \<Rightarrow> nat \<times> nat \<times> nat \<Rightarrow> budget_db \<Rightarrow>
     (budget_db \<times> nat \<times> nat) result" where
  "allocate node resource window request allowance db =
     (case allowance of (maximum, used, chunk) \<Rightarrow>
       and_then (case bd_allocations db (node, resource, window) of None \<Rightarrow> Inr 0 | Some a \<Rightarrow> get_u64 a) (\<lambda>previous.
       let known = unwrap_or (map_of (rq_known request) (known_key resource window)) 0;
           increment = (if previous = known \<and> resource \<in> set (rq_replenish request)
                        then min chunk (maximum - used) else 0);
           amount = previous + increment
       in and_then (ensure (amount \<le> u64_max) ''credit overflow'') (\<lambda>_.
          and_then (bind_u64 amount) (\<lambda>a.
          Inr (db\<lparr>bd_allocations := (bd_allocations db)((node, resource, window) \<mapsto> a)\<rparr>, amount, increment)))))"

text \<open>\<open>grant\<close>, the part of the review budget and the part of one provider.\<close>

definition grant_llm ::
    "(int \<Rightarrow> string) \<Rightarrow> nat \<Rightarrow> string \<Rightarrow> budget_request \<Rightarrow> nat \<Rightarrow> budget_db \<Rightarrow> (budget_db \<times> credit) result" where
  "grant_llm month maximum node request now db =
     (let m = month (int now) in
      and_then (month_used db m) (\<lambda>used.
      and_then (allocate node ''llm'' m request (maximum, used, 100000) db) (\<lambda>(db1, amount, increment).
      and_then (bind_u64 increment) (\<lambda>i.
      Inr (add_month m i 0 db1,
        \<lparr>cr_resource = ''llm'', cr_window = m, cr_amount = amount, cr_unlimited = False\<rparr>)))))"

fun provider_name :: "provider \<Rightarrow> string" where
  "provider_name Crdf = ''crdf''"
| "provider_name Virustotal = ''virustotal''"

record quota =
  qu_minute :: nat
  qu_day :: nat

definition grant_window ::
    "string \<Rightarrow> provider \<Rightarrow> string \<Rightarrow> nat \<Rightarrow> nat \<Rightarrow> nat \<Rightarrow> nat \<Rightarrow> budget_request \<Rightarrow> budget_db \<Rightarrow>
     (budget_db \<times> nat \<times> credit) result" where
  "grant_window node p kind number limit used chunk request db =
     (let resource = provider_name p @ ''-'' @ kind; window = nat_digits number in
      and_then (if limit = 0 then Inr (db, 0, 0)
                else allocate node resource window request (limit, used, chunk) db) (\<lambda>(db1, amount, increment).
      Inr (db1, u64_saturating_add used increment,
        \<lparr>cr_resource = resource, cr_window = window, cr_amount = amount, cr_unlimited = (limit = 0)\<rparr>)))"

definition quota_read :: "int \<times> int \<times> int \<times> int \<Rightarrow> (int \<times> nat \<times> int \<times> nat) result" where
  "quota_read row = (case row of (d, du, m, mu) \<Rightarrow>
     and_then (get_u64 du) (\<lambda>day_used. and_then (get_u64 mu) (\<lambda>minute_used.
     Inr (d, day_used, m, minute_used))))"

definition grant_provider ::
    "provider \<Rightarrow> quota \<Rightarrow> string \<Rightarrow> budget_request \<Rightarrow> nat \<Rightarrow> budget_db \<Rightarrow> (budget_db \<times> credit list) result" where
  "grant_provider p q node request now db =
     (let day = now div 86400; minute = now div 60 in
      and_then (case bd_quota db (provider_name p) of
          None \<Rightarrow> Inr (0, 0)
        | Some row \<Rightarrow> and_then (quota_read row) (\<lambda>(d, du, m, mu).
            Inr (if d = int day then du else 0, if m = int minute then mu else 0))) (\<lambda>(du, mu).
      and_then (grant_window node p ''day'' day (qu_day q) du 50 request db) (\<lambda>(db1, du', c1).
      and_then (grant_window node p ''minute'' minute (qu_minute q) mu 1 request db1) (\<lambda>(db2, mu', c2).
      and_then (bind_u64 du') (\<lambda>d. and_then (bind_u64 mu') (\<lambda>m.
      Inr (db2\<lparr>bd_quota := (bd_quota db2)(provider_name p \<mapsto> (int day, d, int minute, m))\<rparr>, [c1, c2])))))))"

text \<open>What \<open>grant\<close> reads of the configuration: the monthly budget and each enabled provider's quota.\<close>

record budget_config =
  bc_llm :: "nat option"
  bc_providers :: "(provider \<times> quota) list"

fun grant_providers ::
    "(provider \<times> quota) list \<Rightarrow> string \<Rightarrow> budget_request \<Rightarrow> nat \<Rightarrow> budget_db \<Rightarrow> budget_db \<times> credit list result" where
  "grant_providers [] node request now db = (db, Inr [])"
| "grant_providers ((p, q) # ps) node request now db =
     (case grant_provider p q node request now db of
        Inl e \<Rightarrow> (db, Inl e)
      | Inr (db1, cs) \<Rightarrow>
          (case grant_providers ps node request now db1 of
             (db2, r) \<Rightarrow> (db2, and_then r (\<lambda>cs'. Inr (cs @ cs')))))"

text \<open>
  \<open>CAST(window AS INTEGER)\<close>: the value of the leading digits, after blanks and a sign.
\<close>

fun leading_digits :: "nat \<Rightarrow> string \<Rightarrow> nat" where
  "leading_digits acc [] = acc"
| "leading_digits acc (c # cs) =
     (if 48 \<le> byte c \<and> byte c \<le> 57 then leading_digits (acc * 10 + (byte c - 48)) cs else acc)"

definition cast_integer :: "string \<Rightarrow> int" where
  "cast_integer s =
     (case dropWhile (\<lambda>c. char_is_whitespace (byte c)) s of
        [] \<Rightarrow> 0
      | c # cs \<Rightarrow>
          if c = CHR ''-'' then - int (leading_digits 0 cs)
          else if c = CHR ''+'' then int (leading_digits 0 cs)
          else int (leading_digits 0 (c # cs)))"

definition delete_where :: "('k \<Rightarrow> bool) \<Rightarrow> ('k \<Rightarrow> 'v option) \<Rightarrow> 'k \<Rightarrow> 'v option" where
  "delete_where P t = (\<lambda>k. if P k then None else t k)"

definition expired_llm :: "string \<Rightarrow> string \<Rightarrow> string \<Rightarrow> bool" where
  "expired_llm oldest resource window \<longleftrightarrow> resource = ''llm'' \<and> window < oldest"

definition expired_provider :: "nat \<Rightarrow> string \<Rightarrow> string \<Rightarrow> bool" where
  "expired_provider now resource window \<longleftrightarrow>
     (ends_with ''-day'' (to_ascii_lowercase resource) \<and> cast_integer window < int (now div 86400) - 2)
     \<or> (ends_with ''-minute'' (to_ascii_lowercase resource) \<and> cast_integer window < int (now div 60) - 10)"

definition prune_db :: "(string \<Rightarrow> string \<Rightarrow> bool) \<Rightarrow> budget_db \<Rightarrow> budget_db" where
  "prune_db expired db = db
     \<lparr>bd_wallet := delete_where (\<lambda>(r, w). expired r w) (bd_wallet db),
      bd_allocations := delete_where (\<lambda>(_, r, w). expired r w) (bd_allocations db)\<rparr>"

definition budget_prune :: "(int \<Rightarrow> string) \<Rightarrow> nat \<Rightarrow> budget_root \<Rightarrow> budget_root" where
  "budget_prune month now rt = rt
     \<lparr>br_llm := prune_db (expired_llm (month (int now - 62 * 86400))) (br_llm rt),
      br_reputation := prune_db (expired_provider now) (br_reputation rt)\<rparr>"

text \<open>
  The databases are committed one after the other, so an error of a later provider keeps what
  the earlier transactions wrote; the credits are then not sent.
\<close>

definition grant ::
    "(int \<Rightarrow> string) \<Rightarrow> budget_config \<Rightarrow> string \<Rightarrow> budget_request \<Rightarrow> nat \<Rightarrow> budget_root \<Rightarrow>
     budget_root \<times> credit list result" where
  "grant month cfg node request now rt =
     (if \<not> (length (rq_known request) \<le> 10 \<and> length (rq_replenish request) \<le> 5
            \<and> list_all (\<lambda>(k, _). length k < 80) (rq_known request))
      then (rt, Inl ''Invalid budget request'')
      else if br_hold rt then (rt, Inr [])
      else
       (case (case bc_llm cfg of
                None \<Rightarrow> Inr (br_llm rt, [])
              | Some maximum \<Rightarrow>
                  and_then (grant_llm month maximum node request now (br_llm rt)) (\<lambda>(db, c). Inr (db, [c]))) of
          Inl e \<Rightarrow> (rt, Inl e)
        | Inr (llm, cs) \<Rightarrow>
            (case grant_providers (bc_providers cfg) node request now (br_reputation rt) of
               (rep, Inl e) \<Rightarrow> (rt\<lparr>br_llm := llm, br_reputation := rep\<rparr>, Inl e)
             | (rep, Inr cs') \<Rightarrow>
                 (budget_prune month now (rt\<lparr>br_llm := llm, br_reputation := rep\<rparr>), Inr (cs @ cs')))))"

section \<open>A worker's side\<close>

definition known_resources :: "string list" where
  "known_resources = [''llm'', ''crdf-day'', ''crdf-minute'', ''virustotal-day'', ''virustotal-minute'']"

definition current_window :: "(int \<Rightarrow> string) \<Rightarrow> string \<Rightarrow> nat \<Rightarrow> string" where
  "current_window month resource now =
     (if resource = ''llm'' then month (int now)
      else if ends_with ''-day'' resource then nat_digits (now div 86400)
      else nat_digits (now div 60))"

definition wallet_insert :: "credit \<Rightarrow> budget_db \<Rightarrow> budget_db" where
  "wallet_insert c db = db\<lparr>bd_wallet := (bd_wallet db)((cr_resource c, cr_window c) \<mapsto>
     (case bd_wallet db (cr_resource c, cr_window c) of
        None \<Rightarrow> (int (cr_amount c), cr_unlimited c)
      | Some (a, _) \<Rightarrow> (max a (int (cr_amount c)), cr_unlimited c)))\<rparr>"

fun install_credits ::
    "(int \<Rightarrow> string) \<Rightarrow> nat \<Rightarrow> credit list \<Rightarrow> string list \<Rightarrow> budget_root \<Rightarrow> budget_root \<times> string list result" where
  "install_credits month now [] unlimited rt = (rt, Inr unlimited)"
| "install_credits month now (c # cs) unlimited rt =
     (if \<not> (cr_resource c \<in> set known_resources \<and> cr_amount c \<le> 10000000000
            \<and> \<not> (cr_resource c = ''llm'' \<and> cr_unlimited c))
      then (rt, Inl ''Invalid credit'')
      else if cr_window c \<noteq> current_window month (cr_resource c) now
      then install_credits month now cs unlimited rt
      else install_credits month now cs
             (if cr_unlimited c then unlimited @ [cr_resource c] else unlimited)
             (if cr_resource c = ''llm'' then rt\<lparr>br_llm := wallet_insert c (br_llm rt)\<rparr>
              else rt\<lparr>br_reputation := wallet_insert c (br_reputation rt)\<rparr>))"

definition install ::
    "(int \<Rightarrow> string) \<Rightarrow> credit list \<Rightarrow> nat \<Rightarrow> budget_root \<Rightarrow> budget_root \<times> unit result" where
  "install month credits now rt =
     (if length credits > 5 then (rt, Inl ''Too many credits'')
      else (case install_credits month now credits [] rt of
          (rt1, Inl e) \<Rightarrow> (rt1, Inl e)
        | (rt1, Inr unlimited) \<Rightarrow>
            if \<not> distinct unlimited then (rt1, Inl ''UNIQUE constraint failed'')
            else (budget_prune month now (rt1\<lparr>br_reputation := (br_reputation rt1)
               \<lparr>bd_unlimited_lease := (\<lambda>r. if r \<in> set unlimited
                   then Some (i64_saturating_add (int now) 30) else None)\<rparr>\<rparr>), Inr ())))"

definition provider_needs :: "nat \<Rightarrow> budget_db \<Rightarrow> provider \<Rightarrow> (string \<times> string \<times> nat \<times> nat) list" where
  "provider_needs now db p =
     (let row = Option.bind (bd_quota db (provider_name p)) (\<lambda>r. case quota_read r of Inl _ \<Rightarrow> None | Inr x \<Rightarrow> Some x);
          day = now div 86400; minute = now div 60
      in [(provider_name p @ ''-day'', nat_digits day,
           (case row of None \<Rightarrow> 0 | Some (d, n, _, _) \<Rightarrow> if d = int day then n else 0), 2),
          (provider_name p @ ''-minute'', nat_digits minute,
           (case row of None \<Rightarrow> 0 | Some (_, _, m, n) \<Rightarrow> if m = int minute then n else 0), 1)])"

definition wallet_row :: "budget_root \<Rightarrow> string \<Rightarrow> string \<Rightarrow> (nat \<times> bool) result" where
  "wallet_row rt resource window =
     (case bd_wallet (if resource = ''llm'' then br_llm rt else br_reputation rt) (resource, window) of
        None \<Rightarrow> Inr (0, False)
      | Some (a, u) \<Rightarrow> and_then (get_u64 a) (\<lambda>n. Inr (n, u)))"

fun collect_needs ::
    "budget_root \<Rightarrow> (string \<times> string \<times> nat \<times> nat) list \<Rightarrow> budget_request \<Rightarrow> budget_request result" where
  "collect_needs rt [] out = Inr out"
| "collect_needs rt ((resource, window, used, margin) # needs) out =
     and_then (wallet_row rt resource window) (\<lambda>(amount, unlimited).
     collect_needs rt needs
       (out\<lparr>rq_known := rq_known out @ [(known_key resource window, amount)],
           rq_replenish := rq_replenish out @
             (if \<not> unlimited \<and> amount - used < margin then [resource] else [])\<rparr>))"

definition build_request :: "(int \<Rightarrow> string) \<Rightarrow> nat \<Rightarrow> budget_root \<Rightarrow> budget_request result" where
  "build_request month now rt =
     (let m = month (int now);
          used = (case bd_months (br_llm rt) m of
              None \<Rightarrow> 0 | Some (a, _) \<Rightarrow> (case get_u64 a of Inl _ \<Rightarrow> 0 | Inr n \<Rightarrow> n))
      in collect_needs rt
           ((''llm'', m, used, 10000) # concat (map (provider_needs now (br_reputation rt)) [Crdf, Virustotal]))
           \<lparr>rq_known = [], rq_replenish = []\<rparr>)"

section \<open>Reservation of a provider request\<close>

datatype provider_reservation = Cached string | Fetch | Quota_Exhausted | Backoff

definition quota_exhausted :: "quota \<Rightarrow> int \<Rightarrow> int \<Rightarrow> bool" where
  "quota_exhausted q minute_used day_used \<longleftrightarrow>
     (qu_minute q \<noteq> 0 \<and> minute_used \<ge> int (qu_minute q)) \<or> (qu_day q \<noteq> 0 \<and> day_used \<ge> int (qu_day q))"

definition cap_of :: "nat \<Rightarrow> nat" where "cap_of limit = (if limit = 0 then u64_max else limit)"

definition provider_reserve ::
    "provider \<Rightarrow> string \<Rightarrow> string \<Rightarrow> quota \<Rightarrow> nat \<Rightarrow> budget_db \<Rightarrow> (budget_db \<times> provider_reservation) result" where
  "provider_reserve p cache_key credential q now db =
     (case option_filter (\<lambda>(expires, _). expires > int now) (bd_cache db cache_key) of
        Some (_, verdict) \<Rightarrow> Inr (db, Cached verdict)
      | None \<Rightarrow>
          if is_some_and (bd_cooldown db credential) (\<lambda>expires. expires > int now) then Inr (db, Backoff)
          else
           (let day = now div 86400; minute = now div 60;
                used = (case bd_quota db (provider_name p) of
                    None \<Rightarrow> (0, 0)
                  | Some (d, du, m, mu) \<Rightarrow> (if d = int day then du else 0, if m = int minute then mu else 0))
            in and_then (ceiling_at db (provider_name p @ ''-day'') (nat_digits day) (cap_of (qu_day q)) now) (\<lambda>day_cap.
               and_then (ceiling_at db (provider_name p @ ''-minute'') (nat_digits minute) (cap_of (qu_minute q)) now) (\<lambda>minute_cap.
               if quota_exhausted q (snd used) (fst used) \<or> i64_as_u64 (fst used) \<ge> day_cap
                  \<or> i64_as_u64 (snd used) \<ge> minute_cap
               then Inr (db, Quota_Exhausted)
               else Inr (db\<lparr>bd_quota := (bd_quota db)(provider_name p \<mapsto>
                      (int day, i64_saturating_add (fst used) 1, int minute, i64_saturating_add (snd used) 1))\<rparr>,
                    Fetch)))))"


section \<open>Lemmas: one ledger\<close>

text \<open>
  The amount accounted for a month covers the costs of its reservations; what is left over is
  what the authority has issued to other nodes.
\<close>

definition accounted :: "budget_db \<Rightarrow> string \<Rightarrow> int" where
  "accounted db m = (case bd_months db m of None \<Rightarrow> 0 | Some (a, _) \<Rightarrow> a)"

definition row_cost :: "string \<Rightarrow> string \<times> reservation \<Rightarrow> int" where
  "row_cost m x = (if rv_month (snd x) = m then rv_cost (snd x) else 0)"

definition reserved_cost :: "budget_db \<Rightarrow> string \<Rightarrow> int" where
  "reserved_cost db m = sum_list (map (row_cost m) (bd_reservations db))"

definition ledger_inv :: "budget_db \<Rightarrow> bool" where
  "ledger_inv db \<longleftrightarrow> distinct (map fst (bd_reservations db)) \<and> (\<forall>x \<in> set (bd_reservations db). 0 \<le> rv_cost (snd x))"

lemma accounted_add_month: "accounted (add_month m c r db) w = accounted db w + (if w = m then c else 0)"
  by (auto simp: accounted_def add_month_def split: option.splits)

lemma get_u64_Inr_iff [simp]: "get_u64 i = Inr n \<longleftrightarrow> 0 \<le> i \<and> n = nat i"
  by (auto simp: get_u64_def)

lemma bind_u64_Inr_iff [simp]: "bind_u64 n = Inr i \<longleftrightarrow> i = int n \<and> int n \<le> i64_max"
  by (auto simp: bind_u64_def)

lemma month_used_Inr: "month_used db m = Inr u \<Longrightarrow> int u = accounted db m"
  by (auto simp: month_used_def accounted_def split: option.splits)

lemma sum_rows_nonneg:
  "\<forall>x \<in> set xs. 0 \<le> rv_cost (snd x) \<Longrightarrow> 0 \<le> sum_list (map (row_cost m) xs)"
  by (rule sum_list_nonneg) (auto simp: row_cost_def)

lemma reserved_cost_nonneg: "ledger_inv db \<Longrightarrow> 0 \<le> reserved_cost db m"
  unfolding ledger_inv_def reserved_cost_def by (rule sum_rows_nonneg) blast

lemma sum_rows_filter:
  "\<forall>x \<in> set xs. 0 \<le> rv_cost (snd x) \<Longrightarrow>
   sum_list (map (row_cost m) (filter P xs)) \<le> sum_list (map (row_cost m) xs)"
  by (induction xs) (auto simp: row_cost_def)

lemma sum_rows_update:
  assumes "distinct (map fst xs)" and "map_of xs i = Some r"
  shows "sum_list (map (row_cost m) (map (\<lambda>(j, x). (j, if j = i then x\<lparr>rv_settled := True, rv_cost := c\<rparr> else x)) xs))
    = sum_list (map (row_cost m) xs) + (if rv_month r = m then c - rv_cost r else 0)"
  using assms
proof (induction xs)
  case (Cons y ys)
  obtain j x where y: "y = (j, x)" by force
  show ?case
  proof (cases "j = i")
    case True
    with Cons.prems y have "i \<notin> fst ` set ys" "x = r" by auto
    then have "map (\<lambda>(j, x). (j, if j = i then x\<lparr>rv_settled := True, rv_cost := c\<rparr> else x)) ys = ys"
      by (intro map_idI) (auto simp: image_iff)
    with True y \<open>x = r\<close> show ?thesis by (auto simp: row_cost_def)
  next
    case False
    with Cons y show ?thesis by simp
  qed
qed simp

lemma llm_reserve_cases:
  assumes "llm_reserve month month_before fresh cost maximum now db = Inr (db', r)" and "ledger_inv db"
    and "maximum < u64_max"
  obtains "db' = db" and "r = None"
  | limit where "ceiling_at db ''llm'' (month (int now)) maximum now = Inr limit" and "ledger_inv db'"
    and "\<And>w. accounted db' w = accounted db w + (if w = month (int now) then int cost else 0)"
    and "accounted db' (month (int now)) \<le> int limit" and "limit \<le> maximum"
    and "\<And>w. reserved_cost db' w \<le> reserved_cost db w + (if w = month (int now) then int cost else 0)"
    and "bd_wallet db' = bd_wallet db" and "bd_wallet_mode db' = bd_wallet_mode db"
    and "bd_allocations db' = bd_allocations db" and "r = Some fresh"
proof -
  let ?m = "month (int now)"
  let ?new = "(fresh, \<lparr>rv_month = ?m, rv_cost = int cost, rv_settled = False\<rparr>)"
  let ?keep = "\<lambda>(_, r). \<not> rv_month r < month_before (int now)"
  from assms(1) obtain used limit where u: "month_used db ?m = Inr used"
    and l: "ceiling_at db ''llm'' ?m maximum now = Inr limit"
    and rest: "(if cost = 0 \<or> u64_saturating_add used cost > limit then Inr (db, None)
      else and_then (bind_u64 cost) (\<lambda>c.
        and_then (ensure (fresh \<notin> fst ` set (bd_reservations db)) ''UNIQUE constraint failed'') (\<lambda>_.
        let db1 = add_month ?m c 1 db
        in Inr (db1\<lparr>bd_reservations := filter ?keep
               (bd_reservations db1 @ [(fresh, \<lparr>rv_month = ?m, rv_cost = c, rv_settled = False\<rparr>)])\<rparr>,
           Some fresh)))) = Inr (db', r)"
    by (auto simp: llm_reserve_def Let_def and_then_Inr_iff)
  show thesis
  proof (cases "cost = 0 \<or> u64_saturating_add used cost > limit")
    case True
    with rest that(1) show thesis by simp
  next
    case False
    with rest have fresh: "fresh \<notin> fst ` set (bd_reservations db)" and r: "r = Some fresh"
      and db': "db' = (add_month ?m (int cost) 1 db)\<lparr>bd_reservations := filter ?keep (bd_reservations db @ [?new])\<rparr>"
      by (auto simp: and_then_Inr_iff Let_def add_month_def)
    have lm: "limit \<le> maximum"
      using l by (auto simp: ceiling_at_def and_then_Inr_iff split: if_splits option.splits)
    have acc: "accounted db' w = accounted db w + (if w = ?m then int cost else 0)" for w
      using accounted_add_month [of ?m "int cost" 1 db w] by (simp add: db' accounted_def)
    have le: "accounted db' ?m \<le> int limit"
      using False month_used_Inr [OF u] lm assms(3) by (auto simp: acc u64_saturating_add_def min_def split: if_splits)
    have nn: "\<forall>x \<in> set (bd_reservations db @ [?new]). 0 \<le> rv_cost (snd x)"
      using assms(2) by (auto simp: ledger_inv_def)
    have "distinct (map fst (bd_reservations db @ [?new]))"
      using assms(2) fresh by (auto simp: ledger_inv_def)
    then have "distinct (map fst (filter ?keep (bd_reservations db @ [?new])))"
      by (rule distinct_map_filter)
    then have inv: "ledger_inv db'"
      using nn unfolding ledger_inv_def db' by (auto simp del: map_append filter_append)
    have cost: "reserved_cost db' w \<le> reserved_cost db w + (if w = ?m then int cost else 0)" for w
      using sum_rows_filter [OF nn, of w ?keep]
      by (cases "w = ?m") (simp_all add: reserved_cost_def db' row_cost_def del: filter_append)
    show thesis
      by (rule that(2) [OF l inv acc le lm cost]) (simp_all add: db' add_month_def r)
  qed
qed

lemma llm_settle_cases:
  assumes "llm_settle i actual db = Inr db'" and "ledger_inv db"
    and cov: "\<And>w. reserved_cost db w + spare w \<le> accounted db w" and sp: "\<And>w. 0 \<le> spare w"
  shows "ledger_inv db'" and "\<And>w. reserved_cost db' w + spare w \<le> accounted db' w"
    and "\<And>w. accounted db' w \<le> accounted db w"
    and "bd_wallet db' = bd_wallet db" and "bd_wallet_mode db' = bd_wallet_mode db"
    and "bd_allocations db' = bd_allocations db"
proof -
  let ?upd = "map (\<lambda>(j, x). (j, if j = i then x\<lparr>rv_settled := True, rv_cost := int actual\<rparr> else x))"
  from assms(1) obtain r where r: "map_of (bd_reservations db) i = Some r" "0 \<le> rv_cost r"
    and c: "rv_settled r \<and> db' = db \<or> int actual \<le> rv_cost r \<and>
      db' = db\<lparr>bd_months := (case bd_months db (rv_month r) of None \<Rightarrow> bd_months db
          | Some (a, n) \<Rightarrow> (bd_months db)(rv_month r \<mapsto> (a - (rv_cost r - int actual), n))),
        bd_reservations := ?upd (bd_reservations db)\<rparr>"
    by (auto simp: llm_settle_def and_then_Inr_iff le_nat_iff split: option.splits if_splits)
  have d: "distinct (map fst (bd_reservations db))" using assms(2) by (simp add: ledger_inv_def)
  have fst_upd: "map fst (?upd xs) = map fst xs" for xs :: "(string \<times> reservation) list" by (induction xs) auto
  have all: "ledger_inv db' \<and> (\<forall>w. reserved_cost db' w + spare w \<le> accounted db' w \<and> accounted db' w \<le> accounted db w)
    \<and> bd_wallet db' = bd_wallet db \<and> bd_wallet_mode db' = bd_wallet_mode db \<and> bd_allocations db' = bd_allocations db"
  proof (cases "db' = db")
    case True
    then show ?thesis using assms(2) cov by simp
  next
    case False
    with c have a: "int actual \<le> rv_cost r" and db': "db' = db\<lparr>bd_months := (case bd_months db (rv_month r) of None \<Rightarrow> bd_months db
          | Some (a, n) \<Rightarrow> (bd_months db)(rv_month r \<mapsto> (a - (rv_cost r - int actual), n))),
        bd_reservations := ?upd (bd_reservations db)\<rparr>" by auto
    have inv: "ledger_inv db'"
      using assms(2) unfolding ledger_inv_def db' by (auto simp: fst_upd simp del: map_map)
    have rc: "reserved_cost db' w = reserved_cost db w + (if rv_month r = w then int actual - rv_cost r else 0)" for w
      using sum_rows_update [OF d r(1), of w "int actual"] by (simp add: reserved_cost_def db' del: map_map)
    have ac: "accounted db' w = accounted db w + (if rv_month r = w \<and> bd_months db w \<noteq> None then int actual - rv_cost r else 0)" for w
      by (auto simp: accounted_def db' split: option.splits)
    have none: "reserved_cost db w + spare w \<le> 0" if "bd_months db w = None" for w
      using cov [of w] that by (simp add: accounted_def)
    have "reserved_cost db' w + spare w \<le> accounted db' w" for w
      using cov [of w] none [of w] rc [of w] ac [of w] a by (cases "bd_months db w") (auto simp: accounted_def)
    moreover have "accounted db' w \<le> accounted db w" for w using a by (simp add: ac)
    moreover have "bd_wallet db' = bd_wallet db \<and> bd_wallet_mode db' = bd_wallet_mode db
      \<and> bd_allocations db' = bd_allocations db" by (simp add: db')
    ultimately show ?thesis using inv by blast
  qed
  then show "ledger_inv db'" and "\<And>w. reserved_cost db' w + spare w \<le> accounted db' w"
    and "\<And>w. accounted db' w \<le> accounted db w"
    and "bd_wallet db' = bd_wallet db" and "bd_wallet_mode db' = bd_wallet_mode db"
    and "bd_allocations db' = bd_allocations db" by auto
qed


section \<open>The escrow\<close>

text \<open>
  One authority, the workers \<open>W\<close> and the credits ever sent, which may be delivered late,
  repeatedly, partly or never. Every step takes its own clock reading, so the clocks of the nodes
  need not agree; every budget in force is at most \<open>M\<close>.
\<close>

record escrow =
  es_authority :: budget_root
  es_worker :: "string \<Rightarrow> budget_root"
  es_credits :: "(string \<times> credit) set"

definition escrow_new :: escrow where
  "escrow_new =
     (let fresh = \<lparr>br_llm = empty_db, br_reputation = empty_db, br_hold = False\<rparr>
      in \<lparr>es_authority = fresh, es_worker = (\<lambda>_. enable_worker fresh), es_credits = {}\<rparr>)"

definition sent :: "string \<Rightarrow> credit list result \<Rightarrow> (string \<times> credit) set" where
  "sent n r = (case r of Inl _ \<Rightarrow> {} | Inr cs \<Rightarrow> Pair n ` set cs)"

definition set_worker :: "string \<Rightarrow> budget_root \<Rightarrow> escrow \<Rightarrow> escrow" where
  "set_worker n rt e = e\<lparr>es_worker := (es_worker e)(n := rt)\<rparr>"

inductive escrow_step :: "(int \<Rightarrow> string) \<Rightarrow> (int \<Rightarrow> string) \<Rightarrow> string set \<Rightarrow> nat \<Rightarrow> escrow \<Rightarrow> escrow \<Rightarrow> bool"
  for month month_before W M where
  granted: "n \<in> W \<Longrightarrow> (\<And>m. bc_llm cfg = Some m \<Longrightarrow> m \<le> M) \<Longrightarrow>
    grant month cfg n rq now (es_authority e) = (rt, r) \<Longrightarrow>
    escrow_step month month_before W M e (e\<lparr>es_authority := rt, es_credits := es_credits e \<union> sent n r\<rparr>)"
| installed: "n \<in> W \<Longrightarrow> Pair n ` set cs \<subseteq> es_credits e \<Longrightarrow> install month cs now (es_worker e n) = (rt, r) \<Longrightarrow>
    escrow_step month month_before W M e (set_worker n rt e)"
| authority_reserves: "maximum \<le> M \<Longrightarrow>
    llm_reserve month month_before fresh cost maximum now (br_llm (es_authority e)) = Inr (db, r) \<Longrightarrow>
    escrow_step month month_before W M e (e\<lparr>es_authority := (es_authority e)\<lparr>br_llm := db\<rparr>\<rparr>)"
| authority_settles: "llm_settle i actual (br_llm (es_authority e)) = Inr db \<Longrightarrow>
    escrow_step month month_before W M e (e\<lparr>es_authority := (es_authority e)\<lparr>br_llm := db\<rparr>\<rparr>)"
| worker_reserves: "n \<in> W \<Longrightarrow> maximum \<le> M \<Longrightarrow>
    llm_reserve month month_before fresh cost maximum now (br_llm (es_worker e n)) = Inr (db, r) \<Longrightarrow>
    escrow_step month month_before W M e (set_worker n ((es_worker e n)\<lparr>br_llm := db\<rparr>) e)"
| worker_settles: "n \<in> W \<Longrightarrow> llm_settle i actual (br_llm (es_worker e n)) = Inr db \<Longrightarrow>
    escrow_step month month_before W M e (set_worker n ((es_worker e n)\<lparr>br_llm := db\<rparr>) e)"
| held: "escrow_step month month_before W M e (e\<lparr>es_authority := (es_authority e)\<lparr>br_hold := b\<rparr>\<rparr>)"

inductive escrow_reachable :: "(int \<Rightarrow> string) \<Rightarrow> (int \<Rightarrow> string) \<Rightarrow> string set \<Rightarrow> nat \<Rightarrow> escrow \<Rightarrow> bool"
  for month month_before W M where
  initial: "escrow_reachable month month_before W M escrow_new"
| step: "escrow_reachable month month_before W M e \<Longrightarrow> escrow_step month month_before W M e e' \<Longrightarrow>
    escrow_reachable month month_before W M e'"

text \<open>\<open>issued n m\<close> is the total ever granted to a node for a month.\<close>

definition authority_inv :: "string set \<Rightarrow> nat \<Rightarrow> (string \<Rightarrow> string \<Rightarrow> int) \<Rightarrow> budget_db \<Rightarrow> bool" where
  "authority_inv W M issued db \<longleftrightarrow> ledger_inv db \<and> \<not> bd_wallet_mode db
     \<and> (\<forall>w. reserved_cost db w + (\<Sum>n\<in>W. issued n w) \<le> accounted db w \<and> accounted db w \<le> int M)
     \<and> (\<forall>n \<in> W. \<forall>w a. bd_allocations db (n, ''llm'', w) = Some a \<longrightarrow> a \<le> issued n w)"

definition worker_inv :: "(string \<Rightarrow> int) \<Rightarrow> budget_db \<Rightarrow> bool" where
  "worker_inv iss db \<longleftrightarrow> ledger_inv db \<and> bd_wallet_mode db
     \<and> (\<forall>w. reserved_cost db w \<le> accounted db w \<and> accounted db w \<le> iss w)
     \<and> (\<forall>w a u. bd_wallet db (''llm'', w) = Some (a, u) \<longrightarrow> a \<le> iss w)"

definition escrow_inv :: "string set \<Rightarrow> nat \<Rightarrow> (string \<Rightarrow> string \<Rightarrow> int) \<Rightarrow> escrow \<Rightarrow> bool" where
  "escrow_inv W M issued e \<longleftrightarrow> (\<forall>n w. 0 \<le> issued n w)
     \<and> authority_inv W M issued (br_llm (es_authority e))
     \<and> (\<forall>(n, c) \<in> es_credits e. cr_resource c = ''llm'' \<longrightarrow> int (cr_amount c) \<le> issued n (cr_window c))
     \<and> (\<forall>n \<in> W. worker_inv (issued n) (br_llm (es_worker e n)))"

lemma worker_inv_mono: "worker_inv iss db \<Longrightarrow> (\<And>w. iss w \<le> iss' w) \<Longrightarrow> worker_inv iss' db"
  unfolding worker_inv_def by (meson order_trans)

lemma prune_ledger [simp]:
  "accounted (prune_db x db) = accounted db" "reserved_cost (prune_db x db) = reserved_cost db"
  "ledger_inv (prune_db x db) = ledger_inv db" "bd_wallet_mode (prune_db x db) = bd_wallet_mode db"
  by (auto simp: prune_db_def accounted_def reserved_cost_def ledger_inv_def fun_eq_iff)

lemma prune_authority: "authority_inv W M issued db \<Longrightarrow> authority_inv W M issued (prune_db x db)"
  by (auto simp: authority_inv_def) (auto simp: prune_db_def delete_where_def split: if_splits)

lemma prune_worker: "worker_inv iss db \<Longrightarrow> worker_inv iss (prune_db x db)"
  by (auto simp: worker_inv_def) (auto simp: prune_db_def delete_where_def split: if_splits)

lemma allocate_Inr:
  assumes "allocate node resource window rq (maximum, used, chunk) db = Inr (db', amount, increment)"
  shows "db' = db\<lparr>bd_allocations := (bd_allocations db)((node, resource, window) \<mapsto> int amount)\<rparr>
    \<and> increment \<le> maximum - used
    \<and> int amount = unwrap_or (bd_allocations db (node, resource, window)) 0 + int increment"
proof -
  from assms obtain previous where
    p: "(case bd_allocations db (node, resource, window) of None \<Rightarrow> Inr 0 | Some a \<Rightarrow> get_u64 a) = Inr previous"
    and i: "increment = (if previous = unwrap_or (map_of (rq_known rq) (known_key resource window)) 0
       \<and> resource \<in> set (rq_replenish rq) then min chunk (maximum - used) else 0)"
    and a: "amount = previous + increment"
    and db': "db' = db\<lparr>bd_allocations := (bd_allocations db)((node, resource, window) \<mapsto> int amount)\<rparr>"
    unfolding allocate_def Let_def prod.case and_then_Inr_iff by force
  have "int previous = unwrap_or (bd_allocations db (node, resource, window)) 0"
    using p by (cases "bd_allocations db (node, resource, window)") auto
  moreover have "increment \<le> maximum - used" unfolding i by simp
  ultimately show ?thesis using a db' by simp
qed

lemma grant_llm_inv:
  assumes inv: "authority_inv W M issued db" and nn: "\<And>n w. 0 \<le> issued n w" and W: "finite W" "n \<in> W" and le: "maximum \<le> M"
    and g: "grant_llm month maximum n rq now db = Inr (db', c)"
  obtains issued' where "authority_inv W M issued' db'" "\<And>n w. issued n w \<le> issued' n w"
    "int (cr_amount c) \<le> issued' n (cr_window c)"
proof -
  let ?m = "month (int now)"
  from g obtain used db1 amount increment where u: "month_used db ?m = Inr used"
    and a: "allocate n ''llm'' ?m rq (maximum, used, 100000) db = Inr (db1, amount, increment)"
    and db': "db' = add_month ?m (int increment) 0 db1"
    and c: "c = \<lparr>cr_resource = ''llm'', cr_window = ?m, cr_amount = amount, cr_unlimited = False\<rparr>"
    by (auto simp: grant_llm_def Let_def and_then_Inr_iff)
  note al = allocate_Inr [OF a]
  let ?iss = "\<lambda>k w. issued k w + (if k = n \<and> w = ?m then int increment else 0)"
  have am: "int amount \<le> ?iss n ?m"
    using al inv W(2) nn [of n ?m]
    by (cases "bd_allocations db (n, ''llm'', ?m)") (auto simp: authority_inv_def)
  have acc: "accounted db' w = accounted db w + (if w = ?m then int increment else 0)" for w
    using accounted_add_month [of ?m "int increment" 0 db1 w] al by (simp add: db' accounted_def)
  have rc: "reserved_cost db' w = reserved_cost db w" for w
    using al by (simp add: db' reserved_cost_def add_month_def)
  have sum: "(\<Sum>k\<in>W. ?iss k w) = (\<Sum>k\<in>W. issued k w) + (if w = ?m then int increment else 0)" for w
    using W by (simp add: sum.distrib)
  have old: "accounted db w \<le> int M" for w using inv by (simp add: authority_inv_def)
  have "int used + int increment \<le> int M" if "increment \<noteq> 0"
    using al le that by linarith
  then have top: "accounted db' w \<le> int M" for w
    using month_used_Inr [OF u] old [of w] by (cases "increment = 0") (auto simp: acc)
  have "authority_inv W M ?iss db'"
    unfolding authority_inv_def
  proof (intro conjI allI ballI impI)
    show "ledger_inv db'" using inv al by (simp add: authority_inv_def ledger_inv_def db' add_month_def)
    show "\<not> bd_wallet_mode db'" using inv al by (simp add: authority_inv_def db' add_month_def)
    show "reserved_cost db' w + (\<Sum>k\<in>W. ?iss k w) \<le> accounted db' w" for w
      using inv by (simp add: sum rc acc authority_inv_def)
    show "accounted db' w \<le> int M" for w by (rule top)
    show "x \<le> ?iss k w" if "k \<in> W" "bd_allocations db' (k, ''llm'', w) = Some x" for k w x
      using that al am inv by (auto simp: authority_inv_def db' add_month_def split: if_splits)
  qed
  then show thesis by (rule that) (use am c in auto)
qed


lemma wallet_insert_worker:
  assumes "worker_inv iss db" and "cr_resource c = ''llm'' \<Longrightarrow> int (cr_amount c) \<le> iss (cr_window c)"
  shows "worker_inv iss (wallet_insert c db)"
proof -
  have "accounted (wallet_insert c db) = accounted db" "reserved_cost (wallet_insert c db) = reserved_cost db"
    "ledger_inv (wallet_insert c db) = ledger_inv db" "bd_wallet_mode (wallet_insert c db) = bd_wallet_mode db"
    by (auto simp: wallet_insert_def accounted_def reserved_cost_def ledger_inv_def fun_eq_iff)
  moreover have "a \<le> iss w" if "bd_wallet (wallet_insert c db) (''llm'', w) = Some (a, u)" for w a u
    using that assms by (auto simp: wallet_insert_def worker_inv_def split: if_splits option.splits)
  ultimately show ?thesis using assms(1) by (simp add: worker_inv_def)
qed

lemma install_credits_worker:
  assumes "worker_inv iss (br_llm rt)" and "install_credits month now cs unl rt = (rt', r)"
    and "\<And>c. c \<in> set cs \<Longrightarrow> cr_resource c = ''llm'' \<Longrightarrow> int (cr_amount c) \<le> iss (cr_window c)"
  shows "worker_inv iss (br_llm rt')"
  using assms
proof (induction month now cs unl rt rule: install_credits.induct)
  case (2 month now c cs unl rt)
  let ?rt = "if cr_resource c = ''llm'' then rt\<lparr>br_llm := wallet_insert c (br_llm rt)\<rparr>
              else rt\<lparr>br_reputation := wallet_insert c (br_reputation rt)\<rparr>"
  have "worker_inv iss (br_llm ?rt)"
    using 2(3,5) wallet_insert_worker [of iss "br_llm rt" c] by simp
  with 2 show ?case by (auto split: if_splits)
qed simp

lemma install_worker:
  assumes "worker_inv iss (br_llm rt)" and "install month cs now rt = (rt', r)"
    and "\<And>c. c \<in> set cs \<Longrightarrow> cr_resource c = ''llm'' \<Longrightarrow> int (cr_amount c) \<le> iss (cr_window c)"
  shows "worker_inv iss (br_llm rt')"
proof (cases "length cs > 5")
  case True
  with assms show ?thesis by (simp add: install_def)
next
  case False
  obtain rt1 x where x: "install_credits month now cs [] rt = (rt1, x)" by force
  have "worker_inv iss (br_llm rt1)" by (rule install_credits_worker [OF assms(1) x assms(3)])
  with assms(2) False x show ?thesis
    by (auto simp: install_def budget_prune_def intro: prune_worker split: sum.splits if_splits)
qed

lemma provider_resource: "provider_name p @ ''-'' @ kind \<noteq> ''llm''"
  by (cases p) simp_all

lemma grant_window_resource:
  "grant_window n p kind number limit used chunk rq db = Inr (db', u, c) \<Longrightarrow> cr_resource c \<noteq> ''llm''"
  using provider_resource [of p kind] by (auto simp: grant_window_def Let_def and_then_Inr_iff)

lemma grant_provider_resource:
  "grant_provider p q n rq now db = Inr (db', cs) \<Longrightarrow> c \<in> set cs \<Longrightarrow> cr_resource c \<noteq> ''llm''"
  by (auto simp: grant_provider_def Let_def and_then_Inr_iff dest!: grant_window_resource)

lemma grant_providers_resource:
  "grant_providers ps n rq now db = (db', Inr cs) \<Longrightarrow> c \<in> set cs \<Longrightarrow> cr_resource c \<noteq> ''llm''"
proof (induction ps arbitrary: db db' cs)
  case (Cons x ps)
  obtain p q where x: "x = (p, q)" by force
  from Cons.prems(1) obtain db1 cs1 cs2 where "grant_provider p q n rq now db = Inr (db1, cs1)"
    and "grant_providers ps n rq now db1 = (db', Inr cs2)" and "cs = cs1 @ cs2"
    by (auto simp: x and_then_Inr_iff split: sum.splits prod.splits)
  with Cons.IH Cons.prems(2) show ?case by (auto dest: grant_provider_resource)
qed simp

lemma grant_cases:
  assumes "grant month cfg n rq now rt = (rt', r)"
  obtains (quiet) x where "br_llm rt' = br_llm rt \<or> br_llm rt' = prune_db x (br_llm rt)"
    "\<And>cs c. r = Inr cs \<Longrightarrow> c \<in> set cs \<Longrightarrow> cr_resource c \<noteq> ''llm''"
  | (paid) maximum c0 db x where "bc_llm cfg = Some maximum"
    "grant_llm month maximum n rq now (br_llm rt) = Inr (db, c0)"
    "br_llm rt' = db \<or> br_llm rt' = prune_db x db"
    "\<And>cs c. r = Inr cs \<Longrightarrow> c \<in> set cs \<Longrightarrow> cr_resource c = ''llm'' \<Longrightarrow> c = c0"
proof -
  let ?x = "expired_llm (month (int now - 62 * 86400))"
  obtain rep s where gp: "grant_providers (bc_providers cfg) n rq now (br_reputation rt) = (rep, s)" by force
  note pr = grant_providers_resource [of "bc_providers cfg" n rq now "br_reputation rt" rep]
  consider (early) "rt' = rt" "(\<exists>e. r = Inl e) \<or> r = Inr []"
    | (late) llm cs where "(case bc_llm cfg of None \<Rightarrow> Inr (br_llm rt, [])
        | Some maximum \<Rightarrow> and_then (grant_llm month maximum n rq now (br_llm rt)) (\<lambda>(db, c). Inr (db, [c]))) = Inr (llm, cs)"
      "br_llm rt' = llm \<or> br_llm rt' = prune_db ?x llm" "\<And>ds. r = Inr ds \<Longrightarrow> \<exists>cs'. s = Inr cs' \<and> ds = cs @ cs'"
    using assms gp unfolding grant_def
    by (auto simp: budget_prune_def split: if_splits sum.splits)
  then show thesis
  proof cases
    case early
    then show thesis by (intro quiet) auto
  next
    case late
    show thesis
    proof (cases "bc_llm cfg")
      case None
      with late(1) have "llm = br_llm rt" "cs = []" by auto
      with late(2,3) pr gp show thesis by (intro quiet [of ?x]) auto
    next
      case (Some maximum)
      with late(1) obtain c0 where g: "grant_llm month maximum n rq now (br_llm rt) = Inr (llm, c0)" "cs = [c0]"
        by (auto simp: and_then_Inr_iff)
      show thesis
        by (rule paid [OF Some g(1) late(2)]) (use late(3) g(2) pr gp in auto)
    qed
  qed
qed

lemma escrow_credits: "escrow_inv W M issued e \<Longrightarrow> (n, c) \<in> es_credits e \<Longrightarrow> cr_resource c = ''llm'' \<Longrightarrow>
    int (cr_amount c) \<le> issued n (cr_window c)"
  by (auto simp: escrow_inv_def)

lemma escrow_grow:
  assumes "escrow_inv W M issued e" and "\<And>n w. issued n w \<le> issued' n w"
    and "authority_inv W M issued' (br_llm rt)"
    and "\<And>n c. (n, c) \<in> cs \<Longrightarrow> cr_resource c = ''llm'' \<Longrightarrow> int (cr_amount c) \<le> issued' n (cr_window c)"
  shows "escrow_inv W M issued' (e\<lparr>es_authority := rt, es_credits := es_credits e \<union> cs\<rparr>)"
proof -
  have "int (cr_amount c) \<le> issued' n (cr_window c)" if "(n, c) \<in> es_credits e" "cr_resource c = ''llm''" for n c
    using escrow_credits [OF assms(1) that] assms(2) [of n "cr_window c"] by linarith
  moreover have "worker_inv (issued' n) (br_llm (es_worker e n))" if "n \<in> W" for n
    using assms(1,2) that worker_inv_mono [of "issued n" _ "issued' n"] by (simp add: escrow_inv_def)
  moreover have "0 \<le> issued' n w" for n w
    using assms(1) assms(2) [of n w] order_trans [of 0 "issued n w"] by (auto simp: escrow_inv_def)
  ultimately show ?thesis using assms(3,4) by (auto simp: escrow_inv_def)
qed

lemma granted_inv:
  assumes inv: "escrow_inv W M issued e" and W: "finite W" "n \<in> W"
    and M: "\<And>m. bc_llm cfg = Some m \<Longrightarrow> m \<le> M"
    and g: "grant month cfg n rq now (es_authority e) = (rt, r)"
  shows "\<exists>issued'. escrow_inv W M issued' (e\<lparr>es_authority := rt, es_credits := es_credits e \<union> sent n r\<rparr>)"
  using g
proof (cases rule: grant_cases)
  case (quiet x)
  have "authority_inv W M issued (br_llm rt)"
    using quiet(1) inv by (auto simp: escrow_inv_def intro: prune_authority)
  then have "escrow_inv W M issued (e\<lparr>es_authority := rt, es_credits := es_credits e \<union> sent n r\<rparr>)"
    by (intro escrow_grow [OF inv]) (use quiet(2) in \<open>auto simp: sent_def split: sum.splits\<close>)
  then show ?thesis by blast
next
  case (paid maximum c0 db x)
  have a: "authority_inv W M issued (br_llm (es_authority e))" and nn: "\<And>n w. 0 \<le> issued n w"
    using inv by (auto simp: escrow_inv_def)
  obtain issued' where i: "authority_inv W M issued' db" "\<And>n w. issued n w \<le> issued' n w"
    "int (cr_amount c0) \<le> issued' n (cr_window c0)"
    by (rule grant_llm_inv [OF a nn W M [OF paid(1)] paid(2)]) blast
  have "authority_inv W M issued' (br_llm rt)"
    using paid(3) i(1) by (auto intro: prune_authority)
  then have "escrow_inv W M issued' (e\<lparr>es_authority := rt, es_credits := es_credits e \<union> sent n r\<rparr>)"
    by (intro escrow_grow [OF inv i(2)]) (use paid(4) i(3) in \<open>auto simp: sent_def split: sum.splits\<close>)
  then show ?thesis by blast
qed

lemma set_worker_inv:
  "escrow_inv W M issued e \<Longrightarrow> worker_inv (issued n) (br_llm rt) \<Longrightarrow> escrow_inv W M issued (set_worker n rt e)"
  by (auto simp: escrow_inv_def set_worker_def)

lemma set_authority_inv:
  "escrow_inv W M issued e \<Longrightarrow> authority_inv W M issued (br_llm rt) \<Longrightarrow> escrow_inv W M issued (e\<lparr>es_authority := rt\<rparr>)"
  by (auto simp: escrow_inv_def)

lemma authority_accounts:
  assumes "authority_inv W M issued db"
  shows "reserved_cost db w + (\<Sum>n\<in>W. issued n w) \<le> accounted db w" and "accounted db w \<le> int M"
  using assms by (auto simp: authority_inv_def)

lemma worker_accounts:
  assumes "worker_inv iss db"
  shows "reserved_cost db w \<le> accounted db w" and "accounted db w \<le> iss w"
  using assms by (auto simp: worker_inv_def)

lemma reserve_authority:
  assumes inv: "authority_inv W M issued db" and M: "maximum \<le> M" "M < u64_max"
    and r: "llm_reserve month month_before fresh cost maximum now db = Inr (db', x)"
  shows "authority_inv W M issued db'"
proof -
  have l: "ledger_inv db" and mx: "maximum < u64_max" using inv M by (auto simp: authority_inv_def)
  show ?thesis
  proof (cases rule: llm_reserve_cases [OF r l mx])
    case 1
    then show ?thesis using inv by simp
  next
    case (2 limit)
    have "reserved_cost db' w + (\<Sum>n\<in>W. issued n w) \<le> accounted db' w \<and> accounted db' w \<le> int M" for w
      using authority_accounts [OF inv, of w] 2(3) [of w] 2(6) [of w] 2(4,5) M(1)
      by (cases "w = month (int now)") auto
    then show ?thesis using inv 2 by (simp add: authority_inv_def)
  qed
qed


lemma settle_authority:
  assumes inv: "authority_inv W M issued db" and nn: "\<And>n w. 0 \<le> issued n w"
    and r: "llm_settle i actual db = Inr db'"
  shows "authority_inv W M issued db'"
proof -
  have "ledger_inv db" using inv by (simp add: authority_inv_def)
  note s = llm_settle_cases [OF r this authority_accounts(1) [OF inv]]
  have "0 \<le> (\<Sum>n\<in>W. issued n w)" for w using nn by (rule sum_nonneg)
  note s = s [OF this]
  have "accounted db' w \<le> int M" for w
    using s(3) [of w] authority_accounts(2) [OF inv, of w] by linarith
  then show ?thesis using inv s by (simp add: authority_inv_def)
qed

lemma worker_ceiling:
  assumes "worker_inv iss db" and "\<And>w. 0 \<le> iss w" and "maximum < u64_max"
    and "ceiling_at db ''llm'' w maximum now = Inr limit"
  shows "int limit \<le> iss w"
proof (cases "bd_wallet db (''llm'', w)")
  case None
  with assms show ?thesis by (auto simp: worker_inv_def ceiling_at_def)
next
  case (Some x)
  obtain a u where x: "x = (a, u)" by force
  have "a \<le> iss w" using assms(1) Some x by (auto simp: worker_inv_def)
  moreover have "limit = 0 \<or> limit \<le> nat a \<and> 0 \<le> a"
    using assms(1,3,4) Some x by (auto simp: worker_inv_def ceiling_at_def and_then_Inr_iff split: if_splits)
  ultimately show ?thesis using assms(2) [of w] by auto
qed

lemma reserve_worker:
  assumes inv: "worker_inv iss db" and nn: "\<And>w. 0 \<le> iss w" and M: "maximum < u64_max"
    and r: "llm_reserve month month_before fresh cost maximum now db = Inr (db', x)"
  shows "worker_inv iss db'"
proof -
  have l: "ledger_inv db" using inv by (simp add: worker_inv_def)
  show ?thesis
  proof (cases rule: llm_reserve_cases [OF r l M])
    case 1
    then show ?thesis using inv by simp
  next
    case (2 limit)
    have "reserved_cost db' w \<le> accounted db' w \<and> accounted db' w \<le> iss w" for w
      using worker_accounts [OF inv, of w] 2(3) [of w] 2(6) [of w] 2(4) worker_ceiling [OF inv nn M 2(1)]
      by (cases "w = month (int now)") auto
    then show ?thesis using inv 2 by (simp add: worker_inv_def)
  qed
qed

lemma settle_worker:
  assumes inv: "worker_inv iss db" and r: "llm_settle i actual db = Inr db'"
  shows "worker_inv iss db'"
proof -
  have l: "ledger_inv db" using inv by (simp add: worker_inv_def)
  have cov: "reserved_cost db w + (\<lambda>_. 0) w \<le> accounted db w" for w using worker_accounts [OF inv, of w] by simp
  note s = llm_settle_cases [OF r l cov]
  have "reserved_cost db' w \<le> accounted db' w \<and> accounted db' w \<le> iss w" for w
    using s(2,3) [of w] worker_accounts [OF inv, of w] by simp
  then show ?thesis using inv s by (simp add: worker_inv_def)
qed

lemma escrow_step_inv:
  assumes "escrow_step month month_before W M e e'" and inv: "escrow_inv W M issued e"
    and W: "finite W" and M: "M < u64_max"
  shows "\<exists>issued'. escrow_inv W M issued' e'"
proof -
  have a: "authority_inv W M issued (br_llm (es_authority e))" and nn: "\<And>n w. 0 \<le> issued n w"
    and w: "\<And>n. n \<in> W \<Longrightarrow> worker_inv (issued n) (br_llm (es_worker e n))"
    using inv by (auto simp: escrow_inv_def)
  show ?thesis
    using assms(1)
  proof cases
    case (granted n cfg rq now rt r)
    show ?thesis unfolding granted(1) by (rule granted_inv [OF inv W granted(2-4)])
  next
    case (installed n cs now rt r)
    have "worker_inv (issued n) (br_llm rt)"
      using install_worker [OF w [OF installed(2)] installed(4)] escrow_credits [OF inv] installed(3) by blast
    then show ?thesis unfolding installed(1) using set_worker_inv [OF inv] by blast
  next
    case (authority_reserves maximum fresh cost now db r)
    then show ?thesis
      using set_authority_inv [OF inv, of "(es_authority e)\<lparr>br_llm := db\<rparr>"] reserve_authority [OF a _ M] by auto
  next
    case (authority_settles i actual db)
    then show ?thesis
      using set_authority_inv [OF inv, of "(es_authority e)\<lparr>br_llm := db\<rparr>"] settle_authority [OF a nn] by auto
  next
    case (worker_reserves n maximum fresh cost now db r)
    with M have "worker_inv (issued n) db" using reserve_worker [OF w nn] by (meson le_less_trans)
    then show ?thesis
      unfolding worker_reserves(1)
      using set_worker_inv [OF inv, of n "(es_worker e n)\<lparr>br_llm := db\<rparr>"] by auto
  next
    case (worker_settles n i actual db)
    then show ?thesis
      using set_worker_inv [OF inv, of n "(es_worker e n)\<lparr>br_llm := db\<rparr>"] settle_worker [OF w] by auto
  next
    case (held b)
    then show ?thesis using set_authority_inv [OF inv, of "(es_authority e)\<lparr>br_hold := b\<rparr>"] a by auto
  qed
qed

lemma escrow_new_inv: "escrow_inv W M (\<lambda>_ _. 0) escrow_new"
  by (simp add: escrow_inv_def escrow_new_def Let_def authority_inv_def worker_inv_def enable_worker_def empty_db_def
      ledger_inv_def reserved_cost_def accounted_def)

lemma escrow_reachable_inv:
  assumes "escrow_reachable month month_before W M e" and "finite W" and "M < u64_max"
  shows "\<exists>issued. escrow_inv W M issued e"
  using assms
proof induction
  case initial
  show ?case using escrow_new_inv by blast
next
  case (step e e')
  then show ?case using escrow_step_inv by blast
qed

section \<open>Properties\<close>

text \<open>
  C24: the cluster never spends more than its budget. Whatever replies are lost, repeated,
  delayed or installed in another order, however the clocks of the nodes differ, and although
  every worker reserves without asking the authority, the amounts accounted by all workers for a
  month together with the authority's own reservations never exceed the largest budget in
  force; and on every node the amount accounted covers the reservations it stands for.
\<close>

theorem budget_never_overspent:
  assumes "escrow_reachable month month_before W M e" and "finite W" and "M < u64_max"
  shows "(\<Sum>n\<in>W. accounted (br_llm (es_worker e n)) m) + reserved_cost (br_llm (es_authority e)) m \<le> int M
    \<and> (\<forall>n \<in> W. 0 \<le> reserved_cost (br_llm (es_worker e n)) m
         \<and> reserved_cost (br_llm (es_worker e n)) m \<le> accounted (br_llm (es_worker e n)) m)"
proof -
  obtain issued where inv: "escrow_inv W M issued e" using escrow_reachable_inv [OF assms] by blast
  then have a: "authority_inv W M issued (br_llm (es_authority e))"
    and w: "\<And>n. n \<in> W \<Longrightarrow> worker_inv (issued n) (br_llm (es_worker e n))"
    by (auto simp: escrow_inv_def)
  have "(\<Sum>n\<in>W. accounted (br_llm (es_worker e n)) m) \<le> (\<Sum>n\<in>W. issued n m)"
    by (rule sum_mono) (rule worker_accounts(2) [OF w])
  moreover have "0 \<le> reserved_cost (br_llm (es_worker e n)) m" if "n \<in> W" for n
    using w [OF that] by (simp add: worker_inv_def reserved_cost_nonneg)
  ultimately show ?thesis
    using authority_accounts [OF a, of m] worker_accounts(1) [OF w] by (auto intro: order_trans)
qed


definition sample_month :: "int \<Rightarrow> string" where "sample_month _ = ''2026-01''"

definition sample_llm_request :: budget_request where
  "sample_llm_request = \<lparr>rq_known = [(''llm:2026-01'', 0)], rq_replenish = [''llm'']\<rparr>"

definition sample_credit :: credit where
  "sample_credit = \<lparr>cr_resource = ''llm'', cr_window = ''2026-01'', cr_amount = 100000, cr_unlimited = False\<rparr>"

definition sample_budget :: budget_config where
  "sample_budget = \<lparr>bc_llm = Some 200000, bc_providers = []\<rparr>"

definition granted_root :: budget_root where
  "granted_root = fst (grant sample_month sample_budget ''w'' sample_llm_request 10 (es_authority escrow_new))"

definition installed_root :: budget_root where
  "installed_root = fst (install sample_month [sample_credit] 11 (es_worker escrow_new ''w''))"

lemmas escrow_sample_defs = ensure_def grant_def grant_llm_def sample_month_def sample_budget_def sample_llm_request_def
  escrow_new_def empty_db_def month_used_def allocate_def known_key_def u64_max_def bind_u64_def i64_max_def
  budget_prune_def prune_db_def delete_where_def expired_llm_def install_def sample_credit_def known_resources_def
  current_window_def wallet_insert_def enable_worker_def get_u64_def add_month_def

lemma sample_granted:
  "grant sample_month sample_budget ''w'' sample_llm_request 10 (es_authority escrow_new)
     = (granted_root, Inr [sample_credit])"
  unfolding granted_root_def by (simp add: escrow_sample_defs Let_def)

lemma sample_installed:
  "install sample_month [sample_credit] 11 (es_worker escrow_new ''w'') = (installed_root, Inr ())"
  unfolding installed_root_def by (simp add: escrow_sample_defs Let_def)

lemma sample_reserved:
  "\<exists>db. llm_reserve sample_month sample_month ''r1'' 5000 200000 12 (br_llm installed_root) = Inr (db, Some ''r1'')
     \<and> accounted db ''2026-01'' = 5000"
  unfolding installed_root_def
  by (simp add: escrow_sample_defs Let_def llm_reserve_def ceiling_at_def u64_saturating_add_def accounted_def)

theorem budget_never_overspent_witness:
  "\<exists>e. escrow_reachable sample_month sample_month {''w''} 200000 e
     \<and> accounted (br_llm (es_worker e ''w'')) ''2026-01'' = 5000
     \<and> (\<Sum>n\<in>{''w''}. accounted (br_llm (es_worker e n)) ''2026-01'')
         + reserved_cost (br_llm (es_authority e)) ''2026-01'' \<le> 200000"
proof -
  let ?reach = "escrow_reachable sample_month sample_month {''w''} 200000"
  let ?e1 = "escrow_new\<lparr>es_authority := granted_root, es_credits := es_credits escrow_new \<union> sent ''w'' (Inr [sample_credit])\<rparr>"
  let ?e2 = "set_worker ''w'' installed_root ?e1"
  obtain db where db: "llm_reserve sample_month sample_month ''r1'' 5000 200000 12 (br_llm installed_root) = Inr (db, Some ''r1'')"
    "accounted db ''2026-01'' = 5000" using sample_reserved by blast
  let ?e3 = "set_worker ''w'' ((es_worker ?e2 ''w'')\<lparr>br_llm := db\<rparr>) ?e2"
  have "?reach ?e1"
    by (rule escrow_reachable.step [OF escrow_reachable.initial granted [OF _ _ sample_granted]])
       (simp_all add: sample_budget_def)
  moreover have "Pair ''w'' ` set [sample_credit] \<subseteq> es_credits ?e1" by (simp add: sent_def)
  moreover have "es_worker ?e1 ''w'' = es_worker escrow_new ''w''" by simp
  ultimately have "?reach ?e2"
    using escrow_reachable.step installed sample_installed by (metis singletonI)
  moreover have "llm_reserve sample_month sample_month ''r1'' 5000 200000 12 (br_llm (es_worker ?e2 ''w'')) = Inr (db, Some ''r1'')"
    using db(1) by (simp add: set_worker_def)
  ultimately have r: "?reach ?e3"
    using escrow_reachable.step worker_reserves by (metis order_refl singletonI)
  have "accounted (br_llm (es_worker ?e3 ''w'')) ''2026-01'' = 5000" using db(2) by (simp add: set_worker_def)
  then show ?thesis
    using budget_never_overspent [OF r, of "''2026-01''"] r by (auto simp: u64_max_def)
qed


lemma div_ceil_mono: "a \<le> b \<Longrightarrow> div_ceil a 1000000 \<le> div_ceil b 1000000"
  unfolding div_ceil_def
proof (cases "a div 1000000 = b div 1000000")
  case True
  assume "a \<le> b"
  then have "a mod 1000000 \<le> b mod 1000000"
    using True mult_div_mod_eq [of 1000000 a] mult_div_mod_eq [of 1000000 b] by linarith
  with True show "a div 1000000 + (if a mod 1000000 = 0 then 0 else 1) \<le> b div 1000000 + (if b mod 1000000 = 0 then 0 else 1)"
    by auto
next
  case False
  assume "a \<le> b"
  then have "a div 1000000 \<le> b div 1000000" by (rule div_le_mono)
  with False show "a div 1000000 + (if a mod 1000000 = 0 then 0 else 1) \<le> b div 1000000 + (if b mod 1000000 = 0 then 0 else 1)"
    by auto
qed

lemma div_ceil_le: "div_ceil a 1000000 \<le> a div 1000000 + 1"
  by (simp add: div_ceil_def)

lemma validated_prices:
  assumes "llm_config_validate uuid now cfg = Inr ()"
  shows "lc_input_micro_eur_per_million cfg \<le> 1000000000" "1 \<le> lc_input_micro_eur_per_million cfg"
    "lc_output_micro_eur_per_million cfg \<le> 1000000000" "lc_max_output_tokens cfg \<le> 512"
    "lc_monthly_budget_micro_eur cfg \<le> 10000000000"
  using assms by (auto simp: llm_config_validate_def and_then_Inr_iff)

lemma product_small:
  assumes "i \<le> n" and "p \<le> 1000000000" and "n < 2 ^ 34"
  shows "i * p < 2 ^ 64" and "i * p \<le> n * p" and "div_ceil (i * p) 1000000 \<le> 2 ^ 44"
proof -
  have "i * p \<le> n * 1000000000" using assms by (intro mult_le_mono) auto
  then have b: "i * p \<le> 17179869183000000000" using assms(3) by simp
  then show "i * p < 2 ^ 64" by simp
  show "i * p \<le> n * p" using assms(1) by simp
  have "i * p div 1000000 \<le> 17179869183000000000 div 1000000" using b by (rule div_le_mono)
  then show "div_ceil (i * p) 1000000 \<le> 2 ^ 44" using div_ceil_le [of "i * p"] by simp
qed

lemma estimated_cost_exact:
  assumes "llm_config_validate uuid now cfg = Inr ()" and "input < 2 ^ 34" and "output < 2 ^ 34"
  shows "estimated_cost cfg input output =
    div_ceil (input * lc_input_micro_eur_per_million cfg) 1000000
      + div_ceil (output * lc_output_micro_eur_per_million cfg) 1000000"
  using product_small [OF order_refl validated_prices(1) [OF assms(1)] assms(2)]
    product_small [OF order_refl validated_prices(3) [OF assms(1)] assms(3)]
  by (simp add: estimated_cost_def wrap64_def)

lemma estimated_cost_covers:
  assumes "llm_config_validate uuid now cfg = Inr ()" and "input \<le> bound" and "bound < 2 ^ 34"
    and "output \<le> lc_max_output_tokens cfg"
  shows "estimated_cost cfg input output \<le> estimated_cost cfg bound (lc_max_output_tokens cfg)"
proof -
  have "lc_max_output_tokens cfg < 2 ^ 34" using validated_prices(4) [OF assms(1)] by simp
  with assms show ?thesis
    by (simp add: estimated_cost_exact [OF assms(1)] add_mono div_ceil_mono)
qed


lemma llm_reserve_row:
  assumes "llm_reserve month month_before i cost maximum now db = Inr (db', Some i)"
    and "\<not> month (int now) < month_before (int now)"
  shows "map_of (bd_reservations db') i = Some \<lparr>rv_month = month (int now), rv_cost = int cost, rv_settled = False\<rparr>"
    and "bd_months db' (month (int now)) \<noteq> None" and "accounted db' (month (int now)) = accounted db (month (int now)) + int cost"
proof -
  let ?m = "month (int now)"
  let ?keep = "\<lambda>(_, r). \<not> rv_month r < month_before (int now)"
  let ?rows = "filter ?keep (bd_reservations db @ [(i, \<lparr>rv_month = ?m, rv_cost = int cost, rv_settled = False\<rparr>)])"
  from assms(1) obtain used limit where "(if cost = 0 \<or> u64_saturating_add used cost > limit then Inr (db, None)
      else and_then (bind_u64 cost) (\<lambda>c.
        and_then (ensure (i \<notin> fst ` set (bd_reservations db)) ''UNIQUE constraint failed'') (\<lambda>_.
        let db1 = add_month ?m c 1 db
        in Inr (db1\<lparr>bd_reservations := filter ?keep
               (bd_reservations db1 @ [(i, \<lparr>rv_month = ?m, rv_cost = c, rv_settled = False\<rparr>)])\<rparr>,
           Some i)))) = Inr (db', Some i)"
    by (auto simp: llm_reserve_def Let_def and_then_Inr_iff)
  then have fresh: "i \<notin> fst ` set (bd_reservations db)"
    and db': "db' = (add_month ?m (int cost) 1 db)\<lparr>bd_reservations := ?rows\<rparr>"
    by (auto simp: and_then_Inr_iff Let_def add_month_def split: if_split_asm)
  have "map_of (filter ?keep (bd_reservations db)) i = None"
    using fresh by (auto simp: map_of_eq_None_iff)
  then show "map_of (bd_reservations db') i = Some \<lparr>rv_month = ?m, rv_cost = int cost, rv_settled = False\<rparr>"
    using assms(2) by (simp add: db' map_add_def)
  show "bd_months db' ?m \<noteq> None" by (simp add: db' add_month_def)
  show "accounted db' ?m = accounted db ?m + int cost"
    using accounted_add_month [of ?m "int cost" 1 db ?m] by (simp add: db' accounted_def)
qed

text \<open>
  a review that completes is charged exactly its usage. With a validated configuration the
  price reserved before the request, for the largest number of tokens, covers the price of any
  usage the reply may report, so settling it never fails, and the month is then charged the
  actual price.
\<close>

theorem review_charged_exactly:
  assumes "llm_config_validate uuid time cfg = Inr ()" and "bound < 2 ^ 34"
    and "input \<le> bound" and "output \<le> lc_max_output_tokens cfg"
    and "\<not> month (int now) < month_before (int now)"
    and "llm_reserve month month_before i (estimated_cost cfg bound (lc_max_output_tokens cfg))
           (lc_monthly_budget_micro_eur cfg) now db = Inr (db1, Some i)"
  shows "\<exists>db2. llm_settle i (estimated_cost cfg input output) db1 = Inr db2
    \<and> accounted db2 (month (int now)) = accounted db (month (int now)) + int (estimated_cost cfg input output)"
proof -
  note row = llm_reserve_row [OF assms(6,5)]
  have le: "estimated_cost cfg input output \<le> estimated_cost cfg bound (lc_max_output_tokens cfg)"
    by (rule estimated_cost_covers [OF assms(1,3,2,4)])
  from row(2) obtain a n where a: "bd_months db1 (month (int now)) = Some (a, n)" by auto
  show ?thesis
    using row le a by (simp add: llm_settle_def get_u64_def ensure_def accounted_def)
qed

definition sample_llm_config :: llm_config where
  "sample_llm_config = \<lparr>lc_project_id = ''p'', lc_model = ''m'', lc_api_key_env = ''K'',
     lc_monthly_budget_micro_eur = 200000, lc_input_micro_eur_per_million = 150000,
     lc_output_micro_eur_per_million = 350000, lc_pricing_checked_at = 5, lc_timeout_ms = 2500,
     lc_max_text_bytes = 12000, lc_max_output_tokens = 256, lc_score_low = Fin 20, lc_score_high = Fin 98,
     lc_review_unconfirmed_high = False, lc_max_parallel = 2\<rparr>"

lemma sample_llm_valid: "llm_config_validate (\<lambda>u. Some u) 10 sample_llm_config = Inr ()"
  by (simp add: llm_config_validate_def sample_llm_config_def ensure_def is_ascii_alphanumeric_def byte_def
      less_eq_char_def)

lemma sample_single_reserve:
  "\<exists>db. llm_reserve sample_month sample_month ''r1'' (estimated_cost sample_llm_config 10000 (lc_max_output_tokens sample_llm_config))
     (lc_monthly_budget_micro_eur sample_llm_config) 12 empty_db = Inr (db, Some ''r1'')"
  by (simp add: escrow_sample_defs Let_def llm_reserve_def ceiling_at_def u64_saturating_add_def
      sample_llm_config_def estimated_cost_def wrap64_def div_ceil_def)

theorem review_charged_exactly_witness:
  "\<exists>db1 db2. llm_settle ''r1'' (estimated_cost sample_llm_config 2000 60) db1 = Inr db2
     \<and> accounted db2 ''2026-01'' = 321"
proof -
  obtain db where db: "llm_reserve sample_month sample_month ''r1''
     (estimated_cost sample_llm_config 10000 (lc_max_output_tokens sample_llm_config))
     (lc_monthly_budget_micro_eur sample_llm_config) 12 empty_db = Inr (db, Some ''r1'')"
    using sample_single_reserve by blast
  have "accounted empty_db ''2026-01'' = 0" and "estimated_cost sample_llm_config 2000 60 = 321"
    by (simp_all add: accounted_def empty_db_def estimated_cost_def sample_llm_config_def wrap64_def div_ceil_def)
  then show ?thesis
    using review_charged_exactly [OF sample_llm_valid _ _ _ _ db, of 2000 60]
    by (auto simp: sample_month_def sample_llm_config_def)
qed

text \<open>A node's requests to one provider, one after the other.\<close>

fun provider_run ::
    "provider \<Rightarrow> quota \<Rightarrow> budget_db \<Rightarrow> (nat \<times> string \<times> string) list \<Rightarrow> (nat \<times> provider_reservation) list" where
  "provider_run p q db [] = []"
| "provider_run p q db ((now, cache_key, credential) # rs) =
     (case provider_reserve p cache_key credential q now db of
        Inl _ \<Rightarrow> provider_run p q db rs
      | Inr (db', r) \<Rightarrow> (now, r) # provider_run p q db' rs)"

definition fetches :: "nat \<Rightarrow> nat \<Rightarrow> (nat \<times> provider_reservation) list \<Rightarrow> nat" where
  "fetches seconds w rs = length (filter (\<lambda>(t, r). r = Fetch \<and> t div seconds = w) rs)"

lemma fetches_simps [simp]:
  "fetches s w [] = 0" "fetches s w ((t, r) # rs) = (if r = Fetch \<and> t div s = w then 1 else 0) + fetches s w rs"
  by (simp_all add: fetches_def)

lemma provider_run_times: "(t, r) \<in> set (provider_run p q db rs) \<Longrightarrow> t \<in> fst ` set rs"
  by (induction p q db rs rule: provider_run.induct) (auto split: sum.splits)

lemma fetches_past:
  assumes "\<And>x. x \<in> set rs \<Longrightarrow> w < fst x div s"
  shows "fetches s w (provider_run p q db rs) = 0"
proof -
  have "\<not> (r = Fetch \<and> t div s = w)" if "(t, r) \<in> set (provider_run p q db rs)" for t r
    using provider_run_times [OF that] assms by fastforce
  then show ?thesis by (auto simp: fetches_def filter_empty_conv)
qed


text \<open>The count a node has for a window, and that the row is not dated in the future.\<close>

definition day_used :: "provider \<Rightarrow> budget_db \<Rightarrow> nat \<Rightarrow> int" where
  "day_used p db d = (case bd_quota db (provider_name p) of
     None \<Rightarrow> 0 | Some (d', du, _, _) \<Rightarrow> if d' = int d then du else 0)"

definition minute_used :: "provider \<Rightarrow> budget_db \<Rightarrow> nat \<Rightarrow> int" where
  "minute_used p db m = (case bd_quota db (provider_name p) of
     None \<Rightarrow> 0 | Some (_, _, m', mu) \<Rightarrow> if m' = int m then mu else 0)"

definition not_future :: "provider \<Rightarrow> budget_db \<Rightarrow> nat \<Rightarrow> bool" where
  "not_future p db now \<longleftrightarrow> (case bd_quota db (provider_name p) of
     None \<Rightarrow> True | Some (d, _, m, _) \<Rightarrow> d \<le> int (now div 86400) \<and> m \<le> int (now div 60))"

lemma provider_reserve_cases:
  assumes "provider_reserve p key credential q now db = Inr (db', r)"
  obtains "r \<noteq> Fetch" "db' = db"
  | "r = Fetch" "qu_day q \<noteq> 0 \<Longrightarrow> day_used p db (now div 86400) < int (qu_day q)"
    "qu_minute q \<noteq> 0 \<Longrightarrow> minute_used p db (now div 60) < int (qu_minute q)"
    "bd_quota db' = (bd_quota db)(provider_name p \<mapsto>
       (int (now div 86400), i64_saturating_add (day_used p db (now div 86400)) 1,
        int (now div 60), i64_saturating_add (minute_used p db (now div 60)) 1))"
proof -
  let ?used = "case bd_quota db (provider_name p) of None \<Rightarrow> (0, 0)
      | Some (d, du, m, mu) \<Rightarrow> (if d = int (now div 86400) then du else 0, if m = int (now div 60) then mu else 0)"
  have used: "?used = (day_used p db (now div 86400), minute_used p db (now div 60))"
    by (auto simp: day_used_def minute_used_def split: option.splits)
  show thesis
    using assms that unfolding provider_reserve_def Let_def used fst_conv snd_conv
    by (auto simp: and_then_Inr_iff quota_exhausted_def split: option.splits if_splits)
qed

lemma saturating_succ: "x < int n \<Longrightarrow> n < 2 ^ 32 \<Longrightarrow> - (2 ^ 63) \<le> x \<Longrightarrow> i64_saturating_add x 1 = x + 1"
  by (simp add: i64_saturating_add_def i64_clamp_def i64_min_def i64_max_def)

lemma day_used_update:
  "bd_quota db' = (bd_quota db)(provider_name p \<mapsto> (int d, a, m, b)) \<Longrightarrow> day_used p db' w = (if w = d then a else 0)"
  by (auto simp: day_used_def)

lemma minute_used_update:
  "bd_quota db' = (bd_quota db)(provider_name p \<mapsto> (d, a, int m, b)) \<Longrightarrow> minute_used p db' w = (if w = m then b else 0)"
  by (auto simp: minute_used_def)


lemma not_future_later: "not_future p db t \<Longrightarrow> t \<le> t' \<Longrightarrow> not_future p db t'"
  unfolding not_future_def
  by (auto split: option.splits intro: order_trans div_le_mono)

lemma day_used_future: "not_future p db t \<Longrightarrow> t div 86400 < d \<Longrightarrow> day_used p db d = 0"
  by (auto simp: not_future_def day_used_def split: option.splits)

lemma minute_used_future: "not_future p db t \<Longrightarrow> t div 60 < m \<Longrightarrow> minute_used p db m = 0"
  by (auto simp: not_future_def minute_used_def split: option.splits)

text \<open>
  One counter of the quota row: \<open>used\<close> reads it for a window of \<open>seconds\<close>, and \<open>limit\<close> bounds
  it. Both counters are instances.
\<close>

locale window_counter =
  fixes p :: provider and seconds :: nat and used :: "budget_db \<Rightarrow> nat \<Rightarrow> int" and limit :: "quota \<Rightarrow> nat"
  assumes below: "provider_reserve p key credential q now db = Inr (db', Fetch) \<Longrightarrow> limit q \<noteq> 0 \<Longrightarrow>
      used db (now div seconds) < int (limit q)"
    and counted: "provider_reserve p key credential q now db = Inr (db', Fetch) \<Longrightarrow> limit q \<noteq> 0 \<Longrightarrow> limit q < 2 ^ 32 \<Longrightarrow>
      0 \<le> used db (now div seconds) \<Longrightarrow>
      used db' w = (if w = now div seconds then used db (now div seconds) + 1 else 0)"
    and future: "not_future p db t \<Longrightarrow> t div seconds < w \<Longrightarrow> used db w = 0"
begin

lemma fetches_bounded:
  assumes "sorted (map fst rs)" and "limit q \<noteq> 0" and "limit q < 2 ^ 32"
    and "\<And>w. 0 \<le> used db w" and "\<And>x. x \<in> set rs \<Longrightarrow> not_future p db (fst x)"
  shows "int (fetches seconds w (provider_run p q db rs)) + used db w \<le> max (int (limit q)) (used db w)"
  using assms
proof (induction rs arbitrary: db)
  case (Cons x rs)
  obtain now key credential where x: "x = (now, key, credential)" by (cases x) auto
  have later: "\<And>y. y \<in> set rs \<Longrightarrow> now \<le> fst y" using Cons.prems(1) x by auto
  note IH = Cons.IH [OF _ Cons.prems(2,3)]
  have srt: "sorted (map fst rs)" using Cons.prems(1) by simp
  show ?case
  proof (cases "\<exists>db'. provider_reserve p key credential q now db = Inr (db', Fetch)")
    case False
    have "int (fetches seconds w (provider_run p q db (x # rs))) = int (fetches seconds w (provider_run p q db rs))"
    proof (cases "provider_reserve p key credential q now db")
      case (Inr y)
      obtain db' r where y: "y = (db', r)" by force
      from Inr y False have "r \<noteq> Fetch" by auto
      moreover from Inr y this have "db' = db"
        using provider_reserve_cases [of p key credential q now db db' r] by blast
      ultimately show ?thesis using Inr y x by simp
    qed (simp add: x)
    with IH [OF srt Cons.prems(4)] Cons.prems(5) show ?thesis by simp
  next
    case True
    then obtain db' where r: "provider_reserve p key credential q now db = Inr (db', Fetch)" by blast
    note cnt = counted [OF r Cons.prems(2,3,4)] and low = below [OF r Cons.prems(2)]
    have nf: "not_future p db' (fst y)" if "y \<in> set rs" for y
    proof (rule not_future_later [OF _ later [OF that]])
      show "not_future p db' now"
        using r by (cases rule: provider_reserve_cases) (auto simp: not_future_def)
    qed
    have nn: "0 \<le> used db' v" for v using cnt [of v] Cons.prems(4) by simp
    have run: "int (fetches seconds w (provider_run p q db (x # rs)))
      = (if now div seconds = w then 1 else 0) + int (fetches seconds w (provider_run p q db' rs))"
      using r x by simp
    note ih = IH [OF srt nn nf]
    consider "now div seconds = w" | "now div seconds < w" | "w < now div seconds" by linarith
    then show ?thesis
    proof cases
      case 1
      then show ?thesis using ih run cnt [of w] low by auto
    next
      case 2
      have "used db w = 0" using future [of db now w] Cons.prems(5) [of x] x 2 by simp
      then show ?thesis using ih run cnt [of w] 2 by simp
    next
      case 3
      have "fetches seconds w (provider_run p q db' rs) = 0"
        by (rule fetches_past) (use later 3 div_le_mono order.strict_trans2 in blast)
      then show ?thesis using run 3 by simp
    qed
  qed
qed simp

end

interpretation day: window_counter p 86400 "day_used p" qu_day for p
proof
  fix key credential q now db db' w t
  assume r: "provider_reserve p key credential q now db = Inr (db', Fetch)" and n: "qu_day q \<noteq> 0"
  show low: "day_used p db (now div 86400) < int (qu_day q)"
    using r n by (cases rule: provider_reserve_cases) auto
  show "day_used p db' w = (if w = now div 86400 then day_used p db (now div 86400) + 1 else 0)"
    if "qu_day q < 2 ^ 32" "0 \<le> day_used p db (now div 86400)"
    using r
  proof (cases rule: provider_reserve_cases)
    case 2
    then show ?thesis using day_used_update [OF 2(4), of w] saturating_succ [OF low that(1)] that(2) by simp
  qed simp
qed (rule day_used_future)

interpretation minute: window_counter p 60 "minute_used p" qu_minute for p
proof
  fix key credential q now db db' w t
  assume r: "provider_reserve p key credential q now db = Inr (db', Fetch)" and n: "qu_minute q \<noteq> 0"
  show low: "minute_used p db (now div 60) < int (qu_minute q)"
    using r n by (cases rule: provider_reserve_cases) auto
  show "minute_used p db' w = (if w = now div 60 then minute_used p db (now div 60) + 1 else 0)"
    if "qu_minute q < 2 ^ 32" "0 \<le> minute_used p db (now div 60)"
    using r
  proof (cases rule: provider_reserve_cases)
    case 2
    then show ?thesis using minute_used_update [OF 2(4), of w] saturating_succ [OF low that(1)] that(2) by simp
  qed simp
qed (rule minute_used_future)

text \<open>
  a provider is never asked more often than its quota allows. On a node that has not asked
  it before and whose clock does not go back, whatever is cached, cooling down, granted or
  refused, the requests sent in any day and in any minute stay within the configured quota of
  that window (a quota of zero is no quota).
\<close>

theorem provider_quota_respected:
  assumes "bd_quota db (provider_name p) = None" and "sorted (map fst rs)"
    and "qu_day q < 2 ^ 32" and "qu_minute q < 2 ^ 32"
  shows "(qu_day q \<noteq> 0 \<longrightarrow> fetches 86400 d (provider_run p q db rs) \<le> qu_day q)
    \<and> (qu_minute q \<noteq> 0 \<longrightarrow> fetches 60 m (provider_run p q db rs) \<le> qu_minute q)"
proof -
  have u: "day_used p db w = 0" "minute_used p db w = 0" and f: "not_future p db t" for w t
    using assms(1) by (simp_all add: day_used_def minute_used_def not_future_def)
  show ?thesis
    using day.fetches_bounded [OF assms(2), of q p db d] minute.fetches_bounded [OF assms(2), of q p db m] assms(3,4) u f
    by simp
qed


theorem provider_quota_respected_witness:
  "fetches 60 0 (provider_run Crdf \<lparr>qu_minute = 1, qu_day = 5\<rparr> empty_db [(10, ''a'', ''k''), (20, ''b'', ''k'')]) \<le> 1
   \<and> fetches 60 0 (provider_run Crdf \<lparr>qu_minute = 1, qu_day = 5\<rparr> empty_db [(10, ''a'', ''k''), (20, ''b'', ''k'')]) \<ge> 1"
proof -
  let ?rs = "[(10::nat, ''a'', ''k''), (20, ''b'', ''k'')]" and ?q = "\<lparr>qu_minute = 1, qu_day = 5\<rparr>"
  have "fetches 60 0 (provider_run Crdf ?q empty_db ?rs) \<ge> 1"
    by (simp add: provider_reserve_def empty_db_def option_filter_def Let_def ceiling_at_def quota_exhausted_def
        i64_as_u64_def cap_of_def)
  then show ?thesis
    using provider_quota_respected [of empty_db Crdf ?rs ?q 0 0] by (simp add: empty_db_def)
qed

lemma collect_needs_prefix:
  "collect_needs rt needs out = Inr rq \<Longrightarrow>
   \<exists>ks rs. rq_known rq = rq_known out @ ks \<and> rq_replenish rq = rq_replenish out @ rs"
proof (induction needs arbitrary: out)
  case (Cons x needs)
  obtain resource window used margin where x: "x = (resource, window, used, margin)" by (cases x) auto
  show ?case using Cons by (fastforce simp: x and_then_Inr_iff)
qed simp

lemma build_request_llm:
  assumes "build_request month now rt = Inr rq" and "wallet_row rt ''llm'' (month (int now)) = Inr (known, False)"
    and "bd_months (br_llm rt) (month (int now)) = Some (int used, k)" and "known - used < 10000"
  shows "map_of (rq_known rq) (known_key ''llm'' (month (int now))) = Some known" and "''llm'' \<in> set (rq_replenish rq)"
proof -
  let ?m = "month (int now)"
  from assms obtain needs where
    "collect_needs rt needs \<lparr>rq_known = [(known_key ''llm'' ?m, known)], rq_replenish = [''llm'']\<rparr> = Inr rq"
    by (auto simp: build_request_def Let_def get_u64_def)
  from collect_needs_prefix [OF this] show "map_of (rq_known rq) (known_key ''llm'' ?m) = Some known"
    and "''llm'' \<in> set (rq_replenish rq)" by auto
qed

lemma install_credits_other:
  assumes "install_credits month now cs unl rt = (rt', r)" and "\<And>c. c \<in> set cs \<Longrightarrow> cr_resource c \<noteq> ''llm''"
  shows "br_llm rt' = br_llm rt"
  using assms
proof (induction cs arbitrary: unl rt)
  case (Cons c cs)
  then show ?case by (auto split: if_splits)
qed simp

lemma install_llm:
  assumes "install month (c # cs) now rt = (rt', Inr ())" and "cr_resource c = ''llm''"
    and "cr_window c = month (int now)" and "\<And>d. d \<in> set cs \<Longrightarrow> cr_resource d \<noteq> ''llm''"
  shows "br_llm rt' = prune_db (expired_llm (month (int now - 62 * 86400))) (wallet_insert c (br_llm rt))"
    and "\<not> cr_unlimited c"
proof -
  obtain rt1 x where i: "install_credits month now (c # cs) [] rt = (rt1, x)" by force
  with assms(1) obtain unl where x: "x = Inr unl" and
    rt': "rt' = budget_prune month now (rt1\<lparr>br_reputation := (br_reputation rt1)
       \<lparr>bd_unlimited_lease := (\<lambda>r. if r \<in> set unl then Some (i64_saturating_add (int now) 30) else None)\<rparr>\<rparr>)"
    by (auto simp: install_def split: if_splits sum.splits)
  from i x assms(2,3) show u: "\<not> cr_unlimited c" by (auto split: if_splits)
  from i x assms(2,3) u have "install_credits month now cs [] (rt\<lparr>br_llm := wallet_insert c (br_llm rt)\<rparr>) = (rt1, Inr unl)"
    by (auto simp: current_window_def split: if_splits)
  then have "br_llm rt1 = wallet_insert c (br_llm rt)" using install_credits_other assms(4) by fastforce
  then show "br_llm rt' = prune_db (expired_llm (month (int now - 62 * 86400))) (wallet_insert c (br_llm rt))"
    by (simp add: rt' budget_prune_def)
qed


lemma grant_first:
  assumes "grant month cfg n rq now rt = (rt', Inr cs)" and "bc_llm cfg = Some maximum" and "\<not> br_hold rt"
  obtains db c ds where "grant_llm month maximum n rq now (br_llm rt) = Inr (db, c)" "cs = c # ds"
    "\<And>d. d \<in> set ds \<Longrightarrow> cr_resource d \<noteq> ''llm''"
proof -
  obtain rep s where gp: "grant_providers (bc_providers cfg) n rq now (br_reputation rt) = (rep, s)" by force
  from assms gp obtain db c ds where "grant_llm month maximum n rq now (br_llm rt) = Inr (db, c)" "cs = c # ds" "s = Inr ds"
    by (auto simp: grant_def and_then_Inr_iff split: if_splits sum.splits)
  with gp that show thesis using grant_providers_resource by blast
qed

lemma grant_llm_amount:
  assumes "grant_llm month maximum n rq now db = Inr (db', c)"
    and "unwrap_or (bd_allocations db (n, ''llm'', month (int now))) 0 = int known"
    and "map_of (rq_known rq) (known_key ''llm'' (month (int now))) = Some known" and "''llm'' \<in> set (rq_replenish rq)"
    and "accounted db (month (int now)) = int used"
  shows "cr_amount c = known + min 100000 (maximum - used)" and "cr_resource c = ''llm''" and "cr_window c = month (int now)"
proof -
  let ?m = "month (int now)"
  from assms(1) obtain u db1 increment where u: "month_used db ?m = Inr u"
    and a: "allocate n ''llm'' ?m rq (maximum, u, 100000) db = Inr (db1, cr_amount c, increment)"
    and c: "cr_resource c = ''llm''" "cr_window c = ?m"
    by (auto simp: grant_llm_def Let_def and_then_Inr_iff)
  have "u = used" using month_used_Inr [OF u] assms(5) by simp
  moreover have "cr_amount c = known + min 100000 (maximum - u)"
    using a assms(2-4) by (auto simp: allocate_def and_then_Inr_iff Let_def split: option.splits)
  ultimately show "cr_amount c = known + min 100000 (maximum - used)" by simp
  show "cr_resource c = ''llm''" "cr_window c = ?m" by (fact c)+
qed

text \<open>
  a worker that runs short is replenished. When its wallet agrees with what the authority
  has granted and less than its margin is left, one exchange (its request, the authority's grant
  and the installation of the credits) raises the limit its reservations check to the old
  amount plus a chunk, or plus all that is left of the budget when that is less.
\<close>

theorem replenish_reaches_worker:
  assumes "build_request month now worker = Inr rq" and "bd_wallet_mode (br_llm worker)"
    and "wallet_row worker ''llm'' (month (int now)) = Inr (known, False)"
    and "bd_months (br_llm worker) (month (int now)) = Some (int spent, requests)" and "known - spent < 10000"
    and "bc_llm cfg = Some maximum" and "\<not> br_hold authority"
    and "unwrap_or (bd_allocations (br_llm authority) (n, ''llm'', month (int now))) 0 = int known"
    and "accounted (br_llm authority) (month (int now)) = int used"
    and "grant month cfg n rq now authority = (authority', Inr credits)"
    and "install month credits now worker = (worker', Inr ())"
    and "\<not> month (int now) < month (int now - 62 * 86400)"
  shows "ceiling_at (br_llm worker') ''llm'' (month (int now)) maximum now
    = Inr (min (known + min 100000 (maximum - used)) maximum)"
proof -
  let ?m = "month (int now)"
  note rq = build_request_llm [OF assms(1,3,4,5)]
  obtain db c ds where g: "grant_llm month maximum n rq now (br_llm authority) = Inr (db, c)"
    and cs: "credits = c # ds" and ds: "\<And>d. d \<in> set ds \<Longrightarrow> cr_resource d \<noteq> ''llm''"
    by (rule grant_first [OF assms(10,6,7)]) blast
  note amount = grant_llm_amount [OF g assms(8) rq assms(9)]
  note w = install_llm [OF assms(11) [unfolded cs] amount(2,3) ds]
  have "bd_wallet (br_llm worker') (''llm'', ?m) = Some (int (cr_amount c), False)"
    using assms(3,12) amount w(2)
    by (auto simp: w(1) prune_db_def delete_where_def expired_llm_def wallet_insert_def wallet_row_def
        and_then_Inr_iff split: option.splits)
  then have "ceiling_at (br_llm worker') ''llm'' ?m maximum now = Inr (min (cr_amount c) maximum)"
    using assms(2) by (simp add: ceiling_at_def get_u64_def w(1) wallet_insert_def)
  then show ?thesis unfolding amount(1) .
qed

theorem replenish_reaches_worker_witness:
  "\<exists>worker rq worker'. build_request sample_month 10 worker = Inr rq
     \<and> install sample_month [sample_credit] 10 worker = (worker', Inr ())
     \<and> ceiling_at (br_llm worker') ''llm'' ''2026-01'' 200000 10 = Inr 100000"
proof -
  let ?worker = "(es_worker escrow_new ''w'')\<lparr>br_llm := (br_llm (es_worker escrow_new ''w''))\<lparr>bd_months := [''2026-01'' \<mapsto> (0, 0)]\<rparr>\<rparr>"
  let ?rq = "\<lparr>rq_known = [(''llm:2026-01'', 0), (''crdf-day:0'', 0), (''crdf-minute:0'', 0),
     (''virustotal-day:0'', 0), (''virustotal-minute:0'', 0)],
     rq_replenish = [''llm'', ''crdf-day'', ''crdf-minute'', ''virustotal-day'', ''virustotal-minute'']\<rparr>"
  obtain worker' where inst: "install sample_month [sample_credit] 10 ?worker = (worker', Inr ())"
    by (simp add: escrow_sample_defs Let_def)
  have zero: "nat_digits 0 = ''0''" by code_simp
  have rq: "build_request sample_month 10 ?worker = Inr ?rq"
    by (simp add: build_request_def escrow_sample_defs Let_def provider_needs_def wallet_row_def zero)
  obtain authority' where g: "grant sample_month sample_budget ''w'' ?rq 10 (es_authority escrow_new) = (authority', Inr [sample_credit])"
    by (simp add: escrow_sample_defs Let_def)
  have "ceiling_at (br_llm worker') ''llm'' (sample_month (int 10)) 200000 10 = Inr (min (0 + min 100000 (200000 - 0)) 200000)"
    by (rule replenish_reaches_worker [OF rq _ _ _ _ _ _ _ _ g inst])
       (simp_all add: escrow_sample_defs Let_def wallet_row_def accounted_def)
  then show ?thesis using rq inst by (auto simp: sample_month_def)
qed

end
