(* ===== verification/NF_Traffic.thy ===== *)
theory NF_Traffic
  imports NF_Preferences NF_SmtpPolicy
begin

text \<open>
  Shared transport controls (\<open>src/traffic.rs\<close>, \<open>src/traffic/runtime.rs\<close>) and the tickets of
  sender verification they issue (\<open>Settings\<close> and \<open>ticket\<close> in
  \<open>src/traffic/verification.rs\<close>): the policy of a recipient, the fixed-window counters, the
  check of a message with its deduplication of retries, the early check before the message is
  received, and the effect of a report on the action.

  The tables are lists of rows in the order a scan returns them, so a deletion with \<open>LIMIT\<close>
  removes the first matching rows. A failed transaction changes nothing. The digest of a
  bucket's identity, the digest of the policy, the text of an address, the length of the
  serialized reports, fresh UUIDs and the parsing of a UUID or URL are arguments.
\<close>

section \<open>Settings\<close>

datatype captcha_provider = Turnstile | SelfHosted

record verification_settings =
  vs_enabled :: bool
  vs_public_origin :: string
  vs_site_key :: string
  vs_captcha_provider :: captcha_provider
  vs_notification_from :: string
  vs_relay_hosts :: "string list"
  vs_lifetime_hours :: nat
  vs_remember_days :: nat
  vs_invitations_per_day :: nat

text \<open>\<open>origin\<close> says that a text parses as a URL with nothing but an HTTPS origin.\<close>

definition verification_validate :: "(string \<Rightarrow> bool result) \<Rightarrow> verification_settings \<Rightarrow> unit result" where
  "verification_validate origin s =
     and_then (ensure (1 \<le> vs_lifetime_hours s \<and> vs_lifetime_hours s \<le> 72
           \<and> 1 \<le> vs_remember_days s \<and> vs_remember_days s \<le> 90
           \<and> 1 \<le> vs_invitations_per_day s \<and> vs_invitations_per_day s \<le> 1000)
         ''Invalid sender verification lifetime or quota'') (\<lambda>_.
     if \<not> vs_enabled s then Inr ()
     else
       and_then (origin (vs_public_origin s)) (\<lambda>https.
       and_then (ensure https ''Verification requires an HTTPS origin'') (\<lambda>_.
       and_then (if vs_captcha_provider s = Turnstile
           then ensure (10 \<le> length (vs_site_key s) \<and> length (vs_site_key s) \<le> 256
                  \<and> list_all (\<lambda>c. is_ascii_alphanumeric c \<or> c = CHR ''-'' \<or> c = CHR ''_'') (vs_site_key s))
                ''Invalid Turnstile site key''
           else Inr ()) (\<lambda>_.
       and_then (ensure (valid_address (vs_notification_from s)) ''Invalid notification sender'') (\<lambda>_.
       ensure (vs_relay_hosts s \<noteq> [] \<and> length (vs_relay_hosts s) \<le> 3
           \<and> list_all (\<lambda>h. is_some_and (endpoint h 25) (\<lambda>(n, _). valid_domain n)) (vs_relay_hosts s))
         ''Configure explicit outbound notification relay hosts'')))))"

record traffic_settings =
  ts_enabled :: bool
  ts_policy :: traffic_policy
  ts_scopes :: "(string \<times> traffic_policy) list"
  ts_allow_personal :: bool
  ts_verification :: verification_settings

definition traffic_settings_validate :: "(string \<Rightarrow> bool result) \<Rightarrow> traffic_settings \<Rightarrow> unit result" where
  "traffic_settings_validate origin s =
     and_then (traffic_policy_validate (ts_policy s)) (\<lambda>_.
     and_then (ensure (length (ts_scopes s) \<le> 1000) ''Too many traffic scopes'') (\<lambda>_.
     and_then (check_all (\<lambda>(scope, p).
         and_then (ensure (valid_address scope \<or> is_some_and (strip_prefix ''*@'' scope) valid_domain)
           ''Invalid traffic scope'') (\<lambda>_. traffic_policy_validate p)) (ts_scopes s)) (\<lambda>_.
     verification_validate origin (ts_verification s))))"

text \<open>What the controls read of the configuration.\<close>

record traffic_config =
  tc_traffic :: "traffic_settings option"
  tc_preferences :: preference_settings
  tc_mode :: mode
  tc_max_recipients :: nat
  tc_domains :: "domain list"
  tc_turnstile_key :: bool

definition traffic_settings_of :: "traffic_config \<Rightarrow> traffic_settings option" where
  "traffic_settings_of cfg = option_filter ts_enabled (tc_traffic cfg)"

definition verification_available :: "verification_settings \<Rightarrow> traffic_config \<Rightarrow> bool" where
  "verification_available s cfg \<longleftrightarrow> vs_captcha_provider s = SelfHosted \<or> tc_turnstile_key cfg"

definition domain_scope :: "string \<Rightarrow> string option" where
  "domain_scope rcp = map_option (\<lambda>(_, d). ''*@'' @ d) (rsplit_once (CHR ''@'') rcp)"

definition policy_for :: "traffic_settings \<Rightarrow> traffic_config \<Rightarrow> string \<Rightarrow> traffic_policy" where
  "policy_for s cfg rcp =
     (let policy = unwrap_or (option_or (map_of (ts_scopes s) rcp)
            (Option.bind (domain_scope rcp) (map_of (ts_scopes s)))) (ts_policy s);
          personal = Option.bind (option_or (map_of (ps_mailboxes (tc_preferences cfg)) rcp)
            (Option.bind (domain_scope rcp) (map_of (ps_mailboxes (tc_preferences cfg))))) pref_traffic
      in if ts_allow_personal s \<and> ps_enabled (tc_preferences cfg) then unwrap_or personal policy else policy)"

section \<open>Reports\<close>

record traffic_report =
  trp_status :: string
  trp_reasons :: "string list"
  trp_action :: traffic_action
  trp_enforced :: bool
  trp_window_seconds :: u32
  trp_counts :: "(string \<times> nat) list"
  trp_verification_id :: "string option"

type_synonym traffic_reports = "(string \<times> traffic_report) list"

definition traffic_report_default :: traffic_report where
  "traffic_report_default = \<lparr>trp_status = [], trp_reasons = [], trp_action = Tr_Observe, trp_enforced = False,
     trp_window_seconds = 0, trp_counts = [], trp_verification_id = None\<rparr>"

definition report_hold :: "traffic_report \<Rightarrow> bool" where
  "report_hold r \<longleftrightarrow> trp_enforced r \<and> (trp_action r = Tr_Quarantine \<or> trp_verification_id r \<noteq> None)"

definition report_defer :: "traffic_report \<Rightarrow> bool" where
  "report_defer r \<longleftrightarrow> trp_enforced r \<and> trp_action r = Tr_Defer"

definition report_apply :: "traffic_report \<Rightarrow> applied \<Rightarrow> applied" where
  "report_apply r a =
     (if report_hold r \<and> ap_effective a \<noteq> Quarantine
      then \<lparr>ap_coverage = Some \<lparr>ce_version = COVERAGE_VERSION, ce_partial_actions = False,
              ce_basis = TrafficPolicy, ce_required = [R_TransportPolicyMet], ce_missing = []\<rparr>,
            ap_requested = Quarantine, ap_effective = Quarantine,
            ap_reason = (if trp_verification_id r \<noteq> None then ''sender_verification'' else ''traffic_limit''),
            ap_quarantine_days = max 1 (min 7 (ap_quarantine_days a))\<rparr>
      else a)"

section \<open>State\<close>

record ticket_row =
  tk_id :: string
  tk_sender :: string
  tk_recipient :: string
  tk_created :: int
  tk_expires :: int
  tk_armed :: bool
  tk_verified :: "int option"

record traffic_db =
  tb_buckets :: "(string \<times> int \<times> nat) list"
  tb_operations :: "(string \<times> int \<times> traffic_reports) list"
  tb_cache_bytes :: int
  tb_tickets :: "ticket_row list"
  tb_grants :: "(string \<times> string \<times> int) list"

record traffic_env =
  te_policy_hash :: string
  te_show_ip :: "ip_addr \<Rightarrow> string"
  te_bucket_key :: "string \<Rightarrow> string \<Rightarrow> string \<Rightarrow> string \<Rightarrow> string"
  te_encoded_len :: "traffic_reports \<Rightarrow> nat"
  te_uuid_ok :: "string \<Rightarrow> bool"
  te_fresh :: "string \<Rightarrow> string"

record traffic_request =
  tq_id :: string
  tq_policy_hash :: string
  tq_peer :: ip_addr
  tq_sender :: string
  tq_recipients :: "string list"
  tq_fingerprint :: string
  tq_authenticated :: bool
  tq_verification_eligible :: bool

definition is_hexdigit :: "char \<Rightarrow> bool" where
  "is_hexdigit c \<longleftrightarrow> (48 \<le> byte c \<and> byte c \<le> 57) \<or> (65 \<le> byte c \<and> byte c \<le> 70) \<or> (97 \<le> byte c \<and> byte c \<le> 102)"

definition request_validate :: "traffic_env \<Rightarrow> traffic_config \<Rightarrow> traffic_request \<Rightarrow> unit result" where
  "request_validate env cfg r =
     and_then (ensure (te_uuid_ok env (tq_id r)) ''Invalid traffic transaction'') (\<lambda>_.
     and_then (ensure (tq_policy_hash r = te_policy_hash env) ''Traffic policy changed'') (\<lambda>_.
     and_then (ensure (\<not> tq_verification_eligible r \<or> (tq_authenticated r \<and> tq_sender r \<noteq> []))
         ''Unauthenticated verification request'') (\<lambda>_.
     and_then (ensure (tq_sender r = [] \<or> valid_address (tq_sender r)) ''Invalid traffic sender'') (\<lambda>_.
     and_then (ensure (tq_recipients r \<noteq> [] \<and> length (tq_recipients r) \<le> tc_max_recipients cfg
           \<and> length (tq_recipients r) \<le> 1000) ''Invalid traffic recipient count'') (\<lambda>_.
     and_then (ensure (list_all (\<lambda>a. config_recipient (tc_domains cfg) a \<noteq> None) (tq_recipients r))
         ''Unknown traffic recipient'') (\<lambda>_.
     ensure (length (tq_fingerprint r) = 64 \<and> list_all is_hexdigit (tq_fingerprint r))
         ''Invalid traffic fingerprint''))))))"

fun delete_limit :: "nat \<Rightarrow> ('a \<Rightarrow> bool) \<Rightarrow> 'a list \<Rightarrow> 'a list" where
  "delete_limit n P [] = []"
| "delete_limit n P (x # xs) =
     (if P x \<and> n > 0 then delete_limit (n - 1) P xs else x # delete_limit n P xs)"

definition u32_max :: nat where "u32_max = 2 ^ 32 - 1"

definition bucket_next :: "(int \<times> nat) option \<Rightarrow> nat \<Rightarrow> int \<Rightarrow> (int \<times> nat) result" where
  "bucket_next old window now =
     (case old of
        Some (start, hits) \<Rightarrow>
          if now \<ge> start \<and> now - start < int window then Inr (start, min (hits + 1) u32_max)
          else if now < start then Inl ''Traffic clock moved backwards''
          else Inr (now, 1)
      | None \<Rightarrow> Inr (now, 1))"

fun upsert :: "'k \<Rightarrow> 'v \<Rightarrow> ('k \<times> 'v) list \<Rightarrow> ('k \<times> 'v) list" where
  "upsert k v [] = [(k, v)]"
| "upsert k v ((k', v') # t) = (if k' = k then (k, v) # t else (k', v') # upsert k v t)"

definition bucket :: "string \<Rightarrow> nat \<Rightarrow> int \<Rightarrow> traffic_db \<Rightarrow> (traffic_db \<times> nat) result" where
  "bucket key window now db =
     and_then (bucket_next (map_of (tb_buckets db) key) window now) (\<lambda>(start, hits).
     Inr (db\<lparr>tb_buckets := upsert key (start, hits) (tb_buckets db)\<rparr>, hits))"

definition ticket ::
    "verification_settings \<Rightarrow> string \<Rightarrow> string \<Rightarrow> string \<Rightarrow> int \<Rightarrow> traffic_db \<Rightarrow> (traffic_db \<times> string option) result" where
  "ticket s fresh sender rcp now db0 =
     (let db = db0\<lparr>tb_tickets := delete_limit 128 (\<lambda>t. tk_expires t < now - 86400) (tb_tickets db0),
                  tb_grants := delete_limit 128 (\<lambda>(_, _, e). e < now) (tb_grants db0)\<rparr>
      in if list_ex (\<lambda>(se, r, e). se = sender \<and> r = rcp \<and> e > now) (tb_grants db) then Inr (db, None)
         else
          (case sort_by (\<lambda>a b. tk_created b \<le> tk_created a)
               (filter (\<lambda>t. tk_sender t = sender \<and> tk_recipient t = rcp \<and> tk_expires t > now \<and> tk_verified t = None)
                 (tb_tickets db)) of
             t # _ \<Rightarrow> Inr (db, Some (tk_id t))
           | [] \<Rightarrow>
               and_then (ensure (length (tb_tickets db) < 10000) ''Sender verification capacity exhausted'') (\<lambda>_.
               and_then (ensure (fresh \<notin> tk_id ` set (tb_tickets db)) ''UNIQUE constraint failed'') (\<lambda>_.
               Inr (db\<lparr>tb_tickets := tb_tickets db @ [\<lparr>tk_id = fresh, tk_sender = sender, tk_recipient = rcp,
                      tk_created = now, tk_expires = now + int (vs_lifetime_hours s) * 3600, tk_armed = False,
                      tk_verified = None\<rparr>]\<rparr>, Some fresh)))))"

section \<open>The check of a message\<close>

definition mask64 :: "ip_addr \<Rightarrow> ip_addr" where
  "mask64 a = (case a of V6 w \<Rightarrow> V6 (push_bit 64 (drop_bit 64 w)) | V4 x \<Rightarrow> V4 x)"

definition sender_domain :: "string \<Rightarrow> string" where
  "sender_domain s = (case rsplit_once (CHR ''@'') s of None \<Rightarrow> [] | Some (_, d) \<Rightarrow> to_ascii_lowercase d)"

definition check_authority :: "traffic_env \<Rightarrow> traffic_request \<Rightarrow> string" where
  "check_authority env r = (if tq_authenticated r then ''authenticated'' else te_show_ip env (mask64 (tq_peer r)))"

definition limits_of :: "traffic_env \<Rightarrow> traffic_request \<Rightarrow> traffic_policy \<Rightarrow> (string \<times> string \<times> nat) list" where
  "limits_of env r p =
     [(''sender'', check_authority env r @ '':'' @ tq_sender r, unat (tf_sender_limit p)),
      (''domain'', check_authority env r @ '':'' @ sender_domain (tq_sender r), unat (tf_domain_limit p)),
      (''recipient'', [], unat (tf_recipient_limit p)),
      (''duplicate'', tq_fingerprint r, unat (tf_duplicate_limit p))]"

fun apply_limits ::
    "(string \<Rightarrow> string \<Rightarrow> string) \<Rightarrow> bool \<Rightarrow> nat \<Rightarrow> int \<Rightarrow> (string \<times> string \<times> nat) list \<Rightarrow>
     traffic_report \<Rightarrow> traffic_db \<Rightarrow> (traffic_db \<times> traffic_report) result" where
  "apply_limits key trusted window now [] report db = Inr (db, report)"
| "apply_limits key trusted window now ((name, identity, limit) # ls) report db =
     (if limit = 0 \<or> (trusted \<and> name \<noteq> ''recipient'') then apply_limits key trusted window now ls report db
      else
        and_then (bucket (key name identity) window now db) (\<lambda>(db1, hits).
        apply_limits key trusted window now ls
          (report\<lparr>trp_counts := trp_counts report @ [(name, hits)],
                  trp_reasons := trp_reasons report @ (if hits > limit then [name @ ''_limit''] else [])\<rparr>) db1))"

definition enforce_limits :: "traffic_config \<Rightarrow> traffic_policy \<Rightarrow> traffic_report \<Rightarrow> traffic_report" where
  "enforce_limits cfg p report =
     (if trp_reasons report \<noteq> []
      then report\<lparr>trp_status := ''limited'', trp_action := tf_action p,
                  trp_enforced := (tc_mode cfg \<noteq> Observe \<and> tf_action p \<noteq> Tr_Observe)\<rparr>
      else report)"

definition check_recipient ::
    "traffic_env \<Rightarrow> traffic_config \<Rightarrow> traffic_settings \<Rightarrow> traffic_request \<Rightarrow> int \<Rightarrow> string \<Rightarrow> traffic_db \<Rightarrow>
     (traffic_db \<times> traffic_report) result" where
  "check_recipient env cfg s r now rcp db =
     (let p = policy_for s cfg rcp;
          trusted = (tq_authenticated r \<and> tq_sender r \<in> set (tf_trusted_senders p))
      in and_then (apply_limits (te_bucket_key env (tq_policy_hash r) rcp) trusted (unat (tf_window_seconds p)) now
             (limits_of env r p)
             (traffic_report_default\<lparr>trp_status := ''passed'', trp_window_seconds := tf_window_seconds p\<rparr>) db)
           (\<lambda>(db1, report0).
         let report = enforce_limits cfg p report0
         in if \<not> trp_enforced report \<and> \<not> trusted \<and> tf_verify_new_senders p \<and> vs_enabled (ts_verification s)
               \<and> tq_verification_eligible r \<and> verification_available (ts_verification s) cfg \<and> tc_mode cfg \<noteq> Observe
            then and_then (ticket (ts_verification s) (te_fresh env rcp) (tq_sender r) rcp now db1) (\<lambda>(db2, t).
                 Inr (db2, case t of
                     None \<Rightarrow> report
                   | Some i \<Rightarrow> report\<lparr>trp_status := ''verification_pending'', trp_verification_id := Some i,
                                     trp_enforced := True\<rparr>))
            else Inr (db1, report)))"

fun check_recipients ::
    "traffic_env \<Rightarrow> traffic_config \<Rightarrow> traffic_settings \<Rightarrow> traffic_request \<Rightarrow> int \<Rightarrow> string list \<Rightarrow> traffic_reports \<Rightarrow>
     traffic_db \<Rightarrow> (traffic_db \<times> traffic_reports) result" where
  "check_recipients env cfg s r now [] reports db = Inr (db, reports)"
| "check_recipients env cfg s r now (rcp # rs) reports db =
     (if rcp \<in> fst ` set reports then check_recipients env cfg s r now rs reports db
      else and_then (check_recipient env cfg s r now rcp db) (\<lambda>(db1, report).
           check_recipients env cfg s r now rs (reports @ [(rcp, report)]) db1))"

definition expire_traffic :: "traffic_env \<Rightarrow> nat \<Rightarrow> int \<Rightarrow> traffic_db \<Rightarrow> traffic_db" where
  "expire_traffic env limit now db =
     (let kept = delete_limit limit (\<lambda>(_, created, _). created < now - 3600) (tb_operations db);
          size = (\<lambda>xs. \<Sum>(_, _, x) \<leftarrow> xs. int (te_encoded_len env x))
      in db\<lparr>tb_operations := kept,
            tb_cache_bytes := tb_cache_bytes db - (size (tb_operations db) - size kept),
            tb_buckets := delete_limit limit (\<lambda>(_, started, _). started < now - 3600) (tb_buckets db)\<rparr>)"

definition traffic_check ::
    "traffic_env \<Rightarrow> traffic_config \<Rightarrow> traffic_request \<Rightarrow> int \<Rightarrow> traffic_db \<Rightarrow> (traffic_db \<times> traffic_reports) result" where
  "traffic_check env cfg r now db =
     and_then (request_validate env cfg r) (\<lambda>_.
     and_then (ensure (now \<ge> 0) ''Invalid clock'') (\<lambda>_.
     case traffic_settings_of cfg of
       None \<Rightarrow> Inr (db, [])
     | Some s \<Rightarrow>
        (case map_of (tb_operations db) (tq_id r) of
           Some (_, saved) \<Rightarrow> Inr (db, saved)
         | None \<Rightarrow>
            (let db1 = expire_traffic env 512 now db in
             and_then (ensure (length (tb_buckets db1) + length (tb_operations db1)
                 + (length (tq_recipients r) * 4 + 1) \<le> 100000) ''Traffic state capacity exhausted'') (\<lambda>_.
             and_then (check_recipients env cfg s r now (tq_recipients r) [] db1) (\<lambda>(db2, reports).
             let size = te_encoded_len env reports in
             and_then (ensure (size \<le> 131072 \<and> tb_cache_bytes db2 + int size \<le> 16777216)
                 ''Traffic result cache capacity exhausted'') (\<lambda>_.
             Inr (db2\<lparr>tb_operations := tb_operations db2 @ [(tq_id r, now, reports)],
                      tb_cache_bytes := tb_cache_bytes db2 + int size\<rparr>, reports))))))))"

text \<open>
  \<open>inspect\<close>: what the SMTP session sees, where no answer (no permit, a timeout, an authority
  that cannot be reached) and an error are both unavailable; and the reports \<open>prepare\<close> keeps.
\<close>

definition unavailable_reports :: "traffic_request \<Rightarrow> traffic_reports" where
  "unavailable_reports r = map (\<lambda>rcp. (rcp, traffic_report_default\<lparr>trp_status := ''unavailable''\<rparr>)) (tq_recipients r)"

definition inspect :: "traffic_request \<Rightarrow> traffic_reports result option \<Rightarrow> traffic_reports" where
  "inspect r operation = (case operation of Some (Inr reports) \<Rightarrow> reports | _ \<Rightarrow> unavailable_reports r)"

definition drop_ineligible :: "bool \<Rightarrow> traffic_reports \<Rightarrow> traffic_reports" where
  "drop_ineligible eligible reports =
     (if eligible then reports
      else map (\<lambda>(rcp, x). (rcp, if trp_verification_id x \<noteq> None
             then x\<lparr>trp_verification_id := None, trp_status := ''verification_ineligible'', trp_enforced := False\<rparr>
             else x)) reports)"

definition transport_authenticated :: "scan \<Rightarrow> bool" where
  "transport_authenticated s = is_some_and (scan_evidence s) (\<lambda>e.
     ev_source e = SmtpSession \<and> dmarc_pass e \<and> is_ok (eligible_authentication e Spf)
     \<and> au_spf (ev_authentication e) = Some A_Pass)"

section \<open>The early check\<close>

definition early_limits :: "traffic_env \<Rightarrow> ip_addr \<Rightarrow> string \<Rightarrow> traffic_policy \<Rightarrow> (string \<times> string \<times> nat) list" where
  "early_limits env peer sender p =
     (let ip = te_show_ip env (mask64 peer)
      in [(''recipient'', [], unat (tf_recipient_limit p)),
          (''sender'', ip @ '':'' @ sender, unat (tf_sender_limit p)),
          (''domain'', ip @ '':'' @ sender_domain sender, unat (tf_domain_limit p))])"

definition early_local ::
    "traffic_env \<Rightarrow> traffic_config \<Rightarrow> ip_addr \<Rightarrow> string \<Rightarrow> string \<Rightarrow> string \<Rightarrow> int \<Rightarrow> traffic_db \<Rightarrow> bool result" where
  "early_local env cfg peer sender rcp hash now db =
     and_then (ensure (hash = te_policy_hash env \<and> config_recipient (tc_domains cfg) rcp \<noteq> None
           \<and> (sender = [] \<or> valid_address sender)) ''Invalid early traffic request'') (\<lambda>_.
     case traffic_settings_of cfg of
       None \<Rightarrow> Inr False
     | Some s \<Rightarrow>
        (let p = policy_for s cfg rcp
         in if tc_mode cfg = Observe \<or> tf_action p \<noteq> Tr_Defer then Inr False
            else Inr (list_ex (\<lambda>(name, identity, limit). limit \<noteq> 0
              \<and> is_some_and (map_of (tb_buckets db) (te_bucket_key env hash rcp name identity)) (\<lambda>(started, hits).
                  started \<le> now \<and> started > now - int (unat (tf_window_seconds p)) \<and> hits \<ge> limit))
              (early_limits env peer sender p))))"


section \<open>Lemmas: tables\<close>

lemma map_of_upsert [simp]: "map_of (upsert k v t) = (map_of t)(k \<mapsto> v)"
  by (induction t) auto

lemma length_upsert: "length (upsert k v t) \<le> Suc (length t)"
  by (induction t) auto

lemma keys_upsert: "fst ` set (upsert k v t) = insert k (fst ` set t)"
  using dom_map_of_conv_image_fst [of "upsert k v t"] dom_map_of_conv_image_fst [of t] by simp

lemma distinct_upsert: "distinct (map fst t) \<Longrightarrow> distinct (map fst (upsert k v t))"
proof (induction t)
  case (Cons x t)
  obtain k' v' where x: "x = (k', v')" by force
  show ?case using Cons keys_upsert [of k v t] by (auto simp: x)
qed simp

lemma set_delete_limit: "set (delete_limit n P xs) \<subseteq> set xs"
  by (induction n P xs rule: delete_limit.induct) auto

lemma length_delete_limit: "length (delete_limit n P xs) \<le> length xs"
  by (induction n P xs rule: delete_limit.induct) auto

lemma distinct_delete_limit: "distinct (map f xs) \<Longrightarrow> distinct (map f (delete_limit n P xs))"
proof (induction n P xs rule: delete_limit.induct)
  case (2 n P x xs)
  then show ?case using set_delete_limit [of n P xs] by auto
qed simp

lemma delete_limit_map_of:
  assumes "distinct (map fst xs)"
  shows "map_of (delete_limit n P xs) k = map_of xs k
    \<or> map_of (delete_limit n P xs) k = None \<and> (\<exists>v. map_of xs k = Some v \<and> P (k, v))"
  using assms
proof (induction n P xs rule: delete_limit.induct)
  case (2 n P x xs)
  obtain k' v where x: "x = (k', v)" by force
  have "map_of (delete_limit (n - 1) P xs) k = None" if "k = k'"
    using that 2(3) x set_delete_limit [of "n - 1" P xs] by (auto simp: map_of_eq_None_iff image_iff)
  with 2 x show ?case by auto
qed simp

lemma bucket_Inr:
  assumes "bucket key window now db = Inr (db', hits)"
  obtains start where "bucket_next (map_of (tb_buckets db) key) window now = Inr (start, hits)"
    "db' = db\<lparr>tb_buckets := upsert key (start, hits) (tb_buckets db)\<rparr>"
  using assms by (auto simp: bucket_def and_then_Inr_iff)

section \<open>The fixed window\<close>

text \<open>
  The operations that touch a counter: a hit of some counter, and the expiry of old rows. The
  run gives the counter, the time and the count of every hit that succeeds.
\<close>

datatype traffic_event = Hit string nat int | Expire nat int

fun event_time :: "traffic_event \<Rightarrow> int" where
  "event_time (Hit _ _ t) = t"
| "event_time (Expire _ t) = t"

fun event_run :: "traffic_env \<Rightarrow> traffic_event list \<Rightarrow> traffic_db \<Rightarrow> (string \<times> int \<times> nat) list" where
  "event_run env [] db = []"
| "event_run env (Hit k w t # es) db =
     (case bucket k w t db of
        Inl _ \<Rightarrow> event_run env es db
      | Inr (db', c) \<Rightarrow> (k, t, c) # event_run env es db')"
| "event_run env (Expire n t # es) db = event_run env es (expire_traffic env n t db)"

definition passes :: "string \<Rightarrow> nat \<Rightarrow> nat \<Rightarrow> int \<Rightarrow> (string \<times> int \<times> nat) list \<Rightarrow> nat" where
  "passes key window limit a hs =
     length (filter (\<lambda>(k, t, c). k = key \<and> a \<le> t \<and> t < a + int window \<and> c \<le> limit) hs)"

lemma passes_simps [simp]:
  "passes key w l a [] = 0"
  "passes key w l a ((k, t, c) # hs) =
     (if k = key \<and> a \<le> t \<and> t < a + int w \<and> c \<le> l then 1 else 0) + passes key w l a hs"
  by (simp_all add: passes_def)

lemma event_run_times: "(k, t, c) \<in> set (event_run env es db) \<Longrightarrow> t \<in> event_time ` set es"
  by (induction env es db rule: event_run.induct) (auto split: sum.splits)

lemma passes_late:
  assumes "\<And>e. e \<in> set es \<Longrightarrow> a + int w \<le> event_time e"
  shows "passes key w l a (event_run env es db) = 0"
proof -
  have "\<not> t < a + int w" if "(k, t, c) \<in> set (event_run env es db)" for k t c
    using event_run_times [OF that] assms by fastforce
  then show ?thesis by (force simp: passes_def filter_empty_conv)
qed

text \<open>How many more hits may pass in the interval, given the row of the counter and the time.\<close>

definition room :: "nat \<Rightarrow> nat \<Rightarrow> int \<Rightarrow> int \<Rightarrow> (int \<times> nat) option \<Rightarrow> nat" where
  "room w l a now row =
     (if a + int w \<le> now then 0
      else case row of
          None \<Rightarrow> if a \<le> now then l else 2 * l
        | Some (s, c) \<Rightarrow>
            if a \<le> s then l - c
            else if a < s + int w then (l - c) + l
            else 2 * l)"

lemma room_le: "room w l a now row \<le> 2 * l"
  by (auto simp: room_def split: option.splits)

lemma bucket_next_room:
  assumes "bucket_next row w t = Inr (s, c)" and "l < u32_max" and "now \<le> t"
  shows "(if a \<le> t \<and> t < a + int w \<and> c \<le> l then 1 else 0) + room w l a t (Some (s, c)) \<le> room w l a now row"
proof (cases row)
  case None
  with assms have "s = t" "c = 1" by (auto simp: bucket_next_def)
  with None assms(3) show ?thesis by (auto simp: room_def)
next
  case (Some x)
  obtain s0 c0 where x: "x = (s0, c0)" by force
  show ?thesis
  proof (cases "t - s0 < int w")
    case True
    with assms(1) Some x have "s0 \<le> t" "s = s0" "c = min (c0 + 1) u32_max"
      by (auto simp: bucket_next_def split: if_splits)
    with True Some x assms(2,3) show ?thesis by (auto simp: room_def min_def)
  next
    case False
    with assms(1) Some x have "s = t" "c = 1" by (auto simp: bucket_next_def split: if_splits)
    with False Some x assms(3) show ?thesis by (auto simp: room_def)
  qed
qed

lemma room_later: "now \<le> t \<Longrightarrow> room w l a t row \<le> room w l a now row"
  by (auto simp: room_def split: option.splits)

lemma room_expired: "s < t - 3600 \<Longrightarrow> w \<le> 3600 \<Longrightarrow> now \<le> t \<Longrightarrow> room w l a t None \<le> room w l a now (Some (s, c))"
  by (auto simp: room_def)

lemma passes_room:
  assumes "sorted (map event_time es)" and "\<And>e. e \<in> set es \<Longrightarrow> now \<le> event_time e"
    and "\<And>w' t. Hit key w' t \<in> set es \<Longrightarrow> w' = w" and "w \<le> 3600" and "l < u32_max"
    and "distinct (map fst (tb_buckets db))"
  shows "passes key w l a (event_run env es db) \<le> room w l a now (map_of (tb_buckets db) key)"
  using assms
proof (induction env es db arbitrary: now rule: event_run.induct)
  case (2 env k w' t es db)
  have now: "now \<le> t" using 2(4) [of "Hit k w' t"] by simp
  have later: "\<And>e. e \<in> set es \<Longrightarrow> t \<le> event_time e" using 2(3) by auto
  have hits: "Hit key w'' t' \<in> set es \<Longrightarrow> w'' = w" for w'' t' using 2(5) by auto
  have srt: "sorted (map event_time es)" using 2(3) by simp
  show ?case
  proof (cases "bucket k w' t db")
    case (Inl e)
    have "passes key w l a (event_run env es db) \<le> room w l a t (map_of (tb_buckets db) key)"
      by (rule 2(1) [OF Inl srt later hits 2(6,7,8)])
    then show ?thesis using Inl room_later [OF now, of w l a "map_of (tb_buckets db) key"] by simp
  next
    case (Inr x)
    obtain db' c where x: "x = (db', c)" by force
    from Inr x obtain s where s: "bucket_next (map_of (tb_buckets db) k) w' t = Inr (s, c)"
      and db': "db' = db\<lparr>tb_buckets := upsert k (s, c) (tb_buckets db)\<rparr>" by (auto elim: bucket_Inr)
    have d: "distinct (map fst (tb_buckets db'))" using distinct_upsert [OF 2(8)] by (simp add: db')
    have ih: "passes key w l a (event_run env es db') \<le> room w l a t (map_of (tb_buckets db') key)"
      by (rule 2(2) [OF Inr _ srt later hits 2(6,7) d]) (simp add: x)
    show ?thesis
    proof (cases "k = key")
      case True
      with 2(5) [of w' t] have "w' = w" by simp
      with s True have "bucket_next (map_of (tb_buckets db) key) w t = Inr (s, c)" by simp
      note step = bucket_next_room [OF this 2(7) now, of a]
      show ?thesis using ih step Inr x True by (simp add: db' split: if_splits)
    next
      case False
      then show ?thesis
        using ih Inr x room_later [OF now, of w l a "map_of (tb_buckets db) key"] by (simp add: db')
    qed
  qed
next
  case (3 env n t es db)
  let ?db = "expire_traffic env n t db"
  have now: "now \<le> t" using 3(3) [of "Expire n t"] by simp
  have later: "\<And>e. e \<in> set es \<Longrightarrow> t \<le> event_time e" using 3(2) by auto
  have hits: "Hit key w' t' \<in> set es \<Longrightarrow> w' = w" for w' t' using 3(4) by auto
  have d: "distinct (map fst (tb_buckets ?db))"
    using distinct_delete_limit [OF 3(7)] by (simp add: expire_traffic_def Let_def)
  have srt: "sorted (map event_time es)" using 3(2) by simp
  have ih: "passes key w l a (event_run env es ?db) \<le> room w l a t (map_of (tb_buckets ?db) key)"
    by (rule 3(1) [OF srt later hits 3(5,6) d])
  have "room w l a t (map_of (tb_buckets ?db) key) \<le> room w l a now (map_of (tb_buckets db) key)"
    using delete_limit_map_of [OF 3(7), of n "\<lambda>(_, started, _). started < t - 3600" key]
      room_later [OF now, of w l a "map_of (tb_buckets db) key"] room_expired [OF _ 3(5) now, of _ l a]
    by (auto simp: expire_traffic_def Let_def)
  with ih show ?case by simp
qed simp


section \<open>Properties\<close>

text \<open>
  a transport limit holds in every window. Whatever other counters are hit and whatever
  rows expire in between, the hits of one counter that stay within its limit in any period as
  long as its window are at most twice the limit; no alignment of the period lets more through.
\<close>

theorem traffic_window_bound:
  assumes "sorted (map event_time es)" and "\<And>w' t. Hit key w' t \<in> set es \<Longrightarrow> w' = window"
    and "window \<le> 3600" and "limit < u32_max" and "distinct (map fst (tb_buckets db))"
  shows "passes key window limit a (event_run env es db) \<le> 2 * limit"
proof (cases es)
  case (Cons e es')
  have "event_time e \<le> event_time x" if "x \<in> set es" for x using assms(1) Cons that by auto
  then have "passes key window limit a (event_run env es db)
      \<le> room window limit a (event_time e) (map_of (tb_buckets db) key)"
    using assms by (intro passes_room) auto
  then show ?thesis using room_le [of window limit a "event_time e" "map_of (tb_buckets db) key"] by linarith
qed simp

definition empty_traffic :: traffic_db where
  "empty_traffic = \<lparr>tb_buckets = [], tb_operations = [], tb_cache_bytes = 0, tb_tickets = [], tb_grants = []\<rparr>"

definition traffic_sample_env :: traffic_env where
  "traffic_sample_env = \<lparr>te_policy_hash = ''h'', te_show_ip = (\<lambda>_. ''ip''), te_bucket_key = (\<lambda>h r n i. n @ i),
     te_encoded_len = length, te_uuid_ok = (\<lambda>_. True), te_fresh = (\<lambda>r. r)\<rparr>"

definition sample_hits :: "traffic_event list" where
  "sample_hits = [Hit ''k'' 10 0, Hit ''k'' 10 9, Hit ''k'' 10 10, Hit ''k'' 10 11]"

theorem traffic_window_bound_witness:
  "passes ''k'' 10 1 9 (event_run traffic_sample_env sample_hits empty_traffic) \<le> 2
   \<and> passes ''k'' 10 2 9 (event_run traffic_sample_env sample_hits empty_traffic) = 3"
proof -
  have "passes ''k'' 10 2 9 (event_run traffic_sample_env sample_hits empty_traffic) = 3"
    by (simp add: sample_hits_def bucket_def bucket_next_def empty_traffic_def u32_max_def)
  moreover have "passes ''k'' 10 1 9 (event_run traffic_sample_env sample_hits empty_traffic) \<le> 2 * 1"
    by (rule traffic_window_bound) (auto simp: sample_hits_def empty_traffic_def u32_max_def)
  ultimately show ?thesis by simp
qed

lemma apply_limits_frame:
  "apply_limits key trusted window now ls report db = Inr (db', report') \<Longrightarrow>
   tb_operations db' = tb_operations db \<and> tb_cache_bytes db' = tb_cache_bytes db
   \<and> length (tb_buckets db') \<le> length (tb_buckets db) + length ls
   \<and> (distinct (map fst (tb_buckets db)) \<longrightarrow> distinct (map fst (tb_buckets db')))"
proof (induction key trusted window now ls report db rule: apply_limits.induct)
  case (2 key trusted window now name identity limit ls report db)
  show ?case
  proof (cases "limit = 0 \<or> trusted \<and> name \<noteq> ''recipient''")
    case True
    with 2(1,3) show ?thesis by (auto)
  next
    case False
    with 2(3) obtain db1 hits where b: "bucket (key name identity) window now db = Inr (db1, hits)"
      and rest: "apply_limits key trusted window now ls
          (report\<lparr>trp_counts := trp_counts report @ [(name, hits)],
                  trp_reasons := trp_reasons report @ (if hits > limit then [name @ ''_limit''] else [])\<rparr>) db1
        = Inr (db', report')"
      by (auto simp: and_then_Inr_iff)
    obtain s where "db1 = db\<lparr>tb_buckets := upsert (key name identity) (s, hits) (tb_buckets db)\<rparr>"
      using b by (rule bucket_Inr)
    with 2(2) [OF False rest] show ?thesis
      using length_upsert [of "key name identity" "(s, hits)" "tb_buckets db"]
        distinct_upsert [of "tb_buckets db" "key name identity" "(s, hits)"] by auto
  qed
qed simp

lemma ticket_frame:
  "ticket s fresh sender rcp now db = Inr (db', x) \<Longrightarrow>
   tb_operations db' = tb_operations db \<and> tb_cache_bytes db' = tb_cache_bytes db \<and> tb_buckets db' = tb_buckets db"
  by (auto simp: ticket_def Let_def and_then_Inr_iff split: if_splits list.splits)

definition same_results :: "traffic_db \<Rightarrow> traffic_db \<Rightarrow> nat \<Rightarrow> bool" where
  "same_results db db' n \<longleftrightarrow> tb_operations db' = tb_operations db \<and> tb_cache_bytes db' = tb_cache_bytes db
     \<and> length (tb_buckets db') \<le> length (tb_buckets db) + n
     \<and> (distinct (map fst (tb_buckets db)) \<longrightarrow> distinct (map fst (tb_buckets db')))"

lemma check_recipient_frame:
  assumes "check_recipient env cfg s r now rcp db = Inr (db', report)"
  shows "same_results db db' 4"
proof -
  let ?p = "policy_for s cfg rcp"
  from assms obtain db1 report0 where
    a: "apply_limits (te_bucket_key env (tq_policy_hash r) rcp) (tq_authenticated r \<and> tq_sender r \<in> set (tf_trusted_senders ?p))
       (unat (tf_window_seconds ?p)) now (limits_of env r ?p)
       (traffic_report_default\<lparr>trp_status := ''passed'', trp_window_seconds := tf_window_seconds ?p\<rparr>) db = Inr (db1, report0)"
    and t: "db' = db1 \<or> (\<exists>x. ticket (ts_verification s) (te_fresh env rcp) (tq_sender r) rcp now db1 = Inr (db', x))"
    by (auto simp: check_recipient_def Let_def and_then_Inr_iff split: if_splits)
  have "same_results db db1 4"
    using apply_limits_frame [OF a] by (simp add: same_results_def limits_of_def)
  with t show ?thesis by (auto simp: same_results_def dest: ticket_frame)
qed

lemma check_recipients_frame:
  "check_recipients env cfg s r now rs reports db = Inr (db', reports') \<Longrightarrow> same_results db db' (4 * length rs)"
proof (induction rs arbitrary: reports db)
  case (Cons rcp rs)
  show ?case
  proof (cases "rcp \<in> fst ` set reports")
    case True
    with Cons.prems have "same_results db db' (4 * length rs)" by (intro Cons.IH) simp
    then show ?thesis by (auto simp: same_results_def)
  next
    case False
    with Cons.prems obtain db1 report where c: "check_recipient env cfg s r now rcp db = Inr (db1, report)"
      and rest: "check_recipients env cfg s r now rs (reports @ [(rcp, report)]) db1 = Inr (db', reports')"
      by (auto simp: and_then_Inr_iff)
    from check_recipient_frame [OF c] Cons.IH [OF rest] show ?thesis by (auto simp: same_results_def)
  qed
qed (simp add: same_results_def)

text \<open>The outcomes of a check: nothing configured, a retry, or a fresh check.\<close>

lemma traffic_check_cases:
  assumes "traffic_check env cfg r now db = Inr (db', reports)"
  obtains (off) "traffic_settings_of cfg = None" "db' = db" "reports = []"
  | (retry) s created where "traffic_settings_of cfg = Some s" "map_of (tb_operations db) (tq_id r) = Some (created, reports)"
      "db' = db"
  | (fresh) s db1 db2 where "traffic_settings_of cfg = Some s" "map_of (tb_operations db) (tq_id r) = None"
      "db1 = expire_traffic env 512 now db" "check_recipients env cfg s r now (tq_recipients r) [] db1 = Inr (db2, reports)"
      "length (tb_buckets db1) + length (tb_operations db1) + (length (tq_recipients r) * 4 + 1) \<le> 100000"
      "tb_cache_bytes db2 + int (te_encoded_len env reports) \<le> 16777216"
      "db' = db2\<lparr>tb_operations := tb_operations db2 @ [(tq_id r, now, reports)],
         tb_cache_bytes := tb_cache_bytes db2 + int (te_encoded_len env reports)\<rparr>"
  using assms unfolding traffic_check_def
  by (auto simp: and_then_Inr_iff Let_def split: option.splits)

lemma traffic_check_valid:
  "traffic_check env cfg r now db = Inr (db', reports) \<Longrightarrow> request_validate env cfg r = Inr ()"
  by (auto simp: traffic_check_def and_then_Inr_iff)

text \<open>
  a retried check is answered once. When a check of a message has succeeded, repeating it
  with the same transaction (a lost reply, a retried call from a worker) at any later time gives
  the same reports and changes no counter.
\<close>

theorem traffic_retry_deduplicated:
  assumes "traffic_check env cfg r now db = Inr (db', reports)" and "now' \<ge> 0"
  shows "traffic_check env cfg r now' db' = Inr (db', reports)"
  using assms(1)
proof (cases rule: traffic_check_cases)
  case (fresh s db1 db2)
  have "map_of (tb_operations db1) (tq_id r) = None"
    using fresh(2) set_delete_limit [of 512 _ "tb_operations db"]
    unfolding fresh(3) expire_traffic_def by (auto simp: Let_def map_of_eq_None_iff)
  moreover have "tb_operations db2 = tb_operations db1"
    using check_recipients_frame [OF fresh(4)] by (simp add: same_results_def)
  ultimately show ?thesis
    using traffic_check_valid [OF assms(1)] assms(2) fresh(1,7)
    by (simp add: traffic_check_def ensure_def map_add_def)
qed (use traffic_check_valid [OF assms(1)] assms(2) in \<open>simp_all add: traffic_check_def ensure_def\<close>)


definition traffic_sample_policy :: traffic_policy where
  "traffic_sample_policy = \<lparr>tf_action = Tr_Defer, tf_window_seconds = 300, tf_sender_limit = 1, tf_domain_limit = 0,
     tf_recipient_limit = 5, tf_duplicate_limit = 0, tf_verify_new_senders = False, tf_trusted_senders = []\<rparr>"

definition sample_traffic :: traffic_config where
  "sample_traffic = \<lparr>tc_traffic = Some \<lparr>ts_enabled = True, ts_policy = traffic_sample_policy, ts_scopes = [],
       ts_allow_personal = False, ts_verification = \<lparr>vs_enabled = False, vs_public_origin = [], vs_site_key = [],
         vs_captcha_provider = SelfHosted, vs_notification_from = [], vs_relay_hosts = [], vs_lifetime_hours = 24,
         vs_remember_days = 30, vs_invitations_per_day = 100\<rparr>\<rparr>,
     tc_preferences = \<lparr>ps_enabled = False, ps_minimum_threshold = Fin 0, ps_maximum_threshold = Fin 100,
       ps_max_rules = 0, ps_allowed_actions = [], ps_mailboxes = []\<rparr>,
     tc_mode = Enforce, tc_max_recipients = 10,
     tc_domains = [\<lparr>dom_name = ''b.c'', dom_next_hops = [], dom_accept_all_recipients = True, dom_recipients = [], dom_aliases = []\<rparr>],
     tc_turnstile_key = False\<rparr>"

definition sample_message :: "string \<Rightarrow> traffic_request" where
  "sample_message i = \<lparr>tq_id = i, tq_policy_hash = ''h'', tq_peer = V4 (192, 0, 2, 1), tq_sender = [],
     tq_recipients = [''a@b.c''], tq_fingerprint = replicate 64 CHR ''0'', tq_authenticated = False,
     tq_verification_eligible = False\<rparr>"

lemma sample_recipient: "config_recipient (tc_domains sample_traffic) ''a@b.c'' \<noteq> None"
  by code_simp

lemma sample_fingerprint: "list_all is_hexdigit (replicate 64 CHR ''0'')"
  by (simp add: list_all_iff is_hexdigit_def byte_def)

lemma sample_first_check:
  "\<exists>db reports. traffic_check traffic_sample_env sample_traffic (sample_message ''1'') 10 empty_traffic = Inr (db, reports)"
  using sample_recipient
  by (simp add: traffic_check_def request_validate_def ensure_def sample_message_def traffic_sample_env_def sample_fingerprint
      traffic_settings_of_def option_filter_def empty_traffic_def expire_traffic_def Let_def check_recipient_def
      policy_for_def limits_of_def bucket_def bucket_next_def enforce_limits_def sample_traffic_def traffic_sample_policy_def
      traffic_report_default_def)

theorem traffic_retry_deduplicated_witness:
  "\<exists>db reports. traffic_check traffic_sample_env sample_traffic (sample_message ''1'') 10 empty_traffic = Inr (db, reports)
     \<and> traffic_check traffic_sample_env sample_traffic (sample_message ''1'') 400 db = Inr (db, reports)"
  using sample_first_check traffic_retry_deduplicated [of traffic_sample_env sample_traffic "sample_message ''1''" 10 empty_traffic _ _ 400]
  by auto

definition saved_bytes :: "traffic_env \<Rightarrow> (string \<times> int \<times> traffic_reports) list \<Rightarrow> int" where
  "saved_bytes env xs = (\<Sum>(_, _, x) \<leftarrow> xs. int (te_encoded_len env x))"

definition traffic_inv :: "traffic_env \<Rightarrow> traffic_db \<Rightarrow> bool" where
  "traffic_inv env db \<longleftrightarrow> length (tb_buckets db) + length (tb_operations db) \<le> 100000
     \<and> tb_cache_bytes db = saved_bytes env (tb_operations db) \<and> tb_cache_bytes db \<le> 16777216
     \<and> distinct (map fst (tb_buckets db)) \<and> distinct (map fst (tb_operations db))"

lemma expire_fields:
  "tb_operations (expire_traffic env n now db) = delete_limit n (\<lambda>(_, created, _). created < now - 3600) (tb_operations db)"
  "tb_buckets (expire_traffic env n now db) = delete_limit n (\<lambda>(_, started, _). started < now - 3600) (tb_buckets db)"
  "tb_cache_bytes (expire_traffic env n now db) = tb_cache_bytes db
     - (saved_bytes env (tb_operations db) - saved_bytes env (tb_operations (expire_traffic env n now db)))"
  by (simp_all add: expire_traffic_def saved_bytes_def Let_def)

lemma expire_distinct:
  assumes "traffic_inv env db"
  shows "distinct (map fst (tb_buckets (expire_traffic env n now db)))"
    and "distinct (map fst (tb_operations (expire_traffic env n now db)))"
    and "tb_cache_bytes (expire_traffic env n now db) = saved_bytes env (tb_operations (expire_traffic env n now db))"
  using assms by (simp_all add: traffic_inv_def expire_fields distinct_delete_limit)


text \<open>
  the state of the transport controls is bounded. The rows of counters and saved results
  together, and the bytes of the saved results (kept by the triggers of the table, and equal to
  the sum over its rows), stay within their limits after every check, so that a flood of
  senders or transactions is refused rather than stored.
\<close>

theorem traffic_state_bounded:
  assumes "traffic_inv env db" and "traffic_check env cfg r now db = Inr (db', reports)"
  shows "traffic_inv env db'"
  using assms(2)
proof (cases rule: traffic_check_cases)
  case (fresh s db1 db2)
  note f = check_recipients_frame [OF fresh(4), unfolded same_results_def]
  note d = expire_distinct [OF assms(1), of 512 now, folded fresh(3)]
  have "map_of (tb_operations db1) (tq_id r) = None"
    using fresh(2) set_delete_limit [of 512 _ "tb_operations db"]
    unfolding fresh(3) expire_fields by (auto simp: map_of_eq_None_iff)
  then have "distinct (map fst (tb_operations db'))"
    using d(2) f by (simp add: fresh(7) map_of_eq_None_iff)
  moreover have "tb_cache_bytes db' = saved_bytes env (tb_operations db')"
    using d(3) f by (simp add: fresh(7) saved_bytes_def)
  moreover have "length (tb_buckets db') + length (tb_operations db') \<le> 100000"
    using f fresh(5) by (simp add: fresh(7))
  ultimately show ?thesis using f d(1) fresh(6) by (simp add: traffic_inv_def fresh(7))
qed (use assms(1) in simp_all)

theorem traffic_state_bounded_witness:
  "\<exists>db reports. traffic_check traffic_sample_env sample_traffic (sample_message ''1'') 10 empty_traffic = Inr (db, reports)
     \<and> traffic_inv traffic_sample_env db"
proof -
  have "traffic_inv traffic_sample_env empty_traffic"
    by (simp add: traffic_inv_def empty_traffic_def saved_bytes_def)
  then show ?thesis using sample_first_check traffic_state_bounded by blast
qed

text \<open>The counts of a report, each with the limit it was compared to.\<close>

lemma apply_limits_reasons:
  assumes "apply_limits key trusted window now ls report db = Inr (db', report')"
  shows "\<exists>cs. trp_counts report' = trp_counts report @ map (\<lambda>(n, _, c). (n, c)) cs
    \<and> trp_reasons report' = trp_reasons report @ map (\<lambda>(n, _, _). n @ ''_limit'') (filter (\<lambda>(_, l, c). c > l) cs)
    \<and> map (\<lambda>(n, l, _). (n, l)) cs = map (\<lambda>(n, _, l). (n, l)) (filter (\<lambda>(n, _, l). l \<noteq> 0 \<and> \<not> (trusted \<and> n \<noteq> ''recipient'')) ls)
    \<and> trp_enforced report' = trp_enforced report \<and> trp_verification_id report' = trp_verification_id report
    \<and> trp_action report' = trp_action report"
  using assms
proof (induction ls arbitrary: report db)
  case (Cons x ls)
  obtain name identity limit where x: "x = (name, identity, limit)" by (cases x) auto
  show ?case
  proof (cases "limit = 0 \<or> trusted \<and> name \<noteq> ''recipient''")
    case True
    with Cons show ?thesis by (fastforce simp: x)
  next
    case False
    with Cons.prems obtain db1 hits where
      "apply_limits key trusted window now ls
          (report\<lparr>trp_counts := trp_counts report @ [(name, hits)],
                  trp_reasons := trp_reasons report @ (if hits > limit then [name @ ''_limit''] else [])\<rparr>) db1
        = Inr (db', report')"
      by (auto simp: x and_then_Inr_iff)
    from Cons.IH [OF this] obtain cs where cs:
      "trp_counts report' = trp_counts report @ [(name, hits)] @ map (\<lambda>(n, _, c). (n, c)) cs"
      "trp_reasons report' = trp_reasons report @ (if hits > limit then [name @ ''_limit''] else [])
         @ map (\<lambda>(n, _, _). n @ ''_limit'') (filter (\<lambda>(_, l, c). c > l) cs)"
      "map (\<lambda>(n, l, _). (n, l)) cs = map (\<lambda>(n, _, l). (n, l)) (filter (\<lambda>(n, _, l). l \<noteq> 0 \<and> \<not> (trusted \<and> n \<noteq> ''recipient'')) ls)"
      "trp_enforced report' = trp_enforced report" "trp_verification_id report' = trp_verification_id report"
      "trp_action report' = trp_action report"
      by auto
    show ?thesis by (rule exI [of _ "(name, limit, hits) # cs"]) (use cs False x in auto)
  qed
qed simp

definition sender_trusted :: "traffic_policy \<Rightarrow> traffic_request \<Rightarrow> bool" where
  "sender_trusted p r \<longleftrightarrow> tq_authenticated r \<and> tq_sender r \<in> set (tf_trusted_senders p)"

lemma check_recipient_enforced:
  assumes "check_recipient env cfg s r now rcp db = Inr (db', report)" and "trp_enforced report"
  shows "tc_mode cfg \<noteq> Observe \<and>
    ((\<exists>name identity limit hits. (name, identity, limit) \<in> set (limits_of env r (policy_for s cfg rcp)) \<and> limit \<noteq> 0
        \<and> (name, hits) \<in> set (trp_counts report) \<and> hits > limit
        \<and> (sender_trusted (policy_for s cfg rcp) r \<longrightarrow> name = ''recipient''))
      \<and> trp_action report = tf_action (policy_for s cfg rcp) \<and> trp_action report \<noteq> Tr_Observe
     \<or> trp_verification_id report \<noteq> None \<and> tf_verify_new_senders (policy_for s cfg rcp) \<and> tq_verification_eligible r
        \<and> \<not> sender_trusted (policy_for s cfg rcp) r)"
proof -
  let ?p = "policy_for s cfg rcp" and ?t = "sender_trusted (policy_for s cfg rcp) r"
  from assms(1) obtain db1 report0 where
    a: "apply_limits (te_bucket_key env (tq_policy_hash r) rcp) ?t
       (unat (tf_window_seconds ?p)) now (limits_of env r ?p)
       (traffic_report_default\<lparr>trp_status := ''passed'', trp_window_seconds := tf_window_seconds ?p\<rparr>) db = Inr (db1, report0)"
    and t: "report = enforce_limits cfg ?p report0 \<or>
      (\<exists>i. report = (enforce_limits cfg ?p report0)\<lparr>trp_status := ''verification_pending'', trp_verification_id := Some i,
                                     trp_enforced := True\<rparr> \<and> \<not> ?t \<and> tf_verify_new_senders ?p
         \<and> tq_verification_eligible r \<and> tc_mode cfg \<noteq> Observe)"
    by (auto simp: check_recipient_def sender_trusted_def Let_def and_then_Inr_iff split: if_splits option.splits)
  obtain cs where cs: "trp_counts report0 = map (\<lambda>(n, _, c). (n, c)) cs"
    "trp_reasons report0 = map (\<lambda>(n, _, _). n @ ''_limit'') (filter (\<lambda>(_, l, c). c > l) cs)"
    "map (\<lambda>(n, l, _). (n, l)) cs = map (\<lambda>(n, _, l). (n, l))
        (filter (\<lambda>(n, _, l). l \<noteq> 0 \<and> \<not> (?t \<and> n \<noteq> ''recipient'')) (limits_of env r ?p))"
    "\<not> trp_enforced report0"
    using apply_limits_reasons [OF a] by (auto simp: traffic_report_default_def)
  show ?thesis
  proof (cases "report = enforce_limits cfg ?p report0")
    case True
    with assms(2) cs(4) have "trp_reasons report0 \<noteq> []" and m: "tc_mode cfg \<noteq> Observe" "tf_action ?p \<noteq> Tr_Observe"
      by (auto simp: enforce_limits_def split: if_splits)
    then obtain n l c where c: "(n, l, c) \<in> set cs" "c > l" using cs(2) by (auto simp: filter_empty_conv)
    then have "(n, l) \<in> set (map (\<lambda>(n, l, _). (n, l)) cs)" by force
    then obtain i where "(n, i, l) \<in> set (limits_of env r ?p)" "l \<noteq> 0" "\<not> (?t \<and> n \<noteq> ''recipient'')"
      unfolding cs(3) by auto
    moreover have "(n, c) \<in> set (trp_counts report)"
      using c(1) cs(1) True by (force simp: enforce_limits_def)
    moreover have "trp_action report = tf_action ?p"
      using True \<open>trp_reasons report0 \<noteq> []\<close> by (simp add: enforce_limits_def)
    ultimately show ?thesis using c(2) m by metis
  next
    case False
    with t show ?thesis by auto
  qed
qed


lemma check_recipients_reports:
  "check_recipients env cfg s r now rs reports db = Inr (db', reports') \<Longrightarrow> (rcp, x) \<in> set reports' \<Longrightarrow>
   (rcp, x) \<in> set reports \<or> (\<exists>db1 db2. check_recipient env cfg s r now rcp db1 = Inr (db2, x))"
proof (induction rs arbitrary: reports db)
  case (Cons y rs)
  show ?case
  proof (cases "y \<in> fst ` set reports")
    case True
    with Cons show ?thesis by simp
  next
    case False
    with Cons.prems(1) obtain db1 report where c: "check_recipient env cfg s r now y db = Inr (db1, report)"
      and rest: "check_recipients env cfg s r now rs (reports @ [(y, report)]) db1 = Inr (db', reports')"
      by (auto simp: and_then_Inr_iff)
    from Cons.IH [OF rest Cons.prems(2)] c show ?thesis by auto
  qed
qed simp

text \<open>
  a message is held or deferred only for cause. A report of a fresh check is enforced only
  outside observation mode, and only because a configured limit of that recipient's policy was
  exceeded (for a trusted sender, only the recipient's own limit) under a policy that acts, or
  because an eligible sender whom the policy does not trust has to be verified.
\<close>

theorem traffic_enforcement_justified:
  assumes "traffic_check env cfg r now db = Inr (db', reports)" and "map_of (tb_operations db) (tq_id r) = None"
    and "traffic_settings_of cfg = Some s" and "(rcp, x) \<in> set reports" and "trp_enforced x"
  shows "tc_mode cfg \<noteq> Observe \<and>
    ((\<exists>name identity limit hits. (name, identity, limit) \<in> set (limits_of env r (policy_for s cfg rcp)) \<and> limit \<noteq> 0
        \<and> (name, hits) \<in> set (trp_counts x) \<and> hits > limit
        \<and> (sender_trusted (policy_for s cfg rcp) r \<longrightarrow> name = ''recipient''))
      \<and> trp_action x = tf_action (policy_for s cfg rcp) \<and> trp_action x \<noteq> Tr_Observe
     \<or> trp_verification_id x \<noteq> None \<and> tf_verify_new_senders (policy_for s cfg rcp) \<and> tq_verification_eligible r
        \<and> \<not> sender_trusted (policy_for s cfg rcp) r)"
  using assms(1)
proof (cases rule: traffic_check_cases)
  case (fresh s' db1 db2)
  then have "s' = s" using assms(3) by simp
  with check_recipients_reports [OF fresh(4) assms(4)] obtain db3 db4
    where "check_recipient env cfg s r now rcp db3 = Inr (db4, x)" by auto
  then show ?thesis using assms(5) by (rule check_recipient_enforced)
qed (use assms in simp_all)

definition full_buckets :: traffic_db where
  "full_buckets = empty_traffic\<lparr>tb_buckets := [(''senderip:'', 10, 1)]\<rparr>"

lemma sample_limited_check:
  "\<exists>db x. traffic_check traffic_sample_env sample_traffic (sample_message ''1'') 20 full_buckets = Inr (db, [(''a@b.c'', x)])
     \<and> trp_enforced x"
  using sample_recipient
  by (simp add: traffic_check_def request_validate_def ensure_def sample_message_def traffic_sample_env_def sample_fingerprint
      traffic_settings_of_def option_filter_def full_buckets_def empty_traffic_def expire_traffic_def Let_def check_recipient_def
      policy_for_def limits_of_def bucket_def bucket_next_def enforce_limits_def sample_traffic_def traffic_sample_policy_def
      traffic_report_default_def check_authority_def u32_max_def)

theorem traffic_enforcement_justified_witness:
  "\<exists>db x. traffic_check traffic_sample_env sample_traffic (sample_message ''1'') 20 full_buckets = Inr (db, [(''a@b.c'', x)])
     \<and> trp_enforced x \<and> trp_action x = Tr_Defer"
proof -
  obtain db x where c: "traffic_check traffic_sample_env sample_traffic (sample_message ''1'') 20 full_buckets = Inr (db, [(''a@b.c'', x)])"
    "trp_enforced x" using sample_limited_check by blast
  obtain s where s: "traffic_settings_of sample_traffic = Some s" "policy_for s sample_traffic ''a@b.c'' = traffic_sample_policy"
    by (simp add: traffic_settings_of_def option_filter_def sample_traffic_def policy_for_def)
  have "trp_action x = Tr_Defer"
    using traffic_enforcement_justified [OF c(1) _ s(1) _ c(2), of "''a@b.c''"] s(2)
    by (auto simp: full_buckets_def empty_traffic_def traffic_sample_policy_def)
  with c show ?thesis by blast
qed

end
