(* ===== verification/NF_Admission.thy ===== *)
theory NF_Admission
  imports NF_Traffic
begin

text \<open>
  Selective admission of recipients before a message is received (\<open>src/smtp_admission.rs\<close>,
  \<open>src/smtp_admission/runtime.rs\<close>): greylisting as a durable state machine per peer, sender and
  recipient, the token bucket of a peer, exempt networks, and the bounded delay of a refusal.

  The tables are lists of rows; a bounded sweep removes the oldest expired rows first, as the
  queries order them. The salted hash of an address and the text of an IP address are arguments;
  the arithmetic of the token bucket is that of \<open>float_ops\<close>.
\<close>

section \<open>Settings\<close>

datatype admission_mode = Ad_Observe | Ad_Enforce

record admission_settings =
  ad_traffic :: "traffic_settings option"
  ad_greylisting :: bool
  ad_minimum_providers :: nat
  ad_allow_networks :: "string list"
  ad_rate_per_minute :: nat
  ad_rate_burst :: nat
  ad_enabled :: bool
  ad_mode :: admission_mode
  ad_retry_delay_seconds :: nat
  ad_retry_max_age_seconds :: nat
  ad_retention_seconds :: nat
  ad_max_entries :: nat
  ad_tarpit_delay_ms :: nat
  ad_tarpit_max_concurrent :: nat
  ad_tarpit_session_budget_ms :: nat

definition parse_u8 :: "string \<Rightarrow> nat option" where
  "parse_u8 s =
     (let ds = (case s of c # cs \<Rightarrow> if c = CHR ''+'' then cs else s | [] \<Rightarrow> s)
      in if ds = [] then None
         else (case parse_digits 0 ds of None \<Rightarrow> None | Some n \<Rightarrow> if n < 256 then Some n else None))"

fun is_v4 :: "ip_addr \<Rightarrow> bool" where
  "is_v4 (V4 _) = True"
| "is_v4 (V6 _) = False"

definition network :: "(string \<Rightarrow> ipv6 option) \<Rightarrow> string \<Rightarrow> (ip_addr \<times> nat) result" where
  "network v6 s =
     and_then (ensure (length s \<le> 64) ''Invalid admission network'') (\<lambda>_.
     case split_once (CHR ''/'') s of
       None \<Rightarrow> Inl ''Use an explicit IP/CIDR exception''
     | Some (a, p) \<Rightarrow>
        (case parse_ip v6 a of
           None \<Rightarrow> Inl ''invalid IP address syntax''
         | Some ip \<Rightarrow>
            (case parse_u8 p of
               None \<Rightarrow> Inl ''invalid digit found in string''
             | Some n \<Rightarrow>
                 and_then (ensure (n \<le> (if is_v4 ip then 32 else 128)) ''Invalid network prefix'') (\<lambda>_.
                 and_then (ensure (n \<ge> (if is_v4 ip then 8 else 16)) ''Admission exception is too broad'') (\<lambda>_.
                 Inr (ip, n))))))"

definition admission_validate ::
    "(string \<Rightarrow> bool result) \<Rightarrow> (string \<Rightarrow> ipv6 option) \<Rightarrow> admission_settings \<Rightarrow> unit result" where
  "admission_validate origin v6 s =
     and_then (case ad_traffic s of None \<Rightarrow> Inr () | Some t \<Rightarrow> traffic_settings_validate origin t) (\<lambda>_.
     and_then (ensure (2 \<le> ad_minimum_providers s \<and> ad_minimum_providers s \<le> 8)
         ''Admission requires 2..8 independent signals'') (\<lambda>_.
     and_then (ensure (length (ad_allow_networks s) \<le> 128) ''At most 128 admission exceptions'') (\<lambda>_.
     and_then (check_all (\<lambda>n. and_then (network v6 n) (\<lambda>_. Inr ())) (ad_allow_networks s)) (\<lambda>_.
     and_then (ensure (ad_rate_per_minute s \<le> 60000 \<and> 1 \<le> ad_rate_burst s \<and> ad_rate_burst s \<le> 10000)
         ''Invalid SMTP rate limit'') (\<lambda>_.
     and_then (ensure (1 \<le> ad_retry_delay_seconds s \<and> ad_retry_delay_seconds s \<le> 3600)
         ''SMTP admission retry delay must be 1..3600 seconds'') (\<lambda>_.
     and_then (ensure (ad_retry_max_age_seconds s > ad_retry_delay_seconds s \<and> ad_retry_max_age_seconds s \<le> 604800)
         ''SMTP admission retry max age must exceed retry delay and be at most 7 days'') (\<lambda>_.
     and_then (ensure (1 \<le> ad_retention_seconds s \<and> ad_retention_seconds s \<le> 2592000)
         ''SMTP admission retention must be 1 second..30 days'') (\<lambda>_.
     and_then (ensure (1 \<le> ad_max_entries s \<and> ad_max_entries s \<le> 100000)
         ''SMTP admission capacity must be 1..100000 entries per mode'') (\<lambda>_.
     and_then (ensure (ad_tarpit_delay_ms s \<le> 5000)
         ''SMTP admission tarpit delay must be at most 5000 ms'') (\<lambda>_.
     and_then (ensure (1 \<le> ad_tarpit_max_concurrent s \<and> ad_tarpit_max_concurrent s \<le> 64)
         ''SMTP admission tarpit concurrency must be 1..64'') (\<lambda>_.
     ensure (ad_tarpit_session_budget_ms s \<le> 10000)
         ''SMTP admission session delay budget must be at most 10000 ms'')))))))))))"

section \<open>Decisions\<close>

datatype admission_status = As_Disabled | As_Exempt | As_NotSelected | As_RateLimited | As_FirstSeen | As_TooSoon
  | As_RetryPassed | As_Passed | As_Capacity | As_ClockSkew | As_Unavailable

definition ADMISSION_VERSION :: string where "ADMISSION_VERSION = ''smtp-admission-2''"

record admission_decision =
  de_version :: string
  de_reasons :: "string list"
  de_mode :: admission_mode
  de_status :: admission_status
  de_would_defer :: bool
  de_retry_after_seconds :: "nat option"
  de_candidate_delay_ms :: nat
  de_enforced :: bool

definition GREYLIST_REPLY :: string where
  "GREYLIST_REPLY = ''451 4.7.1 Temporary greylisting; please retry later'' @ [CHR 0x0D, CHR 0x0A]"

definition smtp_reply :: "admission_decision \<Rightarrow> string option" where
  "smtp_reply d =
     (if \<not> de_enforced d then None
      else if de_status d = As_RateLimited
      then Some (''451 4.7.1 Sender rate limit; please retry later'' @ [CHR 0x0D, CHR 0x0A])
      else Some GREYLIST_REPLY)"

definition admission_decide ::
    "admission_settings \<Rightarrow> admission_status \<Rightarrow> bool \<Rightarrow> nat option \<Rightarrow> admission_decision" where
  "admission_decide s status would_defer retry =
     \<lparr>de_version = ADMISSION_VERSION, de_reasons = [], de_mode = ad_mode s, de_status = status,
      de_would_defer = would_defer, de_retry_after_seconds = retry,
      de_candidate_delay_ms = (if status \<in> {As_FirstSeen, As_TooSoon, As_RateLimited} then ad_tarpit_delay_ms s else 0),
      de_enforced = (ad_enabled s \<and> ad_mode s = Ad_Enforce \<and> would_defer)\<rparr>"

definition admission_unavailable :: "admission_settings \<Rightarrow> admission_decision" where
  "admission_unavailable s = admission_decide s (if ad_enabled s then As_Unavailable else As_Disabled) False None"

section \<open>State\<close>

record entry =
  en_id :: nat
  en_mode :: admission_mode
  en_peer :: ip_addr
  en_sender_hash :: string
  en_recipient_hash :: string
  en_first_seen :: int
  en_eligible_at :: int
  en_passed_at :: "int option"
  en_expires_at :: int

record admission_db =
  adb_entries :: "entry list"
  adb_rates :: "((admission_mode \<times> string) \<times> f64 \<times> int) list"
  adb_counts :: "((int \<times> admission_mode \<times> admission_status) \<times> nat) list"

definition PRUNE_BATCH :: nat where "PRUNE_BATCH = 256"

definition sweep :: "('a \<Rightarrow> 'k::linorder) \<Rightarrow> ('a \<Rightarrow> bool) \<Rightarrow> 'a list \<Rightarrow> 'a list" where
  "sweep key expired rows =
     (let batch = take PRUNE_BATCH (sort_by (\<lambda>a b. key a \<le> key b) (filter expired rows))
      in filter (\<lambda>x. x \<notin> set batch) rows)"

definition prune_expired :: "int \<Rightarrow> entry list \<Rightarrow> entry list" where
  "prune_expired now rows = sweep (\<lambda>e. (en_expires_at e, en_id e)) (\<lambda>e. en_expires_at e \<le> now) rows"

definition deadline :: "int \<Rightarrow> nat \<Rightarrow> int result" where
  "deadline now seconds =
     and_then (ensure (now \<ge> 0) ''invalid admission clock'') (\<lambda>_.
     and_then (ensure (int seconds \<le> i64_max) ''out of range integral type conversion attempted'') (\<lambda>_.
     and_then (ensure (now + int seconds \<le> i64_max) ''admission clock overflow'') (\<lambda>_.
     Inr (now + int seconds))))"

definition is_ascii_control :: "char \<Rightarrow> bool" where
  "is_ascii_control c \<longleftrightarrow> byte c < 32 \<or> byte c = 127"

definition canonical_address :: "string \<Rightarrow> bool \<Rightarrow> string result" where
  "canonical_address address allow_empty =
     and_then (ensure (length address \<le> 254 \<and> list_all is_ascii_char address \<and> \<not> list_ex is_ascii_control address)
         ''invalid admission envelope identity'') (\<lambda>_.
     if address = [] \<and> allow_empty then Inr []
     else if \<not> allow_empty \<and> eq_ignore_ascii_case address ''postmaster'' then Inr ''postmaster''
     else (case rsplit_once (CHR ''@'') address of
         None \<Rightarrow> Inl ''invalid admission envelope identity''
       | Some (l, d) \<Rightarrow>
           and_then (ensure (l \<noteq> [] \<and> d \<noteq> []) ''invalid admission envelope identity'') (\<lambda>_.
           Inr (l @ ''@'' @ to_ascii_lowercase d))))"

type_synonym triplet = "admission_mode \<times> ip_addr \<times> string \<times> string"

definition entry_key :: "entry \<Rightarrow> triplet" where
  "entry_key e = (en_mode e, en_peer e, en_sender_hash e, en_recipient_hash e)"

definition next_id :: "entry list \<Rightarrow> nat" where
  "next_id rows = 1 + foldr max (map en_id rows) 0"

definition live_rows :: "triplet \<Rightarrow> int \<Rightarrow> entry list \<Rightarrow> entry list" where
  "live_rows key now rows = filter (\<lambda>e. \<not> (entry_key e = key \<and> en_expires_at e \<le> now)) (prune_expired now rows)"

definition pass_row :: "entry \<Rightarrow> int \<Rightarrow> int \<Rightarrow> entry \<Rightarrow> entry" where
  "pass_row e now expiry x = (if en_id x = en_id e then x\<lparr>en_passed_at := Some now, en_expires_at := expiry\<rparr> else x)"

definition new_row :: "entry list \<Rightarrow> triplet \<Rightarrow> int \<Rightarrow> int \<Rightarrow> int \<Rightarrow> entry" where
  "new_row rows key now eligible expiry = (case key of (mode, peer, sender_hash, recipient_hash) \<Rightarrow>
     \<lparr>en_id = next_id rows, en_mode = mode, en_peer = peer, en_sender_hash = sender_hash,
      en_recipient_hash = recipient_hash, en_first_seen = now, en_eligible_at = eligible,
      en_passed_at = None, en_expires_at = expiry\<rparr>)"

text \<open>The transaction of a check once the triplet is known.\<close>

definition greylist ::
    "admission_settings \<Rightarrow> triplet \<Rightarrow> int \<Rightarrow> int \<Rightarrow> int \<Rightarrow> int \<Rightarrow> entry list \<Rightarrow> entry list \<times> admission_decision" where
  "greylist s key now eligible_at pending_expiry passed_expiry rows0 =
     (let rows = live_rows key now rows0
      in case find (\<lambda>e. entry_key e = key) rows of
           Some e \<Rightarrow>
             if now < en_first_seen e \<or> is_some_and (en_passed_at e) (\<lambda>p. now < p)
             then (rows, admission_decide s As_ClockSkew False None)
             else if en_passed_at e \<noteq> None then (rows, admission_decide s As_Passed False None)
             else if now < en_eligible_at e
             then (rows, admission_decide s As_TooSoon True (Some (nat (en_eligible_at e - now))))
             else (map (pass_row e now passed_expiry) rows, admission_decide s As_RetryPassed False None)
         | None \<Rightarrow>
             if length (filter (\<lambda>e. en_mode e = ad_mode s) rows) \<ge> ad_max_entries s
             then (rows, admission_decide s As_Capacity False None)
             else (rows @ [new_row rows key now eligible_at pending_expiry],
                   admission_decide s As_FirstSeen True (Some (ad_retry_delay_seconds s))))"

definition triplet_of ::
    "(string \<Rightarrow> string \<Rightarrow> string) \<Rightarrow> admission_settings \<Rightarrow> ip_addr \<Rightarrow> string \<Rightarrow> string \<Rightarrow> triplet result" where
  "triplet_of hash s peer sender rcp =
     and_then (canonical_address sender True) (\<lambda>se.
     and_then (canonical_address rcp False) (\<lambda>re.
     Inr (ad_mode s, to_canonical peer, hash ''sender'' se, hash ''recipient'' re)))"

definition greylist_check ::
    "(string \<Rightarrow> string \<Rightarrow> string) \<Rightarrow> admission_settings \<Rightarrow> ip_addr \<Rightarrow> string \<Rightarrow> string \<Rightarrow> int \<Rightarrow> admission_db \<Rightarrow>
     (admission_db \<times> admission_decision) result" where
  "greylist_check hash s peer sender rcp now db =
     (if \<not> ad_enabled s then Inr (db, admission_decide s As_Disabled False None)
      else
        and_then (deadline now (ad_retry_delay_seconds s)) (\<lambda>eligible_at.
        and_then (deadline now (ad_retry_max_age_seconds s)) (\<lambda>pending_expiry.
        and_then (deadline now (ad_retention_seconds s)) (\<lambda>passed_expiry.
        and_then (triplet_of hash s peer sender rcp) (\<lambda>key.
        case greylist s key now eligible_at pending_expiry passed_expiry (adb_entries db) of
          (rows, d) \<Rightarrow> Inr (db\<lparr>adb_entries := rows\<rparr>, d))))))"

definition admission_prune :: "int \<Rightarrow> admission_db \<Rightarrow> admission_db result" where
  "admission_prune now db =
     and_then (ensure (now \<ge> 0) ''invalid admission clock'') (\<lambda>_.
     Inr (db\<lparr>adb_entries := prune_expired now (adb_entries db)\<rparr>))"

section \<open>The rate of a peer\<close>

definition f64_min :: "f64 \<Rightarrow> f64 \<Rightarrow> f64" where
  "f64_min x y = (if x = NaN then y else if y = NaN then x else if f64_lt y x then y else x)"

definition retry_peer :: "ip_addr \<Rightarrow> ip_addr" where
  "retry_peer a = (case a of V4 (x, y, z, _) \<Rightarrow> V4 (x, y, z, 0) | V6 w \<Rightarrow> mask64 (V6 w))"

definition rate_peer :: "ip_addr \<Rightarrow> ip_addr" where
  "rate_peer a = (if is_v4 a then a else retry_peer a)"

definition refill :: "float_ops \<Rightarrow> admission_settings \<Rightarrow> f64 \<Rightarrow> int \<Rightarrow> f64" where
  "refill fl s tokens elapsed =
     f64_min (fl_add fl tokens
       (fl_div fl (fl_mul fl (Fin (of_int elapsed)) (Fin (of_nat (ad_rate_per_minute s)))) (Fin 60)))
       (Fin (of_nat (ad_rate_burst s)))"

definition limited ::
    "float_ops \<Rightarrow> (ip_addr \<Rightarrow> string) \<Rightarrow> admission_settings \<Rightarrow> ip_addr \<Rightarrow> int \<Rightarrow> admission_db \<Rightarrow> (admission_db \<times> bool) result" where
  "limited fl show_ip s ip now db =
     and_then (ensure (now \<ge> 0) ''Invalid admission clock'') (\<lambda>_.
     let key = (ad_mode s, show_ip (rate_peer ip));
         rates = sweep (\<lambda>(_, _, updated). updated) (\<lambda>(_, _, updated). updated < now - 86400) (adb_rates db);
         previous = map_of rates key
     in if previous = None \<and> length (filter (\<lambda>((m, _), _). m = ad_mode s) rates) \<ge> ad_max_entries s
        then Inr (db, False)
        else
         (case unwrap_or previous (Fin (of_nat (ad_rate_burst s)), now) of (tokens0, updated) \<Rightarrow>
            if now < updated then Inr (db, False)
            else
             (let tokens = refill fl s tokens0 (now - updated);
                  limit = f64_lt tokens (Fin 1)
              in Inr (db\<lparr>adb_rates := upsert key (if limit then tokens else fl_sub fl tokens (Fin 1), now) rates\<rparr>, limit))))"

section \<open>The decision for a recipient\<close>

record admission_request =
  aq_peer :: ip_addr
  aq_sender :: string
  aq_recipient :: string
  aq_listed_providers :: nat
  aq_invalid_helo :: bool
  aq_charge_rate :: bool

definition admission_request_validate :: "admission_request \<Rightarrow> unit result" where
  "admission_request_validate r =
     and_then (ensure (aq_listed_providers r \<le> 8) ''Invalid reputation count'') (\<lambda>_.
     and_then (ensure (aq_sender r = [] \<or> valid_address (aq_sender r)) ''Invalid sender'') (\<lambda>_.
     ensure (valid_address (aq_recipient r)) ''Invalid recipient''))"

fun v4_bits :: "ipv4 \<Rightarrow> 32 word" where
  "v4_bits (a, b, c, d) = push_bit 24 (ucast a) + push_bit 16 (ucast b) + push_bit 8 (ucast c) + ucast d"

definition matches_network :: "(string \<Rightarrow> ipv6 option) \<Rightarrow> ip_addr \<Rightarrow> string \<Rightarrow> bool" where
  "matches_network v6 ip s =
     (case network v6 s of
        Inl _ \<Rightarrow> False
      | Inr (net, n) \<Rightarrow>
          (case (ip, net) of
             (V4 a, V4 b) \<Rightarrow> drop_bit (32 - n) (v4_bits a) = drop_bit (32 - n) (v4_bits b)
           | (V6 a, V6 b) \<Rightarrow> drop_bit (128 - n) a = drop_bit (128 - n) b
           | _ \<Rightarrow> False))"

definition is_loopback :: "ip_addr \<Rightarrow> bool" where
  "is_loopback a = (case a of V4 (x, _, _, _) \<Rightarrow> x = 127 | V6 w \<Rightarrow> w = 1)"

definition exempt_peer :: "(string \<Rightarrow> ipv6 option) \<Rightarrow> admission_settings \<Rightarrow> ip_addr \<Rightarrow> bool" where
  "exempt_peer v6 s ip \<longleftrightarrow> is_loopback ip \<or> list_ex (matches_network v6 ip) (ad_allow_networks s)"

definition exempt_envelope :: "admission_request \<Rightarrow> bool" where
  "exempt_envelope r \<longleftrightarrow> aq_sender r = []
     \<or> (case split_char (CHR ''@'') (aq_recipient r) of [] \<Rightarrow> False | l # _ \<Rightarrow> eq_ignore_ascii_case l ''postmaster'')"

definition signals :: "admission_request \<Rightarrow> nat" where
  "signals r = aq_listed_providers r + (if aq_invalid_helo r then 1 else 0)"

definition selected_for_greylisting :: "admission_settings \<Rightarrow> admission_request \<Rightarrow> bool" where
  "selected_for_greylisting s r \<longleftrightarrow>
     \<not> (\<not> ad_greylisting s \<or> aq_listed_providers r = 0 \<or> signals r < ad_minimum_providers s)"

text \<open>\<open>i64\<close> division truncates towards zero.\<close>

definition i64_div :: "int \<Rightarrow> int \<Rightarrow> int" where
  "i64_div a b = sgn a * (\<bar>a\<bar> div b)"

definition count_decision :: "admission_settings \<Rightarrow> int \<Rightarrow> admission_decision \<Rightarrow> admission_db \<Rightarrow> admission_db" where
  "count_decision s now d db =
     (let key = (i64_div now 86400, ad_mode s, de_status d)
      in db\<lparr>adb_counts := upsert key (unwrap_or (map_of (adb_counts db) key) 0 + 1) (adb_counts db)\<rparr>)"

text \<open>
  \<open>check\<close> of the runtime. The charge of a rate is committed before the rest of the decision, so
  it stays when a later step fails.
\<close>

definition admission_check ::
    "float_ops \<Rightarrow> (string \<Rightarrow> ipv6 option) \<Rightarrow> (ip_addr \<Rightarrow> string) \<Rightarrow> (string \<Rightarrow> string \<Rightarrow> string) \<Rightarrow> admission_settings \<Rightarrow>
     admission_request \<Rightarrow> int \<Rightarrow> admission_db \<Rightarrow> admission_db \<times> admission_decision result" where
  "admission_check fl v6 show_ip hash s r now db =
     (case admission_request_validate r of
        Inl e \<Rightarrow> (db, Inl e)
      | Inr _ \<Rightarrow>
        if \<not> ad_enabled s then (db, Inr (admission_decide s As_Disabled False None))
        else
         (let ip = to_canonical (aq_peer r);
              finish = (\<lambda>reasons (db', d). let d' = d\<lparr>de_reasons := reasons\<rparr> in (count_decision s now d' db', Inr d'))
          in if exempt_peer v6 s ip then finish [] (db, admission_decide s As_Exempt False None)
             else
              (case (if aq_charge_rate r \<and> ad_rate_per_minute s > 0 then limited fl show_ip s ip now db else Inr (db, False)) of
                 Inl e \<Rightarrow> (db, Inl e)
               | Inr (db1, True) \<Rightarrow>
                   finish [''sender_rate_exceeded''] (db1, admission_decide s As_RateLimited True
                     (Some ((60 + ad_rate_per_minute s - 1) div ad_rate_per_minute s)))
               | Inr (db1, False) \<Rightarrow>
                   if exempt_envelope r
                   then finish [''delivery_notification_or_postmaster''] (db1, admission_decide s As_Exempt False None)
                   else
                    (let reasons = (if aq_listed_providers r > 0 then [''ip_reputation''] else [])
                           @ (if aq_invalid_helo r then [''invalid_helo''] else [])
                     in if \<not> selected_for_greylisting s r
                        then finish reasons (db1, admission_decide s As_NotSelected False None)
                        else (case greylist_check hash s (retry_peer ip) (aq_sender r) (aq_recipient r) now db1 of
                            Inl e \<Rightarrow> (db1, Inl e)
                          | Inr x \<Rightarrow> finish reasons x)))))"

text \<open>
  The scheduled sweep of the runtime: entries, rates a day old and counts of thirty days. An
  error of the first step leaves the database as it was.
\<close>

definition runtime_prune :: "int \<Rightarrow> admission_db \<Rightarrow> admission_db result" where
  "runtime_prune now db =
     and_then (admission_prune now db) (\<lambda>db1.
     Inr (db1\<lparr>adb_rates := sweep (\<lambda>(_, _, updated). updated) (\<lambda>(_, _, updated). updated < now - 86400) (adb_rates db1),
              adb_counts := filter (\<lambda>((day, _, _), _). \<not> day < i64_div now 86400 - 29) (adb_counts db1)\<rparr>))"

text \<open>
  \<open>Runtime::check\<close> on a worker: the reply of the coordinator, \<open>None\<close> when no permit was free or
  the exchange failed or timed out. A policy that only observes here is not upgraded remotely.
\<close>

definition worker_decision :: "admission_settings \<Rightarrow> admission_decision option \<Rightarrow> admission_decision" where
  "worker_decision s reply =
     (if \<not> ad_enabled s then admission_decide s As_Disabled False None
      else case reply of
          None \<Rightarrow> admission_unavailable s
        | Some d \<Rightarrow>
            if de_version d = ADMISSION_VERSION \<and> length (de_reasons d) \<le> 8
            then (if ad_mode s = Ad_Observe then d\<lparr>de_mode := Ad_Observe, de_enforced := False\<rparr> else d)
            else admission_unavailable s)"

section \<open>Delay of a refusal\<close>

datatype delay_outcome = NotNeeded | Dl_Observe | Dl_Busy | BudgetExhausted | Slept nat

text \<open>\<open>charged\<close> is the session's budget so far; the permit is given back when the sleep ends.\<close>

definition admission_delay ::
    "admission_settings \<Rightarrow> admission_decision \<Rightarrow> bool \<Rightarrow> nat \<Rightarrow> delay_outcome \<times> nat" where
  "admission_delay s d permit charged =
     (if \<not> ad_enabled s \<or> de_candidate_delay_ms d = 0 then (NotNeeded, charged)
      else if ad_mode s = Ad_Observe \<or> de_mode d = Ad_Observe then (Dl_Observe, charged)
      else if smtp_reply d = None then (NotNeeded, charged)
      else
       (let ms = min (min (ad_tarpit_delay_ms s) (de_candidate_delay_ms d)) (ad_tarpit_session_budget_ms s - charged)
        in if ms = 0 then (BudgetExhausted, charged)
           else if \<not> permit then (Dl_Busy, charged)
           else (Slept ms, charged + ms)))"


section \<open>Lemmas: the table of entries\<close>

definition entries_wf :: "entry list \<Rightarrow> bool" where
  "entries_wf rows \<longleftrightarrow> distinct (map en_id rows) \<and> distinct (map entry_key rows)"

lemma sweep_subset: "set (sweep key expired rows) \<subseteq> set rows"
  by (auto simp: sweep_def Let_def)

lemma sweep_keeps: "x \<in> set rows \<Longrightarrow> \<not> expired x \<Longrightarrow> x \<in> set (sweep key expired rows)"
  by (auto simp: sweep_def Let_def dest!: in_set_takeD)

lemma prune_keeps: "e \<in> set rows \<Longrightarrow> now < en_expires_at e \<Longrightarrow> e \<in> set (prune_expired now rows)"
  unfolding prune_expired_def by (rule sweep_keeps) auto

lemma prune_filter: "\<exists>P. prune_expired now rows = filter P rows"
  by (auto simp: prune_expired_def sweep_def Let_def)

lemma entries_wf_filter: "entries_wf rows \<Longrightarrow> entries_wf (filter P rows)"
  by (auto simp: entries_wf_def intro: distinct_map_filter)

lemma next_id_fresh: "e \<in> set rows \<Longrightarrow> en_id e < next_id rows"
proof -
  have "e \<in> set rows \<Longrightarrow> en_id e \<le> foldr max (map en_id rows) 0" by (induction rows) auto
  then show "e \<in> set rows \<Longrightarrow> en_id e < next_id rows" by (simp add: next_id_def)
qed

lemma entries_wf_key: "entries_wf rows \<Longrightarrow> a \<in> set rows \<Longrightarrow> b \<in> set rows \<Longrightarrow> entry_key a = entry_key b \<Longrightarrow> a = b"
  by (auto simp: entries_wf_def distinct_map dest: inj_onD)

lemma entries_wf_id: "entries_wf rows \<Longrightarrow> a \<in> set rows \<Longrightarrow> b \<in> set rows \<Longrightarrow> en_id a = en_id b \<Longrightarrow> a = b"
  by (auto simp: entries_wf_def distinct_map dest: inj_onD)

text \<open>What a check finds and leaves: its live rows are a part of the table, and one row may be passed or added.\<close>

lemma live_rows_filter: "\<exists>P. live_rows key now rows = filter P rows"
  unfolding live_rows_def using prune_filter [of now rows] by (metis filter_filter)

lemma live_rows_subset: "set (live_rows key now rows) \<subseteq> set rows"
  using live_rows_filter [of key now rows] by auto

lemma live_rows_keeps: "e \<in> set rows \<Longrightarrow> now < en_expires_at e \<Longrightarrow> e \<in> set (live_rows key now rows)"
  by (simp add: live_rows_def prune_keeps)

lemma live_rows_wf: "entries_wf rows \<Longrightarrow> entries_wf (live_rows key now rows)"
  using live_rows_filter [of key now rows] entries_wf_filter by metis

lemma pass_row_fields [simp]:
  "en_id (pass_row e now expiry x) = en_id x" "entry_key (pass_row e now expiry x) = entry_key x"
  "en_mode (pass_row e now expiry x) = en_mode x" "en_first_seen (pass_row e now expiry x) = en_first_seen x"
  "en_eligible_at (pass_row e now expiry x) = en_eligible_at x"
  by (simp_all add: pass_row_def entry_key_def)

lemma new_row_fields [simp]:
  "en_id (new_row rows key now eligible expiry) = next_id rows" "entry_key (new_row rows key now eligible expiry) = key"
  "en_first_seen (new_row rows key now eligible expiry) = now" "en_eligible_at (new_row rows key now eligible expiry) = eligible"
  "en_passed_at (new_row rows key now eligible expiry) = None" "en_expires_at (new_row rows key now eligible expiry) = expiry"
  "en_mode (new_row rows key now eligible expiry) = fst key"
  by (simp_all add: new_row_def entry_key_def split: prod.splits)

lemma greylist_cases:
  assumes "greylist s key now eligible pending passed rows = (rows', d)"
  obtains (kept) e where "e \<in> set (live_rows key now rows)" "entry_key e = key" "rows' = live_rows key now rows"
      "now < en_first_seen e \<or> is_some_and (en_passed_at e) (\<lambda>p. now < p)" "de_status d = As_ClockSkew"
  | (already) e p where "e \<in> set (live_rows key now rows)" "entry_key e = key" "rows' = live_rows key now rows"
      "en_passed_at e = Some p" "p \<le> now" "de_status d = As_Passed"
  | (early) e where "e \<in> set (live_rows key now rows)" "entry_key e = key" "rows' = live_rows key now rows"
      "now < en_eligible_at e" "en_passed_at e = None" "de_status d = As_TooSoon"
  | (retried) e where "e \<in> set (live_rows key now rows)" "entry_key e = key" "en_first_seen e \<le> now"
      "en_eligible_at e \<le> now" "en_passed_at e = None"
      "rows' = map (pass_row e now passed) (live_rows key now rows)" "de_status d = As_RetryPassed"
  | (full) "key \<notin> entry_key ` set (live_rows key now rows)" "rows' = live_rows key now rows" "de_status d = As_Capacity"
  | (first) "key \<notin> entry_key ` set (live_rows key now rows)"
      "length (filter (\<lambda>e. en_mode e = ad_mode s) (live_rows key now rows)) < ad_max_entries s"
      "rows' = live_rows key now rows @ [new_row (live_rows key now rows) key now eligible pending]"
      "de_status d = As_FirstSeen"
proof (cases "find (\<lambda>e. entry_key e = key) (live_rows key now rows)")
  case None
  then have k: "key \<notin> entry_key ` set (live_rows key now rows)" by (auto simp: find_None_iff)
  show thesis
  proof (cases "length (filter (\<lambda>e. en_mode e = ad_mode s) (live_rows key now rows)) \<ge> ad_max_entries s")
    case True
    then have "rows' = live_rows key now rows" "de_status d = As_Capacity"
      using assms None by (auto simp: greylist_def Let_def admission_decide_def)
    with k show thesis by (rule full)
  next
    case False
    then have "rows' = live_rows key now rows @ [new_row (live_rows key now rows) key now eligible pending]"
      "de_status d = As_FirstSeen"
      using assms None by (auto simp: greylist_def Let_def admission_decide_def)
    with k False show thesis by (intro first) simp_all
  qed
next
  case (Some e)
  then have e: "e \<in> set (live_rows key now rows)" "entry_key e = key" by (auto simp: find_Some_iff)
  consider "now < en_first_seen e \<or> is_some_and (en_passed_at e) (\<lambda>p. now < p)"
    | p where "\<not> (now < en_first_seen e \<or> is_some_and (en_passed_at e) (\<lambda>p. now < p))" "en_passed_at e = Some p"
    | "\<not> now < en_first_seen e" "en_passed_at e = None" "now < en_eligible_at e"
    | "\<not> now < en_first_seen e" "en_passed_at e = None" "\<not> now < en_eligible_at e" by fastforce
  then show thesis
  proof cases
    case 1
    then have "rows' = live_rows key now rows" "de_status d = As_ClockSkew"
      using assms Some by (auto simp: greylist_def Let_def admission_decide_def)
    with e 1 show thesis by (intro kept)
  next
    case 2
    then have "rows' = live_rows key now rows" "de_status d = As_Passed"
      using assms Some by (auto simp: greylist_def Let_def admission_decide_def)
    with e 2 show thesis by (intro already [of e p]) simp_all
  next
    case 3
    then have "rows' = live_rows key now rows" "de_status d = As_TooSoon"
      using assms Some by (auto simp: greylist_def Let_def admission_decide_def)
    with e 3 show thesis by (intro early)
  next
    case 4
    then have "rows' = map (pass_row e now passed) (live_rows key now rows)" "de_status d = As_RetryPassed"
      using assms Some by (auto simp: greylist_def Let_def admission_decide_def)
    with e 4 show thesis by (intro retried [of e]) simp_all
  qed
qed

section \<open>Checks and sweeps over time\<close>

definition request_key :: "(string \<Rightarrow> string \<Rightarrow> string) \<Rightarrow> admission_settings \<Rightarrow> admission_request \<Rightarrow> triplet result" where
  "request_key hash s r = triplet_of hash s (retry_peer (to_canonical (aq_peer r))) (aq_sender r) (aq_recipient r)"

definition empty_admission_db :: admission_db where
  "empty_admission_db = \<lparr>adb_entries = [], adb_rates = [], adb_counts = []\<rparr>"

text \<open>A database and the decisions made so far, the latest first.\<close>

type_synonym admission_history = "(admission_request \<times> int \<times> admission_status) list"

inductive admission_run ::
    "float_ops \<Rightarrow> (string \<Rightarrow> ipv6 option) \<Rightarrow> (ip_addr \<Rightarrow> string) \<Rightarrow> (string \<Rightarrow> string \<Rightarrow> string) \<Rightarrow> admission_settings \<Rightarrow>
     admission_db \<Rightarrow> admission_history \<Rightarrow> bool"
  for fl v6 show_ip hash s where
  start: "admission_run fl v6 show_ip hash s empty_admission_db []"
| check: "admission_run fl v6 show_ip hash s db h \<Longrightarrow> admission_check fl v6 show_ip hash s r now db = (db', Inr d)
    \<Longrightarrow> admission_run fl v6 show_ip hash s db' ((r, now, de_status d) # h)"
| failed: "admission_run fl v6 show_ip hash s db h \<Longrightarrow> admission_check fl v6 show_ip hash s r now db = (db', Inl e)
    \<Longrightarrow> admission_run fl v6 show_ip hash s db' h"
| prune: "admission_run fl v6 show_ip hash s db h \<Longrightarrow> runtime_prune now db = Inr db'
    \<Longrightarrow> admission_run fl v6 show_ip hash s db' h"

lemma deadline_Inr: "deadline now n = Inr t \<Longrightarrow> t = now + int n \<and> 0 \<le> now"
  by (auto simp: deadline_def ensure_def split: if_splits)

lemma greylist_check_cases:
  assumes "greylist_check hash s peer sender rcp now db = Inr (db', d)" "ad_enabled s"
  obtains key rows where "triplet_of hash s peer sender rcp = Inr key"
    "greylist s key now (now + int (ad_retry_delay_seconds s)) (now + int (ad_retry_max_age_seconds s))
       (now + int (ad_retention_seconds s)) (adb_entries db) = (rows, d)"
    "db' = db\<lparr>adb_entries := rows\<rparr>"
proof -
  obtain key where key: "triplet_of hash s peer sender rcp = Inr key"
    "(case greylist s key now (now + int (ad_retry_delay_seconds s)) (now + int (ad_retry_max_age_seconds s))
       (now + int (ad_retention_seconds s)) (adb_entries db) of (rows, d) \<Rightarrow> Inr (db\<lparr>adb_entries := rows\<rparr>, d))
       = (Inr (db', d) :: (admission_db \<times> admission_decision) result)"
    using assms by (fastforce simp: greylist_check_def and_then_Inr_iff dest!: deadline_Inr)
  then show thesis by (cases "greylist s key now (now + int (ad_retry_delay_seconds s)) (now + int (ad_retry_max_age_seconds s))
       (now + int (ad_retention_seconds s)) (adb_entries db)") (auto intro: that)
qed

lemma limited_entries: "limited fl show_ip s ip now db = Inr (db', l) \<Longrightarrow> adb_entries db' = adb_entries db"
  by (auto simp: limited_def Let_def ensure_def split: if_splits prod.splits)

lemma count_decision_entries [simp]:
  "adb_entries (count_decision s now d db) = adb_entries db" "adb_rates (count_decision s now d db) = adb_rates db"
  by (simp_all add: count_decision_def Let_def)

text \<open>A check of a recipient either leaves the entries alone or runs the transaction for its triplet.\<close>

lemma admission_check_cases:
  assumes "admission_check fl v6 show_ip hash s r now db = (db', res)"
  obtains (untouched) "adb_entries db' = adb_entries db"
      "\<And>d. res = Inr d \<Longrightarrow> de_status d \<in> {As_Disabled, As_Exempt, As_NotSelected, As_RateLimited}"
  | (transaction) key d0 reasons where "request_key hash s r = Inr key"
      "greylist s key now (now + int (ad_retry_delay_seconds s)) (now + int (ad_retry_max_age_seconds s))
         (now + int (ad_retention_seconds s)) (adb_entries db) = (adb_entries db', d0)"
      "res = Inr (d0\<lparr>de_reasons := reasons\<rparr>)"
proof (cases "is_ok (admission_request_validate r) \<and> ad_enabled s \<and> \<not> exempt_peer v6 s (to_canonical (aq_peer r))")
  case False
  with assms show thesis
    by (intro untouched)
      (auto simp: admission_check_def Let_def admission_decide_def split: sum.splits if_splits)
next
  case True
  define charge where "charge = (if aq_charge_rate r \<and> ad_rate_per_minute s > 0
      then limited fl show_ip s (to_canonical (aq_peer r)) now db else Inr (db, False))"
  obtain u where v: "admission_request_validate r = Inr u" using True by (auto simp: is_ok_iff)
  note unfolded = assms [unfolded admission_check_def Let_def v, simplified True, folded charge_def, simplified]
  show thesis
  proof (cases charge)
    case (Inl e)
    with unfolded show thesis by (intro untouched) (auto)
  next
    case (Inr x)
    obtain db1 l where x: "x = (db1, l)" by fastforce
    have db1: "adb_entries db1 = adb_entries db"
      using Inr x by (auto simp: charge_def dest: limited_entries split: if_splits)
    show thesis
    proof (cases "l \<or> exempt_envelope r \<or> \<not> selected_for_greylisting s r")
      case True
      with unfolded Inr x db1 show thesis
        by (intro untouched) (auto simp: admission_decide_def split: if_splits bool.splits)
    next
      case False
      show thesis
      proof (cases "greylist_check hash s (retry_peer (to_canonical (aq_peer r))) (aq_sender r) (aq_recipient r) now db1")
        case (Inl e)
        with False unfolded Inr x db1 show thesis by (intro untouched) (auto)
      next
        case g: (Inr y)
        obtain db2 d0 where y: "y = (db2, d0)" by fastforce
        from g [unfolded y] True obtain key rows where k: "triplet_of hash s (retry_peer (to_canonical (aq_peer r))) (aq_sender r) (aq_recipient r) = Inr key"
          "greylist s key now (now + int (ad_retry_delay_seconds s)) (now + int (ad_retry_max_age_seconds s))
             (now + int (ad_retention_seconds s)) (adb_entries db1) = (rows, d0)" "db2 = db1\<lparr>adb_entries := rows\<rparr>"
          by (elim greylist_check_cases) auto
        obtain reasons where "res = Inr (d0\<lparr>de_reasons := reasons\<rparr>)" "adb_entries db' = rows"
          using False unfolded Inr x y g k by auto
        with k db1 show thesis by (intro transaction [of key d0 reasons]) (auto simp: request_key_def)
      qed
    qed
  qed
qed

section \<open>A triplet waits before it passes\<close>

definition entry_ok :: "(string \<Rightarrow> string \<Rightarrow> string) \<Rightarrow> admission_settings \<Rightarrow> admission_history \<Rightarrow> entry \<Rightarrow> bool" where
  "entry_ok hash s h e \<longleftrightarrow>
     en_eligible_at e = en_first_seen e + int (ad_retry_delay_seconds s)
     \<and> (\<exists>r. (r, en_first_seen e, As_FirstSeen) \<in> set h \<and> request_key hash s r = Inr (entry_key e))
     \<and> (case en_passed_at e of None \<Rightarrow> en_expires_at e = en_first_seen e + int (ad_retry_max_age_seconds s)
          | Some p \<Rightarrow> en_eligible_at e \<le> p)"

definition admission_inv ::
    "(string \<Rightarrow> string \<Rightarrow> string) \<Rightarrow> admission_settings \<Rightarrow> admission_db \<Rightarrow> admission_history \<Rightarrow> bool" where
  "admission_inv hash s db h \<longleftrightarrow> entries_wf (adb_entries db) \<and> (\<forall>e \<in> set (adb_entries db). entry_ok hash s h e)
     \<and> length (filter (\<lambda>e. en_mode e = ad_mode s) (adb_entries db)) \<le> ad_max_entries s"

lemma entry_ok_mono: "entry_ok hash s h e \<Longrightarrow> set h \<subseteq> set h' \<Longrightarrow> entry_ok hash s h' e"
  unfolding entry_ok_def by blast

lemma length_filter_filter: "length (filter Q (filter P xs)) \<le> length (filter Q xs)"
  by (induction xs) auto

lemma admission_inv_filter:
  assumes "admission_inv hash s db h" "adb_entries db' = filter P (adb_entries db)" "set h \<subseteq> set h'"
  shows "admission_inv hash s db' h'"
  using assms length_filter_filter [of "\<lambda>e. en_mode e = ad_mode s" P "adb_entries db"]
  by (auto simp: admission_inv_def entries_wf_filter intro: entry_ok_mono)

lemma entries_wf_map_pass: "entries_wf rows \<Longrightarrow> entries_wf (map (pass_row e now expiry) rows)"
  by (simp add: entries_wf_def o_def)

lemma entries_wf_add: "entries_wf rows \<Longrightarrow> key \<notin> entry_key ` set rows \<Longrightarrow> entries_wf (rows @ [new_row rows key now eligible expiry])"
  using next_id_fresh [of _ rows] by (fastforce simp: entries_wf_def)

lemma triplet_of_mode: "triplet_of hash s peer sender rcp = Inr key \<Longrightarrow> fst key = ad_mode s"
  by (auto simp: triplet_of_def and_then_Inr_iff)

text \<open>The transaction keeps the invariant, with its decision added to the history.\<close>

lemma greylist_inv:
  assumes inv: "admission_inv hash s db h" and key: "request_key hash s r = Inr key"
    and g: "greylist s key now (now + int (ad_retry_delay_seconds s)) (now + int (ad_retry_max_age_seconds s))
       (now + int (ad_retention_seconds s)) (adb_entries db) = (adb_entries db', d)"
  shows "admission_inv hash s db' ((r, now, de_status d) # h)"
proof -
  let ?live = "live_rows key now (adb_entries db)" and ?h = "(r, now, de_status d) # h"
  obtain P where P: "?live = filter P (adb_entries db)" using live_rows_filter by blast
  have live: "admission_inv hash s (db\<lparr>adb_entries := ?live\<rparr>) ?h"
    using inv P by (auto intro: admission_inv_filter)
  then have wf: "entries_wf ?live" and ok: "\<And>e. e \<in> set ?live \<Longrightarrow> entry_ok hash s ?h e"
    and len: "length (filter (\<lambda>e. en_mode e = ad_mode s) ?live) \<le> ad_max_entries s"
    by (auto simp: admission_inv_def)
  from g show ?thesis
  proof (cases rule: greylist_cases)
    case (retried e)
    have "entry_ok hash s ?h (pass_row e now (now + int (ad_retention_seconds s)) x)" if "x \<in> set ?live" for x
    proof (cases "en_id x = en_id e")
      case True
      then have "x = e" using wf that retried(1) by (blast intro: entries_wf_id)
      with ok [OF that] retried show ?thesis by (auto simp: entry_ok_def pass_row_def entry_key_def)
    next
      case False
      with ok [OF that] show ?thesis by (simp add: pass_row_def)
    qed
    moreover have "filter (\<lambda>e. en_mode e = ad_mode s) (map (pass_row e now (now + int (ad_retention_seconds s))) ?live)
        = map (pass_row e now (now + int (ad_retention_seconds s))) (filter (\<lambda>e. en_mode e = ad_mode s) ?live)"
      by (simp add: filter_map o_def)
    ultimately show ?thesis using wf len retried(6) by (auto simp: admission_inv_def entries_wf_map_pass)
  next
    case first
    have "entry_ok hash s ?h (new_row ?live key now (now + int (ad_retry_delay_seconds s)) (now + int (ad_retry_max_age_seconds s)))"
      using key first(4) by (auto simp: entry_ok_def)
    with wf ok first(1-3) show ?thesis by (auto simp: admission_inv_def entries_wf_add)
  qed (use live in \<open>auto simp: admission_inv_def\<close>)
qed

lemma admission_check_inv:
  assumes "admission_inv hash s db h" "admission_check fl v6 show_ip hash s r now db = (db', res)"
  shows "admission_inv hash s db' (case res of Inr d \<Rightarrow> (r, now, de_status d) # h | Inl e \<Rightarrow> h)"
  using assms(2)
proof (cases rule: admission_check_cases)
  case untouched
  then have "adb_entries db' = filter (\<lambda>_. True) (adb_entries db)" by simp
  then show ?thesis by (rule admission_inv_filter [OF assms(1)]) (auto split: sum.splits)
next
  case (transaction key d0 reasons)
  then show ?thesis using greylist_inv [OF assms(1) transaction(1,2)] by simp
qed

lemma admission_run_inv: "admission_run fl v6 show_ip hash s db h \<Longrightarrow> admission_inv hash s db h"
proof (induction rule: admission_run.induct)
  case start
  show ?case by (simp add: admission_inv_def empty_admission_db_def entries_wf_def)
next
  case (check db h r now db' d)
  then show ?case using admission_check_inv [OF check.IH check.hyps(2)] by simp
next
  case (failed db h r now db' e)
  then show ?case using admission_check_inv [OF failed.IH failed.hyps(2)] by simp
next
  case (prune db h now db')
  obtain P where "prune_expired now (adb_entries db) = filter P (adb_entries db)" using prune_filter by blast
  with prune show ?case
    by (auto simp: runtime_prune_def admission_prune_def and_then_Inr_iff intro!: admission_inv_filter [OF prune.IH])
qed

text \<open>
  C26: greylisting makes a sender wait. In every run of checks and sweeps that starts from an empty
  table, whatever the clock does, a check that lets a triplet of peer network, sender and
  recipient pass was preceded by a check that saw the same triplet first, at least the retry
  delay earlier; a retry that is the first to pass also came before the maximal age.
\<close>

theorem greylisted_triplet_waits:
  assumes "admission_run fl v6 show_ip hash s db h"
    and "admission_check fl v6 show_ip hash s r now db = (db', Inr d)"
    and "de_status d = As_RetryPassed \<or> de_status d = As_Passed"
  shows "\<exists>r0 t0. (r0, t0, As_FirstSeen) \<in> set h \<and> request_key hash s r0 = request_key hash s r
    \<and> t0 + int (ad_retry_delay_seconds s) \<le> now
    \<and> (de_status d = As_RetryPassed \<longrightarrow> now < t0 + int (ad_retry_max_age_seconds s))"
  using assms(2)
proof (cases rule: admission_check_cases)
  case untouched
  with assms(3) show ?thesis by auto
next
  case (transaction key d0 reasons)
  let ?live = "live_rows key now (adb_entries db)"
  have live: "entry_ok hash s h e \<and> now < en_expires_at e" if "e \<in> set ?live" "entry_key e = key" for e
    using admission_run_inv [OF assms(1)] that live_rows_subset [of key now "adb_entries db"]
    by (auto simp: admission_inv_def live_rows_def)
  from transaction(2) show ?thesis
  proof (cases rule: greylist_cases)
    case (already e p)
    with live [of e] transaction(1) have "entry_ok hash s h e" "p \<le> now" by auto
    with already transaction assms(3) show ?thesis by (fastforce simp: entry_ok_def)
  next
    case (retried e)
    with live [of e] transaction(1,3) show ?thesis by (fastforce simp: entry_ok_def)
  qed (use transaction(3) assms(3) in auto)
qed

text \<open>
  the durable state of admission stays bounded: after any run the entries of the configured
  mode number at most the configured capacity, no triplet has two entries and no two entries
  share their identifier.
\<close>

theorem admission_entries_bounded:
  assumes "admission_run fl v6 show_ip hash s db h"
  shows "length (filter (\<lambda>e. en_mode e = ad_mode s) (adb_entries db)) \<le> ad_max_entries s
    \<and> distinct (map entry_key (adb_entries db)) \<and> distinct (map en_id (adb_entries db))"
  using admission_run_inv [OF assms] by (simp add: admission_inv_def entries_wf_def)

lemma greylist_enforced:
  assumes "greylist s key now eligible pending passed rows = (rows', d)" "de_enforced d"
  shows "(de_status d = As_FirstSeen \<or> de_status d = As_TooSoon) \<and> ad_enabled s \<and> ad_mode s = Ad_Enforce"
  using assms by (auto simp: greylist_def Let_def admission_decide_def split: option.splits if_splits)

lemma greylist_check_enforced:
  assumes "greylist_check hash s peer sender rcp now db = Inr (db', d)" "de_enforced d"
  shows "(de_status d = As_FirstSeen \<or> de_status d = As_TooSoon) \<and> ad_enabled s \<and> ad_mode s = Ad_Enforce"
proof (cases "ad_enabled s")
  case True
  with assms show ?thesis by (auto elim!: greylist_check_cases dest: greylist_enforced)
next
  case False
  with assms show ?thesis by (auto simp: greylist_check_def admission_decide_def)
qed

text \<open>
  a recipient is deferred only for a stated reason. A check answers with a temporary refusal
  only when admission is enabled and enforced, the peer is in no exempt network, and either the
  rate of the peer was charged and exceeded, or greylisting selected the request by at least one
  listing provider and enough independent signals and the triplet has not passed; notifications
  and mail to postmaster are never greylisted.
\<close>

theorem admission_defers_only_for_cause:
  assumes "admission_check fl v6 show_ip hash s r now db = (db', Inr d)" and "smtp_reply d = Some text"
  shows "ad_enabled s \<and> ad_mode s = Ad_Enforce \<and> \<not> exempt_peer v6 s (to_canonical (aq_peer r))
    \<and> (de_status d = As_RateLimited \<and> aq_charge_rate r \<and> ad_rate_per_minute s > 0
       \<or> (de_status d = As_FirstSeen \<or> de_status d = As_TooSoon) \<and> ad_greylisting s \<and> aq_sender r \<noteq> []
         \<and> aq_listed_providers r > 0 \<and> ad_minimum_providers s \<le> signals r)"
proof -
  have e: "de_enforced d" using assms(2) by (simp add: smtp_reply_def split: if_splits)
  obtain u where v: "admission_request_validate r = Inr u"
    using assms(1) by (auto simp: admission_check_def split: sum.splits)
  have en: "ad_enabled s" using assms(1) e v by (auto simp: admission_check_def admission_decide_def split: if_splits)
  have ex: "\<not> exempt_peer v6 s (to_canonical (aq_peer r))"
    using assms(1) e v by (auto simp: admission_check_def admission_decide_def Let_def split: if_splits)
  obtain db1 l where c: "(if aq_charge_rate r \<and> ad_rate_per_minute s > 0
      then limited fl show_ip s (to_canonical (aq_peer r)) now db else Inr (db, False)) = Inr (db1, l)"
    using assms(1) v en ex by (auto simp: admission_check_def Let_def split: sum.splits if_splits)
  show ?thesis
  proof (cases l)
    case True
    with assms(1) e v en ex c show ?thesis
      by (auto simp: admission_check_def Let_def admission_decide_def split: if_splits)
  next
    case False
    then have "\<not> exempt_envelope r \<and> selected_for_greylisting s r
        \<and> (\<exists>db2 d0 reasons. greylist_check hash s (retry_peer (to_canonical (aq_peer r))) (aq_sender r) (aq_recipient r) now db1
             = Inr (db2, d0) \<and> d = d0\<lparr>de_reasons := reasons\<rparr>)"
      using assms(1) e v en ex c
      by (fastforce simp: admission_check_def Let_def admission_decide_def split: if_splits sum.splits)
    then show ?thesis using e en ex
      by (auto simp: exempt_envelope_def selected_for_greylisting_def dest!: greylist_check_enforced)
  qed
qed

section \<open>A retry in time is admitted\<close>

text \<open>
  What may happen between the first attempt of a triplet at \<open>t0\<close> and its retry: checks of other
  triplets, attempts of this one before it is eligible, and sweeps, all before the entry expires.
\<close>

inductive meanwhile ::
    "float_ops \<Rightarrow> (string \<Rightarrow> ipv6 option) \<Rightarrow> (ip_addr \<Rightarrow> string) \<Rightarrow> (string \<Rightarrow> string \<Rightarrow> string) \<Rightarrow> admission_settings \<Rightarrow>
     triplet \<Rightarrow> int \<Rightarrow> admission_db \<Rightarrow> admission_db \<Rightarrow> bool"
  for fl v6 show_ip hash s key t0 db0 where
  none: "meanwhile fl v6 show_ip hash s key t0 db0 db0"
| check: "meanwhile fl v6 show_ip hash s key t0 db0 db \<Longrightarrow> admission_check fl v6 show_ip hash s r now db = (db', res)
    \<Longrightarrow> now < t0 + int (ad_retry_max_age_seconds s)
    \<Longrightarrow> request_key hash s r = Inr key \<longrightarrow> now < t0 + int (ad_retry_delay_seconds s)
    \<Longrightarrow> meanwhile fl v6 show_ip hash s key t0 db0 db'"
| prune: "meanwhile fl v6 show_ip hash s key t0 db0 db \<Longrightarrow> runtime_prune now db = Inr db'
    \<Longrightarrow> now < t0 + int (ad_retry_max_age_seconds s)
    \<Longrightarrow> meanwhile fl v6 show_ip hash s key t0 db0 db'"

definition pending_entry :: "admission_settings \<Rightarrow> triplet \<Rightarrow> int \<Rightarrow> entry \<Rightarrow> bool" where
  "pending_entry s key t0 e \<longleftrightarrow> entry_key e = key \<and> en_first_seen e = t0 \<and> en_passed_at e = None
     \<and> en_eligible_at e = t0 + int (ad_retry_delay_seconds s) \<and> en_expires_at e = t0 + int (ad_retry_max_age_seconds s)"

definition pending_in :: "admission_settings \<Rightarrow> triplet \<Rightarrow> int \<Rightarrow> admission_db \<Rightarrow> bool" where
  "pending_in s key t0 db \<longleftrightarrow> (\<exists>e \<in> set (adb_entries db). pending_entry s key t0 e)"

lemma greylist_first_pending:
  assumes "greylist s key now (now + int (ad_retry_delay_seconds s)) (now + int (ad_retry_max_age_seconds s)) passed rows
      = (adb_entries db, d)" "de_status d = As_FirstSeen"
  shows "pending_in s key now db"
  using assms(1)
proof (cases rule: greylist_cases)
  case first
  then show ?thesis by (simp add: pending_in_def pending_entry_def)
qed (use assms(2) in auto)

lemma greylist_keeps_pending:
  assumes "pending_in s key t0 db" "entries_wf (adb_entries db)" "now < t0 + int (ad_retry_max_age_seconds s)"
    and "key' = key \<longrightarrow> now < t0 + int (ad_retry_delay_seconds s)"
    and "greylist s key' now eligible pending passed (adb_entries db) = (adb_entries db', d)"
  shows "pending_in s key t0 db'"
proof -
  let ?live = "live_rows key' now (adb_entries db)"
  obtain e where e: "e \<in> set (adb_entries db)" "pending_entry s key t0 e" using assms(1) by (auto simp: pending_in_def)
  then have live: "e \<in> set ?live" using assms(3) by (intro live_rows_keeps) (auto simp: pending_entry_def)
  from assms(5) show ?thesis
  proof (cases rule: greylist_cases)
    case (retried x)
    have "x \<noteq> e" using retried assms(4) e(2) by (auto simp: pending_entry_def)
    then have "en_id e \<noteq> en_id x" using live_rows_wf [OF assms(2)] live retried(1) entries_wf_id by blast
    then have "pass_row x now passed e = e" by (simp add: pass_row_def)
    with live e(2) retried(6) show ?thesis unfolding pending_in_def by (force intro: rev_image_eqI)
  qed (use live e(2) in \<open>auto simp: pending_in_def\<close>)
qed

lemma meanwhile_run:
  assumes "meanwhile fl v6 show_ip hash s key t0 db0 db" "admission_run fl v6 show_ip hash s db0 h"
  shows "\<exists>h'. admission_run fl v6 show_ip hash s db h'"
  using assms
proof (induction rule: meanwhile.induct)
  case (check db r now db' res)
  then show ?case by (cases res) (auto intro: admission_run.check admission_run.failed)
qed (auto intro: admission_run.prune)

lemma meanwhile_pending:
  assumes "meanwhile fl v6 show_ip hash s key t0 db0 db" "admission_run fl v6 show_ip hash s db0 h" "pending_in s key t0 db0"
  shows "pending_in s key t0 db"
  using assms
proof (induction rule: meanwhile.induct)
  case (check db r now db' res)
  obtain h' where "admission_run fl v6 show_ip hash s db h'" using meanwhile_run check.hyps(1) check.prems(1) by blast
  then have wf: "entries_wf (adb_entries db)" by (auto dest: admission_run_inv simp: admission_inv_def)
  from check.hyps(2) show ?case
  proof (cases rule: admission_check_cases)
    case untouched
    with check show ?thesis by (simp add: pending_in_def)
  next
    case (transaction key' d0 reasons)
    then show ?thesis
      using greylist_keeps_pending [OF check.IH [OF check.prems] wf check.hyps(3) _ transaction(2)] check.hyps(4) by auto
  qed
next
  case (prune db now db')
  then obtain e where "e \<in> set (adb_entries db)" "pending_entry s key t0 e" by (auto simp: pending_in_def)
  moreover from this prune.hyps(3) have "e \<in> set (prune_expired now (adb_entries db))"
    by (intro prune_keeps) (simp_all add: pending_entry_def)
  ultimately show ?case using prune.hyps(2) by (auto simp: pending_in_def runtime_prune_def admission_prune_def and_then_Inr_iff)
qed

lemma greylist_retry:
  assumes "pending_in s key t0 db" "entries_wf (adb_entries db)"
    "t0 + int (ad_retry_delay_seconds s) \<le> now" "now < t0 + int (ad_retry_max_age_seconds s)"
    "greylist s key now eligible pending passed (adb_entries db) = (rows, d)"
  shows "de_status d = As_RetryPassed \<and> \<not> de_enforced d"
proof -
  let ?live = "live_rows key now (adb_entries db)"
  obtain e where e: "e \<in> set (adb_entries db)" "pending_entry s key t0 e" using assms(1) by (auto simp: pending_in_def)
  then have live: "e \<in> set ?live" using assms(4) by (intro live_rows_keeps) (auto simp: pending_entry_def)
  have uniq: "x = e" if "x \<in> set ?live" "entry_key x = key" for x
    using entries_wf_key [OF live_rows_wf [OF assms(2)] that(1) live] that(2) e(2) by (simp add: pending_entry_def)
  have "de_status d = As_RetryPassed" using assms(5)
    by (cases rule: greylist_cases) (use uniq e(2) live assms(3) in \<open>auto simp: pending_entry_def\<close>)
  then show ?thesis using greylist_enforced [OF assms(5)] by auto
qed

lemma greylist_check_runs:
  assumes "ad_enabled s" "triplet_of hash s peer sender rcp = Inr key" "0 \<le> now"
    "now + int (ad_retry_delay_seconds s) \<le> i64_max" "now + int (ad_retry_max_age_seconds s) \<le> i64_max"
    "now + int (ad_retention_seconds s) \<le> i64_max"
  shows "greylist_check hash s peer sender rcp now db =
    (case greylist s key now (now + int (ad_retry_delay_seconds s)) (now + int (ad_retry_max_age_seconds s))
       (now + int (ad_retention_seconds s)) (adb_entries db) of (rows, d) \<Rightarrow> Inr (db\<lparr>adb_entries := rows\<rparr>, d))"
  using assms by (simp add: greylist_check_def deadline_def ensure_def)

text \<open>The delays of a validated configuration are far below the range of the clock.\<close>

lemma admission_validate_delays:
  assumes "admission_validate origin v6 s = Inr u"
  shows "ad_retry_delay_seconds s < ad_retry_max_age_seconds s" "ad_retry_max_age_seconds s \<le> 604800"
    "ad_retention_seconds s \<le> 2592000" "ad_tarpit_delay_ms s \<le> 5000" "ad_tarpit_session_budget_ms s \<le> 10000"
  using assms by (auto simp: admission_validate_def ensure_def split: if_splits)

text \<open>
  C25: greylisting only delays a sender that retries. Once the first attempt of a triplet was
  recorded, neither early attempts, nor checks of other triplets, nor sweeps make the table
  forget it before its maximal age; a valid retry between the delay and that age, with its rate
  already charged, is decided without an error and is not deferred, and when greylisting applies
  to it the decision is that the retry passed.
\<close>

theorem greylisted_retry_admitted:
  assumes "admission_validate origin v6 s = Inr ()" "admission_run fl v6 show_ip hash s db h"
    and "admission_check fl v6 show_ip hash s r0 t0 db = (db0, Inr d0)" "de_status d0 = As_FirstSeen"
    and "request_key hash s r0 = Inr key" "meanwhile fl v6 show_ip hash s key t0 db0 db1"
    and "request_key hash s r = Inr key" "admission_request_validate r = Inr ()" "\<not> aq_charge_rate r"
    and "0 \<le> t0" "t0 + int (ad_retry_delay_seconds s) \<le> now" "now < t0 + int (ad_retry_max_age_seconds s)"
    and "now \<le> i64_max - 2592000"
  shows "\<exists>db' d. admission_check fl v6 show_ip hash s r now db1 = (db', Inr d) \<and> smtp_reply d = None
    \<and> (\<not> exempt_peer v6 s (to_canonical (aq_peer r)) \<and> \<not> exempt_envelope r \<and> selected_for_greylisting s r
         \<longrightarrow> de_status d = As_RetryPassed)"
proof -
  have run: "admission_run fl v6 show_ip hash s db0 ((r0, t0, As_FirstSeen) # h)"
    using admission_run.check [OF assms(2,3)] assms(4) by simp
  have en: "ad_enabled s"
    using assms(3,4) by (auto simp: admission_check_def admission_decide_def split: sum.splits if_splits)
  have "pending_in s key t0 db0" using assms(3)
  proof (cases rule: admission_check_cases)
    case untouched
    with assms(4) show ?thesis by auto
  next
    case (transaction key' d0' reasons)
    with assms(4,5) show ?thesis by (auto intro: greylist_first_pending)
  qed
  then have pending: "pending_in s key t0 db1" by (rule meanwhile_pending [OF assms(6) run])
  obtain h' where "admission_run fl v6 show_ip hash s db1 h'" using meanwhile_run [OF assms(6) run] by blast
  then have wf: "entries_wf (adb_entries db1)" by (auto dest: admission_run_inv simp: admission_inv_def)
  obtain rows d where g: "greylist s key now (now + int (ad_retry_delay_seconds s)) (now + int (ad_retry_max_age_seconds s))
       (now + int (ad_retention_seconds s)) (adb_entries db1) = (rows, d)" by fastforce
  have d: "de_status d = As_RetryPassed" "\<not> de_enforced d"
    using greylist_retry [OF pending wf assms(11,12) g] by auto
  have "greylist_check hash s (retry_peer (to_canonical (aq_peer r))) (aq_sender r) (aq_recipient r) now db1
      = Inr (db1\<lparr>adb_entries := rows\<rparr>, d)"
    using en assms(7,10,11,13) g admission_validate_delays [OF assms(1)]
    by (subst greylist_check_runs [where key = key]) (auto simp: request_key_def)
  with en d assms(8,9) show ?thesis
    by (auto simp: admission_check_def Let_def smtp_reply_def admission_decide_def)
qed

section \<open>The delay of a session\<close>

fun session_delays :: "admission_settings \<Rightarrow> (admission_decision \<times> bool) list \<Rightarrow> nat \<Rightarrow> delay_outcome list \<times> nat" where
  "session_delays s [] charged = ([], charged)"
| "session_delays s ((d, permit) # rest) charged =
     (case admission_delay s d permit charged of (out, charged1) \<Rightarrow>
        (case session_delays s rest charged1 of (outs, charged2) \<Rightarrow> (out # outs, charged2)))"

fun slept_ms :: "delay_outcome \<Rightarrow> nat" where
  "slept_ms (Slept n) = n"
| "slept_ms _ = 0"

lemma admission_delay_charges:
  assumes "admission_delay s d permit charged = (out, charged')" "charged \<le> ad_tarpit_session_budget_ms s"
  shows "charged' = charged + slept_ms out \<and> charged' \<le> ad_tarpit_session_budget_ms s
    \<and> (out = Slept 0 \<longrightarrow> False) \<and> slept_ms out \<le> ad_tarpit_delay_ms s \<and> (0 < slept_ms out \<longrightarrow> permit \<and> smtp_reply d \<noteq> None)"
  using assms by (auto simp: admission_delay_def Let_def split: if_splits)

lemma session_delays_charges:
  assumes "session_delays s ds charged = (outs, charged')" "charged \<le> ad_tarpit_session_budget_ms s"
  shows "charged' = charged + sum_list (map slept_ms outs) \<and> charged' \<le> ad_tarpit_session_budget_ms s
    \<and> list_all (\<lambda>x. slept_ms x \<le> ad_tarpit_delay_ms s) outs"
  using assms
proof (induction s ds charged arbitrary: outs charged' rule: session_delays.induct)
  case (2 s d permit rest charged)
  then show ?case using admission_delay_charges [of s d permit charged]
    by (fastforce split: prod.splits)
qed simp

text \<open>
  the delays of refusals are bounded: with a validated configuration the sleeps of one SMTP
  session, whatever its decisions and whichever of them found a free slot, add up to at most its
  budget and so to at most ten seconds, and none is longer than five seconds.
\<close>

theorem tarpit_session_bounded:
  assumes "admission_validate origin v6 s = Inr ()" "session_delays s ds 0 = (outs, charged)"
  shows "sum_list (map slept_ms outs) \<le> ad_tarpit_session_budget_ms s \<and> sum_list (map slept_ms outs) \<le> 10000
    \<and> list_all (\<lambda>x. slept_ms x \<le> 5000) outs"
  using session_delays_charges [OF assms(2)] admission_validate_delays [OF assms(1)]
  by (auto simp: list_all_iff intro: order_trans)

text \<open>
  a worker defers a recipient only when its own settings enforce and the coordinator said so
  in this protocol version; a missing, failed or incompatible reply fails open.
\<close>

theorem worker_defers_only_with_coordinator:
  "smtp_reply (worker_decision s reply) = Some t \<longleftrightarrow>
     ad_enabled s \<and> ad_mode s = Ad_Enforce
     \<and> (\<exists>d. reply = Some d \<and> de_version d = ADMISSION_VERSION \<and> length (de_reasons d) \<le> 8 \<and> smtp_reply d = Some t)"
  by (cases "ad_mode s") (auto simp: worker_decision_def admission_unavailable_def admission_decide_def smtp_reply_def
      split: option.splits)

section \<open>Concrete runs\<close>

definition sample_admission :: admission_settings where
  "sample_admission = \<lparr>ad_traffic = None, ad_greylisting = True, ad_minimum_providers = 2, ad_allow_networks = [],
     ad_rate_per_minute = 0, ad_rate_burst = 20, ad_enabled = True, ad_mode = Ad_Enforce, ad_retry_delay_seconds = 300,
     ad_retry_max_age_seconds = 86400, ad_retention_seconds = 604800, ad_max_entries = 1000, ad_tarpit_delay_ms = 1000,
     ad_tarpit_max_concurrent = 8, ad_tarpit_session_budget_ms = 1500\<rparr>"

definition sample_attempt :: admission_request where
  "sample_attempt = \<lparr>aq_peer = V4 (192, 0, 2, 7), aq_sender = ''s@e.x'', aq_recipient = ''a@b.c'',
     aq_listed_providers = 2, aq_invalid_helo = False, aq_charge_rate = False\<rparr>"

definition no_v6 :: "string \<Rightarrow> ipv6 option" where "no_v6 _ = None"
definition plain_hash :: "string \<Rightarrow> string \<Rightarrow> string" where "plain_hash p a = p @ a"
definition plain_ip :: "ip_addr \<Rightarrow> string" where "plain_ip _ = ''ip''"

lemma sample_admission_valid: "admission_validate (\<lambda>_. Inr True) no_v6 sample_admission = Inr ()"
  by (simp add: admission_validate_def sample_admission_def ensure_def)

lemma sample_attempt_valid: "admission_request_validate sample_attempt = Inr ()"
  by code_simp

definition sample_key :: triplet where
  "sample_key = (Ad_Enforce, V4 (192, 0, 2, 0), ''senders@e.x'', ''recipienta@b.c'')"

lemma sample_identities:
  "canonical_address ''s@e.x'' True = Inr ''s@e.x''" "canonical_address ''a@b.c'' False = Inr ''a@b.c''"
  by (simp_all add: canonical_address_def ensure_def is_ascii_char_def is_ascii_control_def byte_def rsplit_once_def
      to_ascii_lowercase_def ascii_lower_def eq_ignore_ascii_case_def)

lemma sample_triplet: "triplet_of plain_hash sample_admission (V4 (192, 0, 2, 0)) ''s@e.x'' ''a@b.c'' = Inr sample_key"
  by (simp add: triplet_of_def sample_identities sample_admission_def sample_key_def plain_hash_def to_canonical_def)

lemma sample_key_of: "request_key plain_hash sample_admission sample_attempt = Inr sample_key"
  by (simp add: request_key_def sample_attempt_def to_canonical_def retry_peer_def sample_triplet)

definition sample_entry :: entry where
  "sample_entry = \<lparr>en_id = 1, en_mode = Ad_Enforce, en_peer = V4 (192, 0, 2, 0), en_sender_hash = ''senders@e.x'',
     en_recipient_hash = ''recipienta@b.c'', en_first_seen = 100, en_eligible_at = 400, en_passed_at = None, en_expires_at = 86500\<rparr>"

definition sample_entries :: admission_db where
  "sample_entries = \<lparr>adb_entries = [sample_entry], adb_rates = [], adb_counts = [((0, Ad_Enforce, As_FirstSeen), 1)]\<rparr>"

lemma sample_selected:
  "\<not> exempt_peer no_v6 sample_admission (to_canonical (aq_peer sample_attempt))" "\<not> exempt_envelope sample_attempt"
  "selected_for_greylisting sample_admission sample_attempt"
  by (simp_all add: exempt_peer_def is_loopback_def sample_attempt_def sample_admission_def to_canonical_def exempt_envelope_def
      eq_ignore_ascii_case_def to_ascii_lowercase_def ascii_lower_def byte_def selected_for_greylisting_def signals_def)

lemma sample_greylist:
  "greylist sample_admission sample_key 100 400 86500 604900 []
     = ([sample_entry], admission_decide sample_admission As_FirstSeen True (Some 300))"
  by (simp add: greylist_def live_rows_def prune_expired_def sweep_def new_row_def sample_key_def sample_entry_def next_id_def
      sample_admission_def)

lemma sample_first_attempt:
  "admission_check exact_ops no_v6 plain_ip plain_hash sample_admission sample_attempt 100 empty_admission_db
     = (sample_entries, Inr ((admission_decide sample_admission As_FirstSeen True (Some 300))\<lparr>de_reasons := [''ip_reputation'']\<rparr>))"
proof -
  have en: "ad_enabled sample_admission" "ad_retry_delay_seconds sample_admission = 300"
    "ad_retry_max_age_seconds sample_admission = 86400" "ad_retention_seconds sample_admission = 604800"
    "ad_mode sample_admission = Ad_Enforce" by (simp_all add: sample_admission_def)
  have "greylist_check plain_hash sample_admission (V4 (192, 0, 2, 0)) ''s@e.x'' ''a@b.c'' 100 empty_admission_db
      = Inr (empty_admission_db\<lparr>adb_entries := [sample_entry]\<rparr>, admission_decide sample_admission As_FirstSeen True (Some 300))"
    using sample_greylist by (simp add: greylist_check_runs [OF en(1) sample_triplet] en i64_max_def empty_admission_db_def)
  then show ?thesis using sample_selected en
    by (simp add: admission_check_def sample_attempt_valid Let_def)
      (simp add: sample_attempt_def to_canonical_def retry_peer_def count_decision_def i64_div_def empty_admission_db_def
        sample_entries_def Let_def admission_decide_def)
qed

lemma sample_run:
  "admission_run exact_ops no_v6 plain_ip plain_hash sample_admission sample_entries [(sample_attempt, 100, As_FirstSeen)]"
  using admission_run.check [OF admission_run.start sample_first_attempt] by (simp add: admission_decide_def)

lemma sample_retry_greylist:
  "greylist sample_admission sample_key 400 700 86800 605200 [sample_entry]
     = ([sample_entry\<lparr>en_passed_at := Some 400, en_expires_at := 605200\<rparr>],
        admission_decide sample_admission As_RetryPassed False None)"
  by (simp add: greylist_def live_rows_def prune_expired_def sweep_def sample_key_def sample_entry_def
      sample_admission_def entry_key_def pass_row_def)

lemma sample_second_attempt:
  "\<exists>db'. admission_check exact_ops no_v6 plain_ip plain_hash sample_admission sample_attempt 400 sample_entries
     = (db', Inr ((admission_decide sample_admission As_RetryPassed False None)\<lparr>de_reasons := [''ip_reputation'']\<rparr>))"
proof -
  have en: "ad_enabled sample_admission" "ad_retry_delay_seconds sample_admission = 300"
    "ad_retry_max_age_seconds sample_admission = 86400" "ad_retention_seconds sample_admission = 604800"
    by (simp_all add: sample_admission_def)
  have "greylist_check plain_hash sample_admission (V4 (192, 0, 2, 0)) ''s@e.x'' ''a@b.c'' 400 sample_entries
      = Inr (sample_entries\<lparr>adb_entries := [sample_entry\<lparr>en_passed_at := Some 400, en_expires_at := 605200\<rparr>]\<rparr>,
          admission_decide sample_admission As_RetryPassed False None)"
    using sample_retry_greylist by (simp add: greylist_check_runs [OF en(1) sample_triplet] en i64_max_def sample_entries_def)
  then show ?thesis using sample_selected en
    by (simp add: admission_check_def sample_attempt_valid Let_def)
      (simp add: sample_attempt_def to_canonical_def retry_peer_def)
qed

theorem greylisted_triplet_waits_witness:
  "\<exists>r0 t0. (r0, t0, As_FirstSeen) \<in> set [(sample_attempt, 100, As_FirstSeen)]
     \<and> request_key plain_hash sample_admission r0 = request_key plain_hash sample_admission sample_attempt \<and> t0 + 300 \<le> (400::int)"
proof -
  obtain db' where "admission_check exact_ops no_v6 plain_ip plain_hash sample_admission sample_attempt 400 sample_entries
     = (db', Inr ((admission_decide sample_admission As_RetryPassed False None)\<lparr>de_reasons := [''ip_reputation'']\<rparr>))"
    using sample_second_attempt by blast
  from greylisted_triplet_waits [OF sample_run this] show ?thesis
    by (auto simp: admission_decide_def sample_admission_def)
qed

theorem admission_entries_bounded_witness:
  "length (filter (\<lambda>e. en_mode e = Ad_Enforce) (adb_entries sample_entries)) \<le> 1000"
  using admission_entries_bounded [OF sample_run] by (simp add: sample_admission_def)

theorem admission_defers_only_for_cause_witness:
  "ad_greylisting sample_admission \<and> aq_listed_providers sample_attempt > 0 \<and> ad_mode sample_admission = Ad_Enforce"
  using admission_defers_only_for_cause [OF sample_first_attempt, of GREYLIST_REPLY]
  by (auto simp: smtp_reply_def admission_decide_def sample_admission_def)

theorem greylisted_retry_admitted_witness:
  "\<exists>db' d. admission_check exact_ops no_v6 plain_ip plain_hash sample_admission sample_attempt 400 sample_entries = (db', Inr d)
     \<and> smtp_reply d = None \<and> de_status d = As_RetryPassed"
proof -
  have "\<exists>db' d. admission_check exact_ops no_v6 plain_ip plain_hash sample_admission sample_attempt 400 sample_entries = (db', Inr d)
     \<and> smtp_reply d = None \<and> (\<not> exempt_peer no_v6 sample_admission (to_canonical (aq_peer sample_attempt))
       \<and> \<not> exempt_envelope sample_attempt \<and> selected_for_greylisting sample_admission sample_attempt
         \<longrightarrow> de_status d = As_RetryPassed)"
    by (rule greylisted_retry_admitted [OF sample_admission_valid admission_run.start sample_first_attempt _ sample_key_of
        meanwhile.none sample_key_of sample_attempt_valid])
      (simp_all add: admission_decide_def sample_admission_def sample_attempt_def i64_max_def)
  with sample_selected show ?thesis by blast
qed

definition sample_refusal :: admission_decision where
  "sample_refusal = admission_decide sample_admission As_TooSoon True (Some 300)"

lemma sample_delays:
  "session_delays sample_admission [(sample_refusal, True), (sample_refusal, True), (sample_refusal, True)] 0
     = ([Slept 1000, Slept 500, BudgetExhausted], 1500)"
  by (simp add: sample_refusal_def admission_decide_def admission_delay_def smtp_reply_def sample_admission_def)

theorem tarpit_session_bounded_witness:
  "sum_list (map slept_ms [Slept 1000, Slept 500, BudgetExhausted]) \<le> ad_tarpit_session_budget_ms sample_admission"
  using tarpit_session_bounded [OF sample_admission_valid sample_delays] by blast

end
