(* ===== verification/NF_Message.thy ===== *)
theory NF_Message
  imports NF_Config
begin

text \<open>
  Messages on the wire (\<open>src/message.rs\<close>): the split of a message into whole header fields and a
  body, its validation, and the rewriting that adds the gateway's fields and marks the subject.

  A message is a string of bytes. The subject decoded by the MIME parser and the base64 encoding
  are arguments, since they belong to other packages. \<open>fields\<close> walks over the header with two
  indexes; the model keeps the slices between them, the field in progress and what is left.
\<close>

section \<open>Header fields\<close>

abbreviation CR :: char where "CR \<equiv> CHR 0x0D"
abbreviation LF :: char where "LF \<equiv> CHR 0x0A"
abbreviation CRLF :: string where "CRLF \<equiv> [CHR 0x0D, CHR 0x0A]"

definition MAX_HEADER_BYTES :: nat where "MAX_HEADER_BYTES = 256 * 1024"

text \<open>\<open>windows(n).position(|w| w == p)\<close> for a pattern that is not empty.\<close>

fun position_of :: "string \<Rightarrow> string \<Rightarrow> nat option" where
  "position_of p [] = None"
| "position_of p (c # s) = (if starts_with p (c # s) then Some 0 else map_option Suc (position_of p s))"

definition is_blank :: "char \<Rightarrow> bool" where
  "is_blank c \<longleftrightarrow> c = CHR '' '' \<or> c = CHR 0x09"

definition clean_line :: "string \<Rightarrow> bool" where
  "clean_line l \<longleftrightarrow> LF \<notin> set l \<and> CR \<notin> set l \<and> CHR 0x00 \<notin> set l"

definition name_char :: "char \<Rightarrow> bool" where
  "name_char c \<longleftrightarrow> 33 \<le> byte c \<and> byte c \<le> 126 \<and> c \<noteq> CHR '':''"

definition opens_field :: "string \<Rightarrow> bool" where
  "opens_field l \<longleftrightarrow> (case l of [] \<Rightarrow> False | c # _ \<Rightarrow> \<not> is_blank c)"

definition check_name :: "string \<Rightarrow> unit result" where
  "check_name l =
     (case split_once (CHR '':'') l of
        None \<Rightarrow> Inl ''invalid header field''
      | Some (n, _) \<Rightarrow> ensure (n \<noteq> [] \<and> list_all name_char n) ''invalid field name'')"

function fields_loop :: "string list \<Rightarrow> string \<Rightarrow> string \<Rightarrow> (string list \<times> string) result" where
  "fields_loop fs cur rest =
     (if rest = [] then Inr (fs, cur)
      else (case position_of CRLF rest of
          None \<Rightarrow> Inl ''invalid header line''
        | Some n \<Rightarrow>
            and_then (ensure (clean_line (take n rest)) ''invalid header control'') (\<lambda>_.
            if opens_field (take n rest) then
              and_then (check_name (take n rest)) (\<lambda>_.
              and_then (ensure (length (if cur = [] then fs else fs @ [cur]) \<le> 1000) ''too many headers'') (\<lambda>_.
              fields_loop (if cur = [] then fs else fs @ [cur]) (take (n + 2) rest) (drop (n + 2) rest)))
            else
              and_then (ensure (fs \<noteq> [] \<or> cur \<noteq> []) ''orphan folded header'') (\<lambda>_.
              and_then (ensure (length fs \<le> 1000) ''too many headers'') (\<lambda>_.
              fields_loop fs (cur @ take (n + 2) rest) (drop (n + 2) rest))))))"
  by pat_completeness auto
termination by (relation "measure (\<lambda>(_, _, rest). length rest)") auto

definition fields :: "string \<Rightarrow> (string list \<times> string) result" where
  "fields raw =
     (case position_of (CRLF @ CRLF) raw of
        None \<Rightarrow> Inl ''missing header separator''
      | Some e \<Rightarrow>
          and_then (ensure (e \<le> MAX_HEADER_BYTES) ''too many header bytes'') (\<lambda>_.
          and_then (fields_loop [] [] (take (e + 2) raw)) (\<lambda>(fs, cur).
          Inr (if cur = [] then fs else fs @ [cur], drop (e + 4) raw))))"

definition field_name :: "string \<Rightarrow> string" where
  "field_name f = to_ascii_lowercase (case split_once (CHR '':'') f of None \<Rightarrow> [] | Some (n, _) \<Rightarrow> n)"

definition header_byte_ok :: "char \<Rightarrow> bool" where
  "header_byte_ok c \<longleftrightarrow> byte c < 128 \<and> (\<not> (byte c < 32 \<or> byte c = 127) \<or> c \<in> set [CHR 0x09, CR, LF])"

fun wire_ok :: "char \<Rightarrow> string \<Rightarrow> bool" where
  "wire_ok p [] \<longleftrightarrow> True"
| "wire_ok p (c # s) \<longleftrightarrow>
     c \<noteq> CHR 0x00 \<and> (c = LF \<longrightarrow> p = CR) \<and> (c = CR \<longrightarrow> s \<noteq> [] \<and> hd s = LF) \<and> wire_ok c s"

definition count_name :: "string \<Rightarrow> string list \<Rightarrow> nat" where
  "count_name n fs = length (filter (\<lambda>f. field_name f = n) fs)"

definition message_validate :: "string \<Rightarrow> unit result" where
  "message_validate raw =
     and_then (fields raw) (\<lambda>(fs, _).
     and_then (ensure (list_all (list_all header_byte_ok) fs)
         ''SMTPUTF8 headers or invalid header controls are not supported'') (\<lambda>_.
     and_then (check_all (\<lambda>u. ensure (count_name u fs \<le> 1) (''duplicate '' @ u))
         [''from'', ''subject'', ''date'', ''message-id'']) (\<lambda>_.
     and_then (ensure (count_name ''received'' fs < 100) ''mail loop detected'') (\<lambda>_.
     and_then (ensure (wire_ok (CHR 0x00) raw) ''invalid SMTP wire newline or NUL'') (\<lambda>_.
     ensure (ends_with CRLF raw) ''message must end with CRLF'')))))"

section \<open>Rewriting\<close>

datatype message_tag = Tag_Spam | Tag_Publicity

fun tag_prefix :: "message_tag \<Rightarrow> string" where
  "tag_prefix Tag_Spam = ''[SPAM]''"
| "tag_prefix Tag_Publicity = ''[PUB]''"

text \<open>Fields of the gateway's own name space are never taken from the peer.\<close>

definition untrusted_name :: "string \<Rightarrow> bool" where
  "untrusted_name n \<longleftrightarrow> starts_with ''x-noisefence-'' n \<or> starts_with ''x-antispam-'' n \<or> n = ''authentication-results''"

text \<open>\<open>str::trim_start\<close>: drop the leading characters that are white space, of one to three bytes.\<close>

fun leading_space :: "string \<Rightarrow> nat" where
  "leading_space [] = 0"
| "leading_space [a] = (if char_is_whitespace (byte a) \<and> byte a < 128 then 1 else 0)"
| "leading_space [a, b] =
     (if byte a < 128 then (if char_is_whitespace (byte a) then 1 else 0)
      else if 194 \<le> byte a \<and> byte a < 224 \<and> char_is_whitespace ((byte a - 192) * 64 + (byte b - 128)) then 2 else 0)"
| "leading_space (a # b # c # s) =
     (if byte a < 128 then (if char_is_whitespace (byte a) then 1 else 0)
      else if byte a < 224
      then (if 194 \<le> byte a \<and> char_is_whitespace ((byte a - 192) * 64 + (byte b - 128)) then 2 else 0)
      else if byte a < 240 \<and> char_is_whitespace ((byte a - 224) * 4096 + (byte b - 128) * 64 + (byte c - 128)) then 3 else 0)"

lemma leading_space_le: "leading_space s \<le> length s"
  by (induction s rule: leading_space.induct) auto

function trim_start :: "string \<Rightarrow> string" where
  "trim_start s = (if leading_space s = 0 then s else trim_start (drop (leading_space s) s))"
  by pat_completeness auto
termination
proof (relation "measure length")
  fix s assume "leading_space s \<noteq> 0"
  with leading_space_le [of s] show "(drop (leading_space s) s, s) \<in> measure length" by auto
qed simp

declare trim_start.simps [simp del]

lemma length_trim_start: "length (trim_start s) \<le> length s"
  by (induction s rule: trim_start.induct) (subst trim_start.simps, auto)

definition leading_tag :: "string \<Rightarrow> message_tag option" where
  "leading_tag s = find (\<lambda>t. eq_ignore_ascii_case (take (length (tag_prefix t)) s) (tag_prefix t)) [Tag_Spam, Tag_Publicity]"

lemma leading_tag_length: "leading_tag s = Some t \<Longrightarrow> 0 < length s"
  by (cases s; cases t) (auto simp: leading_tag_def eq_ignore_ascii_case_def to_ascii_lowercase_def split: if_splits)

text \<open>The marks at the start of a subject, and what follows them.\<close>

function peel_tags :: "message_tag list \<Rightarrow> string \<Rightarrow> message_tag list \<times> string" where
  "peel_tags acc s =
     (case leading_tag s of
        None \<Rightarrow> (acc, s)
      | Some t \<Rightarrow> peel_tags (acc @ [t]) (trim_start (drop (length (tag_prefix t)) s)))"
  by pat_completeness auto
termination
proof (relation "measure (\<lambda>(_, s). length s)")
  fix acc s t assume "leading_tag s = Some t"
  moreover have "0 < length (tag_prefix t)" by (cases t) simp_all
  ultimately show "((acc @ [t], trim_start (drop (length (tag_prefix t)) s)), acc, s) \<in> measure (\<lambda>(_, s). length s)"
    using leading_tag_length [of s t] length_trim_start [of "drop (length (tag_prefix t)) s"] by (auto intro: le_less_trans)
qed simp

declare peel_tags.simps [simp del]

definition is_continuation :: "char \<Rightarrow> bool" where
  "is_continuation c \<longleftrightarrow> 128 \<le> byte c \<and> byte c < 192"

definition is_char_boundary :: "string \<Rightarrow> nat \<Rightarrow> bool" where
  "is_char_boundary s i \<longleftrightarrow> i = 0 \<or> i = length s \<or> (i < length s \<and> \<not> is_continuation (s ! i))"

fun floor_boundary :: "string \<Rightarrow> nat \<Rightarrow> nat" where
  "floor_boundary s 0 = 0"
| "floor_boundary s (Suc n) = (if is_char_boundary s (Suc n) then Suc n else floor_boundary s n)"

text \<open>
  The loop that cuts what remains of a subject into encoded words. It makes no progress on a
  string that has no boundary in its first 42 bytes; \<open>None\<close> is the loop that does not end.
\<close>

partial_function (option) subject_chunks :: "string \<Rightarrow> string list option" where
  "subject_chunks s =
     (if s = [] then Some []
      else Option.bind (subject_chunks (drop (floor_boundary s (min (length s) 42)) s))
        (\<lambda>cs. Some (take (floor_boundary s (min (length s) 42)) s # cs)))"

definition encoded_subject :: "(string \<Rightarrow> string) \<Rightarrow> string \<Rightarrow> string" where
  "encoded_subject b64 s = ''=?UTF-8?B?'' @ b64 s @ ''?=''"

text \<open>The subject field of a message that is marked; \<open>subject\<close> is the decoded subject.\<close>

definition tagged_subject :: "(string \<Rightarrow> string) \<Rightarrow> string \<Rightarrow> message_tag \<Rightarrow> string \<Rightarrow> string result option" where
  "tagged_subject b64 subject tag header =
     (case peel_tags [] (trim_start subject) of (previous, remaining) \<Rightarrow>
        if previous = [tag] then Some (Inr header)
        else if previous \<noteq> [] then
          (if length remaining \<le> MAX_HEADER_BYTES div 2
           then map_option (\<lambda>cs. Inr (''Subject: '' @ tag_prefix tag
                  @ concat (map (\<lambda>c. CRLF @ [CHR 0x09] @ encoded_subject b64 c) cs) @ CRLF)) (subject_chunks remaining)
           else Some (Inl ''oversized subject normalization''))
        else
          (let colon = length (takeWhile (\<lambda>c. c \<noteq> CHR '':'') header);
               value = drop (Suc colon) header
           in Some (Inr ((if length (takeWhile (\<lambda>c. c \<noteq> LF) header) + length (tag_prefix tag) + 1 > 999
                 then ''Subject: '' @ tag_prefix tag @ CRLF @ [CHR 0x09] else ''Subject: '' @ tag_prefix tag @ '' '')
                @ (if list_all is_blank value then value else dropWhile is_blank value)))))"

fun rewrite_fields ::
    "(string \<Rightarrow> string) \<Rightarrow> string \<Rightarrow> message_tag option \<Rightarrow> string list \<Rightarrow> string list result option" where
  "rewrite_fields b64 subject tag [] = Some (Inr [])"
| "rewrite_fields b64 subject tag (f # fs) =
     (if untrusted_name (field_name f) then rewrite_fields b64 subject tag fs
      else (case (if field_name f = ''subject'' then (case tag of None \<Rightarrow> Some (Inr f) | Some t \<Rightarrow> tagged_subject b64 subject t f)
                  else Some (Inr f)) of
          None \<Rightarrow> None
        | Some (Inl e) \<Rightarrow> Some (Inl e)
        | Some (Inr g) \<Rightarrow> map_option (\<lambda>r. and_then r (\<lambda>gs. Inr (g # gs))) (rewrite_fields b64 subject tag fs)))"

text \<open>
  \<open>rewrite_with_tag\<close>. The added fields stand before the others; a missing subject is added.
  \<open>None\<close> is a call that does not return.
\<close>

definition rewrite_with_tag ::
    "(string \<Rightarrow> string) \<Rightarrow> string \<Rightarrow> string \<Rightarrow> message_tag option \<Rightarrow> string \<Rightarrow> string result option" where
  "rewrite_with_tag b64 subject raw tag extra =
     (case fields raw of
        Inl e \<Rightarrow> Some (Inl e)
      | Inr (fs, body) \<Rightarrow>
          map_option (\<lambda>r. and_then r (\<lambda>gs.
            Inr (extra @ concat gs
              @ (case tag of Some t \<Rightarrow> if \<exists>f \<in> set fs. field_name f = ''subject'' then [] else ''Subject: '' @ tag_prefix t @ CRLF
                   | None \<Rightarrow> [])
              @ CRLF @ body))) (rewrite_fields b64 subject tag fs))"

declare fields_loop.simps [simp del]

section \<open>Fields are a partition of the header\<close>

definition unlines :: "string list \<Rightarrow> string" where
  "unlines ls = concat (map (\<lambda>l. l @ CRLF) ls)"

definition head_line :: "string \<Rightarrow> bool" where
  "head_line l \<longleftrightarrow> clean_line l \<and> opens_field l \<and> check_name l = Inr ()"

definition fold_line :: "string \<Rightarrow> bool" where
  "fold_line l \<longleftrightarrow> clean_line l \<and> l \<noteq> [] \<and> \<not> opens_field l"

text \<open>A field as the standard writes it: a line that names it and the lines folded into it.\<close>

definition wf_field :: "string \<Rightarrow> bool" where
  "wf_field f \<longleftrightarrow> (\<exists>l ls. f = unlines (l # ls) \<and> head_line l \<and> list_all fold_line ls)"

lemma unlines_simps [simp]: "unlines [] = []" "unlines (l # ls) = l @ CR # LF # unlines ls"
  "unlines (ls @ ms) = unlines ls @ unlines ms"
  by (simp_all add: unlines_def)

lemma starts_with_Cons [simp]: "starts_with (a # p) (c # s) \<longleftrightarrow> a = c \<and> starts_with p s"
  "starts_with [] s" "\<not> starts_with (a # p) []"
  by (auto simp: starts_with_iff_prefix)

lemma starts_with_append [simp]: "starts_with p (p @ s)"
  by (simp add: starts_with_iff_prefix)

lemma position_of_clean: "clean_line l \<Longrightarrow> position_of CRLF (l @ CR # LF # r) = Some (length l)"
  by (induction l) (auto simp: clean_line_def)

lemma position_of_Some:
  "position_of p s = Some n \<Longrightarrow> s = take n s @ p @ drop (n + length p) s \<and> n + length p \<le> length s"
proof (induction s arbitrary: n)
  case (Cons c s)
  show ?case
  proof (cases "starts_with p (c # s)")
    case True
    then obtain r where "c # s = p @ r" by (auto simp: starts_with_iff_prefix prefix_def)
    with True Cons.prems show ?thesis by (cases p) (auto)
  next
    case False
    with Cons show ?thesis by fastforce
  qed
qed simp

lemma position_of_first:
  "position_of p s = Some n \<Longrightarrow> p \<noteq> [] \<Longrightarrow> m < n + length p \<Longrightarrow> \<not> sublist p (take m s)"
proof (induction s arbitrary: n m)
  case (Cons c s)
  show ?case
  proof (cases "starts_with p (c # s)")
    case True
    with Cons.prems have "m < length p" by simp
    then show ?thesis by (auto dest: sublist_length_le)
  next
    case False
    with Cons.prems obtain k where k: "position_of p s = Some k" "n = Suc k" by auto
    show ?thesis
    proof (cases m)
      case (Suc j)
      then have "\<not> sublist p (take j s)" using Cons.IH [OF k(1) Cons.prems(2)] k(2) Cons.prems(3) by simp
      moreover have "\<not> prefix p (c # take j s)"
        using False by (auto simp: starts_with_iff_prefix) (metis prefix_order.trans take_Suc_Cons take_is_prefix)
      ultimately show ?thesis using Suc by (simp add: sublist_Cons_right)
    qed (use Cons.prems(2) in simp)
  qed
qed simp

lemma fields_loop_line:
  assumes "clean_line l"
  shows "fields_loop fs cur (l @ CR # LF # rest) =
    (if opens_field l then
       and_then (check_name l) (\<lambda>_.
       and_then (ensure (length (if cur = [] then fs else fs @ [cur]) \<le> 1000) ''too many headers'') (\<lambda>_.
       fields_loop (if cur = [] then fs else fs @ [cur]) (l @ CRLF) rest))
     else
       and_then (ensure (fs \<noteq> [] \<or> cur \<noteq> []) ''orphan folded header'') (\<lambda>_.
       and_then (ensure (length fs \<le> 1000) ''too many headers'') (\<lambda>_.
       fields_loop fs (cur @ l @ CRLF) rest)))"
  using assms by (subst fields_loop.simps) (simp add: position_of_clean ensure_def)

lemma fields_loop_Nil [simp]: "fields_loop fs cur [] = Inr (fs, cur)"
  by (subst fields_loop.simps) simp

lemma fields_loop_folds:
  "list_all fold_line ls \<Longrightarrow> cur \<noteq> [] \<Longrightarrow> length fs \<le> 1000 \<Longrightarrow>
   fields_loop fs cur (unlines ls @ rest) = fields_loop fs (cur @ unlines ls) rest"
proof (induction ls arbitrary: cur)
  case (Cons l ls)
  then show ?case by (simp add: fold_line_def fields_loop_line ensure_def)
qed simp

lemma fields_loop_field:
  assumes "wf_field f" "length (if cur = [] then fs else fs @ [cur]) \<le> 1000"
  shows "fields_loop fs cur (f @ rest) = fields_loop (if cur = [] then fs else fs @ [cur]) f rest"
proof -
  obtain l ls where f: "f = unlines (l # ls)" "head_line l" "list_all fold_line ls" using assms(1) by (auto simp: wf_field_def)
  have "fields_loop fs cur (f @ rest) = fields_loop (if cur = [] then fs else fs @ [cur]) (l @ CRLF) (unlines ls @ rest)"
    using f(1,2) assms(2) by (simp add: fields_loop_line head_line_def ensure_def)
  also have "\<dots> = fields_loop (if cur = [] then fs else fs @ [cur]) ((l @ CRLF) @ unlines ls) rest"
    using f(3) assms(2) by (intro fields_loop_folds) auto
  finally show ?thesis using f(1) by simp
qed

lemma wf_field_nonempty: "wf_field f \<Longrightarrow> f \<noteq> []"
  by (auto simp: wf_field_def)

lemma fields_loop_complete:
  "list_all wf_field (f # gs) \<Longrightarrow> length fs + length gs \<le> 1000 \<Longrightarrow>
   fields_loop fs f (concat gs) = Inr (fs @ butlast (f # gs), last (f # gs))"
proof (induction gs arbitrary: f fs)
  case (Cons g gs)
  then show ?case
    using wf_field_nonempty [of f] wf_field_nonempty [of g]
    by (simp add: fields_loop_field)
qed simp

lemma position_of_separator:
  assumes "ls \<noteq> []" "\<And>l. l \<in> set ls \<Longrightarrow> clean_line l \<and> l \<noteq> []"
  shows "position_of (CRLF @ CRLF) (unlines ls @ CR # LF # body) = Some (length (unlines ls) - 2)"
  using assms
proof (induction ls)
  case (Cons l ls)
  have skip: "position_of (CRLF @ CRLF) (k @ CR # LF # r) = map_option (\<lambda>n. n + length k) (position_of (CRLF @ CRLF) (CR # LF # r))"
    if "CR \<notin> set k" for k r
    using that by (induction k) (auto simp: option.map_comp o_def)
  have l: "CR \<notin> set l" using Cons.prems(2) [of l] by (simp add: clean_line_def)
  show ?case
  proof (cases ls)
    case Nil
    then show ?thesis using skip [OF l, of "CR # LF # body"] by simp
  next
    case (Cons m ms)
    have m: "m \<noteq> []" "CR \<notin> set m" using Cons.prems(2) [of m] Cons by (auto simp: clean_line_def)
    then have "\<not> starts_with CRLF (unlines ls @ CR # LF # body)" using Cons by (cases m) auto
    then have "position_of (CRLF @ CRLF) (CR # LF # unlines ls @ CR # LF # body)
        = map_option (\<lambda>n. n + 2) (position_of (CRLF @ CRLF) (unlines ls @ CR # LF # body))"
      by (simp add: option.map_comp o_def)
    moreover have "length (unlines ls) \<ge> 2" using Cons by simp
    ultimately show ?thesis using skip [OF l, of "unlines ls @ CR # LF # body"] Cons.IH Cons.prems Cons by simp
  qed
qed simp

definition progress_ok :: "string list \<Rightarrow> string \<Rightarrow> bool" where
  "progress_ok fs cur \<longleftrightarrow> list_all wf_field fs \<and> (cur = [] \<and> fs = [] \<or> wf_field cur)"

lemma wf_field_fold: "wf_field f \<Longrightarrow> fold_line l \<Longrightarrow> wf_field (f @ l @ CRLF)"
proof -
  assume "wf_field f" "fold_line l"
  then obtain m ms where "f = unlines (m # ms)" "head_line m" "list_all fold_line ms" by (auto simp: wf_field_def)
  then have "f @ l @ CRLF = unlines (m # ms @ [l])" "list_all fold_line (ms @ [l])" using \<open>fold_line l\<close> by simp_all
  with \<open>head_line m\<close> show ?thesis unfolding wf_field_def by blast
qed

lemma wf_fieldI: "head_line l \<Longrightarrow> list_all fold_line ls \<Longrightarrow> wf_field (unlines (l # ls))"
  unfolding wf_field_def by blast

lemma wf_field_head: "head_line l \<Longrightarrow> wf_field (l @ CRLF)"
  unfolding wf_field_def by (rule exI [of _ l], rule exI [of _ "[]"]) simp

lemma wf_field_ends: "wf_field f \<Longrightarrow> \<exists>g. f = g @ CRLF"
  unfolding wf_field_def
proof (elim exE conjE)
  fix l ls assume f: "f = unlines (l # ls)"
  show ?thesis
  proof (cases ls rule: rev_cases)
    case Nil
    with f show ?thesis by simp
  next
    case (snoc ms m)
    with f have "f = (l @ CRLF @ unlines ms @ m) @ CRLF" by simp
    then show ?thesis by blast
  qed
qed

lemma fields_loop_sound:
  "fields_loop fs cur rest = Inr (fs', cur') \<Longrightarrow> progress_ok fs cur \<Longrightarrow> \<not> sublist (CRLF @ CRLF) (cur @ rest) \<Longrightarrow>
   length fs \<le> 1000 \<Longrightarrow>
   concat fs @ cur @ rest = concat fs' @ cur' \<and> progress_ok fs' cur' \<and> length fs' \<le> 1000"
proof (induction fs cur rest rule: fields_loop.induct)
  case (1 fs cur rest)
  show ?case
  proof (cases "rest = []")
    case True
    with 1 show ?thesis by simp
  next
    case False
    then obtain n where n: "position_of CRLF rest = Some n"
      using 1(3) by (cases "position_of CRLF rest") (simp_all add: fields_loop.simps [of fs cur rest])
    define l where "l = take n rest"
    define more where "more = drop (n + 2) rest"
    have rest1: "rest = l @ CR # LF # more" "length l = n"
      using position_of_Some [OF n] by (auto simp: l_def more_def)
    then have "take (n + 2) rest = l @ CRLF" by simp
    note rest = rest1(1) this
    have parts: "take n rest = l" "drop (n + 2) rest = more" by (simp_all add: l_def more_def)
    have clean: "clean_line l"
      using 1(3) False n by (auto simp: fields_loop.simps [of fs cur rest] l_def and_then_Inr_iff)
    note loop = 1(3) [unfolded rest(1) fields_loop_line [OF clean]]
    show ?thesis
    proof (cases "opens_field l")
      case True
      let ?fs = "if cur = [] then fs else fs @ [cur]"
      have h: "head_line l" "length ?fs \<le> 1000" "fields_loop ?fs (l @ CRLF) more = Inr (fs', cur')"
        using loop True clean by (auto simp: and_then_Inr_iff head_line_def)
      have "progress_ok ?fs (l @ CRLF)" using 1(4) h(1) by (auto simp: progress_ok_def wf_field_head)
      moreover have "\<not> sublist (CRLF @ CRLF) ((l @ CRLF) @ more)"
        using 1(5) rest(1) by (metis append.assoc append_Cons append_Nil sublist_appendI sublist_order.dual_order.trans append_Nil2)
      ultimately have "concat ?fs @ (l @ CRLF) @ more = concat fs' @ cur' \<and> progress_ok fs' cur' \<and> length fs' \<le> 1000"
        using 1(1) [of n] False n clean True h parts rest(2) rest(1) [symmetric] by (simp add: head_line_def)
      moreover have "concat ?fs = concat fs @ cur" by simp
      ultimately show ?thesis using rest(1) by simp
    next
      case nf: False
      have h: "fs \<noteq> [] \<or> cur \<noteq> []" "fields_loop fs (cur @ l @ CRLF) more = Inr (fs', cur')"
        using loop nf by (auto simp: and_then_Inr_iff)
      have cur: "wf_field cur" using 1(4) h(1) by (auto simp: progress_ok_def)
      then obtain g where g: "cur = g @ CRLF" using wf_field_ends by blast
      have "l \<noteq> []"
      proof
        assume "l = []"
        then have "cur @ rest = g @ (CRLF @ CRLF) @ more" using g rest(1) by simp
        with 1(5) show False by (metis sublist_appendI)
      qed
      then have "progress_ok fs (cur @ l @ CRLF)"
        using 1(4) cur clean nf by (auto simp: progress_ok_def fold_line_def intro!: wf_field_fold)
      moreover have "\<not> sublist (CRLF @ CRLF) ((cur @ l @ CRLF) @ more)" using 1(5) rest(1) by simp
      ultimately show ?thesis
        using 1(2) [of n] False n clean nf h 1(6) parts rest(2) rest(1) [symmetric] by simp
    qed
  qed
qed

lemma wf_fields_lines:
  "list_all wf_field fs \<Longrightarrow> \<exists>ls. concat fs = unlines ls \<and> (fs \<noteq> [] \<longrightarrow> ls \<noteq> []) \<and> (\<forall>l \<in> set ls. clean_line l \<and> l \<noteq> [])"
proof (induction fs)
  case (Cons f fs)
  then obtain ls where ls: "concat fs = unlines ls" "\<forall>l \<in> set ls. clean_line l \<and> l \<noteq> []" by auto
  obtain m ms where "f = unlines (m # ms)" "head_line m" "list_all fold_line ms" using Cons.prems by (auto simp: wf_field_def)
  then show ?case using ls
    by (intro exI [of _ "(m # ms) @ ls"])
      (auto simp: head_line_def fold_line_def list_all_iff opens_field_def)
qed (rule exI [of _ "[]"], simp)

lemma fields_iff:
  "fields raw = Inr (fs, body) \<longleftrightarrow>
     raw = concat fs @ CRLF @ body \<and> fs \<noteq> [] \<and> list_all wf_field fs \<and> length fs \<le> 1001
     \<and> length (concat fs) \<le> MAX_HEADER_BYTES + 2"
proof
  assume "fields raw = Inr (fs, body)"
  then obtain e gs cur where e: "position_of (CRLF @ CRLF) raw = Some e" "e \<le> MAX_HEADER_BYTES"
    and l: "fields_loop [] [] (take (e + 2) raw) = Inr (gs, cur)"
    and r: "fs = (if cur = [] then gs else gs @ [cur])" "body = drop (e + 4) raw"
    by (auto simp: fields_def and_then_Inr_iff split: option.splits)
  have raw: "raw = take e raw @ CRLF @ CRLF @ body" "e + 4 \<le> length raw"
    using position_of_Some [OF e(1)] r(2) by (auto simp: eval_nat_numeral)
  have take: "take (e + 2) raw = take e raw @ CRLF" by (subst raw(1)) (use raw(2) in simp)
  have "\<not> sublist (CRLF @ CRLF) (take (e + 2) raw)" using position_of_first [OF e(1), of "e + 2"] by simp
  then have s: "take (e + 2) raw = concat gs @ cur" "progress_ok gs cur" "length gs \<le> 1000"
    using fields_loop_sound [OF l] by (auto simp: progress_ok_def)
  have ne: "cur \<noteq> []" using s(1,2) take wf_field_nonempty [of cur] by (auto simp: progress_ok_def)
  have c: "concat fs = take e raw @ CRLF" using s(1) r(1) ne take by simp
  have "length (concat fs) = e + 2" using c raw(2) by simp
  moreover have "raw = concat fs @ CRLF @ body" using raw(1) c by simp
  ultimately show "raw = concat fs @ CRLF @ body \<and> fs \<noteq> [] \<and> list_all wf_field fs \<and> length fs \<le> 1001
     \<and> length (concat fs) \<le> MAX_HEADER_BYTES + 2"
    using s(2,3) r(1) ne e(2) by (auto simp: progress_ok_def)
next
  assume a: "raw = concat fs @ CRLF @ body \<and> fs \<noteq> [] \<and> list_all wf_field fs \<and> length fs \<le> 1001
     \<and> length (concat fs) \<le> MAX_HEADER_BYTES + 2"
  then obtain g gs where fs: "fs = g # gs" by (cases fs) auto
  obtain ls where ls: "concat fs = unlines ls" "ls \<noteq> []" "\<And>l. l \<in> set ls \<Longrightarrow> clean_line l \<and> l \<noteq> []"
    using wf_fields_lines [of fs] a by auto
  let ?e = "length (concat fs) - 2"
  have big: "2 \<le> length (concat fs)" using ls(1,2) by (cases ls) simp_all
  have e: "position_of (CRLF @ CRLF) raw = Some ?e"
    using position_of_separator [OF ls(2,3), of body] a ls(1) by simp
  have t: "take (?e + 2) raw = concat fs" "drop (?e + 4) raw = body" using a big by auto
  have "fields_loop [] [] (concat fs) = Inr (butlast fs, last fs)"
    using a fs fields_loop_field [of g "[]" "[]" "concat gs"] fields_loop_complete [of g gs "[]"] by simp
  moreover have "wf_field (last fs)" using a last_in_set [of fs] by (simp add: list_all_iff)
  then have "last fs \<noteq> []" by (rule wf_field_nonempty)
  ultimately show "fields raw = Inr (fs, body)"
    using e t a by (simp add: fields_def ensure_def append_butlast_last_id)
qed

text \<open>
  splitting a message into header fields is exact. The parser returns fields and a body if
  and only if the message is those fields, an empty line and that body, byte for byte, where
  each field is a named line with the lines folded into it, there is at least one field and at
  most 1001, and the header fits its limit. So nothing signed is normalised, and what is printed
  is read back as the same fields.
\<close>

theorem fields_exact:
  "fields raw = Inr (fs, body) \<longleftrightarrow>
     raw = concat fs @ CRLF @ body \<and> fs \<noteq> [] \<and> list_all wf_field fs \<and> length fs \<le> 1001
     \<and> length (concat fs) \<le> MAX_HEADER_BYTES + 2"
  by (rule fields_iff)

section \<open>The cutting of a subject ends\<close>

text \<open>What every valid UTF-8 string satisfies: it starts with a character, and no character has more than four bytes.\<close>

definition utf8_shape :: "string \<Rightarrow> bool" where
  "utf8_shape s \<longleftrightarrow> (s \<noteq> [] \<longrightarrow> \<not> is_continuation (hd s))
     \<and> (\<forall>i < length s - 3. \<not> (is_continuation (s ! i) \<and> is_continuation (s ! (i + 1))
          \<and> is_continuation (s ! (i + 2)) \<and> is_continuation (s ! (i + 3))))"

lemma floor_boundary_le: "floor_boundary s n \<le> n"
  by (induction n) auto

lemma floor_boundary_boundary: "is_char_boundary s (floor_boundary s n)"
  by (induction n) (auto simp: is_char_boundary_def)

lemma floor_boundary_ge: "is_char_boundary s m \<Longrightarrow> m \<le> n \<Longrightarrow> m \<le> floor_boundary s n"
  by (induction n) (auto simp: le_Suc_eq)

lemma utf8_shape_drop: "utf8_shape s \<Longrightarrow> is_char_boundary s b \<Longrightarrow> b \<le> length s \<Longrightarrow> utf8_shape (drop b s)"
  unfolding utf8_shape_def
proof (intro conjI allI impI)
  fix i
  assume s: "(s \<noteq> [] \<longrightarrow> \<not> is_continuation (hd s)) \<and> (\<forall>i < length s - 3. \<not> (is_continuation (s ! i)
     \<and> is_continuation (s ! (i + 1)) \<and> is_continuation (s ! (i + 2)) \<and> is_continuation (s ! (i + 3))))"
    and b: "b \<le> length s" and i: "i < length (drop b s) - 3"
  then have "b + i < length s - 3" by simp
  with s have "\<not> (is_continuation (s ! (b + i)) \<and> is_continuation (s ! (b + i + 1)) \<and> is_continuation (s ! (b + i + 2))
      \<and> is_continuation (s ! (b + i + 3)))" by blast
  then show "\<not> (is_continuation (drop b s ! i) \<and> is_continuation (drop b s ! (i + 1)) \<and> is_continuation (drop b s ! (i + 2))
      \<and> is_continuation (drop b s ! (i + 3)))" using b i by (simp add: add.assoc)
qed (auto simp: is_char_boundary_def hd_drop_conv_nth hd_conv_nth)

lemma chunk_progress:
  assumes "utf8_shape s" "s \<noteq> []"
  shows "min (length s) 39 \<le> floor_boundary s (min (length s) 42)"
proof (cases "length s \<le> 42")
  case True
  then show ?thesis using floor_boundary_ge [of s "length s" "length s"] by (simp add: is_char_boundary_def min_def)
next
  case False
  then have "39 < length s - 3" by simp
  with assms(1) have "\<not> (is_continuation (s ! 39) \<and> is_continuation (s ! 40) \<and> is_continuation (s ! 41) \<and> is_continuation (s ! 42))"
    unfolding utf8_shape_def by fastforce
  then obtain m where m: "39 \<le> m" "m \<le> 42" "\<not> is_continuation (s ! m)" by fastforce
  then have "is_char_boundary s m" using False by (simp add: is_char_boundary_def)
  from floor_boundary_ge [OF this m(2)] show ?thesis using False m(1) by simp
qed

text \<open>
  C38: marking a subject that already carries other marks always ends. On every valid UTF-8 text
  the loop that cuts the text into encoded words returns; the words put together are the text,
  none is empty or longer than 42 bytes, each starts at a character, and there are at most one
  more than the length over 39.
\<close>

theorem subject_chunks_terminates:
  assumes "utf8_shape s"
  shows "\<exists>cs. subject_chunks s = Some cs \<and> concat cs = s \<and> length cs \<le> length s div 39 + 1
    \<and> list_all (\<lambda>c. c \<noteq> [] \<and> length c \<le> 42 \<and> \<not> is_continuation (hd c)) cs"
  using assms
proof (induction s rule: length_induct)
  case (1 s)
  show ?case
  proof (cases "s = []")
    case True
    then show ?thesis by (subst subject_chunks.simps) simp
  next
    case False
    let ?b = "floor_boundary s (min (length s) 42)"
    have b: "min (length s) 39 \<le> ?b" "?b \<le> min (length s) 42"
      by (rule chunk_progress [OF 1(2) False]) (rule floor_boundary_le)
    then have pos: "0 < ?b" using False by (cases s) auto
    have "utf8_shape (drop ?b s)" using 1(2) b by (intro utf8_shape_drop floor_boundary_boundary) auto
    moreover have "length (drop ?b s) < length s" using pos False by simp
    ultimately obtain cs where cs: "subject_chunks (drop ?b s) = Some cs" "concat cs = drop ?b s"
      "length cs \<le> length (drop ?b s) div 39 + 1"
      "list_all (\<lambda>c. c \<noteq> [] \<and> length c \<le> 42 \<and> \<not> is_continuation (hd c)) cs" using 1(1) by blast
    have r: "subject_chunks s = Some (take ?b s # cs)" by (subst subject_chunks.simps) (simp add: False cs(1))
    have "length (take ?b s # cs) \<le> length s div 39 + 1"
    proof (cases "?b = length s")
      case True
      then have "cs = []" using cs(2,4) by (cases cs) auto
      then show ?thesis by simp
    next
      case False
      then have "39 \<le> ?b" using b by (auto simp: min_def split: if_splits)
      then have "39 \<le> length s" "length (drop ?b s) \<le> length s - 39" using b by auto
      then have "length (drop ?b s) div 39 + 1 \<le> length s div 39" by (simp add: le_div_geq div_le_mono)
      then show ?thesis using cs(3) by simp
    qed
    moreover have "\<not> is_continuation (hd (take ?b s))" using 1(2) False pos by (simp add: utf8_shape_def)
    ultimately show ?thesis using r cs(2,4) b pos False by simp
  qed
qed

section \<open>What rewriting keeps\<close>

definition clean_encoding :: "(string \<Rightarrow> string) \<Rightarrow> bool" where
  "clean_encoding b64 \<longleftrightarrow> (\<forall>s. clean_line (b64 s))"

lemma clean_line_append [simp]: "clean_line (a @ b) \<longleftrightarrow> clean_line a \<and> clean_line b"
  "clean_line []" "clean_line (c # a) \<longleftrightarrow> c \<noteq> LF \<and> c \<noteq> CR \<and> c \<noteq> CHR 0x00 \<and> clean_line a"
  by (auto simp: clean_line_def)

lemma clean_dropWhile: "clean_line l \<Longrightarrow> clean_line (dropWhile P l)"
  by (auto simp: clean_line_def dest: set_dropWhileD)

lemma clean_prefix: "clean_line (tag_prefix t)"
  by (cases t) simp_all

lemma subject_head: "clean_line v \<Longrightarrow> head_line (''Subject: '' @ tag_prefix t @ v)"
  by (simp add: head_line_def opens_field_def is_blank_def check_name_def ensure_def name_char_def byte_def clean_prefix)

lemma subject_name: "field_name (''Subject: '' @ v) = ''subject''"
proof -
  have "char_of (115 :: nat) = CHR ''s''" by code_simp
  then show ?thesis by (simp add: field_name_def to_ascii_lowercase_def ascii_lower_def byte_def)
qed

lemma subject_trusted: "\<not> untrusted_name ''subject''"
  by (simp add: untrusted_name_def starts_with_iff_prefix)

lemma unlines_snoc_map: "concat (map (\<lambda>c. CRLF @ f c) cs) @ CRLF = CRLF @ unlines (map f cs)"
  by (induction cs) simp_all

lemma wf_field_split:
  assumes "wf_field f"
  obtains n v ls where "f = n @ CHR '':'' # v @ CRLF @ unlines ls" "CHR '':'' \<notin> set n" "clean_line v" "list_all fold_line ls"
proof -
  obtain l ls where f: "f = unlines (l # ls)" "head_line l" "list_all fold_line ls" using assms by (auto simp: wf_field_def)
  then obtain n v where s: "split_once (CHR '':'') l = Some (n, v)"
    by (auto simp: head_line_def check_name_def split: option.splits)
  then have "l = n @ CHR '':'' # v" "CHR '':'' \<notin> set n" using split_once_Some by blast+
  with f show thesis by (intro that [of n v ls]) (auto simp: head_line_def)
qed

lemma tagged_subject_wf:
  assumes "tagged_subject b64 subject t f = Some (Inr g)" "wf_field f" "field_name f = ''subject''" "clean_encoding b64"
  shows "wf_field g \<and> field_name g = ''subject''"
proof -
  obtain previous remaining where p: "peel_tags [] (trim_start subject) = (previous, remaining)" by fastforce
  consider "previous = [t]" | "previous \<noteq> [t]" "previous \<noteq> []" | "previous = []" by blast
  then show ?thesis
  proof cases
    case 1
    with assms p show ?thesis by (simp add: tagged_subject_def)
  next
    case 2
    then obtain cs where "g = ''Subject: '' @ tag_prefix t @ concat (map (\<lambda>c. CRLF @ [CHR 0x09] @ encoded_subject b64 c) cs) @ CRLF"
      using assms(1) p by (auto simp: tagged_subject_def split: if_splits)
    then have g: "g = unlines ((''Subject: '' @ tag_prefix t @ []) # map (\<lambda>c. CHR 0x09 # encoded_subject b64 c) cs)"
      using unlines_snoc_map [of "\<lambda>c. CHR 0x09 # encoded_subject b64 c" cs] by simp
    have "list_all fold_line (map (\<lambda>c. CHR 0x09 # encoded_subject b64 c) cs)"
      using assms(4) by (auto simp: list_all_iff fold_line_def encoded_subject_def clean_encoding_def opens_field_def is_blank_def)
    then have "wf_field g" unfolding g by (intro wf_fieldI subject_head) simp_all
    moreover have "field_name g = ''subject''" using subject_name [of "tag_prefix t @ unlines ([] # map (\<lambda>c. CHR 0x09 # encoded_subject b64 c) cs)"] g by simp
    ultimately show ?thesis by blast
  next
    case 3
    obtain n v ls where f: "f = n @ CHR '':'' # v @ CRLF @ unlines ls" "CHR '':'' \<notin> set n" "clean_line v" "list_all fold_line ls"
      using assms(2) by (rule wf_field_split)
    have rest: "drop (Suc (length (takeWhile (\<lambda>c. c \<noteq> CHR '':'') f))) f = v @ CRLF @ unlines ls"
      using f(2) by (simp add: f(1) takeWhile_append)
    let ?w = "dropWhile is_blank v"
    have drop: "dropWhile is_blank (v @ CRLF @ unlines ls) = ?w @ CRLF @ unlines ls" "\<not> list_all is_blank (v @ CRLF @ unlines ls)"
      by (auto simp: dropWhile_append is_blank_def dropWhile_eq_Nil_conv)
    have w: "clean_line ?w" using f(3) by (rule clean_dropWhile)
    let ?long = "length (takeWhile (\<lambda>c. c \<noteq> LF) f) + length (tag_prefix t) + 1 > 999"
    have g: "g = (if ?long then unlines ((''Subject: '' @ tag_prefix t @ []) # (CHR 0x09 # ?w) # ls)
        else unlines ((''Subject: '' @ tag_prefix t @ '' '' @ ?w) # ls))"
      using assms(1) p 3 drop by (auto simp: tagged_subject_def Let_def rest)
    have "wf_field g"
    proof (cases ?long)
      case True
      have "list_all fold_line ((CHR 0x09 # ?w) # ls)" using f(4) w by (simp add: fold_line_def opens_field_def is_blank_def)
      then have "wf_field (unlines ((''Subject: '' @ tag_prefix t @ []) # (CHR 0x09 # ?w) # ls))"
        by (intro wf_fieldI subject_head) simp_all
      then show ?thesis using g True by simp
    next
      case False
      have "wf_field (unlines ((''Subject: '' @ tag_prefix t @ '' '' @ ?w) # ls))"
        using f(4) w by (intro wf_fieldI subject_head) simp_all
      then show ?thesis using g False by simp
    qed
    moreover have "\<exists>r. g = ''Subject: '' @ r" using g by auto
    ultimately show ?thesis using subject_name by auto
  qed
qed

lemma rewrite_fields_kept:
  assumes "rewrite_fields b64 subject tag fs = Some (Inr gs)" "list_all wf_field fs" "clean_encoding b64"
  shows "list_all wf_field gs \<and> (\<forall>g \<in> set gs. \<not> untrusted_name (field_name g)) \<and> length gs \<le> length fs
    \<and> map field_name gs = map field_name (filter (\<lambda>f. \<not> untrusted_name (field_name f)) fs)
    \<and> filter (\<lambda>g. tag = None \<or> field_name g \<noteq> ''subject'') gs
      = filter (\<lambda>f. \<not> untrusted_name (field_name f) \<and> (tag = None \<or> field_name f \<noteq> ''subject'')) fs"
  using assms
proof (induction fs arbitrary: gs)
  case (Cons f fs)
  show ?case
  proof (cases "untrusted_name (field_name f)")
    case True
    with Cons show ?thesis by fastforce
  next
    case False
    obtain g gs' where g: "(if field_name f = ''subject'' then (case tag of None \<Rightarrow> Some (Inr f) | Some t \<Rightarrow> tagged_subject b64 subject t f)
        else Some (Inr f)) = Some (Inr g)" "rewrite_fields b64 subject tag fs = Some (Inr gs')" "gs = g # gs'"
      using Cons.prems(1) False by (auto simp: and_then_Inr_iff split: option.splits sum.splits if_splits)
    have "wf_field g \<and> field_name g = field_name f \<and> (tag = None \<or> field_name f \<noteq> ''subject'' \<longrightarrow> g = f)"
      using g(1) Cons.prems(2,3) tagged_subject_wf [of b64 subject _ f g]
      by (auto split: if_splits option.splits)
    then show ?thesis using Cons.IH [OF g(2)] Cons.prems(2,3) g(3) False by auto
  qed
qed simp

text \<open>
  C30: rewriting a message keeps it intact and discards forged results. When the fields that the
  gateway adds are some and well formed and the result fits the header limits, the rewritten message is
  read back as the added fields, then the fields of the original in their order without those in
  the gateway's own name space, then possibly a subject that was missing, and the body unchanged
  byte for byte; every field other than a marked subject is byte for byte the original one.
\<close>

theorem rewrite_preserves_message:
  assumes "rewrite_with_tag b64 subject raw tag (concat es) = Some (Inr out)" "fields raw = Inr (fs, body)"
    and "es \<noteq> []" "list_all wf_field es" "clean_encoding b64"
    and "length es + length fs \<le> 1000" "length out \<le> MAX_HEADER_BYTES + 4 + length body"
  shows "\<exists>gs extra. fields out = Inr (es @ gs @ extra, body)
    \<and> filter (\<lambda>g. tag = None \<or> field_name g \<noteq> ''subject'') gs
       = filter (\<lambda>f. \<not> untrusted_name (field_name f) \<and> (tag = None \<or> field_name f \<noteq> ''subject'')) fs
    \<and> map field_name gs = map field_name (filter (\<lambda>f. \<not> untrusted_name (field_name f)) fs)
    \<and> (\<forall>g \<in> set (gs @ extra). \<not> untrusted_name (field_name g))
    \<and> (extra = [] \<or> (\<exists>t. tag = Some t \<and> extra = [''Subject: '' @ tag_prefix t @ CRLF] \<and> ''subject'' \<notin> set (map field_name fs)))"
proof -
  define extra where "extra = (case tag of Some t \<Rightarrow> if \<exists>f \<in> set fs. field_name f = ''subject'' then []
      else [''Subject: '' @ tag_prefix t @ CRLF] | None \<Rightarrow> [])"
  obtain gs where gs: "rewrite_fields b64 subject tag fs = Some (Inr gs)" "out = concat (es @ gs @ extra) @ CRLF @ body"
    using assms(1,2) by (auto simp: rewrite_with_tag_def extra_def and_then_Inr_iff split: option.splits if_splits)
  note f = assms(2) [unfolded fields_iff]
  have kept: "list_all wf_field gs" "\<forall>g \<in> set gs. \<not> untrusted_name (field_name g)" "length gs \<le> length fs"
    "map field_name gs = map field_name (filter (\<lambda>f. \<not> untrusted_name (field_name f)) fs)"
    "filter (\<lambda>g. tag = None \<or> field_name g \<noteq> ''subject'') gs
      = filter (\<lambda>f. \<not> untrusted_name (field_name f) \<and> (tag = None \<or> field_name f \<noteq> ''subject'')) fs"
    using rewrite_fields_kept [OF gs(1) _ assms(5)] f by auto
  have extra: "list_all wf_field extra" "\<forall>g \<in> set extra. field_name g = ''subject''" "length extra \<le> 1"
    using wf_fieldI [OF subject_head [of "[]"], of "[]"] subject_name by (auto simp: extra_def split: option.splits)
  have "fields out = Inr (es @ gs @ extra, body)"
    unfolding fields_iff using gs(2) assms(3,4,6,7) kept(1,3) extra(1,3) by simp
  moreover have "\<forall>g \<in> set (gs @ extra). \<not> untrusted_name (field_name g)"
    using kept(2) extra(2) subject_trusted by auto
  moreover have "extra = [] \<or> (\<exists>t. tag = Some t \<and> extra = [''Subject: '' @ tag_prefix t @ CRLF] \<and> ''subject'' \<notin> set (map field_name fs))"
    by (auto simp: extra_def split: option.splits)
  ultimately show ?thesis using kept(4,5) by blast
qed

section \<open>Concrete messages\<close>

definition sample_mail :: string where
  "sample_mail = ''Subject: hi'' @ CRLF @ ''X-NoiseFence-Score: 0'' @ CRLF @ CRLF @ ''body'' @ CRLF"

definition hex_encoding :: "string \<Rightarrow> string" where "hex_encoding s = replicate (length s) (CHR ''a'')"

lemma ascii_lower_upper: "ascii_lower (CHR ''S'') = CHR ''s''" "ascii_lower (CHR ''X'') = CHR ''x''"
  "ascii_lower (CHR ''N'') = CHR ''n''" "ascii_lower (CHR ''F'') = CHR ''f''"
  by code_simp+

lemma ascii_lower_other: "\<not> (65 \<le> byte c \<and> byte c \<le> 90) \<Longrightarrow> ascii_lower c = c"
  by (auto simp: ascii_lower_def)

lemma sample_names: "field_name (''Subject: hi'' @ CRLF) = ''subject''"
  "field_name (''X-NoiseFence-Score: 0'' @ CRLF) = ''x-noisefence-score''"
  by (simp_all add: field_name_def to_ascii_lowercase_def ascii_lower_upper ascii_lower_other byte_def)

lemma sample_wf: "wf_field (''Subject: hi'' @ CRLF)" "wf_field (''X-NoiseFence-Score: 0'' @ CRLF)"
  "wf_field (''X-NoiseFence-Score: 99'' @ CRLF)"
  by (rule wf_field_head; simp add: head_line_def opens_field_def is_blank_def check_name_def ensure_def name_char_def byte_def)+

lemma sample_mail_fields:
  "fields sample_mail = Inr ([''Subject: hi'' @ CRLF, ''X-NoiseFence-Score: 0'' @ CRLF], ''body'' @ CRLF)"
  unfolding fields_iff using sample_wf by (simp add: sample_mail_def MAX_HEADER_BYTES_def)

lemma sample_peel: "peel_tags [] (trim_start ''hi'') = ([], ''hi'')"
  by (simp add: trim_start.simps [of "''hi''"] char_is_whitespace_def byte_def peel_tags.simps [of "[]"] leading_tag_def
      eq_ignore_ascii_case_def to_ascii_lowercase_def)

lemma sample_rewrite:
  "rewrite_with_tag hex_encoding ''hi'' sample_mail (Some Tag_Spam) (concat [''X-NoiseFence-Score: 99'' @ CRLF])
     = Some (Inr (''X-NoiseFence-Score: 99'' @ CRLF @ ''Subject: [SPAM] hi'' @ CRLF @ CRLF @ ''body'' @ CRLF))"
  using sample_names sample_mail_fields sample_peel
  by (simp add: rewrite_with_tag_def untrusted_name_def starts_with_iff_prefix tagged_subject_def is_blank_def)

theorem rewrite_preserves_message_witness:
  "\<exists>gs extra. fields (''X-NoiseFence-Score: 99'' @ CRLF @ ''Subject: [SPAM] hi'' @ CRLF @ CRLF @ ''body'' @ CRLF)
     = Inr ([''X-NoiseFence-Score: 99'' @ CRLF] @ gs @ extra, ''body'' @ CRLF) \<and> map field_name gs = [''subject'']"
proof -
  have enc: "clean_encoding hex_encoding" by (simp add: clean_encoding_def hex_encoding_def clean_line_def)
  have kept: "map field_name (filter (\<lambda>f. \<not> untrusted_name (field_name f))
      [''Subject: hi'' @ CRLF, ''X-NoiseFence-Score: 0'' @ CRLF]) = [''subject'']"
    using sample_names by (simp add: untrusted_name_def starts_with_iff_prefix)
  obtain gs extra where g:
    "fields (''X-NoiseFence-Score: 99'' @ CRLF @ ''Subject: [SPAM] hi'' @ CRLF @ CRLF @ ''body'' @ CRLF)
       = Inr ([''X-NoiseFence-Score: 99'' @ CRLF] @ gs @ extra, ''body'' @ CRLF)"
    "map field_name gs = map field_name (filter (\<lambda>f. \<not> untrusted_name (field_name f))
      [''Subject: hi'' @ CRLF, ''X-NoiseFence-Score: 0'' @ CRLF])"
    using rewrite_preserves_message [OF sample_rewrite sample_mail_fields _ _ enc] sample_wf(3)
    by (simp add: MAX_HEADER_BYTES_def) blast
  show ?thesis by (intro exI [of _ gs] exI [of _ extra] conjI g(1)) (rule trans [OF g(2) kept])
qed

theorem subject_chunks_terminates_witness:
  "\<exists>cs. subject_chunks (replicate 100 (CHR ''a'')) = Some cs \<and> concat cs = replicate 100 (CHR ''a'') \<and> length cs \<le> 3"
proof -
  have "utf8_shape (replicate 100 (CHR ''a''))" by (simp add: utf8_shape_def is_continuation_def byte_def)
  from subject_chunks_terminates [OF this] show ?thesis by auto
qed

end
