(* ===== verification/NF_Wire.thy ===== *)
theory NF_Wire
  imports NF_Message
begin

text \<open>
  Bytes on an SMTP connection (\<open>line\<close> and the reception of DATA in \<open>src/smtp.rs\<close>, \<open>dot_stuff\<close> in
  \<open>src/relay.rs\<close>).

  A connection is what its buffer still holds and the list of what it is filled with next: bytes,
  or an error or timeout that ends the read. The end of the list, like an empty read, is the end
  of the stream.
\<close>

section \<open>Lines\<close>

datatype chunk = Chunk string | Broken string

definition LINE_FEED :: string where "LINE_FEED = [LF]"

definition framed :: "string \<Rightarrow> bool" where
  "framed l \<longleftrightarrow> ends_with CRLF l \<and> clean_line (take (length l - 2) l)"

type_synonym conn = "string \<times> chunk list"

definition feed :: "conn \<Rightarrow> chunk list" where
  "feed c = (if fst c = [] then snd c else Chunk (fst c) # snd c)"

text \<open>The loop over \<open>fill_buf\<close> and \<open>consume\<close>: the line, what is left in the buffer and what comes next.\<close>

fun read_line :: "nat \<Rightarrow> string \<Rightarrow> chunk list \<Rightarrow> (string option \<times> conn) result" where
  "read_line limit out [] = and_then (ensure (out = []) ''truncated SMTP line'') (\<lambda>_. Inr (None, [], []))"
| "read_line limit out (Broken e # io) = Inl e"
| "read_line limit out (Chunk buf # io) =
     (if buf = [] then and_then (ensure (out = []) ''truncated SMTP line'') (\<lambda>_. Inr (None, [], io))
      else
       (let n = (case position_of LINE_FEED buf of Some i \<Rightarrow> i + 1 | None \<Rightarrow> length buf) in
        and_then (ensure (length out + n \<le> limit) ''SMTP line too long'') (\<lambda>_.
        if buf ! (n - 1) = LF
        then and_then (ensure (framed (out @ take n buf)) ''invalid SMTP newline or NUL'') (\<lambda>_.
             Inr (Some (out @ take n buf), drop n buf, io))
        else read_line limit (out @ take n buf) io)))"

definition line :: "nat \<Rightarrow> conn \<Rightarrow> (string option \<times> conn) result" where
  "line limit c = read_line limit [] (feed c)"

section \<open>Reception of a message\<close>

fun chunk_size :: "chunk \<Rightarrow> nat" where
  "chunk_size (Chunk s) = Suc (length s)"
| "chunk_size (Broken e) = 1"

definition stream_size :: "chunk list \<Rightarrow> nat" where
  "stream_size io = sum_list (map chunk_size io)"

lemma stream_size_simps [simp]: "stream_size [] = 0" "stream_size (c # io) = chunk_size c + stream_size io"
  by (simp_all add: stream_size_def)

lemma read_line_consumes: "read_line limit out io = Inr (Some l, c) \<Longrightarrow> stream_size (feed c) < stream_size io"
proof (induction limit out io rule: read_line.induct)
  case (3 limit out buf io)
  let ?n = "case position_of LINE_FEED buf of Some i \<Rightarrow> i + 1 | None \<Rightarrow> length buf"
  have "buf \<noteq> []" using 3(2) by (auto simp: and_then_Inr_iff)
  then have n: "0 < ?n" by (auto split: option.splits)
  show ?case
  proof (cases "buf ! (?n - 1) = LF")
    case True
    with 3(2) \<open>buf \<noteq> []\<close> n show ?thesis
      by (auto simp: Let_def and_then_Inr_iff feed_def split: if_splits option.splits)
  next
    case False
    with 3 \<open>buf \<noteq> []\<close> show ?thesis by (fastforce simp: Let_def and_then_Inr_iff)
  qed
qed (auto simp: and_then_Inr_iff)

datatype reception = Received string conn | Disconnected | TooLarge | Reception_Error string

function receive :: "nat \<Rightarrow> string \<Rightarrow> conn \<Rightarrow> reception" where
  "receive maximum body io =
     (case line 1001 io of
        Inl e \<Rightarrow> Reception_Error e
      | Inr (None, _) \<Rightarrow> Disconnected
      | Inr (Some l, io') \<Rightarrow>
          if l = ''.'' @ CRLF then Received body io'
          else
           (let l' = (if starts_with ''.'' l then tl l else l)
            in if length l' > 1000 then Reception_Error ''DATA line too long''
               else if length body + length l' > maximum then TooLarge
               else receive maximum (body @ l') io'))"
  by pat_completeness auto
termination
  by (relation "measure (\<lambda>(_, _, io). stream_size (feed io))") (auto simp: line_def dest: read_line_consumes)

declare receive.simps [simp del]

section \<open>Transmission\<close>

fun stuff :: "bool \<Rightarrow> string \<Rightarrow> string" where
  "stuff start [] = []"
| "stuff start (c # s) = (if start \<and> c = CHR ''.'' then [CHR ''.''] else []) @ c # stuff (c = LF) s"

definition dot_stuff :: "string \<Rightarrow> string" where
  "dot_stuff raw = stuff True raw @ (if ends_with CRLF raw then [] else CRLF)"

section \<open>Lines do not depend on buffering\<close>

text \<open>The next line of a stream of bytes, with what follows it.\<close>

definition next_line :: "nat \<Rightarrow> string \<Rightarrow> (string option \<times> string) result" where
  "next_line limit s =
     (if s = [] then Inr (None, [])
      else
       (case position_of LINE_FEED s of
          None \<Rightarrow> Inl (if length s \<le> limit then ''truncated SMTP line'' else ''SMTP line too long'')
        | Some i \<Rightarrow>
            if i + 1 > limit then Inl ''SMTP line too long''
            else if framed (take (i + 1) s) then Inr (Some (take (i + 1) s), drop (i + 1) s)
            else Inl ''invalid SMTP newline or NUL''))"

definition bytes :: "chunk list \<Rightarrow> string" where
  "bytes io = concat (map (\<lambda>c. case c of Chunk s \<Rightarrow> s | Broken _ \<Rightarrow> []) io)"

definition plain_stream :: "chunk list \<Rightarrow> bool" where
  "plain_stream io \<longleftrightarrow> list_all (\<lambda>c. case c of Chunk s \<Rightarrow> s \<noteq> [] | Broken _ \<Rightarrow> False) io"

definition conn_bytes :: "conn \<Rightarrow> string" where
  "conn_bytes c = fst c @ bytes (snd c)"

definition plain_conn :: "conn \<Rightarrow> bool" where
  "plain_conn c \<longleftrightarrow> plain_stream (snd c)"

lemma bytes_simps [simp]: "bytes [] = []" "bytes (Chunk s # io) = s @ bytes io"
  by (simp_all add: bytes_def)

lemma plain_stream_simps [simp]: "plain_stream []" "plain_stream (Chunk s # io) \<longleftrightarrow> s \<noteq> [] \<and> plain_stream io"
  "\<not> plain_stream (Broken e # io)"
  by (simp_all add: plain_stream_def)

lemma position_LF_None: "position_of LINE_FEED s = None \<longleftrightarrow> LF \<notin> set s"
  by (induction s) (auto simp: LINE_FEED_def)

lemma position_LF_Some: "position_of LINE_FEED s = Some i \<Longrightarrow> i < length s \<and> s ! i = LF \<and> LF \<notin> set (take i s)"
  by (induction s arbitrary: i) (auto simp: LINE_FEED_def split: if_splits)

lemma position_LF_append: "LF \<notin> set a \<Longrightarrow> position_of LINE_FEED (a @ b) = map_option (\<lambda>i. length a + i) (position_of LINE_FEED b)"
  by (induction a) (cases "position_of LINE_FEED b"; simp add: LINE_FEED_def)+

lemma position_LF_prefix: "position_of LINE_FEED a = Some i \<Longrightarrow> position_of LINE_FEED (a @ b) = Some i"
  by (induction a arbitrary: i) (auto simp: LINE_FEED_def split: if_splits)

lemma read_line_next:
  assumes "plain_stream io" "LF \<notin> set out" "length out \<le> limit"
  shows "(case read_line limit out io of
      Inl e \<Rightarrow> next_line limit (out @ bytes io) = Inl e
    | Inr (l, c) \<Rightarrow> plain_conn c \<and> next_line limit (out @ bytes io) = Inr (l, conn_bytes c))"
  using assms
proof (induction limit out io rule: read_line.induct)
  case (1 limit out)
  then have "position_of LINE_FEED out = None" by (simp add: position_LF_None)
  with 1 show ?case by (simp add: ensure_def next_line_def plain_conn_def conn_bytes_def)
next
  case (3 limit out buf io)
  have buf: "buf \<noteq> []" "plain_stream io" using 3(2) by auto
  show ?case
  proof (cases "position_of LINE_FEED buf")
    case None
    then have nl: "LF \<notin> set buf" by (simp add: position_LF_None)
    then have last: "buf ! (length buf - Suc 0) \<noteq> LF" using buf by (metis One_nat_def last_conv_nth last_in_set)
    show ?thesis
    proof (cases "length out + length buf \<le> limit")
      case True
      with 3(1) [of "length buf"] None buf nl last 3(3) show ?thesis
        by (cases "read_line limit (out @ buf) io") (auto simp: ensure_def)
    next
      case False
      have "position_of LINE_FEED (out @ buf @ bytes io) = map_option (\<lambda>i. length out + length buf + i) (position_of LINE_FEED (bytes io))"
        using nl 3(3) by (simp add: position_LF_append option.map_comp o_def add.assoc)
      with False None buf show ?thesis by (auto simp: ensure_def next_line_def split: option.splits)
    qed
  next
    case (Some i)
    have i: "i < length buf" "buf ! i = LF" using position_LF_Some [OF Some] by auto
    have pos: "position_of LINE_FEED (out @ buf @ bytes io) = Some (length out + i)"
      using 3(3) Some by (simp add: position_LF_append position_LF_prefix)
    have t: "take (length out + i + 1) (out @ buf @ bytes io) = out @ take (i + 1) buf"
      "drop (length out + i + 1) (out @ buf @ bytes io) = drop (i + 1) buf @ bytes io" using i by auto
    show ?thesis using Some buf i pos t
      by (auto simp: ensure_def next_line_def plain_conn_def conn_bytes_def)
  qed
qed simp

lemma plain_feed: "plain_conn c \<Longrightarrow> plain_stream (feed c) \<and> bytes (feed c) = conn_bytes c"
  by (auto simp: feed_def plain_conn_def conn_bytes_def)

text \<open>
  C28: reading a line does not depend on how the bytes arrive. For every way a stream of bytes is
  cut into buffers, the reader gives the line, the error or the end that the reference reader
  gives on the bytes put together, and leaves the same bytes to be read.
\<close>

theorem line_buffering_independent:
  assumes "plain_conn c"
  shows "(case line limit c of Inl e \<Rightarrow> Inl e | Inr (l, c') \<Rightarrow> Inr (l, conn_bytes c')) = next_line limit (conn_bytes c)"
  using read_line_next [of "feed c" "[]" limit] assms plain_feed by (auto simp: line_def split: sum.splits)

theorem line_buffering_independent_witness:
  "(case line 10 (''NO'', [Chunk (''OP'' @ [CR]), Chunk ([LF] @ ''QU'')]) of Inl e \<Rightarrow> Inl e | Inr (l, c') \<Rightarrow> Inr (l, conn_bytes c'))
     = next_line 10 (''NOOP'' @ CRLF @ ''QU'')"
  using line_buffering_independent [of "(''NO'', [Chunk (''OP'' @ [CR]), Chunk ([LF] @ ''QU'')])" 10]
  by (simp add: plain_conn_def conn_bytes_def)

lemma line_of_next:
  assumes "plain_conn c" "next_line limit (conn_bytes c) = Inr (l, r)"
  shows "\<exists>c'. line limit c = Inr (l, c') \<and> plain_conn c' \<and> conn_bytes c' = r"
  using read_line_next [of "feed c" "[]" limit] assms plain_feed [of c] by (auto simp: line_def split: sum.splits)

section \<open>What is received\<close>

lemma framed_iff: "framed l \<longleftrightarrow> (\<exists>m. l = m @ CRLF \<and> clean_line m)"
  by (auto simp: framed_def ends_with_iff_suffix suffix_def)

lemma read_line_framed: "read_line limit out io = Inr (Some l, c) \<Longrightarrow> framed l \<and> length l \<le> limit"
proof (induction limit out io rule: read_line.induct)
  case (3 limit out buf io)
  let ?n = "case position_of LINE_FEED buf of Some i \<Rightarrow> i + 1 | None \<Rightarrow> length buf"
  have n: "?n \<le> length buf" by (auto split: option.splits dest: position_LF_Some)
  with 3 show ?case by (auto simp: Let_def and_then_Inr_iff split: if_splits)
qed (auto simp: and_then_Inr_iff)

lemma receive_sound:
  "receive maximum body io = Received out rest \<Longrightarrow> \<exists>ls. out = body @ unlines ls
     \<and> list_all (\<lambda>l. clean_line l \<and> length l \<le> 998) ls \<and> (length body \<le> maximum \<longrightarrow> length out \<le> maximum)"
proof (induction maximum body io rule: receive.induct)
  case (1 maximum body io)
  obtain l io' where l: "line 1001 io = Inr (Some l, io')"
    using 1(2) by (auto simp: receive.simps [of maximum body io] split: sum.splits option.splits)
  show ?case
  proof (cases "l = ''.'' @ CRLF")
    case True
    with 1(2) l show ?thesis by (intro exI [of _ "[]"]) (simp add: receive.simps [of maximum body io])
  next
    case False
    define l' where "l' = (if starts_with ''.'' l then tl l else l)"
    obtain m where m: "l = m @ CRLF" "clean_line m" using read_line_framed [of 1001 "[]" "feed io" l io'] l by (auto simp: line_def framed_iff)
    have r: "length l' \<le> 1000" "length body + length l' \<le> maximum" "receive maximum (body @ l') io' = Received out rest"
      using 1(2) l False by (auto simp: receive.simps [of maximum body io] l'_def [symmetric] Let_def split: if_splits)
    obtain m' where m': "l' = m' @ CRLF" "clean_line m'"
      using m False by (cases m) (auto simp: l'_def intro: that [of "if starts_with ''.'' m then tl m else m"])
    obtain ls where "out = (body @ l') @ unlines ls" "list_all (\<lambda>l. clean_line l \<and> length l \<le> 998) ls" "length out \<le> maximum"
      using 1(1) [OF l refl refl False l'_def] r by auto
    then show ?thesis using m' r by (intro exI [of _ "m' # ls"]) auto
  qed
qed

section \<open>A message survives its transmission\<close>

lemma stuff_append: "stuff b (a @ s) = stuff b a @ stuff (if a = [] then b else last a = LF) s"
  by (induction a arbitrary: b) auto

lemma stuff_clean: "LF \<notin> set a \<Longrightarrow> stuff False a = a"
  by (induction a) auto

definition stuffed_line :: "string \<Rightarrow> string" where
  "stuffed_line l = (if starts_with ''.'' l then CHR ''.'' # l else l)"

lemma stuff_line: "clean_line l \<Longrightarrow> stuff True (l @ CR # LF # s) = stuffed_line l @ CR # LF # stuff True s"
  by (cases l) (auto simp: stuff_append stuff_clean stuffed_line_def clean_line_def)

lemma next_line_append:
  assumes "clean_line l" "length l + 2 \<le> limit"
  shows "next_line limit (l @ CR # LF # r) = Inr (Some (l @ CRLF), r)"
proof -
  have "position_of LINE_FEED (l @ CR # LF # r) = Some (length l + 1)"
    using assms(1) by (subst position_LF_append) (auto simp: clean_line_def LINE_FEED_def)
  moreover have "take (length l + 1 + 1) (l @ CR # LF # r) = l @ CRLF" "drop (length l + 1 + 1) (l @ CR # LF # r) = r" by simp_all
  ultimately show ?thesis using assms by (simp add: next_line_def framed_iff)
qed

lemma receive_stuffed:
  assumes "list_all (\<lambda>l. clean_line l \<and> length l \<le> 998) ls" "plain_conn io"
    and "conn_bytes io = stuff True (unlines ls) @ ''.'' @ CRLF @ after" "length body + length (unlines ls) \<le> maximum"
  shows "\<exists>rest. receive maximum body io = Received (body @ unlines ls) rest \<and> plain_conn rest \<and> conn_bytes rest = after"
  using assms
proof (induction ls arbitrary: body io)
  case Nil
  have "next_line 1001 (conn_bytes io) = Inr (Some (''.'' @ CRLF), after)"
    using next_line_append [of "''.''" 1001 after] Nil by simp
  from line_of_next [OF Nil(2) this] obtain io' where "line 1001 io = Inr (Some (''.'' @ CRLF), io')" "plain_conn io'" "conn_bytes io' = after"
    by blast
  then show ?case by (simp add: receive.simps [of maximum body io])
next
  case (Cons l ls)
  have l: "clean_line l" "length l \<le> 998" "list_all (\<lambda>l. clean_line l \<and> length l \<le> 998) ls" using Cons.prems(1) by auto
  let ?s = "stuffed_line l"
  have s: "clean_line ?s" "length ?s + 2 \<le> 1001" "?s \<noteq> ''.''" using l by (auto simp: stuffed_line_def)
  have "conn_bytes io = ?s @ CR # LF # stuff True (unlines ls) @ ''.'' @ CRLF @ after"
    using Cons.prems(3) stuff_line [OF l(1)] by simp
  then have "next_line 1001 (conn_bytes io) = Inr (Some (?s @ CRLF), stuff True (unlines ls) @ ''.'' @ CRLF @ after)"
    using next_line_append [OF s(1,2)] by simp
  from line_of_next [OF Cons.prems(2) this] obtain io' where io: "line 1001 io = Inr (Some (?s @ CRLF), io')" "plain_conn io'"
    "conn_bytes io' = stuff True (unlines ls) @ ''.'' @ CRLF @ after" by blast
  have un: "(if starts_with ''.'' (?s @ CRLF) then tl (?s @ CRLF) else ?s @ CRLF) = l @ CRLF"
    by (cases l) (auto simp: stuffed_line_def)
  have "?s @ CRLF \<noteq> ''.'' @ CRLF" using s(3) by (cases ?s) auto
  then have "receive maximum body io = receive maximum (body @ l @ CRLF) io'"
    using io(1) un l(2) Cons.prems(4) by (simp add: receive.simps [of maximum body io] Let_def)
  then show ?case using Cons.IH [OF l(3) io(2,3), of "body @ l @ CRLF"] Cons.prems(4) by simp
qed

lemma wire_lines:
  "wire_ok p s \<Longrightarrow> p \<noteq> CR \<Longrightarrow> \<exists>ls t. s = unlines ls @ t \<and> list_all clean_line ls \<and> clean_line t"
proof (induction s arbitrary: p rule: length_induct)
  case (1 s)
  show ?case
  proof (cases s)
    case Nil
    then show ?thesis by (intro exI [of _ "[]"]) simp
  next
    case (Cons c r)
    then have c: "c \<noteq> CHR 0x00" "c \<noteq> LF" "c = CR \<longrightarrow> r \<noteq> [] \<and> hd r = LF" "wire_ok c r" using 1(2,3) by auto
    show ?thesis
    proof (cases "c = CR")
      case True
      then obtain r' where r': "r = LF # r'" using c(3) by (cases r) auto
      then obtain ls t where "r' = unlines ls @ t" "list_all clean_line ls" "clean_line t"
        using 1(1) [rule_format, of r' LF] Cons c(4) True by auto
      then show ?thesis using Cons True r' by (intro exI [of _ "[] # ls"] exI [of _ t]) simp
    next
      case False
      then obtain ls t where h: "r = unlines ls @ t" "list_all clean_line ls" "clean_line t"
        using 1(1) [rule_format, of r c] Cons c(4) by auto
      show ?thesis
      proof (cases ls)
        case Nil
        then show ?thesis using Cons h c False by (intro exI [of _ "[]"] exI [of _ "c # t"]) simp
      next
        case (Cons l ls')
        then show ?thesis using \<open>s = c # r\<close> h c False by (intro exI [of _ "(c # l) # ls'"] exI [of _ t]) simp
      qed
    qed
  qed
qed

lemma wire_unlines:
  assumes "wire_ok (CHR 0x00) s" "ends_with CRLF s"
  shows "\<exists>ls. s = unlines ls \<and> list_all clean_line ls"
proof -
  obtain ls t where h: "s = unlines ls @ t" "list_all clean_line ls" "clean_line t" using wire_lines [OF assms(1)] by auto
  have "t = []"
  proof (rule ccontr)
    assume "t \<noteq> []"
    then have "last t = last s" using h(1) by simp
    also have "\<dots> = LF" using assms(2) by (auto simp: ends_with_iff_suffix suffix_def)
    finally show False using h(3) \<open>t \<noteq> []\<close> last_in_set [of t] by (auto simp: clean_line_def)
  qed
  with h show ?thesis by auto
qed

definition lines_within :: "nat \<Rightarrow> string \<Rightarrow> bool" where
  "lines_within n s \<longleftrightarrow> list_all (\<lambda>l. length l < n) (split_char LF s)"

lemma split_char_line: "LF \<notin> set l \<Longrightarrow> split_char LF (l @ LF # s) = l # split_char LF s"
  by (induction l) auto

lemma split_char_unlines: "list_all clean_line ls \<Longrightarrow> split_char LF (unlines ls) = map (\<lambda>l. l @ [CR]) ls @ [[]]"
proof (induction ls)
  case (Cons l ls)
  then show ?case using split_char_line [of "l @ [CR]" "unlines ls"] by (simp add: clean_line_def)
qed simp

lemma validated_wire: "message_validate raw = Inr () \<Longrightarrow> wire_ok (CHR 0x00) raw \<and> ends_with CRLF raw"
  by (auto simp: message_validate_def and_then_Inr_iff)

lemma receive_dot_stuffed:
  assumes "message_validate raw = Inr ()" "lines_within 1000 raw" "length raw \<le> maximum"
    and "plain_conn io" "conn_bytes io = dot_stuff raw @ ''.'' @ CRLF @ after"
  shows "\<exists>rest. receive maximum [] io = Received raw rest \<and> plain_conn rest \<and> conn_bytes rest = after"
proof -
  obtain ls where ls: "raw = unlines ls" "list_all clean_line ls" using validated_wire [OF assms(1)] wire_unlines by blast
  have "list_all (\<lambda>l. clean_line l \<and> length l \<le> 998) ls"
    using ls assms(2) by (auto simp: lines_within_def split_char_unlines list_all_iff)
  moreover have "dot_stuff raw = stuff True (unlines ls)" using validated_wire [OF assms(1)] ls(1) by (simp add: dot_stuff_def)
  ultimately show ?thesis using receive_stuffed [of ls io "after" "[]" maximum] assms(3-5) ls(1) by simp
qed

text \<open>
  C29: a message survives its transmission byte for byte. A validated message whose lines have at
  most 1000 bytes, sent with its dots doubled and the final dot, is received by the DATA reader as
  exactly that message, however the bytes are buffered, and the bytes that follow are left for
  the next command.
\<close>

theorem transmission_roundtrip:
  assumes "message_validate raw = Inr ()" "lines_within 1000 raw" "length raw \<le> maximum"
    and "plain_conn io" "conn_bytes io = dot_stuff raw @ ''.'' @ CRLF @ after"
  shows "\<exists>rest. receive maximum [] io = Received raw rest \<and> plain_conn rest \<and> conn_bytes rest = after"
  using assms by (rule receive_dot_stuffed)

text \<open>
  what DATA delivers is safe to store and to send on. A received message is a sequence of
  lines that end with CRLF, without a bare CR, a bare LF or a NUL and of at most 1000 bytes, and
  is not longer than the configured size.
\<close>

theorem received_message_framed:
  assumes "receive maximum [] io = Received raw rest"
  shows "wire_ok (CHR 0x00) raw \<and> lines_within 1000 raw \<and> length raw \<le> maximum \<and> (raw \<noteq> [] \<longrightarrow> ends_with CRLF raw)"
proof -
  obtain ls where ls: "raw = unlines ls" "list_all (\<lambda>l. clean_line l \<and> length l \<le> 998) ls" "length raw \<le> maximum"
    using receive_sound [OF assms] by auto
  have clean: "list_all clean_line ls" using ls(2) by (auto simp: list_all_iff)
  have line: "wire_ok p (l @ CR # LF # s) \<longleftrightarrow> wire_ok LF s" if "clean_line l" for p l s
    using that by (induction l arbitrary: p) auto
  have "wire_ok p (unlines ls)" for p using clean by (induction ls arbitrary: p) (simp_all add: line)
  moreover have "ends_with CRLF raw" if "raw \<noteq> []"
    using that ls(1) by (cases ls rule: rev_cases) (auto simp: ends_with_iff_suffix suffix_def)
  ultimately show ?thesis using ls clean by (auto simp: lines_within_def split_char_unlines list_all_iff)
qed

section \<open>Concrete transmissions\<close>

definition sample_dot :: string where
  "sample_dot = ''A: b'' @ CRLF @ CRLF @ ''.x'' @ CRLF"

lemma sample_dot_fields: "fields sample_dot = Inr ([''A: b'' @ CRLF], ''.x'' @ CRLF)"
proof -
  have "wf_field (''A: b'' @ CRLF)"
    by (rule wf_field_head) (simp add: head_line_def opens_field_def is_blank_def check_name_def ensure_def name_char_def byte_def)
  then show ?thesis unfolding fields_iff by (simp add: sample_dot_def MAX_HEADER_BYTES_def)
qed

lemma sample_dot_name: "field_name (''A: b'' @ CRLF) = ''a''"
  by code_simp

lemma sample_dot_valid: "message_validate sample_dot = Inr ()"
  using sample_dot_name
  by (simp add: message_validate_def sample_dot_fields ensure_def count_name_def header_byte_ok_def byte_def)
    (simp add: sample_dot_def ends_with_iff_suffix suffix_def)

lemma sample_dot_stuffed: "dot_stuff sample_dot = ''A: b'' @ CRLF @ CRLF @ ''..x'' @ CRLF"
  by (simp add: dot_stuff_def sample_dot_def ends_with_iff_suffix suffix_def)

definition sample_stream :: conn where
  "sample_stream = (''A: b'' @ [CR], [Chunk ([LF, CR, LF] @ ''.''), Chunk (''.x'' @ CRLF @ ''.'' @ CRLF @ ''QUIT'' @ CRLF)])"

theorem transmission_roundtrip_witness:
  "\<exists>rest. receive 100 [] sample_stream = Received sample_dot rest \<and> conn_bytes rest = ''QUIT'' @ CRLF"
  using transmission_roundtrip [OF sample_dot_valid, of 100 sample_stream "''QUIT'' @ CRLF"]
  by (auto simp: sample_dot_stuffed sample_stream_def plain_conn_def conn_bytes_def) (auto simp: sample_dot_def lines_within_def)

theorem received_message_framed_witness:
  "\<exists>raw rest. receive 10 [] ([], [Chunk (''..'' @ CRLF @ ''.'' @ CRLF)]) = Received raw rest \<and> wire_ok (CHR 0x00) raw \<and> length raw \<le> 10"
proof -
  have "receive 10 [] ([], [Chunk (''..'' @ CRLF @ ''.'' @ CRLF)]) = Received (''.'' @ CRLF) ([], [])"
    by (simp add: receive.simps line_def feed_def LINE_FEED_def ensure_def framed_iff)
  then show ?thesis using received_message_framed by blast
qed

end
