(* ===== verification/NF_Backscatter.thy ===== *)
theory NF_Backscatter
  imports NF_Decision NF_Message
begin

text \<open>
  Failure notices (\<open>src/backscatter.rs\<close>, with the records of \<open>src/delivery_log.rs\<close>): when a notice
  about hostile mail is withheld, and what a notice says about the failure. The redaction of
  mailbox names in a diagnostic is an argument.
\<close>

section \<open>Transcripts\<close>

record relay_event =
  re_phase :: string
  re_code :: "nat option"
  re_enhanced_code :: "string option"
  re_response :: "string option"
  re_detail :: "string option"

record attempt =
  at_route :: string
  at_peer :: "string option"
  at_outcome :: string
  at_events :: "relay_event list"
  at_truncated :: bool

section \<open>When a notice is withheld\<close>

definition BACKSCATTER_VERSION :: string where "BACKSCATTER_VERSION = ''backscatter-2''"

definition verified_tls :: "attempt \<Rightarrow> bool" where
  "verified_tls a \<longleftrightarrow> list_ex (\<lambda>e. re_phase e = ''tls'' \<and> is_some_and (re_detail e) (starts_with ''Verified TLS;'')) (at_events a)"

definition filter_refusal :: "relay_event \<Rightarrow> bool" where
  "filter_refusal f \<longleftrightarrow> re_phase f = ''data_result'' \<and> re_enhanced_code f = Some ''5.7.1''
     \<and> is_some_and (re_code f) (\<lambda>c. (c = 550 \<or> c = 554)
         \<and> is_some_and (re_response f) (\<lambda>r. eq_ignore_ascii_case r (nat_digits c @ '' 5.7.1 rejected by rspamd filter'')))"

definition refused_as_spam :: "attempt \<Rightarrow> bool" where
  "refused_as_spam a \<longleftrightarrow> at_events a \<noteq> [] \<and> at_outcome a = ''permanent'' \<and> \<not> at_truncated a \<and> verified_tls a
     \<and> filter_refusal (last (at_events a))"

definition classified_hostile :: "scan \<Rightarrow> bool" where
  "classified_hostile s \<longleftrightarrow> is_some_and (scan_decision s) (\<lambda>d. d_outcome d = Unwanted)
     \<and> is_none_or (scan_delivery_classification s) (\<lambda>c. c = Spam)
     \<and> is_none_or (scan_recipient_decision s)
         (\<lambda>r. rd_classification r = Cl_Spam \<or> rd_classification r = Cl_Phishing \<or> rd_classification r = Cl_Malware)"

definition sender_not_authenticated :: "evidence \<Rightarrow> bool" where
  "sender_not_authenticated e \<longleftrightarrow>
     (let a = ev_authentication e in
      ev_source e = SmtpSession \<and> au_state a = St_Complete \<and> au_spf_state a = St_Complete
      \<and> (au_spf a = Some A_Fail \<or> au_spf a = Some A_SoftFail)
      \<and> au_dkim_state a = St_Complete \<and> is_some_and (au_dkim a) (list_all (\<lambda>r. r = A_None \<or> r = A_Fail))
      \<and> au_dmarc_state a = St_Complete
      \<and> (au_dmarc_spf a = Some A_None \<or> au_dmarc_spf a = Some A_Fail)
      \<and> (au_dmarc_dkim a = Some A_None \<or> au_dmarc_dkim a = Some A_Fail)
      \<and> au_arc_state a = St_Complete \<and> (au_arc a = Some A_None \<or> au_arc a = Some A_Fail))"

definition phishing_named :: "antivirus_result \<Rightarrow> bool" where
  "phishing_named r \<longleftrightarrow> av_status r = Av_Suspicious \<and> is_some_and (av_signature r) (starts_with ''Sanesecurity.Phishing.'')"

definition native_extortion :: "scan \<Rightarrow> bool" where
  "native_extortion s \<longleftrightarrow> scan_features_complete s = Some True \<and> av_status (scan_antivirus s) = Av_Clean
     \<and> phishing_named (scan_signatures s) \<and> llm_opinion (scan_llm s) \<noteq> Some Legitimate
     \<and> is_some_and (scan_message_context s) (\<lambda>c. mc_direct_extortion c \<and> \<not> mc_encrypted c \<and> \<not> mc_threat_report c
         \<and> \<not> mc_transaction_notice c \<and> \<not> mc_conditional_security_notice c)
     \<and> (scan_complete s \<or> observed_threat_with_partial_coverage s)"

definition suppression_reason :: "scan \<Rightarrow> attempt \<Rightarrow> string option" where
  "suppression_reason s a =
     (if \<not> refused_as_spam a \<or> \<not> classified_hostile s \<or> \<not> is_some_and (scan_evidence s) sender_not_authenticated then None
      else if native_extortion s then Some ''native_extortion_signature_and_upstream_rejection''
      else if \<not> scan_complete s then None
      else if av_status (scan_antivirus s) = Av_Malware then Some ''malware_and_upstream_rejection''
      else
       (case llm_verdict_of (scan_llm s) of
          None \<Rightarrow> None
        | Some v \<Rightarrow>
            if f64_within (Fin 99) (Fin 100) (scan_score s) \<and> phishing_named (scan_signatures s)
               \<and> llm_status_of (scan_llm s) = Llm_Complete \<and> llm_opinion (scan_llm s) = Some Unwanted
               \<and> lv_category v = L_Phishing \<and> f64_within (Fin (9/10)) (Fin 1) (lv_confidence v)
               \<and> f64_within (Fin (9/10)) (Fin 1) (lv_spam_probability v)
            then Some ''phishing_signature_llm_and_upstream_rejection'' else None))"

section \<open>What a notice says\<close>

definition is_ascii_digit :: "char \<Rightarrow> bool" where
  "is_ascii_digit c \<longleftrightarrow> 48 \<le> byte c \<and> byte c \<le> 57"

definition permanent_code :: "string \<Rightarrow> bool" where
  "permanent_code c =
     (case split_char (CHR ''.'') c of
        [a, b, d] \<Rightarrow> a = ''5'' \<and> list_all (\<lambda>p. p \<noteq> [] \<and> length p \<le> 3 \<and> list_all is_ascii_digit p) [b, d]
      | _ \<Rightarrow> False)"

text \<open>\<open>split_whitespace().next()\<close>: the first word of a text.\<close>

fun take_word :: "string \<Rightarrow> string" where
  "take_word [] = []"
| "take_word (c # s) = (if leading_space (c # s) > 0 then [] else c # take_word s)"

definition first_word :: "string \<Rightarrow> string option" where
  "first_word s = (let w = take_word (trim_start s) in if w = [] then None else Some w)"

definition printable_char :: "nat \<Rightarrow> char" where
  "printable_char c = (if c < 128 \<and> \<not> char_is_control c then char_of c else CHR ''?'')"

definition failure_diagnostic :: "(string \<Rightarrow> string) \<Rightarrow> string \<Rightarrow> attempt option \<Rightarrow> string \<times> string" where
  "failure_diagnostic sanitize err a =
     (if starts_with ''5.4.7 '' err then (''5.4.7'', ''Delivery retry period expired'')
      else
       (let event = Option.bind a (\<lambda>x. find (\<lambda>e. is_some_and (re_code e) (\<lambda>c. 500 \<le> c \<and> c \<le> 599)) (rev (at_events x)));
            status = unwrap_or (option_or (option_filter permanent_code (Option.bind event re_enhanced_code))
                (option_filter permanent_code (first_word err))) ''5.0.0'';
            text = unwrap_or (Option.bind event re_response) err
        in (status, take 400 (map printable_char (chars (sanitize text))))))"

section \<open>Properties\<close>

text \<open>
  A sender whose domain policy or signature passed, or whose evidence is incomplete, always gets
  the ordinary notice: withholding needs complete authentication evidence without a pass.
\<close>

lemma authenticated_notice_kept:
  assumes "suppression_reason s a = Some r"
  shows "\<exists>e. scan_evidence s = Some e \<and> au_spf (ev_authentication e) \<noteq> Some A_Pass
    \<and> au_dmarc_spf (ev_authentication e) \<noteq> Some A_Pass \<and> au_dmarc_dkim (ev_authentication e) \<noteq> Some A_Pass
    \<and> \<not> (\<exists>ds. au_dkim (ev_authentication e) = Some ds \<and> A_Pass \<in> set ds)"
  using assms
  by (auto simp: suppression_reason_def is_some_and_iff sender_not_authenticated_def Let_def list_all_iff split: if_splits)

definition enhanced_shape :: "string \<Rightarrow> bool" where
  "enhanced_shape c \<longleftrightarrow> list_all (\<lambda>x. is_ascii_digit x \<or> x = CHR ''.'') c \<and> starts_with ''5.'' c \<and> length c \<le> 9"

lemma split_char_concat: "s = concat (map (\<lambda>p. p @ [c]) (butlast (split_char c s))) @ last (split_char c s)"
proof (induction s)
  case (Cons d s)
  have "split_char c s \<noteq> []" by (cases s) (auto split: list.splits)
  then show ?case using Cons by (cases "split_char c s") (auto split: if_splits)
qed simp

lemma permanent_shape: "permanent_code c \<Longrightarrow> enhanced_shape c"
proof -
  assume "permanent_code c"
  then obtain b d where s: "split_char (CHR ''.'') c = [''5'', b, d]"
    "length b \<le> 3" "length d \<le> 3" "list_all is_ascii_digit b" "list_all is_ascii_digit d"
    by (auto simp: permanent_code_def split: list.splits)
  then have "c = ''5.'' @ b @ ''.'' @ d" using split_char_concat [of c "CHR ''.''"] by simp
  then show ?thesis using s by (auto simp: enhanced_shape_def is_ascii_digit_def byte_def list_all_iff starts_with_iff_prefix)
qed

lemma filtered_shape: "option_filter permanent_code x = Some c \<Longrightarrow> enhanced_shape c"
  by (auto simp: option_filter_Some_iff intro: permanent_shape)

lemma status_shape:
  "enhanced_shape (unwrap_or (option_or (option_filter permanent_code x) (option_filter permanent_code y)) ''5.0.0'')"
proof -
  have default: "enhanced_shape ''5.0.0''" by (simp add: enhanced_shape_def is_ascii_digit_def byte_def starts_with_iff_prefix)
  have "\<lbrakk>\<And>c. o1 = Some c \<Longrightarrow> enhanced_shape c; \<And>c. o2 = Some c \<Longrightarrow> enhanced_shape c\<rbrakk>
      \<Longrightarrow> enhanced_shape (unwrap_or (option_or o1 o2) ''5.0.0'')" for o1 o2
    using default by (cases o1; cases o2) simp_all
  then show ?thesis using filtered_shape by blast
qed

lemma printable_char_ok: "32 \<le> byte (printable_char n) \<and> byte (printable_char n) \<le> 126"
  by (auto simp: printable_char_def char_is_control_def byte_def)

text \<open>
  a failure notice cannot be forged by the remote server. Whatever the server answered and
  however it was redacted, the status of the notice is a permanent enhanced code of digits and
  dots, and its diagnostic is at most 400 printable ASCII characters, without a line break that
  could add a field.
\<close>

theorem failure_notice_injection_free:
  assumes "failure_diagnostic sanitize err a = (status, diagnostic)"
  shows "enhanced_shape status \<and> length diagnostic \<le> 400 \<and> list_all (\<lambda>c. 32 \<le> byte c \<and> byte c \<le> 126) diagnostic"
proof (cases "starts_with ''5.4.7 '' err")
  case True
  with assms show ?thesis
    by (auto simp: failure_diagnostic_def enhanced_shape_def is_ascii_digit_def byte_def starts_with_iff_prefix)
next
  case False
  define event where "event = Option.bind a (\<lambda>x. find (\<lambda>e. is_some_and (re_code e) (\<lambda>c. 500 \<le> c \<and> c \<le> 599)) (rev (at_events x)))"
  have status: "status = unwrap_or (option_or (option_filter permanent_code (Option.bind event re_enhanced_code))
      (option_filter permanent_code (first_word err))) ''5.0.0''"
    and d: "diagnostic = take 400 (map printable_char (chars (sanitize (unwrap_or (Option.bind event re_response) err))))"
    using assms False by (simp_all add: failure_diagnostic_def Let_def event_def)
  have "enhanced_shape status" unfolding status by (rule status_shape)
  moreover have "list_all (\<lambda>c. 32 \<le> byte c \<and> byte c \<le> 126) diagnostic"
    using d printable_char_ok by (auto simp: list_all_iff dest!: in_set_takeD)
  ultimately show ?thesis using d by simp
qed

theorem failure_notice_injection_free_witness:
  "\<exists>d. failure_diagnostic id ''550 no'' None = (''5.0.0'', d) \<and> length d \<le> 400"
proof -
  have "failure_diagnostic id ''550 no'' None = (''5.0.0'', take 400 (map printable_char (chars ''550 no'')))" by code_simp
  with failure_notice_injection_free show ?thesis by blast
qed

end
