(* ===== verification/NF_Queue.thy ===== *)
theory NF_Queue
  imports NF_Gate NF_Backscatter NF_Custom
begin

text \<open>
  The durable queue (\<open>src/store.rs\<close>, \<open>src/queue_body.rs\<close>, \<open>src/quarantine.rs\<close>, the commands
  of \<open>src/cluster/history.rs\<close> and the delivery jobs of \<open>src/relay.rs\<close>). A table is the list of its rows
  in insertion order, a table with a primary key that nothing else orders is a partial
  function, and a message body is a file of the spool. An operation of the store is one
  transaction: it returns the tables after its commit, or an error and the tables unchanged.
  What the file system, the replica and the upstream server answer is an argument, and so are
  the clock reading of an operation and the acknowledgements of the replica.
\<close>

section \<open>Wire bodies\<close>

definition MAX_VARIANTS :: nat where "MAX_VARIANTS = 1000"
definition MAX_RECIPIENTS_PER_VARIANT :: nat where "MAX_RECIPIENTS_PER_VARIANT = 100"
definition MAX_BATCH_HEADERS :: nat where "MAX_BATCH_HEADERS = 16 * 1024 * 1024"
definition MAX_BATCH_METADATA :: nat where "MAX_BATCH_METADATA = 32 * 1024 * 1024"

record wire_body =
  wb_prefix :: string
  wb_payload :: string

definition wire_of :: "string \<Rightarrow> wire_body" where
  "wire_of raw = \<lparr>wb_prefix = [], wb_payload = raw\<rparr>"

definition to_vec :: "wire_body \<Rightarrow> string" where
  "to_vec b = wb_prefix b @ wb_payload b"

definition wire_len :: "wire_body \<Rightarrow> nat" where
  "wire_len b = length (wb_prefix b) + length (wb_payload b)"

definition shared_payload :: "string \<Rightarrow> string result" where
  "shared_payload raw = and_then (NF_Message.fields raw) (\<lambda>(_, body). Inr body)"

definition with_shared_payload :: "string \<Rightarrow> string \<Rightarrow> wire_body result" where
  "with_shared_payload wire payload =
     (case position_of (CRLF @ CRLF) wire of
        None \<Rightarrow> Inl ''rendered headers exceed capacity or lack a separator''
      | Some n \<Rightarrow>
          if n \<ge> MAX_HEADER_BYTES * 2 + 1 then Inl ''rendered headers exceed capacity or lack a separator''
          else
            (let body = drop (n + 4) wire in
             and_then (ensure (body = payload) ''recipient renderer changed the message body'') (\<lambda>_.
             Inr \<lparr>wb_prefix = take (length wire - length body) wire, wb_payload = payload\<rparr>)))"

record batch_budget =
  bb_metadata :: nat
  bb_headers :: nat

definition budget_metadata :: "nat \<Rightarrow> batch_budget \<Rightarrow> batch_budget result" where
  "budget_metadata bytes b =
     (if bytes > MAX_BATCH_METADATA - bb_metadata b then Inl ''queue metadata capacity exceeded''
      else Inr (b\<lparr>bb_metadata := bb_metadata b + bytes\<rparr>))"

definition budget_headers :: "wire_body \<Rightarrow> batch_budget \<Rightarrow> batch_budget result" where
  "budget_headers w b =
     (let b' = b\<lparr>bb_headers := bb_headers b + length (wb_prefix w)\<rparr> in
      and_then (ensure (bb_headers b' \<le> MAX_BATCH_HEADERS) ''queue header capacity exceeded'') (\<lambda>_. Inr b'))"

section \<open>Tables\<close>

datatype delivery_status = Ds_Pending | Ds_Sending | Ds_Delivered | Ds_Failed | Ds_Notified | Ds_Suppressed
  | Ds_Quarantined | Ds_Discarded | Ds_Expired

record message_row =
  mr_id :: string
  mr_created :: int
  mr_sender :: string
  mr_scan :: scan
  mr_is_dsn :: bool
  mr_raw_present :: bool

record delivery_row =
  dr_id :: nat
  dr_message_id :: string
  dr_address :: string
  dr_destination :: string
  dr_hosts :: "string list"
  dr_status :: delivery_status
  dr_attempts :: nat
  dr_next_attempt :: int
  dr_error :: "string option"
  dr_dsn_id :: "string option"

record policy_row =
  pl_action :: action
  pl_held_until :: "int option"
  pl_released_at :: "int option"

record attempt_row =
  tr_delivery_id :: nat
  tr_attempt :: nat
  tr_trace :: attempt

record audit_row =
  ar_username :: string
  ar_action :: string
  ar_object :: string

record origin_row =
  or_node_id :: string
  or_raw_present :: bool

datatype operation = Release | Delete | Retry

datatype quarantine_command = Cmd_Release | Cmd_Delete

fun operation_of :: "quarantine_command \<Rightarrow> operation" where
  "operation_of Cmd_Release = Release"
| "operation_of Cmd_Delete = Delete"

record command_row =
  cr_id :: string
  cr_node :: string
  cr_message :: string
  cr_recipient :: string
  cr_command :: operation
  cr_username :: string
  cr_expires :: int
  cr_result :: "string option"
  cr_finished :: "int option"

record queue =
  q_messages :: "message_row list"
  q_deliveries :: "delivery_row list"
  q_policies :: "nat \<rightharpoonup> policy_row"
  q_filtering :: "nat \<rightharpoonup> custom_assessment"
  q_attempts :: "attempt_row list"
  q_audit :: "audit_row list"
  q_origin :: "string \<rightharpoonup> origin_row"
  q_corrected :: "string list"
  q_receipts :: "string \<rightharpoonup> string \<times> int"
  q_commands :: "command_row list"
  q_node :: "string option"
  q_spool :: "string \<rightharpoonup> string"
  q_gate :: gate

record job =
  jb_delivery_id :: nat
  jb_message_id :: string
  jb_created :: int
  jb_sender :: string
  jb_destination :: string
  jb_hosts :: "string list"
  jb_attempts :: nat
  jb_is_dsn :: bool

definition find_message :: "string \<Rightarrow> queue \<Rightarrow> message_row option" where
  "find_message i q = find (\<lambda>m. mr_id m = i) (q_messages q)"

definition find_delivery :: "nat \<Rightarrow> queue \<Rightarrow> delivery_row option" where
  "find_delivery i q = find (\<lambda>d. dr_id d = i) (q_deliveries q)"

text \<open>\<open>NOT EXISTS(SELECT 1 FROM cluster_origin ...)\<close>: the message belongs to this node's queue.\<close>

definition local_message :: "string \<Rightarrow> queue \<Rightarrow> bool" where
  "local_message i q \<longleftrightarrow> q_origin q i = None"

definition update_where :: "('a \<Rightarrow> bool) \<Rightarrow> ('a \<Rightarrow> 'a) \<Rightarrow> 'a list \<Rightarrow> 'a list" where
  "update_where p f = map (\<lambda>r. if p r then f r else r)"

definition update_delivery :: "nat \<Rightarrow> (delivery_row \<Rightarrow> delivery_row) \<Rightarrow> queue \<Rightarrow> queue" where
  "update_delivery i f q = q\<lparr>q_deliveries := update_where (\<lambda>d. dr_id d = i) f (q_deliveries q)\<rparr>"

definition audit :: "string \<Rightarrow> string \<Rightarrow> string \<Rightarrow> queue \<Rightarrow> queue" where
  "audit user act obj q = q\<lparr>q_audit := q_audit q @ [\<lparr>ar_username = user, ar_action = act, ar_object = obj\<rparr>]\<rparr>"

text \<open>An \<open>INTEGER PRIMARY KEY\<close> without a value is one more than the largest in use.\<close>

definition next_rowid :: "delivery_row list \<Rightarrow> nat" where
  "next_rowid ds = Suc (fold max (map dr_id ds) 0)"

section \<open>Accepting a message\<close>

record queue_variant =
  qv_id :: string
  qv_scan :: scan
  qv_raw :: wire_body
  qv_recipients :: "(recipient \<times> custom_assessment option) list"

text \<open>
  What the outside answers during an acceptance: the free space at each check, the replica, the
  creation and writing of each file (with what a failed write leaves), the directory's
  synchronisation, the commit, and whether a file that has to go is really removed.
\<close>

record acceptance_env =
  ae_now :: int
  ae_metadata_bytes :: "queue_variant \<Rightarrow> nat"
  ae_available :: "nat result"
  ae_prepared :: "unit result"
  ae_available_again :: "nat result"
  ae_write :: "string \<Rightarrow> unit result"
  ae_torn :: "string \<Rightarrow> string"
  ae_sync :: "unit result"
  ae_commit :: "unit result"
  ae_removed :: "string \<Rightarrow> bool"

definition applied_action :: "scan \<Rightarrow> custom_assessment option \<Rightarrow> applied option" where
  "applied_action s a = option_or (map_option ca_action a) (scan_action s)"

definition valid_queue_id :: "string \<Rightarrow> bool" where
  "valid_queue_id i \<longleftrightarrow> i \<noteq> [] \<and> length i \<le> 100
     \<and> list_all (\<lambda>c. is_ascii_alphanumeric c \<or> c \<in> set ''-_'') i"

record batch_state =
  bs_budget :: batch_budget
  bs_recipients :: nat
  bs_required :: nat
  bs_ids :: "string list"

definition check_variant :: "acceptance_env \<Rightarrow> queue_variant \<Rightarrow> batch_state \<Rightarrow> batch_state result" where
  "check_variant env v b =
     and_then (ensure (qv_id v \<notin> set (bs_ids b)) ''duplicate queue identifier'') (\<lambda>_.
     and_then (ensure (qv_recipients v \<noteq> [] \<and> length (qv_recipients v) \<le> MAX_RECIPIENTS_PER_VARIANT)
         ''invalid variant recipient count'') (\<lambda>_.
     and_then (ensure (bs_recipients b + length (qv_recipients v) \<le> MAX_VARIANTS)
         ''queue recipient capacity exceeded'') (\<lambda>_.
     and_then (budget_metadata (ae_metadata_bytes env v) (bs_budget b)) (\<lambda>b1.
     and_then (budget_headers (qv_raw v) b1) (\<lambda>b2.
     and_then (ensure (bs_required b + wire_len (qv_raw v) < 2 ^ 64) ''queue size overflow'') (\<lambda>_.
     and_then (ensure (valid_queue_id (qv_id v)) ''invalid queue identifier'') (\<lambda>_.
     and_then (ensure (list_all (\<lambda>(_, a). is_none_or (applied_action (qv_scan v) a)
           (\<lambda>p. 1 \<le> unat (ap_quarantine_days p) \<and> unat (ap_quarantine_days p) \<le> 30)) (qv_recipients v))
         ''invalid quarantine retention'') (\<lambda>_.
     Inr \<lparr>bs_budget = b2, bs_recipients = bs_recipients b + length (qv_recipients v),
          bs_required = bs_required b + wire_len (qv_raw v), bs_ids = qv_id v # bs_ids b\<rparr>))))))))"

fun check_variants :: "acceptance_env \<Rightarrow> queue_variant list \<Rightarrow> batch_state \<Rightarrow> batch_state result" where
  "check_variants env [] b = Inr b"
| "check_variants env (v # vs) b = and_then (check_variant env v b) (check_variants env vs)"

text \<open>The bodies, each in a file of its own that must not exist: what was written and the outcome.\<close>

fun write_bodies ::
    "acceptance_env \<Rightarrow> queue_variant list \<Rightarrow> string list \<Rightarrow> (string \<rightharpoonup> string)
      \<Rightarrow> string list \<times> (string \<rightharpoonup> string) \<times> unit result" where
  "write_bodies env [] written sp = (written, sp, Inr ())"
| "write_bodies env (v # vs) written sp =
     (if sp (qv_id v) \<noteq> None then (written, sp, Inl ''File exists'')
      else
       (case ae_write env (qv_id v) of
          Inl e \<Rightarrow> (written @ [qv_id v], sp(qv_id v \<mapsto> ae_torn env (qv_id v)), Inl e)
        | Inr _ \<Rightarrow> write_bodies env vs (written @ [qv_id v]) (sp(qv_id v \<mapsto> to_vec (qv_raw v)))))"

definition initial_status :: "action \<Rightarrow> delivery_status" where
  "initial_status a = (if a = Quarantine then Ds_Quarantined else Ds_Pending)"

definition insert_recipient ::
    "acceptance_env \<Rightarrow> queue_variant \<Rightarrow> recipient \<times> custom_assessment option \<Rightarrow> queue \<Rightarrow> queue result" where
  "insert_recipient env v ra q =
     (let (r, a) = ra; applied = applied_action (qv_scan v) a;
          act = (case applied of None \<Rightarrow> Deliver | Some p \<Rightarrow> ap_effective p);
          days = (case applied of None \<Rightarrow> 14 | Some p \<Rightarrow> unat (ap_quarantine_days p));
          i = next_rowid (q_deliveries q);
          row = \<lparr>dr_id = i, dr_message_id = qv_id v, dr_address = rc_address r, dr_destination = rc_destination r,
                 dr_hosts = rc_hosts r, dr_status = initial_status act, dr_attempts = 0, dr_next_attempt = ae_now env,
                 dr_error = None, dr_dsn_id = None\<rparr>
      in if list_ex (\<lambda>d. dr_message_id d = qv_id v \<and> dr_address d = rc_address r) (q_deliveries q)
         then Inl ''UNIQUE constraint failed: deliveries.message_id, deliveries.address''
         else Inr (q\<lparr>q_deliveries := q_deliveries q @ [row],
             q_policies := (q_policies q)(i \<mapsto> \<lparr>pl_action = act,
               pl_held_until = (if act = Quarantine then Some (ae_now env + int days * 86400) else None),
               pl_released_at = None\<rparr>),
             q_filtering := (case a of None \<Rightarrow> q_filtering q | Some x \<Rightarrow> (q_filtering q)(i \<mapsto> x))\<rparr>))"

fun insert_recipients ::
    "acceptance_env \<Rightarrow> queue_variant \<Rightarrow> (recipient \<times> custom_assessment option) list \<Rightarrow> queue \<Rightarrow> queue result" where
  "insert_recipients env v [] q = Inr q"
| "insert_recipients env v (r # rs) q = and_then (insert_recipient env v r q) (insert_recipients env v rs)"

definition insert_message :: "message_row \<Rightarrow> queue \<Rightarrow> queue result" where
  "insert_message m q =
     (if list_ex (\<lambda>x. mr_id x = mr_id m) (q_messages q) then Inl ''UNIQUE constraint failed: messages.id''
      else Inr (q\<lparr>q_messages := q_messages q @ [m]\<rparr>))"

fun insert_variants :: "acceptance_env \<Rightarrow> string \<Rightarrow> queue_variant list \<Rightarrow> queue \<Rightarrow> queue result" where
  "insert_variants env sender [] q = Inr q"
| "insert_variants env sender (v # vs) q =
     and_then (insert_message \<lparr>mr_id = qv_id v, mr_created = ae_now env, mr_sender = sender, mr_scan = qv_scan v,
         mr_is_dsn = False, mr_raw_present = True\<rparr> q) (\<lambda>q1.
     and_then (insert_recipients env v (qv_recipients v) q1) (insert_variants env sender vs))"

definition remove_written :: "acceptance_env \<Rightarrow> string list \<Rightarrow> (string \<rightharpoonup> string) \<Rightarrow> (string \<rightharpoonup> string)" where
  "remove_written env written sp = (\<lambda>i. if i \<in> set written \<and> ae_removed env i then None else sp i)"

text \<open>The uncancellable part: files first, then the tables, and the files again on an error.\<close>

definition persist ::
    "acceptance_env \<Rightarrow> string \<Rightarrow> queue_variant list \<Rightarrow> nat \<Rightarrow> queue \<Rightarrow> unit result \<times> queue" where
  "persist env sender vs required q =
     (case and_then (ae_available_again env)
         (\<lambda>n. ensure (required \<le> n) ''insufficient space for complete queue batch'') of
        Inl e \<Rightarrow> (Inl e, q)
      | Inr _ \<Rightarrow>
         (case write_bodies env vs [] (q_spool q) of (written, sp, r) \<Rightarrow>
          (case and_then r (\<lambda>_. and_then (ae_sync env) (\<lambda>_.
              and_then (insert_variants env sender vs (q\<lparr>q_spool := sp\<rparr>)) (\<lambda>q1.
              and_then (ae_commit env) (\<lambda>_. Inr q1)))) of
             Inl e \<Rightarrow> (Inl e, q\<lparr>q_spool := remove_written env written sp\<rparr>)
           | Inr q1 \<Rightarrow> (Inr (), q1))))"

definition enqueue_variants_with_reserve ::
    "acceptance_env \<Rightarrow> string \<Rightarrow> queue_variant list \<Rightarrow> nat \<Rightarrow> queue \<Rightarrow> unit result \<times> queue" where
  "enqueue_variants_with_reserve env sender vs minimum_free q =
     (case and_then (ensure (vs \<noteq> [] \<and> length vs \<le> MAX_VARIANTS) ''invalid queue batch'') (\<lambda>_.
        let e = scan_activation_epoch (qv_scan (hd vs)) in
        and_then (ensure (list_all (\<lambda>v. scan_activation_epoch (qv_scan v) = e) vs)
            ''Mixed policy epochs in queue batch'') (\<lambda>_.
        and_then (gate_enter e (q_gate q)) (\<lambda>g.
        and_then (check_variants env vs \<lparr>bs_budget = \<lparr>bb_metadata = 0, bb_headers = 0\<rparr>, bs_recipients = 0,
            bs_required = minimum_free, bs_ids = []\<rparr>) (\<lambda>b.
        and_then (ae_available env) (\<lambda>n.
        and_then (ensure (bs_required b \<le> n) ''insufficient space for complete queue batch'') (\<lambda>_.
        and_then (ae_prepared env) (\<lambda>_. Inr (g, bs_required b)))))))) of
        Inl e \<Rightarrow> (Inl e, q)
      | Inr (g, required) \<Rightarrow>
         (case persist env sender vs required (q\<lparr>q_gate := g\<rparr>) of
            (r, q1) \<Rightarrow> (r, q1\<lparr>q_gate := acceptance_drop (q_gate q1)\<rparr>)))"

section \<open>Delivery jobs\<close>

text \<open>\<open>ORDER BY d.next_attempt, d.id LIMIT 1\<close> over the due rows.\<close>

definition due :: "(string \<Rightarrow> bool) \<Rightarrow> int \<Rightarrow> queue \<Rightarrow> delivery_row \<Rightarrow> bool" where
  "due acked now q d \<longleftrightarrow> dr_status d = Ds_Pending \<and> find_message (dr_message_id d) q \<noteq> None
     \<and> acked (dr_message_id d) \<and> local_message (dr_message_id d) q \<and> dr_next_attempt d \<le> now"

definition due_rows :: "(string \<Rightarrow> bool) \<Rightarrow> int \<Rightarrow> queue \<Rightarrow> delivery_row list" where
  "due_rows acked now q =
     sort_key dr_next_attempt (sort_key dr_id (filter (due acked now q) (q_deliveries q)))"

definition job_of :: "int \<Rightarrow> nat \<Rightarrow> message_row \<Rightarrow> delivery_row \<Rightarrow> job" where
  "job_of created attempts m d =
     \<lparr>jb_delivery_id = dr_id d, jb_message_id = mr_id m, jb_created = created, jb_sender = mr_sender m,
      jb_destination = dr_destination d, jb_hosts = dr_hosts d, jb_attempts = attempts, jb_is_dsn = mr_is_dsn m\<rparr>"

definition released_or_created :: "queue \<Rightarrow> message_row \<Rightarrow> delivery_row \<Rightarrow> int" where
  "released_or_created q m d = unwrap_or (Option.bind (q_policies q (dr_id d)) pl_released_at) (mr_created m)"

definition claim :: "(string \<Rightarrow> bool) \<Rightarrow> int \<Rightarrow> queue \<Rightarrow> job option \<times> queue" where
  "claim acked now q =
     (case due_rows acked now q of
        [] \<Rightarrow> (None, q)
      | d # _ \<Rightarrow>
         (case find_message (dr_message_id d) q of
            None \<Rightarrow> (None, q)
          | Some m \<Rightarrow>
              (Some (job_of (released_or_created q m d) (dr_attempts d + 1) m d),
               update_delivery (dr_id d)
                 (\<lambda>r. r\<lparr>dr_status := Ds_Sending, dr_attempts := dr_attempts r + 1\<rparr>) q)))"

text \<open>
  The redaction of a diagnostic (\<open>delivery_log::sanitize\<close> at its full limit) is an argument: the
  text and whether it was cut.
\<close>

type_synonym redaction = "string \<Rightarrow> string \<times> bool"

definition MAX_EVENTS :: nat where "MAX_EVENTS = 32"

definition clean_event :: "redaction \<Rightarrow> relay_event \<Rightarrow> relay_event" where
  "clean_event san e = e\<lparr>re_phase := fst (san (re_phase e)),
     re_enhanced_code := map_option (fst \<circ> san) (re_enhanced_code e),
     re_response := map_option (fst \<circ> san) (re_response e),
     re_detail := map_option (fst \<circ> san) (re_detail e)\<rparr>"

definition event_cut :: "redaction \<Rightarrow> relay_event \<Rightarrow> bool" where
  "event_cut san e \<longleftrightarrow> snd (san (re_phase e)) \<or> is_some_and (re_enhanced_code e) (snd \<circ> san)
     \<or> is_some_and (re_response e) (snd \<circ> san) \<or> is_some_and (re_detail e) (snd \<circ> san)"

definition keep_events :: "relay_event list \<Rightarrow> relay_event list" where
  "keep_events es = (if length es > MAX_EVENTS then take (MAX_EVENTS - 1) (butlast es) @ [last es] else es)"

definition attempt_sanitize :: "redaction \<Rightarrow> attempt \<Rightarrow> attempt" where
  "attempt_sanitize san a =
     \<lparr>at_route = fst (san (at_route a)), at_peer = map_option (fst \<circ> san) (at_peer a),
      at_outcome = fst (san (at_outcome a)),
      at_events = map (clean_event san) (keep_events (at_events a)),
      at_truncated = (at_truncated a \<or> snd (san (at_route a)) \<or> is_some_and (at_peer a) (snd \<circ> san)
        \<or> snd (san (at_outcome a)) \<or> length (at_events a) > MAX_EVENTS
        \<or> list_ex (event_cut san) (keep_events (at_events a)))\<rparr>"

text \<open>\<open>DELETE ... WHERE id NOT IN (... ORDER BY id DESC LIMIT 50)\<close>: the oldest rows of a delivery go.\<close>

definition attempts_of :: "nat \<Rightarrow> attempt_row list \<Rightarrow> attempt_row list" where
  "attempts_of i = filter (\<lambda>r. tr_delivery_id r = i)"

fun drop_oldest :: "nat \<Rightarrow> nat \<Rightarrow> attempt_row list \<Rightarrow> attempt_row list" where
  "drop_oldest i n [] = []"
| "drop_oldest i n (r # rs) =
     (if tr_delivery_id r = i \<and> n > 0 then drop_oldest i (n - 1) rs else r # drop_oldest i n rs)"

definition keep_recent :: "nat \<Rightarrow> attempt_row list \<Rightarrow> attempt_row list" where
  "keep_recent i rs = drop_oldest i (length (attempts_of i rs) - 50) rs"

definition finish_with_attempts ::
    "redaction \<Rightarrow> job \<Rightarrow> delivery_status \<Rightarrow> string \<Rightarrow> int \<Rightarrow> attempt list \<Rightarrow> queue \<Rightarrow> queue" where
  "finish_with_attempts san j status err next_at attempts q =
     (let i = jb_delivery_id j;
          traces = map (attempt_sanitize san) (rev (take 50 (rev attempts)));
          q1 = update_delivery i (\<lambda>r. r\<lparr>dr_status := status, dr_error := Some (fst (san err)), dr_next_attempt := next_at\<rparr>) q
      in q1\<lparr>q_attempts := keep_recent i (q_attempts q1
           @ map (\<lambda>t. \<lparr>tr_delivery_id = i, tr_attempt = jb_attempts j, tr_trace = t\<rparr>) traces)\<rparr>)"

definition finish :: "redaction \<Rightarrow> job \<Rightarrow> delivery_status \<Rightarrow> string \<Rightarrow> int \<Rightarrow> queue \<Rightarrow> queue" where
  "finish san j status err next_at = finish_with_attempts san j status err next_at []"

datatype relay_outcome = Delivered | Temporary string | Permanent string

definition retry_delay :: "nat \<Rightarrow> nat \<Rightarrow> int" where
  "retry_delay attempts random = min (1800 * 2 ^ min (attempts - 1) 3) 14400 + int (random mod 60)"

text \<open>
  \<open>run_job\<close>: the delivery itself (its outcome and transcripts, given the job and the body) is an
  argument, the clock is read before it and again for the next attempt.
\<close>

definition run_job ::
    "redaction \<Rightarrow> int \<Rightarrow> (job \<Rightarrow> string \<Rightarrow> relay_outcome \<times> attempt list) \<Rightarrow> int \<Rightarrow> int \<Rightarrow> nat \<Rightarrow> job \<Rightarrow> queue \<Rightarrow> queue result" where
  "run_job san max_age deliver now now_after random j q =
     (if now - jb_created j \<ge> max_age then Inr (finish san j Ds_Failed ''5.4.7 Delivery time expired'' 0 q)
      else
       (case q_spool q (jb_message_id j) of
          None \<Rightarrow> Inl ''No such file or directory''
        | Some raw \<Rightarrow>
           (case deliver j raw of (outcome, attempts) \<Rightarrow>
             (case outcome of
                Delivered \<Rightarrow> Inr (finish_with_attempts san j Ds_Delivered [] 0 attempts q)
              | Permanent reason \<Rightarrow> Inr (finish_with_attempts san j Ds_Failed reason 0 attempts q)
              | Temporary reason \<Rightarrow>
                  Inr (finish_with_attempts san j Ds_Pending reason (now_after + retry_delay (jb_attempts j) random)
                    attempts q)))))"

section \<open>Failure notices\<close>

definition failed_row :: "queue \<Rightarrow> delivery_row \<Rightarrow> bool" where
  "failed_row q d \<longleftrightarrow> dr_status d = Ds_Failed \<and> dr_dsn_id d = None \<and> local_message (dr_message_id d) q"

definition failed :: "queue \<Rightarrow> job list" where
  "failed q = take 100 (concat (map (\<lambda>d. case find_message (dr_message_id d) q of
       None \<Rightarrow> []
     | Some m \<Rightarrow> if failed_row q d then [job_of (mr_created m) (dr_attempts d) m d] else []) (q_deliveries q)))"

text \<open>The row both notice operations look up again under the write lock.\<close>

definition notice_row :: "job \<Rightarrow> queue \<Rightarrow> (delivery_row \<times> message_row) option" where
  "notice_row j q =
     (case (find_delivery (jb_delivery_id j) q, find_message (jb_message_id j) q) of
        (Some d, Some m) \<Rightarrow>
          if dr_message_id d = mr_id m \<and> dr_attempts d = jb_attempts j \<and> failed_row q d
             \<and> \<not> mr_is_dsn m \<and> mr_sender m \<noteq> []
          then Some (d, m) else None
      | _ \<Rightarrow> None)"

definition latest_attempt :: "delivery_row \<Rightarrow> queue \<Rightarrow> attempt option" where
  "latest_attempt d q =
     (case rev (filter (\<lambda>r. tr_delivery_id r = dr_id d \<and> tr_attempt r = dr_attempts d) (q_attempts q)) of
        [] \<Rightarrow> None
      | r # _ \<Rightarrow> Some (tr_trace r))"

definition suppress_hostile_dsn :: "redaction \<Rightarrow> job \<Rightarrow> queue \<Rightarrow> bool \<times> queue" where
  "suppress_hostile_dsn san j q =
     (case notice_row j q of
        None \<Rightarrow> (False, q)
      | Some (d, m) \<Rightarrow>
         (case latest_attempt d q of
            None \<Rightarrow> (False, q)
          | Some a \<Rightarrow>
              let err = unwrap_or (dr_error d) [] in
              if mr_id m \<in> set (q_corrected q) then (False, q)
              else if Option.bind (if at_events a = [] then None else Some (last (at_events a))) re_response \<noteq> Some err
              then (False, q)
              else
               (case suppression_reason (mr_scan m) a of
                  None \<Rightarrow> (False, q)
                | Some reason \<Rightarrow>
                    (True, audit ''system'' ''dsn_suppressed'' (nat_digits (jb_delivery_id j))
                      (update_delivery (jb_delivery_id j) (\<lambda>r. r\<lparr>dr_status := Ds_Suppressed,
                         dr_error := Some (fst (san (''Notice blocks by anti-backscatter protection ('' @ BACKSCATTER_VERSION
                           @ ''; '' @ reason @ ''); remote refusal: '' @ err))), dr_next_attempt := 0\<rparr>) q)))))"

definition notice_diagnostic :: "redaction \<Rightarrow> job \<Rightarrow> queue \<Rightarrow> (string \<times> string) result" where
  "notice_diagnostic san j q =
     (case find_delivery (jb_delivery_id j) q of
        None \<Rightarrow> Inl ''Query returned no rows''
      | Some d \<Rightarrow> Inr (failure_diagnostic (fst \<circ> san) (unwrap_or (dr_error d) []) (latest_attempt d q)))"

text \<open>
  The identity of a notice. On a worker it is a version 8 UUID over a digest of the node, the
  message and the delivery; that function is an argument.
\<close>

definition dsn_identity :: "(string \<Rightarrow> string) \<Rightarrow> job \<Rightarrow> queue \<Rightarrow> string" where
  "dsn_identity digest_uuid j q =
     (case q_node q of
        Some node \<Rightarrow> digest_uuid (''noisefence-dsn:'' @ node @ '':'' @ jb_message_id j @ '':'' @ nat_digits (jb_delivery_id j))
      | None \<Rightarrow> ''dsn-'' @ nat_digits (jb_delivery_id j))"

definition dsn_scan :: scan where
  "dsn_scan = sample_scan\<lparr>scan_score := Fin 0, scan_complete := True, scan_subject := ''Delivery failure'',
     scan_model := ''dsn'', scan_features_complete := None,
     scan_antivirus := \<lparr>av_status = Av_Disabled, av_signature = None\<rparr>,
     scan_signatures := \<lparr>av_status = Av_Disabled, av_signature = None\<rparr>\<rparr>"

text \<open>
  A body that could not be written, or a commit that failed, leaves at most an orphan file: the
  two last arguments say what the file holds then and how the writing and the commit went.
\<close>

definition enqueue_dsn ::
    "(string \<Rightarrow> string) \<Rightarrow> int \<Rightarrow> job \<Rightarrow> string \<Rightarrow> string list \<Rightarrow> string \<Rightarrow> unit result \<Rightarrow> queue \<Rightarrow> unit result \<times> queue" where
  "enqueue_dsn digest_uuid now j raw hosts torn stored q =
     (case notice_row j q of
        None \<Rightarrow> (Inr (), q)
      | Some (d, m) \<Rightarrow>
          if mr_sender m \<noteq> jb_sender j then (Inr (), q)
          else
           (let i = dsn_identity digest_uuid j q in
            if find_message i q \<noteq> None then (Inl ''DSN identity already belongs to a stored message'', q)
            else
             (case stored of
                Inl e \<Rightarrow> (Inl e, q\<lparr>q_spool := (q_spool q)(i \<mapsto> torn)\<rparr>)
              | Inr _ \<Rightarrow>
                  (Inr (), update_delivery (jb_delivery_id j) (\<lambda>r. r\<lparr>dr_status := Ds_Notified, dr_dsn_id := Some i\<rparr>)
                    (q\<lparr>q_spool := (q_spool q)(i \<mapsto> raw),
                       q_messages := q_messages q @ [\<lparr>mr_id = i, mr_created = now, mr_sender = [], mr_scan = dsn_scan,
                         mr_is_dsn = True, mr_raw_present = True\<rparr>],
                       q_deliveries := q_deliveries q @ [\<lparr>dr_id = next_rowid (q_deliveries q), dr_message_id = i,
                         dr_address = jb_sender j, dr_destination = jb_sender j, dr_hosts = hosts, dr_status = Ds_Pending,
                         dr_attempts = 0, dr_next_attempt = now, dr_error = None, dr_dsn_id = None\<rparr>]\<rparr>)))))"

datatype mx_answer = Mx_Records "(u16 \<times> string list) list" | Mx_Missing | Mx_Unavailable

record notice_env =
  ne_now :: int
  ne_date :: string
  ne_redaction :: redaction
  ne_uuid :: "string \<Rightarrow> string"
  ne_mx :: "string \<Rightarrow> mx_answer"
  ne_torn :: string
  ne_stored :: "unit result"

record relay_config =
  rl_hostname :: string
  rl_postmaster :: string
  rl_domains :: "domain list"

definition notice_body :: "relay_config \<Rightarrow> string \<Rightarrow> job \<Rightarrow> string \<Rightarrow> string \<Rightarrow> string" where
  "notice_body cfg date j status diagnostic =
     (let b = ''dsn_'' @ nat_digits (jb_delivery_id j) in
      ''From: Mail Delivery System <'' @ rl_postmaster cfg @ ''>'' @ CRLF
      @ ''To: <'' @ jb_sender j @ ''>'' @ CRLF @ ''Date: '' @ date @ CRLF
      @ ''Message-ID: <dsn-'' @ nat_digits (jb_delivery_id j) @ ''@'' @ rl_hostname cfg @ ''>'' @ CRLF
      @ ''Subject: Delivery failure'' @ CRLF @ ''Auto-Submitted: auto-replied'' @ CRLF @ ''MIME-Version: 1.0'' @ CRLF
      @ ''Content-Type: multipart/report; report-type=delivery-status;'' @ CRLF
      @ '' boundary='' @ [CHR 0x22] @ b @ [CHR 0x22] @ CRLF @ CRLF
      @ ''--'' @ b @ CRLF @ ''Content-Type: text/plain; charset=us-ascii'' @ CRLF @ CRLF
      @ ''Delivery to '' @ jb_destination j @ '' failed. Contact postmaster with queue ID '' @ jb_message_id j @ ''.'' @ CRLF @ CRLF
      @ ''--'' @ b @ CRLF @ ''Content-Type: message/delivery-status'' @ CRLF @ CRLF
      @ ''Reporting-MTA: dns; '' @ rl_hostname cfg @ CRLF @ CRLF
      @ ''Final-Recipient: rfc822; '' @ jb_destination j @ CRLF @ ''Action: failed'' @ CRLF
      @ ''Status: '' @ status @ CRLF @ ''Diagnostic-Code: smtp; '' @ diagnostic @ CRLF @ CRLF
      @ ''--'' @ b @ ''--'' @ CRLF)"

definition mx_hosts :: "(u16 \<times> string list) list \<Rightarrow> string list" where
  "mx_hosts records = filter (\<lambda>h. h \<noteq> ''.'') (concat (map snd (sort_key fst records)))"

text \<open>The body of the loop of \<open>notifications\<close>: the hosts of a reverse path, or why there is no notice.\<close>

datatype notice_route = Route "string list" | Null_Mx | No_Answer

definition notice_route_of :: "relay_config \<Rightarrow> (string \<Rightarrow> mx_answer) \<Rightarrow> string \<Rightarrow> string \<Rightarrow> notice_route" where
  "notice_route_of cfg mx sender name =
     (case config_recipient (rl_domains cfg) sender of
        Some r \<Rightarrow> Route (rc_hosts r)
      | None \<Rightarrow>
         (case mx name of
            Mx_Records rs \<Rightarrow> if mx_hosts rs = [] then Null_Mx else Route (mx_hosts rs)
          | Mx_Missing \<Rightarrow> Route [name]
          | Mx_Unavailable \<Rightarrow> No_Answer))"

definition notify :: "relay_config \<Rightarrow> notice_env \<Rightarrow> job \<Rightarrow> queue \<Rightarrow> unit result \<times> queue" where
  "notify cfg env j q =
     (let san = ne_redaction env in
      if jb_is_dsn j \<or> jb_sender j = [] then (Inr (), finish san j Ds_Notified ''Null sender: no DSN generated'' 0 q)
      else
       (case suppress_hostile_dsn san j q of (suppressed, q1) \<Rightarrow>
         if suppressed then (Inr (), q1)
         else
          (case notice_diagnostic san j q1 of
             Inl e \<Rightarrow> (Inl e, q1)
           | Inr (status, diagnostic) \<Rightarrow>
              (case rsplit_once (CHR ''@'') (jb_sender j) of
                 None \<Rightarrow> (Inl ''invalid persisted reverse path'', q1)
               | Some (_, name) \<Rightarrow>
                  (case notice_route_of cfg (ne_mx env) (jb_sender j) name of
                     Null_Mx \<Rightarrow> (Inr (), finish san j Ds_Notified ''Reverse path has Null MX'' 0 q1)
                   | No_Answer \<Rightarrow> (Inr (), q1)
                   | Route hosts \<Rightarrow>
                       enqueue_dsn (ne_uuid env) (ne_now env) j (notice_body cfg (ne_date env) j status diagnostic)
                         hosts (ne_torn env) (ne_stored env) q1)))))"

section \<open>Quarantine\<close>

definition audit_object :: "string \<Rightarrow> string \<Rightarrow> string" where
  "audit_object message recipient = ''quarantine-v1:'' @ message @ '':'' @ recipient"

definition held_now :: "int \<Rightarrow> delivery_row \<Rightarrow> queue \<Rightarrow> bool" where
  "held_now now d q \<longleftrightarrow> is_some_and (Option.bind (q_policies q (dr_id d)) pl_held_until) (\<lambda>t. now < t)"

definition set_released :: "nat \<Rightarrow> int \<Rightarrow> queue \<Rightarrow> queue" where
  "set_released i now q = q\<lparr>q_policies := (q_policies q)(i := map_option (\<lambda>p. p\<lparr>pl_released_at := Some now\<rparr>) (q_policies q i))\<rparr>"

definition operation_status :: "operation \<Rightarrow> delivery_status" where
  "operation_status c = (if c = Delete then Ds_Discarded else Ds_Pending)"

definition apply_operation :: "operation \<Rightarrow> int \<Rightarrow> nat \<Rightarrow> queue \<Rightarrow> queue" where
  "apply_operation c now i q =
     (let q1 = update_delivery i (\<lambda>r. r\<lparr>dr_status := operation_status c, dr_next_attempt := now, dr_error := None\<rparr>) q
      in if c = Release then set_released i now q1 else q1)"

definition find_recipient :: "string \<Rightarrow> string \<Rightarrow> queue \<Rightarrow> delivery_row option" where
  "find_recipient message recipient q =
     find (\<lambda>d. dr_message_id d = message \<and> dr_address d = recipient) (q_deliveries q)"

datatype change = Done | Queued string | NotFound | Conflict

text \<open>
  \<open>access\<close> stands for the grant of the console user on the delivery and a live session, and
  \<open>enabled\<close> for the registered nodes; \<open>command_id\<close> is the fresh identifier.
\<close>

definition expire_commands :: "int \<Rightarrow> command_row list \<Rightarrow> command_row list" where
  "expire_commands now = update_where (\<lambda>c. cr_finished c = None \<and> cr_expires c < now)
     (\<lambda>c. c\<lparr>cr_result := Some ''expired'', cr_finished := Some now\<rparr>)"

definition queue_command ::
    "int \<Rightarrow> string \<Rightarrow> string \<Rightarrow> string \<Rightarrow> string \<Rightarrow> string \<Rightarrow> operation \<Rightarrow> queue \<Rightarrow> change \<times> queue" where
  "queue_command now command_id node message recipient user c q =
     (let q1 = q\<lparr>q_commands := expire_commands now (q_commands q)\<rparr> in
      if list_ex (\<lambda>x. cr_node x = node \<and> cr_message x = message \<and> cr_recipient x = recipient \<and> cr_finished x = None)
           (q_commands q1)
      then (Conflict, q)
      else (Queued command_id, audit user ''cluster_quarantine_request'' command_id
        (q1\<lparr>q_commands := q_commands q1 @ [\<lparr>cr_id = command_id, cr_node = node, cr_message = message,
           cr_recipient = recipient, cr_command = c, cr_username = user, cr_expires = now + 300,
           cr_result = None, cr_finished = None\<rparr>]\<rparr>)))"

definition quarantine_action ::
    "(nat \<Rightarrow> bool) \<Rightarrow> (string \<Rightarrow> bool) \<Rightarrow> int \<Rightarrow> string \<Rightarrow> string \<Rightarrow> string \<Rightarrow> string \<Rightarrow> quarantine_command \<Rightarrow> queue \<Rightarrow> change \<times> queue" where
  "quarantine_action access enabled now command_id user message recipient c q =
     (case (find_recipient message recipient q, find_message message q) of
        (Some d, Some m) \<Rightarrow>
          if \<not> access (dr_id d) then (NotFound, q)
          else if dr_status d \<noteq> Ds_Quarantined
             \<or> \<not> (mr_raw_present m \<or> is_some_and (q_origin q message) or_raw_present) \<or> \<not> held_now now d q
          then (Conflict, q)
          else
           (case q_origin q message of
              Some remote \<Rightarrow>
                if \<not> enabled (or_node_id remote) then (Conflict, q)
                else queue_command now command_id (or_node_id remote) message recipient user (operation_of c) q
            | None \<Rightarrow>
                (Done, audit user (case c of Cmd_Release \<Rightarrow> ''quarantine_release'' | Cmd_Delete \<Rightarrow> ''quarantine_delete'')
                   (audit_object message recipient) (apply_operation (operation_of c) now (dr_id d) q)))
      | _ \<Rightarrow> (NotFound, q))"

section \<open>Commands of the coordinator\<close>

record command =
  cm_id :: string
  cm_message_id :: string
  cm_recipient :: string
  cm_command :: operation
  cm_username :: string
  cm_expires :: int

definition command_target :: "int \<Rightarrow> command \<Rightarrow> queue \<Rightarrow> nat option" where
  "command_target now c q =
     (case (find_recipient (cm_message_id c) (cm_recipient c) q, find_message (cm_message_id c) q) of
        (Some d, Some m) \<Rightarrow>
          if ((cm_command c = Retry \<and> dr_status d = Ds_Pending)
              \<or> (cm_command c \<noteq> Retry \<and> dr_status d = Ds_Quarantined \<and> held_now now d q))
             \<and> mr_raw_present m \<and> local_message (cm_message_id c) q
          then Some (dr_id d) else None
      | _ \<Rightarrow> None)"

definition operation_name :: "operation \<Rightarrow> string" where
  "operation_name c = (case c of Release \<Rightarrow> ''release'' | Delete \<Rightarrow> ''delete'' | Retry \<Rightarrow> ''retry'')"

definition command_effect :: "int \<Rightarrow> command \<Rightarrow> nat \<Rightarrow> queue \<Rightarrow> queue" where
  "command_effect now c i q =
     (let q1 = audit (cm_username c) (''cluster_'' @ operation_name (cm_command c)) (cm_id c)
                (apply_operation (cm_command c) now i q)
      in if cm_command c = Retry then q1
         else audit (cm_username c) (''quarantine_'' @ operation_name (cm_command c))
                (audit_object (cm_message_id c) (cm_recipient c)) q1)"

definition execute_command :: "(string \<Rightarrow> bool) \<Rightarrow> int \<Rightarrow> command \<Rightarrow> queue \<Rightarrow> (string \<times> queue) result" where
  "execute_command is_uuid now c q =
     and_then (ensure (is_uuid (cm_id c) \<and> is_uuid (cm_message_id c) \<and> valid_address (cm_recipient c)
         \<and> length (cm_username c) \<le> 100) ''Invalid command'') (\<lambda>_.
     case q_receipts q (cm_id c) of
       Some (r, _) \<Rightarrow> Inr (r, q)
     | None \<Rightarrow>
        and_then
          (if cm_expires c < now then Inr (''expired'', q)
           else (case command_target now c q of
               None \<Rightarrow> Inr (''conflict'', q)
             | Some i \<Rightarrow>
                 and_then (ensure (cm_expires c \<le> now + 600) ''Command validity too long'') (\<lambda>_.
                 Inr (''done'', command_effect now c i q))))
          (\<lambda>(r, q1). Inr (r, q1\<lparr>q_receipts := (q_receipts q1)(cm_id c \<mapsto> (r, now))\<rparr>)))"

fun execute_commands ::
    "(string \<Rightarrow> bool) \<Rightarrow> int \<Rightarrow> command list \<Rightarrow> queue \<Rightarrow> ((string \<times> string) list \<times> queue) result" where
  "execute_commands is_uuid now [] q = Inr ([], q)"
| "execute_commands is_uuid now (c # cs) q =
     and_then (execute_command is_uuid now c q) (\<lambda>(r, q1).
     and_then (execute_commands is_uuid now cs q1) (\<lambda>(rs, q2). Inr ((cm_id c, r) # rs, q2)))"

text \<open>
  \<open>unacknowledged\<close> are the receipts bound to a central command whose acknowledgement is missing; without
  the central tables it is empty.
\<close>

definition execute_transaction ::
    "(string \<Rightarrow> bool) \<Rightarrow> (string \<Rightarrow> bool) \<Rightarrow> int \<Rightarrow> command list \<Rightarrow> queue
      \<Rightarrow> ((string \<times> string) list \<times> queue) result" where
  "execute_transaction is_uuid unacknowledged now cs q =
     and_then (ensure (length cs \<le> 32) ''Too many commands'') (\<lambda>_.
     and_then (execute_commands is_uuid now cs q) (\<lambda>(rs, q1).
     Inr (rs, q1\<lparr>q_receipts := (\<lambda>i. case q_receipts q1 i of
         None \<Rightarrow> None
       | Some (r, stored) \<Rightarrow> if stored < now - 30 * 86400 \<and> \<not> unacknowledged i then None else Some (r, stored))\<rparr>)))"

text \<open>The release of the holds a sender has confirmed (\<open>traffic/verification.rs\<close>, \<open>poll\<close>).\<close>

definition release_hold :: "int \<Rightarrow> nat \<Rightarrow> queue \<Rightarrow> queue" where
  "release_hold now i q =
     (case find_delivery i q of
        None \<Rightarrow> q
      | Some d \<Rightarrow>
          if dr_status d = Ds_Quarantined \<and> held_now now d q
          then audit ''sender-verification'' ''sender_verification_release'' (nat_digits i) (apply_operation Release now i q)
          else q)"

definition retry_now :: "int \<Rightarrow> string \<Rightarrow> nat \<Rightarrow> queue \<Rightarrow> queue result" where
  "retry_now now user i q =
     (case find_delivery i q of
        None \<Rightarrow> Inl ''Only a pending delivery can be tried again.''
      | Some d \<Rightarrow>
          if dr_status d = Ds_Pending \<and> local_message (dr_message_id d) q
          then Inr (audit user ''retry'' (nat_digits i) (update_delivery i (\<lambda>r. r\<lparr>dr_next_attempt := now\<rparr>) q))
          else Inl ''Only a pending delivery can be tried again.'')"

section \<open>Housekeeping\<close>

definition expires_held :: "int \<Rightarrow> queue \<Rightarrow> delivery_row \<Rightarrow> bool" where
  "expires_held now q d \<longleftrightarrow> dr_status d = Ds_Quarantined
     \<and> is_some_and (Option.bind (q_policies q (dr_id d)) pl_held_until) (\<lambda>t. t \<le> now)
     \<and> local_message (dr_message_id d) q"

definition expire_quarantine :: "int \<Rightarrow> queue \<Rightarrow> queue" where
  "expire_quarantine now q =
     q\<lparr>q_audit := q_audit q @ map (\<lambda>d. \<lparr>ar_username = ''system'', ar_action = ''quarantine_expire'',
          ar_object = audit_object (dr_message_id d) (dr_address d)\<rparr>) (filter (expires_held now q) (q_deliveries q)),
       q_deliveries := update_where (expires_held now q) (\<lambda>d. d\<lparr>dr_status := Ds_Expired\<rparr>) (q_deliveries q)\<rparr>"

definition unresolved :: "delivery_status \<Rightarrow> bool" where
  "unresolved s \<longleftrightarrow> s \<in> {Ds_Pending, Ds_Sending, Ds_Failed, Ds_Quarantined}"

definition sweep_candidates :: "(string \<Rightarrow> bool) \<Rightarrow> queue \<Rightarrow> string list" where
  "sweep_candidates synced q = map mr_id (filter (\<lambda>m. mr_raw_present m \<and> synced (mr_id m)
     \<and> \<not> list_ex (\<lambda>d. dr_message_id d = mr_id m \<and> unresolved (dr_status d)) (q_deliveries q)) (q_messages q))"

definition tombstone :: "string \<Rightarrow> queue \<Rightarrow> queue" where
  "tombstone i q = q\<lparr>q_messages := update_where (\<lambda>m. mr_id m = i) (\<lambda>m. m\<lparr>mr_raw_present := False\<rparr>) (q_messages q)\<rparr>"

definition remove_body :: "string \<Rightarrow> queue \<Rightarrow> queue" where
  "remove_body i q = q\<lparr>q_spool := (q_spool q)(i := None)\<rparr>"

definition purgeable :: "(string \<Rightarrow> bool) \<Rightarrow> int \<Rightarrow> queue \<Rightarrow> message_row \<Rightarrow> bool" where
  "purgeable synced now q m \<longleftrightarrow> mr_created m < now - 30 * 86400 \<and> \<not> mr_raw_present m \<and> synced (mr_id m)
     \<and> \<not> is_some_and (q_origin q (mr_id m)) or_raw_present"

text \<open>A message row takes its deliveries, policies, transcripts, corrections and origin with it.\<close>

definition purge :: "(string \<Rightarrow> bool) \<Rightarrow> int \<Rightarrow> queue \<Rightarrow> queue" where
  "purge synced now q =
     (let gone = map mr_id (filter (purgeable synced now q) (q_messages q));
          kept = filter (\<lambda>d. dr_message_id d \<notin> set gone) (q_deliveries q);
          alive = (\<lambda>i. \<not> list_ex (\<lambda>d. dr_id d = i \<and> dr_message_id d \<in> set gone) (q_deliveries q))
      in q\<lparr>q_messages := filter (\<lambda>m. mr_id m \<notin> set gone) (q_messages q), q_deliveries := kept,
           q_policies := (\<lambda>i. if alive i then q_policies q i else None),
           q_filtering := (\<lambda>i. if alive i then q_filtering q i else None),
           q_attempts := filter (\<lambda>r. alive (tr_delivery_id r)) (q_attempts q),
           q_origin := (\<lambda>i. if i \<in> set gone then None else q_origin q i),
           q_corrected := filter (\<lambda>i. i \<notin> set gone) (q_corrected q)\<rparr>)"

definition bodies_present :: "queue \<Rightarrow> string list" where
  "bodies_present q = map mr_id (filter mr_raw_present (q_messages q))"

definition release_claims :: "queue \<Rightarrow> queue" where
  "release_claims q = q\<lparr>q_deliveries := update_where (\<lambda>d. dr_status d = Ds_Sending \<and> local_message (dr_message_id d) q)
     (\<lambda>d. d\<lparr>dr_status := Ds_Pending\<rparr>) (q_deliveries q)\<rparr>"

definition recover :: "queue \<Rightarrow> unit result \<times> queue" where
  "recover q =
     (let q1 = release_claims q; ids = bodies_present q1
      in case check_all (\<lambda>i. ensure (q_spool q1 i \<noteq> None)
             (''durable queue corruption: missing message '' @ i @ ''; restore from backup before serving'')) ids of
           Inl e \<Rightarrow> (Inl e, q1)
         | Inr _ \<Rightarrow> (Inr (), q1\<lparr>q_spool := (\<lambda>i. if i \<in> set ids then q_spool q1 i else None)\<rparr>))"

end
