(* ===== verification/NF_Delivery.thy ===== *)
theory NF_Delivery
  imports NF_Queue
begin

text \<open>
  What the operations of the queue promise, and the system they form: the store, the delivery
  workers, the notice and housekeeping loops and the console, with crashes at every point
  between a file operation and a commit. Each operation keeps the invariant of the tables and
  moves a delivery only along its life cycle; the theorems about accepted mail follow for every
  interleaving.
\<close>

section \<open>The life cycle of a delivery\<close>

definition owned :: "queue \<Rightarrow> delivery_row \<Rightarrow> bool" where
  "owned q d \<longleftrightarrow> local_message (dr_message_id d) q"

text \<open>
  One step of the life cycle. The set \<open>A\<close> holds the deliveries the operation is entitled to
  take out of \<open>sending\<close> or \<open>failed\<close>, or to claim.
\<close>

definition moves :: "nat set \<Rightarrow> delivery_row \<Rightarrow> delivery_row \<Rightarrow> bool" where
  "moves A d d' \<longleftrightarrow> dr_id d' = dr_id d \<and> dr_message_id d' = dr_message_id d \<and> dr_address d' = dr_address d
     \<and> dr_destination d' = dr_destination d \<and> dr_hosts d' = dr_hosts d
     \<and> (dr_status d' = dr_status d \<and> dr_attempts d' = dr_attempts d
        \<or> dr_id d \<in> A \<and> dr_status d = Ds_Pending \<and> dr_status d' = Ds_Sending \<and> dr_attempts d' = Suc (dr_attempts d)
        \<or> dr_id d \<in> A \<and> dr_status d = Ds_Sending \<and> dr_status d' \<in> {Ds_Delivered, Ds_Failed, Ds_Pending}
          \<and> dr_attempts d' = dr_attempts d
        \<or> dr_id d \<in> A \<and> dr_status d = Ds_Failed \<and> dr_status d' \<in> {Ds_Notified, Ds_Suppressed}
          \<and> dr_attempts d' = dr_attempts d
        \<or> dr_status d = Ds_Quarantined \<and> dr_status d' \<in> {Ds_Pending, Ds_Discarded, Ds_Expired}
          \<and> dr_attempts d' = dr_attempts d)"

definition queue_ok :: "queue \<Rightarrow> bool" where
  "queue_ok q \<longleftrightarrow> distinct (map mr_id (q_messages q)) \<and> distinct (map dr_id (q_deliveries q))
     \<and> (\<forall>d \<in> set (q_deliveries q). dr_message_id d \<in> mr_id ` set (q_messages q))
     \<and> (\<forall>i. q_origin q i \<noteq> None \<longrightarrow> i \<in> mr_id ` set (q_messages q))
     \<and> (\<forall>m \<in> set (q_messages q). mr_raw_present m \<longrightarrow> q_spool q (mr_id m) \<noteq> None)
     \<and> (\<forall>d \<in> set (q_deliveries q). \<forall>m \<in> set (q_messages q).
          owned q d \<and> unresolved (dr_status d) \<and> mr_id m = dr_message_id d \<longrightarrow> mr_raw_present m)
     \<and> (\<forall>m \<in> set (q_messages q). mr_is_dsn m \<and> local_message (mr_id m) q \<longrightarrow> mr_sender m = [])
     \<and> (\<forall>d \<in> set (q_deliveries q). dr_dsn_id d \<noteq> None \<longrightarrow> dr_status d = Ds_Notified
          \<and> (\<exists>m \<in> set (q_messages q). mr_id m = dr_message_id d \<and> \<not> mr_is_dsn m \<and> mr_sender m \<noteq> []))"

lemma queue_okD:
  assumes "queue_ok q"
  shows ok_messages: "distinct (map mr_id (q_messages q))"
    and ok_deliveries: "distinct (map dr_id (q_deliveries q))"
    and ok_parent: "d \<in> set (q_deliveries q) \<Longrightarrow> dr_message_id d \<in> mr_id ` set (q_messages q)"
    and ok_origin: "q_origin q i \<noteq> None \<Longrightarrow> i \<in> mr_id ` set (q_messages q)"
    and ok_body: "m \<in> set (q_messages q) \<Longrightarrow> mr_raw_present m \<Longrightarrow> q_spool q (mr_id m) \<noteq> None"
    and ok_present: "d \<in> set (q_deliveries q) \<Longrightarrow> m \<in> set (q_messages q) \<Longrightarrow> owned q d \<Longrightarrow> unresolved (dr_status d)
      \<Longrightarrow> mr_id m = dr_message_id d \<Longrightarrow> mr_raw_present m"
    and ok_notice: "m \<in> set (q_messages q) \<Longrightarrow> mr_is_dsn m \<Longrightarrow> local_message (mr_id m) q \<Longrightarrow> mr_sender m = []"
    and ok_linked: "d \<in> set (q_deliveries q) \<Longrightarrow> dr_dsn_id d \<noteq> None \<Longrightarrow> dr_status d = Ds_Notified
      \<and> (\<exists>m \<in> set (q_messages q). mr_id m = dr_message_id d \<and> \<not> mr_is_dsn m \<and> mr_sender m \<noteq> [])"
  using assms by (simp_all add: queue_ok_def)

text \<open>
  The promise of an operation. Unresolved local deliveries keep their row and their body, every
  surviving row moves along the life cycle, new rows belong to new messages, and no message
  changes hands.
\<close>

definition follows :: "nat set \<Rightarrow> queue \<Rightarrow> queue \<Rightarrow> bool" where
  "follows A q q' \<longleftrightarrow>
     (\<forall>d \<in> set (q_deliveries q). owned q d \<and> unresolved (dr_status d) \<longrightarrow> dr_id d \<in> dr_id ` set (q_deliveries q'))
     \<and> (\<forall>d \<in> set (q_deliveries q). \<forall>d' \<in> set (q_deliveries q'). dr_id d' = dr_id d \<longrightarrow> moves A d d')
     \<and> (\<forall>d' \<in> set (q_deliveries q'). dr_id d' \<notin> dr_id ` set (q_deliveries q) \<longrightarrow>
          dr_status d' \<in> {Ds_Pending, Ds_Quarantined} \<and> dr_message_id d' \<notin> mr_id ` set (q_messages q))
     \<and> (\<forall>m \<in> set (q_messages q). (\<exists>d \<in> set (q_deliveries q). dr_message_id d = mr_id m \<and> owned q d \<and> unresolved (dr_status d))
          \<longrightarrow> q_spool q' (mr_id m) = q_spool q (mr_id m) \<and> m \<in> set (q_messages q'))
     \<and> (\<forall>m \<in> set (q_messages q'). q_origin q' (mr_id m) = q_origin q (mr_id m))"

lemma followsD:
  assumes "follows A q q'"
  shows follows_row: "d \<in> set (q_deliveries q) \<Longrightarrow> owned q d \<Longrightarrow> unresolved (dr_status d)
      \<Longrightarrow> \<exists>d' \<in> set (q_deliveries q'). moves A d d'"
    and follows_moves: "d \<in> set (q_deliveries q) \<Longrightarrow> d' \<in> set (q_deliveries q') \<Longrightarrow> dr_id d' = dr_id d \<Longrightarrow> moves A d d'"
    and follows_fresh: "d' \<in> set (q_deliveries q') \<Longrightarrow> dr_id d' \<notin> dr_id ` set (q_deliveries q)
      \<Longrightarrow> dr_status d' \<in> {Ds_Pending, Ds_Quarantined} \<and> dr_message_id d' \<notin> mr_id ` set (q_messages q)"
    and follows_message: "d \<in> set (q_deliveries q) \<Longrightarrow> owned q d \<Longrightarrow> unresolved (dr_status d)
      \<Longrightarrow> m \<in> set (q_messages q) \<Longrightarrow> mr_id m = dr_message_id d
      \<Longrightarrow> q_spool q' (mr_id m) = q_spool q (mr_id m) \<and> m \<in> set (q_messages q')"
    and follows_origin: "m \<in> set (q_messages q') \<Longrightarrow> q_origin q' (mr_id m) = q_origin q (mr_id m)"
  using assms unfolding follows_def by (fastforce simp: image_iff)+

lemma distinct_key_eq: "distinct (map f xs) \<Longrightarrow> x \<in> set xs \<Longrightarrow> y \<in> set xs \<Longrightarrow> f x = f y \<Longrightarrow> x = y"
  by (meson distinct_map inj_onD)

lemma find_key_iff:
  "distinct (map f xs) \<Longrightarrow> find (\<lambda>x. f x = i) xs = Some x \<longleftrightarrow> x \<in> set xs \<and> f x = i"
  by (induction xs) (auto simp: image_iff)

lemma find_message_iff: "queue_ok q \<Longrightarrow> find_message i q = Some m \<longleftrightarrow> m \<in> set (q_messages q) \<and> mr_id m = i"
  using find_key_iff [OF ok_messages] by (simp add: find_message_def)

lemma find_delivery_iff: "queue_ok q \<Longrightarrow> find_delivery i q = Some d \<longleftrightarrow> d \<in> set (q_deliveries q) \<and> dr_id d = i"
  using find_key_iff [OF ok_deliveries] by (simp add: find_delivery_def)

lemma find_message_None: "find_message i q = None \<longleftrightarrow> i \<notin> mr_id ` set (q_messages q)"
  by (auto simp: find_message_def find_None_iff)

lemma moves_refl [simp]: "moves A d d"
  by (simp add: moves_def)

lemma same_row_moves:
  "queue_ok q \<Longrightarrow> d \<in> set (q_deliveries q) \<Longrightarrow> d' \<in> set (q_deliveries q) \<Longrightarrow> dr_id d' = dr_id d \<Longrightarrow> moves A d d'"
  using distinct_key_eq [OF ok_deliveries] by fastforce

lemma moves_mono: "moves A d d' \<Longrightarrow> A \<subseteq> B \<Longrightarrow> moves B d d'"
  by (auto simp: moves_def)

lemma moves_resolved: "moves A d d' \<Longrightarrow> \<not> unresolved (dr_status d) \<Longrightarrow> dr_status d' = dr_status d"
  by (auto simp: moves_def unresolved_def)

lemma moves_unresolved: "moves A d d' \<Longrightarrow> unresolved (dr_status d') \<Longrightarrow> unresolved (dr_status d)"
  by (auto simp: moves_def unresolved_def)

section \<open>The contract of an operation\<close>

locale queue_operation =
  fixes op :: "queue \<Rightarrow> queue" and A :: "queue \<Rightarrow> nat set" and pre :: "queue \<Rightarrow> bool"
  assumes keeps_ok: "queue_ok q \<Longrightarrow> pre q \<Longrightarrow> queue_ok (op q)"
    and keeps_life: "queue_ok q \<Longrightarrow> pre q \<Longrightarrow> follows (A q) q (op q)"
begin

lemma resolved_is_final:
  assumes "queue_ok q" "pre q" "d \<in> set (q_deliveries q)" "\<not> unresolved (dr_status d)"
    and "d' \<in> set (q_deliveries (op q))" "dr_id d' = dr_id d"
  shows "dr_status d' = dr_status d"
  using follows_moves [OF keeps_life] moves_resolved assms by blast

lemma body_kept:
  assumes "queue_ok q" "pre q" "d \<in> set (q_deliveries q)" "owned q d" "unresolved (dr_status d)"
  shows "q_spool (op q) (dr_message_id d) = q_spool q (dr_message_id d) \<and> q_spool q (dr_message_id d) \<noteq> None"
proof -
  obtain m where m: "m \<in> set (q_messages q)" "mr_id m = dr_message_id d"
    using ok_parent [OF assms(1,3)] by force
  with assms show ?thesis
    using follows_message [OF keeps_life, of q d m] ok_present [of q d m] ok_body [of q m] by simp
qed

end

text \<open>Operations that only change columns of the deliveries.\<close>

definition retouches :: "nat set \<Rightarrow> queue \<Rightarrow> queue \<Rightarrow> bool" where
  "retouches A q q' \<longleftrightarrow> q_messages q' = q_messages q \<and> q_origin q' = q_origin q
     \<and> (\<forall>m \<in> set (q_messages q). mr_raw_present m \<longrightarrow> q_spool q' (mr_id m) = q_spool q (mr_id m))
     \<and> (\<exists>g. q_deliveries q' = map g (q_deliveries q)
        \<and> (\<forall>d \<in> set (q_deliveries q). moves A d (g d) \<and> dr_dsn_id (g d) = dr_dsn_id d))"

lemma retouches_change:
  assumes ok: "queue_ok q" and touched: "retouches A q q'"
  shows "queue_ok q' \<and> follows A q q'"
proof -
  obtain g where same: "q_messages q' = q_messages q" "q_origin q' = q_origin q"
    and sp: "\<And>m. m \<in> set (q_messages q) \<Longrightarrow> mr_raw_present m \<Longrightarrow> q_spool q' (mr_id m) = q_spool q (mr_id m)"
    and ds: "q_deliveries q' = map g (q_deliveries q)"
    and g: "\<And>d. d \<in> set (q_deliveries q) \<Longrightarrow> moves A d (g d) \<and> dr_dsn_id (g d) = dr_dsn_id d"
    using touched by (auto simp: retouches_def)
  have ids: "map dr_id (map g (q_deliveries q)) = map dr_id (q_deliveries q)"
    using g by (simp add: moves_def)
  have own: "owned q' d = owned q d" "local_message i q' = local_message i q" for d i
    using same by (simp_all add: owned_def local_message_def)
  have key: "d = e" if "d \<in> set (q_deliveries q)" "e \<in> set (q_deliveries q)" "dr_id (g e) = dr_id d" for d e
    using g [OF that(2)] that distinct_key_eq [OF ok_deliveries [OF ok] that(1,2)] by (simp add: moves_def)
  have msg: "dr_message_id (g d) = dr_message_id d \<and> dr_id (g d) = dr_id d" if "d \<in> set (q_deliveries q)" for d
    using g [OF that] by (simp add: moves_def)
  have "queue_ok q'"
    unfolding queue_ok_def same ds
  proof (intro conjI ballI allI impI)
    show "distinct (map dr_id (map g (q_deliveries q)))" unfolding ids by (rule ok_deliveries [OF ok])
  next
    fix d m assume "d \<in> set (map g (q_deliveries q))" "m \<in> set (q_messages q)"
      and *: "owned q' d \<and> unresolved (dr_status d) \<and> mr_id m = dr_message_id d"
    then obtain e where e: "e \<in> set (q_deliveries q)" "d = g e" by auto
    then show "mr_raw_present m"
      using * \<open>m \<in> set (q_messages q)\<close> g [OF e(1)] msg [OF e(1)] ok_present [OF ok e(1)] moves_unresolved
      by (simp add: own) (auto simp: owned_def)
  next
    fix d assume "d \<in> set (map g (q_deliveries q))" "dr_dsn_id d \<noteq> None"
    then obtain e where e: "e \<in> set (q_deliveries q)" "d = g e" "dr_dsn_id e \<noteq> None" using g by auto
    with ok_linked [OF ok e(1,3)] g [OF e(1)] msg [OF e(1)] moves_resolved [of A e d]
    show "dr_status d = Ds_Notified" "\<exists>m\<in>set (q_messages q). mr_id m = dr_message_id d \<and> \<not> mr_is_dsn m \<and> mr_sender m \<noteq> []"
      by (auto simp: unresolved_def)
  qed (use ok msg sp in \<open>auto simp: queue_ok_def own\<close>)
  moreover have "follows A q q'"
    unfolding follows_def same ds
  proof (intro conjI ballI impI)
    fix m assume "m \<in> set (q_messages q)"
      "\<exists>d\<in>set (q_deliveries q). dr_message_id d = mr_id m \<and> owned q d \<and> unresolved (dr_status d)"
    then show "q_spool q' (mr_id m) = q_spool q (mr_id m)" using sp ok_present [OF ok] by auto
  qed (use key g msg in \<open>force simp: image_iff\<close>)+
  ultimately show ?thesis by simp
qed

lemma retouches_refl: "retouches A q q"
  by (auto simp: retouches_def intro!: exI [of _ id])

lemma moves_trans: "moves {} d e \<Longrightarrow> moves {} e f \<Longrightarrow> moves {} d f"
  by (auto simp: moves_def)

lemma retouches_trans:
  assumes "retouches {} q q1" "retouches {} q1 q2"
  shows "retouches {} q q2"
proof -
  obtain g where g: "q_deliveries q1 = map g (q_deliveries q)"
      "\<forall>d \<in> set (q_deliveries q). moves {} d (g d) \<and> dr_dsn_id (g d) = dr_dsn_id d"
    using assms(1) unfolding retouches_def by blast
  obtain h where h: "q_deliveries q2 = map h (q_deliveries q1)"
      "\<forall>d \<in> set (q_deliveries q1). moves {} d (h d) \<and> dr_dsn_id (h d) = dr_dsn_id d"
    using assms(2) unfolding retouches_def by blast
  from g h have "q_deliveries q2 = map (h \<circ> g) (q_deliveries q)
      \<and> (\<forall>d \<in> set (q_deliveries q). moves {} d ((h \<circ> g) d) \<and> dr_dsn_id ((h \<circ> g) d) = dr_dsn_id d)"
    by (auto intro: moves_trans)
  then show ?thesis using assms unfolding retouches_def by metis
qed

lemma retouches_update:
  assumes "\<And>d. d \<in> set (q_deliveries q) \<Longrightarrow> dr_id d = i \<Longrightarrow> moves A d (f d) \<and> dr_dsn_id (f d) = dr_dsn_id d"
    and "q_messages q' = q_messages q" "q_origin q' = q_origin q" "q_spool q' = q_spool q"
    and "q_deliveries q' = q_deliveries (update_delivery i f q)"
  shows "retouches A q q'"
  using assms unfolding retouches_def
  by (auto simp: update_delivery_def update_where_def intro!: exI [of _ "\<lambda>d. if dr_id d = i then f d else d"])

lemma audit_fields [simp]:
  "q_messages (audit u a x q) = q_messages q" "q_deliveries (audit u a x q) = q_deliveries q"
  "q_origin (audit u a x q) = q_origin q" "q_spool (audit u a x q) = q_spool q" "q_policies (audit u a x q) = q_policies q"
  by (simp_all add: audit_def)

lemma update_delivery_fields [simp]:
  "q_messages (update_delivery i f q) = q_messages q" "q_origin (update_delivery i f q) = q_origin q"
  "q_spool (update_delivery i f q) = q_spool q" "q_policies (update_delivery i f q) = q_policies q"
  by (simp_all add: update_delivery_def)

lemma retouches_updated:
  assumes "\<And>d. d \<in> set (q_deliveries q) \<Longrightarrow> dr_id d = i \<Longrightarrow> moves A d (f d) \<and> dr_dsn_id (f d) = dr_dsn_id d"
  shows "retouches A q (update_delivery i f q)" "retouches A q (audit u a x (update_delivery i f q))"
  by (rule retouches_update [OF assms]; simp)+

lemma operationI:
  assumes "\<And>q. queue_ok q \<Longrightarrow> pre q \<Longrightarrow> retouches (A q) q (op q)"
  shows "queue_operation op A pre"
  using assms retouches_change by unfold_locales blast+

section \<open>Jobs, notices and quarantine\<close>

definition has_status :: "delivery_status \<Rightarrow> nat \<Rightarrow> queue \<Rightarrow> bool" where
  "has_status s i q \<longleftrightarrow> (\<exists>d \<in> set (q_deliveries q). dr_id d = i \<and> dr_status d = s \<and> owned q d)"

lemma has_statusD: "queue_ok q \<Longrightarrow> has_status s i q \<Longrightarrow> d \<in> set (q_deliveries q) \<Longrightarrow> dr_id d = i \<Longrightarrow> dr_status d = s"
  unfolding has_status_def using distinct_key_eq [OF ok_deliveries] by metis

definition claimed_ids :: "(string \<Rightarrow> bool) \<Rightarrow> int \<Rightarrow> queue \<Rightarrow> nat set" where
  "claimed_ids acked now q = (case fst (claim acked now q) of None \<Rightarrow> {} | Some j \<Rightarrow> {jb_delivery_id j})"

lemma due_rows_set: "set (due_rows acked now q) = {d \<in> set (q_deliveries q). due acked now q d}"
  by (simp add: due_rows_def)

lemma claim_cases:
  assumes "queue_ok q"
  obtains (idle) "claim acked now q = (None, q)"
  | (busy) d m where "d \<in> set (q_deliveries q)" "due acked now q d" "m \<in> set (q_messages q)" "mr_id m = dr_message_id d"
      "\<And>e. e \<in> set (q_deliveries q) \<Longrightarrow> due acked now q e \<Longrightarrow> dr_next_attempt d \<le> dr_next_attempt e"
      "claim acked now q = (Some (job_of (released_or_created q m d) (dr_attempts d + 1) m d),
         update_delivery (dr_id d) (\<lambda>r. r\<lparr>dr_status := Ds_Sending, dr_attempts := dr_attempts r + 1\<rparr>) q)"
proof (cases "due_rows acked now q")
  case Nil
  then show thesis using idle by (simp add: claim_def)
next
  case (Cons d ds)
  then have d: "d \<in> set (q_deliveries q)" "due acked now q d" using due_rows_set [of acked now q] by auto
  then obtain m where m: "find_message (dr_message_id d) q = Some m" by (auto simp: due_def)
  have "sorted (map dr_next_attempt (due_rows acked now q))" by (simp add: due_rows_def)
  then have "\<forall>e \<in> set (due_rows acked now q). dr_next_attempt d \<le> dr_next_attempt e" using Cons by auto
  then have first: "dr_next_attempt d \<le> dr_next_attempt e" if "e \<in> set (q_deliveries q)" "due acked now q e" for e
    using that due_rows_set [of acked now q] by blast
  have "m \<in> set (q_messages q)" "mr_id m = dr_message_id d" using m find_message_iff [OF assms] by blast+
  moreover have "claim acked now q = (Some (job_of (released_or_created q m d) (dr_attempts d + 1) m d),
      update_delivery (dr_id d) (\<lambda>r. r\<lparr>dr_status := Ds_Sending, dr_attempts := dr_attempts r + 1\<rparr>) q)"
    using Cons m by (simp add: claim_def)
  ultimately show thesis using busy d first by blast
qed

interpretation claimed: queue_operation "\<lambda>q. snd (claim acked now q)" "claimed_ids acked now" "\<lambda>_. True" for acked now
proof (rule operationI)
  fix q assume ok: "queue_ok q"
  show "retouches (claimed_ids acked now q) q (snd (claim acked now q))"
    using ok
  proof (cases rule: claim_cases [where acked = acked and now = now])
    case idle
    then show ?thesis by (simp add: retouches_refl)
  next
    case (busy d m)
    then have "claimed_ids acked now q = {dr_id d}" by (simp add: claimed_ids_def job_of_def)
    moreover have "moves {dr_id d} e (e\<lparr>dr_status := Ds_Sending, dr_attempts := dr_attempts e + 1\<rparr>)"
      if "e \<in> set (q_deliveries q)" "dr_id e = dr_id d" for e
      using distinct_key_eq [OF ok_deliveries [OF ok] that(1) busy(1) that(2)] busy(2) by (simp add: moves_def due_def)
    ultimately show ?thesis
      unfolding busy(6) by (auto intro!: retouches_update [where i = "dr_id d"])
  qed
qed

definition finishes :: "job \<Rightarrow> delivery_status \<Rightarrow> queue \<Rightarrow> bool" where
  "finishes j st q \<longleftrightarrow> has_status Ds_Sending (jb_delivery_id j) q \<and> st \<in> {Ds_Delivered, Ds_Failed, Ds_Pending}
     \<or> has_status Ds_Failed (jb_delivery_id j) q \<and> st \<in> {Ds_Notified, Ds_Suppressed}"

lemma finish_retouches:
  assumes ok: "queue_ok q" and "finishes j st q"
  shows "retouches {jb_delivery_id j} q (finish_with_attempts san j st err nx ats q)"
  using assms has_statusD [OF ok]
  by (intro retouches_update [where i = "jb_delivery_id j"
        and f = "\<lambda>r. r\<lparr>dr_status := st, dr_error := Some (fst (san err)), dr_next_attempt := nx\<rparr>"])
    (auto simp: finish_with_attempts_def Let_def finishes_def moves_def update_delivery_def)

interpretation finished: queue_operation "finish_with_attempts san j st err nx ats" "\<lambda>_. {jb_delivery_id j}" "finishes j st"
  for san j st err nx ats
  by (rule operationI) (rule finish_retouches)

lemma notice_row_Some:
  assumes "queue_ok q" "notice_row j q = Some (d, m)"
  shows "d \<in> set (q_deliveries q) \<and> dr_id d = jb_delivery_id j \<and> dr_status d = Ds_Failed \<and> dr_dsn_id d = None \<and> owned q d
    \<and> m \<in> set (q_messages q) \<and> mr_id m = jb_message_id j \<and> dr_message_id d = mr_id m \<and> \<not> mr_is_dsn m \<and> mr_sender m \<noteq> []
    \<and> dr_attempts d = jb_attempts j"
  using assms(2) find_message_iff [OF assms(1), of "jb_message_id j" m] find_delivery_iff [OF assms(1), of "jb_delivery_id j" d]
  by (auto simp: notice_row_def failed_row_def owned_def split: option.splits if_splits)

lemma failed_has_status:
  "queue_ok q \<Longrightarrow> notice_row j q = Some (d, m) \<Longrightarrow> has_status Ds_Failed (jb_delivery_id j) q"
  using notice_row_Some by (fastforce simp: has_status_def)

lemma suppress_cases:
  obtains (kept) "suppress_hostile_dsn san j q = (False, q)"
  | (suppressed) d m a r where "notice_row j q = Some (d, m)" "latest_attempt d q = Some a"
      "suppression_reason (mr_scan m) a = Some r" "mr_id m \<notin> set (q_corrected q)"
      "suppress_hostile_dsn san j q = (True, audit ''system'' ''dsn_suppressed'' (nat_digits (jb_delivery_id j))
        (update_delivery (jb_delivery_id j) (\<lambda>x. x\<lparr>dr_status := Ds_Suppressed,
           dr_error := Some (fst (san (''Notice blocks by anti-backscatter protection ('' @ BACKSCATTER_VERSION
             @ ''; '' @ r @ ''); remote refusal: '' @ unwrap_or (dr_error d) []))), dr_next_attempt := 0\<rparr>) q))"
  by (cases "fst (suppress_hostile_dsn san j q)")
     (auto simp: suppress_hostile_dsn_def Let_def split: option.splits if_splits prod.splits)

interpretation suppression: queue_operation "\<lambda>q. snd (suppress_hostile_dsn san j q)" "\<lambda>_. {jb_delivery_id j}" "\<lambda>_. True"
  for san j
proof (rule operationI)
  fix q assume ok: "queue_ok q"
  show "retouches {jb_delivery_id j} q (snd (suppress_hostile_dsn san j q))"
  proof (cases rule: suppress_cases [of san j q])
    case kept
    then show ?thesis by (simp add: retouches_refl)
  next
    case (suppressed d m a r)
    have "dr_status e = Ds_Failed" if "e \<in> set (q_deliveries q)" "dr_id e = jb_delivery_id j" for e
      using has_statusD [OF ok failed_has_status [OF ok suppressed(1)]] that by blast
    then show ?thesis
      unfolding suppressed(5) snd_conv by (intro retouches_updated) (simp add: moves_def)
  qed
qed

lemma apply_operation_retouches:
  assumes ok: "queue_ok q" and "has_status s i q"
    and "s = Ds_Quarantined \<and> c \<noteq> Retry \<or> s = Ds_Pending \<and> c = Retry"
  shows "retouches {} q (apply_operation c now i q)"
  using assms has_statusD [OF ok assms(2)]
  by (intro retouches_update [where i = i
        and f = "\<lambda>r. r\<lparr>dr_status := operation_status c, dr_next_attempt := now, dr_error := None\<rparr>"])
    (auto simp: apply_operation_def operation_status_def Let_def set_released_def moves_def update_delivery_def)

lemma retouches_view:
  assumes "retouches A q q1" and "q_messages q2 = q_messages q1" "q_origin q2 = q_origin q1" "q_spool q2 = q_spool q1"
    "q_deliveries q2 = q_deliveries q1"
  shows "retouches A q q2"
  using assms by (simp add: retouches_def)

lemma retouches_irrelevant [simp]:
  "retouches A q (q1\<lparr>q_receipts := rs\<rparr>) = retouches A q q1" "retouches A q (q1\<lparr>q_commands := cs\<rparr>) = retouches A q q1"
  "retouches A q (audit u a x q1) = retouches A q q1"
  by (simp_all add: retouches_def)

lemma find_recipient_Some:
  "find_recipient m r q = Some d \<Longrightarrow> d \<in> set (q_deliveries q) \<and> dr_message_id d = m \<and> dr_address d = r"
  by (auto simp: find_recipient_def find_Some_iff)

lemma console_retouches:
  assumes ok: "queue_ok q"
  shows "retouches {} q (snd (quarantine_action access enabled now cid user msg rcp c q))"
proof -
  have held: "retouches {} q (snd (Done, audit user x y (apply_operation (operation_of c) now (dr_id d) q)))"
    if "find_recipient msg rcp q = Some d" "dr_status d = Ds_Quarantined" "q_origin q msg = None" for d x y
  proof -
    have "has_status Ds_Quarantined (dr_id d) q"
      using find_recipient_Some [OF that(1)] that(2,3) by (auto simp: has_status_def owned_def local_message_def)
    then have "retouches {} q (apply_operation (operation_of c) now (dr_id d) q)"
      by (rule apply_operation_retouches [OF ok]) (cases c; simp)
    then show ?thesis by simp
  qed
  show ?thesis
    using held
    by (auto simp: quarantine_action_def queue_command_def Let_def retouches_refl split: option.splits)
qed

interpretation console: queue_operation "\<lambda>q. snd (quarantine_action access enabled now cid user msg rcp c q)" "\<lambda>_. {}" "\<lambda>_. True"
  for access enabled now cid user msg rcp c
  by (rule operationI) (rule console_retouches)

lemma command_target_status:
  assumes "command_target now c q = Some i"
  obtains s where "has_status s i q" "s = Ds_Quarantined \<and> cm_command c \<noteq> Retry \<or> s = Ds_Pending \<and> cm_command c = Retry"
proof -
  obtain d where d: "find_recipient (cm_message_id c) (cm_recipient c) q = Some d" "dr_id d = i"
      "dr_status d = Ds_Quarantined \<and> cm_command c \<noteq> Retry \<or> dr_status d = Ds_Pending \<and> cm_command c = Retry"
      "local_message (cm_message_id c) q"
    using assms by (auto simp: command_target_def split: option.splits if_splits)
  then have "has_status (dr_status d) i q"
    using find_recipient_Some [OF d(1)] by (auto simp: has_status_def owned_def)
  with d(3) show thesis using that by blast
qed

lemma command_effect_retouches:
  assumes "queue_ok q" "command_target now c q = Some i"
  shows "retouches {} q (command_effect now c i q)"
proof -
  have "retouches {} q (apply_operation (cm_command c) now i q)"
    using command_target_status [OF assms(2)] apply_operation_retouches [OF assms(1)] by metis
  then show ?thesis by (auto simp: command_effect_def Let_def)
qed

lemma execute_command_retouches:
  assumes "queue_ok q" "execute_command is_uuid now c q = Inr (r, q')"
  shows "retouches {} q q'"
  using assms command_effect_retouches [OF assms(1)]
  by (auto simp: execute_command_def and_then_Inr_iff retouches_refl
      split: option.splits if_splits)

lemma execute_commands_retouches:
  "queue_ok q \<Longrightarrow> execute_commands is_uuid now cs q = Inr (rs, q') \<Longrightarrow> retouches {} q q'"
proof (induction cs arbitrary: q rs)
  case (Cons c cs)
  then obtain r q1 rs1 where step: "execute_command is_uuid now c q = Inr (r, q1)"
    "execute_commands is_uuid now cs q1 = Inr (rs1, q')"
    by (auto simp: and_then_Inr_iff)
  have one: "retouches {} q q1" by (rule execute_command_retouches [OF Cons.prems(1) step(1)])
  then have "queue_ok q1" using retouches_change [OF Cons.prems(1)] by blast
  then show ?case using Cons.IH step(2) one retouches_trans by blast
qed (simp add: retouches_refl)

lemma commanded_retouches:
  assumes ok: "queue_ok q"
  shows "retouches {} q (case execute_transaction is_uuid unacked now cs q of Inl _ \<Rightarrow> q | Inr (_, q') \<Rightarrow> q')"
proof -
  show ?thesis
  proof (cases "execute_transaction is_uuid unacked now cs q")
    case (Inr b)
    then obtain rs q1 where "execute_commands is_uuid now cs q = Inr (rs, q1)"
      and view: "q_messages (snd b) = q_messages q1" "q_origin (snd b) = q_origin q1" "q_spool (snd b) = q_spool q1"
        "q_deliveries (snd b) = q_deliveries q1"
      by (auto simp: execute_transaction_def and_then_Inr_iff)
    then have "retouches {} q (snd b)" using execute_commands_retouches [OF ok] retouches_view view by blast
    with Inr show ?thesis by (simp add: case_prod_unfold)
  qed (simp add: retouches_refl)
qed

interpretation commanded: queue_operation
    "\<lambda>q. case execute_transaction is_uuid unacked now cs q of Inl _ \<Rightarrow> q | Inr (_, q') \<Rightarrow> q'" "\<lambda>_. {}" "\<lambda>_. True"
  for is_uuid unacked now cs
  by (rule operationI) (rule commanded_retouches)

lemma release_retouches:
  assumes ok: "queue_ok q" and own: "\<forall>d \<in> set (q_deliveries q). dr_id d = i \<longrightarrow> owned q d"
  shows "retouches {} q (release_hold now i q)"
proof (cases "find_delivery i q")
  case (Some d)
  then have d: "d \<in> set (q_deliveries q)" "dr_id d = i" using find_delivery_iff [OF ok] by blast+
  show ?thesis
  proof (cases "dr_status d = Ds_Quarantined \<and> held_now now d q")
    case True
    then have "has_status Ds_Quarantined i q" using d own by (auto simp: has_status_def)
    from apply_operation_retouches [OF ok this, of Release] have "retouches {} q (apply_operation Release now i q)" by simp
    then show ?thesis using Some True by (simp add: release_hold_def)
  qed (auto simp: Some release_hold_def retouches_refl)
qed (simp add: release_hold_def retouches_refl)

interpretation released: queue_operation "release_hold now i" "\<lambda>_. {}" "\<lambda>q. \<forall>d \<in> set (q_deliveries q). dr_id d = i \<longrightarrow> owned q d"
  for now i
  by (rule operationI) (rule release_retouches)

lemma retry_retouches: "retouches {} q (case retry_now now user i q of Inl _ \<Rightarrow> q | Inr q' \<Rightarrow> q')"
  by (auto simp: retry_now_def retouches_refl moves_def intro!: retouches_updated split: option.splits)

interpretation retried: queue_operation "\<lambda>q. case retry_now now user i q of Inl _ \<Rightarrow> q | Inr q' \<Rightarrow> q'" "\<lambda>_. {}" "\<lambda>_. True"
  for now user i
  by (rule operationI) (rule retry_retouches)

lemma retouches_where:
  assumes "\<And>d. d \<in> set (q_deliveries q) \<Longrightarrow> p d \<Longrightarrow> moves A d (f d) \<and> dr_dsn_id (f d) = dr_dsn_id d"
    and "q_messages q' = q_messages q" "q_origin q' = q_origin q" "q_spool q' = q_spool q"
    and "q_deliveries q' = update_where p f (q_deliveries q)"
  shows "retouches A q q'"
  using assms unfolding retouches_def
  by (auto simp: update_where_def intro!: exI [of _ "\<lambda>d. if p d then f d else d"])

lemma expire_retouches: "retouches {} q (expire_quarantine now q)"
  by (rule retouches_where [where p = "expires_held now q" and f = "\<lambda>d. d\<lparr>dr_status := Ds_Expired\<rparr>"])
     (simp_all add: expire_quarantine_def expires_held_def moves_def)

interpretation expired: queue_operation "expire_quarantine now" "\<lambda>_. {}" "\<lambda>_. True" for now
  by (rule operationI) (rule expire_retouches)

section \<open>Bodies and rows that go\<close>

lemma spool_retouches:
  assumes "\<And>m. m \<in> set (q_messages q) \<Longrightarrow> mr_raw_present m \<Longrightarrow> sp (mr_id m) = q_spool q (mr_id m)"
  shows "retouches A q (q\<lparr>q_spool := sp\<rparr>)"
  using assms by (auto simp: retouches_def intro!: exI [of _ id])

interpretation removed: queue_operation "remove_body i" "\<lambda>_. {}" "\<lambda>q. \<forall>m \<in> set (q_messages q). mr_id m = i \<longrightarrow> \<not> mr_raw_present m" for i
  by (rule operationI) (auto simp: remove_body_def intro!: spool_retouches)

definition settled :: "string \<Rightarrow> queue \<Rightarrow> bool" where
  "settled i q \<longleftrightarrow> (\<forall>d \<in> set (q_deliveries q). dr_message_id d = i \<longrightarrow> \<not> unresolved (dr_status d))"

interpretation tombstoned: queue_operation "tombstone i" "\<lambda>_. {}" "settled i" for i
proof
  fix q assume ok: "queue_ok q" and settled: "settled i q"
  let ?f = "\<lambda>m. if mr_id m = i then m\<lparr>mr_raw_present := False\<rparr> else m"
  have ms: "q_messages (tombstone i q) = map ?f (q_messages q)" by (simp add: tombstone_def update_where_def)
  have rest: "q_deliveries (tombstone i q) = q_deliveries q" "q_spool (tombstone i q) = q_spool q"
    "q_origin (tombstone i q) = q_origin q" by (simp_all add: tombstone_def)
  have own: "owned (tombstone i q) d = owned q d" "local_message k (tombstone i q) = local_message k q" for d k
    by (simp_all add: owned_def local_message_def rest)
  have f: "mr_id (?f m) = mr_id m" "mr_sender (?f m) = mr_sender m" "mr_is_dsn (?f m) = mr_is_dsn m" for m by simp_all
  have ids: "map mr_id (map ?f (q_messages q)) = map mr_id (q_messages q)" by simp
  have img: "mr_id ` set (map ?f (q_messages q)) = mr_id ` set (q_messages q)" by (metis ids list.set_map)
  show "queue_ok (tombstone i q)"
    unfolding queue_ok_def ms rest own img ids
  proof (intro conjI ballI impI)
    fix d m assume "d \<in> set (q_deliveries q)" "m \<in> set (map ?f (q_messages q))"
      "owned q d \<and> unresolved (dr_status d) \<and> mr_id m = dr_message_id d"
    with settled ok_present [OF ok] show "mr_raw_present m" by (auto simp: settled_def split: if_splits)
  next
    fix d assume "d \<in> set (q_deliveries q)" "dr_dsn_id d \<noteq> None"
    then obtain m where "m \<in> set (q_messages q)" "mr_id m = dr_message_id d" "\<not> mr_is_dsn m" "mr_sender m \<noteq> []"
      using ok_linked [OF ok, of d] by auto
    then show "\<exists>m\<in>set (map ?f (q_messages q)). mr_id m = dr_message_id d \<and> \<not> mr_is_dsn m \<and> mr_sender m \<noteq> []"
      by (intro bexI [of _ "?f m"]) simp_all
  qed (use ok in \<open>auto simp: queue_ok_def split: if_splits\<close>)
  show "follows {} q (tombstone i q)"
    unfolding follows_def ms rest
    using settled same_row_moves [OF ok] by (auto simp: settled_def image_iff)
qed

lemma purge_keeps:
  assumes ok: "queue_ok q" and "d \<in> set (q_deliveries q)" "owned q d" "unresolved (dr_status d)"
  shows "\<not> (\<exists>m \<in> set (q_messages q). purgeable synced now q m \<and> mr_id m = dr_message_id d)"
  using ok_present [OF ok assms(2) _ assms(3,4)] by (auto simp: purgeable_def)

interpretation purged: queue_operation "purge synced now" "\<lambda>_. {}" "\<lambda>_. True" for synced now
proof
  fix q assume ok: "queue_ok q"
  let ?gone = "mr_id ` {m \<in> set (q_messages q). purgeable synced now q m}"
  have ms: "set (q_messages (purge synced now q)) = {m \<in> set (q_messages q). mr_id m \<notin> ?gone}"
    and ds: "set (q_deliveries (purge synced now q)) = {d \<in> set (q_deliveries q). dr_message_id d \<notin> ?gone}"
    and sp: "q_spool (purge synced now q) = q_spool q"
    and origin: "q_origin (purge synced now q) = (\<lambda>i. if i \<in> ?gone then None else q_origin q i)"
    by (auto simp: purge_def Let_def)
  have dist: "distinct (map mr_id (q_messages (purge synced now q)))" "distinct (map dr_id (q_deliveries (purge synced now q)))"
    using ok_messages [OF ok] ok_deliveries [OF ok] by (simp_all add: purge_def Let_def distinct_map_filter)
  show "queue_ok (purge synced now q)"
    unfolding queue_ok_def ms ds sp
  proof (intro conjI ballI impI allI)
    fix i assume "q_origin (purge synced now q) i \<noteq> None"
    then show "i \<in> mr_id ` {m \<in> set (q_messages q). mr_id m \<notin> ?gone}"
      using ok_origin [OF ok, of i] by (auto simp: origin split: if_splits)
  next
    fix d m assume "d \<in> {d \<in> set (q_deliveries q). dr_message_id d \<notin> ?gone}" "m \<in> {m \<in> set (q_messages q). mr_id m \<notin> ?gone}"
      "owned (purge synced now q) d \<and> unresolved (dr_status d) \<and> mr_id m = dr_message_id d"
    then show "mr_raw_present m" using ok_present [OF ok, of d m] by (auto simp: owned_def local_message_def origin)
  next
    fix m assume "m \<in> {m \<in> set (q_messages q). mr_id m \<notin> ?gone}" "mr_is_dsn m \<and> local_message (mr_id m) (purge synced now q)"
    then show "mr_sender m = []" using ok_notice [OF ok, of m] by (auto simp: local_message_def origin)
  next
    fix d assume d: "d \<in> {d \<in> set (q_deliveries q). dr_message_id d \<notin> ?gone}" "dr_dsn_id d \<noteq> None"
    then obtain m where "m \<in> set (q_messages q)" "mr_id m = dr_message_id d" "\<not> mr_is_dsn m" "mr_sender m \<noteq> []"
      using ok_linked [OF ok, of d] by auto
    with d show "\<exists>m \<in> {m \<in> set (q_messages q). mr_id m \<notin> ?gone}. mr_id m = dr_message_id d \<and> \<not> mr_is_dsn m \<and> mr_sender m \<noteq> []"
      by (intro bexI [of _ m]) auto
  qed (use ok dist in \<open>auto simp: queue_ok_def\<close>)
  show "follows {} q (purge synced now q)"
    unfolding follows_def ms ds sp
  proof (intro conjI ballI impI)
    fix d assume "d \<in> set (q_deliveries q)" "owned q d \<and> unresolved (dr_status d)"
    then show "dr_id d \<in> dr_id ` {d \<in> set (q_deliveries q). dr_message_id d \<notin> ?gone}"
      using purge_keeps [OF ok, of d synced now] by (intro imageI) auto
  next
    fix m assume "m \<in> set (q_messages q)" "\<exists>d\<in>set (q_deliveries q). dr_message_id d = mr_id m \<and> owned q d \<and> unresolved (dr_status d)"
    then show "m \<in> {m \<in> set (q_messages q). mr_id m \<notin> ?gone}"
      using purge_keeps [OF ok, of _ synced now] by fastforce
  qed (use same_row_moves [OF ok] in \<open>auto simp: origin\<close>)
qed

interpretation recovered: queue_operation "\<lambda>q. snd (recover q)" "\<lambda>_. UNIV" "\<lambda>_. True"
proof (rule operationI)
  fix q assume ok: "queue_ok q"
  have one: "retouches UNIV q (release_claims q)"
    by (rule retouches_where [where p = "\<lambda>d. dr_status d = Ds_Sending \<and> local_message (dr_message_id d) q"
          and f = "\<lambda>d. d\<lparr>dr_status := Ds_Pending\<rparr>"]) (simp_all add: release_claims_def moves_def)
  then show "retouches UNIV q (snd (recover q))"
    by (auto simp: recover_def Let_def retouches_def bodies_present_def release_claims_def split: sum.splits)
qed

text \<open>A queue in order recovers: every body the tables promise is there.\<close>

lemma recover_ok:
  assumes "queue_ok q"
  shows "fst (recover q) = Inr ()"
proof -
  have present: "check_all (\<lambda>i. ensure (q_spool (release_claims q) i \<noteq> None) (e i)) (bodies_present (release_claims q)) = Inr ()" for e
    using ok_body [OF assms] by (auto simp: check_all_iff bodies_present_def release_claims_def)
  show ?thesis unfolding recover_def Let_def by (simp only: present sum.case fst_conv)
qed

section \<open>New messages\<close>

lemma next_rowid_fresh: "d \<in> set ds \<Longrightarrow> dr_id d < next_rowid ds"
proof -
  assume "d \<in> set ds"
  then have "dr_id d \<le> fold max (map dr_id ds) 0"
    using Max_ge [of "set (0 # map dr_id ds)" "dr_id d"] by (simp only: Max.set_eq_fold) simp
  then show ?thesis by (simp add: next_rowid_def)
qed

text \<open>What an insertion adds: messages with new identities and deliveries of those messages.\<close>

definition extends :: "queue \<Rightarrow> message_row list \<Rightarrow> delivery_row list \<Rightarrow> queue \<Rightarrow> bool" where
  "extends q ms ds q' \<longleftrightarrow> q_messages q' = q_messages q @ ms \<and> q_deliveries q' = q_deliveries q @ ds
     \<and> q_origin q' = q_origin q \<and> q_spool q' = q_spool q"

lemma extends_trans: "extends q ms ds q1 \<Longrightarrow> extends q1 ms' ds' q2 \<Longrightarrow> extends q (ms @ ms') (ds @ ds') q2"
  by (simp add: extends_def)

definition fresh_row :: "string \<Rightarrow> delivery_row \<Rightarrow> bool" where
  "fresh_row i d \<longleftrightarrow> dr_message_id d = i \<and> dr_status d \<in> {Ds_Pending, Ds_Quarantined} \<and> dr_dsn_id d = None"

definition fresh_ids :: "queue \<Rightarrow> delivery_row list \<Rightarrow> bool" where
  "fresh_ids q ds \<longleftrightarrow> distinct (map dr_id ds) \<and> dr_id ` set ds \<inter> dr_id ` set (q_deliveries q) = {}"

lemma fresh_ids_append: "fresh_ids q ds \<Longrightarrow> extends q ms ds q1 \<Longrightarrow> fresh_ids q1 ds' \<Longrightarrow> fresh_ids q (ds @ ds')"
  by (auto simp: fresh_ids_def extends_def)

lemma insert_recipient_extends:
  assumes "insert_recipient env v ra q = Inr q'"
  obtains d where "extends q [] [d] q'" "fresh_row (qv_id v) d" "fresh_ids q [d]"
    "dr_address d = rc_address (fst ra)" "dr_destination d = rc_destination (fst ra)"
  using assms next_rowid_fresh [of _ "q_deliveries q"]
  by (cases ra) (fastforce simp: insert_recipient_def Let_def extends_def fresh_row_def fresh_ids_def initial_status_def split: if_splits)

lemma insert_recipients_extends:
  assumes "insert_recipients env v rs q = Inr q'"
  shows "\<exists>ds. extends q [] ds q' \<and> (\<forall>d \<in> set ds. fresh_row (qv_id v) d) \<and> fresh_ids q ds
    \<and> map dr_address ds = map (rc_address \<circ> fst) rs"
  using assms
proof (induction rs arbitrary: q)
  case Nil
  then show ?case by (simp add: extends_def fresh_ids_def)
next
  case (Cons r rs)
  then obtain q1 where q1: "insert_recipient env v r q = Inr q1" "insert_recipients env v rs q1 = Inr q'"
    by (auto simp: and_then_Inr_iff)
  obtain d where d: "extends q [] [d] q1" "fresh_row (qv_id v) d" "fresh_ids q [d]" "dr_address d = rc_address (fst r)"
    using insert_recipient_extends [OF q1(1)] by metis
  obtain ds where ds: "extends q1 [] ds q'" "\<forall>d \<in> set ds. fresh_row (qv_id v) d" "fresh_ids q1 ds"
      "map dr_address ds = map (rc_address \<circ> fst) rs"
    using Cons.IH [OF q1(2)] by blast
  have "extends q [] (d # ds) q'" "fresh_ids q (d # ds)"
    using extends_trans [OF d(1) ds(1)] fresh_ids_append [OF d(3,1) ds(3)] by simp_all
  with d ds show ?case by (intro exI [of _ "d # ds"]) simp
qed

definition variant_row :: "acceptance_env \<Rightarrow> string \<Rightarrow> queue_variant \<Rightarrow> message_row" where
  "variant_row env sender v = \<lparr>mr_id = qv_id v, mr_created = ae_now env, mr_sender = sender, mr_scan = qv_scan v,
     mr_is_dsn = False, mr_raw_present = True\<rparr>"

lemma insert_message_extends:
  "insert_message m q = Inr q' \<Longrightarrow> extends q [m] [] q' \<and> mr_id m \<notin> mr_id ` set (q_messages q)"
  by (auto simp: insert_message_def extends_def list_ex_iff split: if_splits)

lemma insert_variants_extends:
  assumes "insert_variants env sender vs q = Inr q'"
  shows "\<exists>ds. extends q (map (variant_row env sender) vs) ds q' \<and> (\<forall>d \<in> set ds. \<exists>v \<in> set vs. fresh_row (qv_id v) d)
    \<and> fresh_ids q ds \<and> distinct (map qv_id vs) \<and> set (map qv_id vs) \<inter> mr_id ` set (q_messages q) = {}
    \<and> map (\<lambda>d. (dr_message_id d, dr_address d)) ds
      = concat (map (\<lambda>v. map (\<lambda>r. (qv_id v, rc_address (fst r))) (qv_recipients v)) vs)"
  using assms
proof (induction vs arbitrary: q)
  case Nil
  then show ?case by (simp add: extends_def fresh_ids_def)
next
  case (Cons v vs)
  then obtain q1 q2 where q1: "insert_message (variant_row env sender v) q = Inr q1"
      and q2: "insert_recipients env v (qv_recipients v) q1 = Inr q2" and q': "insert_variants env sender vs q2 = Inr q'"
    by (auto simp: and_then_Inr_iff variant_row_def)
  have m: "extends q [variant_row env sender v] [] q1" "qv_id v \<notin> mr_id ` set (q_messages q)"
    using insert_message_extends [OF q1] by (simp_all add: variant_row_def)
  obtain ds where ds: "extends q1 [] ds q2" "\<forall>d \<in> set ds. fresh_row (qv_id v) d" "fresh_ids q1 ds"
      "map dr_address ds = map (rc_address \<circ> fst) (qv_recipients v)"
    using insert_recipients_extends [OF q2] by blast
  obtain ds' where ds': "extends q2 (map (variant_row env sender) vs) ds' q'"
      "\<forall>d \<in> set ds'. \<exists>v \<in> set vs. fresh_row (qv_id v) d" "fresh_ids q2 ds'" "distinct (map qv_id vs)"
      "set (map qv_id vs) \<inter> mr_id ` set (q_messages q2) = {}"
      "map (\<lambda>d. (dr_message_id d, dr_address d)) ds'
        = concat (map (\<lambda>v. map (\<lambda>r. (qv_id v, rc_address (fst r))) (qv_recipients v)) vs)"
    using Cons.IH [OF q'] by blast
  have one: "extends q [variant_row env sender v] ds q2" using extends_trans [OF m(1) ds(1)] by simp
  have ext: "extends q (map (variant_row env sender) (v # vs)) (ds @ ds') q'" using extends_trans [OF one ds'(1)] by simp
  have "fresh_ids q ds" using m(1) ds(3) by (auto simp: fresh_ids_def extends_def)
  then have fresh: "fresh_ids q (ds @ ds')" using fresh_ids_append one ds'(3) by blast
  have rows: "map (\<lambda>d. (dr_message_id d, dr_address d)) ds = map (\<lambda>r. (qv_id v, rc_address (fst r))) (qv_recipients v)"
    using ds(2,4) by (auto simp: fresh_row_def list_eq_iff_nth_eq)
  have "q_messages q2 = q_messages q @ [variant_row env sender v]" using one by (simp add: extends_def)
  then have "distinct (map qv_id (v # vs)) \<and> set (map qv_id (v # vs)) \<inter> mr_id ` set (q_messages q) = {}"
    using m(2) ds'(4,5) by (auto simp: variant_row_def)
  with ext fresh rows ds(2) ds'(2,6) show ?case
    by (intro exI [of _ "ds @ ds'"]) auto
qed

definition linked :: "queue \<Rightarrow> delivery_row \<Rightarrow> bool" where
  "linked q d \<longleftrightarrow> dr_status d = Ds_Notified
     \<and> (\<exists>m \<in> set (q_messages q). mr_id m = dr_message_id d \<and> \<not> mr_is_dsn m \<and> mr_sender m \<noteq> [])"

lemma insertion_change:
  assumes ok: "queue_ok q"
    and ms': "q_messages q' = q_messages q @ ms" and ds': "q_deliveries q' = map g (q_deliveries q) @ ds"
    and origin: "q_origin q' = q_origin q"
    and sp: "\<And>m. m \<in> set (q_messages q) \<Longrightarrow> mr_raw_present m \<Longrightarrow> q_spool q' (mr_id m) = q_spool q (mr_id m)"
    and g: "\<And>d. d \<in> set (q_deliveries q) \<Longrightarrow> moves A d (g d) \<and> (dr_dsn_id (g d) = dr_dsn_id d \<or> linked q (g d))"
    and new: "distinct (map mr_id ms)" "mr_id ` set ms \<inter> mr_id ` set (q_messages q) = {}" "fresh_ids q ds"
    and rows: "\<And>d. d \<in> set ds \<Longrightarrow> \<exists>m \<in> set ms. fresh_row (mr_id m) d"
    and mrows: "\<And>m. m \<in> set ms \<Longrightarrow> mr_raw_present m \<and> q_spool q' (mr_id m) \<noteq> None \<and> (mr_is_dsn m \<longrightarrow> mr_sender m = [])"
  shows "queue_ok q' \<and> follows A q q'"
proof
  have msg: "dr_message_id (g d) = dr_message_id d \<and> dr_id (g d) = dr_id d" if "d \<in> set (q_deliveries q)" for d
    using g [OF that] by (simp add: moves_def)
  have ids: "map dr_id (map g (q_deliveries q)) = map dr_id (q_deliveries q)"
    using msg by simp
  have own: "owned q' d = owned q d" "local_message i q' = local_message i q" for d i
    using origin by (simp_all add: owned_def local_message_def)
  have dset: "set (q_deliveries q') = g ` set (q_deliveries q) \<union> set ds"
    and mset: "set (q_messages q') = set (q_messages q) \<union> set ms" by (simp_all add: ds' ms')
  have fresh: "d \<in> set ds \<Longrightarrow> dr_id d \<notin> dr_id ` set (q_deliveries q)" for d
    using new(3) by (auto simp: fresh_ids_def)
  have parent: "d \<in> set ds \<Longrightarrow> dr_message_id d \<in> mr_id ` set ms" for d
    using rows [of d] by (auto simp: fresh_row_def)
  show "queue_ok q'"
    unfolding queue_ok_def dset mset own
  proof (intro conjI ballI impI allI)
    show "distinct (map mr_id (q_messages q'))" using ok_messages [OF ok] new(1,2) by (auto simp: ms')
    have "distinct (map dr_id (map g (q_deliveries q)) @ map dr_id ds)"
      unfolding ids using ok_deliveries [OF ok] new(3) by (auto simp: fresh_ids_def)
    then show "distinct (map dr_id (q_deliveries q'))" by (simp add: ds')
  next
    fix d assume "d \<in> g ` set (q_deliveries q) \<union> set ds"
    then show "dr_message_id d \<in> mr_id ` (set (q_messages q) \<union> set ms)"
      using parent msg ok_parent [OF ok] by (auto simp: image_Un)
  next
    fix i assume "q_origin q' i \<noteq> None"
    then show "i \<in> mr_id ` (set (q_messages q) \<union> set ms)" using ok_origin [OF ok] origin by (auto simp: image_Un)
  next
    fix m assume "m \<in> set (q_messages q) \<union> set ms" "mr_raw_present m"
    then show "q_spool q' (mr_id m) \<noteq> None" using sp mrows ok_body [OF ok] by auto
  next
    fix d m assume *: "d \<in> g ` set (q_deliveries q) \<union> set ds" "m \<in> set (q_messages q) \<union> set ms"
      "owned q d \<and> unresolved (dr_status d) \<and> mr_id m = dr_message_id d"
    show "mr_raw_present m"
    proof (cases "m \<in> set ms")
      case False
      then have m: "m \<in> set (q_messages q)" using * by blast
      moreover have "d \<notin> set ds" using parent [of d] m *(3) new(2) by (metis IntI empty_iff imageI)
      then obtain e where e: "e \<in> set (q_deliveries q)" "d = g e" using *(1) by blast
      moreover have "unresolved (dr_status e)" using g [OF e(1)] *(3) e(2) moves_unresolved by blast
      ultimately show ?thesis using ok_present [OF ok e(1) m] msg [OF e(1)] *(3) by (simp add: owned_def)
    qed (use mrows in blast)
  next
    fix m assume "m \<in> set (q_messages q) \<union> set ms" "mr_is_dsn m \<and> local_message (mr_id m) q"
    then show "mr_sender m = []" using mrows ok_notice [OF ok] by blast
  next
    fix d assume d: "d \<in> g ` set (q_deliveries q) \<union> set ds" "dr_dsn_id d \<noteq> None"
    then have "d \<notin> set ds" using rows by (auto simp: fresh_row_def)
    then obtain e where e: "e \<in> set (q_deliveries q)" "d = g e" using d(1) by blast
    have "linked q d"
    proof (cases "dr_dsn_id e = None")
      case True
      then show ?thesis using g [OF e(1)] d(2) e(2) by auto
    next
      case False
      then show ?thesis
        using ok_linked [OF ok e(1)] msg [OF e(1)] g [OF e(1)] e(2) moves_resolved [of A e "g e"]
        by (auto simp: linked_def unresolved_def)
    qed
    then show "dr_status d = Ds_Notified"
      "\<exists>m\<in>set (q_messages q) \<union> set ms. mr_id m = dr_message_id d \<and> \<not> mr_is_dsn m \<and> mr_sender m \<noteq> []"
      by (auto simp: linked_def)
  qed
  show "follows A q q'"
    unfolding follows_def dset mset
  proof (intro conjI ballI impI)
    fix d d' assume *: "d \<in> set (q_deliveries q)" "d' \<in> g ` set (q_deliveries q) \<union> set ds" "dr_id d' = dr_id d"
    then have "d' \<notin> set ds" using fresh [of d'] by auto
    then obtain e where e: "e \<in> set (q_deliveries q)" "d' = g e" using *(2) by blast
    then have "d = e" using *(3) msg [OF e(1)] by (intro distinct_key_eq [OF ok_deliveries [OF ok] *(1) e(1)]) simp
    then show "moves A d d'" using g [OF e(1)] e(2) by simp
  next
    fix d assume "d \<in> set (q_deliveries q)" "owned q d \<and> unresolved (dr_status d)"
    then show "dr_id d \<in> dr_id ` (g ` set (q_deliveries q) \<union> set ds)"
      using msg by (intro image_eqI [of _ dr_id "g d"]) auto
  next
    fix d' assume *: "d' \<in> g ` set (q_deliveries q) \<union> set ds" "dr_id d' \<notin> dr_id ` set (q_deliveries q)"
    then have "d' \<in> set ds" using msg by auto
    then show "dr_status d' \<in> {Ds_Pending, Ds_Quarantined}" "dr_message_id d' \<notin> mr_id ` set (q_messages q)"
      using rows [of d'] new(2) by (auto simp: fresh_row_def)
  next
    fix m assume "m \<in> set (q_messages q)"
      "\<exists>d\<in>set (q_deliveries q). dr_message_id d = mr_id m \<and> owned q d \<and> unresolved (dr_status d)"
    then show "q_spool q' (mr_id m) = q_spool q (mr_id m)" "m \<in> set (q_messages q) \<union> set ms"
      using sp ok_present [OF ok] by auto
  qed (simp add: origin)
qed

lemma write_bodies_written: "write_bodies env vs written sp = (w, sp', r) \<Longrightarrow> set written \<subseteq> set w"
  by (induction vs arbitrary: written sp) (fastforce split: if_splits sum.splits)+

lemma write_bodies_spool:
  "write_bodies env vs written sp = (w, sp', r) \<Longrightarrow> sp' i = sp i \<or> sp i = None \<and> i \<in> set w"
proof (induction vs arbitrary: written sp)
  case (Cons a vs)
  show ?case
  proof (cases "sp (qv_id a) = None \<and> ae_write env (qv_id a) = Inr ()")
    case True
    then have rest: "write_bodies env vs (written @ [qv_id a]) (sp(qv_id a \<mapsto> to_vec (qv_raw a))) = (w, sp', r)"
      using Cons.prems by simp
    have "qv_id a \<in> set w" using write_bodies_written [OF rest] by simp
    with Cons.IH [OF rest] True show ?thesis by (auto split: if_splits)
  qed (use Cons.prems in \<open>auto split: sum.splits if_splits\<close>)
qed simp

lemma write_bodies_fresh:
  "write_bodies env vs written sp = (w, sp', r) \<Longrightarrow> i \<in> set w \<Longrightarrow> i \<in> set written \<or> sp i = None"
proof (induction vs arbitrary: written sp)
  case (Cons a vs)
  show ?case
  proof (cases "sp (qv_id a) = None \<and> ae_write env (qv_id a) = Inr ()")
    case True
    then have rest: "write_bodies env vs (written @ [qv_id a]) (sp(qv_id a \<mapsto> to_vec (qv_raw a))) = (w, sp', r)"
      using Cons.prems by simp
    show ?thesis using Cons.IH [OF rest Cons.prems(2)] True by (auto split: if_splits)
  qed (use Cons.prems in \<open>auto split: sum.splits if_splits\<close>)
qed simp

lemma write_bodies_bodies:
  "write_bodies env vs written sp = (w, sp', Inr u) \<Longrightarrow> v \<in> set vs
    \<Longrightarrow> sp' (qv_id v) = Some (to_vec (qv_raw v)) \<and> sp (qv_id v) = None"
proof (induction vs arbitrary: written sp)
  case (Cons a vs)
  then have free: "sp (qv_id a) = None"
    and rest: "write_bodies env vs (written @ [qv_id a]) (sp(qv_id a \<mapsto> to_vec (qv_raw a))) = (w, sp', Inr u)"
    by (auto split: if_splits sum.splits)
  show ?case
  proof (cases "v \<in> set vs")
    case True
    with Cons.IH [OF rest] free show ?thesis by (auto split: if_splits)
  next
    case False
    then have "v = a" using Cons.prems(2) by simp
    with write_bodies_spool [OF rest, of "qv_id a"] free show ?thesis by simp
  qed
qed simp

text \<open>An acceptance that fails changes no table, and no file that was there.\<close>

lemma persist_cases:
  assumes "persist env sender vs required q = (r, q')"
  obtains (refused) e sp where "r = Inl e" "q' = q\<lparr>q_spool := sp\<rparr>" "\<And>i. q_spool q i \<noteq> None \<Longrightarrow> sp i = q_spool q i"
    "(\<And>i. ae_removed env i) \<Longrightarrow> sp = q_spool q"
  | (stored) sp where "r = Inr ()" "insert_variants env sender vs (q\<lparr>q_spool := sp\<rparr>) = Inr q'"
    "\<And>i. q_spool q i \<noteq> None \<Longrightarrow> sp i = q_spool q i"
    "\<And>v. v \<in> set vs \<Longrightarrow> sp (qv_id v) = Some (to_vec (qv_raw v)) \<and> q_spool q (qv_id v) = None"
proof (cases "and_then (ae_available_again env) (\<lambda>n. ensure (required \<le> n) ''insufficient space for complete queue batch'')")
  case (Inl e)
  then show thesis using assms refused [of e "q_spool q"] by (simp add: persist_def)
next
  case space: (Inr u)
  obtain w sp wr where w: "write_bodies env vs [] (q_spool q) = (w, sp, wr)" by (metis prod_cases3)
  have kept: "sp i = q_spool q i" "remove_written env w sp i = q_spool q i" if "q_spool q i \<noteq> None" for i
    using write_bodies_spool [OF w, of i] write_bodies_fresh [OF w, of i] that by (auto simp: remove_written_def)
  have clean: "remove_written env w sp = q_spool q" if "\<And>i. ae_removed env i"
  proof
    fix i show "remove_written env w sp i = q_spool q i"
      using that write_bodies_spool [OF w, of i] write_bodies_fresh [OF w, of i] by (auto simp: remove_written_def)
  qed
  define commit where "commit = and_then wr (\<lambda>_. and_then (ae_sync env) (\<lambda>_.
      and_then (insert_variants env sender vs (q\<lparr>q_spool := sp\<rparr>)) (\<lambda>q1. and_then (ae_commit env) (\<lambda>_. Inr q1))))"
  have p: "persist env sender vs required q
      = (case commit of Inl e \<Rightarrow> (Inl e, q\<lparr>q_spool := remove_written env w sp\<rparr>) | Inr q1 \<Rightarrow> (Inr (), q1))"
    unfolding persist_def commit_def space w by simp
  show thesis
  proof (cases commit)
    case (Inl e)
    then have "r = Inl e" "q' = q\<lparr>q_spool := remove_written env w sp\<rparr>" using assms p by simp_all
    then show thesis using refused kept(2) clean by blast
  next
    case (Inr q1)
    then have "insert_variants env sender vs (q\<lparr>q_spool := sp\<rparr>) = Inr q1" "wr = Inr ()"
      by (auto simp: commit_def and_then_Inr_iff)
    with Inr show thesis using assms p stored [of sp] kept write_bodies_bodies [of env vs "[]"] w by auto
  qed
qed

lemma check_variants_recipients: "check_variants env vs b = Inr b' \<Longrightarrow> \<forall>v \<in> set vs. qv_recipients v \<noteq> []"
  by (induction vs arbitrary: b) (auto simp: and_then_Inr_iff check_variant_def)

lemma gate_enter_drop: "gate_enter e g = Inr g' \<Longrightarrow> acceptance_drop g' = g"
  by (auto simp: gate_enter_def acceptance_drop_def checked_succ_def and_then_Inr_iff split: option.splits if_splits)

lemma enqueue_cases:
  assumes "enqueue_variants_with_reserve env sender vs mf q = (r, q')"
  obtains (refused) e sp where "r = Inl e" "q' = q\<lparr>q_spool := sp\<rparr>" "\<And>i. q_spool q i \<noteq> None \<Longrightarrow> sp i = q_spool q i"
      "(\<And>i. ae_removed env i) \<Longrightarrow> sp = q_spool q"
  | (stored) sp g q1 where "r = Inr ()" "insert_variants env sender vs (q\<lparr>q_gate := g, q_spool := sp\<rparr>) = Inr q1"
      "q' = q1\<lparr>q_gate := acceptance_drop (q_gate q1)\<rparr>" "\<And>i. q_spool q i \<noteq> None \<Longrightarrow> sp i = q_spool q i"
      "\<And>v. v \<in> set vs \<Longrightarrow> sp (qv_id v) = Some (to_vec (qv_raw v)) \<and> q_spool q (qv_id v) = None" "vs \<noteq> []"
      "gate_enter (scan_activation_epoch (qv_scan (hd vs))) (q_gate q) = Inr g"
      "\<forall>v \<in> set vs. qv_recipients v \<noteq> []"
proof -
  define admitted where "admitted = (and_then (ensure (vs \<noteq> [] \<and> length vs \<le> MAX_VARIANTS) ''invalid queue batch'') (\<lambda>_.
        let e = scan_activation_epoch (qv_scan (hd vs)) in
        and_then (ensure (list_all (\<lambda>v. scan_activation_epoch (qv_scan v) = e) vs)
            ''Mixed policy epochs in queue batch'') (\<lambda>_.
        and_then (gate_enter e (q_gate q)) (\<lambda>g.
        and_then (check_variants env vs \<lparr>bs_budget = \<lparr>bb_metadata = 0, bb_headers = 0\<rparr>, bs_recipients = 0,
            bs_required = mf, bs_ids = []\<rparr>) (\<lambda>b.
        and_then (ae_available env) (\<lambda>n.
        and_then (ensure (bs_required b \<le> n) ''insufficient space for complete queue batch'') (\<lambda>_.
        and_then (ae_prepared env) (\<lambda>_. Inr (g, bs_required b)))))))))"
  have enq: "enqueue_variants_with_reserve env sender vs mf q = (case admitted of Inl e \<Rightarrow> (Inl e, q)
      | Inr (g, required) \<Rightarrow> (case persist env sender vs required (q\<lparr>q_gate := g\<rparr>) of
            (r, q1) \<Rightarrow> (r, q1\<lparr>q_gate := acceptance_drop (q_gate q1)\<rparr>)))"
    by (simp only: enqueue_variants_with_reserve_def admitted_def)
  show thesis
  proof (cases admitted)
    case (Inl e)
    then have "r = Inl e" "q' = q" using assms enq by simp_all
    then show thesis using refused [of e "q_spool q"] by simp
  next
    case (Inr gr)
    then obtain g required b where gr: "gr = (g, required)" "vs \<noteq> []"
        "gate_enter (scan_activation_epoch (qv_scan (hd vs))) (q_gate q) = Inr g"
        "check_variants env vs \<lparr>bs_budget = \<lparr>bb_metadata = 0, bb_headers = 0\<rparr>, bs_recipients = 0,
            bs_required = mf, bs_ids = []\<rparr> = Inr b"
      by (auto simp: admitted_def and_then_Inr_iff Let_def)
    obtain q1 where q1: "persist env sender vs required (q\<lparr>q_gate := g\<rparr>) = (r, q1)"
        "q' = q1\<lparr>q_gate := acceptance_drop (q_gate q1)\<rparr>"
      using assms enq Inr gr(1) by (auto split: prod.splits)
    show thesis
      using q1(1)
    proof (cases rule: persist_cases)
      case (refused e sp)
      then have "q' = q\<lparr>q_spool := sp\<rparr>" using q1(2) gate_enter_drop [OF gr(3)] by simp
      then show thesis using that(1) refused by simp
    next
      case (stored sp)
      then show thesis using that(2) q1(2) gr check_variants_recipients [OF gr(4)] by fastforce
    qed
  qed
qed

text \<open>What a successful acceptance stores: a message per variant, a delivery per recipient, every body.\<close>

lemma enqueue_stored:
  assumes "enqueue_variants_with_reserve env sender vs mf q = (Inr u, q')"
  obtains ds where "q_messages q' = q_messages q @ map (variant_row env sender) vs" "q_deliveries q' = q_deliveries q @ ds"
    "q_origin q' = q_origin q" "\<And>i. q_spool q i \<noteq> None \<Longrightarrow> q_spool q' i = q_spool q i"
    "\<And>v. v \<in> set vs \<Longrightarrow> q_spool q' (qv_id v) = Some (to_vec (qv_raw v))"
    "\<And>d. d \<in> set ds \<Longrightarrow> \<exists>v \<in> set vs. fresh_row (qv_id v) d" "fresh_ids q ds" "distinct (map qv_id vs)"
    "set (map qv_id vs) \<inter> mr_id ` set (q_messages q) = {}"
    "map (\<lambda>d. (dr_message_id d, dr_address d)) ds
      = concat (map (\<lambda>v. map (\<lambda>r. (qv_id v, rc_address (fst r))) (qv_recipients v)) vs)"
    "\<And>v. v \<in> set vs \<Longrightarrow> q_spool q (qv_id v) = None"
  using assms
proof (cases rule: enqueue_cases)
  case (stored sp g q1)
  from insert_variants_extends [OF stored(2)] obtain ds where
    ds: "extends (q\<lparr>q_gate := g, q_spool := sp\<rparr>) (map (variant_row env sender) vs) ds q1"
      "\<forall>d \<in> set ds. \<exists>v \<in> set vs. fresh_row (qv_id v) d" "fresh_ids (q\<lparr>q_gate := g, q_spool := sp\<rparr>) ds"
      "distinct (map qv_id vs)" "set (map qv_id vs) \<inter> mr_id ` set (q_messages (q\<lparr>q_gate := g, q_spool := sp\<rparr>)) = {}"
      "map (\<lambda>d. (dr_message_id d, dr_address d)) ds
        = concat (map (\<lambda>v. map (\<lambda>r. (qv_id v, rc_address (fst r))) (qv_recipients v)) vs)"
    by blast
  show thesis
    by (rule that [of ds]) (use ds stored in \<open>simp_all add: extends_def fresh_ids_def\<close>)
qed simp

interpretation accepted: queue_operation "\<lambda>q. snd (enqueue_variants_with_reserve env sender vs mf q)" "\<lambda>_. {}" "\<lambda>_. True"
  for env sender vs mf
proof -
  have both: "queue_ok q' \<and> follows {} q q'" if ok: "queue_ok q"
    and enq: "enqueue_variants_with_reserve env sender vs mf q = (r, q')" for q q' r
    using enq
  proof (cases rule: enqueue_cases)
    case (refused e sp)
    have "retouches {} q (q\<lparr>q_spool := sp\<rparr>)" by (rule spool_retouches) (use refused(3) ok_body [OF ok] in blast)
    then show ?thesis using retouches_change [OF ok] refused(2) by simp
  next
    case (stored sp g q1)
    from enq stored(1) have "enqueue_variants_with_reserve env sender vs mf q = (Inr (), q')" by simp
    then obtain ds where ds: "q_messages q' = q_messages q @ map (variant_row env sender) vs"
        "q_deliveries q' = q_deliveries q @ ds"
        "q_origin q' = q_origin q" "\<And>i. q_spool q i \<noteq> None \<Longrightarrow> q_spool q' i = q_spool q i"
        "\<And>v. v \<in> set vs \<Longrightarrow> q_spool q' (qv_id v) = Some (to_vec (qv_raw v))"
        "\<And>d. d \<in> set ds \<Longrightarrow> \<exists>v \<in> set vs. fresh_row (qv_id v) d" "fresh_ids q ds" "distinct (map qv_id vs)"
        "set (map qv_id vs) \<inter> mr_id ` set (q_messages q) = {}"
      by (rule enqueue_stored) blast
    show ?thesis
    proof (rule insertion_change [OF ok, where g = id and ms = "map (variant_row env sender) vs" and ds = ds])
      show "q_spool q' (mr_id m) = q_spool q (mr_id m)" if "m \<in> set (q_messages q)" "mr_raw_present m" for m
        using that ok_body [OF ok] ds(4) by blast
      show "\<exists>m \<in> set (map (variant_row env sender) vs). fresh_row (mr_id m) d" if "d \<in> set ds" for d
        using ds(6) [OF that] by (auto simp: variant_row_def)
      show "mr_id ` set (map (variant_row env sender) vs) \<inter> mr_id ` set (q_messages q) = {}"
        using ds(9) by (auto simp: variant_row_def)
      show "distinct (map mr_id (map (variant_row env sender) vs))" using ds(8) by (simp add: comp_def variant_row_def)
      show "mr_raw_present m \<and> q_spool q' (mr_id m) \<noteq> None \<and> (mr_is_dsn m \<longrightarrow> mr_sender m = [])"
        if "m \<in> set (map (variant_row env sender) vs)" for m
        using that ds(5) by (auto simp: variant_row_def)
    qed (use ds in simp_all)
  qed
  show "queue_operation (\<lambda>q. snd (enqueue_variants_with_reserve env sender vs mf q)) (\<lambda>_. {}) (\<lambda>_. True)"
    by unfold_locales (use both in \<open>metis prod.collapse\<close>)+
qed

lemma enqueue_dsn_cases:
  assumes "enqueue_dsn uuid now j raw hosts torn stored q = (r, q')"
  obtains (skipped) "q' = q" "\<And>d m. r = Inr () \<Longrightarrow> notice_row j q = Some (d, m) \<Longrightarrow> mr_sender m \<noteq> jb_sender j"
  | (torn) d m e where "notice_row j q = Some (d, m)" "dsn_identity uuid j q \<notin> mr_id ` set (q_messages q)"
      "q' = q\<lparr>q_spool := (q_spool q)(dsn_identity uuid j q \<mapsto> torn)\<rparr>" "r = Inl e"
  | (sent) d m n where "notice_row j q = Some (d, m)" "mr_sender m = jb_sender j" "r = Inr ()"
      "dsn_identity uuid j q \<notin> mr_id ` set (q_messages q)"
      "q_messages q' = q_messages q @ [\<lparr>mr_id = dsn_identity uuid j q, mr_created = now, mr_sender = [], mr_scan = dsn_scan,
         mr_is_dsn = True, mr_raw_present = True\<rparr>]"
      "q_deliveries q' = map (\<lambda>x. if dr_id x = jb_delivery_id j
           then x\<lparr>dr_status := Ds_Notified, dr_dsn_id := Some (dsn_identity uuid j q)\<rparr> else x) (q_deliveries q) @ [n]"
      "fresh_row (dsn_identity uuid j q) n" "fresh_ids q [n]" "dr_destination n = jb_sender j"
      "q_origin q' = q_origin q" "q_spool q' = (q_spool q)(dsn_identity uuid j q \<mapsto> raw)"
proof (cases "notice_row j q")
  case None
  then show thesis using assms skipped by (simp add: enqueue_dsn_def)
next
  case (Some dm)
  then obtain d m where dm: "notice_row j q = Some (d, m)" by (cases dm) simp
  let ?i = "dsn_identity uuid j q"
  let ?n = "\<lparr>dr_id = next_rowid (q_deliveries q), dr_message_id = ?i,
                         dr_address = jb_sender j, dr_destination = jb_sender j, dr_hosts = hosts, dr_status = Ds_Pending,
                         dr_attempts = 0, dr_next_attempt = now, dr_error = None, dr_dsn_id = None\<rparr>"
  show thesis
  proof (cases "mr_sender m = jb_sender j \<and> ?i \<notin> mr_id ` set (q_messages q)")
    case False
    then show thesis using assms skipped dm by (auto simp: enqueue_dsn_def Let_def find_message_None split: if_splits)
  next
    case True
    then have free: "find_message ?i q = None" by (simp add: find_message_None)
    show thesis
    proof (cases stored)
      case (Inl e)
      then show thesis using assms dm True free torn [OF dm] by (auto simp: enqueue_dsn_def Let_def)
    next
      case (Inr u)
      have "dr_id d = jb_delivery_id j \<and> d \<in> set (q_deliveries q)"
        using dm by (auto simp: notice_row_def find_delivery_def find_Some_iff split: option.splits if_splits)
      then have ne: "next_rowid (q_deliveries q) \<noteq> jb_delivery_id j"
        using next_rowid_fresh [of d "q_deliveries q"] by auto
      have "fresh_ids q [?n]" using next_rowid_fresh [of _ "q_deliveries q"] by (fastforce simp: fresh_ids_def)
      with Inr True free show thesis
        using assms dm ne by (intro sent [OF dm, of ?n])
          (auto simp: enqueue_dsn_def Let_def fresh_row_def update_delivery_def update_where_def)
    qed
  qed
qed

interpretation noticed: queue_operation "\<lambda>q. snd (enqueue_dsn uuid now j raw hosts torn stored q)" "\<lambda>_. {jb_delivery_id j}" "\<lambda>_. True"
  for uuid now j raw hosts torn stored
proof -
  have both: "queue_ok q' \<and> follows {jb_delivery_id j} q q'" if ok: "queue_ok q"
    and dsn: "enqueue_dsn uuid now j raw hosts torn stored q = (r, q')" for q q' r
    using dsn
  proof (cases rule: enqueue_dsn_cases)
    case skipped
    then show ?thesis using retouches_change [OF ok retouches_refl] by simp
  next
    case (torn d m e)
    have "retouches {jb_delivery_id j} q q'"
      unfolding torn(3) by (rule spool_retouches) (use torn(2) in \<open>metis fun_upd_apply imageI\<close>)
    then show ?thesis by (rule retouches_change [OF ok])
  next
    case (sent d m n)
    let ?g = "\<lambda>x. if dr_id x = jb_delivery_id j
        then x\<lparr>dr_status := Ds_Notified, dr_dsn_id := Some (dsn_identity uuid j q)\<rparr> else x"
    have row: "x = d" if "x \<in> set (q_deliveries q)" "dr_id x = jb_delivery_id j" for x
      using that notice_row_Some [OF ok sent(1)] distinct_key_eq [OF ok_deliveries [OF ok]] by metis
    have g: "moves {jb_delivery_id j} x (?g x) \<and> (dr_dsn_id (?g x) = dr_dsn_id x \<or> linked q (?g x))"
      if "x \<in> set (q_deliveries q)" for x
      using row [OF that] notice_row_Some [OF ok sent(1)] by (auto simp: moves_def linked_def)
    have "q_spool q' (mr_id x) = q_spool q (mr_id x)" if "x \<in> set (q_messages q)" for x
      using that sent(4,11) by (metis fun_upd_apply imageI)
    then show ?thesis
      by (intro insertion_change [OF ok sent(5,6,10) _ g]) (use sent in \<open>auto simp: fresh_row_def\<close>)
  qed
  show "queue_operation (\<lambda>q. snd (enqueue_dsn uuid now j raw hosts torn stored q)) (\<lambda>_. {jb_delivery_id j}) (\<lambda>_. True)"
    by unfold_locales (use both in \<open>metis prod.collapse\<close>)+
qed

text \<open>The body of the notification loop, for a delivery that is still failed.\<close>

lemma notify_cases:
  obtains (closed) err where "notify cfg env j q = (Inr (), finish (ne_redaction env) j Ds_Notified err 0 q)"
  | (suppressed) "snd (notify cfg env j q) = snd (suppress_hostile_dsn (ne_redaction env) j q)"
  | (waiting) "snd (notify cfg env j q) = q"
  | (noticed) status diagnostic hosts where "jb_sender j \<noteq> []" "\<not> jb_is_dsn j"
      "notify cfg env j q = enqueue_dsn (ne_uuid env) (ne_now env) j (notice_body cfg (ne_date env) j status diagnostic)
         hosts (ne_torn env) (ne_stored env) q"
proof (cases "jb_is_dsn j \<or> jb_sender j = []")
  case True
  then show thesis using closed by (simp add: notify_def)
next
  case False
  show thesis
  proof (cases rule: suppress_cases [of "ne_redaction env" j q])
    case kept
    note step = notify_def Let_def
    show thesis
    proof (cases "notice_diagnostic (ne_redaction env) j q")
      case (Inl e)
      then show thesis using kept False waiting by (simp add: step)
    next
      case diagnostic: (Inr sd)
      show thesis
      proof (cases "rsplit_once (CHR ''@'') (jb_sender j)")
        case None
        then show thesis using kept False waiting diagnostic by (simp add: step split: prod.splits)
      next
        case split: (Some ln)
        then show thesis
          using kept False waiting closed noticed diagnostic
          by (cases "notice_route_of cfg (ne_mx env) (jb_sender j) (snd ln)"; cases sd; cases ln) (simp_all add: step)
      qed
    qed
  next
    case (suppressed d m a r)
    then have "snd (notify cfg env j q) = snd (suppress_hostile_dsn (ne_redaction env) j q)"
      using False by (simp add: notify_def Let_def split: prod.splits)
    then show thesis by (rule that(2))
  qed
qed

interpretation notified: queue_operation "\<lambda>q. snd (notify cfg env j q)" "\<lambda>_. {jb_delivery_id j}" "has_status Ds_Failed (jb_delivery_id j)"
  for cfg env j
proof -
  have both: "queue_ok (snd (notify cfg env j q)) \<and> follows {jb_delivery_id j} q (snd (notify cfg env j q))"
    if ok: "queue_ok q" and failed: "has_status Ds_Failed (jb_delivery_id j) q" for q
  proof (cases rule: notify_cases [of cfg env j q])
    case (closed err)
    have "finishes j Ds_Notified q" using failed by (simp add: finishes_def)
    then show ?thesis using finished.keeps_ok finished.keeps_life ok closed by (simp add: finish_def)
  next
    case suppressed
    then show ?thesis using suppression.keeps_ok suppression.keeps_life ok by simp
  next
    case waiting
    then show ?thesis using retouches_change [OF ok retouches_refl] by simp
  next
    case (noticed status diagnostic hosts)
    then show ?thesis using noticed.keeps_ok noticed.keeps_life ok by simp
  qed
  then show "queue_operation (\<lambda>q. snd (notify cfg env j q)) (\<lambda>_. {jb_delivery_id j}) (has_status Ds_Failed (jb_delivery_id j))"
    by unfold_locales blast+
qed

lemma run_job_cases:
  obtains (lost) e where "run_job san max_age deliver now now_after random j q = Inl e" "q_spool q (jb_message_id j) = None" "now - jb_created j < max_age"
  | (over) st err nx ats where "run_job san max_age deliver now now_after random j q = Inr (finish_with_attempts san j st err nx ats q)" "st \<in> {Ds_Delivered, Ds_Failed}"
      "st = Ds_Delivered \<Longrightarrow> \<exists>raw. q_spool q (jb_message_id j) = Some raw \<and> fst (deliver j raw) = Delivered"
  | (again) err ats where "run_job san max_age deliver now now_after random j q
        = Inr (finish_with_attempts san j Ds_Pending err (now_after + retry_delay (jb_attempts j) random) ats q)"
      "now - jb_created j < max_age"
proof (cases "now - jb_created j \<ge> max_age")
  case True
  then show thesis using over [of Ds_Failed] by (simp add: run_job_def finish_def)
next
  case young: False
  show thesis
  proof (cases "q_spool q (jb_message_id j)")
    case None
    then show thesis using lost young by (simp add: run_job_def)
  next
    case (Some raw)
    obtain outcome ats where d: "deliver j raw = (outcome, ats)" by fastforce
    show thesis
    proof (cases outcome)
      case Delivered
      then show thesis using over [of Ds_Delivered] young Some d by (simp add: run_job_def)
    next
      case (Temporary e)
      then show thesis using again young Some d by (simp add: run_job_def)
    next
      case (Permanent e)
      then show thesis using over [of Ds_Failed] young Some d by (simp add: run_job_def)
    qed
  qed
qed

interpretation delivered: queue_operation
    "\<lambda>q. case run_job san max_age deliver now now_after random j q of Inl _ \<Rightarrow> q | Inr q' \<Rightarrow> q'"
    "\<lambda>_. {jb_delivery_id j}" "has_status Ds_Sending (jb_delivery_id j)"
  for san max_age deliver now now_after random j
proof (rule operationI)
  fix q assume ok: "queue_ok q" and sending: "has_status Ds_Sending (jb_delivery_id j) q"
  show "retouches {jb_delivery_id j} q (case run_job san max_age deliver now now_after random j q of Inl _ \<Rightarrow> q | Inr q' \<Rightarrow> q')"
  proof (cases rule: run_job_cases [of san max_age deliver now now_after random j q])
    case (lost e)
    then show ?thesis by (simp add: retouches_refl)
  next
    case (over st err nx ats)
    then have "finishes j st q" using sending by (auto simp: finishes_def)
    with over show ?thesis using finish_retouches [OF ok] by simp
  next
    case (again err ats)
    have "finishes j Ds_Pending q" using sending by (simp add: finishes_def)
    with again show ?thesis using finish_retouches [OF ok] by simp
  qed
qed

end
