(* ===== verification/NF_Mailer.thy ===== *)
theory NF_Mailer
  imports NF_Delivery
begin

text \<open>
  The system around the queue: SMTP acceptances, delivery workers, the notice loop, housekeeping,
  the console and the coordinator's commands interleave, and the process may stop at any
  moment, also between a file and the commit that refers to it. A step is one transaction of
  the store or one file operation; the loops that span several (notices, sweep) keep in the
  state what they have collected. \<open>ma_accepted\<close> records, for the theorems only, the body each
  message was accepted with.
\<close>

section \<open>The system\<close>

record mailer =
  ma_queue :: queue
  ma_jobs :: "job list"
  ma_notices :: "job list"
  ma_sweep :: "string list"
  ma_removing :: "string option"
  ma_up :: bool
  ma_accepted :: "string \<rightharpoonup> string"

definition crashed :: "mailer \<Rightarrow> mailer" where
  "crashed s = s\<lparr>ma_jobs := [], ma_notices := [], ma_sweep := [], ma_removing := None, ma_up := False\<rparr>"

definition record_bodies :: "queue_variant list \<Rightarrow> (string \<rightharpoonup> string) \<Rightarrow> (string \<rightharpoonup> string)" where
  "record_bodies vs acc = acc ++ map_of (map (\<lambda>v. (qv_id v, to_vec (qv_raw v))) vs)"

definition record_notice :: "queue \<Rightarrow> queue \<Rightarrow> (string \<rightharpoonup> string) \<Rightarrow> (string \<rightharpoonup> string)" where
  "record_notice q q' acc =
     (\<lambda>i. if i \<notin> mr_id ` set (q_messages q) \<and> i \<in> mr_id ` set (q_messages q') then q_spool q' i else acc i)"

inductive mail_step :: "mailer \<Rightarrow> mailer \<Rightarrow> bool" where
  accept: "\<lbrakk>ma_up s; enqueue_variants_with_reserve env sender vs mf (ma_queue s) = (r, q')\<rbrakk> \<Longrightarrow>
    mail_step s (s\<lparr>ma_queue := q',
      ma_accepted := (if is_ok r then record_bodies vs (ma_accepted s) else ma_accepted s)\<rparr>)"
| accept_crash: "\<lbrakk>ma_up s; \<And>i. q_spool (ma_queue s) i \<noteq> None \<Longrightarrow> sp i = q_spool (ma_queue s) i\<rbrakk> \<Longrightarrow>
    mail_step s (crashed (s\<lparr>ma_queue := (ma_queue s)\<lparr>q_spool := sp\<rparr>\<rparr>))"
| take_job: "\<lbrakk>ma_up s; claim acked now (ma_queue s) = (Some j, q')\<rbrakk> \<Longrightarrow>
    mail_step s (s\<lparr>ma_queue := q', ma_jobs := ma_jobs s @ [j]\<rparr>)"
| hold_job: "\<lbrakk>ma_up s; j \<in> set (ma_jobs s)\<rbrakk> \<Longrightarrow>
    mail_step s (s\<lparr>ma_queue := finish san j Ds_Pending ''Waiting for durable replica'' (now + 30) (ma_queue s),
      ma_jobs := remove1 j (ma_jobs s)\<rparr>)"
| end_job: "\<lbrakk>ma_up s; j \<in> set (ma_jobs s); run_job san max_age deliver now now_after random j (ma_queue s) = Inr q'\<rbrakk> \<Longrightarrow>
    mail_step s (s\<lparr>ma_queue := q', ma_jobs := remove1 j (ma_jobs s)\<rparr>)"
| collect_notices: "\<lbrakk>ma_up s; ma_notices s = []\<rbrakk> \<Longrightarrow> mail_step s (s\<lparr>ma_notices := failed (ma_queue s)\<rparr>)"
| notice: "\<lbrakk>ma_up s; ma_notices s = j # ns; notify cfg env j (ma_queue s) = (r, q')\<rbrakk> \<Longrightarrow>
    mail_step s (s\<lparr>ma_queue := q', ma_notices := ns, ma_accepted := record_notice (ma_queue s) q' (ma_accepted s)\<rparr>)"
| notice_crash: "\<lbrakk>ma_up s; i \<notin> mr_id ` set (q_messages (ma_queue s))\<rbrakk> \<Longrightarrow>
    mail_step s (crashed (s\<lparr>ma_queue := (ma_queue s)\<lparr>q_spool := (q_spool (ma_queue s))(i \<mapsto> torn)\<rparr>\<rparr>))"
| console: "\<lbrakk>ma_up s; quarantine_action access enabled now cid user msg rcp c (ma_queue s) = (r, q')\<rbrakk> \<Longrightarrow>
    mail_step s (s\<lparr>ma_queue := q'\<rparr>)"
| command: "\<lbrakk>ma_up s; execute_transaction is_uuid unacked now cs (ma_queue s) = Inr (rs, q')\<rbrakk> \<Longrightarrow>
    mail_step s (s\<lparr>ma_queue := q'\<rparr>)"
| release: "\<lbrakk>ma_up s; \<And>d. d \<in> set (q_deliveries (ma_queue s)) \<Longrightarrow> dr_id d = i \<Longrightarrow> owned (ma_queue s) d\<rbrakk> \<Longrightarrow>
    mail_step s (s\<lparr>ma_queue := release_hold now i (ma_queue s)\<rparr>)"
| retry: "\<lbrakk>ma_up s; retry_now now user i (ma_queue s) = Inr q'\<rbrakk> \<Longrightarrow> mail_step s (s\<lparr>ma_queue := q'\<rparr>)"
| expire: "ma_up s \<Longrightarrow> mail_step s (s\<lparr>ma_queue := expire_quarantine now (ma_queue s)\<rparr>)"
| collect_sweep: "\<lbrakk>ma_up s; ma_sweep s = []; ma_removing s = None\<rbrakk> \<Longrightarrow>
    mail_step s (s\<lparr>ma_sweep := sweep_candidates synced (ma_queue s)\<rparr>)"
| mark: "\<lbrakk>ma_up s; ma_sweep s = i # is; ma_removing s = None\<rbrakk> \<Longrightarrow>
    mail_step s (s\<lparr>ma_queue := tombstone i (ma_queue s), ma_sweep := is, ma_removing := Some i\<rparr>)"
| remove: "\<lbrakk>ma_up s; ma_removing s = Some i\<rbrakk> \<Longrightarrow>
    mail_step s (s\<lparr>ma_queue := remove_body i (ma_queue s), ma_removing := None\<rparr>)"
| purge_rows: "\<lbrakk>ma_up s; ma_sweep s = []; ma_removing s = None\<rbrakk> \<Longrightarrow>
    mail_step s (s\<lparr>ma_queue := purge synced now (ma_queue s)\<rparr>)"
| crash: "ma_up s \<Longrightarrow> mail_step s (crashed s)"
| restart: "\<lbrakk>\<not> ma_up s; recover (ma_queue s) = (Inr (), q')\<rbrakk> \<Longrightarrow> mail_step s (s\<lparr>ma_queue := q', ma_up := True\<rparr>)"

definition empty_queue :: "gate \<Rightarrow> string option \<Rightarrow> queue" where
  "empty_queue g node = \<lparr>q_messages = [], q_deliveries = [], q_policies = Map.empty, q_filtering = Map.empty, q_attempts = [],
     q_audit = [], q_origin = Map.empty, q_corrected = [], q_receipts = Map.empty, q_commands = [], q_node = node,
     q_spool = Map.empty, q_gate = g\<rparr>"

definition initial_mailer :: "gate \<Rightarrow> string option \<Rightarrow> mailer" where
  "initial_mailer g node = \<lparr>ma_queue = empty_queue g node, ma_jobs = [], ma_notices = [], ma_sweep = [], ma_removing = None,
     ma_up = True, ma_accepted = Map.empty\<rparr>"

definition reachable_mailer :: "mailer \<Rightarrow> bool" where
  "reachable_mailer s \<longleftrightarrow> (\<exists>g node. mail_step\<^sup>*\<^sup>* (initial_mailer g node) s)"

section \<open>The invariant of the system\<close>

definition claims :: "job \<Rightarrow> queue \<Rightarrow> bool" where
  "claims j q \<longleftrightarrow> (\<exists>d \<in> set (q_deliveries q). dr_id d = jb_delivery_id j \<and> dr_status d = Ds_Sending \<and> owned q d
     \<and> dr_message_id d = jb_message_id j \<and> dr_attempts d = jb_attempts j)"

definition tasks_ok :: "queue \<Rightarrow> job list \<Rightarrow> job list \<Rightarrow> bool" where
  "tasks_ok q js ns \<longleftrightarrow> distinct (map jb_delivery_id js) \<and> (\<forall>j \<in> set js. claims j q)
     \<and> (\<forall>d \<in> set (q_deliveries q). owned q d \<and> dr_status d = Ds_Sending \<longrightarrow> dr_id d \<in> jb_delivery_id ` set js)
     \<and> distinct (map jb_delivery_id ns) \<and> (\<forall>j \<in> set ns. has_status Ds_Failed (jb_delivery_id j) q)"

definition sweep_ok :: "queue \<Rightarrow> string list \<Rightarrow> string option \<Rightarrow> bool" where
  "sweep_ok q is r \<longleftrightarrow> (\<forall>i \<in> set is \<union> set_option r. settled i q \<and> i \<in> mr_id ` set (q_messages q))
     \<and> (\<forall>i m. r = Some i \<and> m \<in> set (q_messages q) \<and> mr_id m = i \<longrightarrow> \<not> mr_raw_present m)"

definition bodies_ok :: "queue \<Rightarrow> (string \<rightharpoonup> string) \<Rightarrow> bool" where
  "bodies_ok q acc \<longleftrightarrow> (\<forall>m \<in> set (q_messages q). mr_raw_present m \<longrightarrow> q_spool q (mr_id m) = acc (mr_id m))"

definition mail_ok :: "mailer \<Rightarrow> bool" where
  "mail_ok s \<longleftrightarrow> queue_ok (ma_queue s) \<and> bodies_ok (ma_queue s) (ma_accepted s)
     \<and> (if ma_up s then tasks_ok (ma_queue s) (ma_jobs s) (ma_notices s) \<and> sweep_ok (ma_queue s) (ma_sweep s) (ma_removing s)
        else ma_jobs s = [] \<and> ma_notices s = [] \<and> ma_sweep s = [] \<and> ma_removing s = None)"

lemma follows_owned:
  assumes "follows A q q'" "queue_ok q'" "d' \<in> set (q_deliveries q')" "dr_message_id d' = dr_message_id d"
  shows "owned q' d' = owned q d"
  using follows_origin [OF assms(1)] ok_parent [OF assms(2,3)] assms(4) by (auto simp: owned_def local_message_def)

lemma follows_status:
  assumes "follows A q q'" "queue_ok q'" "d \<in> set (q_deliveries q)" "owned q d" "dr_status d \<in> {Ds_Sending, Ds_Failed}" "dr_id d \<notin> A"
  shows "\<exists>d' \<in> set (q_deliveries q'). dr_id d' = dr_id d \<and> dr_status d' = dr_status d \<and> owned q' d'
    \<and> dr_message_id d' = dr_message_id d \<and> dr_attempts d' = dr_attempts d"
proof -
  have "unresolved (dr_status d)" using assms(5) by (auto simp: unresolved_def)
  then obtain d' where d': "d' \<in> set (q_deliveries q')" "moves A d d'" using follows_row [OF assms(1,3,4)] by blast
  then have "dr_id d' = dr_id d \<and> dr_status d' = dr_status d \<and> dr_message_id d' = dr_message_id d \<and> dr_attempts d' = dr_attempts d"
    using assms(5,6) by (auto simp: moves_def)
  with d' show ?thesis using follows_owned [OF assms(1,2) d'(1)] assms(4) by auto
qed

lemma claims_follow: "follows A q q' \<Longrightarrow> queue_ok q' \<Longrightarrow> claims j q \<Longrightarrow> jb_delivery_id j \<notin> A \<Longrightarrow> claims j q'"
  unfolding claims_def using follows_status by (metis insertI1)

lemma failed_follow:
  "follows A q q' \<Longrightarrow> queue_ok q' \<Longrightarrow> has_status Ds_Failed i q \<Longrightarrow> i \<notin> A \<Longrightarrow> has_status Ds_Failed i q'"
  unfolding has_status_def using follows_status by (metis insertI1 insertI2)

lemma sending_follow:
  assumes "follows A q q'" "queue_ok q'" "d' \<in> set (q_deliveries q')" "owned q' d'" "dr_status d' = Ds_Sending"
  shows "dr_id d' \<in> A \<or> (\<exists>d \<in> set (q_deliveries q). dr_id d = dr_id d' \<and> owned q d \<and> dr_status d = Ds_Sending)"
proof -
  obtain d where d: "d \<in> set (q_deliveries q)" "dr_id d' = dr_id d"
    using follows_fresh [OF assms(1,3)] assms(5) by fastforce
  have m: "moves A d d'" by (rule follows_moves [OF assms(1) d(1) assms(3) d(2)])
  then have "owned q d" using follows_owned [OF assms(1-3), of d] assms(4) by (simp add: moves_def)
  with m d assms(5) show ?thesis by (auto simp: moves_def)
qed

lemma tasks_follow:
  assumes tasks: "tasks_ok q js ns" and f: "follows A q q'" "queue_ok q'"
    and sub: "distinct (map jb_delivery_id js')" "set js' \<subseteq> set js" "distinct (map jb_delivery_id ns')" "set ns' \<subseteq> set ns"
    and free: "A \<inter> jb_delivery_id ` (set js' \<union> set ns') = {}"
    and gone: "jb_delivery_id ` set js - jb_delivery_id ` set js' \<subseteq> A"
    and idle: "\<And>d. d \<in> set (q_deliveries q') \<Longrightarrow> dr_id d \<in> A \<Longrightarrow> dr_status d \<noteq> Ds_Sending"
  shows "tasks_ok q' js' ns'"
  unfolding tasks_ok_def
proof (intro conjI ballI impI)
  fix d assume d: "d \<in> set (q_deliveries q')" "owned q' d \<and> dr_status d = Ds_Sending"
  then have "dr_id d \<notin> A" using idle by blast
  then obtain e where "e \<in> set (q_deliveries q)" "dr_id e = dr_id d" "owned q e" "dr_status e = Ds_Sending"
    using sending_follow [OF f d(1)] d(2) by blast
  then have "dr_id d \<in> jb_delivery_id ` set js" using tasks unfolding tasks_ok_def by metis
  with \<open>dr_id d \<notin> A\<close> gone show "dr_id d \<in> jb_delivery_id ` set js'" by blast
next
  fix j assume j: "j \<in> set js'"
  then have "jb_delivery_id j \<notin> A" "claims j q" using tasks sub(2) free by (auto simp: tasks_ok_def)
  then show "claims j q'" using claims_follow [OF f] by blast
next
  fix j assume j: "j \<in> set ns'"
  then have "jb_delivery_id j \<notin> A" "has_status Ds_Failed (jb_delivery_id j) q"
    using tasks sub(4) free by (auto simp: tasks_ok_def)
  then show "has_status Ds_Failed (jb_delivery_id j) q'" using failed_follow [OF f] by blast
qed (use sub in simp_all)

lemma settled_follow:
  assumes "follows A q q'" "settled i q" "i \<in> mr_id ` set (q_messages q)"
  shows "settled i q'"
  unfolding settled_def
proof (intro ballI impI)
  fix d' assume d': "d' \<in> set (q_deliveries q')" "dr_message_id d' = i"
  then obtain d where d: "d \<in> set (q_deliveries q)" "dr_id d' = dr_id d"
    using follows_fresh [OF assms(1), of d'] assms(3) by auto
  have "moves A d d'" by (rule follows_moves [OF assms(1) d(1) d'(1) d(2)])
  moreover from this have "dr_message_id d = i" using d'(2) by (simp add: moves_def)
  ultimately show "\<not> unresolved (dr_status d')"
    using assms(2) d(1) moves_resolved [of A d d'] by (auto simp: settled_def)
qed

text \<open>Old messages stay, no body comes back, and bodies that are still promised are unchanged.\<close>

definition keeps_messages :: "queue \<Rightarrow> queue \<Rightarrow> bool" where
  "keeps_messages q q' \<longleftrightarrow> mr_id ` set (q_messages q) \<subseteq> mr_id ` set (q_messages q')
     \<and> (\<forall>m' \<in> set (q_messages q'). mr_raw_present m' \<and> mr_id m' \<in> mr_id ` set (q_messages q) \<longrightarrow>
          (\<exists>m \<in> set (q_messages q). mr_id m = mr_id m' \<and> mr_raw_present m) \<and> q_spool q' (mr_id m') = q_spool q (mr_id m'))"

lemma retouches_keeps: "retouches A q q' \<Longrightarrow> keeps_messages q q'"
  by (auto simp: retouches_def keeps_messages_def)

lemma sweep_follow:
  assumes "queue_ok q" "sweep_ok q is r" "follows A q q'" "keeps_messages q q'"
  shows "sweep_ok q' is r"
  unfolding sweep_ok_def
proof (intro conjI ballI allI impI)
  fix i assume i: "i \<in> set is \<union> set_option r"
  then have "settled i q" "i \<in> mr_id ` set (q_messages q)" using assms(2) by (auto simp: sweep_ok_def)
  then show "settled i q'" "i \<in> mr_id ` set (q_messages q')"
    using settled_follow [OF assms(3)] assms(4) by (auto simp: keeps_messages_def)
next
  fix i m assume *: "r = Some i \<and> m \<in> set (q_messages q') \<and> mr_id m = i"
  then have old: "i \<in> mr_id ` set (q_messages q)" using assms(2) by (auto simp: sweep_ok_def)
  show "\<not> mr_raw_present m"
  proof
    assume "mr_raw_present m"
    then obtain x where "x \<in> set (q_messages q)" "mr_id x = i" "mr_raw_present x"
      using * old assms(4) by (auto simp: keeps_messages_def)
    then show False using assms(2) * by (auto simp: sweep_ok_def)
  qed
qed

lemma bodies_follow:
  assumes "bodies_ok q acc" "keeps_messages q q'" "\<And>i. i \<in> mr_id ` set (q_messages q) \<Longrightarrow> acc' i = acc i"
    and "\<And>m. m \<in> set (q_messages q') \<Longrightarrow> mr_id m \<notin> mr_id ` set (q_messages q) \<Longrightarrow> q_spool q' (mr_id m) = acc' (mr_id m)"
  shows "bodies_ok q' acc'"
  unfolding bodies_ok_def
proof (intro ballI impI)
  fix m assume m: "m \<in> set (q_messages q')" "mr_raw_present m"
  show "q_spool q' (mr_id m) = acc' (mr_id m)"
  proof (cases "mr_id m \<in> mr_id ` set (q_messages q)")
    case True
    with m assms(2) obtain x where "x \<in> set (q_messages q)" "mr_id x = mr_id m" "mr_raw_present x"
      "q_spool q' (mr_id m) = q_spool q (mr_id m)" by (auto simp: keeps_messages_def)
    with assms(1,3) True show ?thesis by (auto simp: bodies_ok_def)
  qed (use m assms(4) in blast)
qed

text \<open>A step of one operation that ends the listed tasks.\<close>

lemma operation_step:
  assumes ok: "mail_ok s" and up: "ma_up s" and f: "queue_ok q'" "follows A (ma_queue s) q'"
    and kept: "keeps_messages (ma_queue s) q'"
    and acc: "\<And>i. i \<in> mr_id ` set (q_messages (ma_queue s)) \<Longrightarrow> acc i = ma_accepted s i"
      "\<And>m. m \<in> set (q_messages q') \<Longrightarrow> mr_id m \<notin> mr_id ` set (q_messages (ma_queue s)) \<Longrightarrow> q_spool q' (mr_id m) = acc (mr_id m)"
    and sub: "distinct (map jb_delivery_id js)" "set js \<subseteq> set (ma_jobs s)" "distinct (map jb_delivery_id ns)" "set ns \<subseteq> set (ma_notices s)"
    and free: "A \<inter> jb_delivery_id ` (set js \<union> set ns) = {}"
    and gone: "jb_delivery_id ` set (ma_jobs s) - jb_delivery_id ` set js \<subseteq> A"
    and idle: "\<And>d. d \<in> set (q_deliveries q') \<Longrightarrow> dr_id d \<in> A \<Longrightarrow> dr_status d \<noteq> Ds_Sending"
  shows "mail_ok (s\<lparr>ma_queue := q', ma_jobs := js, ma_notices := ns, ma_accepted := acc\<rparr>)"
proof -
  have s: "queue_ok (ma_queue s)" "bodies_ok (ma_queue s) (ma_accepted s)"
      "tasks_ok (ma_queue s) (ma_jobs s) (ma_notices s)" "sweep_ok (ma_queue s) (ma_sweep s) (ma_removing s)"
    using ok up by (simp_all add: mail_ok_def)
  have "tasks_ok q' js ns" by (rule tasks_follow [OF s(3) f(2,1) sub free gone idle])
  moreover have "sweep_ok q' (ma_sweep s) (ma_removing s)" by (rule sweep_follow [OF s(1,4) f(2) kept])
  moreover have "bodies_ok q' acc" by (rule bodies_follow [OF s(2) kept acc])
  ultimately show ?thesis using f(1) up by (simp add: mail_ok_def)
qed

lemma tasks_distinct: "mail_ok s \<Longrightarrow> ma_up s \<Longrightarrow> distinct (map jb_delivery_id (ma_jobs s)) \<and> distinct (map jb_delivery_id (ma_notices s))"
  by (simp add: mail_ok_def tasks_ok_def)

lemma quiet_step:
  assumes "mail_ok s" "ma_up s" "retouches {} (ma_queue s) q'"
  shows "mail_ok (s\<lparr>ma_queue := q'\<rparr>)"
proof -
  have "queue_ok (ma_queue s)" using assms(1) by (simp add: mail_ok_def)
  note q' = retouches_change [OF this assms(3)]
  have "q_messages q' = q_messages (ma_queue s)" using assms(3) by (simp add: retouches_def)
  then have "mail_ok (s\<lparr>ma_queue := q', ma_jobs := ma_jobs s, ma_notices := ma_notices s, ma_accepted := ma_accepted s\<rparr>)"
    using q' tasks_distinct [OF assms(1,2)]
    by (intro operation_step [OF assms(1,2) _ _ retouches_keeps [OF assms(3)], where A = "{}"]) auto
  then show ?thesis by simp
qed

lemma job_notice_disjoint:
  assumes "mail_ok s" "ma_up s" "j \<in> set (ma_jobs s)" "n \<in> set (ma_notices s)"
  shows "jb_delivery_id j \<noteq> jb_delivery_id n"
proof
  assume "jb_delivery_id j = jb_delivery_id n"
  moreover have "claims j (ma_queue s)" "has_status Ds_Failed (jb_delivery_id n) (ma_queue s)" "queue_ok (ma_queue s)"
    using assms by (auto simp: mail_ok_def tasks_ok_def)
  ultimately show False using has_statusD by (fastforce simp: claims_def)
qed

lemma remove1_ids:
  assumes "distinct (map f xs)" "x \<in> set xs"
  shows "distinct (map f (remove1 x xs))" "set (remove1 x xs) \<subseteq> set xs" "f x \<notin> f ` set (remove1 x xs)"
    "f ` set xs - f ` set (remove1 x xs) \<subseteq> {f x}"
proof -
  have d: "distinct xs" using assms(1) by (simp add: distinct_map)
  then have s: "set (remove1 x xs) = set xs - {x}" by (rule set_remove1_eq)
  show "distinct (map f (remove1 x xs))" using assms(1) d s by (simp add: distinct_map inj_on_diff)
  show "set (remove1 x xs) \<subseteq> set xs" by (simp add: s)
  show "f x \<notin> f ` set (remove1 x xs)" using assms distinct_key_eq [OF assms(1)] s by auto
  show "f ` set xs - f ` set (remove1 x xs) \<subseteq> {f x}" using s by auto
qed

lemma keeps_appended:
  assumes "queue_ok q" "q_messages q' = q_messages q @ ms" "mr_id ` set ms \<inter> mr_id ` set (q_messages q) = {}"
    and "\<And>m. m \<in> set (q_messages q) \<Longrightarrow> mr_raw_present m \<Longrightarrow> q_spool q' (mr_id m) = q_spool q (mr_id m)"
  shows "keeps_messages q q'"
  unfolding keeps_messages_def assms(2)
proof (intro conjI ballI impI)
  fix m assume m: "m \<in> set (q_messages q @ ms)" "mr_raw_present m \<and> mr_id m \<in> mr_id ` set (q_messages q)"
  then have "m \<in> set (q_messages q)" using assms(3) by (metis IntI UnE empty_iff imageI set_append)
  with m assms(4) show "\<exists>x\<in>set (q_messages q). mr_id x = mr_id m \<and> mr_raw_present x" "q_spool q' (mr_id m) = q_spool q (mr_id m)"
    by blast+
qed auto

lemma dsn_keeps:
  assumes "queue_ok q" "enqueue_dsn uuid now j raw hosts torn stored q = (r, q')"
  shows "keeps_messages q q'"
  using assms(2)
proof (cases rule: enqueue_dsn_cases)
  case skipped
  then show ?thesis by (auto simp: keeps_messages_def)
next
  case (torn d m e)
  have "retouches {} q q'" unfolding torn(3) by (rule spool_retouches) (use torn(2) in \<open>metis fun_upd_apply imageI\<close>)
  then show ?thesis by (rule retouches_keeps)
next
  case (sent d m n)
  show ?thesis
    by (rule keeps_appended [OF assms(1) sent(5)]) (use sent(4,11) in \<open>simp_all, metis imageI\<close>)
qed

section \<open>Every step keeps the invariant\<close>

lemma crashed_ok:
  assumes "mail_ok s" "ma_up s" "retouches {} (ma_queue s) q'"
  shows "mail_ok (crashed (s\<lparr>ma_queue := q'\<rparr>))"
  using quiet_step [OF assms] by (simp add: mail_ok_def crashed_def)

lemma accept_ok:
  assumes "mail_ok s" "ma_up s" "enqueue_variants_with_reserve env sender vs mf (ma_queue s) = (r, q')"
  shows "mail_ok (s\<lparr>ma_queue := q', ma_accepted := (if is_ok r then record_bodies vs (ma_accepted s) else ma_accepted s)\<rparr>)"
proof -
  have ok: "queue_ok (ma_queue s)" using assms(1) by (simp add: mail_ok_def)
  have q': "queue_ok q'" "follows {} (ma_queue s) q'"
    using accepted.keeps_ok [OF ok] accepted.keeps_life [OF ok] assms(3) by (metis snd_conv)+
  show ?thesis
    using assms(3)
  proof (cases rule: enqueue_cases)
    case (refused e sp)
    have "retouches {} (ma_queue s) q'"
      unfolding refused(2) by (rule spool_retouches) (use refused(3) ok_body [OF ok] in blast)
    then show ?thesis using quiet_step [OF assms(1,2)] refused(1) by simp
  next
    case (stored sp g q1)
    from assms(3) stored(1) have "enqueue_variants_with_reserve env sender vs mf (ma_queue s) = (Inr (), q')" by simp
    then obtain ds where new: "q_messages q' = q_messages (ma_queue s) @ map (variant_row env sender) vs"
        "\<And>i. q_spool (ma_queue s) i \<noteq> None \<Longrightarrow> q_spool q' i = q_spool (ma_queue s) i"
        "\<And>v. v \<in> set vs \<Longrightarrow> q_spool q' (qv_id v) = Some (to_vec (qv_raw v))" "distinct (map qv_id vs)"
        "set (map qv_id vs) \<inter> mr_id ` set (q_messages (ma_queue s)) = {}"
      by (rule enqueue_stored) blast
    have acc: "record_bodies vs (ma_accepted s) i = ma_accepted s i" if "i \<notin> set (map qv_id vs)" for i
      using that by (force simp: record_bodies_def map_add_def dest!: map_of_SomeD split: option.splits)
    have old: "record_bodies vs (ma_accepted s) i = ma_accepted s i" if "i \<in> mr_id ` set (q_messages (ma_queue s))" for i
      using that new(5) acc [of i] by blast
    have acc': "record_bodies vs (ma_accepted s) (qv_id v) = Some (to_vec (qv_raw v))" if "v \<in> set vs" for v
    proof -
      have "map_of (map (\<lambda>v. (qv_id v, to_vec (qv_raw v))) vs) (qv_id v) = Some (to_vec (qv_raw v))"
        using that new(4) by (intro map_of_is_SomeI) (auto simp: comp_def)
      then show ?thesis by (simp add: record_bodies_def map_add_def)
    qed
    have "keeps_messages (ma_queue s) q'"
    proof (rule keeps_appended [OF ok new(1)])
      show "mr_id ` set (map (variant_row env sender) vs) \<inter> mr_id ` set (q_messages (ma_queue s)) = {}"
        using new(5) by (auto simp: variant_row_def)
    qed (use new(2) ok_body [OF ok] in blast)
    then have "mail_ok (s\<lparr>ma_queue := q', ma_jobs := ma_jobs s, ma_notices := ma_notices s,
        ma_accepted := record_bodies vs (ma_accepted s)\<rparr>)"
      using q' tasks_distinct [OF assms(1,2)] old acc' new
      by (intro operation_step [OF assms(1,2), where A = "{}"]) (auto simp: variant_row_def)
    then show ?thesis using stored(1) by simp
  qed
qed

lemma take_ok:
  assumes "mail_ok s" "ma_up s" "claim acked now (ma_queue s) = (Some j, q')"
  shows "mail_ok (s\<lparr>ma_queue := q', ma_jobs := ma_jobs s @ [j]\<rparr>)"
proof -
  have ok: "queue_ok (ma_queue s)" and tasks: "tasks_ok (ma_queue s) (ma_jobs s) (ma_notices s)"
    using assms(1,2) by (simp_all add: mail_ok_def)
  have A: "claimed_ids acked now (ma_queue s) = {jb_delivery_id j}" using assms(3) by (simp add: claimed_ids_def)
  have q': "queue_ok q'" "follows {jb_delivery_id j} (ma_queue s) q'"
    using claimed.keeps_ok [OF ok] claimed.keeps_life [OF ok] assms(3) A by (metis snd_conv)+
  from ok obtain d where d: "d \<in> set (q_deliveries (ma_queue s))" "due acked now (ma_queue s) d" "dr_id d = jb_delivery_id j"
      "jb_message_id j = dr_message_id d" "jb_attempts j = dr_attempts d + 1"
      "q' = update_delivery (dr_id d) (\<lambda>r. r\<lparr>dr_status := Ds_Sending, dr_attempts := dr_attempts r + 1\<rparr>) (ma_queue s)"
    using assms(3) by (cases rule: claim_cases [where acked = acked and now = now]) (auto simp: job_of_def)
  have retouched: "retouches {jb_delivery_id j} (ma_queue s) q'"
    unfolding d(6)
  proof (rule retouches_updated)
    fix e assume "e \<in> set (q_deliveries (ma_queue s))" "dr_id e = dr_id d"
    then have "e = d" using distinct_key_eq [OF ok_deliveries [OF ok]] d(1) by blast
    then show "moves {jb_delivery_id j} e (e\<lparr>dr_status := Ds_Sending, dr_attempts := dr_attempts e + 1\<rparr>)
        \<and> dr_dsn_id (e\<lparr>dr_status := Ds_Sending, dr_attempts := dr_attempts e + 1\<rparr>) = dr_dsn_id e"
      using d(2,3) by (simp add: moves_def due_def)
  qed
  have pending: "dr_status e = Ds_Pending" if "e \<in> set (q_deliveries (ma_queue s))" "dr_id e = jb_delivery_id j" for e
    using that d distinct_key_eq [OF ok_deliveries [OF ok]] by (metis due_def)
  have fresh: "jb_delivery_id j \<notin> jb_delivery_id ` (set (ma_jobs s) \<union> set (ma_notices s))"
    using tasks pending by (fastforce simp: tasks_ok_def claims_def has_status_def)
  have other: "jb_delivery_id i \<noteq> jb_delivery_id j" if "i \<in> set (ma_jobs s) \<union> set (ma_notices s)" for i
    using fresh that by (metis imageI)
  have mine: "claims j q'"
    using d by (auto simp: claims_def update_delivery_def update_where_def owned_def due_def local_message_def
        intro!: bexI [of _ "d\<lparr>dr_status := Ds_Sending, dr_attempts := dr_attempts d + 1\<rparr>"])
  have "tasks_ok q' (ma_jobs s @ [j]) (ma_notices s)"
    unfolding tasks_ok_def
  proof (intro conjI ballI impI)
    fix e assume e: "e \<in> set (q_deliveries q')" "owned q' e \<and> dr_status e = Ds_Sending"
    show "dr_id e \<in> jb_delivery_id ` set (ma_jobs s @ [j])"
    proof (cases "dr_id e = jb_delivery_id j")
      case False
      then obtain x where "x \<in> set (q_deliveries (ma_queue s))" "dr_id x = dr_id e" "owned (ma_queue s) x" "dr_status x = Ds_Sending"
        using sending_follow [OF q'(2,1) e(1)] e(2) by blast
      then show ?thesis using tasks by (metis UnI1 image_Un set_append tasks_ok_def)
    qed simp
  next
    fix i assume "i \<in> set (ma_jobs s @ [j])"
    then show "claims i q'"
      using mine claims_follow [OF q'(2,1), of i] tasks other by (auto simp: tasks_ok_def)
  next
    fix i assume "i \<in> set (ma_notices s)"
    then show "has_status Ds_Failed (jb_delivery_id i) q'"
      using failed_follow [OF q'(2,1), of "jb_delivery_id i"] tasks other by (auto simp: tasks_ok_def)
  qed (use tasks fresh in \<open>auto simp: tasks_ok_def\<close>)
  moreover have "sweep_ok q' (ma_sweep s) (ma_removing s)"
    using sweep_follow [OF ok _ q'(2) retouches_keeps [OF retouched]] assms(1,2) by (simp add: mail_ok_def)
  moreover have "bodies_ok q' (ma_accepted s)"
    using assms(1) retouched by (auto simp: bodies_ok_def retouches_def mail_ok_def)
  ultimately show ?thesis using q'(1) assms(2) by (simp add: mail_ok_def)
qed

lemma job_ended:
  assumes "mail_ok s" "ma_up s" "j \<in> set (ma_jobs s)" and touched: "retouches {jb_delivery_id j} (ma_queue s) q'"
    and idle: "\<And>d. d \<in> set (q_deliveries q') \<Longrightarrow> dr_id d = jb_delivery_id j \<Longrightarrow> dr_status d \<noteq> Ds_Sending"
  shows "mail_ok (s\<lparr>ma_queue := q', ma_jobs := remove1 j (ma_jobs s)\<rparr>)"
proof -
  have ok: "queue_ok (ma_queue s)" using assms(1) by (simp add: mail_ok_def)
  note q' = retouches_change [OF ok touched]
  note dist = tasks_distinct [OF assms(1,2)]
  note ids = remove1_ids [OF conjunct1 [OF dist] assms(3)]
  have "q_messages q' = q_messages (ma_queue s)" using touched by (simp add: retouches_def)
  moreover have "{jb_delivery_id j} \<inter> jb_delivery_id ` (set (remove1 j (ma_jobs s)) \<union> set (ma_notices s)) = {}"
    using ids(3) job_notice_disjoint [OF assms(1-3)] by (auto simp: image_iff)
  ultimately have "mail_ok (s\<lparr>ma_queue := q', ma_jobs := remove1 j (ma_jobs s), ma_notices := ma_notices s, ma_accepted := ma_accepted s\<rparr>)"
    using q' dist ids idle
    by (intro operation_step [OF assms(1,2) _ _ retouches_keeps [OF touched], where A = "{jb_delivery_id j}"]) auto
  then show ?thesis by simp
qed

lemma finish_status:
  assumes "d \<in> set (q_deliveries (finish_with_attempts san j st err nx ats q))" "dr_id d = jb_delivery_id j"
  shows "dr_status d = st"
  using assms by (auto simp: finish_with_attempts_def Let_def update_delivery_def update_where_def split: if_splits)

lemma job_claims: "mail_ok s \<Longrightarrow> ma_up s \<Longrightarrow> j \<in> set (ma_jobs s) \<Longrightarrow> claims j (ma_queue s)"
  by (simp add: mail_ok_def tasks_ok_def)

lemma claims_sending: "claims j q \<Longrightarrow> has_status Ds_Sending (jb_delivery_id j) q"
  by (auto simp: claims_def has_status_def)

lemma hold_ok:
  assumes "mail_ok s" "ma_up s" "j \<in> set (ma_jobs s)"
  shows "mail_ok (s\<lparr>ma_queue := finish san j Ds_Pending err nx (ma_queue s), ma_jobs := remove1 j (ma_jobs s)\<rparr>)"
proof (rule job_ended [OF assms])
  have "finishes j Ds_Pending (ma_queue s)" using claims_sending [OF job_claims [OF assms]] by (simp add: finishes_def)
  then show "retouches {jb_delivery_id j} (ma_queue s) (finish san j Ds_Pending err nx (ma_queue s))"
    using finish_retouches assms(1) by (simp add: finish_def mail_ok_def)
qed (auto simp: finish_def dest: finish_status)

lemma end_ok:
  assumes "mail_ok s" "ma_up s" "j \<in> set (ma_jobs s)" "run_job san max_age deliver now now_after random j (ma_queue s) = Inr q'"
  shows "mail_ok (s\<lparr>ma_queue := q', ma_jobs := remove1 j (ma_jobs s)\<rparr>)"
proof -
  have ok: "queue_ok (ma_queue s)" using assms(1) by (simp add: mail_ok_def)
  have "\<exists>st err nx ats. q' = finish_with_attempts san j st err nx ats (ma_queue s) \<and> st \<in> {Ds_Delivered, Ds_Failed, Ds_Pending}"
    by (cases rule: run_job_cases [of san max_age deliver now now_after random j "ma_queue s"]) (use assms(4) in auto)
  then obtain st err nx ats where q': "q' = finish_with_attempts san j st err nx ats (ma_queue s)"
      "st \<in> {Ds_Delivered, Ds_Failed, Ds_Pending}" by blast
  have "finishes j st (ma_queue s)" using claims_sending [OF job_claims [OF assms(1-3)]] q'(2) by (auto simp: finishes_def)
  then have "retouches {jb_delivery_id j} (ma_queue s) q'" using finish_retouches [OF ok] q'(1) by simp
  then show ?thesis using q' finish_status by (intro job_ended [OF assms(1-3)]) fastforce+
qed

lemma failed_jobs:
  assumes "queue_ok q"
  shows "distinct (map jb_delivery_id (failed q))" "j \<in> set (failed q) \<Longrightarrow> has_status Ds_Failed (jb_delivery_id j) q"
proof -
  define row where "row = (\<lambda>d. case find_message (dr_message_id d) q of None \<Rightarrow> []
     | Some m \<Rightarrow> if failed_row q d then [job_of (mr_created m) (dr_attempts d) m d] else [])"
  have one: "row d = [] \<or> (\<exists>j. row d = [j] \<and> jb_delivery_id j = dr_id d \<and> failed_row q d)" for d
    by (auto simp: row_def job_of_def split: option.splits)
  have fd: "failed q = take 100 (concat (map row (q_deliveries q)))" by (simp add: failed_def row_def)
  have sub: "distinct (map dr_id ds) \<Longrightarrow> distinct (map jb_delivery_id (concat (map row ds)))
      \<and> jb_delivery_id ` set (concat (map row ds)) \<subseteq> dr_id ` set ds" for ds
  proof (induction ds)
    case (Cons d ds)
    then show ?case using one [of d] by (elim disjE exE) auto
  qed simp
  then have "distinct (map jb_delivery_id (concat (map row (q_deliveries q))))" using ok_deliveries [OF assms] by blast
  then show "distinct (map jb_delivery_id (failed q))" by (simp add: fd take_map [symmetric] distinct_take)
  assume "j \<in> set (failed q)"
  then obtain d where d: "d \<in> set (q_deliveries q)" "j \<in> set (row d)" by (auto simp: fd dest!: in_set_takeD)
  then have "failed_row q d \<and> jb_delivery_id j = dr_id d" using one [of d] by auto
  then show "has_status Ds_Failed (jb_delivery_id j) q" using d(1) by (auto simp: has_status_def failed_row_def owned_def)
qed

lemma notice_ok:
  assumes "mail_ok s" "ma_up s" "ma_notices s = j # ns" "notify cfg env j (ma_queue s) = (r, q')"
  shows "mail_ok (s\<lparr>ma_queue := q', ma_notices := ns, ma_accepted := record_notice (ma_queue s) q' (ma_accepted s)\<rparr>)"
proof -
  have ok: "queue_ok (ma_queue s)" and failed: "has_status Ds_Failed (jb_delivery_id j) (ma_queue s)"
    and dist: "distinct (map jb_delivery_id (ma_jobs s))" "distinct (map jb_delivery_id ns)" "jb_delivery_id j \<notin> jb_delivery_id ` set ns"
    using assms(1-3) by (auto simp: mail_ok_def tasks_ok_def)
  have q': "queue_ok q'" "follows {jb_delivery_id j} (ma_queue s) q'"
    using notified.keeps_ok [OF ok failed] notified.keeps_life [OF ok failed] assms(4) by (metis snd_conv)+
  have kept: "keeps_messages (ma_queue s) q'"
    and idle: "\<And>d. d \<in> set (q_deliveries q') \<Longrightarrow> dr_id d = jb_delivery_id j \<Longrightarrow> dr_status d \<noteq> Ds_Sending"
  proof -
    obtain d0 where d0: "d0 \<in> set (q_deliveries (ma_queue s))" "dr_id d0 = jb_delivery_id j" "dr_status d0 = Ds_Failed"
      using failed by (auto simp: has_status_def)
    show "dr_status d \<noteq> Ds_Sending" if "d \<in> set (q_deliveries q')" "dr_id d = jb_delivery_id j" for d
      using follows_moves [OF q'(2) d0(1) that(1)] that(2) d0(2,3) by (auto simp: moves_def)
    show "keeps_messages (ma_queue s) q'"
    proof (cases rule: notify_cases [of cfg env j "ma_queue s"])
      case (closed err)
      then have "retouches {jb_delivery_id j} (ma_queue s) q'"
        using finish_retouches [OF ok] failed assms(4) by (simp add: finishes_def finish_def)
      then show ?thesis by (rule retouches_keeps)
    next
      case suppressed
      then show ?thesis
        using assms(4) by (cases rule: suppress_cases [of "ne_redaction env" j "ma_queue s"]) (auto simp: keeps_messages_def)
    next
      case waiting
      then show ?thesis using assms(4) by (auto simp: keeps_messages_def)
    next
      case (noticed status diagnostic hosts)
      from noticed(3) assms(4) have "enqueue_dsn (ne_uuid env) (ne_now env) j (notice_body cfg (ne_date env) j status diagnostic)
         hosts (ne_torn env) (ne_stored env) (ma_queue s) = (r, q')" by simp
      then show ?thesis by (rule dsn_keeps [OF ok])
    qed
  qed
  have "{jb_delivery_id j} \<inter> jb_delivery_id ` (set (ma_jobs s) \<union> set ns) = {}"
    using job_notice_disjoint [OF assms(1,2)] assms(3) dist(3) by force
  then have "mail_ok (s\<lparr>ma_queue := q', ma_jobs := ma_jobs s, ma_notices := ns,
      ma_accepted := record_notice (ma_queue s) q' (ma_accepted s)\<rparr>)"
    using idle dist assms(3)
    by (intro operation_step [OF assms(1,2) q' kept, where js = "ma_jobs s" and ns = ns]) (auto simp: record_notice_def)
  then show ?thesis by simp
qed

lemma sweep_candidates_ok: "queue_ok q \<Longrightarrow> sweep_ok q (sweep_candidates synced q) None"
  by (auto simp: sweep_ok_def sweep_candidates_def settled_def list_ex_iff)

lemma housekeeping_ok:
  assumes "mail_ok s" "ma_up s" and f: "queue_ok q'" "follows {} (ma_queue s) q'"
    and kept: "\<And>m. m \<in> set (q_messages q') \<Longrightarrow> mr_raw_present m \<Longrightarrow> m \<in> set (q_messages (ma_queue s)) \<and> q_spool q' (mr_id m) = q_spool (ma_queue s) (mr_id m)"
    and sweep: "sweep_ok q' is r"
  shows "mail_ok (s\<lparr>ma_queue := q', ma_sweep := is, ma_removing := r\<rparr>)"
proof -
  have s: "bodies_ok (ma_queue s) (ma_accepted s)" "tasks_ok (ma_queue s) (ma_jobs s) (ma_notices s)"
    using assms(1,2) by (simp_all add: mail_ok_def)
  have "tasks_ok q' (ma_jobs s) (ma_notices s)"
    using tasks_distinct [OF assms(1,2)] by (intro tasks_follow [OF s(2) f(2,1)]) auto
  moreover have "bodies_ok q' (ma_accepted s)" using s(1) kept by (auto simp: bodies_ok_def)
  ultimately show ?thesis using f(1) assms(2) sweep by (simp add: mail_ok_def)
qed

lemma restart_ok:
  assumes "mail_ok s" "\<not> ma_up s" "recover (ma_queue s) = (Inr (), q')"
  shows "mail_ok (s\<lparr>ma_queue := q', ma_up := True\<rparr>)"
proof -
  have ok: "queue_ok (ma_queue s)" and down: "ma_jobs s = []" "ma_notices s = []" "ma_sweep s = []" "ma_removing s = None"
    and bodies: "bodies_ok (ma_queue s) (ma_accepted s)"
    using assms(1,2) by (simp_all add: mail_ok_def)
  have q': "queue_ok q'" using recovered.keeps_ok [OF ok] assms(3) by simp
  have fields: "q_messages q' = q_messages (ma_queue s)" "q_deliveries q' = q_deliveries (release_claims (ma_queue s))"
    "q_origin q' = q_origin (ma_queue s)"
    "q_spool q' = (\<lambda>i. if i \<in> set (bodies_present (ma_queue s)) then q_spool (ma_queue s) i else None)"
    using assms(3) by (auto simp: recover_def Let_def release_claims_def bodies_present_def split: sum.splits)
  have "bodies_ok q' (ma_accepted s)" using bodies by (auto simp: bodies_ok_def fields bodies_present_def)
  moreover have "tasks_ok q' [] []"
    by (auto simp: tasks_ok_def fields release_claims_def update_where_def owned_def local_message_def split: if_splits)
  ultimately show ?thesis using q' down by (simp add: mail_ok_def sweep_ok_def)
qed

lemma mark_ok:
  assumes "mail_ok s" "ma_up s" "ma_sweep s = i # is" "ma_removing s = None"
  shows "mail_ok (s\<lparr>ma_queue := tombstone i (ma_queue s), ma_sweep := is, ma_removing := Some i\<rparr>)"
proof -
  have ok: "queue_ok (ma_queue s)" and sweep: "sweep_ok (ma_queue s) (i # is) None"
    using assms by (simp_all add: mail_ok_def)
  then have "settled i (ma_queue s)" by (simp add: sweep_ok_def)
  note q' = tombstoned.keeps_ok [OF ok this] tombstoned.keeps_life [OF ok this]
  have "map mr_id (q_messages (tombstone i (ma_queue s))) = map mr_id (q_messages (ma_queue s))"
    by (auto simp: tombstone_def update_where_def)
  then have ids: "mr_id ` set (q_messages (tombstone i (ma_queue s))) = mr_id ` set (q_messages (ma_queue s))"
    by (metis list.set_map)
  have "sweep_ok (tombstone i (ma_queue s)) is (Some i)"
    using sweep settled_follow [OF q'(2)]
    by (auto simp: sweep_ok_def ids) (auto simp: tombstone_def update_where_def split: if_splits)
  then show ?thesis
    by (intro housekeeping_ok [OF assms(1,2) q']) (auto simp: tombstone_def update_where_def split: if_splits)
qed

lemma remove_ok:
  assumes "mail_ok s" "ma_up s" "ma_removing s = Some i"
  shows "mail_ok (s\<lparr>ma_queue := remove_body i (ma_queue s), ma_removing := None\<rparr>)"
proof -
  have ok: "queue_ok (ma_queue s)" and sweep: "sweep_ok (ma_queue s) (ma_sweep s) (Some i)"
    using assms by (simp_all add: mail_ok_def)
  then have gone: "\<forall>m \<in> set (q_messages (ma_queue s)). mr_id m = i \<longrightarrow> \<not> mr_raw_present m" by (simp add: sweep_ok_def)
  note q' = removed.keeps_ok [OF ok gone] removed.keeps_life [OF ok gone]
  have "sweep_ok (remove_body i (ma_queue s)) (ma_sweep s) None"
    using sweep by (auto simp: sweep_ok_def remove_body_def settled_def)
  then have "mail_ok (s\<lparr>ma_queue := remove_body i (ma_queue s), ma_sweep := ma_sweep s, ma_removing := None\<rparr>)"
    using gone by (intro housekeeping_ok [OF assms(1,2) q']) (auto simp: remove_body_def)
  then show ?thesis by simp
qed

lemma purge_ok:
  assumes "mail_ok s" "ma_up s" "ma_sweep s = []" "ma_removing s = None"
  shows "mail_ok (s\<lparr>ma_queue := purge synced now (ma_queue s)\<rparr>)"
proof -
  have ok: "queue_ok (ma_queue s)" using assms by (simp add: mail_ok_def)
  have "mail_ok (s\<lparr>ma_queue := purge synced now (ma_queue s), ma_sweep := ma_sweep s, ma_removing := ma_removing s\<rparr>)"
    using purged.keeps_ok [OF ok] purged.keeps_life [OF ok] assms(3,4)
    by (intro housekeeping_ok [OF assms(1,2)]) (auto simp: purge_def Let_def sweep_ok_def)
  then show ?thesis by simp
qed

lemma mail_step_ok:
  assumes "mail_step s s'" "mail_ok s"
  shows "mail_ok s'"
  using assms(1)
proof cases
  case (accept env sender vs mf r q')
  then show ?thesis using accept_ok [OF assms(2)] by simp
next
  case (accept_crash sp)
  have "retouches {} (ma_queue s) ((ma_queue s)\<lparr>q_spool := sp\<rparr>)"
    by (rule spool_retouches) (use accept_crash(3) ok_body assms(2) in \<open>auto simp: mail_ok_def\<close>)
  then show ?thesis using crashed_ok [OF assms(2)] accept_crash by simp
next
  case (take_job acked now j q')
  then show ?thesis using take_ok [OF assms(2)] by simp
next
  case (hold_job j san now)
  then show ?thesis using hold_ok [OF assms(2)] by simp
next
  case (end_job j san max_age deliver now now_after random q')
  then show ?thesis using end_ok [OF assms(2)] by simp
next
  case collect_notices
  then show ?thesis using assms(2) failed_jobs by (auto simp: mail_ok_def tasks_ok_def)
next
  case (notice j ns cfg env r q')
  then show ?thesis using notice_ok [OF assms(2)] by simp
next
  case (notice_crash i torn)
  have "retouches {} (ma_queue s) ((ma_queue s)\<lparr>q_spool := (q_spool (ma_queue s))(i \<mapsto> torn)\<rparr>)"
    by (rule spool_retouches) (use notice_crash(3) in \<open>metis fun_upd_apply imageI\<close>)
  then show ?thesis using crashed_ok [OF assms(2)] notice_crash by simp
next
  case (console access enabled now cid user msg rcp c r q')
  then show ?thesis
    using console_retouches quiet_step [OF assms(2)] assms(2) by (metis mail_ok_def snd_conv)
next
  case (command is_uuid unacked now cs rs q')
  then show ?thesis
    using commanded_retouches [of "ma_queue s" is_uuid unacked now cs] quiet_step [OF assms(2)] assms(2) by (simp add: mail_ok_def)
next
  case (release i now)
  have "retouches {} (ma_queue s) (release_hold now i (ma_queue s))"
    by (rule release_retouches) (use release(3) assms(2) in \<open>auto simp: mail_ok_def\<close>)
  then show ?thesis using quiet_step [OF assms(2)] release by simp
next
  case (retry now user i q')
  then show ?thesis using retry_retouches [of "ma_queue s" now user i] quiet_step [OF assms(2)] by simp
next
  case (expire now)
  then show ?thesis using expire_retouches quiet_step [OF assms(2)] by simp
next
  case (collect_sweep synced)
  then show ?thesis using assms(2) sweep_candidates_ok by (simp add: mail_ok_def)
next
  case (mark i "is")
  then show ?thesis using mark_ok [OF assms(2)] by simp
next
  case (remove i)
  then show ?thesis using remove_ok [OF assms(2)] by simp
next
  case (purge_rows synced now)
  then show ?thesis using purge_ok [OF assms(2)] by simp
next
  case crash
  then show ?thesis using crashed_ok [OF assms(2) _ retouches_refl] by simp
next
  case (restart q')
  then show ?thesis using restart_ok [OF assms(2)] by simp
qed

lemma initial_mailer_ok: "mail_ok (initial_mailer g node)"
  by (simp add: initial_mailer_def empty_queue_def mail_ok_def queue_ok_def bodies_ok_def tasks_ok_def sweep_ok_def)

lemma reachable_ok: "reachable_mailer s \<Longrightarrow> mail_ok s"
proof -
  assume "reachable_mailer s"
  then obtain g node where "mail_step\<^sup>*\<^sup>* (initial_mailer g node) s" by (auto simp: reachable_mailer_def)
  then show ?thesis by induction (auto intro: initial_mailer_ok mail_step_ok)
qed

lemma mail_step_follows:
  assumes "mail_step s s'" "mail_ok s"
  shows "\<exists>A. follows A (ma_queue s) (ma_queue s')"
proof -
  have ok: "queue_ok (ma_queue s)" using assms(2) by (simp add: mail_ok_def)
  note touched = conjunct2 [OF retouches_change [OF ok]]
  show ?thesis
    using assms(1)
  proof cases
    case (accept env sender vs mf r q')
    then show ?thesis using accepted.keeps_life [OF ok, of env sender vs mf] by auto
  next
    case (accept_crash sp)
    have "retouches {} (ma_queue s) ((ma_queue s)\<lparr>q_spool := sp\<rparr>)"
      by (rule spool_retouches) (use accept_crash(3) ok_body [OF ok] in auto)
    then show ?thesis using touched accept_crash by (auto simp: crashed_def)
  next
    case (take_job acked now j q')
    then show ?thesis using claimed.keeps_life [OF ok, of acked now] by auto
  next
    case (hold_job j san now)
    then have "finishes j Ds_Pending (ma_queue s)" using claims_sending [OF job_claims [OF assms(2)]] by (simp add: finishes_def)
    from finished.keeps_life [OF ok this] show ?thesis using hold_job by (simp add: finish_def) blast
  next
    case (end_job j san max_age deliver now now_after random q')
    then show ?thesis
      using delivered.keeps_life [OF ok claims_sending [OF job_claims [OF assms(2)]], of j san max_age deliver now now_after random] by auto
  next
    case (notice j ns cfg env r q')
    then have "has_status Ds_Failed (jb_delivery_id j) (ma_queue s)" using assms(2) by (auto simp: mail_ok_def tasks_ok_def)
    then show ?thesis using notified.keeps_life [OF ok, of j cfg env] notice by auto
  next
    case (notice_crash i torn)
    have "retouches {} (ma_queue s) ((ma_queue s)\<lparr>q_spool := (q_spool (ma_queue s))(i \<mapsto> torn)\<rparr>)"
      by (rule spool_retouches) (use notice_crash(3) in \<open>metis fun_upd_apply imageI\<close>)
    then show ?thesis using touched notice_crash by (auto simp: crashed_def)
  next
    case (console access enabled now cid user msg rcp c r q')
    then show ?thesis using console.keeps_life [OF ok, of access enabled now cid user msg rcp c] by auto
  next
    case (command is_uuid unacked now cs rs q')
    then show ?thesis using commanded.keeps_life [OF ok, of is_uuid unacked now cs] by auto
  next
    case (release i now)
    then show ?thesis using released.keeps_life [OF ok, of i now] by auto
  next
    case (retry now user i q')
    then show ?thesis using retried.keeps_life [OF ok, of now user i] by auto
  next
    case (expire now)
    then show ?thesis using expired.keeps_life [OF ok, of now] by auto
  next
    case (mark i "is")
    then have "settled i (ma_queue s)" using assms(2) by (simp add: mail_ok_def sweep_ok_def)
    then show ?thesis using tombstoned.keeps_life [OF ok] mark by auto
  next
    case (remove i)
    then have "\<forall>m \<in> set (q_messages (ma_queue s)). mr_id m = i \<longrightarrow> \<not> mr_raw_present m"
      using assms(2) by (simp add: mail_ok_def sweep_ok_def)
    then show ?thesis using removed.keeps_life [OF ok] remove by auto
  next
    case (purge_rows synced now)
    then show ?thesis using purged.keeps_life [OF ok, of synced now] by auto
  next
    case (restart q')
    then show ?thesis using recovered.keeps_life [OF ok] by auto
  qed (use touched [OF retouches_refl] in \<open>auto simp: crashed_def\<close>)
qed

section \<open>Properties\<close>

text \<open>
  C2: accepted mail is durable. In every reachable state, also after crashes at any point between
  a file operation and a commit, each local delivery that is not yet resolved still has its
  message, and the spool holds exactly the body the message was accepted with.
\<close>

theorem accepted_mail_durable:
  assumes "reachable_mailer s" "d \<in> set (q_deliveries (ma_queue s))" "owned (ma_queue s) d" "unresolved (dr_status d)"
  shows "\<exists>m body. m \<in> set (q_messages (ma_queue s)) \<and> mr_id m = dr_message_id d \<and> mr_raw_present m
    \<and> q_spool (ma_queue s) (mr_id m) = Some body \<and> ma_accepted s (mr_id m) = Some body"
proof -
  have ok: "queue_ok (ma_queue s)" "bodies_ok (ma_queue s) (ma_accepted s)"
    using reachable_ok [OF assms(1)] by (simp_all add: mail_ok_def)
  obtain m where m: "m \<in> set (q_messages (ma_queue s))" "mr_id m = dr_message_id d"
    using ok_parent [OF ok(1) assms(2)] by force
  moreover have "mr_raw_present m" using ok_present [OF ok(1) assms(2) m(1) assms(3,4) m(2)] .
  moreover have "q_spool (ma_queue s) (mr_id m) \<noteq> None" using ok_body [OF ok(1) m(1)] \<open>mr_raw_present m\<close> by blast
  ultimately show ?thesis using ok(2) unfolding bodies_ok_def by (metis not_None_eq)
qed

definition sample_env :: acceptance_env where
  "sample_env = \<lparr>ae_now = 100, ae_metadata_bytes = (\<lambda>_. 10), ae_available = Inr 1000000, ae_prepared = Inr (),
     ae_available_again = Inr 1000000, ae_write = (\<lambda>_. Inr ()), ae_torn = (\<lambda>_. []), ae_sync = Inr (), ae_commit = Inr (),
     ae_removed = (\<lambda>_. True)\<rparr>"

definition sample_recipient :: recipient where
  "sample_recipient = \<lparr>rc_address = ''a'', rc_destination = ''b'', rc_hosts = [''h'']\<rparr>"

definition sample_variant :: queue_variant where
  "sample_variant = \<lparr>qv_id = ''m'', qv_scan = sample_scan, qv_raw = wire_of ''x'', qv_recipients = [(sample_recipient, None)]\<rparr>"

definition sample_row :: delivery_row where
  "sample_row = \<lparr>dr_id = 1, dr_message_id = ''m'', dr_address = ''a'', dr_destination = ''b'', dr_hosts = [''h''],
     dr_status = Ds_Pending, dr_attempts = 0, dr_next_attempt = 100, dr_error = None, dr_dsn_id = None\<rparr>"

definition sample_queue :: queue where
  "sample_queue = snd (enqueue_variants_with_reserve sample_env ''s'' [sample_variant] 0 (empty_queue gate_legacy None))"

lemma sample_accepted:
  "enqueue_variants_with_reserve sample_env ''s'' [sample_variant] 0 (empty_queue gate_legacy None) = (Inr (), sample_queue)"
  and sample_deliveries: "q_deliveries sample_queue = [sample_row]"
  and sample_fields: "q_spool sample_queue = [''m'' \<mapsto> ''x'']" "q_origin sample_queue = Map.empty" "q_node sample_queue = None"
    "q_messages sample_queue = [variant_row sample_env ''s'' sample_variant]" "q_attempts sample_queue = []" "q_receipts sample_queue = Map.empty" "q_policies sample_queue
      = [1 \<mapsto> \<lparr>pl_action = Deliver, pl_held_until = None, pl_released_at = None\<rparr>]"
  by (simp_all add: sample_queue_def enqueue_variants_with_reserve_def sample_variant_def sample_scan_def empty_queue_def
      sample_env_def gate_enter_def gate_legacy_def gate_new_def checked_succ_def ensure_def check_variant_def MAX_VARIANTS_def
      MAX_RECIPIENTS_PER_VARIANT_def budget_metadata_def budget_headers_def MAX_BATCH_METADATA_def MAX_BATCH_HEADERS_def
      wire_of_def wire_len_def valid_queue_id_def is_ascii_alphanumeric_def byte_def applied_action_def sample_recipient_def
      persist_def to_vec_def insert_message_def insert_recipient_def next_rowid_def initial_status_def Let_def
      acceptance_drop_def sample_row_def variant_row_def)

definition sample_mailer :: mailer where
  "sample_mailer = (initial_mailer gate_legacy None)\<lparr>ma_queue := sample_queue, ma_accepted := [''m'' \<mapsto> ''x'']\<rparr>"

lemma sample_mailer_reachable: "reachable_mailer sample_mailer"
proof -
  have "mail_step (initial_mailer gate_legacy None) ((initial_mailer gate_legacy None)\<lparr>ma_queue := sample_queue,
      ma_accepted := (if is_ok (Inr () :: unit result) then record_bodies [sample_variant] (ma_accepted (initial_mailer gate_legacy None))
        else ma_accepted (initial_mailer gate_legacy None))\<rparr>)"
    using sample_accepted by (intro mail_step.accept) (simp_all add: initial_mailer_def)
  moreover have "record_bodies [sample_variant] Map.empty = [''m'' \<mapsto> ''x'']"
    by (simp add: record_bodies_def sample_variant_def to_vec_def wire_of_def)
  ultimately have "mail_step (initial_mailer gate_legacy None) sample_mailer"
    by (simp add: sample_mailer_def initial_mailer_def)
  then show ?thesis by (auto simp: reachable_mailer_def)
qed

theorem accepted_mail_durable_witness:
  "\<exists>m body. m \<in> set (q_messages sample_queue) \<and> mr_id m = ''m'' \<and> mr_raw_present m
    \<and> q_spool sample_queue (mr_id m) = Some body \<and> ma_accepted sample_mailer (mr_id m) = Some body"
  using accepted_mail_durable [OF sample_mailer_reachable, of sample_row]
  by (simp add: sample_mailer_def sample_deliveries owned_def local_message_def sample_fields sample_row_def unresolved_def)

text \<open>
  C8: no delivery is sent twice at the same time, and no claim is lost. The running jobs are for
  different deliveries, each holds its delivery in \<open>sending\<close> with the attempt it was claimed for, and
  while the process runs every local delivery in \<open>sending\<close> belongs to a job.
\<close>

theorem one_sender_per_delivery:
  assumes "reachable_mailer s" "ma_up s"
  shows "distinct (map jb_delivery_id (ma_jobs s))
    \<and> (\<forall>j \<in> set (ma_jobs s). \<exists>d \<in> set (q_deliveries (ma_queue s)). dr_id d = jb_delivery_id j \<and> dr_status d = Ds_Sending
          \<and> dr_message_id d = jb_message_id j \<and> dr_attempts d = jb_attempts j)
    \<and> (\<forall>d \<in> set (q_deliveries (ma_queue s)). owned (ma_queue s) d \<and> dr_status d = Ds_Sending
          \<longrightarrow> (\<exists>j \<in> set (ma_jobs s). jb_delivery_id j = dr_id d))"
  using reachable_ok [OF assms(1)] assms(2) by (fastforce simp: mail_ok_def tasks_ok_def claims_def)

lemma sample_claim: "fst (claim (\<lambda>_. True) 100 sample_queue) = Some \<lparr>jb_delivery_id = 1, jb_message_id = ''m'', jb_created = 100,
     jb_sender = ''s'', jb_destination = ''b'', jb_hosts = [''h''], jb_attempts = 1, jb_is_dsn = False\<rparr>"
  by (simp add: claim_def due_rows_def due_def sample_deliveries sample_fields find_message_def local_message_def sample_row_def
      variant_row_def sample_env_def sample_variant_def job_of_def released_or_created_def)

definition busy_mailer :: mailer where
  "busy_mailer = sample_mailer\<lparr>ma_queue := snd (claim (\<lambda>_. True) 100 sample_queue),
     ma_jobs := [\<lparr>jb_delivery_id = 1, jb_message_id = ''m'', jb_created = 100, jb_sender = ''s'', jb_destination = ''b'',
       jb_hosts = [''h''], jb_attempts = 1, jb_is_dsn = False\<rparr>]\<rparr>"

lemma busy_reachable: "reachable_mailer busy_mailer" "ma_up busy_mailer"
proof -
  have "mail_step sample_mailer busy_mailer"
    using sample_claim mail_step.take_job [of sample_mailer "\<lambda>_. True" 100]
    by (cases "claim (\<lambda>_. True) 100 sample_queue") (simp add: busy_mailer_def sample_mailer_def initial_mailer_def)
  then show "reachable_mailer busy_mailer"
    using sample_mailer_reachable unfolding reachable_mailer_def by (meson rtranclp.rtrancl_into_rtrancl)
  show "ma_up busy_mailer" by (simp add: busy_mailer_def sample_mailer_def initial_mailer_def)
qed

theorem one_sender_per_delivery_witness:
  "\<exists>d \<in> set (q_deliveries (ma_queue busy_mailer)). dr_id d = 1 \<and> dr_status d = Ds_Sending \<and> dr_attempts d = 1"
  using one_sender_per_delivery [OF busy_reachable] by (auto simp: busy_mailer_def)

text \<open>
  The life cycle the operator relies on: the abstract machine of one delivery.
\<close>

inductive life_step :: "delivery_status \<Rightarrow> delivery_status \<Rightarrow> bool" where
  claim: "life_step Ds_Pending Ds_Sending"
| delivered: "life_step Ds_Sending Ds_Delivered"
| refused: "life_step Ds_Sending Ds_Failed"
| deferred: "life_step Ds_Sending Ds_Pending"
| notified: "life_step Ds_Failed Ds_Notified"
| suppressed: "life_step Ds_Failed Ds_Suppressed"
| released: "life_step Ds_Quarantined Ds_Pending"
| discarded: "life_step Ds_Quarantined Ds_Discarded"
| expired: "life_step Ds_Quarantined Ds_Expired"

inductive_simps life_step_simps: "life_step s t"

lemma moves_life: "moves A d d' \<Longrightarrow> dr_status d' = dr_status d \<or> life_step (dr_status d) (dr_status d')"
  by (auto simp: moves_def life_step_simps)

text \<open>
  C27: every interleaving of the system refines the life cycle of each delivery. A step keeps every
  unresolved local delivery and moves it, if at all, by one transition of the abstract machine;
  a resolved delivery (delivered, notified, suppressed, discarded or expired) never changes
  again.
\<close>

theorem delivery_life_cycle:
  assumes "reachable_mailer s" "mail_step s s'" "d \<in> set (q_deliveries (ma_queue s))"
  shows "(owned (ma_queue s) d \<and> unresolved (dr_status d) \<longrightarrow>
      (\<exists>d' \<in> set (q_deliveries (ma_queue s')). dr_id d' = dr_id d \<and> dr_message_id d' = dr_message_id d
        \<and> dr_address d' = dr_address d \<and> (dr_status d' = dr_status d \<or> life_step (dr_status d) (dr_status d'))))
    \<and> (\<forall>d' \<in> set (q_deliveries (ma_queue s')). dr_id d' = dr_id d \<and> \<not> unresolved (dr_status d) \<longrightarrow> dr_status d' = dr_status d)"
proof -
  obtain A where f: "follows A (ma_queue s) (ma_queue s')" using mail_step_follows [OF assms(2) reachable_ok [OF assms(1)]] by blast
  have "\<exists>d' \<in> set (q_deliveries (ma_queue s')). moves A d d'" if "owned (ma_queue s) d" "unresolved (dr_status d)"
    using follows_row [OF f assms(3)] that by blast
  moreover have "moves A d d' \<Longrightarrow> dr_id d' = dr_id d \<and> dr_message_id d' = dr_message_id d \<and> dr_address d' = dr_address d" for d'
    by (simp add: moves_def)
  ultimately show ?thesis
    using moves_life follows_moves [OF f assms(3)] moves_resolved by (intro conjI impI ballI) blast+
qed

theorem delivery_life_cycle_witness:
  "\<exists>d' \<in> set (q_deliveries (ma_queue (crashed busy_mailer))). dr_id d' = 1"
proof -
  obtain d where d: "d \<in> set (q_deliveries (ma_queue busy_mailer))" "dr_id d = 1" "dr_status d = Ds_Sending" "owned (ma_queue busy_mailer) d"
    using job_claims [OF reachable_ok [OF busy_reachable(1)] busy_reachable(2)] by (auto simp: busy_mailer_def claims_def)
  have "mail_step busy_mailer (crashed busy_mailer)" by (rule mail_step.crash) (rule busy_reachable(2))
  from conjunct1 [OF delivery_life_cycle [OF busy_reachable(1) this d(1)]] show ?thesis
    using d(2-4) by (fastforce simp: unresolved_def)
qed



text \<open>
  C10: a restart always succeeds. Whatever state a crash left, the recovery finds every body the
  tables promise; afterwards no local delivery is stuck in \<open>sending\<close>, the orphan files are gone and
  the process accepts work again.
\<close>

theorem recovery_succeeds:
  assumes "reachable_mailer s" "\<not> ma_up s"
  shows "\<exists>s'. mail_step s s' \<and> ma_up s'
    \<and> (\<forall>d \<in> set (q_deliveries (ma_queue s')). owned (ma_queue s') d \<longrightarrow> dr_status d \<noteq> Ds_Sending)
    \<and> (\<forall>i. q_spool (ma_queue s') i \<noteq> None \<longleftrightarrow> (\<exists>m \<in> set (q_messages (ma_queue s')). mr_id m = i \<and> mr_raw_present m))"
proof -
  have ok: "mail_ok s" "queue_ok (ma_queue s)" using reachable_ok [OF assms(1)] by (simp_all add: mail_ok_def)
  obtain q' where q': "recover (ma_queue s) = (Inr (), q')"
    using recover_ok [OF ok(2)] by (cases "recover (ma_queue s)") simp
  let ?s = "s\<lparr>ma_queue := q', ma_up := True\<rparr>"
  have step: "mail_step s ?s" by (rule mail_step.restart [OF assms(2) q'])
  then have ok': "mail_ok ?s" by (rule mail_step_ok [OF _ ok(1)])
  have "ma_jobs s = []" using ok(1) assms(2) by (simp add: mail_ok_def)
  with ok' have "\<forall>d \<in> set (q_deliveries q'). owned q' d \<longrightarrow> dr_status d \<noteq> Ds_Sending" by (auto simp: mail_ok_def tasks_ok_def)
  moreover have "q_spool q' i \<noteq> None \<longleftrightarrow> (\<exists>m \<in> set (q_messages q'). mr_id m = i \<and> mr_raw_present m)" for i
    using q' ok_body [OF ok(2)] by (auto simp: recover_def Let_def release_claims_def bodies_present_def split: sum.splits if_splits)
  ultimately show ?thesis using step by (intro exI [of _ ?s]) simp
qed

theorem recovery_succeeds_witness: "\<exists>s'. mail_step (crashed busy_mailer) s' \<and> ma_up s'"
proof -
  have "mail_step busy_mailer (crashed busy_mailer)" by (rule mail_step.crash) (rule busy_reachable(2))
  then have "reachable_mailer (crashed busy_mailer)"
    using busy_reachable(1) unfolding reachable_mailer_def by (meson rtranclp.rtrancl_into_rtrancl)
  from recovery_succeeds [OF this] show ?thesis by (auto simp: crashed_def)
qed

lemma retry_delay_bounds: "1800 \<le> retry_delay a r" "retry_delay a r < 14460"
proof -
  have "(1::int) \<le> 2 ^ min (a - 1) 3" by (rule one_le_power) simp
  then show "1800 \<le> retry_delay a r" unfolding retry_delay_def by linarith
  have "int (r mod 60) < 60" by simp
  then show "retry_delay a r < 14460" unfolding retry_delay_def by linarith
qed

text \<open>
  C36: a claimed job always ends. The body of its message can be read, so the worker never stops
  for a missing file, and its delivery leaves \<open>sending\<close>: delivered only when the upstream server
  took the message, failed, or pending again with the next attempt at least half an hour later.
\<close>

theorem claimed_job_ends:
  assumes "reachable_mailer s" "ma_up s" "j \<in> set (ma_jobs s)"
  shows "\<exists>q' d. run_job san max_age deliver now now_after random j (ma_queue s) = Inr q' \<and> d \<in> set (q_deliveries q')
    \<and> dr_id d = jb_delivery_id j \<and> dr_status d \<in> {Ds_Delivered, Ds_Failed, Ds_Pending}
    \<and> (dr_status d = Ds_Delivered \<longrightarrow> (\<exists>raw. q_spool (ma_queue s) (jb_message_id j) = Some raw \<and> fst (deliver j raw) = Delivered))
    \<and> (dr_status d = Ds_Pending \<longrightarrow> now < jb_created j + max_age \<and> now_after + 1800 \<le> dr_next_attempt d)"
proof -
  have ok: "mail_ok s" "queue_ok (ma_queue s)" using reachable_ok [OF assms(1)] by (simp_all add: mail_ok_def)
  obtain d where d: "d \<in> set (q_deliveries (ma_queue s))" "dr_id d = jb_delivery_id j" "dr_status d = Ds_Sending"
      "owned (ma_queue s) d" "dr_message_id d = jb_message_id j"
    using job_claims [OF ok(1) assms(2,3)] by (auto simp: claims_def)
  have "\<exists>m \<in> set (q_messages (ma_queue s)). mr_id m = jb_message_id j \<and> mr_raw_present m"
    using ok_parent [OF ok(2) d(1)] ok_present [OF ok(2) d(1) _ d(4)] d(3,5) by (fastforce simp: unresolved_def)
  then have body: "q_spool (ma_queue s) (jb_message_id j) \<noteq> None" using ok_body [OF ok(2)] by metis
  have row: "\<exists>d' \<in> set (q_deliveries (finish_with_attempts san j st err nx ats (ma_queue s))).
      dr_id d' = jb_delivery_id j \<and> dr_status d' = st \<and> dr_next_attempt d' = nx" for st err nx ats
    using d(1,2)
    by (intro bexI [of _ "d\<lparr>dr_status := st, dr_error := Some (fst (san err)), dr_next_attempt := nx\<rparr>"])
       (auto simp: finish_with_attempts_def Let_def update_delivery_def update_where_def intro!: image_eqI [of _ _ d])
  show ?thesis
  proof (cases rule: run_job_cases [of san max_age deliver now now_after random j "ma_queue s"])
    case (lost e)
    then show ?thesis using body by simp
  next
    case (over st err nx ats)
    with row [of st err nx ats] show ?thesis by auto
  next
    case (again err ats)
    with row [of Ds_Pending err "now_after + retry_delay (jb_attempts j) random" ats] retry_delay_bounds [of "jb_attempts j" random] show ?thesis by force
  qed
qed

theorem claimed_job_ends_witness:
  "\<exists>q'. run_job (\<lambda>t. (t, False)) 86400 (\<lambda>_ _. (Delivered, [])) 100 101 0 (hd (ma_jobs busy_mailer)) (ma_queue busy_mailer) = Inr q'"
  using claimed_job_ends [OF busy_reachable, of "hd (ma_jobs busy_mailer)" "\<lambda>t. (t, False)" 86400 "\<lambda>_ _. (Delivered, [])" 100 101 0]
  by (auto simp: busy_mailer_def)

text \<open>
  C35: failure notices cannot multiply. A delivery carries at most the link to one notice, and then
  it is settled as notified; its message is neither a notice nor from the null sender. A
  notice has the null sender, and repeating the creation of a notice for the same failure,
  with whatever text and outcome of the file system, changes nothing.
\<close>

theorem notice_sent_once:
  assumes "reachable_mailer s"
  shows "(\<forall>d \<in> set (q_deliveries (ma_queue s)). dr_dsn_id d \<noteq> None \<longrightarrow> dr_status d = Ds_Notified
      \<and> (\<exists>m \<in> set (q_messages (ma_queue s)). mr_id m = dr_message_id d \<and> \<not> mr_is_dsn m \<and> mr_sender m \<noteq> []))
    \<and> (\<forall>m \<in> set (q_messages (ma_queue s)). mr_is_dsn m \<and> local_message (mr_id m) (ma_queue s) \<longrightarrow> mr_sender m = [])
    \<and> (\<forall>q1. enqueue_dsn uuid now j raw hosts torn stored (ma_queue s) = (Inr (), q1)
        \<longrightarrow> enqueue_dsn uuid' now' j raw' hosts' torn' stored' q1 = (Inr (), q1))"
proof (intro conjI allI impI)
  have ok: "queue_ok (ma_queue s)" using reachable_ok [OF assms] by (simp add: mail_ok_def)
  show "\<forall>d \<in> set (q_deliveries (ma_queue s)). dr_dsn_id d \<noteq> None \<longrightarrow> dr_status d = Ds_Notified
      \<and> (\<exists>m \<in> set (q_messages (ma_queue s)). mr_id m = dr_message_id d \<and> \<not> mr_is_dsn m \<and> mr_sender m \<noteq> [])"
    using ok_linked [OF ok] by blast
  show "\<forall>m \<in> set (q_messages (ma_queue s)). mr_is_dsn m \<and> local_message (mr_id m) (ma_queue s) \<longrightarrow> mr_sender m = []"
    using ok_notice [OF ok] by blast
  fix q1 assume first: "enqueue_dsn uuid now j raw hosts torn stored (ma_queue s) = (Inr (), q1)"
  have ok1: "queue_ok q1" using noticed.keeps_ok [OF ok, of uuid now j raw hosts torn stored] first by simp
  show "enqueue_dsn uuid' now' j raw' hosts' torn' stored' q1 = (Inr (), q1)"
  proof (cases "notice_row j q1")
    case None
    then show ?thesis by (simp add: enqueue_dsn_def)
  next
    case (Some dm)
    obtain d m where dm: "notice_row j q1 = Some (d, m)" using Some by (cases dm) simp
    have "mr_sender m \<noteq> jb_sender j"
    proof
      assume same: "mr_sender m = jb_sender j"
      from first show False
      proof (cases rule: enqueue_dsn_cases)
        case skipped
        then show False using dm same by simp
      next
        case (torn d' m' e)
        then show False by simp
      next
        case (sent d' m' n)
        have "dr_status d = Ds_Notified"
          using notice_row_Some [OF ok1 dm] notice_row_Some [OF ok sent(1)] sent(6-8)
          by (auto simp: fresh_ids_def fresh_row_def split: if_splits)
        then show False using notice_row_Some [OF ok1 dm] by simp
      qed
    qed
    then show ?thesis using dm by (simp add: enqueue_dsn_def)
  qed
qed

definition expired_job :: job where
  "expired_job = \<lparr>jb_delivery_id = 1, jb_message_id = ''m'', jb_created = 100, jb_sender = ''s'', jb_destination = ''b'',
     jb_hosts = [''h''], jb_attempts = 1, jb_is_dsn = False\<rparr>"

definition expired_queue :: queue where
  "expired_queue = finish (\<lambda>t. (t, False)) expired_job Ds_Failed ''5.4.7 Delivery time expired'' 0 (ma_queue busy_mailer)"

definition expired_mailer :: mailer where
  "expired_mailer = busy_mailer\<lparr>ma_queue := expired_queue, ma_jobs := []\<rparr>"

lemma expired_reachable: "reachable_mailer expired_mailer"
proof -
  have run: "run_job (\<lambda>t. (t, False)) 0 (\<lambda>_ _. (Delivered, [])) 100 100 0 expired_job (ma_queue busy_mailer) = Inr expired_queue"
    by (simp add: run_job_def expired_job_def expired_queue_def)
  have "ma_jobs busy_mailer = [expired_job]" by (simp add: busy_mailer_def expired_job_def)
  then have "mail_step busy_mailer expired_mailer"
    using mail_step.end_job [OF busy_reachable(2) _ run] by (simp add: expired_mailer_def)
  then show ?thesis using busy_reachable(1) unfolding reachable_mailer_def by (meson rtranclp.rtrancl_into_rtrancl)
qed

definition noticed_queue :: queue where
  "noticed_queue = snd (enqueue_dsn id 200 expired_job ''notice'' [''h''] [] (Inr ()) expired_queue)"

lemma expired_deliveries:
  "q_deliveries expired_queue = [sample_row\<lparr>dr_status := Ds_Failed, dr_attempts := 1, dr_next_attempt := 0,
     dr_error := Some ''5.4.7 Delivery time expired''\<rparr>]"
  "q_messages expired_queue = [variant_row sample_env ''s'' sample_variant]" "q_origin expired_queue = Map.empty"
  by (simp_all add: expired_queue_def finish_def finish_with_attempts_def Let_def update_delivery_def update_where_def
      expired_job_def busy_mailer_def claim_def due_rows_def due_def sample_deliveries sample_fields find_message_def
      local_message_def sample_row_def variant_row_def sample_variant_def)

lemma expired_node: "q_node expired_queue = None"
  by (simp add: expired_queue_def finish_def finish_with_attempts_def Let_def update_delivery_def busy_mailer_def claim_def
      sample_fields split: list.split option.split)

lemma expired_noticed:
  "enqueue_dsn id 200 expired_job ''notice'' [''h''] [] (Inr ()) expired_queue = (Inr (), noticed_queue)"
  and noticed_messages: "length (q_messages noticed_queue) = 2"
  by (simp_all add: noticed_queue_def enqueue_dsn_def notice_row_def find_delivery_def find_message_def failed_row_def
      local_message_def expired_deliveries expired_node expired_job_def sample_row_def variant_row_def sample_variant_def
      dsn_identity_def Let_def update_delivery_def)

theorem notice_sent_once_witness:
  "length (q_messages noticed_queue) = 2
    \<and> enqueue_dsn id 300 expired_job ''again'' [] [] (Inr ()) noticed_queue = (Inr (), noticed_queue)"
  using notice_sent_once [OF expired_reachable, of id 200 expired_job "''notice''" "[''h'']" "[]" "Inr ()" id 300 "''again''" "[]" "[]" "Inr ()"]
    expired_noticed noticed_messages by (simp add: expired_mailer_def)

text \<open>
  The life of one delivery between attempts: it was deferred \<open>n\<close> times and made due early \<open>r\<close> times, its
  last attempt ended at \<open>ended\<close> and it is due at \<open>due_at\<close>. A deferral is a run that leaves it pending, never before it
  is due. A job that waits for its replica is put off without an attempt; an operator's retry (\<open>retry_now\<close>, or
  the command Retry of a controller) makes the delivery due at once. The release from quarantine or, without one, the
  creation of the message is the start.
\<close>

inductive deferrals :: "int \<Rightarrow> int \<Rightarrow> nat \<Rightarrow> nat \<Rightarrow> int \<Rightarrow> int \<Rightarrow> bool" for max_age created where
  none: "created \<le> due_at \<Longrightarrow> deferrals max_age created 0 0 created due_at"
| deferral: "\<lbrakk>deferrals max_age created n r ended due_at; due_at \<le> now; now \<le> now_after; jb_created j = created;
    run_job san max_age deliver now now_after random j q = Inr q'; d \<in> set (q_deliveries q'); dr_id d = jb_delivery_id j;
    dr_status d = Ds_Pending\<rbrakk> \<Longrightarrow> deferrals max_age created (Suc n) r now_after (dr_next_attempt d)"
| put_off: "\<lbrakk>deferrals max_age created n r ended due_at; due_at \<le> later\<rbrakk> \<Longrightarrow> deferrals max_age created n r ended later"
| retried: "\<lbrakk>deferrals max_age created n r ended due_at; ended \<le> now\<rbrakk> \<Longrightarrow> deferrals max_age created n (Suc r) ended now"

lemma deferral_progress:
  assumes "run_job san max_age deliver now now_after random j q = Inr q'" "d \<in> set (q_deliveries q')"
    "dr_id d = jb_delivery_id j" "dr_status d = Ds_Pending"
  shows "now < jb_created j + max_age \<and> now_after + 1800 \<le> dr_next_attempt d"
proof (cases rule: run_job_cases [of san max_age deliver now now_after random j q])
  case (lost e)
  then show ?thesis using assms(1) by simp
next
  case (over st err nx ats)
  then have "q' = finish_with_attempts san j st err nx ats q" using assms(1) by simp
  then show ?thesis using finish_status [of d san j st err nx ats q] assms(2-4) over(2) by auto
next
  case (again err ats)
  then have "q' = finish_with_attempts san j Ds_Pending err (now_after + retry_delay (jb_attempts j) random) ats q"
    using assms(1) by simp
  then have "dr_next_attempt d = now_after + retry_delay (jb_attempts j) random"
    using assms(2,3) by (auto simp: finish_with_attempts_def Let_def update_delivery_def update_where_def split: if_splits)
  then show ?thesis using retry_delay_bounds(1) [of "jb_attempts j" random] again(2) by linarith
qed

lemma deferrals_spaced:
  assumes "deferrals max_age created n r ended due_at"
  shows "created + 1800 * (int n - int r) \<le> due_at \<and> created + 1800 * (int n - int r - 1) \<le> ended
    \<and> (n > 0 \<longrightarrow> 1800 * (int n - int r - 1) < max_age)"
  using assms
proof induction
  case (deferral n r ended due_at now now_after j san deliver random q q' d)
  from deferral_progress [OF deferral(5-8)] deferral(2-4) deferral.IH show ?case by auto
qed auto

lemma expired_run:
  assumes "jb_created j + max_age \<le> now"
  shows "\<exists>q'. run_job san max_age deliver now now_after random j q = Inr q'
    \<and> (\<forall>d \<in> set (q_deliveries q'). dr_id d = jb_delivery_id j \<longrightarrow> dr_status d = Ds_Failed)"
  using assms finish_status by (fastforce simp: run_job_def finish_def)

lemma half_hours: "1800 * (x - 1) < a \<Longrightarrow> x \<le> (a + 1799) div 1800" "a \<le> 1800 * ((a + 1799) div 1800)" for x a :: int
proof -
  assume "1800 * (x - 1) < a"
  then have "1800 * x \<le> a + 1799" by (simp add: algebra_simps)
  then show "x \<le> (a + 1799) div 1800" using zdiv_mono1 [of "1800 * x" "a + 1799" 1800] by simp
next
  show "a \<le> 1800 * ((a + 1799) div 1800)" using mult_div_mod_eq [of 1800 "a + 1799"] pos_mod_bound [of 1800 "a + 1799"] by linarith
qed

text \<open>
  C37: retries end. Whatever the upstream servers answer, a delivery is deferred at most once per begun half
  hour of the queue's maximum age, and once more for every time an operator makes it due early. When it was
  deferred that often, its next attempt ends it: the run succeeds and the delivery is failed.
\<close>

theorem deferrals_bounded:
  assumes "deferrals max_age created n r ended due_at"
  shows "int n \<le> max 0 ((max_age + 1799) div 1800) + int r
    \<and> (int n = max 0 ((max_age + 1799) div 1800) + int r \<longrightarrow>
       (\<forall>san deliver now now_after random j q. due_at \<le> now \<and> jb_created j = created \<longrightarrow>
          (\<exists>q'. run_job san max_age deliver now now_after random j q = Inr q'
            \<and> (\<forall>d \<in> set (q_deliveries q'). dr_id d = jb_delivery_id j \<longrightarrow> dr_status d = Ds_Failed))))"
proof (intro conjI impI allI)
  note spaced = deferrals_spaced [OF assms]
  show "int n \<le> max 0 ((max_age + 1799) div 1800) + int r"
    using spaced half_hours(1) [of "int n - int r" max_age] by (cases "n = 0") (auto simp: algebra_simps)
  fix san deliver now now_after random and j :: job and q
  assume n: "int n = max 0 ((max_age + 1799) div 1800) + int r" and due: "due_at \<le> now \<and> jb_created j = created"
  have "max_age \<le> 1800 * (int n - int r)" using half_hours(2) [of max_age] n by (auto simp: max_def algebra_simps split: if_splits)
  then show "\<exists>q'. run_job san max_age deliver now now_after random j q = Inr q'
      \<and> (\<forall>d \<in> set (q_deliveries q'). dr_id d = jb_delivery_id j \<longrightarrow> dr_status d = Ds_Failed)"
    using due spaced by (intro expired_run) linarith
qed

definition deferred_queue :: queue where
  "deferred_queue = finish_with_attempts (\<lambda>t. (t, False)) expired_job Ds_Pending ''451'' 1901 [] (ma_queue busy_mailer)"

lemma busy_rows:
  "q_deliveries (ma_queue busy_mailer) = [sample_row\<lparr>dr_status := Ds_Sending, dr_attempts := 1\<rparr>]"
  "\<exists>raw. q_spool (ma_queue busy_mailer) ''m'' = Some raw"
  by (simp_all add: busy_mailer_def claim_def due_rows_def due_def sample_deliveries sample_fields find_message_def
      local_message_def sample_row_def variant_row_def sample_variant_def update_delivery_def update_where_def)

lemma deferred_once: "deferrals 1000 100 1 0 101 1901"
proof -
  let ?later = "\<lambda>_ _. (Temporary ''451'', [])"
  have run: "run_job (\<lambda>t. (t, False)) 1000 ?later 100 101 0 expired_job (ma_queue busy_mailer) = Inr deferred_queue"
    using busy_rows(2) by (auto simp: run_job_def expired_job_def deferred_queue_def retry_delay_def)
  have row: "sample_row\<lparr>dr_status := Ds_Pending, dr_attempts := 1, dr_next_attempt := 1901, dr_error := Some ''451''\<rparr>
      \<in> set (q_deliveries deferred_queue)"
    by (simp add: deferred_queue_def finish_with_attempts_def Let_def update_delivery_def update_where_def busy_rows(1) expired_job_def
        sample_row_def)
  have "jb_created expired_job = 100" "dr_id sample_row = jb_delivery_id expired_job" by (simp_all add: expired_job_def sample_row_def)
  then show ?thesis
    using deferrals.deferral [OF deferrals.none [of 100 100 1000] _ _ _ run row] by simp
qed

theorem deferrals_bounded_witness:
  "(1 :: int) = max 0 ((1000 + 1799) div 1800) + 0
   \<and> (\<exists>q' d. run_job (\<lambda>t. (t, False)) 1000 (\<lambda>_ _. (Delivered, [])) 1901 1902 0 expired_job (ma_queue busy_mailer) = Inr q'
        \<and> d \<in> set (q_deliveries q') \<and> dr_id d = 1 \<and> dr_status d = Ds_Failed)"
proof -
  have j: "jb_created expired_job = 100" "jb_delivery_id expired_job = 1" by (simp_all add: expired_job_def)
  have "int 1 = max 0 ((1000 + 1799) div 1800) + int 0" by simp
  with deferrals_bounded [OF deferred_once] j
  obtain q' where q': "run_job (\<lambda>t. (t, False)) 1000 (\<lambda>_ _. (Delivered, [])) 1901 1902 0 expired_job (ma_queue busy_mailer) = Inr q'"
      "\<forall>d \<in> set (q_deliveries q'). dr_id d = jb_delivery_id expired_job \<longrightarrow> dr_status d = Ds_Failed" by blast
  then have "q' = expired_queue" by (simp add: run_job_def j expired_queue_def)
  then obtain d where "d \<in> set (q_deliveries q')" "dr_id d = 1" by (simp add: expired_deliveries sample_row_def)
  with q' j(2) show ?thesis by auto
qed

lemma receipts_grow: "execute_command is_uuid now c q = Inr (r, q') \<Longrightarrow> q_receipts q k = Some x \<Longrightarrow> q_receipts q' k = Some x"
  by (auto simp: execute_command_def and_then_Inr_iff command_effect_def apply_operation_def set_released_def
      update_delivery_def audit_def Let_def split: option.splits if_splits)

lemma receipt_stored: "execute_command is_uuid now c q = Inr (r, q') \<Longrightarrow> \<exists>t. q_receipts q' (cm_id c) = Some (r, t)"
  by (auto simp: execute_command_def and_then_Inr_iff split: option.splits)

lemma receipts_grow_all:
  "execute_commands is_uuid now cs q = Inr (rs, q') \<Longrightarrow> q_receipts q k = Some x \<Longrightarrow> q_receipts q' k = Some x"
  by (induction cs arbitrary: q rs) (auto simp: and_then_Inr_iff dest: receipts_grow)

lemma execute_replay:
  assumes "execute_commands is_uuid now cs q = Inr (rs, q1)" and "\<And>k x. q_receipts q1 k = Some x \<Longrightarrow> q_receipts q2 k = Some x"
  shows "execute_commands is_uuid now' cs q2 = Inr (rs, q2)"
  using assms
proof (induction cs arbitrary: q rs)
  case (Cons c cs)
  then obtain r qa rs1 where step: "execute_command is_uuid now c q = Inr (r, qa)" "execute_commands is_uuid now cs qa = Inr (rs1, q1)"
    "rs = (cm_id c, r) # rs1" by (auto simp: and_then_Inr_iff)
  obtain t where "q_receipts qa (cm_id c) = Some (r, t)" using receipt_stored [OF step(1)] by blast
  then have "q_receipts q2 (cm_id c) = Some (r, t)" using receipts_grow_all [OF step(2)] Cons.prems(2) by blast
  then have "execute_command is_uuid now' c q2 = Inr (r, q2)"
    using step(1) by (auto simp: execute_command_def and_then_Inr_iff ensure_def split: if_splits)
  with Cons.IH [OF step(2) Cons.prems(2)] step(3) show ?case by simp
qed simp

text \<open>
  the coordinator's commands take effect once. Executing a batch again on the result of its
  first execution, at any later time, reports the same results and changes nothing, so a
  command whose answer was lost can be sent again.
\<close>

theorem commands_take_effect_once:
  assumes "execute_commands is_uuid now cs q = Inr (rs, q1)"
  shows "execute_commands is_uuid now' cs q1 = Inr (rs, q1)"
  using assms by (rule execute_replay)

definition sample_command :: command where
  "sample_command = \<lparr>cm_id = ''c'', cm_message_id = ''m'', cm_recipient = ''a.b@ex-1.org'', cm_command = Release, cm_username = ''u'', cm_expires = 0\<rparr>"

lemma sample_command_runs:
  "execute_commands (\<lambda>_. True) 100 [sample_command] sample_queue
    = Inr ([(''c'', ''expired'')], sample_queue\<lparr>q_receipts := [''c'' \<mapsto> (''expired'', 100)]\<rparr>)"
proof -
  have address: "valid_address ''a.b@ex-1.org''" by code_simp
  then show ?thesis
    by (simp add: execute_command_def sample_command_def ensure_def sample_fields)
qed

theorem commands_take_effect_once_witness:
  "execute_commands (\<lambda>_. True) 500 [sample_command] (sample_queue\<lparr>q_receipts := [''c'' \<mapsto> (''expired'', 100)]\<rparr>)
    = Inr ([(''c'', ''expired'')], sample_queue\<lparr>q_receipts := [''c'' \<mapsto> (''expired'', 100)]\<rparr>)"
  by (rule commands_take_effect_once [OF sample_command_runs])

end
