(* ===== verification/NF_Smtp.thy ===== *)
theory NF_Smtp
  imports NF_Wire NF_Mailer NF_Admission
begin

text \<open>
  The SMTP session (\<open>src/smtp.rs\<close>): the parser of a path, every command of a connection and the
  loop over at most a thousand of them.

  What a command learns from outside (the active configuration, reputation and admission answers,
  capacity, files, the analysis of a message) is a record of answers, one for each command. The
  replies, a refused write included, are a list of the session.
\<close>

section \<open>Paths\<close>

definition ascii_space :: "char \<Rightarrow> bool" where
  "ascii_space c \<longleftrightarrow> char_is_whitespace (byte c)"

definition ascii_trim_start :: "string \<Rightarrow> string" where
  "ascii_trim_start s = dropWhile ascii_space s"

definition ascii_trim :: "string \<Rightarrow> string" where
  "ascii_trim s = rev (dropWhile ascii_space (rev (dropWhile ascii_space s)))"

text \<open>The closing bracket: \<open>quoted\<close> and \<open>escaped\<close> are the closure's variables.\<close>

fun path_end :: "bool \<Rightarrow> bool \<Rightarrow> string \<Rightarrow> nat option" where
  "path_end quoted escaped [] = None"
| "path_end quoted escaped (c # s) =
     (if escaped then map_option Suc (path_end quoted False s)
      else if quoted \<and> c = CHR 0x5C then map_option Suc (path_end quoted True s)
      else if c = CHR 0x22 then map_option Suc (path_end (\<not> quoted) False s)
      else if c = CHR ''>'' \<and> \<not> quoted then Some 0
      else map_option Suc (path_end quoted False s))"

definition parse_path :: "string \<Rightarrow> string \<Rightarrow> bool \<Rightarrow> (string \<times> string) result" where
  "parse_path arg pre allow_empty =
     and_then (ensure (length pre \<le> length arg \<and> eq_ignore_ascii_case (take (length pre) arg) pre)
       ''invalid path command'') (\<lambda>_.
     let path = ascii_trim_start (drop (length pre) arg) in
     and_then (ensure (starts_with ''<'' path) ''expected angle brackets'') (\<lambda>_.
     case path_end False False (tl path) of
       None \<Rightarrow> Inl ''unterminated path''
     | Some n \<Rightarrow>
        (let address = take n (tl path); rest = drop (n + 2) path in
         and_then (ensure ((allow_empty \<and> address = []) \<or> valid_address address
             \<or> (eq_ignore_ascii_case pre ''TO:'' \<and> eq_ignore_ascii_case address ''postmaster''))
           ''invalid or unsupported address'') (\<lambda>_.
         and_then (ensure (rest = [] \<or> starts_with '' '' rest) ''invalid path parameters'') (\<lambda>_.
         Inr (address, ascii_trim rest))))))"

section \<open>State of a session\<close>

record smtp_config =
  sc_hostname :: string
  sc_max_message_bytes :: nat
  sc_max_recipients :: nat
  sc_minimum_free_bytes :: nat
  sc_postmaster :: string
  sc_domains :: "domain list"
  sc_admission :: "admission_settings option"
  sc_traffic :: bool

text \<open>Of a reputation report: the states of its checks, how many providers list the peer and the action in force.\<close>

datatype rbl_action = Rbl_Observe | Rbl_Defer | Rbl_Reject

record rbl_report =
  rb_checks :: "rbl_status list"
  rb_listed_providers :: nat
  rb_effective_action :: rbl_action

definition rbl_smtp_reply :: "rbl_report \<Rightarrow> string option" where
  "rbl_smtp_reply r =
     (case rb_effective_action r of
        Rbl_Observe \<Rightarrow> None
      | Rbl_Defer \<Rightarrow> Some (''451 4.7.1 Sender reputation policy; retry later'' @ CRLF)
      | Rbl_Reject \<Rightarrow> Some (''550 5.7.1 Sender reputation policy'' @ CRLF))"

definition rbl_attach :: "rbl_report \<Rightarrow> scan \<Rightarrow> scan" where
  "rbl_attach r s = (if rb_checks r \<noteq> [] then s\<lparr>scan_early_rbl := Some (rb_checks r)\<rparr> else s)"

datatype verification_answer = Va_Accepted | Va_Unknown | Va_Unavailable

definition verification_reply :: "verification_answer \<Rightarrow> string option" where
  "verification_reply v =
     (case v of
        Va_Accepted \<Rightarrow> None
      | Va_Unknown \<Rightarrow> Some (''550 5.1.1 Recipient does not exist at destination'' @ CRLF)
      | Va_Unavailable \<Rightarrow> Some (''451 4.4.3 Destination recipient verification unavailable; retry later'' @ CRLF))"

text \<open>
  An engine turns a received message into the variants to store, each with the traffic report of
  its scan: raw bytes, greeting, sender, identifier, recipients, early reputation and epoch.
\<close>

type_synonym processed = "(queue_variant \<times> traffic_report option) list result"
type_synonym engine =
  "string \<Rightarrow> string \<Rightarrow> string \<Rightarrow> string \<Rightarrow> recipient list \<Rightarrow> rbl_report \<Rightarrow> epoch option \<Rightarrow> processed"

record snapshot =
  sn_config :: smtp_config
  sn_epoch :: "epoch option"
  sn_engine :: engine

record session =
  se_config :: smtp_config
  se_engine :: "engine option"
  se_epoch :: "epoch option"
  se_io :: conn
  se_helo :: string
  se_extended :: bool
  se_encrypted :: bool
  se_from :: "string option"
  se_recipients :: "recipient list"
  se_errors :: nat
  se_budget :: nat
  se_charged :: bool
  se_reports :: "admission_decision list"
  se_reputation :: "rbl_report option"
  se_out :: "string list"

text \<open>What does not change during a connection.\<close>

record session_env =
  sv_peer :: ip_addr
  sv_tls :: bool
  sv_managed :: bool
  sv_parse_v6 :: "string \<Rightarrow> ipv6 option"

text \<open>
  The answers a command gets. \<open>an_written\<close> says whether a reply reaches the socket, \<open>an_stored\<close>
  whether the bytes of a message up to a length could be written.
\<close>

record answers =
  an_written :: "string \<Rightarrow> bool"
  an_cluster_ready :: bool
  an_snapshot :: snapshot
  an_tls :: "chunk list result"
  an_ha_ready :: bool
  an_available :: "nat result"
  an_early :: bool
  an_rbl :: rbl_report
  an_admission :: "admission_request \<Rightarrow> admission_decision"
  an_delay_permit :: bool
  an_verification :: verification_answer
  an_permit :: bool
  an_id :: string
  an_opened :: bool
  an_stored :: "nat \<Rightarrow> bool"
  an_flushed :: bool
  an_read_back :: bool
  an_acceptance :: acceptance_env

text \<open>A command ends in the next one, or ends the session with its result.\<close>

datatype flow = Go session | Stop "unit result" session

definition say :: "answers \<Rightarrow> string \<Rightarrow> session \<Rightarrow> flow" where
  "say a text s =
     (let s' = s\<lparr>se_out := se_out s @ [text]\<rparr>
      in if an_written a text then Go s' else Stop (Inl ''SMTP reply not written'') s')"

definition say_and_stop :: "answers \<Rightarrow> string \<Rightarrow> session \<Rightarrow> flow" where
  "say_and_stop a text s = (case say a text s of Go s' \<Rightarrow> Stop (Inr ()) s' | Stop r s' \<Rightarrow> Stop r s')"

definition reset_envelope :: "session \<Rightarrow> session" where
  "reset_envelope s = s\<lparr>se_from := None, se_recipients := []\<rparr>"

section \<open>Commands\<close>

definition smtp_greet :: "session_env \<Rightarrow> answers \<Rightarrow> bool \<Rightarrow> string \<Rightarrow> session \<Rightarrow> flow" where
  "smtp_greet env a ehlo arg s =
     (if arg = [] \<or> length arg > 255 \<or> list_ex (\<lambda>c. byte c \<le> 32 \<or> byte c = 127) arg
      then say a (''501 5.5.2 Invalid greeting'' @ CRLF) s
      else
       (let s1 = (reset_envelope s)\<lparr>se_helo := arg, se_extended := ehlo\<rparr>; cfg = se_config s in
        if ehlo then
          say a (''250-'' @ sc_hostname cfg @ CRLF @ ''250-SIZE '' @ nat_digits (sc_max_message_bytes cfg) @ CRLF
            @ ''250-8BITMIME'' @ CRLF @ (if sv_tls env \<and> \<not> se_encrypted s then ''250-STARTTLS'' @ CRLF else [])
            @ ''250 PIPELINING'' @ CRLF) s1
        else say a (''250 '' @ sc_hostname cfg @ CRLF) s1))"

definition smtp_starttls :: "session_env \<Rightarrow> answers \<Rightarrow> string \<Rightarrow> session \<Rightarrow> flow" where
  "smtp_starttls env a arg s =
     (if arg \<noteq> [] then say a (''501 5.5.2 STARTTLS takes no parameters'' @ CRLF) s
      else if \<not> (sv_tls env \<and> \<not> se_encrypted s \<and> se_extended s) then say a (''503 5.5.1 STARTTLS unavailable'' @ CRLF) s
      else if fst (se_io s) \<noteq> [] then Stop (Inl ''plaintext pipelined across STARTTLS boundary'') s
      else
       (case say a (''220 2.0.0 Ready to start TLS'' @ CRLF) s of
          Stop r s1 \<Rightarrow> Stop r s1
        | Go s1 \<Rightarrow>
           (case an_tls a of
              Inl e \<Rightarrow> Stop (Inl e) s1
            | Inr stream \<Rightarrow>
                Go ((reset_envelope s1)\<lparr>se_io := ([], stream), se_encrypted := True, se_helo := [], se_extended := False\<rparr>))))"

definition ascii_upper :: "char \<Rightarrow> char" where
  "ascii_upper c = (if 97 \<le> byte c \<and> byte c \<le> 122 then char_of (byte c - 32) else c)"

definition to_ascii_uppercase :: "string \<Rightarrow> string" where
  "to_ascii_uppercase s = map ascii_upper s"

function split_whitespace :: "string \<Rightarrow> string list" where
  "split_whitespace [] = []"
| "split_whitespace (c # s) =
     (if ascii_space c then split_whitespace s
      else (c # takeWhile (\<lambda>x. \<not> ascii_space x) s) # split_whitespace (dropWhile (\<lambda>x. \<not> ascii_space x) s))"
  by pat_completeness auto
termination
  by (relation "measure length") (auto simp: less_Suc_eq_le length_dropWhile_le)

definition parse_usize :: "string \<Rightarrow> nat option" where
  "parse_usize s =
     (let ds = (case s of c # cs \<Rightarrow> if c = CHR ''+'' then cs else s | [] \<Rightarrow> s)
      in if ds = [] then None
         else (case parse_digits 0 ds of None \<Rightarrow> None | Some n \<Rightarrow> if n < 2 ^ 64 then Some n else None))"

definition mail_option :: "bool \<Rightarrow> nat \<Rightarrow> string list \<Rightarrow> string \<Rightarrow> string option" where
  "mail_option extended maximum seen upper =
     (if hd (split_char (CHR ''='') upper) \<in> set seen then Some (''501 5.5.4 Duplicate parameter'' @ CRLF)
      else if \<not> extended then Some (''555 5.5.4 ESMTP required'' @ CRLF)
      else
       (case strip_prefix ''SIZE='' upper of
          Some digits \<Rightarrow>
           (case parse_usize digits of
              Some n \<Rightarrow> if n \<le> maximum then None else Some (''552 5.3.4 Message too large'' @ CRLF)
            | None \<Rightarrow> Some (''501 5.5.4 Invalid SIZE'' @ CRLF))
        | None \<Rightarrow>
            if upper \<noteq> ''BODY=8BITMIME'' \<and> upper \<noteq> ''BODY=7BIT'' then Some (''555 5.5.4 Unsupported MAIL parameter'' @ CRLF)
            else None))"

text \<open>The last complaint wins.\<close>

fun mail_options :: "bool \<Rightarrow> nat \<Rightarrow> string list \<Rightarrow> string option \<Rightarrow> string list \<Rightarrow> string option" where
  "mail_options extended maximum seen bad [] = bad"
| "mail_options extended maximum seen bad (opt # opts) =
     (let upper = to_ascii_uppercase opt
      in mail_options extended maximum (hd (split_char (CHR ''='') upper) # seen)
           (option_or (mail_option extended maximum seen upper) bad) opts)"

definition smtp_mail :: "answers \<Rightarrow> string \<Rightarrow> session \<Rightarrow> flow" where
  "smtp_mail a arg s =
     (let cfg = se_config s in
      if se_helo s = [] \<or> se_from s \<noteq> None then say a (''503 5.5.1 Send greeting or RSET first'' @ CRLF) s
      else
       (case parse_path arg ''FROM:'' True of
          Inl _ \<Rightarrow> say a (''501 5.5.2 Invalid reverse path'' @ CRLF) s
        | Inr (address, options) \<Rightarrow>
           (case mail_options (se_extended s) (sc_max_message_bytes cfg) [] None (split_whitespace options) of
              Some bad \<Rightarrow> say a bad s
            | None \<Rightarrow>
                if \<not> an_ha_ready a then say a (''451 4.3.0 Second durable copy unavailable; retry later'' @ CRLF) s
                else
                 (case an_available a of
                    Inl e \<Rightarrow> Stop (Inl e) s
                  | Inr n \<Rightarrow>
                      if n < sc_minimum_free_bytes cfg + sc_max_message_bytes cfg
                      then say a (''452 4.3.1 Insufficient storage'' @ CRLF) s
                      else say a (''250 2.1.0 Sender accepted'' @ CRLF)
                        (s\<lparr>se_reputation := None, se_charged := False, se_reports := [], se_from := Some address,
                           se_recipients := []\<rparr>)))))"

fun trim_start_matches :: "string \<Rightarrow> string \<Rightarrow> string" where
  "trim_start_matches p [] = []"
| "trim_start_matches p (c # s) =
     (if p \<noteq> [] \<and> starts_with p (c # s) then trim_start_matches p (drop (length p - 1) s) else c # s)"

definition invalid_helo :: "session_env \<Rightarrow> string \<Rightarrow> bool" where
  "invalid_helo env helo \<longleftrightarrow> \<not> valid_domain helo
     \<and> parse_ip (sv_parse_v6 env) (trim_start_matches ''IPv6:''
         (rev (dropWhile (\<lambda>c. c = CHR '']'') (rev (dropWhile (\<lambda>c. c = CHR ''['') helo))))) = None"

definition same_report :: "admission_decision \<Rightarrow> admission_decision \<Rightarrow> bool" where
  "same_report r d \<longleftrightarrow> de_status r = de_status d \<and> de_mode r = de_mode d \<and> de_reasons r = de_reasons d"

text \<open>The admission of one recipient: the decision, and the session that remembers it.\<close>

definition admit_recipient ::
    "session_env \<Rightarrow> answers \<Rightarrow> admission_settings \<Rightarrow> string \<Rightarrow> recipient \<Rightarrow> session \<Rightarrow> admission_decision \<times> session" where
  "admit_recipient env a settings sender recipient s =
     (let reputation = unwrap_or (se_reputation s) (an_rbl a);
          decision = an_admission a \<lparr>aq_peer = sv_peer env, aq_sender = sender, aq_recipient = rc_address recipient,
            aq_listed_providers = rb_listed_providers reputation, aq_invalid_helo = invalid_helo env (se_helo s),
            aq_charge_rate = (\<not> se_charged s)\<rparr>
      in (decision, s\<lparr>se_reputation := Some reputation, se_charged := True,
            se_budget := snd (admission_delay settings decision (an_delay_permit a) (se_budget s))\<rparr>))"

definition keep_report :: "admission_decision \<Rightarrow> session \<Rightarrow> session" where
  "keep_report d s = (if list_ex (\<lambda>r. same_report r d) (se_reports s) then s else s\<lparr>se_reports := se_reports s @ [d]\<rparr>)"

definition add_recipient :: "answers \<Rightarrow> recipient \<Rightarrow> session \<Rightarrow> flow" where
  "add_recipient a recipient s =
     (case verification_reply (an_verification a) of
        Some response \<Rightarrow> say a response s
      | None \<Rightarrow>
          say a (''250 2.1.5 Recipient accepted'' @ CRLF)
            (if list_ex (\<lambda>r. rc_address r = rc_address recipient) (se_recipients s) then s
             else s\<lparr>se_recipients := se_recipients s @ [recipient]\<rparr>))"

definition known_recipient :: "session_env \<Rightarrow> answers \<Rightarrow> string \<Rightarrow> recipient \<Rightarrow> session \<Rightarrow> flow" where
  "known_recipient env a sender recipient s =
     (if sc_traffic (se_config s) \<and> an_early a then say a (''451 4.7.1 Traffic limit; please retry later'' @ CRLF) s
      else
       (case option_filter ad_enabled (sc_admission (se_config s)) of
          None \<Rightarrow> add_recipient a recipient s
        | Some settings \<Rightarrow>
           (case admit_recipient env a settings sender recipient s of (decision, s1) \<Rightarrow>
             (case smtp_reply decision of
                None \<Rightarrow> add_recipient a recipient (keep_report decision s1)
              | Some response \<Rightarrow>
                 (case say a response s1 of
                    Stop r s2 \<Rightarrow> Stop r s2
                  | Go s2 \<Rightarrow>
                      Go (if de_status decision = As_RateLimited then (reset_envelope s2)\<lparr>se_reports := []\<rparr> else s2))))))"

definition smtp_rcpt :: "session_env \<Rightarrow> answers \<Rightarrow> string \<Rightarrow> session \<Rightarrow> flow" where
  "smtp_rcpt env a arg s =
     (case se_from s of
        None \<Rightarrow> say a (''503 5.5.1 MAIL required'' @ CRLF) s
      | Some sender \<Rightarrow>
         (case parse_path arg ''TO:'' False of
            Inl _ \<Rightarrow> say a (''501 5.5.2 Invalid recipient'' @ CRLF) s
          | Inr (address, options) \<Rightarrow>
              if options \<noteq> [] then say a (''555 5.5.4 Unsupported RCPT parameter'' @ CRLF) s
              else if sc_max_recipients (se_config s) \<le> length (se_recipients s)
              then say a (''452 4.5.3 Too many recipients'' @ CRLF) s
              else
               (case config_recipient (sc_domains (se_config s))
                   (if eq_ignore_ascii_case address ''postmaster'' then sc_postmaster (se_config s) else address) of
                  Some recipient \<Rightarrow> known_recipient env a sender recipient s
                | None \<Rightarrow> say a (''550 5.1.1 Recipient not accepted'' @ CRLF) s)))"

section \<open>Messages\<close>

datatype data_reception = Data string conn | Data_Disconnected | Data_Refused string | Data_Error string

function receive_data :: "(nat \<Rightarrow> bool) \<Rightarrow> nat \<Rightarrow> string \<Rightarrow> conn \<Rightarrow> data_reception" where
  "receive_data stored maximum body io =
     (case line 1001 io of
        Inl e \<Rightarrow> Data_Error e
      | Inr (None, _) \<Rightarrow> Data_Disconnected
      | Inr (Some l, io') \<Rightarrow>
          if l = ''.'' @ CRLF then Data body io'
          else
           (let l' = (if starts_with ''.'' l then tl l else l)
            in if length l' > 1000 then Data_Error ''DATA line too long''
               else if length body + length l' > maximum then Data_Refused (''552 5.3.4 Message too large'' @ CRLF)
               else if \<not> stored (length body + length l') then Data_Refused (''452 4.3.1 Storage failure'' @ CRLF)
               else receive_data stored maximum (body @ l') io'))"
  by pat_completeness auto
termination
  by (relation "measure (\<lambda>(_, _, _, io). stream_size (feed io))") (auto simp: line_def dest: read_line_consumes)

declare receive_data.simps [simp del]

definition processed_variants :: "rbl_report \<Rightarrow> (queue_variant \<times> traffic_report option) list \<Rightarrow> queue_variant list" where
  "processed_variants rbl vs = map (\<lambda>(v, _). v\<lparr>qv_scan := rbl_attach rbl (qv_scan v)\<rparr>) vs"

definition queued_reply :: "string \<Rightarrow> string" where
  "queued_reply i = ''250 2.0.0 Queued as '' @ i @ CRLF"

text \<open>Analysis and durable acceptance of a message with its envelope, already taken out of the session.\<close>

definition accept_message ::
    "answers \<Rightarrow> engine \<Rightarrow> string \<Rightarrow> string \<Rightarrow> recipient list \<Rightarrow> session \<Rightarrow> queue \<Rightarrow> flow \<times> queue" where
  "accept_message a engine raw sender recipients s q =
     (case engine raw (se_helo s) sender (an_id a) recipients (an_rbl a) (se_epoch s) of
        Inl _ \<Rightarrow> (say a (''451 4.3.0 Unable to persist message; retry'' @ CRLF) s, q)
      | Inr vs \<Rightarrow>
          if list_ex (\<lambda>(_, t). is_some_and t report_defer) vs
          then (say a (''451 4.7.1 Traffic limit; please retry later'' @ CRLF) s, q)
          else
           (case enqueue_variants_with_reserve (an_acceptance a) sender (processed_variants (an_rbl a) vs)
               (sc_minimum_free_bytes (se_config s)) q of
              (Inr _, q1) \<Rightarrow> (say a (queued_reply (an_id a)) s, q1)
            | (Inl _, q1) \<Rightarrow> (say a (''451 4.3.0 Unable to persist message; retry'' @ CRLF) s, q1)))"

definition received_message :: "answers \<Rightarrow> string \<Rightarrow> string \<Rightarrow> session \<Rightarrow> queue \<Rightarrow> flow \<times> queue" where
  "received_message a raw sender s q =
     (if \<not> an_flushed a \<or> \<not> an_read_back a then (say_and_stop a (''452 4.3.1 Storage failure'' @ CRLF) s, q)
      else
       (case message_validate raw of
          Inl _ \<Rightarrow>
           (case say a (''554 5.6.0 Invalid message structure'' @ CRLF) s of
              Go s1 \<Rightarrow> (Go (reset_envelope s1), q) | Stop r s1 \<Rightarrow> (Stop r s1, q))
        | Inr _ \<Rightarrow>
           (case se_engine s of
              None \<Rightarrow> (Stop (Inl ''Missing SMTP transaction engine'') (reset_envelope s), q)
            | Some engine \<Rightarrow> accept_message a engine raw sender (se_recipients s) (reset_envelope s) q)))"

definition GO_AHEAD :: string where
  "GO_AHEAD = ''354 End data with <CRLF>.<CRLF>'' @ CRLF"

definition smtp_data :: "answers \<Rightarrow> string \<Rightarrow> session \<Rightarrow> queue \<Rightarrow> flow \<times> queue" where
  "smtp_data a arg s q =
     (if arg \<noteq> [] then (say a (''501 5.5.2 DATA takes no parameters'' @ CRLF) s, q)
      else
       (case (se_from s, se_recipients s) of
          (Some sender, _ # _) \<Rightarrow>
           (let refuse = (\<lambda>text. (case say a text s of Go s1 \<Rightarrow> Go (reset_envelope s1) | Stop r s1 \<Rightarrow> Stop r s1)) in
            case rbl_smtp_reply (an_rbl a) of
              Some response \<Rightarrow> (refuse response, q)
            | None \<Rightarrow>
                if \<not> an_permit a then (refuse (''451 4.3.2 Analysis capacity busy; retry later'' @ CRLF), q)
                else if \<not> an_opened a then (say a (''452 4.3.1 Cannot allocate storage'' @ CRLF) s, q)
                else
                 (case say a GO_AHEAD s of
                    Stop r s1 \<Rightarrow> (Stop r s1, q)
                  | Go s1 \<Rightarrow>
                     (case receive_data (an_stored a) (sc_max_message_bytes (se_config s)) [] (se_io s1) of
                        Data_Error e \<Rightarrow> (Stop (Inl e) s1, q)
                      | Data_Disconnected \<Rightarrow> (Stop (Inr ()) s1, q)
                      | Data_Refused text \<Rightarrow> (say_and_stop a text s1, q)
                      | Data raw io \<Rightarrow> received_message a raw sender (s1\<lparr>se_io := io\<rparr>) q)))
        | _ \<Rightarrow> (say a (''503 5.5.1 MAIL and RCPT required'' @ CRLF) s, q)))"

section \<open>The session\<close>

text \<open>The configuration of the transaction is read when MAIL arrives.\<close>

definition take_snapshot :: "snapshot \<Rightarrow> session \<Rightarrow> session" where
  "take_snapshot n s = s\<lparr>se_epoch := sn_epoch n, se_config := sn_config n, se_engine := Some (sn_engine n)\<rparr>"

definition unrecognized :: "answers \<Rightarrow> session \<Rightarrow> flow" where
  "unrecognized a s =
     (case say a (''500 5.5.2 Command unrecognized'' @ CRLF) s of
        Stop r s1 \<Rightarrow> Stop r s1
      | Go s1 \<Rightarrow>
         (let s2 = s1\<lparr>se_errors := se_errors s1 + 1\<rparr> in if 10 \<le> se_errors s2 then Stop (Inr ()) s2 else Go s2))"

definition dispatch :: "session_env \<Rightarrow> answers \<Rightarrow> string \<Rightarrow> string \<Rightarrow> session \<Rightarrow> queue \<Rightarrow> flow \<times> queue" where
  "dispatch env a verb arg s q =
     (if verb = ''EHLO'' \<or> verb = ''HELO'' then (smtp_greet env a (verb = ''EHLO'') arg s, q)
      else if verb = ''STARTTLS'' then (smtp_starttls env a arg s, q)
      else if verb = ''MAIL'' then (smtp_mail a arg s, q)
      else if verb = ''RCPT'' then (smtp_rcpt env a arg s, q)
      else if verb = ''DATA'' then smtp_data a arg s q
      else if verb = ''RSET'' \<and> arg = [] then (say a (''250 2.0.0 Reset'' @ CRLF) (reset_envelope s), q)
      else if verb = ''NOOP'' then (say a (''250 2.0.0 OK'' @ CRLF) s, q)
      else if verb = ''QUIT'' \<and> arg = [] then (say_and_stop a (''221 2.0.0 Bye'' @ CRLF) s, q)
      else if verb = ''VRFY'' then (say a (''252 2.5.2 Cannot verify user'' @ CRLF) s, q)
      else if verb = ''BDAT'' then (say_and_stop a (''502 5.5.1 CHUNKING not supported'' @ CRLF) s, q)
      else (unrecognized a s, q))"

definition run_command :: "session_env \<Rightarrow> answers \<Rightarrow> string \<Rightarrow> session \<Rightarrow> queue \<Rightarrow> flow \<times> queue" where
  "run_command env a text s q =
     (let (verb, arg) = unwrap_or (split_once (CHR '' '') text) (text, []); mail = eq_ignore_ascii_case verb ''MAIL'' in
      if mail \<and> \<not> gate_ready (q_gate q)
      then (say a (''451 4.3.2 Policy activation in progress; retry later'' @ CRLF) s, q)
      else if se_from s = None \<and> mail \<and> sv_managed env \<and> \<not> an_cluster_ready a
      then (say a (''451 4.3.2 Node configuration unavailable or expired; retry another MX'' @ CRLF) s, q)
      else dispatch env a (to_ascii_uppercase verb) arg
        (if se_from s = None \<and> mail \<and> sv_managed env then take_snapshot (an_snapshot a) s else s) q)"

text \<open>One turn of the loop. A managed connection owns an engine only between MAIL and the reset.\<close>

definition smtp_turn :: "session_env \<Rightarrow> answers \<Rightarrow> session \<Rightarrow> queue \<Rightarrow> flow \<times> queue" where
  "smtp_turn env a s0 q =
     (let s = (if sv_managed env \<and> se_from s0 = None then s0\<lparr>se_engine := None, se_epoch := None\<rparr> else s0) in
      case line 512 (se_io s) of
        Inl e \<Rightarrow>
          (Stop (Inl e) (case say a (''500 5.5.2 Invalid command framing'' @ CRLF) s of Go s1 \<Rightarrow> s1 | Stop _ s1 \<Rightarrow> s1), q)
      | Inr (None, _) \<Rightarrow> (Stop (Inr ()) s, q)
      | Inr (Some l, io) \<Rightarrow>
          if list_all is_ascii_char (take (length l - 2) l) then run_command env a (take (length l - 2) l) (s\<lparr>se_io := io\<rparr>) q
          else (say_and_stop a (''500 5.5.2 ASCII command required'' @ CRLF) (s\<lparr>se_io := io\<rparr>), q))"

text \<open>
  The loop. The store is shared with other connections and the delivery workers: it may change in
  any way between two commands, which the second function gives.
\<close>

fun smtp_loop :: "session_env \<Rightarrow> (nat \<Rightarrow> answers) \<Rightarrow> (nat \<Rightarrow> queue \<Rightarrow> queue) \<Rightarrow> nat \<Rightarrow> session \<Rightarrow> queue \<Rightarrow> unit result \<times> session \<times> queue" where
  "smtp_loop env answer between 0 s q = (Inr (), s, q)"
| "smtp_loop env answer between (Suc n) s q =
     (case smtp_turn env (answer n) s (between n q) of
        (Go s', q') \<Rightarrow> smtp_loop env answer between n s' q'
      | (Stop r s', q') \<Rightarrow> (r, s', q'))"

definition initial_session :: "session_env \<Rightarrow> smtp_config \<Rightarrow> engine \<Rightarrow> chunk list \<Rightarrow> session" where
  "initial_session env cfg engine stream =
     \<lparr>se_config = cfg, se_engine = (if sv_managed env then None else Some engine), se_epoch = None, se_io = ([], stream),
      se_helo = [], se_extended = False, se_encrypted = False, se_from = None, se_recipients = [], se_errors = 0,
      se_budget = 0, se_charged = False, se_reports = [], se_reputation = None, se_out = []\<rparr>"

definition smtp_session ::
    "session_env \<Rightarrow> (nat \<Rightarrow> answers) \<Rightarrow> (nat \<Rightarrow> queue \<Rightarrow> queue) \<Rightarrow> smtp_config \<Rightarrow> engine \<Rightarrow> chunk list \<Rightarrow> queue
      \<Rightarrow> unit result \<times> session \<times> queue" where
  "smtp_session env answer between cfg engine stream q =
     (case say (answer 1000) (''220 '' @ sc_hostname cfg @ '' ESMTP NoiseFence - https://github.com/crdffrance/NoiseFence'' @ CRLF)
         (initial_session env cfg engine stream) of
        Stop r s \<Rightarrow> (r, s, q)
      | Go s \<Rightarrow> smtp_loop env answer between 1000 s q)"

end
