(* ===== verification/NF_Relay.thy ===== *)
theory NF_Relay
  imports NF_Smtp
begin

text \<open>
  The exchange with an upstream server (\<open>src/relay.rs\<close>): the record of an attempt, the reading of
  replies, the conversation that hands a message over, the addresses it may use and the walk
  over the routes of a delivery.

  An attempt threads its state through the conversation and keeps it when a step fails, as the
  source's trace outlives the cancelled future. What the network does is a record of answers: a
  connection is the stream of bytes the server sends. An await that the outer time limit cuts is an
  error of that await, which \<open>un_elapsed\<close> recognises. Redaction and the lossy decoding of a
  reply are arguments; times are left out of the record.
\<close>

section \<open>The record of an attempt\<close>

record relay_trace =
  rt_attempt :: attempt
  rt_active :: "relay_event option"
  rt_accepted :: bool

text \<open>\<open>cl\<close> redacts with the envelope's addresses, \<open>san\<close> without; \<open>lossy\<close> is \<open>String::from_utf8_lossy\<close>.\<close>

record relay_text =
  tx_clean :: redaction
  tx_sanitize :: redaction
  tx_lossy :: "string \<Rightarrow> string"

definition mark_cut :: "bool \<Rightarrow> relay_trace \<Rightarrow> relay_trace" where
  "mark_cut shorter t = t\<lparr>rt_attempt := (rt_attempt t)\<lparr>at_truncated := (at_truncated (rt_attempt t) \<or> shorter)\<rparr>\<rparr>"

definition trace_new :: "relay_text \<Rightarrow> string \<Rightarrow> relay_trace" where
  "trace_new tx route =
     (case tx_clean tx route of (safe, shorter) \<Rightarrow>
        \<lparr>rt_attempt = \<lparr>at_route = safe, at_peer = None, at_outcome = ''temporary'', at_events = [], at_truncated = shorter\<rparr>,
         rt_active = None, rt_accepted = False\<rparr>)"

definition trace_flush :: "relay_trace \<Rightarrow> relay_trace" where
  "trace_flush t =
     (case rt_active t of
        None \<Rightarrow> t
      | Some e \<Rightarrow>
         (let a = rt_attempt t; full = (length (at_events a) = MAX_EVENTS) in
          t\<lparr>rt_active := None, rt_attempt := a\<lparr>at_events := (if full then butlast (at_events a) else at_events a) @ [e],
              at_truncated := (at_truncated a \<or> full)\<rparr>\<rparr>))"

definition trace_begin :: "string \<Rightarrow> relay_trace \<Rightarrow> relay_trace" where
  "trace_begin phase t = (trace_flush t)\<lparr>rt_active := Some \<lparr>re_phase = phase, re_code = None, re_enhanced_code = None,
     re_response = None, re_detail = None\<rparr>\<rparr>"

definition trace_detail :: "relay_text \<Rightarrow> string \<Rightarrow> relay_trace \<Rightarrow> relay_trace" where
  "trace_detail tx detail t =
     (case tx_clean tx detail of (safe, shorter) \<Rightarrow>
        (mark_cut shorter t)\<lparr>rt_active := map_option (\<lambda>e. e\<lparr>re_detail := Some safe\<rparr>) (rt_active t)\<rparr>)"

definition is_digit :: "char \<Rightarrow> bool" where
  "is_digit c \<longleftrightarrow> 48 \<le> byte c \<and> byte c \<le> 57"

definition enhanced_code :: "string \<Rightarrow> string option" where
  "enhanced_code text =
     Option.bind (first_word text) (\<lambda>token.
       (case split_char (CHR ''.'') token of
          [cls, subject, detail] \<Rightarrow>
            if cls \<in> {''2'', ''4'', ''5''}
              \<and> list_all (\<lambda>p. 1 \<le> length p \<and> length p \<le> 3 \<and> list_all is_digit p) [subject, detail]
            then Some token else None
        | _ \<Rightarrow> None))"

definition reply_code :: "string \<Rightarrow> nat option" where
  "reply_code l = (if 3 \<le> length l \<and> list_all is_digit (take 3 l) then parse_digits 0 (take 3 l) else None)"

definition response_line :: "relay_text \<Rightarrow> string \<Rightarrow> relay_trace \<Rightarrow> relay_trace" where
  "response_line tx l t =
     (case tx_clean tx (tx_lossy tx (unwrap_or (strip_suffix CRLF l) l)) of (safe, shorter) \<Rightarrow>
       (let t1 = mark_cut shorter t in
        case rt_active t1 of
          None \<Rightarrow> t1
        | Some e \<Rightarrow>
           (let code = (if 4 \<le> length l then option_filter (\<lambda>n. 200 \<le> n \<and> n < 600) (reply_code l) else None);
                e1 = (if code = None then e
                      else e\<lparr>re_code := option_or (re_code e) code,
                        re_enhanced_code := option_or (re_enhanced_code e) (enhanced_code (tx_lossy tx (drop 4 l)))\<rparr>);
                combined = (case re_response e1 of Some previous \<Rightarrow> previous @ '' | '' @ safe | None \<Rightarrow> safe)
            in case tx_sanitize tx combined of (safe2, shorter2) \<Rightarrow>
                 (mark_cut shorter2 t1)\<lparr>rt_active := Some (e1\<lparr>re_response := Some safe2\<rparr>)\<rparr>)))"

definition trace_finish :: "relay_text \<Rightarrow> relay_outcome \<Rightarrow> relay_trace \<Rightarrow> attempt" where
  "trace_finish tx outcome t =
     attempt_sanitize (tx_sanitize tx) ((rt_attempt (trace_flush t))\<lparr>at_outcome :=
       (case outcome of Delivered \<Rightarrow> ''delivered'' | Temporary _ \<Rightarrow> ''temporary'' | Permanent _ \<Rightarrow> ''permanent'')\<rparr>)"

section \<open>Steps of a conversation\<close>

text \<open>
  Two fields log the conversation and decide nothing in it: \<open>us_sent\<close> is what was written, with whether the
  connection was encrypted then, and \<open>us_heard\<close> every line that was read, with how many texts had been written before.
\<close>

record upstream =
  us_io :: conn
  us_encrypted :: bool
  us_sent :: "(bool \<times> string) list"
  us_heard :: "(nat \<times> string) list"
  us_trace :: relay_trace

type_synonym 'a exchange = "upstream \<Rightarrow> 'a result \<times> upstream"

definition ex_return :: "'a \<Rightarrow> 'a exchange" where
  "ex_return x s = (Inr x, s)"

definition ex_bind :: "'a exchange \<Rightarrow> ('a \<Rightarrow> 'b exchange) \<Rightarrow> 'b exchange" where
  "ex_bind m f s = (case m s of (Inl e, s1) \<Rightarrow> (Inl e, s1) | (Inr x, s1) \<Rightarrow> f x s1)"

definition ex_trace :: "(relay_trace \<Rightarrow> relay_trace) \<Rightarrow> unit exchange" where
  "ex_trace f s = (Inr (), s\<lparr>us_trace := f (us_trace s)\<rparr>)"

definition ex_lift :: "'a result \<Rightarrow> 'a exchange" where
  "ex_lift r s = (r, s)"

datatype 'a attempted = Succeeded 'a | Refused string | Cut string

record upstream_net =
  un_lookup :: "string \<Rightarrow> u16 \<Rightarrow> ip_addr list result"
  un_connect :: "ip_addr \<Rightarrow> chunk list attempted"
  un_tls :: "string \<Rightarrow> (string \<times> chunk list) result"
  un_write :: "(bool \<times> string) list \<Rightarrow> string \<Rightarrow> unit result"
  un_quit :: "unit attempted"
  un_elapsed :: "string \<Rightarrow> bool"
  un_show :: "ip_addr \<Rightarrow> string"
  un_show_socket :: "ip_addr \<Rightarrow> u16 \<Rightarrow> string"

record upstream_reply =
  ur_code :: nat
  ur_lines :: "string list"

definition ex_write :: "upstream_net \<Rightarrow> string \<Rightarrow> unit exchange" where
  "ex_write net text s = (un_write net (us_sent s) text, s\<lparr>us_sent := us_sent s @ [(us_encrypted s, text)]\<rparr>)"

text \<open>QUIT is written under its own time limit; its failure is a value, not an error.\<close>

definition ex_quit :: "upstream_net \<Rightarrow> unit attempted exchange" where
  "ex_quit net s = (Inr (un_quit net), s\<lparr>us_sent := us_sent s @ [(us_encrypted s, ''QUIT'' @ CRLF)]\<rparr>)"

text \<open>One line of a reply: the code and text, and whether more follow.\<close>

definition parse_reply_line :: "relay_text \<Rightarrow> nat option \<Rightarrow> string \<Rightarrow> (nat \<times> string \<times> bool) result" where
  "parse_reply_line tx code b =
     and_then (ensure (6 \<le> length b \<and> list_all is_digit (take 3 b) \<and> (b ! 3 = CHR '' '' \<or> b ! 3 = CHR ''-''))
       ''invalid upstream reply'') (\<lambda>_.
     let n = unwrap_or (reply_code b) 0 in
     and_then (ensure (200 \<le> n \<and> n < 600) ''invalid reply code'') (\<lambda>_.
     and_then (ensure (code = None \<or> code = Some n) ''inconsistent multiline reply'') (\<lambda>_.
     Inr (n, tx_lossy tx (take (length b - 6) (drop 4 b)), b ! 3 = CHR ''-''))))"

fun read_reply_lines :: "relay_text \<Rightarrow> nat \<Rightarrow> nat option \<Rightarrow> string list \<Rightarrow> upstream_reply exchange" where
  "read_reply_lines tx 0 code ls s = (Inl ''too many upstream reply lines'', s)"
| "read_reply_lines tx (Suc k) code ls s =
     (case line 512 (us_io s) of
        Inl e \<Rightarrow> (Inl e, s)
      | Inr (None, _) \<Rightarrow> (Inl ''SMTP upstream disconnected'', s)
      | Inr (Some b, io) \<Rightarrow>
         (let s1 = s\<lparr>us_io := io, us_heard := us_heard s @ [(length (us_sent s), b)], us_trace := response_line tx b (us_trace s)\<rparr> in
          case parse_reply_line tx code b of
            Inl e \<Rightarrow> (Inl e, s1)
          | Inr (n, l, continues) \<Rightarrow>
              if continues then read_reply_lines tx k (Some n) (ls @ [l]) s1
              else (Inr \<lparr>ur_code = n, ur_lines = ls @ [l]\<rparr>, s1)))"

definition read_response :: "relay_text \<Rightarrow> upstream_reply exchange" where
  "read_response tx = read_reply_lines tx 100 None []"

definition upstream_command :: "relay_text \<Rightarrow> upstream_net \<Rightarrow> string \<Rightarrow> string \<Rightarrow> upstream_reply exchange" where
  "upstream_command tx net text phase =
     ex_bind (ex_trace (trace_begin phase)) (\<lambda>_.
     ex_bind (ex_write net text) (\<lambda>_. read_response tx))"

definition join_words :: "string list \<Rightarrow> string" where
  "join_words ls = concat (case ls of [] \<Rightarrow> [] | l # rest \<Rightarrow> l # map (\<lambda>x. '' '' @ x) rest)"

definition relay_failure :: "upstream_reply \<Rightarrow> relay_outcome" where
  "relay_failure r =
     (let reason = nat_digits (ur_code r) @ '' '' @ join_words (ur_lines r)
      in if 500 \<le> ur_code r then Permanent reason else Temporary reason)"

definition unknown_recipient :: "upstream_reply \<Rightarrow> bool" where
  "unknown_recipient r \<longleftrightarrow> ur_code r = 550 \<and> ur_lines r \<noteq> [] \<and> list_all (\<lambda>l. enhanced_code l = Some ''5.1.1'') (ur_lines r)"

section \<open>Where a message may go\<close>

record relay_domain = domain +
  dom_unknown_recipient_fallback :: "string option"

record upstream_config =
  uc_hostname :: string
  uc_port :: u16
  uc_require_tls :: bool
  uc_allow_loopback_plaintext :: bool
  uc_domains :: "relay_domain list"

definition recipient_fallback :: "upstream_config \<Rightarrow> job \<Rightarrow> string option" where
  "recipient_fallback cfg j =
     (if jb_is_dsn j then None
      else
       (case rsplit_once (CHR ''@'') (jb_destination j) of
          None \<Rightarrow> None
        | Some (_, name) \<Rightarrow>
           (case find (\<lambda>d. eq_ignore_ascii_case (dom_name d) name) (uc_domains cfg) of
              None \<Rightarrow> None
            | Some owner \<Rightarrow>
               (case dom_unknown_recipient_fallback owner of
                  None \<Rightarrow> None
                | Some target \<Rightarrow>
                    if dom_next_hops owner = jb_hosts j \<and> \<not> same_mailbox target (jb_destination j)
                    then Some target else None))))"

fun safe_ipv4 :: "ipv4 \<Rightarrow> bool" where
  "safe_ipv4 (a, b, c, d) \<longleftrightarrow>
     \<not> (a = 10 \<or> (a = 172 \<and> 16 \<le> b \<and> b \<le> 31) \<or> (a = 192 \<and> b = 168))
     \<and> a \<noteq> 127 \<and> \<not> (a = 169 \<and> b = 254) \<and> \<not> (a = 0 \<and> b = 0 \<and> c = 0 \<and> d = 0) \<and> \<not> (224 \<le> a \<and> a \<le> 239)
     \<and> \<not> (a = 255 \<and> b = 255 \<and> c = 255 \<and> d = 255) \<and> a \<noteq> 0 \<and> a < 224"

definition segment0 :: "ipv6 \<Rightarrow> nat" where
  "segment0 w = unat w div 2 ^ 112"

definition safe_ip :: "ip_addr \<Rightarrow> bool" where
  "safe_ip ip =
     (case to_canonical ip of
        V4 a \<Rightarrow> safe_ipv4 a
      | V6 w \<Rightarrow> w \<noteq> 1 \<and> w \<noteq> 0 \<and> segment0 w div 256 \<noteq> 255 \<and> segment0 w div 512 \<noteq> 126 \<and> segment0 w div 64 \<noteq> 1018)"

section \<open>The conversation\<close>

definition set_peer :: "string \<Rightarrow> relay_trace \<Rightarrow> relay_trace" where
  "set_peer peer t = t\<lparr>rt_attempt := (rt_attempt t)\<lparr>at_peer := Some peer\<rparr>\<rparr>"

definition loopback_test :: "upstream_config \<Rightarrow> ip_addr \<Rightarrow> bool" where
  "loopback_test cfg ip \<longleftrightarrow> uc_allow_loopback_plaintext cfg \<and> is_loopback ip"

text \<open>The first address that answers, with the stream of its connection and whether plain text is allowed there.\<close>

fun connect_first ::
    "relay_text \<Rightarrow> upstream_net \<Rightarrow> upstream_config \<Rightarrow> u16 \<Rightarrow> ip_addr list \<Rightarrow> (chunk list \<times> bool) option exchange" where
  "connect_first tx net cfg port [] = ex_return None"
| "connect_first tx net cfg port (ip # ips) =
     (let shown = un_show_socket net ip port; loopback = loopback_test cfg ip in
      ex_bind (ex_trace (\<lambda>t. trace_detail tx (''Connecting to '' @ shown) (set_peer (un_show net ip) (trace_begin ''connect'' t)))) (\<lambda>_.
      if \<not> loopback \<and> \<not> safe_ip ip then
        ex_bind (ex_trace (trace_detail tx (''Address '' @ shown @ '' blocked by relay IP policy''))) (\<lambda>_.
        connect_first tx net cfg port ips)
      else
       (case un_connect net ip of
          Succeeded stream \<Rightarrow>
            ex_bind (ex_trace (trace_detail tx (''Connected to '' @ shown))) (\<lambda>_. ex_return (Some (stream, loopback)))
        | Refused reason \<Rightarrow>
            ex_bind (ex_trace (trace_detail tx (''Connect to '' @ shown @ '' '' @ reason))) (\<lambda>_.
            connect_first tx net cfg port ips)
        | Cut e \<Rightarrow> ex_lift (Inl e))))"

definition open_connection :: "chunk list \<Rightarrow> bool \<Rightarrow> unit exchange" where
  "open_connection stream encrypted s = (Inr (), s\<lparr>us_io := ([], stream), us_encrypted := encrypted\<rparr>)"

definition has_extension :: "string \<Rightarrow> upstream_reply \<Rightarrow> bool" where
  "has_extension name ehlo \<longleftrightarrow> list_ex (\<lambda>l. eq_ignore_ascii_case l name) (ur_lines ehlo)"

definition size_line :: "upstream_reply \<Rightarrow> string option" where
  "size_line ehlo = find (\<lambda>l. starts_with ''SIZE'' (to_ascii_uppercase l)) (ur_lines ehlo)"

text \<open>\<open>split_whitespace().nth(1)\<close> of a decoded line.\<close>

definition second_word :: "string \<Rightarrow> string option" where
  "second_word l = Option.bind (first_word l) (\<lambda>w. first_word (drop (length w) (trim_start l)))"

definition size_limit :: "upstream_reply \<Rightarrow> nat option" where
  "size_limit ehlo = Option.bind (Option.bind (size_line ehlo) second_word) parse_usize"

definition mail_parameters :: "upstream_reply \<Rightarrow> string \<Rightarrow> string" where
  "mail_parameters ehlo raw =
     (if size_line ehlo \<noteq> None then '' SIZE='' @ nat_digits (length raw) else [])
     @ (if \<not> list_all is_ascii_char raw then '' BODY=8BITMIME'' else [])"

text \<open>What became of QUIT is only noted.\<close>

definition quit_noted :: "relay_text \<Rightarrow> unit attempted \<Rightarrow> relay_outcome exchange" where
  "quit_noted tx q =
     (case q of
         Succeeded _ \<Rightarrow> ex_bind (ex_trace (trace_detail tx ''QUIT sent after acceptance'')) (\<lambda>_. ex_return Delivered)
       | Refused reason \<Rightarrow> ex_bind (ex_trace (trace_detail tx (''QUIT '' @ reason))) (\<lambda>_. ex_return Delivered)
       | Cut e \<Rightarrow> ex_lift (Inl e))"

text \<open>The handover of the data: the final 250 is authoritative, whatever becomes of QUIT.\<close>

definition transfer_data :: "relay_text \<Rightarrow> upstream_net \<Rightarrow> string \<Rightarrow> relay_outcome exchange" where
  "transfer_data tx net raw =
     ex_bind (ex_trace (trace_detail tx ''Transferring message data'')) (\<lambda>_.
     ex_bind (ex_write net (dot_stuff raw @ ''.'' @ CRLF)) (\<lambda>_.
     ex_bind (ex_trace (\<lambda>t. trace_begin ''data_result'' (trace_detail tx ''Message data transferred'' t))) (\<lambda>_.
     ex_bind (read_response tx) (\<lambda>r.
     if ur_code r = 250 then
       ex_bind (ex_trace (\<lambda>t. trace_begin ''quit'' (t\<lparr>rt_accepted := True\<rparr>))) (\<lambda>_.
       ex_bind (ex_quit net) (quit_noted tx))
     else ex_return (relay_failure r)))))"

definition hand_over :: "relay_text \<Rightarrow> upstream_net \<Rightarrow> upstream_config \<Rightarrow> job \<Rightarrow> string \<Rightarrow> upstream_reply \<Rightarrow> relay_outcome exchange" where
  "hand_over tx net cfg j raw ehlo =
     ex_bind (upstream_command tx net (''MAIL FROM:<'' @ jb_sender j @ ''>'' @ mail_parameters ehlo raw @ CRLF) ''mail_from'') (\<lambda>r.
     if ur_code r \<noteq> 250 then ex_return (relay_failure r)
     else
      ex_bind (upstream_command tx net (''RCPT TO:<'' @ jb_destination j @ ''>'' @ CRLF) ''rcpt_to'') (\<lambda>r1.
      ex_bind (case (if unknown_recipient r1 then recipient_fallback cfg j else None) of
          None \<Rightarrow> ex_return r1
        | Some target \<Rightarrow>
            ex_bind (ex_trace (trace_detail tx
              ''Unknown recipient (5.1.1); trying the configured same-domain fallback mailbox'')) (\<lambda>_.
            upstream_command tx net (''RCPT TO:<'' @ target @ ''>'' @ CRLF) ''rcpt_fallback'')) (\<lambda>r2.
      if ur_code r2 \<noteq> 250 \<and> ur_code r2 \<noteq> 251 then ex_return (relay_failure r2)
      else
       ex_bind (upstream_command tx net (''DATA'' @ CRLF) ''data'') (\<lambda>r3.
       if ur_code r3 \<noteq> 354 then ex_return (relay_failure r3) else transfer_data tx net raw))))"

definition check_extensions :: "relay_text \<Rightarrow> upstream_net \<Rightarrow> upstream_config \<Rightarrow> job \<Rightarrow> string \<Rightarrow> upstream_reply \<Rightarrow> relay_outcome exchange" where
  "check_extensions tx net cfg j raw ehlo =
     (if \<not> list_all is_ascii_char raw \<and> \<not> has_extension ''8BITMIME'' ehlo then
        ex_bind (ex_trace (trace_detail tx ''Upstream does not support 8BITMIME'')) (\<lambda>_.
        ex_return (Permanent ''556 5.6.3 Upstream does not support 8BITMIME''))
      else if is_some_and (size_limit ehlo) (\<lambda>n. 0 < n \<and> n < length raw) then
        ex_bind (ex_trace (trace_detail tx ''Message exceeds upstream SIZE limit'')) (\<lambda>_.
        ex_return (Permanent ''552 5.3.4 Upstream size limit''))
      else hand_over tx net cfg j raw ehlo)"

definition empty_buffer :: "unit exchange" where
  "empty_buffer s = (ensure (fst (us_io s) = []) ''upstream plaintext after STARTTLS'', s)"

definition secured :: "relay_text \<Rightarrow> upstream_net \<Rightarrow> upstream_config \<Rightarrow> string \<Rightarrow> job \<Rightarrow> string \<Rightarrow> relay_outcome exchange" where
  "secured tx net cfg host_name j raw =
     ex_bind (upstream_command tx net (''STARTTLS'' @ CRLF) ''starttls'') (\<lambda>r.
     if ur_code r \<noteq> 220 then ex_return (relay_failure r)
     else
      ex_bind (ex_trace (trace_begin ''tls'')) (\<lambda>_.
      ex_bind empty_buffer (\<lambda>_.
      ex_bind (ex_lift (un_tls net host_name)) (\<lambda>(parameters, stream).
      ex_bind (ex_trace (trace_detail tx (''Verified TLS; '' @ parameters))) (\<lambda>_.
      ex_bind (open_connection stream True) (\<lambda>_.
      ex_bind (upstream_command tx net (''EHLO '' @ uc_hostname cfg @ CRLF) ''ehlo_tls'') (\<lambda>ehlo.
      if ur_code ehlo \<noteq> 250 then ex_return (relay_failure ehlo) else check_extensions tx net cfg j raw ehlo)))))))"

definition upstream_session :: "relay_text \<Rightarrow> upstream_net \<Rightarrow> upstream_config \<Rightarrow> string \<Rightarrow> bool \<Rightarrow> job \<Rightarrow> string \<Rightarrow> relay_outcome exchange" where
  "upstream_session tx net cfg host_name loopback j raw =
     ex_bind (ex_trace (trace_begin ''greeting'')) (\<lambda>_.
     ex_bind (read_response tx) (\<lambda>greeting.
     if ur_code greeting \<noteq> 220 then ex_return (relay_failure greeting)
     else
      ex_bind (upstream_command tx net (''EHLO '' @ uc_hostname cfg @ CRLF) ''ehlo'') (\<lambda>ehlo.
      if ur_code ehlo \<noteq> 250 then ex_return (relay_failure ehlo)
      else if has_extension ''STARTTLS'' ehlo then secured tx net cfg host_name j raw
      else if uc_require_tls cfg \<or> \<not> loopback then
        ex_bind (ex_trace (\<lambda>t. trace_detail tx ''Verified TLS required but unavailable: upstream did not advertise STARTTLS''
          (trace_begin ''tls'' t))) (\<lambda>_.
        ex_return (Temporary ''Verified TLS required but unavailable''))
      else check_extensions tx net cfg j raw ehlo)))"

definition join_commas :: "string list \<Rightarrow> string" where
  "join_commas ls = concat (case ls of [] \<Rightarrow> [] | l # rest \<Rightarrow> l # map (\<lambda>x. '', '' @ x) rest)"

definition deliver_host :: "relay_text \<Rightarrow> upstream_net \<Rightarrow> upstream_config \<Rightarrow> job \<Rightarrow> string \<Rightarrow> string \<Rightarrow> relay_outcome exchange" where
  "deliver_host tx net cfg j raw route =
     ex_bind (ex_trace (trace_begin ''dns'')) (\<lambda>_.
     ex_bind (ex_lift (case endpoint route (uc_port cfg) of None \<Rightarrow> Inl ''invalid upstream endpoint'' | Some e \<Rightarrow> Inr e)) (\<lambda>(host_name, port).
     ex_bind (ex_lift (un_lookup net (case split_once (CHR '':'') route of None \<Rightarrow> route | Some (name, _) \<Rightarrow> name) port)) (\<lambda>found.
     let ips = take 8 found in
     ex_bind (ex_trace (trace_detail tx (''Resolved addresses: '' @ join_commas (map (\<lambda>ip. un_show_socket net ip port) ips)))) (\<lambda>_.
     ex_bind (connect_first tx net cfg port ips) (\<lambda>c.
     case c of
       None \<Rightarrow> ex_return (Temporary ''Upstream connection unavailable'')
     | Some (stream, loopback) \<Rightarrow>
         ex_bind (open_connection stream False) (\<lambda>_. upstream_session tx net cfg host_name loopback j raw))))))"

section \<open>The routes of a delivery\<close>

definition outcome_after_attempt :: "relay_text \<Rightarrow> upstream_net \<Rightarrow> relay_outcome result \<Rightarrow> relay_trace \<Rightarrow> relay_outcome \<times> relay_trace" where
  "outcome_after_attempt tx net r t =
     (case r of
        Inr outcome \<Rightarrow> (outcome, t)
      | Inl e \<Rightarrow>
         (let phase = (case rt_active t of Some ev \<Rightarrow> re_phase ev | None \<Rightarrow> ''dns'');
              reason = ''Upstream '' @ phase @ (if un_elapsed net e then '' attempt timed out: '' else '' failed: '') @ e;
              t1 = trace_detail tx reason t
          in if rt_accepted t1 then (Delivered, t1)
             else (case tx_clean tx reason of (safe, shorter) \<Rightarrow> (Temporary safe, mark_cut shorter t1))))"

fun clean_outcome :: "relay_text \<Rightarrow> relay_outcome \<Rightarrow> relay_trace \<Rightarrow> relay_outcome \<times> relay_trace" where
  "clean_outcome tx Delivered t = (Delivered, t)"
| "clean_outcome tx (Temporary reason) t = (case tx_clean tx reason of (safe, shorter) \<Rightarrow> (Temporary safe, mark_cut shorter t))"
| "clean_outcome tx (Permanent reason) t = (case tx_clean tx reason of (safe, shorter) \<Rightarrow> (Permanent safe, mark_cut shorter t))"

definition new_upstream :: "relay_text \<Rightarrow> string \<Rightarrow> upstream" where
  "new_upstream tx route = \<lparr>us_io = ([], []), us_encrypted = False, us_sent = [], us_heard = [], us_trace = trace_new tx route\<rparr>"

definition attempt_route ::
    "relay_text \<Rightarrow> upstream_net \<Rightarrow> upstream_config \<Rightarrow> job \<Rightarrow> string \<Rightarrow> string \<Rightarrow> relay_outcome \<times> attempt \<times> upstream" where
  "attempt_route tx net cfg j raw route =
     (case deliver_host tx net cfg j raw route (new_upstream tx route) of (r, s) \<Rightarrow>
       (case outcome_after_attempt tx net r (us_trace s) of (o1, t1) \<Rightarrow>
         (case clean_outcome tx o1 t1 of (o2, t2) \<Rightarrow> (o2, trace_finish tx o2 t2, s))))"

fun is_temporary :: "relay_outcome \<Rightarrow> bool" where
  "is_temporary (Temporary _) = True"
| "is_temporary _ = False"

fun deliver_routes ::
    "relay_text \<Rightarrow> (nat \<Rightarrow> upstream_net) \<Rightarrow> upstream_config \<Rightarrow> job \<Rightarrow> string \<Rightarrow> string list \<Rightarrow> relay_outcome \<Rightarrow> attempt list
      \<Rightarrow> relay_outcome \<times> attempt list" where
  "deliver_routes tx net cfg j raw [] last_outcome attempts = (last_outcome, attempts)"
| "deliver_routes tx net cfg j raw (route # routes) last_outcome attempts =
     (case attempt_route tx (net (length attempts)) cfg j raw route of (o1, a, _) \<Rightarrow>
        if is_temporary o1 then deliver_routes tx net cfg j raw routes o1 (attempts @ [a])
        else (o1, attempts @ [a]))"

definition deliver_traced ::
    "relay_text \<Rightarrow> (nat \<Rightarrow> upstream_net) \<Rightarrow> upstream_config \<Rightarrow> job \<Rightarrow> string \<Rightarrow> relay_outcome \<times> attempt list" where
  "deliver_traced tx net cfg j raw = deliver_routes tx net cfg j raw (jb_hosts j) (Temporary ''No upstream route'') []"

end
