(* ===== verification/NF_Session.thy ===== *)
theory NF_Session
  imports NF_Smtp
begin

text \<open>
  What an SMTP session guarantees: its envelope is authorized at every moment, a message is
  announced as queued exactly when the store holds it, encryption discards the plain text before
  it, paths are read as they were written, and deliverable mail is accepted under any buffering
  and any change of the queue between two commands.
\<close>

section \<open>Lemmas: replies and flows\<close>

fun flow_session :: "flow \<Rightarrow> session" where
  "flow_session (Go s) = s"
| "flow_session (Stop r s) = s"

lemma say_session [simp]: "flow_session (say a t s) = s\<lparr>se_out := se_out s @ [t]\<rparr>"
  by (simp add: say_def Let_def)

lemma say_and_stop_session [simp]: "flow_session (say_and_stop a t s) = s\<lparr>se_out := se_out s @ [t]\<rparr>"
  by (simp add: say_and_stop_def say_def Let_def)

lemma say_Go: "say a t s = Go s' \<longleftrightarrow> an_written a t \<and> s' = s\<lparr>se_out := se_out s @ [t]\<rparr>"
  by (auto simp: say_def Let_def)

lemma say_Stop: "say a t s = Stop r s' \<longleftrightarrow> \<not> an_written a t \<and> r = Inl ''SMTP reply not written'' \<and> s' = s\<lparr>se_out := se_out s @ [t]\<rparr>"
  by (auto simp: say_def Let_def)

lemmas say_flow = say_Go say_Stop

text \<open>A flow that changes the session in this way, whether it goes on or stops.\<close>

lemma flow_session_case:
  "flow_session (case f of Go s \<Rightarrow> Go (g s) | Stop r s \<Rightarrow> Stop r s) = (case f of Go s \<Rightarrow> g s | Stop r s \<Rightarrow> s)"
  by (cases f) simp_all

section \<open>The envelope of a session\<close>

definition authorized :: "smtp_config \<Rightarrow> recipient \<Rightarrow> bool" where
  "authorized cfg r \<longleftrightarrow> (\<exists>address. config_recipient (sc_domains cfg) address = Some r)"

definition session_ok :: "session_env \<Rightarrow> session \<Rightarrow> bool" where
  "session_ok env s \<longleftrightarrow> (se_from s = None \<longrightarrow> se_recipients s = [])
     \<and> (\<forall>sender. se_from s = Some sender \<longrightarrow> (sender = [] \<or> valid_address sender) \<and> se_helo s \<noteq> [])
     \<and> length (se_recipients s) \<le> sc_max_recipients (se_config s)
     \<and> distinct (map rc_address (se_recipients s)) \<and> (\<forall>r \<in> set (se_recipients s). authorized (se_config s) r)
     \<and> (se_from s \<noteq> None \<or> \<not> sv_managed env \<longrightarrow> se_engine s \<noteq> None)"

lemma session_ok_frame [simp]:
  "session_ok env (s\<lparr>se_out := out\<rparr>) = session_ok env s" "session_ok env (s\<lparr>se_io := io\<rparr>) = session_ok env s"
  "session_ok env (s\<lparr>se_errors := n\<rparr>) = session_ok env s" "session_ok env (s\<lparr>se_reports := rs\<rparr>) = session_ok env s"
  "session_ok env (s\<lparr>se_reputation := rep, se_charged := c, se_budget := b\<rparr>) = session_ok env s"
  by (simp_all add: session_ok_def)

lemma session_ok_reset: "session_ok env s \<Longrightarrow> session_ok env (reset_envelope s)"
  by (simp add: session_ok_def reset_envelope_def)

lemma parse_path_address:
  assumes "parse_path arg ''FROM:'' allow_empty = Inr (address, options)"
  shows "(allow_empty \<and> address = []) \<or> valid_address address"
  using assms
  by (auto simp: parse_path_def Let_def and_then_Inr_iff ensure_def eq_ignore_ascii_case_def to_ascii_lowercase_def
      ascii_lower_def byte_def split: option.splits if_splits)

lemma greet_ok: "session_ok env s \<Longrightarrow> session_ok env (flow_session (smtp_greet env a ehlo arg s))"
  by (simp add: smtp_greet_def Let_def reset_envelope_def session_ok_def)

lemma starttls_ok: "session_ok env s \<Longrightarrow> session_ok env (flow_session (smtp_starttls env a arg s))"
  by (auto simp: smtp_starttls_def reset_envelope_def session_ok_def say_flow split: flow.split sum.split)

lemma mail_command_ok: "session_ok env s \<Longrightarrow> se_engine s \<noteq> None \<Longrightarrow> session_ok env (flow_session (smtp_mail a arg s))"
  by (auto simp: smtp_mail_def Let_def session_ok_def split: sum.split option.split dest: parse_path_address)

lemma add_recipient_ok:
  assumes "session_ok env s" "se_from s \<noteq> None" "authorized (se_config s) r" "length (se_recipients s) < sc_max_recipients (se_config s)"
  shows "session_ok env (flow_session (add_recipient a r s))"
proof (cases "verification_reply (an_verification a) = None \<and> \<not> list_ex (\<lambda>x. rc_address x = rc_address r) (se_recipients s)")
  case True
  then have "rc_address r \<notin> rc_address ` set (se_recipients s)" by (auto simp: list_ex_iff)
  with True assms show ?thesis by (simp add: add_recipient_def session_ok_def)
next
  case False
  with assms(1) show ?thesis by (auto simp: add_recipient_def split: option.split)
qed

lemma admit_frame:
  assumes "admit_recipient env a st sender r s = (d, s1)"
  obtains rep b where "s1 = s\<lparr>se_reputation := Some rep, se_charged := True, se_budget := b\<rparr>"
  using assms by (auto simp: admit_recipient_def Let_def)

lemma keep_report_frame: "\<exists>rs. keep_report d s = s\<lparr>se_reports := rs\<rparr>"
proof (cases "list_ex (\<lambda>r. same_report r d) (se_reports s)")
  case True
  then have "keep_report d s = s\<lparr>se_reports := se_reports s\<rparr>" by (simp add: keep_report_def)
  then show ?thesis by blast
qed (auto simp: keep_report_def)

lemma known_recipient_ok:
  assumes "session_ok env s" "se_from s \<noteq> None" "authorized (se_config s) r" "length (se_recipients s) < sc_max_recipients (se_config s)"
  shows "session_ok env (flow_session (known_recipient env a sender r s))"
proof (cases "option_filter ad_enabled (sc_admission (se_config s))")
  case None
  with assms add_recipient_ok show ?thesis by (simp add: known_recipient_def)
next
  case (Some st)
  obtain d s1 where ad: "admit_recipient env a st sender r s = (d, s1)" by fastforce
  then obtain rep b where s1: "s1 = s\<lparr>se_reputation := Some rep, se_charged := True, se_budget := b\<rparr>" by (rule admit_frame)
  obtain rs where rs: "keep_report d s1 = s1\<lparr>se_reports := rs\<rparr>" using keep_report_frame by blast
  have ok1: "session_ok env s1" using assms(1) s1 by simp
  have kept: "session_ok env (flow_session (add_recipient a r (keep_report d s1)))"
    unfolding rs by (rule add_recipient_ok) (use assms(2-4) ok1 in \<open>simp_all add: s1\<close>)
  show ?thesis unfolding known_recipient_def Some option.case ad prod.case
    using assms(1) kept ok1 session_ok_reset [of env "s1\<lparr>se_out := se_out s1 @ [t]\<rparr>" for t]
    by (auto simp: say_flow split: option.split flow.split)
qed

lemma rcpt_ok: "session_ok env s \<Longrightarrow> session_ok env (flow_session (smtp_rcpt env a arg s))"
  by (auto simp: smtp_rcpt_def authorized_def split: option.split sum.split intro!: known_recipient_ok)

lemma accept_message_session: "\<exists>t. flow_session (fst (accept_message a e raw sender rs s q)) = s\<lparr>se_out := se_out s @ [t]\<rparr>"
  by (auto simp: accept_message_def split: sum.split prod.split)

lemma received_message_ok:
  assumes "session_ok env s"
  shows "session_ok env (flow_session (fst (received_message a raw sender s q)))"
proof (cases "se_engine s")
  case None
  then show ?thesis using assms session_ok_reset [of env s] session_ok_reset [of env "s\<lparr>se_out := out\<rparr>" for out]
    by (auto simp: received_message_def say_flow split: sum.split flow.split)
next
  case (Some e)
  obtain t where "flow_session (fst (accept_message a e raw sender (se_recipients s) (reset_envelope s) q))
      = (reset_envelope s)\<lparr>se_out := se_out (reset_envelope s) @ [t]\<rparr>"
    using accept_message_session by blast
  then show ?thesis using Some assms session_ok_reset [of env s] session_ok_reset [of env "s\<lparr>se_out := out\<rparr>" for out]
    by (auto simp: received_message_def say_flow split: sum.split flow.split)
qed

lemma data_ok:
  assumes "session_ok env s"
  shows "session_ok env (flow_session (fst (smtp_data a arg s q)))"
proof -
  have r: "session_ok env (flow_session (case say a t s of Go s1 \<Rightarrow> Go (reset_envelope s1) | Stop r s1 \<Rightarrow> Stop r s1))" for t
    using assms session_ok_reset [of env "s\<lparr>se_out := se_out s @ [t]\<rparr>"] by (auto simp: say_flow split: flow.split)
  have "session_ok env (flow_session (fst (case say a t s of Stop r s1 \<Rightarrow> (Stop r s1, q)
      | Go s1 \<Rightarrow> (case receive_data st n [] (se_io s1) of
          Data_Error e \<Rightarrow> (Stop (Inl e) s1, q) | Data_Disconnected \<Rightarrow> (Stop (Inr ()) s1, q)
        | Data_Refused text \<Rightarrow> (say_and_stop a text s1, q)
        | Data raw io \<Rightarrow> received_message a raw sender (s1\<lparr>se_io := io\<rparr>) q))))" for t st n sender
    using assms received_message_ok [of env "s\<lparr>se_out := se_out s @ [t], se_io := io\<rparr>" for io]
    by (auto simp: say_flow split: flow.split data_reception.split)
  with assms r show ?thesis
    by (auto simp: smtp_data_def Let_def split: option.split list.split)
qed

lemma dispatch_ok:
  assumes "session_ok env s" "verb = ''MAIL'' \<Longrightarrow> se_engine s \<noteq> None"
  shows "session_ok env (flow_session (fst (dispatch env a verb arg s q)))"
  using assms greet_ok [OF assms(1)] starttls_ok [OF assms(1)] mail_command_ok [OF assms(1)] rcpt_ok [OF assms(1)]
    data_ok [OF assms(1)] session_ok_reset [OF assms(1)]
  by (auto simp: dispatch_def unrecognized_def say_flow Let_def split: flow.split)

lemma byte_upper: "byte (ascii_upper c) = (if 97 \<le> byte c \<and> byte c \<le> 122 then byte c - 32 else byte c)"
  by (auto simp: ascii_upper_def byte_def)

lemma upper_lower: "ascii_upper c = ascii_upper d \<longleftrightarrow> ascii_lower c = ascii_lower d"
  unfolding byte_eq_iff [symmetric] byte_upper byte_ascii_lower by auto

lemma eq_ignore_case_upper: "eq_ignore_ascii_case a b \<longleftrightarrow> to_ascii_uppercase a = to_ascii_uppercase b"
  unfolding eq_ignore_ascii_case_def to_ascii_lowercase_def to_ascii_uppercase_def
  by (auto simp: list_eq_iff_nth_eq upper_lower)

lemma is_MAIL: "eq_ignore_ascii_case verb ''MAIL'' \<longleftrightarrow> to_ascii_uppercase verb = ''MAIL''"
  by (simp add: eq_ignore_case_upper) (simp add: to_ascii_uppercase_def ascii_upper_def byte_def)

lemma take_snapshot_ok: "session_ok env s \<Longrightarrow> se_from s = None \<Longrightarrow> session_ok env (take_snapshot n s)"
  by (simp add: session_ok_def take_snapshot_def)

lemma run_command_ok:
  assumes "session_ok env s"
  shows "session_ok env (flow_session (fst (run_command env a text s q)))"
proof -
  obtain verb arg where va: "unwrap_or (split_once (CHR '' '') text) (text, []) = (verb, arg)" by fastforce
  let ?s = "if se_from s = None \<and> eq_ignore_ascii_case verb ''MAIL'' \<and> sv_managed env then take_snapshot (an_snapshot a) s else s"
  have ok: "session_ok env ?s" using assms take_snapshot_ok by simp
  have "session_ok env (flow_session (fst (dispatch env a (to_ascii_uppercase verb) arg ?s q)))"
  proof (rule dispatch_ok [OF ok])
    assume "to_ascii_uppercase verb = ''MAIL''"
    then have "eq_ignore_ascii_case verb ''MAIL''" by (simp add: is_MAIL)
    then show "se_engine ?s \<noteq> None" using assms by (auto simp: session_ok_def take_snapshot_def)
  qed
  with assms va show ?thesis by (simp add: run_command_def Let_def)
qed

lemma turn_ok:
  assumes "session_ok env s"
  shows "session_ok env (flow_session (fst (smtp_turn env a s q)))"
proof -
  let ?s = "if sv_managed env \<and> se_from s = None then s\<lparr>se_engine := None, se_epoch := None\<rparr> else s"
  have ok: "session_ok env ?s" using assms by (simp add: session_ok_def)
  then have "session_ok env (flow_session (fst (run_command env a t (?s\<lparr>se_io := io\<rparr>) q)))" for t io
    by (intro run_command_ok) simp
  with ok show ?thesis
    by (simp only: smtp_turn_def Let_def) (auto simp: say_flow split: sum.split option.split prod.split flow.split)
qed

section \<open>What a command does to the queue\<close>

definition announces :: "string \<Rightarrow> bool" where
  "announces t \<longleftrightarrow> starts_with ''250 2.0.0 Queued as '' t"

definition quiet :: "session \<Rightarrow> session \<Rightarrow> bool" where
  "quiet s s' \<longleftrightarrow> (\<exists>extra. se_out s' = se_out s @ extra \<and> \<not> list_ex announces extra)"

lemma quiet_out: "se_out s' = se_out s \<Longrightarrow> quiet s s'"
  by (simp add: quiet_def)

lemma quiet_said: "se_out s' = se_out s @ [t] \<Longrightarrow> \<not> announces t \<Longrightarrow> quiet s s'"
  by (simp add: quiet_def)

lemma quiet_trans: "quiet s s1 \<Longrightarrow> quiet s1 s2 \<Longrightarrow> quiet s s2"
  by (force simp: quiet_def)

lemma announces_literal [simp]: "announces (c # t) = starts_with ''250 2.0.0 Queued as '' (c # t)"
  by (simp add: announces_def)

lemma mail_option_quiet: "mail_option ext n seen u = Some t \<Longrightarrow> \<not> announces t"
  by (auto simp: mail_option_def starts_with_def split: if_splits option.splits)

lemma mail_options_quiet:
  "mail_options ext n seen bad opts = Some t \<Longrightarrow> (\<And>b. bad = Some b \<Longrightarrow> \<not> announces b) \<Longrightarrow> \<not> announces t"
proof (induction opts arbitrary: seen bad)
  case (Cons opt opts)
  let ?u = "to_ascii_uppercase opt"
  from Cons.prems(1) have "mail_options ext n (hd (split_char (CHR ''='') ?u) # seen)
      (option_or (mail_option ext n seen ?u) bad) opts = Some t" by (simp add: Let_def)
  then show ?case
  proof (rule Cons.IH)
    fix b assume "option_or (mail_option ext n seen ?u) bad = Some b"
    then show "\<not> announces b" using mail_option_quiet Cons.prems(2) by (cases "mail_option ext n seen ?u") auto
  qed
qed simp

lemma valid_domain_chars: "valid_domain d \<Longrightarrow> c \<in> set d \<Longrightarrow> is_ascii_alphanumeric c \<or> c = CHR ''-'' \<or> c = CHR ''.''"
  using set_split_char [of d "CHR ''.''"] by (fastforce simp: valid_domain_def valid_label_def list_all_iff)

lemma greeting_quiet:
  assumes "valid_domain h"
  shows "\<not> announces (''250 '' @ h @ CRLF)"
proof
  assume "announces (''250 '' @ h @ CRLF)"
  then obtain z where "h @ CRLF = ''2.0.0 Queued as '' @ z"
    by (auto simp: starts_with_iff_prefix prefix_def)
  then have "CHR '' '' \<in> set (h @ CRLF)" by simp
  then have "CHR '' '' \<in> set h" by simp
  from valid_domain_chars [OF assms this] show False by (simp add: is_ascii_alphanumeric_def byte_def)
qed

lemma greet_quiet: "valid_domain (sc_hostname (se_config s)) \<Longrightarrow> quiet s (flow_session (smtp_greet env a ehlo arg s))"
  using greeting_quiet [of "sc_hostname (se_config s)"]
  by (auto simp: smtp_greet_def Let_def quiet_def reset_envelope_def starts_with_def)

lemma starttls_quiet: "quiet s (flow_session (smtp_starttls env a arg s))"
  by (auto simp: smtp_starttls_def quiet_def reset_envelope_def starts_with_def say_flow split: flow.split sum.split)

lemma mail_quiet: "quiet s (flow_session (smtp_mail a arg s))"
  by (auto simp: smtp_mail_def Let_def quiet_def starts_with_def split: sum.split option.split dest!: mail_options_quiet)

lemma add_recipient_quiet: "quiet s (flow_session (add_recipient a r s))"
  by (cases "an_verification a") (auto simp: add_recipient_def quiet_def verification_reply_def starts_with_def)

lemma known_recipient_quiet: "quiet s (flow_session (known_recipient env a sender r s))"
proof (cases "option_filter ad_enabled (sc_admission (se_config s))")
  case None
  with add_recipient_quiet show ?thesis by (auto simp: known_recipient_def quiet_def starts_with_def)
next
  case (Some st)
  obtain d s1 where ad: "admit_recipient env a st sender r s = (d, s1)" by fastforce
  then obtain rep b where s1: "s1 = s\<lparr>se_reputation := Some rep, se_charged := True, se_budget := b\<rparr>" by (rule admit_frame)
  obtain rs where rs: "keep_report d s1 = s1\<lparr>se_reports := rs\<rparr>" using keep_report_frame by blast
  have "se_out (keep_report d s1) = se_out s" unfolding rs by (simp add: s1)
  then have "quiet s (flow_session (add_recipient a r (keep_report d s1)))"
    using add_recipient_quiet [of "keep_report d s1" a r] by (simp add: quiet_def)
  then show ?thesis unfolding known_recipient_def Some option.case ad prod.case
    by (auto simp: say_flow quiet_def s1 reset_envelope_def starts_with_def smtp_reply_def GREYLIST_REPLY_def
        split: option.split flow.split if_splits)
qed

lemma rcpt_quiet: "quiet s (flow_session (smtp_rcpt env a arg s))"
  using known_recipient_quiet by (auto simp: smtp_rcpt_def quiet_def starts_with_def split: option.split sum.split)


lemma quiet_case_reset:
  "\<not> announces t \<Longrightarrow> quiet s (flow_session (case say a t s of Go s1 \<Rightarrow> Go (reset_envelope s1) | Stop r s1 \<Rightarrow> Stop r s1))"
  by (auto simp: say_flow quiet_def reset_envelope_def split: flow.split)

lemma receive_data_cases:
  obtains (ended) "receive_data stored n body io = Data_Disconnected"
  | (broken) e where "receive_data stored n body io = Data_Error e"
  | (refused) t where "receive_data stored n body io = Data_Refused t" "\<not> announces t"
  | (complete) io' where "receive_data stored n body io = Data body io'" "receive n body io = Received body io'"
  | (more) l io' where "receive_data stored n body io = receive_data stored n (body @ l) io'"
      "receive n body io = receive n (body @ l) io'" "length (body @ l) \<le> n" "stream_size (feed io') < stream_size (feed io)"
proof (cases "line 1001 io")
  case (Inl e)
  then show thesis by (intro broken) (simp add: receive_data.simps)
next
  case (Inr r)
  obtain l io' where r: "r = (l, io')" by (cases r)
  show thesis
  proof (cases l)
    case None
    then show thesis using Inr r by (intro ended) (simp add: receive_data.simps)
  next
    case (Some x)
    define y where "y = (if starts_with ''.'' x then tl x else x)"
    have lx: "line 1001 io = Inr (Some x, io')" using Inr r Some by simp
    have size: "stream_size (feed io') < stream_size (feed io)" using lx by (auto simp: line_def dest: read_line_consumes)
    have step: "receive_data stored n body io = (if x = ''.'' @ CRLF then Data body io'
        else if length y > 1000 then Data_Error ''DATA line too long''
        else if length body + length y > n then Data_Refused (''552 5.3.4 Message too large'' @ CRLF)
        else if \<not> stored (length body + length y) then Data_Refused (''452 4.3.1 Storage failure'' @ CRLF)
        else receive_data stored n (body @ y) io')"
      by (subst receive_data.simps) (simp only: lx sum.case prod.case option.case Let_def y_def)
    have plain: "receive n body io = (if x = ''.'' @ CRLF then Received body io'
        else if length y > 1000 then Reception_Error ''DATA line too long''
        else if length body + length y > n then TooLarge else receive n (body @ y) io')"
      by (subst receive.simps) (simp only: lx sum.case prod.case option.case Let_def y_def)
    consider "x = ''.'' @ CRLF" | "x \<noteq> ''.'' @ CRLF" "length y > 1000" | "x \<noteq> ''.'' @ CRLF" "\<not> length y > 1000" "length body + length y > n"
      | "x \<noteq> ''.'' @ CRLF" "\<not> length y > 1000" "\<not> length body + length y > n" "\<not> stored (length body + length y)"
      | "x \<noteq> ''.'' @ CRLF" "\<not> length y > 1000" "\<not> length body + length y > n" "stored (length body + length y)" by blast
    then show thesis
    proof cases
      case 1
      show thesis by (rule complete [of io']) (use 1 step plain in simp_all)
    next
      case 2
      show thesis by (rule broken [of "''DATA line too long''"]) (use 2 step in simp)
    next
      case 3
      show thesis by (rule refused [of "''552 5.3.4 Message too large'' @ CRLF"]) (use 3 step in \<open>simp_all add: starts_with_def\<close>)
    next
      case 4
      show thesis by (rule refused [of "''452 4.3.1 Storage failure'' @ CRLF"]) (use 4 step in \<open>simp_all add: starts_with_def\<close>)
    next
      case 5
      show thesis by (rule more [of y io']) (use 5 step plain size in simp_all)
    qed
  qed
qed

lemma receive_data_Data:
  "receive_data stored n body io = Data raw io' \<Longrightarrow> length body \<le> n
    \<Longrightarrow> receive n body io = Received raw io' \<and> length raw \<le> n"
proof (induction "stream_size (feed io)" arbitrary: body io rule: less_induct)
  case less
  show ?case
  proof (cases stored n body io rule: receive_data_cases)
    case (more l io1)
    with less show ?thesis by simp
  qed (use less.prems in auto)
qed

lemma receive_data_refused: "receive_data stored n body io = Data_Refused t \<Longrightarrow> \<not> announces t"
proof (induction "stream_size (feed io)" arbitrary: body io rule: less_induct)
  case less
  show ?case
  proof (cases stored n body io rule: receive_data_cases)
    case (more l io1)
    with less show ?thesis by simp
  qed (use less.prems in auto)
qed

lemma accept_message_cases:
  assumes "accept_message a e raw sender rs s q = (f, q')"
  obtains (refused) t where "\<not> announces t" "flow_session f = s\<lparr>se_out := se_out s @ [t]\<rparr>" "q' = q"
  | (failed) vs er t where "\<not> announces t" "flow_session f = s\<lparr>se_out := se_out s @ [t]\<rparr>"
      "enqueue_variants_with_reserve (an_acceptance a) sender (processed_variants (an_rbl a) vs)
        (sc_minimum_free_bytes (se_config s)) q = (Inl er, q')"
  | (stored) vs where "flow_session f = s\<lparr>se_out := se_out s @ [queued_reply (an_id a)]\<rparr>"
      "e raw (se_helo s) sender (an_id a) rs (an_rbl a) (se_epoch s) = Inr vs"
      "enqueue_variants_with_reserve (an_acceptance a) sender (processed_variants (an_rbl a) vs)
        (sc_minimum_free_bytes (se_config s)) q = (Inr (), q')"
proof (cases "e raw (se_helo s) sender (an_id a) rs (an_rbl a) (se_epoch s)")
  case (Inl er)
  with assms show thesis by (intro refused) (auto simp: accept_message_def starts_with_def)
next
  case (Inr vs)
  show thesis
  proof (cases "list_ex (\<lambda>(_, t). is_some_and t report_defer) vs")
    case True
    with Inr assms show thesis by (intro refused) (auto simp: accept_message_def starts_with_def)
  next
    case False
    obtain r q1 where r: "enqueue_variants_with_reserve (an_acceptance a) sender (processed_variants (an_rbl a) vs)
        (sc_minimum_free_bytes (se_config s)) q = (r, q1)" by fastforce
    show thesis
    proof (cases r)
      case er: (Inl er)
      show thesis by (rule failed) (use assms Inr False r er in \<open>auto simp: accept_message_def starts_with_def\<close>)
    next
      case (Inr u)
      show thesis
        by (rule stored) (use assms \<open>e raw _ _ _ _ _ _ = Inr vs\<close> False r Inr in \<open>auto simp: accept_message_def\<close>)
    qed
  qed
qed

definition accepts :: "answers \<Rightarrow> session \<Rightarrow> queue \<Rightarrow> string \<Rightarrow> queue_variant list \<Rightarrow> queue \<Rightarrow> bool" where
  "accepts a s q raw vs q' \<longleftrightarrow> (\<exists>sender engine rs. se_from s = Some sender \<and> se_engine s = Some engine \<and> se_recipients s \<noteq> []
     \<and> engine raw (se_helo s) sender (an_id a) (se_recipients s) (an_rbl a) (se_epoch s) = Inr rs
     \<and> vs = processed_variants (an_rbl a) rs \<and> message_validate raw = Inr () \<and> length raw \<le> sc_max_message_bytes (se_config s)
     \<and> enqueue_variants_with_reserve (an_acceptance a) sender vs (sc_minimum_free_bytes (se_config s)) q = (Inr (), q'))"

text \<open>Either nothing is announced and the tables are unchanged, or the message is stored and announced.\<close>

definition stored_iff_announced :: "answers \<Rightarrow> session \<Rightarrow> queue \<Rightarrow> flow \<Rightarrow> queue \<Rightarrow> bool" where
  "stored_iff_announced a s q f q' \<longleftrightarrow>
     (quiet s (flow_session f) \<and> (q' = q \<or> (\<exists>sender vs mf e. enqueue_variants_with_reserve (an_acceptance a) sender vs mf q = (Inl e, q'))))
     \<or> (\<exists>raw vs extra. accepts a s q raw vs q' \<and> se_out (flow_session f) = se_out s @ extra @ [queued_reply (an_id a)]
          \<and> \<not> list_ex announces extra)"

lemma quiet_stored_iff: "quiet s (flow_session f) \<Longrightarrow> stored_iff_announced a s q f q"
  by (simp add: stored_iff_announced_def)

lemma received_message_stored:
  assumes "received_message a raw sender s q = (f, q')" "se_from s = Some sender" "se_recipients s \<noteq> []"
    "length raw \<le> sc_max_message_bytes (se_config s)"
  shows "stored_iff_announced a s q f q'"
proof (cases "an_flushed a \<and> an_read_back a \<and> message_validate raw = Inr () \<and> se_engine s \<noteq> None")
  case False
  then have "q' = q \<and> quiet s (flow_session f)" using assms(1)
    by (auto simp: received_message_def quiet_def say_flow reset_envelope_def starts_with_def
        split: if_splits sum.splits option.splits flow.splits)
  then show ?thesis using quiet_stored_iff by blast
next
  case True
  then obtain e where e: "se_engine s = Some e" by blast
  with True assms(1) have "accept_message a e raw sender (se_recipients s) (reset_envelope s) q = (f, q')"
    by (simp add: received_message_def)
  then show ?thesis
  proof (cases rule: accept_message_cases)
    case (refused t)
    then have "quiet s (flow_session f)" by (simp add: quiet_def reset_envelope_def)
    then show ?thesis using quiet_stored_iff refused(3) by blast
  next
    case (failed vs er t)
    then show ?thesis unfolding stored_iff_announced_def by (auto simp: quiet_def reset_envelope_def)
  next
    case (stored vs)
    have "accepts a s q raw (processed_variants (an_rbl a) vs) q'"
      unfolding accepts_def using stored(2,3) e True assms(2-4) by (auto simp: reset_envelope_def)
    moreover have "se_out (flow_session f) = se_out s @ [] @ [queued_reply (an_id a)]" using stored(1) by (simp add: reset_envelope_def)
    ultimately show ?thesis unfolding stored_iff_announced_def
      by (intro disjI2 exI [of _ raw] exI [of _ "processed_variants (an_rbl a) vs"] exI [of _ "[]"]) simp
  qed
qed

lemma stored_iff_later:
  assumes "stored_iff_announced a s1 q f q'" "se_out s1 = se_out s @ pre" "\<not> list_ex announces pre"
    "\<And>raw vs. accepts a s1 q raw vs q' \<Longrightarrow> accepts a s q raw vs q'"
  shows "stored_iff_announced a s q f q'"
proof -
  from assms(1) consider (unsaid) "quiet s1 (flow_session f)"
      "q' = q \<or> (\<exists>sender vs mf e. enqueue_variants_with_reserve (an_acceptance a) sender vs mf q = (Inl e, q'))"
    | (said) raw vs extra where "accepts a s1 q raw vs q'" "\<not> list_ex announces extra"
      "se_out (flow_session f) = se_out s1 @ extra @ [queued_reply (an_id a)]"
    unfolding stored_iff_announced_def by blast
  then show ?thesis
  proof cases
    case unsaid
    have "quiet s s1" using assms(2,3) by (simp add: quiet_def)
    from quiet_trans [OF this unsaid(1)] unsaid(2) show ?thesis unfolding stored_iff_announced_def by blast
  next
    case said
    then have "accepts a s q raw vs q' \<and> se_out (flow_session f) = se_out s @ (pre @ extra) @ [queued_reply (an_id a)]
        \<and> \<not> list_ex announces (pre @ extra)"
      using assms(2-4) by simp
    then show ?thesis unfolding stored_iff_announced_def by blast
  qed
qed

lemma data_stored:
  assumes "smtp_data a arg s q = (f, q')"
  shows "stored_iff_announced a s q f q'"
proof (cases "arg = [] \<and> (\<exists>sender. se_from s = Some sender) \<and> se_recipients s \<noteq> [] \<and> rbl_smtp_reply (an_rbl a) = None
    \<and> an_permit a \<and> an_opened a \<and> an_written a GO_AHEAD")
  case False
  have "\<not> announces t" if "rbl_smtp_reply (an_rbl a) = Some t" for t
    using that by (auto simp: rbl_smtp_reply_def starts_with_def split: rbl_action.splits)
  with False assms have "q' = q \<and> quiet s (flow_session f)"
    by (auto simp: smtp_data_def Let_def say_flow quiet_def reset_envelope_def starts_with_def GO_AHEAD_def
        split: if_splits option.splits list.splits flow.splits)
  then show ?thesis using quiet_stored_iff by blast
next
  case True
  then obtain sender where sender: "se_from s = Some sender" by blast
  let ?s = "s\<lparr>se_out := se_out s @ [GO_AHEAD]\<rparr>"
  have pre: "\<not> list_ex announces [GO_AHEAD]" by (simp add: GO_AHEAD_def starts_with_def)
  obtain r rs where rs: "se_recipients s = r # rs" using True by (cases "se_recipients s") auto
  have eq: "smtp_data a arg s q = (case receive_data (an_stored a) (sc_max_message_bytes (se_config s)) [] (se_io s) of
      Data_Error e \<Rightarrow> (Stop (Inl e) ?s, q) | Data_Disconnected \<Rightarrow> (Stop (Inr ()) ?s, q)
    | Data_Refused t \<Rightarrow> (say_and_stop a t ?s, q) | Data raw io \<Rightarrow> received_message a raw sender (?s\<lparr>se_io := io\<rparr>) q)"
    using True sender rs by (simp add: smtp_data_def say_def Let_def)
  show ?thesis
  proof (cases "receive_data (an_stored a) (sc_max_message_bytes (se_config s)) [] (se_io s)")
    case (Data raw io)
    have "stored_iff_announced a (?s\<lparr>se_io := io\<rparr>) q f q'"
      by (rule received_message_stored [of _ raw sender])
        (use assms eq Data sender True receive_data_Data [OF Data] in simp_all)
    then show ?thesis by (rule stored_iff_later [OF _ _ pre]) (simp_all add: accepts_def)
  next
    case (Data_Refused t)
    with assms eq pre receive_data_refused [OF Data_Refused] show ?thesis
      by (auto intro!: quiet_stored_iff simp: quiet_def)
  qed (use assms eq pre in \<open>auto intro!: quiet_stored_iff simp: quiet_def\<close>)
qed

lemma dispatch_stored:
  assumes "dispatch env a verb arg s q = (f, q')" "valid_domain (sc_hostname (se_config s))"
  shows "stored_iff_announced a s q f q'"
proof (cases "verb = ''DATA''")
  case True
  with assms data_stored show ?thesis by (simp add: dispatch_def)
next
  case False
  have "q' = q" using assms(1) False by (auto simp: dispatch_def split: if_splits)
  moreover have "quiet s (flow_session f)"
    using assms(1) False greet_quiet [OF assms(2)] starttls_quiet mail_quiet rcpt_quiet
    by (auto simp: dispatch_def unrecognized_def say_flow quiet_def reset_envelope_def starts_with_def Let_def
        split: if_splits flow.splits)
  ultimately show ?thesis using quiet_stored_iff by blast
qed

lemma accepts_frame:
  "accepts a (s\<lparr>se_io := io\<rparr>) q raw vs q' = accepts a s q raw vs q'"
  by (simp add: accepts_def)

lemma accepts_envelope: "accepts a s q raw vs q' \<Longrightarrow> se_from s \<noteq> None"
  by (auto simp: accepts_def)

lemma run_command_stored:
  assumes "run_command env a t s q = (f, q')" "valid_domain (sc_hostname (se_config s))"
  shows "stored_iff_announced a s q f q'"
proof -
  obtain verb arg where va: "unwrap_or (split_once (CHR '' '') t) (t, []) = (verb, arg)" by fastforce
  let ?m = "eq_ignore_ascii_case verb ''MAIL''" and ?v = "to_ascii_uppercase verb"
  show ?thesis
  proof (cases ?m)
    case True
    then have v: "?v = ''MAIL''" by (simp add: is_MAIL)
    have mail: "quiet s (flow_session (smtp_mail a arg s'))" if "se_out s' = se_out s" for s'
      using mail_quiet [of s' a arg] that by (simp add: quiet_def)
    have "q' = q \<and> quiet s (flow_session f)"
      using assms(1) True va v mail
      by (auto simp: run_command_def Let_def dispatch_def take_snapshot_def starts_with_def intro: quiet_said split: if_splits)
    then show ?thesis using quiet_stored_iff by blast
  next
    case False
    with assms va dispatch_stored [of env a ?v arg s q f q'] show ?thesis by (simp add: run_command_def)
  qed
qed

lemma turn_stored:
  assumes "smtp_turn env a s q = (f, q')" "valid_domain (sc_hostname (se_config s))"
  shows "stored_iff_announced a s q f q'"
proof (cases "\<exists>l io. line 512 (se_io s) = Inr (Some l, io) \<and> list_all is_ascii_char (take (length l - 2) l)")
  case True
  then obtain l io where l: "line 512 (se_io s) = Inr (Some l, io)" "list_all is_ascii_char (take (length l - 2) l)" by blast
  define s1 where "s1 = (if sv_managed env \<and> se_from s = None then s\<lparr>se_engine := None, se_epoch := None\<rparr> else s)\<lparr>se_io := io\<rparr>"
  have "run_command env a (take (length l - 2) l) s1 q = (f, q')" using assms(1) l by (auto simp: smtp_turn_def s1_def Let_def)
  then have "stored_iff_announced a s1 q f q'" by (rule run_command_stored) (use assms(2) in \<open>simp add: s1_def\<close>)
  then show ?thesis
  proof (rule stored_iff_later [where pre = "[]"])
    fix raw vs assume ac: "accepts a s1 q raw vs q'"
    then have "s1 = s\<lparr>se_io := io\<rparr>" using accepts_envelope [OF ac] by (auto simp: s1_def split: if_splits)
    with ac show "accepts a s q raw vs q'" by (simp add: accepts_frame)
  qed (simp_all add: s1_def)
next
  case False
  with assms(1) have "q' = q \<and> quiet s (flow_session f)"
    by (auto simp: smtp_turn_def Let_def say_flow quiet_def starts_with_def
        split: if_splits sum.splits option.splits prod.splits flow.splits)
  then show ?thesis using quiet_stored_iff by blast
qed

section \<open>Sessions of a running gateway\<close>

text \<open>
  The states of a connection between two commands, whatever the store and the services around
  it do in between.
\<close>

inductive session_run :: "session_env \<Rightarrow> session \<Rightarrow> bool" for env where
  connect: "say a banner (initial_session env cfg engine stream) = Go s \<Longrightarrow> session_run env s"
| turn: "session_run env s \<Longrightarrow> smtp_turn env a s q = (Go s', q') \<Longrightarrow> session_run env s'"

lemma session_run_ok: "session_run env s \<Longrightarrow> session_ok env s"
proof (induction rule: session_run.induct)
  case (connect a banner cfg engine stream s)
  then show ?case by (auto simp: say_Go initial_session_def session_ok_def)
next
  case (turn s a q s' q')
  with turn_ok [of env s a q] show ?case by simp
qed

text \<open>
  C17: the gateway is not an open relay. Between any two commands of a connection the recipients
  are addresses the configuration in force routes, each at most once and no more than the
  configured number; a transaction has a valid or empty sender and an earlier greeting, and
  without a transaction there are no recipients.
\<close>

theorem envelope_authorized:
  assumes "session_run env s"
  shows "(\<forall>r \<in> set (se_recipients s). \<exists>address. config_recipient (sc_domains (se_config s)) address = Some r)
    \<and> distinct (map rc_address (se_recipients s)) \<and> length (se_recipients s) \<le> sc_max_recipients (se_config s)
    \<and> (case se_from s of None \<Rightarrow> se_recipients s = []
        | Some sender \<Rightarrow> (sender = [] \<or> valid_address sender) \<and> se_helo s \<noteq> [] \<and> se_engine s \<noteq> None)"
  using session_run_ok [OF assms] by (auto simp: session_ok_def authorized_def split: option.split)

lemma accepted_by_mailer:
  assumes "reachable_mailer m" "ma_up m"
    "enqueue_variants_with_reserve env sender vs mf (ma_queue m) = (r, q')"
  shows "reachable_mailer (m\<lparr>ma_queue := q', ma_accepted := (if is_ok r then record_bodies vs (ma_accepted m) else ma_accepted m)\<rparr>)"
  using assms mail_step.accept [OF assms(2,3)] unfolding reachable_mailer_def by (meson rtranclp.rtrancl_into_rtrancl)

text \<open>The rows and the body of every variant of a stored batch.\<close>

definition batch_stored :: "queue_variant list \<Rightarrow> queue \<Rightarrow> bool" where
  "batch_stored vs q \<longleftrightarrow> (\<forall>v \<in> set vs. q_spool q (qv_id v) = Some (to_vec (qv_raw v))
     \<and> (\<exists>m \<in> set (q_messages q). mr_id m = qv_id v \<and> mr_raw_present m)
     \<and> (\<forall>r \<in> set (qv_recipients v). \<exists>d \<in> set (q_deliveries q). dr_message_id d = qv_id v
          \<and> dr_address d = rc_address (fst r) \<and> unresolved (dr_status d)))"

lemma enqueue_batch_stored:
  assumes "enqueue_variants_with_reserve env sender vs mf q = (Inr (), q')"
  shows "batch_stored vs q'"
  unfolding batch_stored_def
proof (intro ballI conjI)
  obtain ds where ds: "q_messages q' = q_messages q @ map (variant_row env sender) vs" "q_deliveries q' = q_deliveries q @ ds"
    "\<And>v. v \<in> set vs \<Longrightarrow> q_spool q' (qv_id v) = Some (to_vec (qv_raw v))"
    "\<And>d. d \<in> set ds \<Longrightarrow> \<exists>v \<in> set vs. fresh_row (qv_id v) d"
    "map (\<lambda>d. (dr_message_id d, dr_address d)) ds
      = concat (map (\<lambda>v. map (\<lambda>r. (qv_id v, rc_address (fst r))) (qv_recipients v)) vs)"
    using assms by (rule enqueue_stored) blast
  fix v assume v: "v \<in> set vs"
  show "q_spool q' (qv_id v) = Some (to_vec (qv_raw v))" using ds(3) v by blast
  show "\<exists>m \<in> set (q_messages q'). mr_id m = qv_id v \<and> mr_raw_present m"
    using ds(1) v by (intro bexI [of _ "variant_row env sender v"]) (simp_all add: variant_row_def)
  fix r assume r: "r \<in> set (qv_recipients v)"
  have "(qv_id v, rc_address (fst r)) \<in> set (map (\<lambda>d. (dr_message_id d, dr_address d)) ds)"
    unfolding ds(5) using v r by auto
  then obtain d where d: "d \<in> set ds" "dr_message_id d = qv_id v" "dr_address d = rc_address (fst r)" by auto
  with ds(4) [OF d(1)] have "unresolved (dr_status d)" by (auto simp: fresh_row_def unresolved_def)
  with d ds(2) show "\<exists>d \<in> set (q_deliveries q'). dr_message_id d = qv_id v \<and> dr_address d = rc_address (fst r)
      \<and> unresolved (dr_status d)" by auto
qed

text \<open>
  C4: a message is announced as queued exactly when it is stored. When a command's replies hold
  the announcement, it is the last of them, the session had a sender and recipients, the message was
  valid and within its limit, and the store holds its body, its row and an open delivery of
  every recipient of every variant, in a state the running queue can reach, so that the
  guarantees of the queue hold from then on. Otherwise messages and deliveries are as before.
\<close>

theorem queued_exactly_when_stored:
  assumes "reachable_mailer m" "ma_up m" "valid_domain (sc_hostname (se_config s))"
    and turn: "smtp_turn env a s (ma_queue m) = (f, q')"
    and new: "new = drop (length (se_out s)) (se_out (flow_session f))"
  shows "if list_ex announces new
    then last new = queued_reply (an_id a) \<and> (\<exists>raw vs. accepts a s (ma_queue m) raw vs q' \<and> batch_stored vs q'
      \<and> reachable_mailer (m\<lparr>ma_queue := q', ma_accepted := record_bodies vs (ma_accepted m)\<rparr>))
    else q_messages q' = q_messages (ma_queue m) \<and> q_deliveries q' = q_deliveries (ma_queue m)
      \<and> reachable_mailer (m\<lparr>ma_queue := q'\<rparr>)"
proof -
  from turn_stored [OF turn assms(3)] consider
      (unsaid) extra where "se_out (flow_session f) = se_out s @ extra" "\<not> list_ex announces extra"
        "q' = ma_queue m \<or> (\<exists>sender vs mf e. enqueue_variants_with_reserve (an_acceptance a) sender vs mf (ma_queue m) = (Inl e, q'))"
    | (said) raw vs extra where "accepts a s (ma_queue m) raw vs q'"
        "se_out (flow_session f) = se_out s @ extra @ [queued_reply (an_id a)]"
    unfolding stored_iff_announced_def quiet_def by blast
  then show ?thesis
  proof cases
    case (unsaid extra)
    from unsaid(3) have "q_messages q' = q_messages (ma_queue m) \<and> q_deliveries q' = q_deliveries (ma_queue m)
      \<and> reachable_mailer (m\<lparr>ma_queue := q'\<rparr>)"
    proof (elim disjE exE)
      fix sender vs mf e
      assume e: "enqueue_variants_with_reserve (an_acceptance a) sender vs mf (ma_queue m) = (Inl e, q')"
      from accepted_by_mailer [OF assms(1,2) e] have "reachable_mailer (m\<lparr>ma_queue := q'\<rparr>)" by simp
      with e show ?thesis by (cases rule: enqueue_cases) auto
    qed (use assms(1) in simp)
    with unsaid new show ?thesis by simp
  next
    case (said raw vs extra)
    from said(1) obtain sender mf where
      e: "enqueue_variants_with_reserve (an_acceptance a) sender vs mf (ma_queue m) = (Inr (), q')" by (auto simp: accepts_def)
    have "announces (queued_reply (an_id a))" by (simp add: queued_reply_def starts_with_def)
    with accepted_by_mailer [OF assms(1,2) e] enqueue_batch_stored [OF e] said new show ?thesis by auto
  qed
qed

section \<open>Paths are read as they are written\<close>

lemma path_end_plain:
  "list_all (\<lambda>c. c \<noteq> CHR 0x22 \<and> c \<noteq> CHR ''>'') xs
    \<Longrightarrow> path_end False False (xs @ r) = map_option (\<lambda>n. length xs + n) (path_end False False r)"
  by (cases "path_end False False r"; induction xs; simp)

lemma path_end_quoted:
  "quoted_local esc v xs
    \<Longrightarrow> path_end True esc (xs @ CHR 0x22 # r) = map_option (\<lambda>n. length xs + 1 + n) (path_end False False r)"
proof (induction esc v xs rule: quoted_local.induct)
  case (2 esc v c cs)
  have "c \<noteq> CHR 0x22" if "\<not> esc" "c \<noteq> CHR 0x5C"
    using 2(4) that quoted_local_valid [of False "v \<and> 32 \<le> byte c \<and> byte c \<le> 126 \<and> c \<noteq> CHR 0x22" cs] by auto
  with 2 show ?case by (cases "path_end False False r") (auto split: if_splits)
qed (cases "path_end False False r"; simp)

lemma plain_local:
  assumes "list_all (\<lambda>c. is_ascii_alphanumeric c \<or> c \<in> set atext_extra) l"
  shows "list_all (\<lambda>c. c \<noteq> CHR 0x22 \<and> c \<noteq> CHR ''>'') l"
proof -
  have "CHR 0x22 \<notin> set atext_extra" "CHR ''>'' \<notin> set atext_extra" by (simp_all add: atext_extra_def)
  moreover have "\<not> is_ascii_alphanumeric (CHR 0x22)" "\<not> is_ascii_alphanumeric (CHR ''>'')"
    by (simp_all add: is_ascii_alphanumeric_def byte_def)
  ultimately show ?thesis using assms by (auto simp: list_all_iff)
qed

lemma path_end_local:
  assumes "local_valid l"
  shows "path_end False False (l @ r) = map_option (\<lambda>n. length l + n) (path_end False False r)"
proof (cases "starts_with [CHR 0x22] l \<and> ends_with [CHR 0x22] l \<and> length l \<ge> 2")
  case True
  then obtain m where m: "l = CHR 0x22 # m" by (auto simp: starts_with_iff_prefix prefix_def)
  with True obtain n where n: "m = n @ [CHR 0x22]"
    by (cases m rule: rev_cases) (auto simp: ends_with_iff_suffix suffix_def)
  from assms True m n have "quoted_local False True n" by (simp add: local_valid_def butlast_append)
  from path_end_quoted [OF this, of r] show ?thesis by (simp add: m n option.map_comp o_def)
next
  case False
  with assms show ?thesis by (auto simp: local_valid_def intro: path_end_plain plain_local)
qed

lemma path_end_address:
  assumes "valid_address a"
  shows "path_end False False (a @ CHR ''>'' # r) = Some (length a)"
proof -
  obtain l d where ld: "rsplit_once (CHR ''@'') a = Some (l, d)" "valid_domain d" "local_valid l"
    using assms by (auto simp: valid_address_def split: option.splits)
  have a: "a = l @ CHR ''@'' # d" using rsplit_once_Some [OF ld(1)] by simp
  have "list_all (\<lambda>c. c \<noteq> CHR 0x22 \<and> c \<noteq> CHR ''>'') (CHR ''@'' # d)"
    using valid_domain_chars [OF ld(2)] by (force simp: list_all_iff is_ascii_alphanumeric_def byte_def)
  from path_end_plain [OF this, of "CHR ''>'' # r"] path_end_local [OF ld(3)] show ?thesis by (simp add: a)
qed

lemma parse_written_path:
  assumes "valid_address address" "eq_ignore_ascii_case keyword pre"
    and "options = [] \<or> starts_with '' '' options"
  shows "parse_path (keyword @ ''<'' @ address @ ''>'' @ options) pre allow_empty = Inr (address, ascii_trim options)"
proof -
  have len: "length keyword = length pre"
    using assms(2) by (metis eq_ignore_ascii_case_def length_map to_ascii_lowercase_def)
  have "\<not> ascii_space (CHR ''<'')" by (simp add: ascii_space_def char_is_whitespace_def byte_def)
  then show ?thesis using assms len path_end_address [OF assms(1), of options]
    by (simp add: parse_path_def ascii_trim_start_def ensure_def starts_with_def)
qed

text \<open>
  C32: an address is read from a path as it was written. For every valid address in angle brackets after
  the keyword in either case, followed by nothing or by parameters, the parser returns that
  address, quoted local parts with brackets and escapes included, and the parameters.
\<close>

theorem path_roundtrip:
  assumes "valid_address address" "eq_ignore_ascii_case keyword pre"
    and "options = [] \<or> starts_with '' '' options"
  shows "parse_path (keyword @ ''<'' @ address @ ''>'' @ options) pre allow_empty = Inr (address, ascii_trim options)"
  using assms by (rule parse_written_path)

theorem path_roundtrip_witness:
  "parse_path (''from:'' @ ''<'' @ ''a.b@example.org'' @ ''>'' @ '' SIZE=10'') ''FROM:'' True
    = Inr (''a.b@example.org'', ascii_trim '' SIZE=10'')"
  by (rule path_roundtrip) code_simp+

section \<open>Encryption starts a new conversation\<close>

lemma kept_encrypted:
  "se_encrypted (flow_session (smtp_greet env a ehlo arg s)) = se_encrypted s"
  "se_encrypted (flow_session (smtp_mail a arg s)) = se_encrypted s"
  "se_encrypted (flow_session (add_recipient a r s)) = se_encrypted s"
  "se_encrypted (flow_session (unrecognized a s)) = se_encrypted s"
  by (auto simp: smtp_greet_def smtp_mail_def add_recipient_def unrecognized_def reset_envelope_def Let_def say_flow
      split: sum.split option.split flow.split)

lemma rcpt_encrypted: "se_encrypted (flow_session (smtp_rcpt env a arg s)) = se_encrypted s"
proof -
  have "se_encrypted (flow_session (known_recipient env a sender r s)) = se_encrypted s" for sender r
  proof (cases "option_filter ad_enabled (sc_admission (se_config s))")
    case None
    then show ?thesis by (simp add: known_recipient_def kept_encrypted)
  next
    case (Some st)
    obtain d s1 where ad: "admit_recipient env a st sender r s = (d, s1)" by fastforce
    then obtain rep b where s1: "s1 = s\<lparr>se_reputation := Some rep, se_charged := True, se_budget := b\<rparr>" by (rule admit_frame)
    obtain rs where rs: "keep_report d s1 = s1\<lparr>se_reports := rs\<rparr>" using keep_report_frame by blast
    show ?thesis unfolding known_recipient_def Some option.case ad prod.case rs
      by (auto simp: kept_encrypted s1 say_flow reset_envelope_def split: option.split flow.split)
  qed
  then show ?thesis by (auto simp: smtp_rcpt_def split: option.split sum.split)
qed

lemma data_encrypted: "se_encrypted (flow_session (fst (smtp_data a arg s q))) = se_encrypted s"
proof -
  have m: "se_encrypted (flow_session (fst (received_message a raw sender t q))) = se_encrypted t" for raw sender t
  proof (cases "se_engine t")
    case (Some e)
    obtain x where "flow_session (fst (accept_message a e raw sender (se_recipients t) (reset_envelope t) q))
        = (reset_envelope t)\<lparr>se_out := se_out (reset_envelope t) @ [x]\<rparr>"
      using accept_message_session by blast
    with Some show ?thesis by (auto simp: received_message_def say_flow reset_envelope_def split: sum.split flow.split)
  qed (auto simp: received_message_def say_flow reset_envelope_def split: sum.split flow.split)
  show ?thesis
    by (auto simp: smtp_data_def m Let_def say_flow reset_envelope_def split: option.split list.split flow.split data_reception.split)
qed

lemma starttls_cases:
  assumes "smtp_starttls env a arg s = Go s'"
  shows "se_encrypted s' = se_encrypted s \<or> (\<exists>stream. an_tls a = Inr stream \<and> fst (se_io s) = []
    \<and> se_io s' = ([], stream) \<and> se_helo s' = [] \<and> \<not> se_extended s' \<and> se_from s' = None \<and> se_recipients s' = [])"
  using assms by (auto simp: smtp_starttls_def say_flow reset_envelope_def split: if_splits flow.splits sum.splits)

lemma dispatch_encrypted:
  assumes "dispatch env a verb arg s q = (Go s', q')" "se_encrypted s' \<noteq> se_encrypted s"
  shows "q' = q \<and> (\<exists>stream. an_tls a = Inr stream \<and> fst (se_io s) = []
    \<and> se_io s' = ([], stream) \<and> se_helo s' = [] \<and> \<not> se_extended s' \<and> se_from s' = None \<and> se_recipients s' = [])"
proof (cases "verb = ''STARTTLS''")
  case True
  then have "smtp_starttls env a arg s = Go s'" "q' = q" using assms(1) by (auto simp: dispatch_def)
  with starttls_cases assms(2) show ?thesis by blast
next
  case False
  have "se_encrypted (flow_session (fst (dispatch env a verb arg s q))) = se_encrypted s"
    using False by (simp add: dispatch_def kept_encrypted rcpt_encrypted data_encrypted reset_envelope_def)
  then show ?thesis using assms by simp
qed

text \<open>
  C22: encryption starts a new conversation. When a command takes a connection from clear text to
  TLS, no byte that was sent in the clear is left to be read, and greeting, sender and recipients are
  forgotten: nothing an attacker adds before the handshake is taken for the encrypted client's.
\<close>

theorem starttls_discards_plaintext:
  assumes "smtp_turn env a s q = (Go s', q')" "\<not> se_encrypted s" "se_encrypted s'"
  shows "\<exists>stream l io. an_tls a = Inr stream \<and> line 512 (se_io s) = Inr (Some l, [], io) \<and> se_io s' = ([], stream)
    \<and> se_helo s' = [] \<and> \<not> se_extended s' \<and> se_from s' = None \<and> se_recipients s' = [] \<and> q' = q"
proof -
  define s0 where "s0 = (if sv_managed env \<and> se_from s = None then s\<lparr>se_engine := None, se_epoch := None\<rparr> else s)"
  have io0: "se_io s0 = se_io s" "se_encrypted s0 = se_encrypted s" by (simp_all add: s0_def)
  obtain l io where l: "line 512 (se_io s) = Inr (Some l, io)"
    and run: "run_command env a (take (length l - 2) l) (s0\<lparr>se_io := io\<rparr>) q = (Go s', q')"
    using assms(1) io0 by (auto simp: smtp_turn_def s0_def [symmetric] Let_def say_and_stop_def
        split: sum.splits option.splits prod.splits if_splits flow.splits)
  obtain verb arg where va: "unwrap_or (split_once (CHR '' '') (take (length l - 2) l)) (take (length l - 2) l, []) = (verb, arg)"
    by fastforce
  define s1 where "s1 = (if se_from s0 = None \<and> eq_ignore_ascii_case verb ''MAIL'' \<and> sv_managed env
    then take_snapshot (an_snapshot a) (s0\<lparr>se_io := io\<rparr>) else s0\<lparr>se_io := io\<rparr>)"
  have s1: "se_encrypted s1 = se_encrypted s" "se_io s1 = io" using io0 by (simp_all add: s1_def take_snapshot_def)
  have d: "dispatch env a (to_ascii_uppercase verb) arg s1 q = (Go s', q')"
    using run va assms(2,3) io0 by (auto simp: run_command_def Let_def say_Go s1_def split: if_splits)
  from dispatch_encrypted [OF d] assms(2,3) s1 obtain stream where "an_tls a = Inr stream" "fst io = []"
    "se_io s' = ([], stream)" "se_helo s' = []" "\<not> se_extended s'" "se_from s' = None" "se_recipients s' = []" "q' = q"
    by auto
  with l show ?thesis by (metis prod.collapse)
qed

section \<open>Mail is accepted\<close>

lemma receive_data_all:
  assumes "\<And>k. stored k" "receive n body io = Received raw io'"
  shows "receive_data stored n body io = Data raw io'"
  using assms(2)
proof (induction "stream_size (feed io)" arbitrary: body io rule: less_induct)
  case less
  obtain x io1 where x: "line 1001 io = Inr (Some x, io1)"
    using less.prems by (auto simp: receive.simps [of n body io] split: sum.splits option.splits)
  define y where "y = (if starts_with ''.'' x then tl x else x)"
  have size: "stream_size (feed io1) < stream_size (feed io)" using x by (auto simp: line_def dest: read_line_consumes)
  show ?case
  proof (cases "x = ''.'' @ CRLF")
    case True
    with less.prems x show ?thesis by (subst receive_data.simps) (simp add: receive.simps [of n body io])
  next
    case False
    have "length y \<le> 1000" "length body + length y \<le> n" "receive n (body @ y) io1 = Received raw io'"
      using less.prems x False by (auto simp: receive.simps [of n body io] y_def [symmetric] Let_def split: if_splits)
    with less.hyps [OF size] x False assms(1) show ?thesis
      by (subst receive_data.simps) (simp add: y_def [symmetric] Let_def)
  qed
qed

lemma turn_reads:
  assumes "plain_conn (se_io s)" "conn_bytes (se_io s) = l @ CRLF @ rest" "clean_line l" "length l \<le> 510" "list_all is_ascii_char l"
  shows "\<exists>io. plain_conn io \<and> conn_bytes io = rest \<and> smtp_turn env a s q = run_command env a l
    ((if sv_managed env \<and> se_from s = None then s\<lparr>se_engine := None, se_epoch := None\<rparr> else s)\<lparr>se_io := io\<rparr>) q"
proof -
  have "next_line 512 (conn_bytes (se_io s)) = Inr (Some (l @ CRLF), rest)"
    using assms(2) next_line_append [OF assms(3), of 512 rest] assms(4) by simp
  from line_of_next [OF assms(1) this] obtain io where
    io: "line 512 (se_io s) = Inr (Some (l @ CRLF), io)" "plain_conn io" "conn_bytes io = rest" by blast
  then show ?thesis using assms(5) by (intro exI [of _ io]) (simp add: smtp_turn_def Let_def)
qed

text \<open>A well formed greeting, and the texts of a command that holds an address.\<close>

definition greeting_ok :: "string \<Rightarrow> bool" where
  "greeting_ok h \<longleftrightarrow> h \<noteq> [] \<and> length h \<le> 255 \<and> list_all (\<lambda>c. 32 < byte c \<and> byte c < 127) h"

lemma printable_line: "list_all printable l \<Longrightarrow> clean_line l \<and> list_all is_ascii_char l"
  by (auto simp: clean_line_def list_all_iff printable_def is_ascii_char_def byte_def)

lemma valid_address_bounded: "valid_address a \<Longrightarrow> list_all printable a \<and> length a \<le> 254"
proof -
  assume v: "valid_address a"
  then obtain l d where "rsplit_once (CHR ''@'') a = Some (l, d)" "valid_domain d" "local_valid l" "length a \<le> 254"
    by (auto simp: valid_address_def split: option.splits)
  with rsplit_once_Some valid_domain_printable local_valid_printable show ?thesis by fastforce
qed

text \<open>The services let a message through.\<close>

definition favourable :: "smtp_config \<Rightarrow> answers \<Rightarrow> bool" where
  "favourable cfg a \<longleftrightarrow> (\<forall>t. an_written a t) \<and> an_cluster_ready a \<and> an_ha_ready a
     \<and> (\<exists>n. an_available a = Inr n \<and> sc_minimum_free_bytes cfg + sc_max_message_bytes cfg \<le> n)
     \<and> \<not> (sc_traffic cfg \<and> an_early a) \<and> (\<forall>r. smtp_reply (an_admission a r) = None) \<and> an_verification a = Va_Accepted
     \<and> rbl_smtp_reply (an_rbl a) = None \<and> an_permit a \<and> an_opened a \<and> (\<forall>n. an_stored a n) \<and> an_flushed a \<and> an_read_back a"

text \<open>Where a transaction stands, and what is left to be read.\<close>

definition conversing :: "smtp_config \<Rightarrow> string \<Rightarrow> string option \<Rightarrow> recipient list \<Rightarrow> string \<Rightarrow> session \<Rightarrow> bool" where
  "conversing cfg h from rs rest s \<longleftrightarrow> se_config s = cfg \<and> se_helo s = h \<and> se_from s = from \<and> se_recipients s = rs
     \<and> plain_conn (se_io s) \<and> conn_bytes (se_io s) = rest"

lemma conversing_reads:
  assumes "conversing cfg h from rs (l @ CRLF @ rest) s" "list_all printable l" "length l \<le> 510"
  shows "\<exists>s1. conversing cfg h from rs rest s1 \<and> se_extended s1 = se_extended s
    \<and> (sv_managed env \<and> from = None \<or> se_engine s1 = se_engine s \<and> se_epoch s1 = se_epoch s)
    \<and> se_out s1 = se_out s \<and> smtp_turn env a s q = run_command env a l s1 q"
proof -
  have "plain_conn (se_io s)" "conn_bytes (se_io s) = l @ CRLF @ rest" using assms(1) by (simp_all add: conversing_def)
  from turn_reads [OF this _ assms(3), of env a q] printable_line [OF assms(2)] obtain io where
    "plain_conn io" "conn_bytes io = rest" "smtp_turn env a s q = run_command env a l
      ((if sv_managed env \<and> se_from s = None then s\<lparr>se_engine := None, se_epoch := None\<rparr> else s)\<lparr>se_io := io\<rparr>) q" by auto
  with assms(1) show ?thesis
    by (intro exI [of _ "(if sv_managed env \<and> se_from s = None then s\<lparr>se_engine := None, se_epoch := None\<rparr> else s)\<lparr>se_io := io\<rparr>"])
      (auto simp: conversing_def)
qed

lemma ehlo_accepted:
  assumes "greeting_ok h" "favourable cfg a" "conversing cfg h0 None [] (''EHLO '' @ h @ CRLF @ rest) s"
  shows "\<exists>s'. smtp_turn env a s q = (Go s', q) \<and> conversing cfg h None [] rest s' \<and> se_extended s'
    \<and> (sv_managed env \<or> se_engine s' = se_engine s \<and> se_epoch s' = se_epoch s)"
proof -
  have p: "list_all printable (''EHLO '' @ h)" "length (''EHLO '' @ h) \<le> 510" using assms(1)
    by (auto simp: greeting_ok_def list_all_iff printable_def byte_def)
  obtain s1 where s1: "conversing cfg h0 None [] rest s1" "smtp_turn env a s q = run_command env a (''EHLO '' @ h) s1 q"
    "sv_managed env \<or> se_engine s1 = se_engine s \<and> se_epoch s1 = se_epoch s"
    using conversing_reads [OF _ p, of cfg h0 None "[]" rest s env a q] assms(3) by auto
  have "\<not> list_ex (\<lambda>c. byte c \<le> 32 \<or> byte c = 127) h" using assms(1) by (auto simp: greeting_ok_def list_ex_iff list_all_iff)
  moreover have "to_ascii_uppercase ''EHLO'' = ''EHLO''" "\<not> eq_ignore_ascii_case ''EHLO'' ''MAIL''" by code_simp+
  ultimately have "\<exists>t. run_command env a (''EHLO '' @ h) s1 q
      = (Go ((reset_envelope s1)\<lparr>se_helo := h, se_extended := True, se_out := se_out s1 @ [t]\<rparr>), q)"
    using assms(1,2) by (auto simp: run_command_def Let_def dispatch_def smtp_greet_def greeting_ok_def say_def favourable_def
        reset_envelope_def)
  then show ?thesis using s1 by (auto simp: conversing_def reset_envelope_def)
qed

lemma mail_accepted:
  assumes "valid_address sender" "favourable cfg a" "conversing cfg h None [] (''MAIL FROM:<'' @ sender @ ''>'' @ CRLF @ rest) s"
    "h \<noteq> []" "gate_ready (q_gate q)"
    and engine: "if sv_managed env then an_snapshot a = \<lparr>sn_config = cfg, sn_epoch = ep, sn_engine = engine\<rparr>
      else se_engine s = Some engine \<and> se_epoch s = ep"
  shows "\<exists>s'. smtp_turn env a s q = (Go s', q) \<and> conversing cfg h (Some sender) [] rest s'
    \<and> se_engine s' = Some engine \<and> se_epoch s' = ep"
proof -
  let ?l = "''MAIL FROM:<'' @ sender @ ''>''"
  have p: "list_all printable ?l" "length ?l \<le> 510" using valid_address_bounded [OF assms(1)]
    by (auto simp: printable_def byte_def)
  obtain s1 where s1: "conversing cfg h None [] rest s1" "smtp_turn env a s q = run_command env a ?l s1 q"
    "sv_managed env \<or> se_engine s1 = se_engine s \<and> se_epoch s1 = se_epoch s"
    using conversing_reads [OF _ p, of cfg h None "[]" rest s env a q] assms(3) by auto
  define s2 where "s2 = (if sv_managed env then take_snapshot (an_snapshot a) s1 else s1)"
  have s2: "conversing cfg h None [] rest s2" "se_engine s2 = Some engine" "se_epoch s2 = ep"
    using s1 engine by (auto simp: s2_def take_snapshot_def conversing_def split: if_splits)
  have path: "parse_path (''FROM:<'' @ sender @ ''>'') ''FROM:'' True = Inr (sender, [])"
    using parse_written_path [OF assms(1), of "''FROM:''" "''FROM:''" "[]" True]
    by (simp add: eq_ignore_ascii_case_def ascii_trim_def)
  have "to_ascii_uppercase ''MAIL'' = ''MAIL''" "eq_ignore_ascii_case ''MAIL'' ''MAIL''" by code_simp+
  then have "run_command env a ?l s1 q = (smtp_mail a (''FROM:<'' @ sender @ ''>'') s2, q)"
    using s1(1) assms(2,5) by (auto simp: run_command_def Let_def dispatch_def s2_def favourable_def conversing_def)
  moreover have "smtp_mail a (''FROM:<'' @ sender @ ''>'') s2 = say a (''250 2.1.0 Sender accepted'' @ CRLF)
      (s2\<lparr>se_reputation := None, se_charged := False, se_reports := [], se_from := Some sender, se_recipients := []\<rparr>)"
    using s2 assms(2,4) path by (auto simp: smtp_mail_def Let_def conversing_def favourable_def)
  ultimately show ?thesis using s1(2) s2 assms(2) by (auto simp: say_def favourable_def conversing_def)
qed

lemma no_postmaster: "valid_address address \<Longrightarrow> \<not> eq_ignore_ascii_case address ''postmaster''"
proof
  assume "valid_address address" "eq_ignore_ascii_case address ''postmaster''"
  then have "CHR ''@'' \<in> set (to_ascii_lowercase address)"
    by (auto simp: valid_address_def split: option.splits dest!: rsplit_once_Some)
  moreover have "to_ascii_lowercase address = to_ascii_lowercase ''postmaster''"
    using \<open>eq_ignore_ascii_case address ''postmaster''\<close> by (simp add: eq_ignore_ascii_case_def)
  ultimately show False by simp
qed

lemma rcpt_accepted:
  assumes "valid_address address" "config_recipient (sc_domains cfg) address = Some r" "0 < sc_max_recipients cfg" "favourable cfg a"
    "conversing cfg h (Some sender) [] (''RCPT TO:<'' @ address @ ''>'' @ CRLF @ rest) s"
  shows "\<exists>s'. smtp_turn env a s q = (Go s', q) \<and> conversing cfg h (Some sender) [r] rest s'
    \<and> se_engine s' = se_engine s \<and> se_epoch s' = se_epoch s"
proof -
  let ?l = "''RCPT TO:<'' @ address @ ''>''"
  have p: "list_all printable ?l" "length ?l \<le> 510" using valid_address_bounded [OF assms(1)]
    by (auto simp: printable_def byte_def)
  obtain s1 where s1: "conversing cfg h (Some sender) [] rest s1" "smtp_turn env a s q = run_command env a ?l s1 q"
    "se_engine s1 = se_engine s" "se_epoch s1 = se_epoch s"
    using conversing_reads [OF _ p, of cfg h "Some sender" "[]" rest s env a q] assms(5) by auto
  have path: "parse_path (''TO:<'' @ address @ ''>'') ''TO:'' False = Inr (address, [])"
    using parse_written_path [OF assms(1), of "''TO:''" "''TO:''" "[]" False]
    by (simp add: eq_ignore_ascii_case_def ascii_trim_def)
  have "to_ascii_uppercase ''RCPT'' = ''RCPT''" "\<not> eq_ignore_ascii_case ''RCPT'' ''MAIL''" by code_simp+
  then have run: "run_command env a ?l s1 q = (smtp_rcpt env a (''TO:<'' @ address @ ''>'') s1, q)"
    by (simp add: run_command_def Let_def dispatch_def)
  have rcpt: "smtp_rcpt env a (''TO:<'' @ address @ ''>'') s1 = known_recipient env a sender r s1"
    using s1(1) assms(2,3) path no_postmaster [OF assms(1)] by (simp add: smtp_rcpt_def conversing_def)
  have add: "\<exists>t. add_recipient a r x = Go (x\<lparr>se_recipients := [r], se_out := t\<rparr>)" if "se_recipients x = []" for x
    using that assms(4) by (auto simp: add_recipient_def favourable_def verification_reply_def say_def)
  have "\<exists>s'. known_recipient env a sender r s1 = Go s' \<and> conversing cfg h (Some sender) [r] rest s'
      \<and> se_engine s' = se_engine s1 \<and> se_epoch s' = se_epoch s1"
  proof (cases "option_filter ad_enabled (sc_admission (se_config s1))")
    case None
    with add [of s1] s1(1) assms(4) show ?thesis by (auto simp: known_recipient_def conversing_def favourable_def)
  next
    case (Some st)
    obtain d s2 where ad: "admit_recipient env a st sender r s1 = (d, s2)" by fastforce
    then obtain rep b where s2: "s2 = s1\<lparr>se_reputation := Some rep, se_charged := True, se_budget := b\<rparr>" by (rule admit_frame)
    have d: "smtp_reply d = None" using ad assms(4) by (auto simp: admit_recipient_def Let_def favourable_def)
    obtain rs where rs: "keep_report d s2 = s2\<lparr>se_reports := rs\<rparr>" using keep_report_frame by blast
    have "\<not> (sc_traffic (se_config s1) \<and> an_early a)" using s1(1) assms(4) by (auto simp: conversing_def favourable_def)
    then have "known_recipient env a sender r s1 = add_recipient a r (s2\<lparr>se_reports := rs\<rparr>)"
      unfolding known_recipient_def Some option.case ad prod.case rs d by auto
    with add [of "s2\<lparr>se_reports := rs\<rparr>"] s1(1) show ?thesis by (auto simp: conversing_def s2)
  qed
  then show ?thesis using run rcpt s1 by auto
qed

lemma data_accepted:
  assumes "message_validate raw = Inr ()" "lines_within 1000 raw" "length raw \<le> sc_max_message_bytes cfg" "favourable cfg a"
    "conversing cfg h (Some sender) (r # rs) (''DATA'' @ CRLF @ dot_stuff raw @ ''.'' @ CRLF @ rest) s"
    "se_engine s = Some engine"
    and engine: "engine raw h sender (an_id a) (r # rs) (an_rbl a) (se_epoch s) = Inr vs" "\<not> list_ex (\<lambda>(_, t). is_some_and t report_defer) vs"
    and store: "enqueue_variants_with_reserve (an_acceptance a) sender (processed_variants (an_rbl a) vs) (sc_minimum_free_bytes cfg) q = (Inr (), q')"
  shows "\<exists>s'. smtp_turn env a s q = (Go s', q') \<and> conversing cfg h None [] rest s'
    \<and> (\<exists>pre. se_out s' = se_out s @ pre @ [queued_reply (an_id a)])"
proof -
  have p: "list_all printable ''DATA''" "length ''DATA'' \<le> 510" by (simp_all add: printable_def byte_def)
  let ?rest = "dot_stuff raw @ ''.'' @ CRLF @ rest"
  obtain s1 where s1: "conversing cfg h (Some sender) (r # rs) ?rest s1" "smtp_turn env a s q = run_command env a ''DATA'' s1 q"
    "se_engine s1 = se_engine s" "se_epoch s1 = se_epoch s" "se_out s1 = se_out s"
    using conversing_reads [OF _ p, of cfg h "Some sender" "r # rs" ?rest s env a q] assms(5) by auto
  have "to_ascii_uppercase ''DATA'' = ''DATA''" "\<not> eq_ignore_ascii_case ''DATA'' ''MAIL''" by code_simp+
  then have run: "run_command env a ''DATA'' s1 q = smtp_data a [] s1 q"
    by (simp add: run_command_def Let_def dispatch_def)
  obtain io where io: "receive (sc_max_message_bytes cfg) [] (se_io s1) = Received raw io" "plain_conn io" "conn_bytes io = rest"
    using receive_dot_stuffed [OF assms(1-3), of "se_io s1" rest] s1(1) by (auto simp: conversing_def)
  have data: "receive_data (an_stored a) (sc_max_message_bytes cfg) [] (se_io s1) = Data raw io"
    by (rule receive_data_all [OF _ io(1)]) (use assms(4) in \<open>simp add: favourable_def\<close>)
  let ?s2 = "s1\<lparr>se_out := se_out s1 @ [GO_AHEAD], se_io := io\<rparr>"
  have "smtp_data a [] s1 q = received_message a raw sender ?s2 q"
    using s1(1) assms(4) data by (simp add: smtp_data_def Let_def conversing_def favourable_def say_def)
  also have "\<dots> = accept_message a engine raw sender (r # rs) (reset_envelope ?s2) q"
    using assms(1,4,6) s1 by (simp add: received_message_def conversing_def favourable_def)
  also have "\<dots> = (Go ((reset_envelope ?s2)\<lparr>se_out := se_out ?s2 @ [queued_reply (an_id a)]\<rparr>), q')"
    using engine store s1 assms(4) by (simp add: accept_message_def reset_envelope_def conversing_def say_def favourable_def)
  finally show ?thesis using s1 run io(2,3) by (auto simp: conversing_def reset_envelope_def)
qed

text \<open>
  C13: deliverable mail is accepted. A client that greets, names a valid sender and a configured
  recipient and sends a valid message with its dots doubled gets its message stored and the
  announcement of its queue identifier, however its bytes are cut into packets and whatever
  the queue holds at each command, when the services let it through, the analysis gives its
  variants and the store accepts them. The connection is then ready for the next message.
\<close>

theorem valid_mail_accepted:
  fixes answer :: "nat \<Rightarrow> answers" and q :: "nat \<Rightarrow> queue"
  assumes client: "greeting_ok h" "valid_address sender" "valid_address address" "config_recipient (sc_domains cfg) address = Some r"
      "message_validate raw = Inr ()" "lines_within 1000 raw"
    and limits: "0 < sc_max_recipients cfg" "length raw \<le> sc_max_message_bytes cfg"
    and services: "\<And>i. favourable cfg (answer i)" "gate_ready (q_gate (q 1))"
    and bytes: "conversing cfg [] None [] (''EHLO '' @ h @ CRLF @ ''MAIL FROM:<'' @ sender @ ''>'' @ CRLF
      @ ''RCPT TO:<'' @ address @ ''>'' @ CRLF @ ''DATA'' @ CRLF @ dot_stuff raw @ ''.'' @ CRLF @ rest) s"
    and policy: "if sv_managed env then an_snapshot (answer 1) = \<lparr>sn_config = cfg, sn_epoch = ep, sn_engine = engine\<rparr>
      else se_engine s = Some engine \<and> se_epoch s = ep"
    and analysis: "engine raw h sender (an_id (answer 3)) [r] (an_rbl (answer 3)) ep = Inr vs"
      "\<not> list_ex (\<lambda>(_, t). is_some_and t report_defer) vs"
    and store: "enqueue_variants_with_reserve (an_acceptance (answer 3)) sender (processed_variants (an_rbl (answer 3)) vs)
      (sc_minimum_free_bytes cfg) (q 3) = (Inr (), q')"
  shows "\<exists>s1 s2 s3 s4. smtp_turn env (answer 0) s (q 0) = (Go s1, q 0) \<and> smtp_turn env (answer 1) s1 (q 1) = (Go s2, q 1)
    \<and> smtp_turn env (answer 2) s2 (q 2) = (Go s3, q 2) \<and> smtp_turn env (answer 3) s3 (q 3) = (Go s4, q')
    \<and> last (se_out s4) = queued_reply (an_id (answer 3)) \<and> batch_stored (processed_variants (an_rbl (answer 3)) vs) q'
    \<and> conversing cfg h None [] rest s4"
proof -
  have h: "h \<noteq> []" using client(1) by (simp add: greeting_ok_def)
  from ehlo_accepted [OF client(1) services(1) bytes, where env = env and q = "q 0"] obtain s1 where
    s1: "smtp_turn env (answer 0) s (q 0) = (Go s1, q 0)" "conversing cfg h None [] (''MAIL FROM:<'' @ sender @ ''>'' @ CRLF
      @ ''RCPT TO:<'' @ address @ ''>'' @ CRLF @ ''DATA'' @ CRLF @ dot_stuff raw @ ''.'' @ CRLF @ rest) s1"
    "sv_managed env \<or> se_engine s1 = se_engine s \<and> se_epoch s1 = se_epoch s" by blast
  have "if sv_managed env then an_snapshot (answer 1) = \<lparr>sn_config = cfg, sn_epoch = ep, sn_engine = engine\<rparr>
      else se_engine s1 = Some engine \<and> se_epoch s1 = ep" using policy s1(3) by (auto split: if_splits)
  from mail_accepted [OF client(2) services(1) s1(2) h services(2) this] obtain s2 where
    s2: "smtp_turn env (answer 1) s1 (q 1) = (Go s2, q 1)" "conversing cfg h (Some sender) []
      (''RCPT TO:<'' @ address @ ''>'' @ CRLF @ ''DATA'' @ CRLF @ dot_stuff raw @ ''.'' @ CRLF @ rest) s2"
    "se_engine s2 = Some engine" "se_epoch s2 = ep" by blast
  from rcpt_accepted [OF client(3,4) limits(1) services(1) s2(2), where env = env and q = "q 2"] obtain s3 where
    s3: "smtp_turn env (answer 2) s2 (q 2) = (Go s3, q 2)" "conversing cfg h (Some sender) [r]
      (''DATA'' @ CRLF @ dot_stuff raw @ ''.'' @ CRLF @ rest) s3" "se_engine s3 = Some engine" "se_epoch s3 = ep"
    using s2(3,4) by auto
  from data_accepted [OF client(5,6) limits(2) services(1) [of 3] s3(2,3), where env = env and vs = vs and q = "q 3" and q' = q'] analysis store s3(4)
  obtain s4 where "smtp_turn env (answer 3) s3 (q 3) = (Go s4, q')" "conversing cfg h None [] rest s4"
    "last (se_out s4) = queued_reply (an_id (answer 3))" by auto
  with s1 s2 s3 enqueue_batch_stored [OF store] show ?thesis by blast
qed

section \<open>Concrete sessions\<close>

definition session_domain :: domain where
  "session_domain = \<lparr>dom_name = ''b.c'', dom_next_hops = [''h''], dom_accept_all_recipients = True, dom_recipients = [],
     dom_aliases = []\<rparr>"

definition session_config :: smtp_config where
  "session_config = \<lparr>sc_hostname = ''mx.b.c'', sc_max_message_bytes = 1000, sc_max_recipients = 10, sc_minimum_free_bytes = 0,
     sc_postmaster = ''p@b.c'', sc_domains = [session_domain], sc_admission = None, sc_traffic = False\<rparr>"

definition session_recipient :: recipient where
  "session_recipient = \<lparr>rc_address = ''a@b.c'', rc_destination = ''a@b.c'', rc_hosts = [''h'']\<rparr>"

definition session_variant :: queue_variant where
  "session_variant = \<lparr>qv_id = ''m'', qv_scan = sample_scan, qv_raw = wire_of ''x'', qv_recipients = [(session_recipient, None)]\<rparr>"

definition session_engine :: engine where
  "session_engine = (\<lambda>_ _ _ _ _ _ _. Inr [(session_variant, None)])"

definition session_answers :: answers where
  "session_answers = \<lparr>an_written = (\<lambda>_. True), an_cluster_ready = True,
     an_snapshot = \<lparr>sn_config = session_config, sn_epoch = None, sn_engine = session_engine\<rparr>, an_tls = Inr [], an_ha_ready = True,
     an_available = Inr 1000000, an_early = False,
     an_rbl = \<lparr>rb_checks = [], rb_listed_providers = 0, rb_effective_action = Rbl_Observe\<rparr>,
     an_admission = (\<lambda>_. admission_unavailable sample_admission), an_delay_permit = True, an_verification = Va_Accepted,
     an_permit = True, an_id = ''m'', an_opened = True, an_stored = (\<lambda>_. True), an_flushed = True, an_read_back = True,
     an_acceptance = sample_env\<rparr>"

definition session_peer :: session_env where
  "session_peer = \<lparr>sv_peer = V4 (1, 2, 3, 4), sv_tls = True, sv_managed = False, sv_parse_v6 = (\<lambda>_. None)\<rparr>"

definition session_store :: queue where
  "session_store = snd (enqueue_variants_with_reserve sample_env ''s@b.c'' [session_variant] 0 (empty_queue gate_legacy None))"

lemma session_stored:
  "enqueue_variants_with_reserve sample_env ''s@b.c'' [session_variant] 0 (empty_queue gate_legacy None) = (Inr (), session_store)"
  by (simp add: session_store_def enqueue_variants_with_reserve_def session_variant_def sample_scan_def empty_queue_def
      sample_env_def gate_enter_def gate_legacy_def gate_new_def checked_succ_def ensure_def check_variant_def MAX_VARIANTS_def
      MAX_RECIPIENTS_PER_VARIANT_def budget_metadata_def budget_headers_def MAX_BATCH_METADATA_def MAX_BATCH_HEADERS_def
      wire_of_def wire_len_def valid_queue_id_def is_ascii_alphanumeric_def byte_def applied_action_def session_recipient_def
      persist_def to_vec_def insert_message_def insert_recipient_def next_rowid_def initial_status_def Let_def
      acceptance_drop_def)

lemma session_facts:
  "favourable session_config session_answers" "valid_address ''a@b.c''" "valid_address ''s@b.c''" "greeting_ok ''c.d''"
  "config_recipient (sc_domains session_config) ''a@b.c'' = Some session_recipient" "valid_domain (sc_hostname session_config)"
  "lines_within 1000 sample_dot" "length sample_dot \<le> sc_max_message_bytes session_config" "0 < sc_max_recipients session_config"
proof -
  show "favourable session_config session_answers"
    by (simp add: favourable_def session_config_def session_answers_def rbl_smtp_reply_def smtp_reply_def
        admission_unavailable_def admission_decide_def)
  show "valid_address ''a@b.c''" "valid_address ''s@b.c''" "greeting_ok ''c.d''" by code_simp+
  show "config_recipient (sc_domains session_config) ''a@b.c'' = Some session_recipient" by code_simp
  show "valid_domain (sc_hostname session_config)" by code_simp
  show "lines_within 1000 sample_dot" by (simp add: sample_dot_def lines_within_def)
  show "length sample_dot \<le> sc_max_message_bytes session_config" by (simp add: sample_dot_def session_config_def)
  show "0 < sc_max_recipients session_config" by (simp add: session_config_def)
qed

lemma session_processed: "processed_variants (an_rbl session_answers) [(session_variant, None)] = [session_variant]"
  by (simp add: processed_variants_def session_answers_def rbl_attach_def)

definition session_bytes :: string where
  "session_bytes = ''EHLO c.d'' @ CRLF @ ''MAIL FROM:<s@b.c>'' @ CRLF @ ''RCPT TO:<a@b.c>'' @ CRLF @ ''DATA'' @ CRLF
     @ dot_stuff sample_dot @ ''.'' @ CRLF @ ''QUIT'' @ CRLF"

definition session_start :: session where
  "session_start = initial_session session_peer session_config session_engine
     [Chunk (take 20 session_bytes), Chunk (drop 20 session_bytes)]"

lemma session_bytes_long: "20 < length session_bytes"
  by (simp add: session_bytes_def)

lemma session_conversing: "conversing session_config [] None [] session_bytes session_start"
  using session_bytes_long
  by (auto simp: conversing_def session_start_def initial_session_def plain_conn_def conn_bytes_def)

lemma session_policy:
  "if sv_managed session_peer then an_snapshot session_answers = \<lparr>sn_config = session_config, sn_epoch = None, sn_engine = session_engine\<rparr>
    else se_engine session_start = Some session_engine \<and> se_epoch session_start = None"
  by (simp add: session_peer_def session_start_def initial_session_def)

lemma session_analysis:
  "session_engine sample_dot ''c.d'' ''s@b.c'' (an_id session_answers) [session_recipient] (an_rbl session_answers) None
    = Inr [(session_variant, None)]"
  "\<not> list_ex (\<lambda>(_, t). is_some_and t report_defer) [(session_variant, None)]"
  by (simp_all add: session_engine_def)

lemma session_accepted:
  "enqueue_variants_with_reserve (an_acceptance session_answers) ''s@b.c'' (processed_variants (an_rbl session_answers) [(session_variant, None)])
    (sc_minimum_free_bytes session_config) (empty_queue gate_legacy None) = (Inr (), session_store)"
  unfolding session_processed using session_stored by (simp add: session_answers_def session_config_def)

lemma session_gate: "gate_ready (q_gate (empty_queue gate_legacy None))"
  by (simp add: empty_queue_def gate_ready_def gate_legacy_def gate_new_def)

theorem valid_mail_accepted_witness:
  "\<exists>s1 s2 s3 s4. smtp_turn session_peer session_answers session_start (empty_queue gate_legacy None) = (Go s1, empty_queue gate_legacy None)
    \<and> smtp_turn session_peer session_answers s1 (empty_queue gate_legacy None) = (Go s2, empty_queue gate_legacy None)
    \<and> smtp_turn session_peer session_answers s2 (empty_queue gate_legacy None) = (Go s3, empty_queue gate_legacy None)
    \<and> smtp_turn session_peer session_answers s3 (empty_queue gate_legacy None) = (Go s4, session_store)
    \<and> last (se_out s4) = queued_reply (an_id session_answers)
    \<and> batch_stored (processed_variants (an_rbl session_answers) [(session_variant, None)]) session_store
    \<and> conversing session_config ''c.d'' None [] (''QUIT'' @ CRLF) s4"
  using session_conversing unfolding session_bytes_def
  by (intro valid_mail_accepted [where answer = "\<lambda>_. session_answers" and q = "\<lambda>_. empty_queue gate_legacy None",
        OF session_facts(4,3,2,5) sample_dot_valid session_facts(7,9,8,1) session_gate _ session_policy session_analysis session_accepted])
    simp

definition session_ready :: session where
  "session_ready = session_start\<lparr>se_io := ([], [Chunk (''DATA'' @ CRLF @ dot_stuff sample_dot @ ''.'' @ CRLF)]), se_helo := ''c.d'',
     se_from := Some ''s@b.c'', se_recipients := [session_recipient]\<rparr>"

theorem queued_exactly_when_stored_witness:
  "\<exists>f raw vs. smtp_turn session_peer session_answers session_ready (empty_queue gate_legacy None) = (f, session_store)
    \<and> accepts session_answers session_ready (empty_queue gate_legacy None) raw vs session_store \<and> batch_stored vs session_store"
proof -
  let ?m = "initial_mailer gate_legacy None"
  have m: "reachable_mailer ?m" "ma_up ?m" "ma_queue ?m = empty_queue gate_legacy None"
    by (auto simp: reachable_mailer_def) (simp_all add: initial_mailer_def)
  have c: "conversing session_config ''c.d'' (Some ''s@b.c'') [session_recipient] (''DATA'' @ CRLF @ dot_stuff sample_dot @ ''.'' @ CRLF @ []) session_ready"
    "se_engine session_ready = Some session_engine" "se_epoch session_ready = None" "se_config session_ready = session_config"
    "se_out session_ready = []"
    by (simp_all add: conversing_def session_ready_def session_start_def initial_session_def session_peer_def plain_conn_def conn_bytes_def)
  from data_accepted [OF sample_dot_valid session_facts(7,8,1) c(1,2) _ session_analysis(2) session_accepted, where env = session_peer]
    session_analysis(1) c(3) obtain s' pre where s': "smtp_turn session_peer session_answers session_ready (empty_queue gate_legacy None) = (Go s', session_store)"
    "se_out s' = se_out session_ready @ pre @ [queued_reply (an_id session_answers)]" by auto
  have "list_ex announces (drop (length (se_out session_ready)) (se_out s'))"
    using s'(2) c(5) by (simp add: queued_reply_def starts_with_def)
  with queued_exactly_when_stored [OF m(1,2), of session_ready session_peer session_answers "Go s'" session_store,
      OF _ _ refl] s'(1) m(3) c(4) session_facts(6) show ?thesis by auto
qed

theorem envelope_authorized_witness:
  "\<exists>s. session_run session_peer s \<and> se_recipients s \<noteq> []
    \<and> length (se_recipients s) \<le> sc_max_recipients (se_config s) \<and> distinct (map rc_address (se_recipients s))"
proof -
  let ?q = "empty_queue gate_legacy None"
  define s0 where "s0 = session_start\<lparr>se_out := [''220'']\<rparr>"
  have r0: "session_run session_peer s0"
    by (rule session_run.connect [where a = session_answers and banner = "''220''" and cfg = session_config and engine = session_engine])
      (simp add: s0_def session_start_def say_def session_answers_def initial_session_def)
  have c0: "conversing session_config [] None [] session_bytes s0" "se_engine s0 = Some session_engine" "se_epoch s0 = None"
    using session_conversing by (simp_all add: s0_def conversing_def session_start_def initial_session_def session_peer_def)
  obtain s1 where s1: "smtp_turn session_peer session_answers s0 ?q = (Go s1, ?q)" "conversing session_config ''c.d'' None []
      (''MAIL FROM:<'' @ ''s@b.c'' @ ''>'' @ CRLF @ ''RCPT TO:<'' @ ''a@b.c'' @ ''>'' @ CRLF @ ''DATA'' @ CRLF
        @ dot_stuff sample_dot @ ''.'' @ CRLF @ ''QUIT'' @ CRLF) s1" "se_engine s1 = Some session_engine" "se_epoch s1 = None"
    using ehlo_accepted [OF session_facts(4,1), of "[]" "''MAIL FROM:<'' @ ''s@b.c'' @ ''>'' @ CRLF @ ''RCPT TO:<'' @ ''a@b.c'' @ ''>'' @ CRLF
        @ ''DATA'' @ CRLF @ dot_stuff sample_dot @ ''.'' @ CRLF @ ''QUIT'' @ CRLF" s0 session_peer ?q] c0
    by (auto simp: session_bytes_def session_peer_def)
  obtain s2 where s2: "smtp_turn session_peer session_answers s1 ?q = (Go s2, ?q)" "conversing session_config ''c.d'' (Some ''s@b.c'') []
      (''RCPT TO:<'' @ ''a@b.c'' @ ''>'' @ CRLF @ ''DATA'' @ CRLF @ dot_stuff sample_dot @ ''.'' @ CRLF @ ''QUIT'' @ CRLF) s2"
    using mail_accepted [OF session_facts(3,1) s1(2) _ session_gate, of session_peer None session_engine] s1(3,4)
    by (auto simp: session_peer_def)
  obtain s3 where s3: "smtp_turn session_peer session_answers s2 ?q = (Go s3, ?q)" "se_recipients s3 = [session_recipient]"
    using rcpt_accepted [OF session_facts(2,5,9,1) s2(2), of session_peer ?q] by (auto simp: conversing_def)
  have "session_run session_peer s3" using r0 s1(1) s2(1) s3(1) session_run.turn by meson
  from this envelope_authorized [OF this] s3(2) show ?thesis by auto
qed

definition session_clear :: session where
  "session_clear = session_start\<lparr>se_io := ([], [Chunk (''STARTTLS'' @ CRLF)]), se_helo := ''c.d'', se_extended := True,
     se_from := Some ''s@b.c''\<rparr>"

theorem starttls_discards_plaintext_witness:
  "\<exists>s'. smtp_turn session_peer session_answers session_clear (empty_queue gate_legacy None) = (Go s', empty_queue gate_legacy None)
    \<and> se_encrypted s' \<and> se_io s' = ([], []) \<and> se_helo s' = [] \<and> se_from s' = None"
proof -
  let ?q = "empty_queue gate_legacy None"
  have "line 512 (se_io session_clear) = Inr (Some (''STARTTLS'' @ CRLF), [], [])"
    by (simp add: session_clear_def line_def feed_def LINE_FEED_def ensure_def framed_iff)
  moreover have "list_all is_ascii_char ''STARTTLS''" "to_ascii_uppercase ''STARTTLS'' = ''STARTTLS''"
    "\<not> eq_ignore_ascii_case ''STARTTLS'' ''MAIL''" by code_simp+
  ultimately have "\<exists>s'. smtp_turn session_peer session_answers session_clear ?q = (Go s', ?q) \<and> se_encrypted s'"
    by (simp add: smtp_turn_def run_command_def dispatch_def smtp_starttls_def session_clear_def session_peer_def session_answers_def
        session_start_def initial_session_def say_def reset_envelope_def Let_def)
  then obtain s' where s': "smtp_turn session_peer session_answers session_clear ?q = (Go s', ?q)" "se_encrypted s'" by blast
  moreover have "\<not> se_encrypted session_clear" by (simp add: session_clear_def session_start_def initial_session_def)
  ultimately show ?thesis using starttls_discards_plaintext [OF s'(1) _ s'(2)] by (auto simp: session_answers_def)
qed

end
