(* ===== verification/NF_Exchange.thy ===== *)
theory NF_Exchange
  imports NF_Relay NF_Session
begin

text \<open>
  Proofs about the exchange with an upstream server. Invariants of a conversation are interpretations
  of the locales \<open>conversation\<close>, \<open>opening_conversation\<close>, \<open>accepting_conversation\<close> and \<open>whole_conversation\<close>, whose
  lemmas carry an invariant of the single steps through the whole exchange. They give what travels in clear,
  when a server took a message, which texts are written and which addresses are used; a cooperating
  server gets the message, and the queue records what the exchange did.
\<close>

section \<open>Invariants of a conversation\<close>

text \<open>What a step promises: from a state with \<open>P\<close> its result and its state satisfy \<open>Q\<close>.\<close>

definition ensures :: "(upstream \<Rightarrow> bool) \<Rightarrow> 'a exchange \<Rightarrow> ('a result \<Rightarrow> upstream \<Rightarrow> bool) \<Rightarrow> bool" where
  "ensures P m Q \<longleftrightarrow> (\<forall>s. P s \<longrightarrow> Q (fst (m s)) (snd (m s)))"

lemma ensures_bind:
  assumes "ensures P m R" "\<And>x. ensures (R (Inr x)) (f x) Q" "\<And>e s. R (Inl e) s \<Longrightarrow> Q (Inl e) s"
  shows "ensures P (ex_bind m f) Q"
  using assms by (fastforce simp: ensures_def ex_bind_def split: prod.split sum.split)

lemma ensures_then:
  assumes "ensures P m (\<lambda>r s. r = Inr v \<and> R s)" "ensures R (f v) Q"
  shows "ensures P (ex_bind m f) Q"
  using assms by (auto simp: ensures_def ex_bind_def split: prod.split sum.split)

lemma ensures_return: "(\<And>s. P s \<Longrightarrow> Q (Inr x) s) \<Longrightarrow> ensures P (ex_return x) Q"
  by (simp add: ensures_def ex_return_def)

lemma ensures_lift: "(\<And>s. P s \<Longrightarrow> Q r s) \<Longrightarrow> ensures P (ex_lift r) Q"
  by (simp add: ensures_def ex_lift_def)

lemma ensures_trace: "(\<And>s. P s \<Longrightarrow> Q (Inr ()) (s\<lparr>us_trace := f (us_trace s)\<rparr>)) \<Longrightarrow> ensures P (ex_trace f) Q"
  by (simp add: ensures_def ex_trace_def)

lemma ensures_write:
  "(\<And>s r. P s \<Longrightarrow> Q r (s\<lparr>us_sent := us_sent s @ [(us_encrypted s, t)]\<rparr>)) \<Longrightarrow> ensures P (ex_write net t) Q"
  by (simp add: ensures_def ex_write_def)

lemma ensures_weaken: "ensures P m Q \<Longrightarrow> (\<And>r s. Q r s \<Longrightarrow> Q' r s) \<Longrightarrow> ensures P m Q'"
  by (simp add: ensures_def)

lemma ensures_at: "ensures P m Q \<Longrightarrow> P s \<Longrightarrow> m s = (r, s') \<Longrightarrow> Q r s'"
  by (fastforce simp: ensures_def)

text \<open>
  An invariant that the record of an attempt, reading and the writing of the texts in \<open>W\<close>
  keep. Every step of the conversation that writes only such texts keeps it.
\<close>

locale conversation =
  fixes I :: "upstream \<Rightarrow> bool" and W :: "string set"
  assumes begins: "I s \<Longrightarrow> I (s\<lparr>us_trace := trace_begin phase (us_trace s)\<rparr>)"
    and details: "I s \<Longrightarrow> I (s\<lparr>us_trace := trace_detail tx msg (us_trace s)\<rparr>)"
    and responds: "I s \<Longrightarrow> I (s\<lparr>us_trace := response_line tx msg (us_trace s)\<rparr>)"
    and reads: "I s \<Longrightarrow> I (s\<lparr>us_io := io, us_heard := us_heard s @ [(length (us_sent s), b)]\<rparr>)"
    and writes: "I s \<Longrightarrow> msg \<in> W \<Longrightarrow> I (s\<lparr>us_sent := us_sent s @ [(us_encrypted s, msg)]\<rparr>)"
begin

lemma reply_lines_keep: "I s \<Longrightarrow> I (snd (read_reply_lines tx k code ls s))"
proof (induction k arbitrary: code ls s)
  case (Suc k)
  have "I (s\<lparr>us_io := io, us_heard := us_heard s @ [(length (us_sent s), b)], us_trace := response_line tx b (us_trace s)\<rparr>)" for io b
    using responds [OF reads [OF Suc.prems, of b io], of tx b] by simp
  with Suc show ?case by (auto simp: Let_def split: sum.split option.split prod.split)
qed simp

lemma response_keeps: "ensures I (read_response tx) (\<lambda>_. I)"
  by (simp add: ensures_def read_response_def reply_lines_keep)

lemma command_keeps: "msg \<in> W \<Longrightarrow> ensures I (upstream_command tx net msg phase) (\<lambda>_. I)"
  unfolding upstream_command_def
  by (intro ensures_bind [where R = "\<lambda>_. I"] ensures_trace ensures_write response_keeps) (auto intro: begins writes)

lemma begin_keeps: "ensures I (ex_trace (trace_begin phase)) (\<lambda>_. I)"
  by (intro ensures_trace begins)

lemma detail_keeps: "ensures I (ex_trace (trace_detail tx msg)) (\<lambda>_. I)"
  by (intro ensures_trace details)

lemma begin_detail_keeps: "ensures I (ex_trace (\<lambda>t. trace_detail tx msg (trace_begin phase t))) (\<lambda>_. I)"
proof (rule ensures_trace)
  fix s assume "I s"
  from details [OF begins [OF this, of phase], of tx msg]
  show "I (s\<lparr>us_trace := trace_detail tx msg (trace_begin phase (us_trace s))\<rparr>)" by simp
qed

lemma detail_begin_keeps: "ensures I (ex_trace (\<lambda>t. trace_begin phase (trace_detail tx msg t))) (\<lambda>_. I)"
proof (rule ensures_trace)
  fix s assume "I s"
  from begins [OF details [OF this, of tx msg], of phase]
  show "I (s\<lparr>us_trace := trace_begin phase (trace_detail tx msg (us_trace s))\<rparr>)" by simp
qed

lemma write_keeps: "msg \<in> W \<Longrightarrow> ensures I (ex_write net msg) (\<lambda>_. I)"
  by (intro ensures_write writes)

lemmas steps_keep = response_keeps command_keeps begin_keeps detail_keeps begin_detail_keeps detail_begin_keeps write_keeps

end

text \<open>An invariant that choosing an address and opening its connection keep, too.\<close>

locale opening_conversation = conversation +
  assumes opens: "I s \<Longrightarrow> I (s\<lparr>us_io := io, us_encrypted := b\<rparr>)"
    and peers: "I s \<Longrightarrow> I (s\<lparr>us_trace := set_peer p (us_trace s)\<rparr>)"
begin

lemma open_keeps: "ensures I (open_connection stream b) (\<lambda>_. I)"
  by (simp add: ensures_def open_connection_def opens)

lemma connect_keeps: "ensures I (connect_first tx net cfg port ips) (\<lambda>_. I)"
proof (induction ips)
  case (Cons ip ips)
  have start: "ensures I (ex_trace (\<lambda>t. trace_detail tx c (set_peer p (trace_begin phase t)))) (\<lambda>_. I)" for c p phase
  proof (rule ensures_trace)
    fix s assume "I s"
    from details [OF peers [OF begins [OF this, of phase], of p], of tx c]
    show "I (s\<lparr>us_trace := trace_detail tx c (set_peer p (trace_begin phase (us_trace s)))\<rparr>)" by simp
  qed
  show ?case using Cons
    by (auto simp: Let_def split: attempted.split
        intro!: ensures_bind [where R = "\<lambda>_. I"] start detail_keeps ensures_return ensures_lift)
qed (simp add: ensures_return)

lemma empty_buffer_keeps: "ensures I empty_buffer (\<lambda>_. I)"
  by (simp add: ensures_def empty_buffer_def)

end

text \<open>The texts of the handover of a message.\<close>

definition handover_texts :: "upstream_config \<Rightarrow> job \<Rightarrow> string \<Rightarrow> string set" where
  "handover_texts cfg j raw =
     {''MAIL FROM:<'' @ jb_sender j @ ''>'' @ mail_parameters ehlo raw @ CRLF | ehlo. True}
     \<union> {''RCPT TO:<'' @ jb_destination j @ ''>'' @ CRLF, ''DATA'' @ CRLF, dot_stuff raw @ ''.'' @ CRLF, ''QUIT'' @ CRLF}
     \<union> {''RCPT TO:<'' @ target @ ''>'' @ CRLF | target. recipient_fallback cfg j = Some target}"

text \<open>An invariant that the acceptance by the upstream server keeps, too, holds after the whole handover.\<close>

locale accepting_conversation = conversation +
  assumes accepts: "I s \<Longrightarrow> I (s\<lparr>us_trace := (us_trace s)\<lparr>rt_accepted := True\<rparr>\<rparr>)"
begin

lemma accept_keeps: "ensures I (ex_trace (\<lambda>t. trace_begin phase (t\<lparr>rt_accepted := True\<rparr>))) (\<lambda>_. I)"
proof (rule ensures_trace)
  fix s assume "I s"
  from begins [OF accepts [OF this], of phase]
  show "I (s\<lparr>us_trace := trace_begin phase ((us_trace s)\<lparr>rt_accepted := True\<rparr>)\<rparr>)" by simp
qed

lemma quit_keeps:
  assumes "''QUIT'' @ CRLF \<in> W"
  shows "ensures I (ex_bind (ex_quit net) (quit_noted tx)) (\<lambda>_. I)"
proof (rule ensures_bind [where R = "\<lambda>_. I"])
  show "ensures I (ex_quit net) (\<lambda>_. I)" using writes [OF _ assms] by (simp add: ensures_def ex_quit_def)
  show "ensures I (quit_noted tx q) (\<lambda>_. I)" for q
    by (cases q) (auto simp: quit_noted_def intro!: ensures_bind [where R = "\<lambda>_. I"] steps_keep ensures_return ensures_lift)
qed simp

lemma transfer_keeps:
  assumes "dot_stuff raw @ ''.'' @ CRLF \<in> W" "''QUIT'' @ CRLF \<in> W"
  shows "ensures I (transfer_data tx net raw) (\<lambda>_. I)"
  unfolding transfer_data_def using assms
  by (auto intro!: ensures_bind [where R = "\<lambda>_. I"] steps_keep accept_keeps quit_keeps ensures_return)

lemma hand_over_keeps:
  assumes "handover_texts cfg j raw \<subseteq> W"
  shows "ensures I (hand_over tx net cfg j raw ehlo) (\<lambda>_. I)"
proof -
  have w: "''MAIL FROM:<'' @ jb_sender j @ ''>'' @ mail_parameters ehlo raw @ CRLF \<in> W"
    "''RCPT TO:<'' @ jb_destination j @ ''>'' @ CRLF \<in> W" "''DATA'' @ CRLF \<in> W" "dot_stuff raw @ ''.'' @ CRLF \<in> W" "''QUIT'' @ CRLF \<in> W"
    "\<And>target. recipient_fallback cfg j = Some target \<Longrightarrow> ''RCPT TO:<'' @ target @ ''>'' @ CRLF \<in> W"
    using assms unfolding handover_texts_def by blast+
  have "ensures I (case (if unknown_recipient r then recipient_fallback cfg j else None) of None \<Rightarrow> ex_return r
      | Some target \<Rightarrow> ex_bind (ex_trace (trace_detail tx t)) (\<lambda>_.
          upstream_command tx net (''RCPT TO:<'' @ target @ ''>'' @ CRLF) ''rcpt_fallback'')) (\<lambda>_. I)" for r t
    using w(6) by (auto split: option.split intro!: ensures_bind [where R = "\<lambda>_. I"] steps_keep ensures_return)
  then show ?thesis unfolding hand_over_def using w
    by (auto intro!: ensures_bind [where R = "\<lambda>_. I"] command_keeps transfer_keeps ensures_return)
qed

lemma extensions_keep:
  assumes "handover_texts cfg j raw \<subseteq> W"
  shows "ensures I (check_extensions tx net cfg j raw ehlo) (\<lambda>_. I)"
  unfolding check_extensions_def using hand_over_keeps [OF assms]
  by (auto intro!: ensures_bind [where R = "\<lambda>_. I"] detail_keeps ensures_return)

end

text \<open>The texts before the connection is encrypted, and those of a whole conversation.\<close>

definition greeting_texts :: "upstream_config \<Rightarrow> string set" where
  "greeting_texts cfg = {''EHLO '' @ uc_hostname cfg @ CRLF, ''STARTTLS'' @ CRLF}"

text \<open>An invariant of whole conversations, whether or not they are encrypted.\<close>

locale whole_conversation = accepting_conversation + opening_conversation
begin

lemma secured_keeps:
  assumes "handover_texts cfg j raw \<union> greeting_texts cfg \<subseteq> W"
  shows "ensures I (secured tx net cfg h j raw) (\<lambda>_. I)"
  unfolding secured_def using assms extensions_keep [of cfg j raw]
  by (auto simp: greeting_texts_def intro!: ensures_bind [where R = "\<lambda>_. I"] command_keeps begin_keeps detail_keeps
      empty_buffer_keeps open_keeps ensures_return ensures_lift)

lemma converse_keeps:
  assumes "handover_texts cfg j raw \<union> greeting_texts cfg \<subseteq> W"
  shows "ensures I (upstream_session tx net cfg h loopback j raw) (\<lambda>_. I)"
  unfolding upstream_session_def using assms extensions_keep [of cfg j raw] secured_keeps [OF assms]
  by (auto simp: greeting_texts_def intro!: ensures_bind [where R = "\<lambda>_. I"] steps_keep ensures_return)

lemma deliver_keeps:
  assumes "handover_texts cfg j raw \<union> greeting_texts cfg \<subseteq> W"
  shows "ensures I (deliver_host tx net cfg j raw route) (\<lambda>_. I)"
  unfolding deliver_host_def using converse_keeps [OF assms]
  by (auto simp: Let_def split: option.split prod.split intro!: ensures_bind [where R = "\<lambda>_. I"] begin_keeps detail_keeps
      connect_keeps open_keeps ensures_return ensures_lift)

end

section \<open>The record of an attempt\<close>

lemma trace_kept [simp]:
  "rt_accepted (trace_flush t) = rt_accepted t" "rt_accepted (trace_begin phase t) = rt_accepted t"
  "rt_accepted (trace_detail tx c t) = rt_accepted t" "rt_accepted (response_line tx c t) = rt_accepted t"
  "rt_accepted (mark_cut b t) = rt_accepted t" "rt_accepted (set_peer p t) = rt_accepted t"
  by (simp_all add: trace_flush_def trace_begin_def trace_detail_def response_line_def mark_cut_def set_peer_def Let_def
      split: option.split prod.split)

abbreviation trace_events :: "relay_trace \<Rightarrow> relay_event list" where
  "trace_events t \<equiv> at_events (rt_attempt t)"

lemma events_kept [simp]:
  "trace_events (trace_detail tx c t) = trace_events t" "trace_events (response_line tx c t) = trace_events t"
  "trace_events (mark_cut b t) = trace_events t" "trace_events (set_peer p t) = trace_events t"
  by (simp_all add: trace_detail_def response_line_def mark_cut_def set_peer_def Let_def split: option.split prod.split)

lemma flush_bounded: "length (trace_events t) \<le> MAX_EVENTS \<Longrightarrow> length (trace_events (trace_flush t)) \<le> MAX_EVENTS"
  by (auto simp: trace_flush_def Let_def MAX_EVENTS_def split: option.split)

interpretation bounded: whole_conversation "\<lambda>s. length (trace_events (us_trace s)) \<le> MAX_EVENTS" UNIV
  by unfold_locales (auto simp: trace_begin_def flush_bounded)

lemma trace_bounded: "length (trace_events (us_trace (snd (deliver_host tx net cfg j raw route (new_upstream tx route))))) \<le> MAX_EVENTS"
  using bounded.deliver_keeps [of cfg j raw tx net route]
  by (auto simp: ensures_def new_upstream_def trace_new_def split: prod.split)

interpretation spoken: whole_conversation "\<lambda>s. snd ` set (us_sent s) \<subseteq> V" V for V
  by unfold_locales auto

definition clear_ok :: "upstream_config \<Rightarrow> upstream \<Rightarrow> bool" where
  "clear_ok cfg s \<longleftrightarrow> (\<forall>(enc, t) \<in> set (us_sent s). enc \<or> t \<in> greeting_texts cfg)"

interpretation clear: opening_conversation "clear_ok cfg" "greeting_texts cfg" for cfg
  by unfold_locales (auto simp: clear_ok_def)

interpretation encrypted: accepting_conversation "\<lambda>s. us_encrypted s \<and> clear_ok cfg s" UNIV for cfg
  by unfold_locales (auto simp: clear_ok_def)

section \<open>What travels in clear\<close>

lemma open_encrypts: "ensures (clear_ok cfg) (open_connection stream True) (\<lambda>_ s. us_encrypted s \<and> clear_ok cfg s)"
  by (simp add: ensures_def open_connection_def clear_ok_def)

lemma ensures_encrypted:
  "ensures (\<lambda>s. us_encrypted s \<and> clear_ok cfg s) m (\<lambda>_ s. us_encrypted s \<and> clear_ok cfg s) \<Longrightarrow>
   ensures (\<lambda>s. us_encrypted s \<and> clear_ok cfg s) m (\<lambda>_. clear_ok cfg)"
  by (simp add: ensures_def)

lemma ensures_reopened:
  "ensures (\<lambda>s. us_encrypted s \<and> clear_ok cfg s) m (\<lambda>_ s. us_encrypted s \<and> clear_ok cfg s) \<Longrightarrow>
   ensures (clear_ok cfg) (ex_bind (open_connection stream True) (\<lambda>_. m)) (\<lambda>_. clear_ok cfg)"
  by (rule ensures_bind [OF open_encrypts]) (auto intro: ensures_encrypted)

lemma session_encrypted:
  "ensures (\<lambda>s. us_encrypted s \<and> clear_ok cfg s) (ex_bind (upstream_command tx net msg phase) (\<lambda>ehlo.
     if ur_code ehlo \<noteq> 250 then ex_return (relay_failure ehlo) else check_extensions tx net cfg j raw ehlo))
     (\<lambda>_ s. us_encrypted s \<and> clear_ok cfg s)"
  by (rule ensures_bind, rule encrypted.command_keeps) (auto intro!: encrypted.extensions_keep ensures_return)

lemma secured_clear: "ensures (clear_ok cfg) (secured tx net cfg h j raw) (\<lambda>_. clear_ok cfg)"
  unfolding secured_def
  by (auto simp del: append.simps simp: greeting_texts_def intro!: ensures_reopened session_encrypted
      ensures_bind [where R = "\<lambda>_. clear_ok cfg"] clear.command_keeps clear.begin_keeps
      clear.detail_keeps clear.empty_buffer_keeps ensures_return ensures_lift)

lemma converse_clear:
  assumes "uc_require_tls cfg \<or> \<not> loopback"
  shows "ensures (clear_ok cfg) (upstream_session tx net cfg h loopback j raw) (\<lambda>_. clear_ok cfg)"
  unfolding upstream_session_def using assms secured_clear [of cfg tx net h j raw]
  by (auto simp: greeting_texts_def intro!: ensures_bind [where R = "\<lambda>_. clear_ok cfg"] clear.steps_keep ensures_return)

text \<open>Trying addresses writes nothing, and uses only an address of the list that answers and that the policy allows.\<close>

definition reached :: "upstream_net \<Rightarrow> upstream_config \<Rightarrow> ip_addr list \<Rightarrow> chunk list \<Rightarrow> bool \<Rightarrow> bool" where
  "reached net cfg ips stream loopback \<longleftrightarrow>
     (\<exists>ip \<in> set ips. un_connect net ip = Succeeded stream \<and> loopback = loopback_test cfg ip \<and> (safe_ip ip \<or> loopback))"

lemma connect_reaches:
  "snd (connect_first tx net cfg port ips s) = s\<lparr>us_trace := us_trace (snd (connect_first tx net cfg port ips s))\<rparr>
   \<and> (\<forall>stream lb. fst (connect_first tx net cfg port ips s) = Inr (Some (stream, lb)) \<longrightarrow> reached net cfg ips stream lb)"
proof (induction ips arbitrary: s)
  case (Cons ip ips)
  note IH = Cons [of "s\<lparr>us_trace := t\<rparr>" for t, simplified]
  show ?case using IH
    by (auto simp: Let_def ex_bind_def ex_trace_def ex_lift_def ex_return_def reached_def split: attempted.split prod.split)
qed (simp add: ex_return_def)
lemma connect_clear:
  assumes "\<And>ip stream. loopback_test cfg ip \<Longrightarrow> un_connect net ip = Succeeded stream \<Longrightarrow> uc_require_tls cfg"
  shows "ensures (clear_ok cfg) (connect_first tx net cfg port ips)
    (\<lambda>r s. clear_ok cfg s \<and> (\<forall>stream lb. r = Inr (Some (stream, lb)) \<longrightarrow> uc_require_tls cfg \<or> \<not> lb))"
  using clear.connect_keeps [of cfg tx net cfg port ips] connect_reaches [of tx net cfg port ips] assms
  unfolding ensures_def reached_def by metis

lemma session_clear:
  "ensures (\<lambda>s. clear_ok cfg s \<and> (\<forall>stream lb. c = Some (stream, lb) \<longrightarrow> uc_require_tls cfg \<or> \<not> lb))
     (case c of None \<Rightarrow> ex_return out
      | Some (stream, loopback) \<Rightarrow> ex_bind (open_connection stream False) (\<lambda>_. upstream_session tx net cfg h loopback j raw))
     (\<lambda>_. clear_ok cfg)"
proof (cases c)
  case (Some p)
  obtain stream lb where p: "p = (stream, lb)" by (cases p)
  have "ensures (clear_ok cfg) (ex_bind (open_connection stream False) (\<lambda>_. upstream_session tx net cfg h lb j raw)) (\<lambda>_. clear_ok cfg)"
    if "uc_require_tls cfg \<or> \<not> lb"
    by (rule ensures_bind [OF clear.open_keeps converse_clear [OF that]])
  then show ?thesis by (auto simp: Some p ensures_def)
qed (simp add: ensures_def ex_return_def)

lemma connected_clear:
  assumes "\<And>ip stream. loopback_test cfg ip \<Longrightarrow> un_connect net ip = Succeeded stream \<Longrightarrow> uc_require_tls cfg"
  shows "ensures (clear_ok cfg) (ex_bind (connect_first tx net cfg port ips) (\<lambda>c.
     case c of None \<Rightarrow> ex_return out
     | Some (stream, loopback) \<Rightarrow> ex_bind (open_connection stream False) (\<lambda>_. upstream_session tx net cfg h loopback j raw)))
     (\<lambda>_. clear_ok cfg)"
proof (rule ensures_bind [OF connect_clear])
  fix c
  show "ensures (\<lambda>s. clear_ok cfg s \<and> (\<forall>stream lb. Inr c = Inr (Some (stream, lb)) \<longrightarrow> uc_require_tls cfg \<or> \<not> lb))
      (case c of None \<Rightarrow> ex_return out
       | Some (stream, loopback) \<Rightarrow> ex_bind (open_connection stream False) (\<lambda>_. upstream_session tx net cfg h loopback j raw))
      (\<lambda>_. clear_ok cfg)" using session_clear [of cfg c out tx net h j raw] by simp
qed (use assms in auto)

lemma deliver_clear:
  assumes "\<And>ip stream. loopback_test cfg ip \<Longrightarrow> un_connect net ip = Succeeded stream \<Longrightarrow> uc_require_tls cfg"
  shows "ensures (clear_ok cfg) (deliver_host tx net cfg j raw route) (\<lambda>_. clear_ok cfg)"
  unfolding deliver_host_def Let_def using assms
  by (auto simp only: split: prod.split intro!: ensures_bind [where R = "\<lambda>_. clear_ok cfg"] connected_clear clear.begin_keeps
      clear.detail_keeps ensures_lift)

lemma attempt_state:
  "attempt_route tx net cfg j raw route = (out, a, s) \<Longrightarrow> snd (deliver_host tx net cfg j raw route (new_upstream tx route)) = s"
  by (auto simp: attempt_route_def split: prod.splits)

section \<open>One server takes a message\<close>

text \<open>
  What it means that a server took a message, in terms of the conversation alone: the message was written right
  after a DATA command that the server had answered with 354, and the answer to it is a well formed
  reply of code 250. An answer is what was read after a text was written and before the next.
\<close>

definition answer_to :: "nat \<Rightarrow> upstream \<Rightarrow> string list" where
  "answer_to n s = map snd (filter (\<lambda>(m, _). m = n) (us_heard s))"

definition replies :: "string \<Rightarrow> string list \<Rightarrow> bool" where
  "replies c ls \<longleftrightarrow> ls \<noteq> [] \<and> take 4 (last ls) = c @ '' '' \<and> list_all (\<lambda>l. take 4 l = c @ ''-'') (butlast ls)"

definition took :: "string \<Rightarrow> upstream \<Rightarrow> bool" where
  "took raw s \<longleftrightarrow> (\<exists>k < length (us_sent s) - 1.
     snd (us_sent s ! k) = ''DATA'' @ CRLF \<and> replies ''354'' (answer_to (Suc k) s)
     \<and> snd (us_sent s ! Suc k) = dot_stuff raw @ ''.'' @ CRLF \<and> replies ''250'' (answer_to (Suc (Suc k)) s))"

lemma conversation_kept [simp]:
  "answer_to n (s\<lparr>us_trace := t\<rparr>) = answer_to n s" "took raw (s\<lparr>us_trace := t\<rparr>) = took raw s"
  by (simp_all add: answer_to_def took_def)

lemma replies_Cons: "replies c (l # ls) \<longleftrightarrow> (if ls = [] then take 4 l = c @ '' '' else take 4 l = c @ ''-'' \<and> replies c ls)"
  by (auto simp: replies_def)

text \<open>The reader of replies decides as this specification does, whatever the lines are.\<close>

lemma three_digit_value:
  fixes i j k l m n :: nat
  assumes "i \<le> 9" "j \<le> 9" "k \<le> 9" "l \<le> 9" "m \<le> 9" "n \<le> 9"
  shows "(i * 10 + j) * 10 + k = (l * 10 + m) * 10 + n \<longleftrightarrow> i = l \<and> j = m \<and> k = n"
proof
  assume "(i * 10 + j) * 10 + k = (l * 10 + m) * 10 + n"
  then have e: "100 * i + 10 * j + k = 100 * l + 10 * m + n" by (simp add: algebra_simps)
  then have i: "i = l" using assms by simp
  with e assms have "j = m" by simp
  with e i show "i = l \<and> j = m \<and> k = n" by simp
qed simp

lemma digit_value: "is_digit x \<Longrightarrow> \<exists>i \<le> 9. byte x = 48 + i"
  by (intro exI [of _ "byte x - 48"]) (auto simp: is_digit_def)

lemma reply_code_value:
  assumes "is_digit x" "is_digit y" "is_digit z"
  shows "reply_code (x # y # z # r) = Some 250 \<longleftrightarrow> [x, y, z] = ''250''" "reply_code (x # y # z # r) = Some 354 \<longleftrightarrow> [x, y, z] = ''354''"
proof -
  obtain i j k where v: "byte x = 48 + i" "byte y = 48 + j" "byte z = 48 + k" and b: "i \<le> 9" "j \<le> 9" "k \<le> 9"
    using assms [THEN digit_value] by blast
  have r: "reply_code (x # y # z # r) = Some ((i * 10 + j) * 10 + k)"
    using v b by (simp add: reply_code_def is_digit_def)
  have c: "byte (CHR ''2'') = 48 + 2" "byte (CHR ''5'') = 48 + 5" "byte (CHR ''0'') = 48 + 0" "byte (CHR ''3'') = 48 + 3" "byte (CHR ''4'') = 48 + 4"
    by (simp_all add: byte_def)
  have e: "x = a \<longleftrightarrow> i = n" if "byte a = 48 + n" for a n using byte_eq_iff [of x a] v(1) that by simp
  have f: "y = a \<longleftrightarrow> j = n" if "byte a = 48 + n" for a n using byte_eq_iff [of y a] v(2) that by simp
  have g: "z = a \<longleftrightarrow> k = n" if "byte a = 48 + n" for a n using byte_eq_iff [of z a] v(3) that by simp
  show "reply_code (x # y # z # r) = Some 250 \<longleftrightarrow> [x, y, z] = ''250''" "reply_code (x # y # z # r) = Some 354 \<longleftrightarrow> [x, y, z] = ''354''"
    using three_digit_value [OF b, of 2 5 0] three_digit_value [OF b, of 3 5 4] by (simp_all add: r e [OF c(1)] e [OF c(4)] f [OF c(2)] g [OF c(3)] g [OF c(5)])
qed

lemma short_line: "framed b \<Longrightarrow> length b < 6 \<Longrightarrow> take 4 b \<noteq> x # y # z # w # [] \<or> z = CHR 0x0D \<or> w = CHR 0x0D"
proof -
  assume "framed b" "length b < 6"
  then obtain m where m: "b = m @ CRLF" "length m < 4" by (auto simp: framed_iff)
  then show ?thesis by (cases m; cases "tl m"; cases "tl (tl m)"; cases "tl (tl (tl m))") auto
qed

abbreviation watched :: "(nat \<times> string) set" where
  "watched \<equiv> {(250, ''250''), (354, ''354'')}"

lemma reply_line_is:
  assumes "framed b" "(c, d) \<in> watched"
  shows "(\<exists>l. parse_reply_line tx code b = Inr (c, l, more_follow)) \<longleftrightarrow>
    take 4 b = d @ (if more_follow then ''-'' else '' '') \<and> (code = None \<or> code = Some c)"
proof (cases "6 \<le> length b")
  case True
  then obtain x y z w r where b: "b = x # y # z # w # r" by (auto simp: Suc_le_length_iff numeral_eq_Suc)
  have digits: "is_digit x" "is_digit y" "is_digit z" if "[x, y, z] = d" using that assms(2) by (auto simp: is_digit_def byte_def)
  have p: "(\<exists>l. parse_reply_line tx code b = Inr (c, l, more_follow)) \<longleftrightarrow> is_digit x \<and> is_digit y \<and> is_digit z
      \<and> w = (if more_follow then CHR ''-'' else CHR '' '') \<and> reply_code b = Some c \<and> (code = None \<or> code = Some c)"
    using True assms(2) by (auto simp: parse_reply_line_def and_then_Inr_iff ensure_def Let_def b reply_code_def)
  show ?thesis unfolding p using assms(2) digits reply_code_value [of x y z "w # r"] by (auto simp: b)
next
  case False
  have "take 4 b \<noteq> d @ [sep]" if "sep \<noteq> CHR 0x0D" for sep
    using that assms(2) short_line [OF assms(1), of "d ! 0" "d ! 1" "d ! 2" sep] False by auto
  from this [of "CHR ''-''"] this [of "CHR '' ''"] False show ?thesis
    by (auto simp: parse_reply_line_def and_then_Inr_iff ensure_def)
qed

lemma line_framed: "line n io = Inr (Some b, io') \<Longrightarrow> framed b"
  using read_line_framed by (auto simp: line_def)

lemma lines_heard:
  assumes "(c, d) \<in> watched"
  shows "\<exists>new io t. snd (read_reply_lines tx k code acc s)
        = s\<lparr>us_io := io, us_heard := us_heard s @ map (Pair (length (us_sent s))) new, us_trace := t\<rparr>
      \<and> rt_accepted t = rt_accepted (us_trace s)
      \<and> ((\<exists>x. fst (read_reply_lines tx k code acc s) = Inr x \<and> ur_code x = c) \<longleftrightarrow> replies d new \<and> (code = None \<or> code = Some c))"
proof (induction k arbitrary: code acc s)
  case 0
  show ?case by (intro exI [of _ "[]"] exI [of _ "us_io s"] exI [of _ "us_trace s"]) (simp add: replies_def)
next
  case (Suc k)
  consider e where "line 512 (us_io s) = Inl e" | io where "line 512 (us_io s) = Inr (None, io)"
    | b io where "line 512 (us_io s) = Inr (Some b, io)" by (metis option.exhaust prod.exhaust sum.exhaust)
  then show ?case
  proof cases
    case (3 b io)
    let ?s1 = "s\<lparr>us_io := io, us_heard := us_heard s @ [(length (us_sent s), b)], us_trace := response_line tx b (us_trace s)\<rparr>"
    have line_is: "(\<exists>l. parse_reply_line tx code b = Inr (c, l, m)) \<longleftrightarrow>
        take 4 b = d @ (if m then ''-'' else '' '') \<and> (code = None \<or> code = Some c)" for m
      by (rule reply_line_is [OF line_framed [OF 3] assms])
    show ?thesis
    proof (cases "\<exists>n l. parse_reply_line tx code b = Inr (n, l, True)")
      case True
      then obtain n l where p: "parse_reply_line tx code b = Inr (n, l, True)" by blast
      from Suc [of "Some n" "acc @ [l]" ?s1] obtain new io' t where r:
        "snd (read_reply_lines tx k (Some n) (acc @ [l]) ?s1)
          = ?s1\<lparr>us_io := io', us_heard := us_heard ?s1 @ map (Pair (length (us_sent s))) new, us_trace := t\<rparr>"
        "rt_accepted t = rt_accepted (us_trace s)"
        "(\<exists>x. fst (read_reply_lines tx k (Some n) (acc @ [l]) ?s1) = Inr x \<and> ur_code x = c) \<longleftrightarrow> replies d new \<and> n = c" by auto
      have "replies d (b # new) \<and> (code = None \<or> code = Some c) \<longleftrightarrow> replies d new \<and> n = c"
        using line_is [of True] line_is [of False] p by (auto simp: replies_Cons replies_def)
      then show ?thesis using 3 p r by (intro exI [of _ "b # new"] exI [of _ io'] exI [of _ t]) (simp add: Let_def)
    next
      case False
      then show ?thesis using 3 line_is [of False]
        by (intro exI [of _ "[b]"] exI [of _ io] exI [of _ "response_line tx b (us_trace s)"])
          (auto simp: Let_def replies_Cons split: sum.splits if_splits)
    qed
  qed (auto intro!: exI [of _ "[]"] exI [of _ "fst (us_io s)"] exI [of _ "snd (us_io s)"] exI [of _ "us_trace s"] simp: replies_def)
qed

lemma response_heard:
  assumes "(c, d) \<in> watched"
  shows "\<exists>new io t. snd (read_response tx s) = s\<lparr>us_io := io, us_heard := us_heard s @ map (Pair (length (us_sent s))) new, us_trace := t\<rparr>
      \<and> rt_accepted t = rt_accepted (us_trace s)
      \<and> ((\<exists>x. fst (read_response tx s) = Inr x \<and> ur_code x = c) \<longleftrightarrow> replies d new)"
  using lines_heard [OF assms, of tx 100 None "[]" s] by (simp add: read_response_def)

text \<open>
  Before the message is written: nothing was accepted, DATA is not among what was written, and nothing was
  heard in answer to what is yet to be written.
\<close>

abbreviation DATA_LINE :: string where
  "DATA_LINE \<equiv> ''DATA'' @ CRLF"

definition in_step :: "upstream \<Rightarrow> bool" where
  "in_step s \<longleftrightarrow> \<not> rt_accepted (us_trace s) \<and> (\<forall>(n, _) \<in> set (us_heard s). n \<le> length (us_sent s))"

definition fresh :: "upstream \<Rightarrow> bool" where
  "fresh s \<longleftrightarrow> in_step s \<and> DATA_LINE \<notin> snd ` set (us_sent s)"

lemma unanswered: "\<forall>(n, _) \<in> set (us_heard s). n < m \<Longrightarrow> answer_to m s = []"
  by (fastforce simp: answer_to_def filter_empty_conv)

interpretation fresh: opening_conversation fresh "- {DATA_LINE}"
  by unfold_locales (auto simp: fresh_def in_step_def)

lemma unsaid: "m \<notin> snd ` set xs \<Longrightarrow> k < length xs \<Longrightarrow> snd (xs ! k) \<noteq> m"
  using nth_mem by blast

lemma fresh_not_taken:
  assumes "fresh s"
  shows "\<not> took raw s"
proof -
  have "DATA_LINE \<notin> snd ` set (us_sent s)" using assms unfolding fresh_def by blast
  from unsaid [OF this] have "snd (us_sent s ! k) \<noteq> DATA_LINE" if "k < length (us_sent s) - 1" for k
    using that less_imp_diff_less by (metis diff_le_self less_le_trans)
  then show ?thesis unfolding took_def by blast
qed

text \<open>After DATA was written and answered with 354, and after the message was written, too.\<close>

definition data_open :: "upstream \<Rightarrow> bool" where
  "data_open s \<longleftrightarrow> in_step s \<and> (\<exists>pre e. us_sent s = pre @ [(e, DATA_LINE)] \<and> DATA_LINE \<notin> snd ` set pre)"

definition given :: "string \<Rightarrow> upstream \<Rightarrow> bool" where
  "given raw s \<longleftrightarrow> in_step s \<and> (\<exists>pre e e'. us_sent s = pre @ [(e, DATA_LINE), (e', dot_stuff raw @ ''.'' @ CRLF)]
     \<and> DATA_LINE \<notin> snd ` set pre \<and> replies ''354'' (answer_to (Suc (length pre)) s))"

lemma message_not_data: "dot_stuff raw @ ''.'' @ CRLF \<noteq> DATA_LINE"
proof
  assume "dot_stuff raw @ ''.'' @ CRLF = DATA_LINE"
  then have "rev (dot_stuff raw @ ''.'' @ CRLF) = rev DATA_LINE" by (rule arg_cong)
  then show False by simp
qed

lemma took_iff:
  assumes "us_sent s = pre @ (e, DATA_LINE) # (e', dot_stuff raw @ ''.'' @ CRLF) # post"
    and "DATA_LINE \<notin> snd ` set pre" "DATA_LINE \<notin> snd ` set post"
  shows "took raw s \<longleftrightarrow> replies ''354'' (answer_to (Suc (length pre)) s) \<and> replies ''250'' (answer_to (Suc (Suc (length pre))) s)"
proof -
  let ?ss = "us_sent s"
  have k: "k = length pre" if "k < length ?ss" "snd (?ss ! k) = DATA_LINE" for k
  proof (rule ccontr)
    assume ne: "k \<noteq> length pre"
    consider "k < length pre" | "k = Suc (length pre)" | "Suc (length pre) < k" using ne by linarith
    then show False
    proof cases
      case 1
      then have "?ss ! k = pre ! k" by (simp only: assms(1) nth_append if_True)
      then show False using unsaid [OF assms(2) 1] that(2) by metis
    next
      case 2
      then have "?ss ! k = (e', dot_stuff raw @ ''.'' @ CRLF)" by (simp add: assms(1) nth_append)
      then show False using message_not_data [of raw] that(2) by (metis snd_conv)
    next
      case 3
      then have "?ss ! k = post ! (k - length pre - 2)" "k - length pre - 2 < length post"
        using that(1) by (auto simp: assms(1) nth_append nth_Cons' numeral_2_eq_2)
      then show False using unsaid [OF assms(3)] that(2) by metis
    qed
  qed
  have p: "length pre < length ?ss - 1" "snd (?ss ! length pre) = DATA_LINE" "snd (?ss ! Suc (length pre)) = dot_stuff raw @ ''.'' @ CRLF"
    by (simp_all add: assms(1) nth_append)
  show ?thesis
  proof
    assume "took raw s"
    then obtain i where i: "i < length ?ss - 1" "snd (?ss ! i) = DATA_LINE" "replies ''354'' (answer_to (Suc i) s)"
      "replies ''250'' (answer_to (Suc (Suc i)) s)" unfolding took_def by blast
    have "i = length pre" by (rule k [OF _ i(2)]) (use i(1) in simp)
    with i(3,4) show "replies ''354'' (answer_to (Suc (length pre)) s) \<and> replies ''250'' (answer_to (Suc (Suc (length pre))) s)" by simp
  qed (use p in \<open>unfold took_def, blast\<close>)
qed

lemma data_open_not_taken:
  assumes "data_open s"
  shows "\<not> took raw s"
proof -
  obtain pre e where p: "us_sent s = pre @ [(e, DATA_LINE)]" "DATA_LINE \<notin> snd ` set pre" using assms by (auto simp: data_open_def)
  have "snd (us_sent s ! k) \<noteq> DATA_LINE" if "k < length (us_sent s) - 1" for k
  proof -
    have "k < length pre" "us_sent s ! k = pre ! k" using that by (simp_all add: p(1) nth_append)
    then show ?thesis using unsaid [OF p(2)] by metis
  qed
  then show ?thesis unfolding took_def by blast
qed

lemma given_taken:
  assumes "given raw s"
  shows "took raw s \<longleftrightarrow> replies ''250'' (answer_to (length (us_sent s)) s)"
proof -
  obtain pre e e' where p: "us_sent s = pre @ [(e, DATA_LINE), (e', dot_stuff raw @ ''.'' @ CRLF)]" "DATA_LINE \<notin> snd ` set pre"
    "replies ''354'' (answer_to (Suc (length pre)) s)" using assms by (auto simp: given_def)
  with took_iff [of s pre e e' raw "[]"] show ?thesis by simp
qed

lemma heard_answer:
  assumes "answer_to (length (us_sent s)) s = []"
  shows "answer_to n (s\<lparr>us_io := io, us_heard := us_heard s @ map (Pair (length (us_sent s))) new, us_trace := t\<rparr>)
    = (if n = length (us_sent s) then new else answer_to n s)"
proof -
  have "filter (\<lambda>(m, _). m = n) (map (Pair (length (us_sent s))) new) = (if n = length (us_sent s) then map (Pair n) new else [])"
    by (induction new) auto
  then show ?thesis using assms by (simp add: answer_to_def o_def)
qed

text \<open>The steps of the handover: DATA and its answer, the message, and the final reply.\<close>

lemma heard_in_step: "in_step s \<Longrightarrow> rt_accepted t = rt_accepted (us_trace s) \<Longrightarrow>
  in_step (s\<lparr>us_io := io, us_heard := us_heard s @ map (Pair (length (us_sent s))) new, us_trace := t\<rparr>)"
  by (auto simp: in_step_def)

lemma written_in_step: "in_step s \<Longrightarrow> in_step (s\<lparr>us_sent := us_sent s @ [m]\<rparr>) \<and> answer_to (Suc (length (us_sent s))) s = []"
  by (intro conjI unanswered) (fastforce simp: in_step_def)+

lemma answer_sent [simp]: "answer_to n (s\<lparr>us_sent := ms\<rparr>) = answer_to n s"
  by (simp add: answer_to_def)

lemma data_asked:
  "ensures fresh (upstream_command tx net DATA_LINE phase)
     (\<lambda>r s. data_open s \<and> (\<forall>x. r = Inr x \<and> ur_code x = 354 \<longrightarrow> replies ''354'' (answer_to (length (us_sent s)) s)))"
proof -
  let ?unheard = "\<lambda>s. data_open s \<and> answer_to (length (us_sent s)) s = []"
  have "ensures fresh (ex_write net DATA_LINE) (\<lambda>_. ?unheard)"
  proof (rule ensures_write)
    fix s assume f: "fresh s"
    then have "in_step s" "DATA_LINE \<notin> snd ` set (us_sent s)" unfolding fresh_def by blast+
    then show "?unheard (s\<lparr>us_sent := us_sent s @ [(us_encrypted s, DATA_LINE)]\<rparr>)"
      unfolding data_open_def using written_in_step [of s] by (intro conjI exI [of _ "us_sent s"] exI [of _ "us_encrypted s"]) simp_all
  qed
  moreover have "ensures ?unheard (read_response tx)
     (\<lambda>r s. data_open s \<and> (\<forall>x. r = Inr x \<and> ur_code x = 354 \<longrightarrow> replies ''354'' (answer_to (length (us_sent s)) s)))"
    unfolding ensures_def
  proof (intro allI impI)
    fix s assume u: "?unheard s"
    obtain new io t where h: "snd (read_response tx s) = s\<lparr>us_io := io, us_heard := us_heard s @ map (Pair (length (us_sent s))) new, us_trace := t\<rparr>"
      "rt_accepted t = rt_accepted (us_trace s)" "(\<exists>x. fst (read_response tx s) = Inr x \<and> ur_code x = 354) \<longleftrightarrow> replies ''354'' new"
      using response_heard [of 354 "''354''" tx s] by auto
    show "data_open (snd (read_response tx s)) \<and> (\<forall>x. fst (read_response tx s) = Inr x \<and> ur_code x = 354
        \<longrightarrow> replies ''354'' (answer_to (length (us_sent (snd (read_response tx s)))) (snd (read_response tx s))))"
      using u h heard_in_step [where s = s and t = t and io = io and new = new] heard_answer [where s = s and t = t and io = io and new = new] by (auto simp: data_open_def)
  qed
  ultimately have answered: "ensures fresh (ex_bind (ex_write net DATA_LINE) (\<lambda>_. read_response tx))
     (\<lambda>r s. data_open s \<and> (\<forall>x. r = Inr x \<and> ur_code x = 354 \<longrightarrow> replies ''354'' (answer_to (length (us_sent s)) s)))"
    by (rule ensures_bind) simp
  have "ensures fresh (ex_trace (trace_begin phase)) (\<lambda>r s. r = Inr () \<and> fresh s)" by (rule ensures_trace) (simp add: fresh.begins)
  then show ?thesis unfolding upstream_command_def using answered
    by (rule ensures_then [where v = "()" and R = fresh and f = "\<lambda>_. ex_bind (ex_write net DATA_LINE) (\<lambda>_. read_response tx)"])
qed

abbreviation message_given :: "string \<Rightarrow> upstream \<Rightarrow> bool" where
  "message_given raw s \<equiv> given raw s \<and> answer_to (length (us_sent s)) s = []"

lemma message_written:
  "ensures (\<lambda>s. data_open s \<and> replies ''354'' (answer_to (length (us_sent s)) s)) (ex_write net (dot_stuff raw @ ''.'' @ CRLF))
     (\<lambda>_. message_given raw)"
proof (rule ensures_write)
  fix s assume a: "data_open s \<and> replies ''354'' (answer_to (length (us_sent s)) s)"
  then obtain pre e where p: "in_step s" "us_sent s = pre @ [(e, DATA_LINE)]" "DATA_LINE \<notin> snd ` set pre" by (auto simp: data_open_def)
  let ?m = "(us_encrypted s, dot_stuff raw @ ''.'' @ CRLF)"
  have "us_sent s @ [?m] = pre @ [(e, DATA_LINE), ?m]" by (simp add: p(2))
  then show "message_given raw (s\<lparr>us_sent := us_sent s @ [?m]\<rparr>)"
    unfolding given_def using a p written_in_step [OF p(1), of ?m]
    by (intro conjI exI [of _ pre] exI [of _ e] exI [of _ "us_encrypted s"]) simp_all
qed

lemma given_kept: "given raw s \<Longrightarrow> rt_accepted t = rt_accepted (us_trace s) \<Longrightarrow> given raw (s\<lparr>us_trace := t\<rparr>)"
  by (auto simp: given_def in_step_def)

lemma final_reply:
  "ensures (message_given raw) (read_response tx) (\<lambda>r s. given raw s \<and> ((\<exists>x. r = Inr x \<and> ur_code x = 250) \<longleftrightarrow> took raw s))"
  unfolding ensures_def
proof (intro allI impI)
  fix s assume g: "message_given raw s"
  obtain new io t where h: "snd (read_response tx s) = s\<lparr>us_io := io, us_heard := us_heard s @ map (Pair (length (us_sent s))) new, us_trace := t\<rparr>"
    "rt_accepted t = rt_accepted (us_trace s)" "(\<exists>x. fst (read_response tx s) = Inr x \<and> ur_code x = 250) \<longleftrightarrow> replies ''250'' new"
    using response_heard [of 250 "''250''" tx s] by auto
  let ?u = "s\<lparr>us_io := io, us_heard := us_heard s @ map (Pair (length (us_sent s))) new, us_trace := t\<rparr>"
  have answers: "answer_to n ?u = (if n = length (us_sent s) then new else answer_to n s)" for n
    by (rule heard_answer) (use g in simp)
  obtain pre e e' where p: "us_sent s = pre @ [(e, DATA_LINE), (e', dot_stuff raw @ ''.'' @ CRLF)]" "DATA_LINE \<notin> snd ` set pre"
    "replies ''354'' (answer_to (Suc (length pre)) s)" using g unfolding given_def by blast
  have "in_step ?u" using g h(2) heard_in_step unfolding given_def by blast
  moreover have "replies ''354'' (answer_to (Suc (length pre)) ?u)"
  proof -
    have "Suc (length pre) \<noteq> length (us_sent s)" by (simp add: p(1))
    then show ?thesis using p(3) by (simp only: answers if_False)
  qed
  moreover have "us_sent ?u = us_sent s" by simp
  ultimately have u: "given raw ?u" unfolding given_def using p(1,2) by metis
  have "took raw ?u \<longleftrightarrow> replies ''250'' new" using given_taken [OF u] answers [of "length (us_sent s)"] by simp
  then show "given raw (snd (read_response tx s))
      \<and> ((\<exists>x. fst (read_response tx s) = Inr x \<and> ur_code x = 250) \<longleftrightarrow> took raw (snd (read_response tx s)))"
    using u h(3) by (simp only: h(1))
qed

text \<open>A delivery is reported, and the acceptance noted, exactly when the server took the message.\<close>

definition faithful :: "string \<Rightarrow> relay_outcome result \<Rightarrow> upstream \<Rightarrow> bool" where
  "faithful raw r s \<longleftrightarrow> (rt_accepted (us_trace s) \<longleftrightarrow> took raw s)
     \<and> (if rt_accepted (us_trace s) then (case r of Inl _ \<Rightarrow> True | Inr out \<Rightarrow> out = Delivered) else r \<noteq> Inr Delivered)"

lemma fresh_error: "fresh s \<Longrightarrow> faithful raw (Inl e) s"
  using fresh_not_taken by (simp add: faithful_def fresh_def in_step_def)

lemma data_open_error: "data_open s \<Longrightarrow> faithful raw (Inl e) s"
  using data_open_not_taken by (simp add: faithful_def data_open_def in_step_def)

lemma given_refused: "given raw s \<Longrightarrow> \<not> took raw s \<Longrightarrow> r \<noteq> Inr Delivered \<Longrightarrow> faithful raw r s"
  by (simp add: faithful_def given_def in_step_def)

lemma failure_not_delivered: "relay_failure r \<noteq> Delivered"
  by (simp add: relay_failure_def Let_def)

lemma faithful_refusal: "out \<noteq> Delivered \<Longrightarrow> ensures fresh (ex_return out) (faithful raw)"
  by (rule ensures_return) (use fresh_not_taken in \<open>simp add: faithful_def fresh_def in_step_def\<close>)

lemma faithful_bind:
  "ensures fresh m (\<lambda>_. fresh) \<Longrightarrow> (\<And>x. ensures fresh (f x) (faithful raw)) \<Longrightarrow> ensures fresh (ex_bind m f) (faithful raw)"
  by (rule ensures_bind [where R = "\<lambda>_. fresh"]) (auto intro: fresh_error)

lemma taken_after_quit:
  assumes "given raw s" "took raw s"
  shows "took raw (s\<lparr>us_sent := us_sent s @ [(b, ''QUIT'' @ CRLF)]\<rparr>)" "took raw (s\<lparr>us_trace := t, us_sent := us_sent s @ [(b, ''QUIT'' @ CRLF)]\<rparr>)"
proof -
  obtain pre e e' where p: "us_sent s = pre @ [(e, DATA_LINE), (e', dot_stuff raw @ ''.'' @ CRLF)]" "DATA_LINE \<notin> snd ` set pre"
    using assms(1) by (auto simp: given_def)
  have "DATA_LINE \<notin> snd ` set [(b, ''QUIT'' @ CRLF)]" by simp
  with took_iff [of _ pre e e' raw "[(b, ''QUIT'' @ CRLF)]"] took_iff [of s pre e e' raw "[]"] p assms(2)
  have "took raw u" if "us_sent u = us_sent s @ [(b, ''QUIT'' @ CRLF)]" "us_heard u = us_heard s" for u
    using that by (simp add: answer_to_def)
  then show "took raw (s\<lparr>us_sent := us_sent s @ [(b, ''QUIT'' @ CRLF)]\<rparr>)" "took raw (s\<lparr>us_trace := t, us_sent := us_sent s @ [(b, ''QUIT'' @ CRLF)]\<rparr>)"
    by simp_all
qed

lemma accepted_quit:
  "ensures (\<lambda>s. given raw s \<and> took raw s)
     (ex_bind (ex_trace (\<lambda>t. trace_begin ''quit'' (t\<lparr>rt_accepted := True\<rparr>))) (\<lambda>_. ex_bind (ex_quit net) (quit_noted tx)))
     (faithful raw)"
  using taken_after_quit
  by (cases "un_quit net")
    (auto simp: ensures_def ex_bind_def ex_trace_def ex_return_def ex_lift_def ex_quit_def quit_noted_def faithful_def)

lemma given_traced:
  "(\<And>t. rt_accepted (f t) = rt_accepted t) \<Longrightarrow> ensures (message_given raw) (ex_trace f) (\<lambda>_. message_given raw)"
  by (rule ensures_trace) (simp add: given_kept)

lemma given_error: "message_given raw s \<Longrightarrow> faithful raw (Inl e) s"
  using given_taken [of raw s] by (intro given_refused) (auto simp: replies_def)

lemma data_open_traced:
  "(\<And>t. rt_accepted (f t) = rt_accepted t) \<Longrightarrow>
   ensures (\<lambda>s. data_open s \<and> replies ''354'' (answer_to (length (us_sent s)) s)) (ex_trace f)
     (\<lambda>_ s. data_open s \<and> replies ''354'' (answer_to (length (us_sent s)) s))"
  by (rule ensures_trace) (auto simp: data_open_def in_step_def)

lemma transfer_faithful:
  "ensures (\<lambda>s. data_open s \<and> replies ''354'' (answer_to (length (us_sent s)) s)) (transfer_data tx net raw) (faithful raw)"
proof -
  have "ensures (message_given raw) (ex_bind (read_response tx) (\<lambda>r.
     if ur_code r = 250 then
       ex_bind (ex_trace (\<lambda>t. trace_begin ''quit'' (t\<lparr>rt_accepted := True\<rparr>))) (\<lambda>_. ex_bind (ex_quit net) (quit_noted tx))
     else ex_return (relay_failure r))) (faithful raw)"
  proof (rule ensures_bind [OF final_reply])
    fix r :: upstream_reply
    show "ensures (\<lambda>s. given raw s \<and> ((\<exists>x. Inr r = (Inr x :: upstream_reply result) \<and> ur_code x = 250) \<longleftrightarrow> took raw s))
        (if ur_code r = 250 then
           ex_bind (ex_trace (\<lambda>t. trace_begin ''quit'' (t\<lparr>rt_accepted := True\<rparr>))) (\<lambda>_. ex_bind (ex_quit net) (quit_noted tx))
         else ex_return (relay_failure r)) (faithful raw)"
      using accepted_quit [of raw net tx] given_refused [of raw _ "Inr (relay_failure r)"] failure_not_delivered [of r]
      by (cases "ur_code r = 250") (auto simp: ensures_def ex_return_def)
  qed (auto intro: given_refused)
  then show ?thesis unfolding transfer_data_def
    by (intro ensures_bind [OF data_open_traced] ensures_bind [OF message_written] ensures_bind [OF given_traced])
      (auto intro: data_open_error given_error)
qed

lemma handover_asked:
  "ensures fresh (ex_bind (upstream_command tx net DATA_LINE phase) (\<lambda>r.
     if ur_code r \<noteq> 354 then ex_return (relay_failure r) else transfer_data tx net raw)) (faithful raw)"
proof (rule ensures_bind [OF data_asked])
  fix r :: upstream_reply
  have "faithful raw (Inr (relay_failure r)) s" if "data_open s" for s
    using that data_open_not_taken [OF that] failure_not_delivered [of r] by (simp add: faithful_def data_open_def in_step_def)
  with transfer_faithful [of tx net raw]
  show "ensures (\<lambda>s. data_open s \<and> (\<forall>x. Inr r = (Inr x :: upstream_reply result) \<and> ur_code x = 354 \<longrightarrow> replies ''354'' (answer_to (length (us_sent s)) s)))
      (if ur_code r \<noteq> 354 then ex_return (relay_failure r) else transfer_data tx net raw) (faithful raw)"
    by (simp add: ensures_def ex_return_def)
qed (auto intro: data_open_error)

lemma hand_over_faithful: "ensures fresh (hand_over tx net cfg j raw ehlo) (faithful raw)"
proof -
  have "ensures fresh (case (if unknown_recipient r then recipient_fallback cfg j else None) of None \<Rightarrow> ex_return r
      | Some target \<Rightarrow> ex_bind (ex_trace (trace_detail tx t)) (\<lambda>_.
          upstream_command tx net (''RCPT TO:<'' @ target @ ''>'' @ CRLF) ''rcpt_fallback'')) (\<lambda>_. fresh)" for r t
    by (auto split: option.split intro!: ensures_bind [where R = "\<lambda>_. fresh"] fresh.steps_keep ensures_return)
  then show ?thesis unfolding hand_over_def
    by (auto simp del: append.simps intro!: faithful_bind fresh.command_keeps handover_asked faithful_refusal simp: failure_not_delivered)
qed

lemma extensions_faithful: "ensures fresh (check_extensions tx net cfg j raw ehlo) (faithful raw)"
  unfolding check_extensions_def
  by (auto intro!: faithful_bind fresh.detail_keeps hand_over_faithful faithful_refusal)

lemma secured_faithful: "ensures fresh (secured tx net cfg h j raw) (faithful raw)"
  unfolding secured_def
  by (auto intro!: faithful_bind fresh.command_keeps fresh.begin_keeps fresh.detail_keeps fresh.open_keeps
      fresh.empty_buffer_keeps extensions_faithful faithful_refusal ensures_lift simp: failure_not_delivered)

lemma session_faithful: "ensures fresh (upstream_session tx net cfg h loopback j raw) (faithful raw)"
  unfolding upstream_session_def
  by (auto intro!: faithful_bind fresh.steps_keep secured_faithful extensions_faithful faithful_refusal
      simp: failure_not_delivered)

lemma deliver_faithful: "ensures fresh (deliver_host tx net cfg j raw route) (faithful raw)"
  unfolding deliver_host_def
  by (auto simp: Let_def split: option.split prod.split intro!: faithful_bind fresh.begin_keeps fresh.detail_keeps
      fresh.connect_keeps fresh.open_keeps session_faithful faithful_refusal ensures_lift)

lemma after_attempt_accepted:
  assumes "faithful raw r s" "outcome_after_attempt tx net r (us_trace s) = (out, t)"
  shows "out = Delivered \<longleftrightarrow> rt_accepted (us_trace s)"
  using assms by (auto simp: faithful_def outcome_after_attempt_def Let_def split: sum.splits if_splits prod.splits)

lemma clean_outcome_delivered: "clean_outcome tx out t = (out1, t1) \<Longrightarrow> out1 = Delivered \<longleftrightarrow> out = Delivered"
  by (cases out) (auto split: prod.splits)

lemma attempt_accepted:
  assumes "attempt_route tx net cfg j raw route = (out, a, s)"
  shows "out = Delivered \<longleftrightarrow> rt_accepted (us_trace s)" and "out = Delivered \<longleftrightarrow> took raw s"
proof -
  obtain r where r: "deliver_host tx net cfg j raw route (new_upstream tx route) = (r, s)"
    using assms by (auto simp: attempt_route_def split: prod.splits)
  have "fresh (new_upstream tx route)" by (simp add: fresh_def in_step_def new_upstream_def trace_new_def split: prod.split)
  from ensures_at [OF deliver_faithful this r] have f: "faithful raw r s" .
  then show d: "out = Delivered \<longleftrightarrow> rt_accepted (us_trace s)"
    using assms r after_attempt_accepted [OF f] clean_outcome_delivered by (auto simp: attempt_route_def split: prod.splits)
  from f d show "out = Delivered \<longleftrightarrow> took raw s" by (simp add: faithful_def)
qed

lemma routes_tried:
  assumes "deliver_routes tx net cfg j raw routes last_outcome attempts = (out, ats)"
  shows "\<exists>new. ats = attempts @ new \<and> length new \<le> length routes
    \<and> (\<forall>i < length new. \<exists>o1 s. attempt_route tx (net (length attempts + i)) cfg j raw (routes ! i) = (o1, new ! i, s)
        \<and> (if Suc i = length new then o1 = out else is_temporary o1))
    \<and> (if new = [] then out = last_outcome \<and> routes = [] else is_temporary out \<longrightarrow> length new = length routes)"
  using assms
proof (induction routes arbitrary: last_outcome attempts)
  case (Cons route routes)
  obtain o1 a s where r: "attempt_route tx (net (length attempts)) cfg j raw route = (o1, a, s)" by (metis prod_cases3)
  show ?case
  proof (cases "is_temporary o1")
    case True
    with Cons.prems r have "deliver_routes tx net cfg j raw routes o1 (attempts @ [a]) = (out, ats)" by simp
    from Cons.IH [OF this] obtain new where new: "ats = attempts @ a # new" "length new \<le> length routes"
      "\<forall>i < length new. \<exists>o1 s. attempt_route tx (net (Suc (length attempts + i))) cfg j raw (routes ! i) = (o1, new ! i, s)
        \<and> (if Suc i = length new then o1 = out else is_temporary o1)"
      "if new = [] then out = o1 \<and> routes = [] else is_temporary out \<longrightarrow> length new = length routes" by auto
    have "\<exists>o1 s. attempt_route tx (net (length attempts + i)) cfg j raw ((route # routes) ! i) = (o1, (a # new) ! i, s)
        \<and> (if Suc i = length (a # new) then o1 = out else is_temporary o1)" if "i < length (a # new)" for i
      using that new(3,4) r True by (cases i) (auto split: if_splits)
    with new show ?thesis by (intro exI [of _ "a # new"]) (auto split: if_splits)
  next
    case False
    with Cons.prems r show ?thesis by (intro exI [of _ "[a]"]) auto
  qed
qed simp

section \<open>Addresses that are never used\<close>

text \<open>
  The networks a message must not be relayed into, as the blocks that the address registries reserve: a block
  holds the addresses whose number has the same leading bits as its base. An IPv4-mapped IPv6
  address is judged by its IPv4 address.
\<close>

definition in_block :: "nat \<Rightarrow> nat \<Rightarrow> nat \<times> nat \<Rightarrow> bool" where
  "in_block width n b \<longleftrightarrow> n div 2 ^ (width - snd b) = fst b div 2 ^ (width - snd b)"

fun dotted :: "nat \<Rightarrow> nat \<Rightarrow> nat \<Rightarrow> nat \<Rightarrow> nat" where
  "dotted a b c d = ((a * 256 + b) * 256 + c) * 256 + d"

definition ipv4_number :: "ipv4 \<Rightarrow> nat" where
  "ipv4_number ip = (case ip of (a, b, c, d) \<Rightarrow> dotted (unat a) (unat b) (unat c) (unat d))"

definition internal_ipv4 :: "nat \<Rightarrow> bool" where
  "internal_ipv4 n \<longleftrightarrow> list_ex (in_block 32 n)
     [(dotted 0 0 0 0, 8), (dotted 10 0 0 0, 8), (dotted 127 0 0 0, 8), (dotted 169 254 0 0, 16), (dotted 172 16 0 0, 12),
      (dotted 192 168 0 0, 16), (dotted 224 0 0 0, 4), (dotted 240 0 0 0, 4)]"

definition internal :: "ip_addr \<Rightarrow> bool" where
  "internal ip = (case ip of
     V4 x \<Rightarrow> internal_ipv4 (ipv4_number x)
   | V6 w \<Rightarrow> if in_block 128 (unat w) (0xffff00000000, 96) then internal_ipv4 (unat w mod 2 ^ 32)
       else list_ex (in_block 128 (unat w)) [(0, 128), (1, 128), (0xfc00 * 2 ^ 112, 7), (0xfe80 * 2 ^ 112, 10), (0xff00 * 2 ^ 112, 8)])"

lemma dotted_div:
  assumes "b < 256" "c < 256" "d < 256"
  shows "dotted a b c d div 2 ^ 24 = a" "dotted a b c d div 2 ^ 16 = a * 256 + b"
    "dotted a b c d div 2 ^ 20 = a * 16 + b div 16" "dotted a b c d div 2 ^ 28 = a div 16"
proof -
  have x: "dotted a b c d = (a * 256 + b) * 65536 + (c * 256 + d)" "c * 256 + d < 65536" using assms by auto
  show y: "dotted a b c d div 2 ^ 16 = a * 256 + b" using x by simp
  have "dotted a b c d div 2 ^ 24 = dotted a b c d div 2 ^ 16 div 2 ^ 8" by (simp add: div_mult2_eq [symmetric])
  then show z: "dotted a b c d div 2 ^ 24 = a" using y assms by simp
  have "dotted a b c d div 2 ^ 20 = dotted a b c d div 2 ^ 16 div 2 ^ 4" by (simp add: div_mult2_eq [symmetric])
  then show "dotted a b c d div 2 ^ 20 = a * 16 + b div 16" using y by simp
  have "dotted a b c d div 2 ^ 28 = dotted a b c d div 2 ^ 24 div 2 ^ 4" by (simp add: div_mult2_eq [symmetric])
  then show "dotted a b c d div 2 ^ 28 = a div 16" using z by simp
qed

lemma radix_eq:
  fixes m :: nat
  assumes "b < m" "y < m"
  shows "a * m + b = x * m + y \<longleftrightarrow> a = x \<and> b = y"
proof -
  have "(a * m + b) div m = a" "(a * m + b) mod m = b" "(x * m + y) div m = x" "(x * m + y) mod m = y" using assms by simp_all
  then show ?thesis by metis
qed

lemma internal_blocks:
  "internal_ipv4 n \<longleftrightarrow> n div 2 ^ 24 = 0 \<or> n div 2 ^ 24 = 10 \<or> n div 2 ^ 24 = 127 \<or> n div 2 ^ 16 = 43518 \<or> n div 2 ^ 20 = 2753
     \<or> n div 2 ^ 16 = 49320 \<or> n div 2 ^ 28 = 14 \<or> n div 2 ^ 28 = 15"
  by (simp add: internal_ipv4_def in_block_def)

lemma internal_dotted:
  assumes "a < 256" "b < 256" "c < 256" "d < 256"
  shows "internal_ipv4 (dotted a b c d) \<longleftrightarrow> a \<in> {0, 10, 127} \<or> (a = 172 \<and> 16 \<le> b \<and> b \<le> 31) \<or> (a = 192 \<and> b = 168)
    \<or> (a = 169 \<and> b = 254) \<or> 224 \<le> a"
proof -
  have "a * 256 + b = 43518 \<longleftrightarrow> a = 169 \<and> b = 254" "a * 256 + b = 49320 \<longleftrightarrow> a = 192 \<and> b = 168"
    using radix_eq [of b 256 254 a 169] radix_eq [of b 256 168 a 192] assms(2) by simp_all
  moreover have "a * 16 + b div 16 = 2753 \<longleftrightarrow> a = 172 \<and> 16 \<le> b \<and> b \<le> 31"
  proof -
    have "b div 16 < 16" "b div 16 = 1 \<longleftrightarrow> 16 \<le> b \<and> b \<le> 31" using assms(2) by auto
    then show ?thesis using radix_eq [of "b div 16" 16 1 a 172] by simp
  qed
  moreover have "a div 16 = 14 \<or> a div 16 = 15 \<longleftrightarrow> 224 \<le> a" using assms by auto
  moreover have "internal_ipv4 (dotted a b c d) \<longleftrightarrow> a = 0 \<or> a = 10 \<or> a = 127 \<or> a * 256 + b = 43518 \<or> a * 16 + b div 16 = 2753
      \<or> a * 256 + b = 49320 \<or> (a div 16 = 14 \<or> a div 16 = 15)"
    unfolding internal_blocks dotted_div [OF assms(2-4)] by argo
  ultimately show ?thesis by (simp only: insert_iff empty_iff) argo
qed

lemma octets_bounded: "unat (x :: u8) < 256"
  using unsigned_less [of x, where ?'a = nat] by simp

lemma safe_octets:
  "safe_ipv4 (a, b, c, d) \<longleftrightarrow> \<not> (unat a = 10 \<or> (unat a = 172 \<and> 16 \<le> unat b \<and> unat b \<le> 31) \<or> (unat a = 192 \<and> unat b = 168))
     \<and> unat a \<noteq> 127 \<and> \<not> (unat a = 169 \<and> unat b = 254) \<and> unat a \<noteq> 0 \<and> unat a < 224"
proof -
  have w: "a = 10 \<longleftrightarrow> unat a = 10" "a = 172 \<longleftrightarrow> unat a = 172" "a = 192 \<longleftrightarrow> unat a = 192" "a = 127 \<longleftrightarrow> unat a = 127"
    "a = 169 \<longleftrightarrow> unat a = 169" "a = 0 \<longleftrightarrow> unat a = 0" "a = 255 \<longleftrightarrow> unat a = 255" "b = 168 \<longleftrightarrow> unat b = 168" "b = 254 \<longleftrightarrow> unat b = 254"
    "16 \<le> b \<longleftrightarrow> 16 \<le> unat b" "b \<le> 31 \<longleftrightarrow> unat b \<le> 31" "224 \<le> a \<longleftrightarrow> 224 \<le> unat a" "a < 224 \<longleftrightarrow> unat a < 224"
    by (simp_all add: word_unat_eq_iff word_le_nat_alt word_less_nat_alt)
  have "unat a < 224 \<Longrightarrow> unat a \<noteq> 255 \<and> \<not> 224 \<le> unat a" by simp
  then show ?thesis unfolding safe_ipv4.simps w by argo
qed

lemma safe_ipv4_iff: "safe_ipv4 x \<longleftrightarrow> \<not> internal_ipv4 (ipv4_number x)"
proof -
  obtain a b c d where x: "x = (a, b, c, d)" by (cases x)
  have "unat a < 224 \<longleftrightarrow> \<not> 224 \<le> unat a" by linarith
  then show ?thesis unfolding x safe_octets ipv4_number_def prod.case
      internal_dotted [OF octets_bounded octets_bounded octets_bounded octets_bounded] insert_iff empty_iff by argo
qed

lemma mapped_number:
  "ipv4_number (of_nat (n div 2 ^ 24), of_nat (n div 2 ^ 16), of_nat (n div 2 ^ 8), of_nat n) = n mod 2 ^ 32"
proof -
  have u: "unat (of_nat m :: u8) = m mod 2 ^ 8" for m by (simp add: unat_of_nat)
  have "n mod 2 ^ 32 = n div 2 ^ 24 mod 2 ^ 8 * 2 ^ 24 + (n div 2 ^ 16 mod 2 ^ 8 * 2 ^ 16 + (n div 2 ^ 8 mod 2 ^ 8 * 2 ^ 8 + n mod 2 ^ 8))"
    using mod_mult2_eq [of n "2 ^ 8" "2 ^ 8"] mod_mult2_eq [of n "2 ^ 16" "2 ^ 8"] mod_mult2_eq [of n "2 ^ 24" "2 ^ 8"] by simp
  then show ?thesis by (simp add: ipv4_number_def u)
qed

lemma safe_iff_not_internal: "safe_ip ip \<longleftrightarrow> \<not> internal ip"
proof (cases ip)
  case (V4 x)
  then show ?thesis by (simp add: safe_ip_def to_canonical_def internal_def safe_ipv4_iff)
next
  case (V6 w)
  have m: "in_block 128 (unat w) (0xffff00000000, 96) \<longleftrightarrow> unat w div 2 ^ 32 = 65535" by (simp add: in_block_def)
  show ?thesis
  proof (cases "unat w div 2 ^ 32 = 65535")
    case True
    then show ?thesis using m mapped_number [of "unat w"] by (simp add: V6 safe_ip_def to_canonical_def internal_def safe_ipv4_iff)
  next
    case False
    have "w = 0 \<longleftrightarrow> unat w = 0" "w = 1 \<longleftrightarrow> unat w = 1" by (simp_all add: word_unat_eq_iff)
    then show ?thesis using m False
      by (auto simp: V6 safe_ip_def to_canonical_def internal_def in_block_def segment0_def div_mult2_eq [symmetric])
  qed
qed

lemma session_no_connect [simp]:
  "ex_write (net\<lparr>un_connect := f\<rparr>) = ex_write net"
  "upstream_command tx (net\<lparr>un_connect := f\<rparr>) = upstream_command tx net"
  "transfer_data tx (net\<lparr>un_connect := f\<rparr>) raw = transfer_data tx net raw"
  "hand_over tx (net\<lparr>un_connect := f\<rparr>) = hand_over tx net"
  "check_extensions tx (net\<lparr>un_connect := f\<rparr>) = check_extensions tx net"
  "secured tx (net\<lparr>un_connect := f\<rparr>) = secured tx net"
  "upstream_session tx (net\<lparr>un_connect := f\<rparr>) = upstream_session tx net"
proof -
  show w: "ex_write (net\<lparr>un_connect := f\<rparr>) = ex_write net" by (intro ext) (simp add: ex_write_def)
  have q: "ex_quit (net\<lparr>un_connect := f\<rparr>) = ex_quit net" by (intro ext) (simp add: ex_quit_def)
  from w show c: "upstream_command tx (net\<lparr>un_connect := f\<rparr>) = upstream_command tx net"
    by (intro ext) (simp add: upstream_command_def)
  from w q have t: "transfer_data tx (net\<lparr>un_connect := f\<rparr>) raw = transfer_data tx net raw" for raw by (simp add: transfer_data_def cong: if_cong)
  then show "transfer_data tx (net\<lparr>un_connect := f\<rparr>) raw = transfer_data tx net raw" .
  from c t show h: "hand_over tx (net\<lparr>un_connect := f\<rparr>) = hand_over tx net" by (intro ext) (simp add: hand_over_def cong: if_cong option.case_cong)
  then show e: "check_extensions tx (net\<lparr>un_connect := f\<rparr>) = check_extensions tx net"
    by (intro ext) (simp add: check_extensions_def cong: if_cong)
  from c e show s: "secured tx (net\<lparr>un_connect := f\<rparr>) = secured tx net" by (intro ext) (simp add: secured_def cong: if_cong)
  from c e s show "upstream_session tx (net\<lparr>un_connect := f\<rparr>) = upstream_session tx net"
    by (intro ext) (simp add: upstream_session_def cong: if_cong)
qed

lemma connect_ignores:
  assumes "\<And>ip. safe_ip ip \<or> loopback_test cfg ip \<Longrightarrow> f ip = un_connect net ip"
  shows "connect_first tx (net\<lparr>un_connect := f\<rparr>) cfg port ips = connect_first tx net cfg port ips"
  using assms by (induction ips) (auto simp: Let_def cong: attempted.case_cong)

lemma attempt_ignores:
  assumes "\<And>ip. safe_ip ip \<or> loopback_test cfg ip \<Longrightarrow> f ip = un_connect net ip"
  shows "attempt_route tx (net\<lparr>un_connect := f\<rparr>) cfg j raw route = attempt_route tx net cfg j raw route"
proof -
  have "deliver_host tx (net\<lparr>un_connect := f\<rparr>) cfg j raw route = deliver_host tx net cfg j raw route"
    using connect_ignores [OF assms] by (simp add: deliver_host_def Let_def)
  moreover have "outcome_after_attempt tx (net\<lparr>un_connect := f\<rparr>) = outcome_after_attempt tx net"
    by (intro ext) (simp add: outcome_after_attempt_def cong: sum.case_cong)
  ultimately show ?thesis by (simp add: attempt_route_def)
qed

section \<open>What is written\<close>

text \<open>A command is one line, without line breaks of its own.\<close>

definition commands_ok :: "upstream_config \<Rightarrow> job \<Rightarrow> bool" where
  "commands_ok cfg j \<longleftrightarrow> list_all printable (uc_hostname cfg) \<and> (jb_sender j = [] \<or> valid_address (jb_sender j))
     \<and> valid_address (jb_destination j)
     \<and> (\<forall>d \<in> set (uc_domains cfg). \<forall>target. dom_unknown_recipient_fallback d = Some target \<longrightarrow> valid_address target)"

lemma fallback_valid: "commands_ok cfg j \<Longrightarrow> recipient_fallback cfg j = Some target \<Longrightarrow> valid_address target"
  by (fastforce simp: commands_ok_def recipient_fallback_def find_Some_iff split: if_splits option.splits dest: nth_mem)

lemma clean_address: "valid_address a \<Longrightarrow> clean_line a"
  using valid_address_printable printable_line by blast

lemma clean_digits: "clean_line (nat_digits n)"
  using nat_digits_chars by (fastforce simp: clean_line_def byte_def)

lemma mail_parameters_clean: "clean_line (mail_parameters ehlo raw)"
  using clean_digits by (simp add: mail_parameters_def clean_line_def)

lemma commands_framed:
  assumes "commands_ok cfg j" "t \<in> handover_texts cfg j raw \<union> greeting_texts cfg"
  shows "framed t \<or> t = dot_stuff raw @ ''.'' @ CRLF"
proof -
  have f: "framed (l @ m @ n @ CRLF)" if "clean_line l" "clean_line m" "clean_line n" for l m n
    using that by (auto simp: framed_iff intro: exI [of _ "l @ m @ n"])
  have c: "clean_line (jb_sender j)" "clean_line (jb_destination j)" "clean_line (uc_hostname cfg)"
    using assms(1) clean_address printable_line by (auto simp: commands_ok_def clean_line_def)
  have k: "clean_line ''MAIL FROM:<''" "clean_line ''RCPT TO:<''" "clean_line ''>''" "clean_line ''DATA''" "clean_line ''EHLO ''"
    "clean_line ''STARTTLS''" "clean_line ''QUIT''" "clean_line []" by (simp_all add: clean_line_def)
  consider ehlo where "t = ''MAIL FROM:<'' @ jb_sender j @ (''>'' @ mail_parameters ehlo raw) @ CRLF"
    | "t = ''RCPT TO:<'' @ jb_destination j @ ''>'' @ CRLF" | "t = ''DATA'' @ [] @ [] @ CRLF" | "t = dot_stuff raw @ ''.'' @ CRLF"
    | target where "recipient_fallback cfg j = Some target" "t = ''RCPT TO:<'' @ target @ ''>'' @ CRLF"
    | "t = ''QUIT'' @ [] @ [] @ CRLF"
    | "t = ''EHLO '' @ uc_hostname cfg @ [] @ CRLF" | "t = ''STARTTLS'' @ [] @ [] @ CRLF"
    using assms(2) unfolding handover_texts_def greeting_texts_def by fastforce
  then show ?thesis
    using f c k mail_parameters_clean clean_address [OF fallback_valid [OF assms(1)]]
    by cases (metis clean_line_append)+
qed
section \<open>A server that cooperates\<close>

text \<open>A reply as a server writes it: every line but the last has a hyphen after the code.\<close>

fun reply_text :: "nat \<Rightarrow> string list \<Rightarrow> string" where
  "reply_text c [] = []"
| "reply_text c [l] = nat_digits c @ '' '' @ l @ CRLF"
| "reply_text c (l # ls) = nat_digits c @ ''-'' @ l @ CRLF @ reply_text c ls"

definition reply_ok :: "relay_text \<Rightarrow> nat \<Rightarrow> string list \<Rightarrow> bool" where
  "reply_ok tx c ls \<longleftrightarrow> 200 \<le> c \<and> c < 600 \<and> ls \<noteq> [] \<and> length ls \<le> 100
     \<and> list_all (\<lambda>l. clean_line l \<and> length l \<le> 506 \<and> tx_lossy tx l = l) ls"

lemma three_digits:
  assumes "200 \<le> c" "c < 600"
  shows "length (nat_digits c) = 3"
proof -
  have "\<not> c < 10" "\<not> c div 10 < 10" "c div 10 div 10 < 10" using assms by linarith+
  then show ?thesis by (simp add: nat_digits.simps [of c] nat_digits.simps [of "c div 10"] nat_digits.simps [of "c div 10 div 10"])
qed

lemma digits_are_digits: "list_all is_digit (nat_digits c)"
  using nat_digits_chars by (auto simp: list_all_iff is_digit_def)

lemma reply_line_parsed:
  assumes "200 \<le> c" "c < 600" "tx_lossy tx l = l" "code = None \<or> code = Some c" "sep = CHR '' '' \<or> sep = CHR ''-''"
  shows "parse_reply_line tx code (nat_digits c @ sep # l @ CRLF) = Inr (c, l, sep = CHR ''-'')"
proof -
  note n = three_digits [OF assms(1,2)] digits_are_digits [of c]
  then have "take 3 (nat_digits c @ sep # l @ CRLF) = nat_digits c" "drop 4 (nat_digits c @ sep # l @ CRLF) = l @ CRLF"
    "(nat_digits c @ sep # l @ CRLF) ! 3 = sep" by (simp_all add: nth_append)
  then show ?thesis using assms n by (auto simp: parse_reply_line_def reply_code_def parse_nat_digits ensure_def Let_def)
qed

text \<open>Where a conversation stands: what the server still says, whether it is encrypted and what was written.\<close>

definition stands :: "bool \<Rightarrow> string \<Rightarrow> (bool \<times> string) list \<Rightarrow> upstream \<Rightarrow> bool" where
  "stands enc rest sent s \<longleftrightarrow> plain_conn (us_io s) \<and> conn_bytes (us_io s) = rest \<and> us_encrypted s = enc \<and> us_sent s = sent"

lemma line_read:
  assumes "stands enc (m @ CRLF @ rest) sent s" "clean_line m" "length m \<le> 510"
  shows "\<exists>io. line 512 (us_io s) = Inr (Some (m @ CRLF), io) \<and> stands enc rest sent (s\<lparr>us_io := io, us_heard := h, us_trace := t\<rparr>)"
  using assms line_of_next [of "us_io s" 512 "Some (m @ CRLF)" rest] next_line_append [of m 512 rest]
  by (auto simp: stands_def)

lemma reply_lines_read:
  assumes "ls \<noteq> []" "length ls \<le> k" "list_all (\<lambda>l. clean_line l \<and> length l \<le> 506 \<and> tx_lossy tx l = l) ls"
    and "200 \<le> c" "c < 600" "code = None \<or> code = Some c" "stands enc (reply_text c ls @ rest) sent s"
  shows "\<exists>s'. read_reply_lines tx k code acc s = (Inr \<lparr>ur_code = c, ur_lines = acc @ ls\<rparr>, s') \<and> stands enc rest sent s'"
  using assms
proof (induction c ls arbitrary: k code acc s rule: reply_text.induct)
  case (2 c l)
  have "clean_line (nat_digits c @ '' '' @ l)" "length (nat_digits c @ '' '' @ l) \<le> 510"
    using 2 clean_digits three_digits by (auto simp: clean_line_def)
  moreover have "stands enc ((nat_digits c @ '' '' @ l) @ CRLF @ rest) sent s" using 2 by simp
  ultimately obtain io where "line 512 (us_io s) = Inr (Some (nat_digits c @ CHR '' '' # l @ CRLF), io)"
      "\<And>h t. stands enc rest sent (s\<lparr>us_io := io, us_heard := h, us_trace := t\<rparr>)"
    using line_read [of enc "nat_digits c @ '' '' @ l" rest sent s] by (fastforce simp: stands_def)
  moreover obtain k' where "k = Suc k'" using 2 by (cases k) auto
  ultimately show ?case using 2 reply_line_parsed [of c tx l code "CHR '' ''"] by simp
next
  case (3 c l l' ls)
  have "clean_line (nat_digits c @ ''-'' @ l)" "length (nat_digits c @ ''-'' @ l) \<le> 510"
    using 3 clean_digits three_digits by (auto simp: clean_line_def)
  moreover have "stands enc ((nat_digits c @ ''-'' @ l) @ CRLF @ reply_text c (l' # ls) @ rest) sent s" using 3 by simp
  ultimately obtain io where io: "line 512 (us_io s) = Inr (Some (nat_digits c @ CHR ''-'' # l @ CRLF), io)"
      "\<And>h t. stands enc (reply_text c (l' # ls) @ rest) sent (s\<lparr>us_io := io, us_heard := h, us_trace := t\<rparr>)"
    using line_read [of enc "nat_digits c @ ''-'' @ l" "reply_text c (l' # ls) @ rest" sent s] by (fastforce simp: stands_def)
  obtain k' where k: "k = Suc k'" using 3 by (cases k) auto
  have "\<exists>s'. read_reply_lines tx k' (Some c) (acc @ [l]) (s\<lparr>us_io := io, us_heard := h, us_trace := t\<rparr>)
      = (Inr \<lparr>ur_code = c, ur_lines = (acc @ [l]) @ l' # ls\<rparr>, s') \<and> stands enc rest sent s'" for h t
    using 3 k io(2) by (intro "3.IH") auto
  with io(1) k 3 reply_line_parsed [of c tx l code "CHR ''-''"] show ?case by simp
qed simp

lemma response_read:
  "reply_ok tx c ls \<Longrightarrow>
   ensures (stands enc (reply_text c ls @ rest) sent) (read_response tx)
     (\<lambda>r s. r = Inr \<lparr>ur_code = c, ur_lines = ls\<rparr> \<and> stands enc rest sent s)"
  using reply_lines_read [of ls 100 tx c None enc rest sent _ "[]"]
  by (fastforce simp: ensures_def reply_ok_def read_response_def)
lemma stands_trace: "ensures (stands enc rest sent) (ex_trace f) (\<lambda>r s. r = Inr () \<and> stands enc rest sent s)"
  by (rule ensures_trace) (simp add: stands_def)

definition writable :: "upstream_net \<Rightarrow> bool" where
  "writable net \<longleftrightarrow> (\<forall>sent t. un_write net sent t = Inr ())"

lemma stands_write:
  "writable net \<Longrightarrow> ensures (stands enc rest sent) (ex_write net t) (\<lambda>r s. r = Inr () \<and> stands enc rest (sent @ [(enc, t)]) s)"
  by (simp add: ensures_def ex_write_def writable_def stands_def)

lemma command_answered:
  assumes "reply_ok tx c ls" "writable net"
  shows "ensures (stands enc (reply_text c ls @ rest) sent) (upstream_command tx net t phase)
    (\<lambda>r s. r = Inr \<lparr>ur_code = c, ur_lines = ls\<rparr> \<and> stands enc rest (sent @ [(enc, t)]) s)"
  unfolding upstream_command_def
  by (rule ensures_then [OF stands_trace], rule ensures_then [OF stands_write [OF assms(2)]], rule response_read [OF assms(1)])

interpretation accepted: accepting_conversation "\<lambda>s. rt_accepted (us_trace s)" UNIV
  by unfold_locales auto

lemma transfer_accepted:
  assumes "reply_ok tx 250 ls" "writable net"
  shows "ensures (stands enc (reply_text 250 ls @ rest) sent) (transfer_data tx net raw)
    (\<lambda>_ s. rt_accepted (us_trace s) \<and> us_sent s = sent @ [(enc, dot_stuff raw @ ''.'' @ CRLF), (enc, ''QUIT'' @ CRLF)])"
proof -
  let ?d = "dot_stuff raw @ ''.'' @ CRLF"
  have "ensures (stands enc rest (sent @ [(enc, ?d)]))
     (ex_bind (ex_trace (\<lambda>t. trace_begin ''quit'' (t\<lparr>rt_accepted := True\<rparr>))) (\<lambda>_. ex_bind (ex_quit net) (quit_noted tx)))
     (\<lambda>_ s. rt_accepted (us_trace s) \<and> us_sent s = sent @ [(enc, ?d), (enc, ''QUIT'' @ CRLF)])"
    by (cases "un_quit net")
      (auto simp: ensures_def ex_bind_def ex_trace_def ex_return_def ex_lift_def ex_quit_def quit_noted_def stands_def)
  then show ?thesis unfolding transfer_data_def
    by (intro ensures_then [OF stands_trace] ensures_then [OF stands_write [OF assms(2)]]
        ensures_then [OF response_read [OF assms(1)]]) simp
qed

text \<open>The commands of a handover, and the replies that let it through.\<close>

definition handover_script :: "job \<Rightarrow> string \<Rightarrow> upstream_reply \<Rightarrow> string list" where
  "handover_script j raw ehlo =
     [''MAIL FROM:<'' @ jb_sender j @ ''>'' @ mail_parameters ehlo raw @ CRLF, ''RCPT TO:<'' @ jb_destination j @ ''>'' @ CRLF,
      ''DATA'' @ CRLF, dot_stuff raw @ ''.'' @ CRLF, ''QUIT'' @ CRLF]"

definition extensions_suffice :: "upstream_reply \<Rightarrow> string \<Rightarrow> bool" where
  "extensions_suffice ehlo raw \<longleftrightarrow> (list_all is_ascii_char raw \<or> has_extension ''8BITMIME'' ehlo)
     \<and> (case size_limit ehlo of None \<Rightarrow> True | Some n \<Rightarrow> n = 0 \<or> length raw \<le> n)"

lemma handover_accepted:
  assumes "reply_ok tx 250 m" "reply_ok tx 250 r" "reply_ok tx 354 d" "reply_ok tx 250 f" "writable net" "extensions_suffice ehlo raw"
  shows "ensures (stands enc (reply_text 250 m @ reply_text 250 r @ reply_text 354 d @ reply_text 250 f @ rest) sent)
    (check_extensions tx net cfg j raw ehlo)
    (\<lambda>_ s. rt_accepted (us_trace s) \<and> us_sent s = sent @ map (Pair enc) (handover_script j raw ehlo))"
proof -
  have "check_extensions tx net cfg j raw ehlo = hand_over tx net cfg j raw ehlo"
    using assms(6) by (auto simp: check_extensions_def extensions_suffice_def split: option.splits)
  moreover have "ensures (stands enc (reply_text 250 m @ reply_text 250 r @ reply_text 354 d @ reply_text 250 f @ rest) sent)
    (hand_over tx net cfg j raw ehlo)
    (\<lambda>_ s. rt_accepted (us_trace s) \<and> us_sent s = sent @ map (Pair enc) (handover_script j raw ehlo))"
    unfolding hand_over_def
    apply (rule ensures_then [OF command_answered [OF assms(1,5)]])
    apply simp
    apply (rule ensures_then [OF command_answered [OF assms(2,5), simplified]])
    apply (simp add: unknown_recipient_def)
    apply (rule ensures_then [where v = "\<lparr>ur_code = 250, ur_lines = r\<rparr>"])
     apply (rule ensures_return)
     apply (rule conjI, rule refl, assumption)
    apply simp
    apply (rule ensures_then [OF command_answered [OF assms(3,5), simplified]])
    apply simp
    apply (rule ensures_weaken [OF transfer_accepted [OF assms(4,5)]])
    apply (simp add: handover_script_def)
    done
  ultimately show ?thesis by simp
qed
text \<open>A server that speaks TLS: what it says in clear and on the encrypted connection.\<close>

record server =
  sr_stream :: "chunk list"
  sr_greeting :: "string list"
  sr_ehlo :: "string list"
  sr_starttls :: "string list"
  sr_secure_stream :: "chunk list"
  sr_secure_ehlo :: "string list"
  sr_mail :: "string list"
  sr_rcpt :: "string list"
  sr_data :: "string list"
  sr_final :: "string list"

definition secure_ehlo :: "server \<Rightarrow> upstream_reply" where
  "secure_ehlo v = \<lparr>ur_code = 250, ur_lines = sr_secure_ehlo v\<rparr>"

definition cooperates :: "relay_text \<Rightarrow> string \<Rightarrow> server \<Rightarrow> bool" where
  "cooperates tx raw v \<longleftrightarrow> plain_stream (sr_stream v) \<and> plain_stream (sr_secure_stream v)
     \<and> reply_ok tx 220 (sr_greeting v) \<and> reply_ok tx 250 (sr_ehlo v) \<and> reply_ok tx 220 (sr_starttls v)
     \<and> reply_ok tx 250 (sr_secure_ehlo v) \<and> reply_ok tx 250 (sr_mail v) \<and> reply_ok tx 250 (sr_rcpt v)
     \<and> reply_ok tx 354 (sr_data v) \<and> reply_ok tx 250 (sr_final v)
     \<and> bytes (sr_stream v) = reply_text 220 (sr_greeting v) @ reply_text 250 (sr_ehlo v) @ reply_text 220 (sr_starttls v)
     \<and> bytes (sr_secure_stream v) = reply_text 250 (sr_secure_ehlo v) @ reply_text 250 (sr_mail v) @ reply_text 250 (sr_rcpt v)
         @ reply_text 354 (sr_data v) @ reply_text 250 (sr_final v)
     \<and> list_ex (\<lambda>l. eq_ignore_ascii_case l ''STARTTLS'') (sr_ehlo v) \<and> extensions_suffice (secure_ehlo v) raw"

lemma empty_buffer_passes: "ensures (stands enc [] sent) empty_buffer (\<lambda>r s. r = Inr () \<and> stands enc [] sent s)"
  by (auto simp: ensures_def empty_buffer_def stands_def conn_bytes_def ensure_def)

lemma open_stands:
  "plain_stream stream \<Longrightarrow>
   ensures (stands enc rest sent) (open_connection stream b) (\<lambda>r s. r = Inr () \<and> stands b (bytes stream) sent s)"
  by (simp add: ensures_def open_connection_def stands_def plain_conn_def conn_bytes_def)

definition session_script :: "upstream_config \<Rightarrow> job \<Rightarrow> string \<Rightarrow> server \<Rightarrow> (bool \<times> string) list" where
  "session_script cfg j raw v =
     [(False, ''EHLO '' @ uc_hostname cfg @ CRLF), (False, ''STARTTLS'' @ CRLF), (True, ''EHLO '' @ uc_hostname cfg @ CRLF)]
     @ map (Pair True) (handover_script j raw (secure_ehlo v))"

lemma encrypted_accepted:
  assumes "cooperates tx raw v" "writable net"
  shows "ensures (stands True (bytes (sr_secure_stream v)) sent)
    (ex_bind (upstream_command tx net msg phase) (\<lambda>ehlo.
       if ur_code ehlo \<noteq> 250 then ex_return (relay_failure ehlo) else check_extensions tx net cfg j raw ehlo))
    (\<lambda>_ s. rt_accepted (us_trace s) \<and> us_sent s = sent @ (True, msg) # map (Pair True) (handover_script j raw (secure_ehlo v)))"
proof -
  note v = assms(1) [unfolded cooperates_def]
  let ?rest = "reply_text 250 (sr_mail v) @ reply_text 250 (sr_rcpt v) @ reply_text 354 (sr_data v) @ reply_text 250 (sr_final v) @ []"
  have "bytes (sr_secure_stream v) = reply_text 250 (sr_secure_ehlo v) @ ?rest" using v by simp
  moreover have "reply_ok tx 250 (sr_secure_ehlo v)" using v by simp
  moreover have "ensures (stands True ?rest (sent @ [(True, msg)])) (check_extensions tx net cfg j raw (secure_ehlo v))
      (\<lambda>_ s. rt_accepted (us_trace s) \<and> us_sent s = sent @ (True, msg) # map (Pair True) (handover_script j raw (secure_ehlo v)))"
    by (rule ensures_weaken [OF handover_accepted]) (use v assms(2) in auto)
  ultimately show ?thesis
    by (auto intro!: ensures_then [OF command_answered [OF _ assms(2)]] simp: secure_ehlo_def)
qed

lemma secured_accepted:
  assumes "cooperates tx raw v" "writable net" "un_tls net h = Inr (parameters, sr_secure_stream v)"
  shows "ensures (stands False (reply_text 220 (sr_starttls v) @ []) sent) (secured tx net cfg h j raw)
    (\<lambda>_ s. rt_accepted (us_trace s) \<and> us_sent s = sent @ [(False, ''STARTTLS'' @ CRLF), (True, ''EHLO '' @ uc_hostname cfg @ CRLF)]
       @ map (Pair True) (handover_script j raw (secure_ehlo v)))"
proof -
  have ok: "reply_ok tx 220 (sr_starttls v)" "plain_stream (sr_secure_stream v)" using assms(1) by (auto simp: cooperates_def)
  have lifted: "ensures P (ex_lift (un_tls net h)) (\<lambda>r s. r = Inr (parameters, sr_secure_stream v) \<and> P s)" for P
    by (rule ensures_lift) (simp add: assms(3))
  show ?thesis unfolding secured_def
    apply (rule ensures_then [OF command_answered [OF ok(1) assms(2)]])
    apply (simp only: if_False upstream_reply.simps simp_thms)
    apply (rule ensures_then [OF stands_trace], rule ensures_then [OF empty_buffer_passes], rule ensures_then [OF lifted])
    apply (simp only: prod.case)
    apply (rule ensures_then [OF stands_trace], rule ensures_then [OF open_stands [OF ok(2)]])
    apply (rule ensures_weaken [OF encrypted_accepted [OF assms(1,2)]])
    apply simp
    done
qed

lemma secure_session_accepted:
  assumes "cooperates tx raw v" "writable net" "un_tls net h = Inr (parameters, sr_secure_stream v)"
  shows "ensures (stands False (bytes (sr_stream v)) []) (upstream_session tx net cfg h loopback j raw)
    (\<lambda>_ s. rt_accepted (us_trace s) \<and> us_sent s = session_script cfg j raw v)"
proof -
  note v = assms(1) [unfolded cooperates_def]
  have ok: "reply_ok tx 220 (sr_greeting v)" "reply_ok tx 250 (sr_ehlo v)" using v by auto
  have "bytes (sr_stream v) = reply_text 220 (sr_greeting v) @ reply_text 250 (sr_ehlo v) @ reply_text 220 (sr_starttls v) @ []"
    "has_extension ''STARTTLS'' \<lparr>ur_code = 250, ur_lines = sr_ehlo v\<rparr>" using v by (auto simp: has_extension_def)
  then show ?thesis unfolding upstream_session_def
    apply (simp only:)
    apply (rule ensures_then [OF stands_trace], rule ensures_then [OF response_read [OF ok(1)]])
    apply (simp only: upstream_reply.simps simp_thms if_False)
    apply (rule ensures_then [OF command_answered [OF ok(2) assms(2)]])
    apply (simp only: upstream_reply.simps simp_thms if_False if_True)
    apply (rule ensures_weaken [OF secured_accepted [OF assms]])
    apply (simp add: session_script_def)
    done
qed
text \<open>Whether an address answers at all when it is tried.\<close>

definition answers_call :: "upstream_net \<Rightarrow> upstream_config \<Rightarrow> ip_addr \<Rightarrow> bool" where
  "answers_call net cfg ip \<longleftrightarrow> (safe_ip ip \<or> loopback_test cfg ip) \<and> (case un_connect net ip of Refused _ \<Rightarrow> False | _ \<Rightarrow> True)"

lemma connect_finds:
  assumes "find (answers_call net cfg) ips = Some ip" "un_connect net ip = Succeeded stream"
  shows "ensures (stands enc rest sent) (connect_first tx net cfg port ips)
    (\<lambda>r s. r = Inr (Some (stream, loopback_test cfg ip)) \<and> stands enc rest sent s)"
  using assms(1)
proof (induction ips)
  case (Cons a ips)
  show ?case
  proof (cases "answers_call net cfg a")
    case True
    with Cons.prems have "a = ip" by simp
    with True assms(2) show ?thesis
      by (auto simp: Let_def answers_call_def intro!: ensures_then [OF stands_trace] ensures_return)
  next
    case False
    with Cons show ?thesis
      by (auto simp: Let_def answers_call_def intro!: ensures_then [OF stands_trace] split: attempted.splits)
  qed
qed simp

lemma attempt_cooperative:
  assumes "endpoint route (uc_port cfg) = Some (h, port)"
    and "un_lookup net (case split_once (CHR '':'') route of None \<Rightarrow> route | Some (name, _) \<Rightarrow> name) port = Inr found"
    and "find (answers_call net cfg) (take 8 found) = Some ip" "un_connect net ip = Succeeded (sr_stream v)"
    and "un_tls net h = Inr (parameters, sr_secure_stream v)" "writable net" "cooperates tx raw v"
  shows "\<exists>a s. attempt_route tx net cfg j raw route = (Delivered, a, s) \<and> us_sent s = session_script cfg j raw v"
proof -
  have lifted: "ensures P (ex_lift (Inr x)) (\<lambda>r s. r = Inr x \<and> P s)" for P and x :: 'a by (rule ensures_lift) simp
  have p: "plain_stream (sr_stream v)" using assms(7) by (simp add: cooperates_def)
  have "ensures (stands False [] []) (deliver_host tx net cfg j raw route)
    (\<lambda>_ s. rt_accepted (us_trace s) \<and> us_sent s = session_script cfg j raw v)"
    unfolding deliver_host_def assms(1) option.case
    apply (rule ensures_then [OF stands_trace], rule ensures_then [OF lifted])
    apply (simp only: prod.case assms(2))
    apply (rule ensures_then [OF lifted])
    apply (simp only: Let_def)
    apply (rule ensures_then [OF stands_trace], rule ensures_then [OF connect_finds [OF assms(3,4)]])
    apply (simp only: option.case prod.case)
    apply (rule ensures_then [OF open_stands [OF p]], rule secure_session_accepted [OF assms(7,6,5)])
    done
  moreover have "stands False [] [] (new_upstream tx route)"
    by (simp add: stands_def new_upstream_def plain_conn_def conn_bytes_def)
  moreover obtain out a s where r: "attempt_route tx net cfg j raw route = (out, a, s)" by (metis prod_cases3)
  ultimately show ?thesis using attempt_accepted(1) [OF r] attempt_state [OF r] r by (auto simp: ensures_def)
qed

section \<open>Concrete exchanges\<close>

definition sample_text :: relay_text where
  "sample_text = \<lparr>tx_clean = (\<lambda>s. (s, False)), tx_sanitize = (\<lambda>s. (s, False)), tx_lossy = (\<lambda>s. s)\<rparr>"

definition sample_server :: server where
  "sample_server = \<lparr>sr_stream = [Chunk (reply_text 220 [''a''] @ reply_text 250 [''a'', ''STARTTLS''] @ reply_text 220 [''a''])],
     sr_greeting = [''a''], sr_ehlo = [''a'', ''STARTTLS''], sr_starttls = [''a''],
     sr_secure_stream = [Chunk (reply_text 250 [''a'', ''8BITMIME'']),
       Chunk (reply_text 250 [''a''] @ reply_text 250 [''a''] @ reply_text 354 [''a''] @ reply_text 250 [''a''])],
     sr_secure_ehlo = [''a'', ''8BITMIME''], sr_mail = [''a''], sr_rcpt = [''a''], sr_data = [''a''], sr_final = [''a'']\<rparr>"

definition sample_net :: upstream_net where
  "sample_net = \<lparr>un_lookup = (\<lambda>_ _. Inr [V4 (10, 0, 0, 1), V4 (8, 8, 8, 8)]), un_connect = (\<lambda>_. Succeeded (sr_stream sample_server)),
     un_tls = (\<lambda>_. Inr ([], sr_secure_stream sample_server)), un_write = (\<lambda>_ _. Inr ()), un_quit = Succeeded (), un_elapsed = (\<lambda>_. False),
     un_show = (\<lambda>_. []), un_show_socket = (\<lambda>_ _. [])\<rparr>"

definition deaf_net :: upstream_net where
  "deaf_net = sample_net\<lparr>un_lookup := (\<lambda>_ _. Inl ''no such host'')\<rparr>"

definition sample_upstream :: upstream_config where
  "sample_upstream = \<lparr>uc_hostname = ''c.d'', uc_port = 25, uc_require_tls = True, uc_allow_loopback_plaintext = False, uc_domains = []\<rparr>"

definition sample_job :: job where
  "sample_job = \<lparr>jb_delivery_id = 1, jb_message_id = ''m'', jb_created = 0, jb_sender = ''s@b.c'', jb_destination = ''a@b.c'',
     jb_hosts = [''h.b.c'', ''i.b.c''], jb_attempts = 0, jb_is_dsn = False\<rparr>"

lemma sample_endpoint:
  "endpoint ''h.b.c'' (uc_port sample_upstream) = Some (''h.b.c'', 25)" "endpoint ''i.b.c'' (uc_port sample_upstream) = Some (''i.b.c'', 25)"
  by code_simp+

lemma sample_address:
  "find (answers_call sample_net sample_upstream) (take 8 [V4 (10, 0, 0, 1), V4 (8, 8, 8, 8)]) = Some (V4 (8, 8, 8, 8))"
  by code_simp

lemma sample_replies: "reply_ok sample_text 220 [''a'']" "reply_ok sample_text 250 [''a'']" "reply_ok sample_text 354 [''a'']"
  "reply_ok sample_text 250 [''a'', ''STARTTLS'']" "reply_ok sample_text 250 [''a'', ''8BITMIME'']"
  by (simp_all add: reply_ok_def sample_text_def clean_line_def)

lemma sample_extensions: "extensions_suffice (secure_ehlo sample_server) raw"
proof -
  have "starts_with ''SIZE'' (to_ascii_uppercase ''a'') = False" "starts_with ''SIZE'' (to_ascii_uppercase ''8BITMIME'') = False"
    by code_simp+
  then have "size_limit (secure_ehlo sample_server) = None"
    by (simp add: size_limit_def size_line_def secure_ehlo_def sample_server_def)
  then show ?thesis by (simp add: extensions_suffice_def has_extension_def secure_ehlo_def sample_server_def eq_ignore_ascii_case_def)
qed

lemma sample_cooperates: "cooperates sample_text raw sample_server"
  using sample_replies sample_extensions
  by (simp add: cooperates_def sample_server_def eq_ignore_ascii_case_def del: nat_digits.simps)
lemma sample_attempt:
  assumes "route \<in> {''h.b.c'', ''i.b.c''}"
  shows "\<exists>a s. attempt_route sample_text sample_net sample_upstream j raw route = (Delivered, a, s)
    \<and> us_sent s = session_script sample_upstream j raw sample_server"
  by (rule attempt_cooperative [where h = route and port = 25 and found = "[V4 (10, 0, 0, 1), V4 (8, 8, 8, 8)]" and ip = "V4 (8, 8, 8, 8)"
        and parameters = "[]"])
    (use assms sample_endpoint sample_address sample_cooperates in \<open>auto simp: sample_net_def writable_def split: option.split\<close>)

lemma deaf_attempt: "\<exists>r a s. attempt_route sample_text deaf_net sample_upstream sample_job sample_dot ''h.b.c'' = (Temporary r, a, s)"
  using sample_endpoint(1)
  by (simp add: attempt_route_def deliver_host_def ex_bind_def ex_trace_def ex_lift_def deaf_net_def sample_net_def
      outcome_after_attempt_def new_upstream_def sample_text_def trace_begin_def trace_new_def trace_flush_def trace_detail_def
      mark_cut_def Let_def split: option.split)

section \<open>What the exchange guarantees\<close>

text \<open>
  C11: nothing of a message travels in clear. Unless plain text is allowed for tests on loopback and a
  loopback address answered, everything an attempt writes outside a verified TLS connection is the
  greeting and the request for TLS: no address and no content, whatever the server offers,
  answers or withholds, and wherever the exchange stops.
\<close>

theorem relay_confidential:
  assumes "attempt_route tx net cfg j raw route = (out, a, s)"
    and "uc_require_tls cfg \<or> (\<forall>ip stream. uc_allow_loopback_plaintext cfg \<and> is_loopback ip \<longrightarrow> un_connect net ip \<noteq> Succeeded stream)"
  shows "list_all (\<lambda>(enc, t). enc \<or> t \<in> {''EHLO '' @ uc_hostname cfg @ CRLF, ''STARTTLS'' @ CRLF}) (us_sent s)"
proof -
  have "clear_ok cfg (new_upstream tx route)" by (simp add: clear_ok_def new_upstream_def)
  moreover have "ensures (clear_ok cfg) (deliver_host tx net cfg j raw route) (\<lambda>_. clear_ok cfg)"
    by (rule deliver_clear) (use assms(2) in \<open>auto simp: loopback_test_def\<close>)
  ultimately show ?thesis using attempt_state [OF assms(1)]
    by (auto simp: ensures_def clear_ok_def list_all_iff greeting_texts_def)
qed

theorem relay_confidential_witness:
  "\<exists>a s. attempt_route sample_text sample_net sample_upstream sample_job sample_dot ''h.b.c'' = (Delivered, a, s) \<and> us_sent s \<noteq> []
     \<and> list_all (\<lambda>(enc, t). enc \<or> t \<in> {''EHLO '' @ ''c.d'' @ CRLF, ''STARTTLS'' @ CRLF}) (us_sent s)"
proof -
  obtain a s where r: "attempt_route sample_text sample_net sample_upstream sample_job sample_dot ''h.b.c'' = (Delivered, a, s)"
    "us_sent s = session_script sample_upstream sample_job sample_dot sample_server" using sample_attempt [of "''h.b.c''"] by blast
  with relay_confidential [OF r(1)] show ?thesis by (simp add: sample_upstream_def session_script_def)
qed

text \<open>
  C5: one upstream server takes a message. A delivery tries the routes in order, once each. It is
  reported as delivered exactly when the last server it tried took the message, and no earlier
  one did: a server took it when it answered DATA with 354, was then sent the whole dot-stuffed
  message, and answered that with a well formed reply of code 250. A failing QUIT or a time limit
  after this reply does not undo that, and no other reply counts. The delivery is deferred only after
  every route was tried.
\<close>

theorem one_upstream_takes_message:
  assumes "deliver_traced tx net cfg j raw = (out, ats)"
  shows "length ats \<le> length (jb_hosts j) \<and> (is_temporary out \<longrightarrow> length ats = length (jb_hosts j))
    \<and> (out = Delivered \<longrightarrow> ats \<noteq> [])
    \<and> (\<forall>i < length ats. \<exists>o1 s. attempt_route tx (net i) cfg j raw (jb_hosts j ! i) = (o1, ats ! i, s)
        \<and> (took raw s \<longleftrightarrow> out = Delivered \<and> Suc i = length ats))"
proof -
  from routes_tried [OF assms [unfolded deliver_traced_def]] have b: "length ats \<le> length (jb_hosts j)"
    and tried: "\<And>i. i < length ats \<Longrightarrow> \<exists>o1 s. attempt_route tx (net i) cfg j raw (jb_hosts j ! i) = (o1, ats ! i, s)
        \<and> (if Suc i = length ats then o1 = out else is_temporary o1)"
    and last: "if ats = [] then out = Temporary ''No upstream route'' \<and> jb_hosts j = [] else is_temporary out \<longrightarrow> length ats = length (jb_hosts j)"
    by auto
  have "\<exists>o1 s. attempt_route tx (net i) cfg j raw (jb_hosts j ! i) = (o1, ats ! i, s)
        \<and> (took raw s \<longleftrightarrow> out = Delivered \<and> Suc i = length ats)" if i: "i < length ats" for i
  proof -
    from tried [OF i] obtain o1 s where r: "attempt_route tx (net i) cfg j raw (jb_hosts j ! i) = (o1, ats ! i, s)"
      "if Suc i = length ats then o1 = out else is_temporary o1" by blast
    with attempt_accepted(2) [OF r(1)] show ?thesis by (intro exI [of _ o1] exI [of _ s]) (auto split: if_splits)
  qed
  with b last show ?thesis by (auto split: if_splits)
qed

theorem one_upstream_takes_message_witness:
  "\<exists>ats s. deliver_traced sample_text (\<lambda>i. if i = 0 then deaf_net else sample_net) sample_upstream sample_job sample_dot = (Delivered, ats)
     \<and> length ats = 2 \<and> attempt_route sample_text sample_net sample_upstream sample_job sample_dot ''i.b.c'' = (Delivered, ats ! 1, s)
     \<and> took sample_dot s"
proof -
  obtain r a s where d: "attempt_route sample_text deaf_net sample_upstream sample_job sample_dot ''h.b.c'' = (Temporary r, a, s)"
    using deaf_attempt by blast
  obtain a2 s2 where t: "attempt_route sample_text sample_net sample_upstream sample_job sample_dot ''i.b.c'' = (Delivered, a2, s2)"
    using sample_attempt [of "''i.b.c''"] by blast
  have "jb_hosts sample_job = [''h.b.c'', ''i.b.c'']" by (simp add: sample_job_def)
  with d t have "deliver_traced sample_text (\<lambda>i. if i = 0 then deaf_net else sample_net) sample_upstream sample_job sample_dot
      = (Delivered, [a, a2])" by (simp add: deliver_traced_def)
  with one_upstream_takes_message [OF this] t show ?thesis
    by (intro exI [of _ "[a, a2]"] exI [of _ s2]) (auto simp: sample_job_def)
qed

text \<open>
  C19: an upstream connection never reaches into an internal network. The outcome of a delivery, the
  record of every attempt and all that is written do not depend on whether or how an internal address
  answers, whatever the resolver returns: an IPv4 address in 0.0.0.0/8, 10.0.0.0/8, 127.0.0.0/8, 169.254.0.0/16,
  172.16.0.0/12, 192.168.0.0/16, 224.0.0.0/4 or 240.0.0.0/4, also in its IPv4-mapped form, or an IPv6 address that
  is unspecified, loopback or in fc00::/7, fe80::/10 or ff00::/8. Loopback is used only when the configuration
  allows tests on it. The address policy rejects exactly these addresses and no others.
\<close>

theorem relay_avoids_internal_networks:
  assumes "\<And>i ip. \<not> internal ip \<or> (uc_allow_loopback_plaintext cfg \<and> is_loopback ip) \<Longrightarrow> f i ip = un_connect (net i) ip"
  shows "attempt_route tx ((net i)\<lparr>un_connect := f i\<rparr>) cfg j raw route = attempt_route tx (net i) cfg j raw route
    \<and> deliver_traced tx (\<lambda>i. (net i)\<lparr>un_connect := f i\<rparr>) cfg j raw = deliver_traced tx net cfg j raw
    \<and> (safe_ip ip \<longleftrightarrow> \<not> internal ip)"
proof -
  have a: "attempt_route tx ((net i)\<lparr>un_connect := f i\<rparr>) cfg j raw route = attempt_route tx (net i) cfg j raw route" for i route
    using assms by (intro attempt_ignores) (auto simp: loopback_test_def safe_iff_not_internal)
  have "deliver_routes tx (\<lambda>i. (net i)\<lparr>un_connect := f i\<rparr>) cfg j raw routes out attempts = deliver_routes tx net cfg j raw routes out attempts"
    for routes out attempts
    by (induction routes arbitrary: out attempts) (auto simp: a split: prod.split)
  then show ?thesis using a safe_iff_not_internal by (auto simp: deliver_traced_def)
qed

theorem relay_avoids_internal_networks_witness:
  "attempt_route sample_text (sample_net\<lparr>un_connect := (\<lambda>ip. if internal ip then Refused ''unreachable'' else un_connect sample_net ip)\<rparr>)
     sample_upstream sample_job sample_dot ''h.b.c''
   = attempt_route sample_text sample_net sample_upstream sample_job sample_dot ''h.b.c''
   \<and> \<not> safe_ip (V4 (172, 31, 0, 1)) \<and> \<not> safe_ip (V6 0xffff0a000001) \<and> \<not> safe_ip (V6 0xfe800000000000000000000000000001)
   \<and> safe_ip (V4 (172, 32, 0, 1))"
proof -
  have "uc_allow_loopback_plaintext sample_upstream = False" by (simp add: sample_upstream_def)
  then have "attempt_route sample_text (sample_net\<lparr>un_connect := (\<lambda>ip. if internal ip then Refused ''unreachable'' else un_connect sample_net ip)\<rparr>)
       sample_upstream sample_job sample_dot ''h.b.c''
     = attempt_route sample_text sample_net sample_upstream sample_job sample_dot ''h.b.c'' \<and> (safe_ip ip \<longleftrightarrow> \<not> internal ip)" for ip
    using relay_avoids_internal_networks [where cfg = sample_upstream and net = "\<lambda>_. sample_net" and ip = ip
        and f = "\<lambda>_ ip. if internal ip then Refused ''unreachable'' else un_connect sample_net ip"] by auto
  moreover have "internal (V4 (172, 31, 0, 1))" "internal (V6 0xffff0a000001)" "internal (V6 0xfe800000000000000000000000000001)"
    "\<not> internal (V4 (172, 32, 0, 1))"
    by (simp_all add: internal_def internal_blocks in_block_def ipv4_number_def)
  ultimately show ?thesis by blast
qed

text \<open>
  C18: an attempt says exactly what it means. With valid addresses and a printable host name, every
  text it writes is one command on one line, so that no address can smuggle a second command in,
  or is the transfer of the message; and whoever reads that transfer by the rules of SMTP gets
  exactly the stored message, and then continues with what follows it.
\<close>

theorem relay_writes_no_surprises:
  assumes "attempt_route tx net cfg j raw route = (out, a, s)" "(enc, t) \<in> set (us_sent s)"
    and "list_all printable (uc_hostname cfg)" "jb_sender j = [] \<or> valid_address (jb_sender j)" "valid_address (jb_destination j)"
    and "\<forall>d \<in> set (uc_domains cfg). \<forall>target. dom_unknown_recipient_fallback d = Some target \<longrightarrow> valid_address target"
    and "message_validate raw = Inr ()" "lines_within 1000 raw"
  shows "framed t \<or> (\<forall>io after. plain_conn io \<and> conn_bytes io = t @ after
    \<longrightarrow> (\<exists>rest. receive (length raw) [] io = Received raw rest \<and> plain_conn rest \<and> conn_bytes rest = after))"
proof -
  let ?V = "handover_texts cfg j raw \<union> greeting_texts cfg"
  have "ensures (\<lambda>s. snd ` set (us_sent s) \<subseteq> ?V) (deliver_host tx net cfg j raw route) (\<lambda>_ s. snd ` set (us_sent s) \<subseteq> ?V)"
    by (rule spoken.deliver_keeps) simp
  moreover have "snd ` set (us_sent (new_upstream tx route)) \<subseteq> ?V" by (simp add: new_upstream_def)
  ultimately have "snd ` set (us_sent s) \<subseteq> ?V" using attempt_state [OF assms(1)] unfolding ensures_def by metis
  with assms(2) have "t \<in> ?V" by force
  moreover have "commands_ok cfg j" using assms(3-6) by (simp add: commands_ok_def)
  ultimately have "framed t \<or> t = dot_stuff raw @ ''.'' @ CRLF" using commands_framed by blast
  then show ?thesis using receive_dot_stuffed [OF assms(7,8), of "length raw"] by auto
qed

theorem relay_writes_no_surprises_witness:
  "\<exists>a s. attempt_route sample_text sample_net sample_upstream sample_job sample_dot ''h.b.c'' = (Delivered, a, s)
     \<and> (True, ''RCPT TO:<a@b.c>'' @ CRLF) \<in> set (us_sent s) \<and> framed (''RCPT TO:<a@b.c>'' @ CRLF)"
proof -
  let ?t = "''RCPT TO:<a@b.c>'' @ CRLF"
  obtain a s where r: "attempt_route sample_text sample_net sample_upstream sample_job sample_dot ''h.b.c'' = (Delivered, a, s)"
    "us_sent s = session_script sample_upstream sample_job sample_dot sample_server" using sample_attempt [of "''h.b.c''"] by blast
  have m: "(True, ?t) \<in> set (us_sent s)" by (simp add: r(2) session_script_def handover_script_def sample_job_def)
  have h: "list_all printable (uc_hostname sample_upstream)" by (simp add: sample_upstream_def printable_def byte_def)
  have "framed ?t \<or> (\<forall>io after. plain_conn io \<and> conn_bytes io = ?t @ after
    \<longrightarrow> (\<exists>rest. receive (length sample_dot) [] io = Received sample_dot rest \<and> plain_conn rest \<and> conn_bytes rest = after))"
    by (rule relay_writes_no_surprises [OF r(1) m h])
      (use session_facts(2,3,7) sample_dot_valid in \<open>simp_all add: sample_job_def sample_upstream_def\<close>)
  then have "framed ?t"
    by (auto simp: framed_iff clean_line_def intro: exI [of _ "''RCPT TO:<a@b.c>''"])
  with r m show ?thesis by blast
qed


text \<open>The outcome is delivery exactly when one of the attempts that were made ended with the server taking the message.\<close>

lemma delivered_iff_taken:
  "fst (deliver_traced tx net cfg j raw) = Delivered \<longleftrightarrow>
   (\<exists>i < length (snd (deliver_traced tx net cfg j raw)). \<exists>out a u.
      attempt_route tx (net i) cfg j raw (jb_hosts j ! i) = (out, a, u) \<and> took raw u)"
proof -
  obtain out ats where r: "deliver_traced tx net cfg j raw = (out, ats)" by fastforce
  from routes_tried [OF r [unfolded deliver_traced_def]] have
    tried: "\<And>i. i < length ats \<Longrightarrow> \<exists>o1 s. attempt_route tx (net i) cfg j raw (jb_hosts j ! i) = (o1, ats ! i, s)
        \<and> (if Suc i = length ats then o1 = out else is_temporary o1)"
    and none: "ats = [] \<Longrightarrow> out \<noteq> Delivered" by (auto split: if_splits)
  have "out = Delivered" if "i < length ats" "attempt_route tx (net i) cfg j raw (jb_hosts j ! i) = (o1, a, u)" "took raw u" for i o1 a u
    using tried [OF that(1)] attempt_accepted(2) [OF that(2)] that(2,3) by (auto split: if_splits)
  moreover have "\<exists>i < length ats. \<exists>o1 a u. attempt_route tx (net i) cfg j raw (jb_hosts j ! i) = (o1, a, u) \<and> took raw u"
    if od: "out = Delivered"
  proof -
    have i: "length ats - 1 < length ats" "Suc (length ats - 1) = length ats" using none od by (cases ats; simp)+
    from tried [OF i(1)] obtain u where "attempt_route tx (net (length ats - 1)) cfg j raw (jb_hosts j ! (length ats - 1)) = (Delivered, ats ! (length ats - 1), u)"
      using i od by auto
    with i attempt_accepted(2) [OF this] show ?thesis by blast
  qed
  ultimately show ?thesis using r by auto
qed

text \<open>
  C12: the queue tells the truth about what was delivered. After a worker ran a job through the relay,
  its delivery is recorded as delivered exactly when it had not expired, its body was on disk and
  one of the servers tried had taken that body, that is, had been sent it after its 354 and had answered
  it with a well formed reply of code 250; in every other case it is recorded as failed or as
  pending again.
\<close>

theorem delivered_status_truthful:
  assumes "run_job san max_age (deliver_traced tx net cfg) now now_after random j q = Inr q'"
    and "d \<in> set (q_deliveries q')" "dr_id d = jb_delivery_id j"
  shows "(dr_status d = Ds_Delivered \<longleftrightarrow>
      now - jb_created j < max_age
      \<and> (\<exists>raw i out a u. q_spool q (jb_message_id j) = Some raw \<and> i < length (snd (deliver_traced tx net cfg j raw))
          \<and> attempt_route tx (net i) cfg j raw (jb_hosts j ! i) = (out, a, u) \<and> took raw u))
    \<and> dr_status d \<in> {Ds_Delivered, Ds_Failed, Ds_Pending}"
proof (cases "max_age \<le> now - jb_created j")
  case True
  then have "dr_status d = Ds_Failed" using assms finish_status by (auto simp: run_job_def finish_def)
  with True show ?thesis by simp
next
  case False
  with assms(1) obtain raw where raw: "q_spool q (jb_message_id j) = Some raw" by (auto simp: run_job_def split: option.splits)
  obtain out ats where r: "deliver_traced tx net cfg j raw = (out, ats)" by fastforce
  have "dr_status d = (case out of Delivered \<Rightarrow> Ds_Delivered | Permanent _ \<Rightarrow> Ds_Failed | Temporary _ \<Rightarrow> Ds_Pending)"
    using assms False raw r finish_status by (cases out) (auto simp: run_job_def)
  then have "dr_status d = Ds_Delivered \<longleftrightarrow> fst (deliver_traced tx net cfg j raw) = Delivered"
    "dr_status d \<in> {Ds_Delivered, Ds_Failed, Ds_Pending}" using r by (cases out; simp)+
  with False raw show ?thesis unfolding delivered_iff_taken by auto
qed

theorem delivered_status_truthful_witness:
  "\<exists>q' d. run_job (\<lambda>t. (t, False)) 86400 (deliver_traced sample_text (\<lambda>_. sample_net) sample_upstream) 100 101 0 sample_job sample_queue
       = Inr q' \<and> d \<in> set (q_deliveries q') \<and> dr_id d = 1 \<and> dr_status d = Ds_Delivered"
proof -
  let ?deliver = "deliver_traced sample_text (\<lambda>_. sample_net) sample_upstream"
  have j: "jb_delivery_id sample_job = 1" "jb_message_id sample_job = ''m''" "jb_created sample_job = 0" "jb_hosts sample_job = [''h.b.c'', ''i.b.c'']"
    by (simp_all add: sample_job_def)
  obtain raw where raw: "q_spool sample_queue ''m'' = Some raw" by (simp add: sample_fields)
  obtain a u where t: "attempt_route sample_text sample_net sample_upstream sample_job raw ''h.b.c'' = (Delivered, a, u)"
    using sample_attempt [of "''h.b.c''" sample_job raw] by blast
  then have dl: "?deliver sample_job raw = (Delivered, [a])" by (simp add: deliver_traced_def j)
  define q' where "q' = finish_with_attempts (\<lambda>t. (t, False)) sample_job Ds_Delivered [] 0 [a] sample_queue"
  have r: "run_job (\<lambda>t. (t, False)) 86400 ?deliver 100 101 0 sample_job sample_queue = Inr q'"
    by (simp add: run_job_def j raw dl q'_def)
  obtain d where d: "d \<in> set (q_deliveries q')" "dr_id d = jb_delivery_id sample_job"
    by (simp add: q'_def finish_with_attempts_def Let_def update_delivery_def update_where_def sample_deliveries sample_row_def j)
  have "attempt_route sample_text sample_net sample_upstream sample_job raw (jb_hosts sample_job ! 0) = (Delivered, a, u)"
    "took raw u" "0 < length (snd (?deliver sample_job raw))" using t attempt_accepted(2) [OF t] by (simp_all add: j dl)
  with delivered_status_truthful [OF r d] raw j have "dr_status d = Ds_Delivered" by fastforce
  with r d j show ?thesis by auto
qed
end
