(* ===== verification/NF_Probe.thy ===== *)
theory NF_Probe
  imports NF_Exchange
begin

text \<open>
  The verification of a recipient at its destination (\<open>src/recipient_verification.rs\<close>): settings,
  the envelope-only conversation of a probe, the walk over the routes and the cache of verdicts.

  A probe speaks through the same network as a delivery (\<open>NF_Relay\<close>) and keeps no record of an
  attempt. The digest of a cache key is an argument. A check holds the cache's lock twice, so its
  two halves are separate steps between which other checks run; the permit of the semaphore, the
  clock and the moments at which the time limits strike are arguments.
\<close>

section \<open>Settings\<close>

record verification_settings =
  vs_timeout_ms :: nat
  vs_positive_cache_seconds :: nat
  vs_negative_cache_seconds :: nat

definition verification_default :: verification_settings where
  "verification_default = \<lparr>vs_timeout_ms = 8000, vs_positive_cache_seconds = 60, vs_negative_cache_seconds = 30\<rparr>"

definition verification_validate :: "verification_settings \<Rightarrow> unit result" where
  "verification_validate s =
     and_then (ensure (100 \<le> vs_timeout_ms s \<and> vs_timeout_ms s \<le> 15000) ''Recipient verification timeout must be 100-15000 ms'') (\<lambda>_.
     ensure (vs_positive_cache_seconds s \<le> 300 \<and> vs_negative_cache_seconds s \<le> 60)
       ''Recipient verification caches exceed the permitted TTL'')"

record verified_domain = domain +
  dom_recipient_verification :: "verification_settings option"

definition verification_policy :: "verified_domain list \<Rightarrow> recipient \<Rightarrow> verification_settings option" where
  "verification_policy domains r =
     (case rsplit_once (CHR ''@'') (rc_destination r) of
        None \<Rightarrow> None
      | Some (_, name) \<Rightarrow> Option.bind (find (\<lambda>d. eq_ignore_ascii_case (dom_name d) name) domains) dom_recipient_verification)"

section \<open>One probe\<close>

text \<open>Reading a reply without a record: nothing is redacted and no event is open.\<close>

definition unrecorded :: "(string \<Rightarrow> string) \<Rightarrow> relay_text" where
  "unrecorded lossy = \<lparr>tx_clean = (\<lambda>s. (s, False)), tx_sanitize = (\<lambda>s. (s, False)), tx_lossy = lossy\<rparr>"

definition probe_response :: "(string \<Rightarrow> string) \<Rightarrow> upstream_reply exchange" where
  "probe_response lossy = read_response (unrecorded lossy)"

definition probe_command :: "(string \<Rightarrow> string) \<Rightarrow> upstream_net \<Rightarrow> string \<Rightarrow> upstream_reply exchange" where
  "probe_command lossy net text = ex_bind (ex_write net text) (\<lambda>_. probe_response lossy)"

text \<open>The first allowed address that answers within its time.\<close>

fun probe_connect :: "upstream_net \<Rightarrow> upstream_config \<Rightarrow> ip_addr list \<Rightarrow> (chunk list \<times> bool) option result" where
  "probe_connect net cfg [] = Inr None"
| "probe_connect net cfg (ip # ips) =
     (if \<not> loopback_test cfg ip \<and> \<not> safe_ip ip then probe_connect net cfg ips
      else
       (case un_connect net ip of
          Succeeded stream \<Rightarrow> Inr (Some (stream, loopback_test cfg ip))
        | Refused _ \<Rightarrow> probe_connect net cfg ips
        | Cut e \<Rightarrow> Inl e))"

definition ex_ignore :: "'a exchange \<Rightarrow> unit exchange" where
  "ex_ignore m s = (Inr (), snd (m s))"

definition recipient_verdict :: "upstream_reply \<Rightarrow> verification_answer" where
  "recipient_verdict r =
     (if ur_code r = 250 \<or> ur_code r = 251 then Va_Accepted else if unknown_recipient r then Va_Unknown else Va_Unavailable)"

text \<open>RSET and QUIT under a short limit of their own: only the outer limit changes the verdict.\<close>

definition probe_cleanup :: "(string \<Rightarrow> string) \<Rightarrow> upstream_net \<Rightarrow> verification_answer \<Rightarrow> verification_answer exchange" where
  "probe_cleanup lossy net v =
     ex_bind (ex_ignore (probe_command lossy net (''RSET'' @ CRLF))) (\<lambda>_.
     ex_bind (ex_quit net) (\<lambda>q.
     case q of Cut e \<Rightarrow> ex_lift (Inl e) | _ \<Rightarrow> ex_return v))"

definition probe_envelope ::
    "(string \<Rightarrow> string) \<Rightarrow> upstream_net \<Rightarrow> string \<Rightarrow> string \<Rightarrow> verification_answer exchange" where
  "probe_envelope lossy net sender address =
     ex_bind (probe_command lossy net (''MAIL FROM:<'' @ sender @ ''>'' @ CRLF)) (\<lambda>r.
     if ur_code r \<noteq> 250 then ex_return Va_Unavailable
     else
      ex_bind (probe_command lossy net (''RCPT TO:<'' @ address @ ''>'' @ CRLF)) (\<lambda>rcpt.
      probe_cleanup lossy net (recipient_verdict rcpt)))"

definition probe_buffer :: "unit exchange" where
  "probe_buffer s = (ensure (fst (us_io s) = []) ''Unexpected plaintext after STARTTLS'', s)"

definition probe_secured ::
    "(string \<Rightarrow> string) \<Rightarrow> upstream_net \<Rightarrow> string \<Rightarrow> string \<Rightarrow> string \<Rightarrow> string \<Rightarrow> verification_answer exchange" where
  "probe_secured lossy net hello host_name sender address =
     ex_bind (probe_command lossy net (''STARTTLS'' @ CRLF)) (\<lambda>r.
     if ur_code r \<noteq> 220 then ex_return Va_Unavailable
     else
      ex_bind probe_buffer (\<lambda>_.
      ex_bind (ex_lift (un_tls net host_name)) (\<lambda>(_, stream).
      ex_bind (open_connection stream True) (\<lambda>_.
      ex_bind (probe_command lossy net hello) (\<lambda>ehlo.
      if ur_code ehlo \<noteq> 250 then ex_return Va_Unavailable else probe_envelope lossy net sender address)))))"

definition probe_session ::
    "(string \<Rightarrow> string) \<Rightarrow> upstream_net \<Rightarrow> upstream_config \<Rightarrow> string \<Rightarrow> bool \<Rightarrow> string \<Rightarrow> string \<Rightarrow> verification_answer exchange" where
  "probe_session lossy net cfg host_name loopback sender address =
     (let hello = ''EHLO '' @ uc_hostname cfg @ CRLF in
      ex_bind (probe_response lossy) (\<lambda>greeting.
      if ur_code greeting \<noteq> 220 then ex_return Va_Unavailable
      else
       ex_bind (probe_command lossy net hello) (\<lambda>ehlo.
       if ur_code ehlo \<noteq> 250 then ex_return Va_Unavailable
       else if has_extension ''STARTTLS'' ehlo then probe_secured lossy net hello host_name sender address
       else if uc_require_tls cfg \<or> \<not> loopback then ex_return Va_Unavailable
       else probe_envelope lossy net sender address)))"

definition probe ::
    "(string \<Rightarrow> string) \<Rightarrow> upstream_net \<Rightarrow> upstream_config \<Rightarrow> string \<Rightarrow> string \<Rightarrow> string \<Rightarrow> verification_answer exchange" where
  "probe lossy net cfg route sender address =
     ex_bind (ex_lift (ensure ((sender = [] \<or> valid_address sender) \<and> valid_address address) ''Invalid probe envelope'')) (\<lambda>_.
     ex_bind (ex_lift (case endpoint route (uc_port cfg) of None \<Rightarrow> Inl ''Invalid recipient route'' | Some e \<Rightarrow> Inr e)) (\<lambda>(host_name, port).
     ex_bind (ex_lift (un_lookup net (case split_once (CHR '':'') route of None \<Rightarrow> route | Some (name, _) \<Rightarrow> name) port)) (\<lambda>found.
     ex_bind (ex_lift (probe_connect net cfg (take 8 found))) (\<lambda>c.
     case c of
       None \<Rightarrow> ex_return Va_Unavailable
     | Some (stream, loopback) \<Rightarrow>
         ex_bind (open_connection stream False) (\<lambda>_. probe_session lossy net cfg host_name loopback sender address)))))"

section \<open>The routes of a recipient\<close>

definition probe_state :: "(string \<Rightarrow> string) \<Rightarrow> upstream" where
  "probe_state lossy = new_upstream (unrecorded lossy) []"

text \<open>A probe that fails or exceeds its share of the time is no verdict.\<close>

definition probed :: "(string \<Rightarrow> string) \<Rightarrow> upstream_net \<Rightarrow> upstream_config \<Rightarrow> string \<Rightarrow> string \<Rightarrow> string \<Rightarrow> verification_answer" where
  "probed lossy net cfg sender address route =
     (case fst (probe lossy net cfg route sender address (probe_state lossy)) of Inr v \<Rightarrow> v | Inl _ \<Rightarrow> Va_Unavailable)"

text \<open>\<open>expired i\<close>: the limit of the whole check strikes during the probe of route \<open>i\<close>.\<close>

fun verify_routes ::
    "(nat \<Rightarrow> string \<Rightarrow> verification_answer) \<Rightarrow> (nat \<Rightarrow> bool) \<Rightarrow> nat \<Rightarrow> bool \<Rightarrow> string list \<Rightarrow> verification_answer" where
  "verify_routes result expired i all_unknown [] = (if all_unknown then Va_Unknown else Va_Unavailable)"
| "verify_routes result expired i all_unknown (route # routes) =
     (if expired i then Va_Unavailable
      else if result i route = Va_Accepted then Va_Accepted
      else verify_routes result expired (Suc i) (all_unknown \<and> result i route = Va_Unknown) routes)"

section \<open>The cache\<close>

record probe_key =
  pk_hostname :: string
  pk_destination :: string
  pk_sender :: string
  pk_hosts :: "string list"
  pk_port :: u16
  pk_require_tls :: bool
  pk_allow_loopback_plaintext :: bool
  pk_settings :: verification_settings

definition key_of :: "upstream_config \<Rightarrow> recipient \<Rightarrow> string \<Rightarrow> verification_settings \<Rightarrow> probe_key" where
  "key_of cfg r sender settings =
     \<lparr>pk_hostname = uc_hostname cfg, pk_destination = rc_destination r, pk_sender = sender, pk_hosts = rc_hosts r, pk_port = uc_port cfg,
      pk_require_tls = uc_require_tls cfg, pk_allow_loopback_plaintext = uc_allow_loopback_plaintext cfg, pk_settings = settings\<rparr>"

type_synonym verdict_cache = "(string \<times> int \<times> verification_answer) list"

definition CACHE_ENTRIES :: nat where
  "CACHE_ENTRIES = 10000"

text \<open>The first half: a live entry is the verdict, an expired one is removed.\<close>

definition cache_get :: "string \<Rightarrow> int \<Rightarrow> verdict_cache \<Rightarrow> verification_answer option \<times> verdict_cache" where
  "cache_get key now c =
     (case map_of c key of
        None \<Rightarrow> (None, c)
      | Some (until, v) \<Rightarrow> if until > now then (Some v, c) else (None, filter (\<lambda>(k, _). k \<noteq> key) c))"

definition verdict_ttl :: "verification_settings \<Rightarrow> verification_answer \<Rightarrow> nat" where
  "verdict_ttl settings v =
     (case v of Va_Accepted \<Rightarrow> vs_positive_cache_seconds settings | Va_Unknown \<Rightarrow> vs_negative_cache_seconds settings | Va_Unavailable \<Rightarrow> 0)"

text \<open>The second half: the clock is read for the eviction and again for the new entry.\<close>

definition cache_put :: "verification_settings \<Rightarrow> string \<Rightarrow> verification_answer \<Rightarrow> int \<Rightarrow> int \<Rightarrow> verdict_cache \<Rightarrow> verdict_cache" where
  "cache_put settings key v now_evict now c =
     (let ttl = verdict_ttl settings v in
      if ttl = 0 then c
      else
       (let c1 = (if CACHE_ENTRIES \<le> length c then filter (\<lambda>(_, until, _). until > now_evict) c else c) in
        if length c1 < CACHE_ENTRIES then (key, now + int ttl, v) # filter (\<lambda>(k, _). k \<noteq> key) c1 else c1))"

text \<open>What a check meets: the network at each route, the moments at which limits strike, the permit and the clock.\<close>

record probe_env =
  pe_lossy :: "string \<Rightarrow> string"
  pe_nets :: "nat \<Rightarrow> upstream_net"
  pe_expired :: "nat \<Rightarrow> bool"
  pe_permit :: bool
  pe_now :: int
  pe_now_evict :: int
  pe_now_insert :: int

definition verification_verdict :: "probe_env \<Rightarrow> upstream_config \<Rightarrow> recipient \<Rightarrow> string \<Rightarrow> verification_answer" where
  "verification_verdict env cfg r sender =
     verify_routes (\<lambda>i. probed (pe_lossy env) (pe_nets env i) cfg sender (rc_destination r)) (pe_expired env) 0 (rc_hosts r \<noteq> []) (rc_hosts r)"

text \<open>The check itself, when no other check runs between its halves.\<close>

definition recipient_check ::
    "(probe_key \<Rightarrow> string) \<Rightarrow> probe_env \<Rightarrow> verified_domain list \<Rightarrow> upstream_config \<Rightarrow> recipient \<Rightarrow> string \<Rightarrow> verdict_cache
      \<Rightarrow> verification_answer \<times> verdict_cache" where
  "recipient_check digest env domains cfg r sender c =
     (case verification_policy domains r of
        None \<Rightarrow> (Va_Accepted, c)
      | Some settings \<Rightarrow>
         (let key = digest (key_of cfg r sender settings) in
          case cache_get key (pe_now env) c of
            (Some v, c1) \<Rightarrow> (v, c1)
          | (None, c1) \<Rightarrow>
              if \<not> pe_permit env then (Va_Unavailable, c1)
              else
               (let v = verification_verdict env cfg r sender
                in (v, cache_put settings key v (pe_now_evict env) (pe_now_insert env) c1))))"

section \<open>What a probe writes\<close>

definition envelope_texts :: "string \<Rightarrow> string \<Rightarrow> string set" where
  "envelope_texts sender address =
     {''MAIL FROM:<'' @ sender @ ''>'' @ CRLF, ''RCPT TO:<'' @ address @ ''>'' @ CRLF, ''RSET'' @ CRLF, ''QUIT'' @ CRLF}"

text \<open>The steps of a probe keep the invariants of a conversation, too.\<close>

context conversation
begin

lemma probe_command_keeps: "msg \<in> W \<Longrightarrow> ensures I (probe_command lossy net msg) (\<lambda>_. I)"
  unfolding probe_command_def probe_response_def
  by (intro ensures_bind [where R = "\<lambda>_. I"] write_keeps response_keeps)

lemma probe_buffer_keeps: "ensures I probe_buffer (\<lambda>_. I)"
  by (simp add: ensures_def probe_buffer_def)

lemma ignore_keeps: "ensures I m (\<lambda>_. I) \<Longrightarrow> ensures I (ex_ignore m) (\<lambda>_. I)"
  by (simp add: ensures_def ex_ignore_def)

lemma cleanup_keeps:
  assumes "''RSET'' @ CRLF \<in> W" "''QUIT'' @ CRLF \<in> W"
  shows "ensures I (probe_cleanup lossy net v) (\<lambda>_. I)"
  unfolding probe_cleanup_def
proof (intro ensures_bind [where R = "\<lambda>_. I"] ignore_keeps probe_command_keeps assms(1))
  show "ensures I (ex_quit net) (\<lambda>_. I)" using writes [OF _ assms(2)] by (simp add: ensures_def ex_quit_def)
  show "ensures I (case q of Cut e \<Rightarrow> ex_lift (Inl e) | _ \<Rightarrow> ex_return v) (\<lambda>_. I)" for q
    by (cases q) (auto intro: ensures_return ensures_lift)
qed

lemma envelope_keeps:
  assumes "envelope_texts sender address \<subseteq> W"
  shows "ensures I (probe_envelope lossy net sender address) (\<lambda>_. I)"
  unfolding probe_envelope_def using assms
  by (auto simp: envelope_texts_def intro!: ensures_bind [where R = "\<lambda>_. I"] probe_command_keeps cleanup_keeps ensures_return)

end

context opening_conversation
begin

lemma probe_secured_keeps:
  assumes "envelope_texts sender address \<union> {''STARTTLS'' @ CRLF, hello} \<subseteq> W"
  shows "ensures I (probe_secured lossy net hello h sender address) (\<lambda>_. I)"
  unfolding probe_secured_def using assms envelope_keeps [of sender address]
  by (auto intro!: ensures_bind [where R = "\<lambda>_. I"] probe_command_keeps probe_buffer_keeps open_keeps ensures_return ensures_lift)

lemma probe_session_keeps:
  assumes "envelope_texts sender address \<union> greeting_texts cfg \<subseteq> W"
  shows "ensures I (probe_session lossy net cfg h loopback sender address) (\<lambda>_. I)"
proof -
  have "ensures I (probe_response lossy) (\<lambda>_. I)" by (simp add: probe_response_def response_keeps)
  then show ?thesis unfolding probe_session_def using assms envelope_keeps [of sender address] probe_secured_keeps [of sender address]
    by (auto simp: Let_def greeting_texts_def intro!: ensures_bind [where R = "\<lambda>_. I"] probe_command_keeps ensures_return)
qed

lemma probe_keeps:
  assumes "envelope_texts sender address \<union> greeting_texts cfg \<subseteq> W"
  shows "ensures I (probe lossy net cfg route sender address) (\<lambda>_. I)"
  unfolding probe_def using probe_session_keeps [OF assms]
  by (auto split: option.split prod.split intro!: ensures_bind [where R = "\<lambda>_. I"] open_keeps ensures_return ensures_lift)

end

text \<open>Without encryption only the greeting is written, unless the address is a permitted local test.\<close>

lemma probe_command_encrypted:
  "ensures (\<lambda>s. us_encrypted s \<and> clear_ok cfg s) (ex_bind (probe_command lossy net hello) (\<lambda>ehlo.
     if ur_code ehlo \<noteq> 250 then ex_return Va_Unavailable else probe_envelope lossy net sender address))
     (\<lambda>_ s. us_encrypted s \<and> clear_ok cfg s)"
  by (rule ensures_bind, rule encrypted.probe_command_keeps) (auto intro!: encrypted.envelope_keeps ensures_return)

lemma probe_secured_clear:
  "ensures (clear_ok cfg) (probe_secured lossy net (''EHLO '' @ uc_hostname cfg @ CRLF) h sender address) (\<lambda>_. clear_ok cfg)"
  unfolding probe_secured_def
  by (auto simp del: append.simps simp: greeting_texts_def intro!: ensures_reopened probe_command_encrypted
      ensures_bind [where R = "\<lambda>_. clear_ok cfg"] clear.probe_command_keeps clear.probe_buffer_keeps ensures_return ensures_lift)

lemma probe_session_clear:
  assumes "uc_require_tls cfg \<or> \<not> loopback"
  shows "ensures (clear_ok cfg) (probe_session lossy net cfg h loopback sender address) (\<lambda>_. clear_ok cfg)"
proof -
  have "ensures (clear_ok cfg) (probe_response lossy) (\<lambda>_. clear_ok cfg)" by (simp add: probe_response_def clear.response_keeps)
  then show ?thesis unfolding probe_session_def Let_def using assms probe_secured_clear [of cfg lossy net h sender address]
    by (auto simp del: append.simps simp: greeting_texts_def
        intro!: ensures_bind [where R = "\<lambda>_. clear_ok cfg"] clear.probe_command_keeps ensures_return)
qed

lemma probe_connect_reaches: "probe_connect net cfg ips = Inr (Some (stream, lb)) \<Longrightarrow> reached net cfg ips stream lb"
  by (induction ips) (auto simp: reached_def split: if_splits attempted.splits)

lemma probe_connected_clear:
  assumes "\<And>ip stream. loopback_test cfg ip \<Longrightarrow> un_connect net ip = Succeeded stream \<Longrightarrow> uc_require_tls cfg"
  shows "ensures (clear_ok cfg) (ex_bind (ex_lift (probe_connect net cfg ips)) (\<lambda>c.
     case c of None \<Rightarrow> ex_return Va_Unavailable
     | Some (stream, loopback) \<Rightarrow>
         ex_bind (open_connection stream False) (\<lambda>_. probe_session lossy net cfg h loopback sender address))) (\<lambda>_. clear_ok cfg)"
proof -
  consider (failed) e where "probe_connect net cfg ips = Inl e" | (none) "probe_connect net cfg ips = Inr None"
    | (some) stream lb where "probe_connect net cfg ips = Inr (Some (stream, lb))"
    by (metis (full_types) not_None_eq old.prod.exhaust old.sum.exhaust)
  then show ?thesis
  proof cases
    case (some stream lb)
    then have "uc_require_tls cfg \<or> \<not> lb" using probe_connect_reaches [OF some] assms by (auto simp: reached_def)
    from ensures_bind [OF clear.open_keeps probe_session_clear [OF this]] some show ?thesis
      by (simp add: ensures_def ex_bind_def [of "ex_lift _"] ex_lift_def)
  qed (simp_all add: ensures_def ex_bind_def ex_lift_def ex_return_def)
qed

lemma probe_clear:
  assumes "\<And>ip stream. loopback_test cfg ip \<Longrightarrow> un_connect net ip = Succeeded stream \<Longrightarrow> uc_require_tls cfg"
  shows "ensures (clear_ok cfg) (probe lossy net cfg route sender address) (\<lambda>_. clear_ok cfg)"
  unfolding probe_def using assms
  by (auto simp only: split: prod.split intro!: ensures_bind [where R = "\<lambda>_. clear_ok cfg"] probe_connected_clear ensures_lift)

text \<open>A verdict other than unavailability is an answer to RCPT for that address.\<close>

abbreviation asked :: "string \<Rightarrow> upstream \<Rightarrow> bool" where
  "asked address s \<equiv> ''RCPT TO:<'' @ address @ ''>'' @ CRLF \<in> snd ` set (us_sent s)"

definition definite :: "string \<Rightarrow> verification_answer result \<Rightarrow> upstream \<Rightarrow> bool" where
  "definite address r s \<longleftrightarrow> r \<noteq> Inr Va_Unavailable \<and> is_ok r \<longrightarrow> asked address s"

interpretation asking: conversation "asked address" UNIV for address
  by unfold_locales auto

lemma definite_unavailable: "ensures P (ex_return Va_Unavailable) (definite address)"
  by (rule ensures_return) (simp add: definite_def)

lemma definite_after: "(\<And>x. ensures (\<lambda>_. True) (f x) (definite address)) \<Longrightarrow> ensures (\<lambda>_. True) (ex_bind m f) (definite address)"
  by (rule ensures_bind [where R = "\<lambda>_ _. True"]) (auto simp: ensures_def definite_def)

lemma rcpt_asked: "ensures (\<lambda>_. True) (probe_command lossy net (''RCPT TO:<'' @ address @ ''>'' @ CRLF)) (\<lambda>_. asked address)"
  unfolding probe_command_def
proof (rule ensures_bind)
  show "ensures (\<lambda>_. True) (ex_write net (''RCPT TO:<'' @ address @ ''>'' @ CRLF)) (\<lambda>_. asked address)"
    by (rule ensures_write) (simp add: image_iff)
  show "ensures (asked address) (probe_response lossy) (\<lambda>_. asked address)" for x :: unit
    unfolding probe_response_def by (rule asking.response_keeps)
qed

lemma envelope_definite: "ensures (\<lambda>_. True) (probe_envelope lossy net sender address) (definite address)"
proof -
  have "ensures (asked address) (probe_cleanup lossy net v) (definite address)" for v
    by (rule ensures_weaken [OF asking.cleanup_keeps]) (simp_all add: definite_def)
  then have "ensures (\<lambda>_. True) (ex_bind (probe_command lossy net (''RCPT TO:<'' @ address @ ''>'' @ CRLF)) (\<lambda>rcpt.
      probe_cleanup lossy net (recipient_verdict rcpt))) (definite address)"
    by (rule ensures_bind [OF rcpt_asked]) (simp add: definite_def)
  then show ?thesis unfolding probe_envelope_def by (auto intro!: definite_after definite_unavailable)
qed

lemma probe_definite: "ensures (\<lambda>_. True) (probe lossy net cfg route sender address) (definite address)"
  unfolding probe_def probe_session_def probe_secured_def Let_def
  by (auto split: option.split prod.split intro!: definite_after definite_unavailable envelope_definite)

lemma probe_envelope_valid:
  assumes "probe lossy net cfg route sender address s = (r, s')" "us_sent s' \<noteq> us_sent s"
  shows "(sender = [] \<or> valid_address sender) \<and> valid_address address"
  using assms by (auto simp: probe_def ex_bind_def ex_lift_def ensure_def split: if_splits)

lemma probe_texts_framed:
  assumes "list_all printable (uc_hostname cfg)" "sender = [] \<or> valid_address sender" "valid_address address"
    and "t \<in> envelope_texts sender address \<union> greeting_texts cfg"
  shows "framed t"
proof -
  have f: "framed (l @ m @ n @ CRLF)" if "clean_line l" "clean_line m" "clean_line n" for l m n
    using that by (auto simp: framed_iff intro: exI [of _ "l @ m @ n"])
  have c: "clean_line sender" "clean_line address" "clean_line (uc_hostname cfg)"
    using assms(1-3) clean_address printable_line by (auto simp: clean_line_def)
  have k: "clean_line ''MAIL FROM:<''" "clean_line ''RCPT TO:<''" "clean_line ''>''" "clean_line ''RSET''" "clean_line ''EHLO ''"
    "clean_line ''STARTTLS''" "clean_line ''QUIT''" "clean_line []" by (simp_all add: clean_line_def)
  consider "t = ''MAIL FROM:<'' @ sender @ ''>'' @ CRLF" | "t = ''RCPT TO:<'' @ address @ ''>'' @ CRLF" | "t = ''RSET'' @ [] @ [] @ CRLF"
    | "t = ''QUIT'' @ [] @ [] @ CRLF" | "t = ''EHLO '' @ uc_hostname cfg @ [] @ CRLF" | "t = ''STARTTLS'' @ [] @ [] @ CRLF"
    using assms(4) unfolding envelope_texts_def greeting_texts_def by fastforce
  then show ?thesis using f c k by cases metis+
qed

section \<open>The routes\<close>

lemma verify_routes_unknown:
  "verify_routes result expired i u routes = Va_Unknown \<longleftrightarrow>
   u \<and> (\<forall>k < length routes. \<not> expired (i + k) \<and> result (i + k) (routes ! k) = Va_Unknown)"
proof (induction routes arbitrary: i u)
  case (Cons route routes)
  show ?case
  proof (cases "\<not> expired i \<and> result i route = Va_Unknown")
    case True
    then show ?thesis by (simp add: Cons All_less_Suc2)
  next
    case False
    then show ?thesis by (auto simp: Cons All_less_Suc2)
  qed
qed simp

lemma verify_routes_accepted:
  "verify_routes result expired i u routes = Va_Accepted \<longleftrightarrow>
   (\<exists>k < length routes. result (i + k) (routes ! k) = Va_Accepted \<and> (\<forall>l \<le> k. \<not> expired (i + l)))"
proof (induction routes arbitrary: i u)
  case (Cons route routes)
  have split: "(\<exists>k < Suc n. P k) \<longleftrightarrow> P 0 \<or> (\<exists>k < n. P (Suc k))" for n and P :: "nat \<Rightarrow> bool" using Ex_less_Suc2 by blast
  have all: "(\<forall>l \<le> Suc k. P l) \<longleftrightarrow> P 0 \<and> (\<forall>l \<le> k. P (Suc l))" for k and P :: "nat \<Rightarrow> bool"
    using All_less_Suc2 [of "Suc k" P] by (simp add: less_Suc_eq_le)
  show ?case by (auto simp: Cons split all)
qed simp
section \<open>The cache\<close>

text \<open>The checks of a process: their halves in any order, with a log of the verdicts that were obtained.\<close>

record verification_run =
  vr_cache :: verdict_cache
  vr_clock :: int
  vr_log :: "(int \<times> probe_key \<times> verification_answer) list"

inductive verifying :: "(probe_key \<Rightarrow> string) \<Rightarrow> verification_run \<Rightarrow> bool" for digest where
  start: "verifying digest \<lparr>vr_cache = [], vr_clock = t, vr_log = []\<rparr>"
| get: "verifying digest s \<Longrightarrow> vr_clock s \<le> now \<Longrightarrow>
    verifying digest (s\<lparr>vr_cache := snd (cache_get key now (vr_cache s)), vr_clock := now\<rparr>)"
| put: "verifying digest s \<Longrightarrow> vr_clock s \<le> pe_now_evict env \<Longrightarrow> pe_now_evict env \<le> pe_now_insert env \<Longrightarrow>
    v = verification_verdict env cfg r sender \<Longrightarrow> key = key_of cfg r sender settings \<Longrightarrow>
    verifying digest (s\<lparr>vr_cache := cache_put settings (digest key) v (pe_now_evict env) (pe_now_insert env) (vr_cache s),
      vr_clock := pe_now_insert env, vr_log := (pe_now_insert env, key, v) # vr_log s\<rparr>)"

text \<open>An entry holds a verdict that was obtained, for as long as its kind may be kept.\<close>

definition entry_ok :: "(probe_key \<Rightarrow> string) \<Rightarrow> (int \<times> probe_key \<times> verification_answer) list \<Rightarrow> int \<Rightarrow> string \<times> int \<times> verification_answer \<Rightarrow> bool" where
  "entry_ok digest obtained now e \<longleftrightarrow>
     (\<exists>t key. (t, key, snd (snd e)) \<in> set obtained \<and> digest key = fst e \<and> t \<le> now \<and> snd (snd e) \<noteq> Va_Unavailable
        \<and> fst (snd e) = t + int (verdict_ttl (pk_settings key) (snd (snd e))))"

lemma entry_ok_later: "entry_ok digest obtained now e \<Longrightarrow> set obtained \<subseteq> set obtained' \<Longrightarrow> now \<le> now' \<Longrightarrow> entry_ok digest obtained' now' e"
  unfolding entry_ok_def by (meson order_trans subsetD)

definition cache_ok :: "(probe_key \<Rightarrow> string) \<Rightarrow> verification_run \<Rightarrow> bool" where
  "cache_ok digest s \<longleftrightarrow> distinct (map fst (vr_cache s)) \<and> length (vr_cache s) \<le> CACHE_ENTRIES
     \<and> (\<forall>e \<in> set (vr_cache s). entry_ok digest (vr_log s) (vr_clock s) e)"

lemma cache_get_sub: "set (snd (cache_get key now c)) \<subseteq> set c" "length (snd (cache_get key now c)) \<le> length c"
  "distinct (map fst c) \<Longrightarrow> distinct (map fst (snd (cache_get key now c)))"
  by (auto simp: cache_get_def split: option.split intro: distinct_map_filter)

lemma cache_put_spec:
  assumes "distinct (map fst c)" "length c \<le> CACHE_ENTRIES"
  shows "distinct (map fst (cache_put settings k v t1 t2 c))" "length (cache_put settings k v t1 t2 c) \<le> CACHE_ENTRIES"
    "e \<in> set (cache_put settings k v t1 t2 c) \<Longrightarrow>
      e \<in> set c \<or> (e = (k, t2 + int (verdict_ttl settings v), v) \<and> verdict_ttl settings v \<noteq> 0)"
proof -
  have d: "distinct (map fst (filter P c))" for P using assms(1) by (rule distinct_map_filter)
  have dd: "distinct (map fst (filter Q (filter P c)))" for P Q using d by (rule distinct_map_filter)
  have n: "length (filter Q xs) < n" if "length xs < n" for Q and xs :: verdict_cache and n
    using that length_filter_le [of Q xs] by linarith
  show "distinct (map fst (cache_put settings k v t1 t2 c))"
    using assms(1) d dd by (auto simp: cache_put_def Let_def)
  show "length (cache_put settings k v t1 t2 c) \<le> CACHE_ENTRIES"
    using assms(2) n order_trans [OF length_filter_le assms(2)] by (auto simp: cache_put_def Let_def Suc_le_eq not_less intro: le_antisym)
  show "e \<in> set (cache_put settings k v t1 t2 c) \<Longrightarrow>
      e \<in> set c \<or> (e = (k, t2 + int (verdict_ttl settings v), v) \<and> verdict_ttl settings v \<noteq> 0)"
    by (auto simp: cache_put_def Let_def split: if_splits)
qed

lemma verifying_ok: "verifying digest s \<Longrightarrow> cache_ok digest s"
proof (induction rule: verifying.induct)
  case (start t)
  then show ?case by (simp add: cache_ok_def)
next
  case (get s now key)
  have "entry_ok digest (vr_log s) now e" if "e \<in> set (snd (cache_get key now (vr_cache s)))" for e
    using that get cache_get_sub(1) by (fastforce simp: cache_ok_def intro: entry_ok_later)
  moreover have "length (snd (cache_get key now (vr_cache s))) \<le> CACHE_ENTRIES"
    using get cache_get_sub(2) by (fastforce simp: cache_ok_def intro: order_trans)
  ultimately show ?case using get cache_get_sub(3) by (simp add: cache_ok_def)
next
  case (put s env v cfg r sender key settings)
  let ?log = "(pe_now_insert env, key, v) # vr_log s"
  have "entry_ok digest ?log (pe_now_insert env) e"
    if "e \<in> set (cache_put settings (digest key) v (pe_now_evict env) (pe_now_insert env) (vr_cache s))" for e
  proof -
    have "e \<in> set (vr_cache s) \<or> (e = (digest key, pe_now_insert env + int (verdict_ttl settings v), v) \<and> verdict_ttl settings v \<noteq> 0)"
      using cache_put_spec(3) [OF _ _ that] put.IH by (simp add: cache_ok_def)
    then show ?thesis
    proof (elim disjE conjE)
      assume "e \<in> set (vr_cache s)"
      then have "entry_ok digest (vr_log s) (vr_clock s) e" using put.IH by (simp add: cache_ok_def)
      then show ?thesis by (rule entry_ok_later) (use put.hyps in auto)
    next
      assume "e = (digest key, pe_now_insert env + int (verdict_ttl settings v), v)" "verdict_ttl settings v \<noteq> 0"
      moreover have "pk_settings key = settings" using put.hyps by (simp add: key_of_def)
      moreover have "v \<noteq> Va_Unavailable" using calculation(2) by (auto simp: verdict_ttl_def)
      ultimately show ?thesis by (auto simp: entry_ok_def)
    qed
  qed
  then show ?case using put.IH cache_put_spec(1,2) [of "vr_cache s"] by (simp add: cache_ok_def)
qed
lemma cached_verdict:
  assumes "verifying digest s" "vr_clock s \<le> now" "cache_get (digest key) now (vr_cache s) = (Some v, c)"
    and "inj_on digest (insert key ((fst \<circ> snd) ` set (vr_log s)))"
  shows "\<exists>t. (t, key, v) \<in> set (vr_log s) \<and> t \<le> now \<and> now < t + int (verdict_ttl (pk_settings key) v)"
proof -
  from assms(3) obtain until where e: "(digest key, until, v) \<in> set (vr_cache s)" "now < until"
    by (auto simp: cache_get_def split: option.splits if_splits dest: map_of_SomeD)
  with verifying_ok [OF assms(1)] obtain t key' where k: "(t, key', v) \<in> set (vr_log s)" "digest key' = digest key" "t \<le> vr_clock s"
    "until = t + int (verdict_ttl (pk_settings key') v)" by (fastforce simp: cache_ok_def entry_ok_def)
  have "key' \<in> (fst \<circ> snd) ` set (vr_log s)" using k(1) by force
  then have "key' = key" using inj_onD [OF assms(4) k(2)] by simp
  with k e(2) assms(2) show ?thesis by (intro exI [of _ t]) auto
qed

section \<open>A server that knows the recipient\<close>

lemma probe_buffer_passes: "ensures (stands enc [] sent) probe_buffer (\<lambda>r s. r = Inr () \<and> stands enc [] sent s)"
  by (auto simp: ensures_def probe_buffer_def stands_def conn_bytes_def ensure_def)

lemma probe_answered:
  assumes "reply_ok (unrecorded lossy) c ls" "writable net"
  shows "ensures (stands enc (reply_text c ls @ rest) sent) (probe_command lossy net t)
    (\<lambda>r s. r = Inr \<lparr>ur_code = c, ur_lines = ls\<rparr> \<and> stands enc rest (sent @ [(enc, t)]) s)"
  unfolding probe_command_def probe_response_def
  by (rule ensures_then [OF stands_write [OF assms(2)]], rule response_read [OF assms(1)])

lemma envelope_accepted:
  assumes "cooperates (unrecorded lossy) raw v" "writable net" "un_quit net = Succeeded ()"
  shows "ensures (stands enc (reply_text 250 (sr_mail v) @ reply_text 250 (sr_rcpt v) @ rest) sent)
    (probe_envelope lossy net sender address) (\<lambda>r s. r = Inr Va_Accepted \<and> asked address s)"
proof -
  have ok: "reply_ok (unrecorded lossy) 250 (sr_mail v)" "reply_ok (unrecorded lossy) 250 (sr_rcpt v)"
    using assms(1) by (auto simp: cooperates_def)
  have "ensures (asked address) (ex_ignore (probe_command lossy net (''RSET'' @ CRLF))) (\<lambda>_. asked address)"
    by (intro asking.ignore_keeps asking.probe_command_keeps) simp
  then have "ensures (asked address) (probe_cleanup lossy net Va_Accepted) (\<lambda>r s. r = Inr Va_Accepted \<and> asked address s)"
    using assms(3) by (auto simp: probe_cleanup_def ensures_def ex_bind_def ex_ignore_def ex_quit_def ex_return_def)
  then have "ensures (stands enc rest ((sent @ [(enc, m)]) @ [(enc, ''RCPT TO:<'' @ address @ ''>'' @ CRLF)]))
      (probe_cleanup lossy net Va_Accepted) (\<lambda>r s. r = Inr Va_Accepted \<and> asked address s)" for m
    by (auto simp: ensures_def stands_def)
  then show ?thesis unfolding probe_envelope_def
    apply (intro ensures_then [OF probe_answered [OF ok(1) assms(2)]])
    apply (simp only: upstream_reply.simps simp_thms if_False)
    apply (rule ensures_then [OF probe_answered [OF ok(2) assms(2)]])
    apply (simp only: recipient_verdict_def upstream_reply.simps simp_thms if_True)
    done
qed

lemma probe_secured_accepted:
  assumes "cooperates (unrecorded lossy) raw v" "writable net" "un_quit net = Succeeded ()"
    and "un_tls net h = Inr (parameters, sr_secure_stream v)"
  shows "ensures (stands False (reply_text 220 (sr_starttls v) @ []) sent) (probe_secured lossy net hello h sender address)
    (\<lambda>r s. r = Inr Va_Accepted \<and> asked address s)"
proof -
  note v = assms(1) [unfolded cooperates_def]
  have ok: "reply_ok (unrecorded lossy) 220 (sr_starttls v)" "reply_ok (unrecorded lossy) 250 (sr_secure_ehlo v)"
    "plain_stream (sr_secure_stream v)" using v by auto
  have b: "bytes (sr_secure_stream v) = reply_text 250 (sr_secure_ehlo v) @ reply_text 250 (sr_mail v) @ reply_text 250 (sr_rcpt v)
      @ reply_text 354 (sr_data v) @ reply_text 250 (sr_final v)" using v by simp
  have lifted: "ensures P (ex_lift (un_tls net h)) (\<lambda>r s. r = Inr (parameters, sr_secure_stream v) \<and> P s)" for P
    by (rule ensures_lift) (simp add: assms(4))
  show ?thesis unfolding probe_secured_def
    apply (rule ensures_then [OF probe_answered [OF ok(1) assms(2)]])
    apply (simp only: upstream_reply.simps simp_thms if_False)
    apply (rule ensures_then [OF probe_buffer_passes], rule ensures_then [OF lifted])
    apply (simp only: prod.case)
    apply (rule ensures_then [OF open_stands [OF ok(3)]])
    apply (simp only: b)
    apply (rule ensures_then [OF probe_answered [OF ok(2) assms(2)]])
    apply (simp only: upstream_reply.simps simp_thms if_False)
    apply (rule envelope_accepted [OF assms(1-3)])
    done
qed

lemma probe_connect_finds:
  "find (answers_call net cfg) ips = Some ip \<Longrightarrow> un_connect net ip = Succeeded stream \<Longrightarrow>
   probe_connect net cfg ips = Inr (Some (stream, loopback_test cfg ip))"
  by (induction ips) (auto simp: answers_call_def split: if_splits attempted.splits)

lemma probe_accepted:
  assumes "endpoint route (uc_port cfg) = Some (h, port)" "sender = [] \<or> valid_address sender" "valid_address address"
    and "un_lookup net (case split_once (CHR '':'') route of None \<Rightarrow> route | Some (name, _) \<Rightarrow> name) port = Inr found"
    and "find (answers_call net cfg) (take 8 found) = Some ip" "un_connect net ip = Succeeded (sr_stream v)"
    and "un_tls net h = Inr (parameters, sr_secure_stream v)" "writable net" "un_quit net = Succeeded ()" "cooperates (unrecorded lossy) raw v"
  shows "\<exists>s. probe lossy net cfg route sender address (probe_state lossy) = (Inr Va_Accepted, s) \<and> asked address s"
proof -
  note v = assms(10) [unfolded cooperates_def]
  have ok: "reply_ok (unrecorded lossy) 220 (sr_greeting v)" "reply_ok (unrecorded lossy) 250 (sr_ehlo v)" "plain_stream (sr_stream v)" using v by auto
  have b: "bytes (sr_stream v) = reply_text 220 (sr_greeting v) @ reply_text 250 (sr_ehlo v) @ reply_text 220 (sr_starttls v) @ []"
    "has_extension ''STARTTLS'' \<lparr>ur_code = 250, ur_lines = sr_ehlo v\<rparr>" using v by (auto simp: has_extension_def)
  have lifted: "ensures P (ex_lift (Inr x)) (\<lambda>r s. r = Inr x \<and> P s)" for P and x :: 'a by (rule ensures_lift) simp
  have session: "ensures (stands False (bytes (sr_stream v)) []) (probe_session lossy net cfg h loopback sender address)
      (\<lambda>r s. r = Inr Va_Accepted \<and> asked address s)" for loopback
    unfolding probe_session_def Let_def probe_response_def b(1)
    apply (rule ensures_then [OF response_read [OF ok(1)]])
    apply (simp only: upstream_reply.simps simp_thms if_False)
    apply (rule ensures_then [OF probe_answered [OF ok(2) assms(8)]])
    apply (simp only: upstream_reply.simps simp_thms if_False if_True b(2))
    apply (rule probe_secured_accepted [OF assms(10,8,9,7)])
    done
  have "stands False [] [] (probe_state lossy)"
    by (simp add: stands_def probe_state_def new_upstream_def plain_conn_def conn_bytes_def)
  moreover have "ensures (stands False [] []) (probe lossy net cfg route sender address) (\<lambda>r s. r = Inr Va_Accepted \<and> asked address s)"
    using assms(2,3) ensures_then [OF open_stands [OF ok(3)] session]
    by (simp add: probe_def ensures_def ex_bind_def [of "ex_lift _"] ex_lift_def ensure_def assms(1,4) probe_connect_finds [OF assms(5,6)])
  ultimately show ?thesis unfolding ensures_def by (metis prod.collapse)
qed
section \<open>What verification guarantees\<close>

text \<open>
  C21: a probe asks about a recipient and reveals nothing else. It writes only the greeting, STARTTLS, the
  sender, the recipient, RSET and QUIT, each as one line that no address can break: never DATA and no
  content. Unless plain text is allowed for tests on loopback and a loopback address
  answered, the envelope is written only on a verified TLS connection. A verdict that the recipient
  exists or is unknown is an answer to that question.
\<close>

theorem probe_reveals_only_envelope:
  assumes "probe lossy net cfg route sender address (probe_state lossy) = (r, s)" "list_all printable (uc_hostname cfg)"
    and "uc_require_tls cfg \<or> (\<forall>ip stream. uc_allow_loopback_plaintext cfg \<and> is_loopback ip \<longrightarrow> un_connect net ip \<noteq> Succeeded stream)"
  shows "list_all (\<lambda>(enc, t). framed t \<and> (if enc
        then t \<in> {''EHLO '' @ uc_hostname cfg @ CRLF, ''STARTTLS'' @ CRLF, ''MAIL FROM:<'' @ sender @ ''>'' @ CRLF,
          ''RCPT TO:<'' @ address @ ''>'' @ CRLF, ''RSET'' @ CRLF, ''QUIT'' @ CRLF}
        else t \<in> {''EHLO '' @ uc_hostname cfg @ CRLF, ''STARTTLS'' @ CRLF})) (us_sent s)
    \<and> (r = Inr Va_Accepted \<or> r = Inr Va_Unknown \<longrightarrow> (True, ''RCPT TO:<'' @ address @ ''>'' @ CRLF) \<in> set (us_sent s))"
proof -
  let ?V = "envelope_texts sender address \<union> greeting_texts cfg"
  have init: "snd ` set (us_sent (probe_state lossy)) \<subseteq> ?V" "clear_ok cfg (probe_state lossy)" "us_sent (probe_state lossy) = []"
    by (simp_all add: probe_state_def new_upstream_def clear_ok_def)
  have "ensures (\<lambda>s. snd ` set (us_sent s) \<subseteq> ?V) (probe lossy net cfg route sender address) (\<lambda>_ s. snd ` set (us_sent s) \<subseteq> ?V)"
    by (rule spoken.probe_keeps) simp
  from ensures_at [OF this init(1) assms(1)] have said: "snd ` set (us_sent s) \<subseteq> ?V" .
  have "ensures (clear_ok cfg) (probe lossy net cfg route sender address) (\<lambda>_. clear_ok cfg)"
    by (rule probe_clear) (use assms(3) in \<open>auto simp: loopback_test_def\<close>)
  from ensures_at [OF this init(2) assms(1)] have clear: "clear_ok cfg s" .
  have definite: "definite address r s" using ensures_at [OF probe_definite _ assms(1)] by simp
  have framed: "framed t" if "(enc, t) \<in> set (us_sent s)" for enc t
  proof -
    have "us_sent s \<noteq> us_sent (probe_state lossy)" using that init(3) by auto
    from probe_envelope_valid [OF assms(1) this] have "(sender = [] \<or> valid_address sender) \<and> valid_address address" .
    moreover have "t \<in> ?V" using said that by force
    ultimately show ?thesis using probe_texts_framed assms(2) by blast
  qed
  have "''RCPT TO:<'' @ address @ ''>'' @ CRLF \<notin> greeting_texts cfg" by (simp add: greeting_texts_def)
  then have "(True, ''RCPT TO:<'' @ address @ ''>'' @ CRLF) \<in> set (us_sent s)" if "r = Inr Va_Accepted \<or> r = Inr Va_Unknown"
    using definite clear that by (auto simp: definite_def clear_ok_def)
  moreover have "framed t \<and> (if enc then t \<in> ?V else t \<in> greeting_texts cfg)" if m: "(enc, t) \<in> set (us_sent s)" for enc t
    using said clear framed [OF m] m by (force simp: clear_ok_def)
  moreover have "{''EHLO '' @ uc_hostname cfg @ CRLF, ''STARTTLS'' @ CRLF, ''MAIL FROM:<'' @ sender @ ''>'' @ CRLF,
      ''RCPT TO:<'' @ address @ ''>'' @ CRLF, ''RSET'' @ CRLF, ''QUIT'' @ CRLF} = ?V"
    unfolding envelope_texts_def greeting_texts_def by blast
  ultimately show ?thesis unfolding greeting_texts_def [symmetric] list_all_iff by (simp only:) blast
qed

lemma sample_recipient_probe:
  "\<exists>s. probe (\<lambda>s. s) sample_net sample_upstream ''h.b.c'' ''s@b.c'' ''a@b.c'' (probe_state (\<lambda>s. s)) = (Inr Va_Accepted, s) \<and> asked ''a@b.c'' s"
  by (rule probe_accepted [where h = "''h.b.c''" and port = 25 and found = "[V4 (10, 0, 0, 1), V4 (8, 8, 8, 8)]" and ip = "V4 (8, 8, 8, 8)"
        and v = sample_server and parameters = "[]" and raw = sample_dot])
    (use sample_endpoint sample_address session_facts(2,3) sample_cooperates [unfolded sample_text_def, of sample_dot, folded unrecorded_def]
     in \<open>auto simp: sample_net_def writable_def split: option.split\<close>)

theorem probe_reveals_only_envelope_witness:
  "\<exists>s. probe (\<lambda>s. s) sample_net sample_upstream ''h.b.c'' ''s@b.c'' ''a@b.c'' (probe_state (\<lambda>s. s)) = (Inr Va_Accepted, s)
     \<and> (True, ''RCPT TO:<a@b.c>'' @ CRLF) \<in> set (us_sent s)"
proof -
  obtain s where s: "probe (\<lambda>s. s) sample_net sample_upstream ''h.b.c'' ''s@b.c'' ''a@b.c'' (probe_state (\<lambda>s. s)) = (Inr Va_Accepted, s)"
    using sample_recipient_probe by blast
  have "list_all printable (uc_hostname sample_upstream)" "uc_require_tls sample_upstream"
    by (simp_all add: sample_upstream_def printable_def byte_def)
  with probe_reveals_only_envelope [OF s] s show ?thesis by auto
qed

text \<open>
  C20: a sender is told that a recipient does not exist only on solid ground. However the checks
  of a process interleave, a check that answers at all gives the verdict of probing now, or one that was
  obtained for the same recipient, sender, routes and settings and is younger than its kind may be kept.
  Probing gives "unknown" exactly when there are routes and every one of them said that the mailbox
  does not exist before the time was over, and "accepted" exactly when one of them said so; one
  unreachable route turns a rejection into a temporary answer. The cache keeps at most ten thousand
  verdicts. The digest must not collide on the keys in use.
\<close>

theorem recipient_verdict_justified:
  assumes "verifying digest s" "vr_clock s \<le> pe_now env" "verification_policy domains r = Some settings"
    and "inj_on digest (insert (key_of cfg r sender settings) ((fst \<circ> snd) ` set (vr_log s)))"
    and "recipient_check digest env domains cfg r sender (vr_cache s) = (v, c)"
  shows "(v = Va_Unavailable \<or> (pe_permit env \<and> v = verification_verdict env cfg r sender)
      \<or> (\<exists>t. (t, key_of cfg r sender settings, v) \<in> set (vr_log s) \<and> t \<le> pe_now env \<and> pe_now env < t + int (verdict_ttl settings v)))
    \<and> (verification_verdict env cfg r sender = Va_Unknown \<longleftrightarrow> rc_hosts r \<noteq> [] \<and> (\<forall>k < length (rc_hosts r).
        \<not> pe_expired env k \<and> probed (pe_lossy env) (pe_nets env k) cfg sender (rc_destination r) (rc_hosts r ! k) = Va_Unknown))
    \<and> (verification_verdict env cfg r sender = Va_Accepted \<longleftrightarrow> (\<exists>k < length (rc_hosts r). (\<forall>l \<le> k. \<not> pe_expired env l)
        \<and> probed (pe_lossy env) (pe_nets env k) cfg sender (rc_destination r) (rc_hosts r ! k) = Va_Accepted))
    \<and> length c \<le> 10000 \<and> distinct (map fst c)"
proof -
  let ?key = "key_of cfg r sender settings"
  have k: "pk_settings ?key = settings" by (simp add: key_of_def)
  have ok: "distinct (map fst (vr_cache s))" "length (vr_cache s) \<le> CACHE_ENTRIES" using verifying_ok [OF assms(1)] by (simp_all add: cache_ok_def)
  obtain w c1 where g: "cache_get (digest ?key) (pe_now env) (vr_cache s) = (w, c1)" by fastforce
  have c1: "distinct (map fst c1)" "length c1 \<le> CACHE_ENTRIES"
    using cache_get_sub(2,3) [where key = "digest ?key" and now = "pe_now env" and c = "vr_cache s"] ok g by auto
  note check = assms(5) [unfolded recipient_check_def assms(3) option.case Let_def g prod.case]
  have "v = Va_Unavailable \<or> (pe_permit env \<and> v = verification_verdict env cfg r sender)
      \<or> (\<exists>t. (t, ?key, v) \<in> set (vr_log s) \<and> t \<le> pe_now env \<and> pe_now env < t + int (verdict_ttl settings v))"
    using check cached_verdict [OF assms(1,2) _ assms(4)] g k by (auto split: option.splits if_splits)
  moreover have "distinct (map fst c)" "length c \<le> CACHE_ENTRIES"
    using check c1 cache_put_spec(1,2) [OF c1] by (auto split: option.splits if_splits)
  ultimately show ?thesis
    by (auto simp: verification_verdict_def verify_routes_unknown verify_routes_accepted CACHE_ENTRIES_def)
qed
text \<open>A check whose only route knows the recipient, and its repetition from the cache.\<close>

definition sample_verified :: verified_domain where
  "sample_verified = \<lparr>dom_name = ''b.c'', dom_next_hops = [''h.b.c''], dom_accept_all_recipients = True, dom_recipients = [], dom_aliases = [],
     dom_recipient_verification = Some verification_default\<rparr>"

definition sample_probe_env :: probe_env where
  "sample_probe_env = \<lparr>pe_lossy = (\<lambda>s. s), pe_nets = (\<lambda>_. sample_net), pe_expired = (\<lambda>_. False), pe_permit = True, pe_now = 100,
     pe_now_evict = 101, pe_now_insert = 102\<rparr>"

definition sample_verified_recipient :: recipient where
  "sample_verified_recipient = \<lparr>rc_address = ''a@b.c'', rc_destination = ''a@b.c'', rc_hosts = [''h.b.c'']\<rparr>"

definition sample_run :: verification_run where
  "sample_run = \<lparr>vr_cache = cache_put verification_default ''k'' Va_Accepted 101 102 [], vr_clock = 102,
     vr_log = [(102, key_of sample_upstream sample_verified_recipient ''s@b.c'' verification_default, Va_Accepted)]\<rparr>"

lemma sample_verdict: "verification_verdict sample_probe_env sample_upstream sample_verified_recipient ''s@b.c'' = Va_Accepted"
proof -
  have "probed (\<lambda>s. s) sample_net sample_upstream ''s@b.c'' ''a@b.c'' ''h.b.c'' = Va_Accepted"
    using sample_recipient_probe by (auto simp: probed_def)
  then show ?thesis by (simp add: verification_verdict_def sample_probe_env_def sample_verified_recipient_def)
qed

lemma sample_verifying: "verifying (\<lambda>_. ''k'') sample_run"
  using verifying.put [OF verifying.start [of "\<lambda>_. ''k''" 100], of sample_probe_env, OF _ _ sample_verdict [symmetric] refl, of verification_default]
  by (simp add: sample_run_def sample_probe_env_def)

lemma sample_policy: "verification_policy [sample_verified] sample_verified_recipient = Some verification_default"
  by code_simp

theorem recipient_verdict_justified_witness:
  "\<exists>t. (t, key_of sample_upstream sample_verified_recipient ''s@b.c'' verification_default, Va_Accepted) \<in> set (vr_log sample_run)
     \<and> t \<le> 150 \<and> 150 < t + int (verdict_ttl verification_default Va_Accepted)"
proof -
  let ?env = "sample_probe_env\<lparr>pe_now := 150, pe_permit := False\<rparr>"
  have "recipient_check (\<lambda>_. ''k'') ?env [sample_verified] sample_upstream sample_verified_recipient ''s@b.c'' (vr_cache sample_run)
      = (Va_Accepted, vr_cache sample_run)"
    by (simp add: recipient_check_def sample_policy sample_run_def cache_put_def cache_get_def verdict_ttl_def verification_default_def
        CACHE_ENTRIES_def)
  from recipient_verdict_justified [OF sample_verifying _ sample_policy _ this]
  show ?thesis by (auto simp: sample_run_def sample_probe_env_def)
qed

end
