(* ===== verification/NF_Variants.thy ===== *)
theory NF_Variants
  imports NF_Smtp NF_Record NF_Engine NF_Preferences
begin

text \<open>
  From one analysed message to the variants the queue stores (\<open>Engine::variants_inner\<close>, the rendering
  closure of the checked path and \<open>finish_unchecked\<close> in \<open>src/engine.rs\<close>): the decision of every
  recipient, the grouping of recipients whose outcome is the same, the rendering of each variant
  under the budgets of a batch.

  The observations of identity directories and learned contacts, the numeric score, the sizes of
  serialized values, the text of the added headers, the seal, fresh identifiers and the clock are
  arguments.
\<close>

section \<open>What the engine holds and asks\<close>

record correlation =
  co_applied_weight :: f64
  co_policy_sha256 :: string
  co_digest :: string

record recipient_view =
  rw_identity :: "string option"
  rw_contact :: "string option"
  rw_correlation :: "correlation option"

record variant_config =
  vc_config :: policy_config
  vc_custom :: "custom_policy option"
  vc_preferences :: preference_settings
  vc_max_recipients :: nat
  vc_max_analysis_bytes :: nat
  vc_identity :: bool
  vc_identity_policy :: bool
  vc_contact_learning :: bool

record variant_env =
  ve_text :: text_ops
  ve_float :: float_ops
  ve_policy_digest :: "custom_policy \<Rightarrow> string"
  ve_receipt_digest :: "receipt_policy \<Rightarrow> string"
  ve_traffic_digest :: "traffic_report \<Rightarrow> string"
  ve_parse :: "string \<Rightarrow> parsed_message option"
  ve_observe :: "recipient \<Rightarrow> scan \<Rightarrow> recipient_view"
  ve_score :: "scan \<Rightarrow> scan"
  ve_fusion :: "(fusion_runtime \<times> bool \<times> (evidence \<Rightarrow> prediction option)) option"
  ve_recipient_bytes :: "recipient \<Rightarrow> custom_assessment \<Rightarrow> nat"
  ve_scan_bytes :: "scan \<Rightarrow> nat"
  ve_chunk_bytes :: "scan \<Rightarrow> recipient list \<Rightarrow> nat"
  ve_in_time :: "nat \<Rightarrow> bool"
  ve_fresh :: "nat \<Rightarrow> string"
  ve_recorded_at :: int

definition CHANGE_RULE :: string where
  "CHANGE_RULE = ''identity_change''"

definition CHANGE_DETAIL :: string where
  "CHANGE_DETAIL = ''Corroborated identity change for this recipient; recurrence alone is not a safe-sender exemption.''"

definition empty_policy :: custom_policy where
  "empty_policy = \<lparr>cu_ordering = LegacyPriority, cu_origin_rules = [], cu_origin_profiles = [], cu_profiles = [], cu_bindings = [],
     cu_rules = []\<rparr>"

section \<open>The outcome of one recipient\<close>

text \<open>A corroborated change of identity weighs on this recipient's score and decision.\<close>

definition weighted_view :: "recipient_view \<Rightarrow> bool" where
  "weighted_view view \<longleftrightarrow> is_some_and (rw_correlation view) (\<lambda>c. f64_gt (co_applied_weight c) (Fin 0))"

definition weigh_change :: "variant_env \<Rightarrow> policy_config \<Rightarrow> recipient_view \<Rightarrow> scan \<Rightarrow> scan" where
  "weigh_change env cfg view s =
     (case rw_correlation view of
        None \<Rightarrow> s
      | Some c \<Rightarrow>
          if \<not> weighted_view view then s
          else
           (let s1 = s\<lparr>scan_reasons := filter (\<lambda>r. sig_id r \<noteq> CHANGE_RULE) (scan_reasons s)
                  @ [\<lparr>sig_id = CHANGE_RULE, sig_detail = CHANGE_DETAIL, sig_weight = co_applied_weight c\<rparr>],
                  scan_analysis_result := None, scan_recipient_decision := None\<rparr>
            in record_analysis (ve_float env) (engine_decide (ve_float env) (ve_fusion env) cfg (ve_score env s1)) cfg))"

text \<open>A verification is offered only for legitimate mail, and never to release a quarantine of the policy.\<close>

definition settle_traffic :: "traffic_report option \<Rightarrow> custom_assessment \<Rightarrow> traffic_report option \<times> custom_assessment" where
  "settle_traffic candidate a =
     (case candidate of
        None \<Rightarrow> (None, a)
      | Some report \<Rightarrow>
         (let report1 = (if trp_verification_id report \<noteq> None \<and> ca_category a \<noteq> Cat_Legitimate
                then report\<lparr>trp_verification_id := None, trp_enforced := False, trp_status := ''verification_ineligible''\<rparr>
                else report)
          in if ap_effective (ca_action a) = Quarantine then (Some (report1\<lparr>trp_verification_id := None\<rparr>), a)
             else (Some report1, a\<lparr>ca_action := report_apply report1 (ca_action a)\<rparr>)))"

record recipient_result =
  oc_scan :: scan
  oc_assessment :: custom_assessment
  oc_traffic :: "traffic_report option"
  oc_key :: string

text \<open>The recipients of a variant agree on this key.\<close>

definition variant_key :: "variant_env \<Rightarrow> recipient_view \<Rightarrow> traffic_report option \<Rightarrow> scan \<Rightarrow> string" where
  "variant_key env view traffic s =
     (case scan_recipient_decision s of Some d \<Rightarrow> rd_policy_sha256 d | None \<Rightarrow> [])
     @ unwrap_or (rw_contact view) [] @ unwrap_or (map_option co_digest (rw_correlation view)) []
     @ unwrap_or (rw_identity view) [] @ unwrap_or (map_option (ve_traffic_digest env) traffic) []"

definition recipient_assessed ::
    "variant_env \<Rightarrow> variant_config \<Rightarrow> string \<Rightarrow> scan \<Rightarrow> string \<Rightarrow> scan \<Rightarrow> recipient \<Rightarrow> scan \<times> recipient_view \<times> custom_assessment" where
  "recipient_assessed env vc raw scan sender base r =
     (let view = ve_observe env r base;
          policy = effective_policy (vc_preferences vc) (unwrap_or (vc_custom vc) empty_policy) r;
          s = weigh_change env (vc_config vc) view
                (base\<lparr>scan_identity_policy_sha256 := map_option co_policy_sha256 (rw_correlation view)\<rparr>);
          facts = facts_message (ve_text env) raw (ve_parse env) sender (if weighted_view view then s else scan) (vc_max_analysis_bytes vc)
      in (s, view, assess_prepared (ve_text env) (ve_float env) policy (vc_config vc) s
            (prepared_new (ve_text env) (ve_policy_digest env) policy facts) r (ve_recorded_at env)))"

definition recipient_outcome ::
    "variant_env \<Rightarrow> variant_config \<Rightarrow> string \<Rightarrow> scan \<Rightarrow> traffic_reports \<Rightarrow> string \<Rightarrow> scan \<Rightarrow> recipient \<Rightarrow> recipient_result" where
  "recipient_outcome env vc raw scan candidates sender base r =
     (case recipient_assessed env vc raw scan sender base r of (s, view, a0) \<Rightarrow>
       (case settle_traffic (map_of candidates (rc_address r)) a0 of (traffic, a) \<Rightarrow>
         (let s1 = record_recipient (ve_float env) (ve_receipt_digest env)
                (s\<lparr>scan_delivery_classification := Some (ca_category a), scan_action := Some (ca_action a)\<rparr>)
                (vc_config vc) (Some a) (ve_recorded_at env)
          in \<lparr>oc_scan = s1, oc_assessment = a, oc_traffic = traffic, oc_key = variant_key env view traffic s1\<rparr>)))"

section \<open>Grouping recipients\<close>

type_synonym variants = "(queue_variant \<times> traffic_report option) list"
type_synonym renderer = "scan \<Rightarrow> string \<Rightarrow> (scan \<times> string) result"

record placing =
  pc_variants :: variants
  pc_budget :: batch_budget
  pc_groups :: "string \<rightharpoonup> nat"

definition next_id :: "variant_env \<Rightarrow> string \<Rightarrow> variants \<Rightarrow> string" where
  "next_id env i vs = (if vs = [] then i else ve_fresh env (length vs))"

definition join_variant :: "nat \<Rightarrow> recipient \<times> custom_assessment option \<Rightarrow> variants \<Rightarrow> variants" where
  "join_variant i entry vs =
     vs[i := (fst (vs ! i)\<lparr>qv_recipients := qv_recipients (fst (vs ! i)) @ [entry]\<rparr>, snd (vs ! i))]"

definition open_group :: "placing \<Rightarrow> string \<Rightarrow> nat option" where
  "open_group st key =
     option_filter (\<lambda>i. length (qv_recipients (fst (pc_variants st ! i))) < MAX_RECIPIENTS_PER_VARIANT) (pc_groups st key)"

definition place_recipient ::
    "variant_env \<Rightarrow> renderer \<Rightarrow> string \<Rightarrow> string \<Rightarrow> recipient \<Rightarrow> recipient_result \<Rightarrow> placing \<Rightarrow> placing result" where
  "place_recipient env render payload mid r out st =
     and_then (budget_metadata (ve_recipient_bytes env r (oc_assessment out)) (pc_budget st)) (\<lambda>b1.
     case open_group st (oc_key out) of
       Some i \<Rightarrow> Inr (st\<lparr>pc_variants := join_variant i (r, Some (oc_assessment out)) (pc_variants st), pc_budget := b1\<rparr>)
     | None \<Rightarrow>
         and_then (budget_metadata (ve_scan_bytes env (oc_scan out)) b1) (\<lambda>b2.
         let vid = next_id env mid (pc_variants st) in
         and_then (render (oc_scan out) vid) (\<lambda>(s, out_bytes).
         and_then (with_shared_payload out_bytes payload) (\<lambda>wire.
         and_then (budget_headers wire b2) (\<lambda>b3.
         Inr \<lparr>pc_variants = pc_variants st
                @ [(\<lparr>qv_id = vid, qv_scan = s, qv_raw = wire, qv_recipients = [(r, Some (oc_assessment out))]\<rparr>, oc_traffic out)],
              pc_budget = b3, pc_groups = (pc_groups st)(oc_key out \<mapsto> length (pc_variants st))\<rparr>)))))"

fun place_all ::
    "variant_env \<Rightarrow> renderer \<Rightarrow> string \<Rightarrow> string \<Rightarrow> (recipient \<Rightarrow> recipient_result) \<Rightarrow> nat \<Rightarrow> recipient list \<Rightarrow> placing \<Rightarrow> placing result" where
  "place_all env render payload mid outcome_of n [] st = Inr st"
| "place_all env render payload mid outcome_of n (r # rs) st =
     and_then (ensure (ve_in_time env n) ''queue render capacity deadline exceeded'') (\<lambda>_.
     and_then (place_recipient env render payload mid r (outcome_of r) st) (\<lambda>st1.
     place_all env render payload mid outcome_of (Suc n) rs st1))"

section \<open>One decision for all\<close>

function chunk_recipients :: "recipient list \<Rightarrow> recipient list list" where
  "chunk_recipients rs =
     (if rs = [] then [] else take MAX_RECIPIENTS_PER_VARIANT rs # chunk_recipients (drop MAX_RECIPIENTS_PER_VARIANT rs))"
  by pat_completeness auto
termination
  by (relation "measure length") (auto simp: MAX_RECIPIENTS_PER_VARIANT_def)

declare chunk_recipients.simps [simp del]

definition pack_variant :: "string option \<Rightarrow> string \<Rightarrow> wire_body result" where
  "pack_variant payload out_bytes = (case payload of Some body \<Rightarrow> with_shared_payload out_bytes body | None \<Rightarrow> Inr (wire_of out_bytes))"

fun place_chunks ::
    "variant_env \<Rightarrow> renderer \<Rightarrow> string option \<Rightarrow> string \<Rightarrow> scan \<Rightarrow> nat \<Rightarrow> recipient list list \<Rightarrow> batch_budget \<Rightarrow> variants \<Rightarrow> variants result" where
  "place_chunks env render payload mid base n [] b vs = Inr vs"
| "place_chunks env render payload mid base n (c # cs) b vs =
     and_then (ensure (ve_in_time env n) ''queue render capacity deadline exceeded'') (\<lambda>_.
     let vid = next_id env mid vs in
     and_then (budget_metadata (ve_chunk_bytes env base c) b) (\<lambda>b1.
     and_then (render base vid) (\<lambda>(s, out_bytes).
     and_then (pack_variant payload out_bytes) (\<lambda>wire.
     and_then (budget_headers wire b1) (\<lambda>b2.
     place_chunks env render payload mid base (Suc n) cs b2
       (vs @ [(\<lparr>qv_id = vid, qv_scan = s, qv_raw = wire, qv_recipients = map (\<lambda>r. (r, None)) c\<rparr>, None)]))))))"

section \<open>The variants of a message\<close>

definition recipient_scoped :: "variant_config \<Rightarrow> traffic_reports \<Rightarrow> bool" where
  "recipient_scoped vc candidates \<longleftrightarrow>
     vc_custom vc \<noteq> None \<or> ps_mailboxes (vc_preferences vc) \<noteq> [] \<or> candidates \<noteq> [] \<or> vc_identity vc \<or> vc_identity_policy vc
     \<or> vc_contact_learning vc"

definition base_scan :: "variant_env \<Rightarrow> variant_config \<Rightarrow> scan \<Rightarrow> scan" where
  "base_scan env vc scan =
     (record_analysis (ve_float env) (scan\<lparr>scan_identity_policy_sha256 := None\<rparr>) (vc_config vc))
       \<lparr>scan_action := Some (actions_evaluate scan (vc_config vc))\<rparr>"

definition no_budget :: batch_budget where
  "no_budget = \<lparr>bb_metadata = 0, bb_headers = 0\<rparr>"

definition variants_inner ::
    "variant_env \<Rightarrow> variant_config \<Rightarrow> renderer \<Rightarrow> string \<Rightarrow> scan \<Rightarrow> traffic_reports \<Rightarrow> string \<Rightarrow> string \<Rightarrow> recipient list \<Rightarrow> variants result" where
  "variants_inner env vc render raw scan candidates sender mid recipients =
     and_then (ensure (length recipients \<le> vc_max_recipients vc \<and> length recipients \<le> MAX_VARIANTS) ''too many queue recipients'') (\<lambda>_.
     and_then (if recipients = [] then Inr None else and_then (shared_payload raw) (\<lambda>body. Inr (Some body))) (\<lambda>payload.
     let base = base_scan env vc scan in
     case payload of
       Some body \<Rightarrow>
         if recipient_scoped vc candidates then
           and_then (place_all env render body mid (recipient_outcome env vc raw scan candidates sender base) 0 recipients
               \<lparr>pc_variants = [], pc_budget = no_budget, pc_groups = Map.empty\<rparr>) (\<lambda>st. Inr (pc_variants st))
         else place_chunks env render payload mid
                (record_recipient (ve_float env) (ve_receipt_digest env) base (vc_config vc) None (ve_recorded_at env))
                0 (chunk_recipients recipients) no_budget []
     | None \<Rightarrow> place_chunks env render payload mid
                (record_recipient (ve_float env) (ve_receipt_digest env) base (vc_config vc) None (ve_recorded_at env))
                0 [[]] no_budget []))"

section \<open>Rendering\<close>

text \<open>
  The renderer of a checked message: the subject mark of the recipient's decision, the flags of the
  scan and of its receipt, the rewritten message and, where the chain can be extended, a seal
  in front of it. \<open>headers\<close> is the text of the added fields, \<open>seal\<close> the signature's header, if any.
\<close>

definition chosen_tag :: "policy_config \<Rightarrow> scan \<Rightarrow> message_tag option" where
  "chosen_tag cfg s =
     (if is_some_and (scan_action s) (\<lambda>a. ap_effective a = Tag)
      then (case scan_category s (fc_threshold (cfg_filter cfg)) of
              Spam \<Rightarrow> Some NF_Message.Tag_Spam | Publicity \<Rightarrow> Some NF_Message.Tag_Publicity | _ \<Rightarrow> None)
      else None)"

definition finished :: "string result option \<Rightarrow> string result" where
  "finished r = (case r of Some x \<Rightarrow> x | None \<Rightarrow> Inl ''no result'')"

definition checked_render ::
    "(string \<Rightarrow> string) \<Rightarrow> string \<Rightarrow> policy_config \<Rightarrow> string \<Rightarrow> bool \<Rightarrow> (scan \<Rightarrow> string \<Rightarrow> string) \<Rightarrow> (string \<Rightarrow> string option result) \<Rightarrow> renderer" where
  "checked_render b64 subject cfg raw sealable headers seal s vid =
     (let tag = chosen_tag cfg s in
      and_then (ensure (tag = None \<or> sealable) ''ARC chain cannot be extended'') (\<lambda>_.
      let s1 = record_subject_tag (s\<lparr>scan_tagged := (tag = Some NF_Message.Tag_Spam), scan_pub_tagged := (tag = Some NF_Message.Tag_Publicity)\<rparr>) in
      and_then (finished (rewrite_with_tag b64 subject raw tag (headers s1 vid))) (\<lambda>out_bytes.
      and_then (if sealable then seal out_bytes else Inr None) (\<lambda>signature.
      Inr (s1, unwrap_or signature [] @ out_bytes)))))"

definition unchecked_render ::
    "(string \<Rightarrow> string) \<Rightarrow> string \<Rightarrow> string \<Rightarrow> (scan \<Rightarrow> string \<Rightarrow> string) \<Rightarrow> renderer" where
  "unchecked_render b64 subject raw headers s vid =
     and_then (finished (rewrite_with_tag b64 subject raw None (headers s vid))) (\<lambda>out_bytes. Inr (s, out_bytes))"

definition finish_unchecked ::
    "variant_env \<Rightarrow> variant_config \<Rightarrow> (string \<Rightarrow> string) \<Rightarrow> string \<Rightarrow> (scan \<Rightarrow> string \<Rightarrow> string) \<Rightarrow> string \<Rightarrow> scan \<Rightarrow> traffic_reports
      \<Rightarrow> string \<Rightarrow> string \<Rightarrow> recipient list \<Rightarrow> rbl_report option \<Rightarrow> variants result" where
  "finish_unchecked env vc b64 subject headers raw scan candidates sender mid recipients early =
     (let s1 = (ve_score env scan)\<lparr>scan_subject_rewrite_ready := Some False, scan_tagged := False, scan_pub_tagged := False\<rparr>;
          s2 = engine_decide (ve_float env) (ve_fusion env) (vc_config vc) s1;
          s3 = s2\<lparr>scan_action := Some (actions_evaluate s2 (vc_config vc))\<rparr>;
          s4 = (case early of Some report \<Rightarrow> rbl_attach report s3 | None \<Rightarrow> s3)
      in variants_inner env vc (unchecked_render b64 subject raw headers) raw s4 candidates sender mid recipients)"

section \<open>Lemmas\<close>

lemma shared_payload_kept:
  assumes "with_shared_payload wire payload = Inr b"
  shows "wb_payload b = payload" "to_vec b = wire"
proof -
  from assms obtain n where n: "payload = drop (n + 4) wire" "b = \<lparr>wb_prefix = take (length wire - length payload) wire, wb_payload = payload\<rparr>"
    by (auto simp: with_shared_payload_def and_then_Inr_iff ensure_def Let_def split: option.splits if_splits)
  then show "wb_payload b = payload" by simp
  have "drop (length wire - length payload) wire = payload" using n(1) by (cases "n + 4 \<le> length wire") auto
  then have "take (length wire - length payload) wire @ payload = wire" using append_take_drop_id [of "length wire - length payload" wire] by simp
  then show "to_vec b = wire" by (simp add: n(2) to_vec_def)
qed

text \<open>The recipients named by a list of variants.\<close>

definition named :: "variants \<Rightarrow> recipient multiset" where
  "named vs = mset (concat (map (\<lambda>v. map fst (qv_recipients (fst v))) vs))"

lemma named_snoc [simp]: "named (vs @ [v]) = named vs + mset (map fst (qv_recipients (fst v)))"
  by (simp add: named_def)

lemma named_join:
  assumes "i < length vs"
  shows "named (join_variant i entry vs) = named vs + {#fst entry#}"
proof -
  obtain a v b where vs: "vs = a @ v # b" "i = length a" using id_take_nth_drop [OF assms] assms by (metis length_take min.absorb4)
  then have "join_variant i entry vs = a @ (fst v\<lparr>qv_recipients := qv_recipients (fst v) @ [entry]\<rparr>, snd v) # b"
    by (simp add: join_variant_def)
  then show ?thesis by (simp add: named_def vs(1))
qed

text \<open>
  What every variant is: its identifier, its recipients with the assessment of each, all with the key of
  the first, and the rendering of the first one's scan with the shared body.
\<close>

definition lead :: "queue_variant \<Rightarrow> recipient" where
  "lead v = fst (hd (qv_recipients v))"

definition variant_id :: "variant_env \<Rightarrow> string \<Rightarrow> nat \<Rightarrow> string" where
  "variant_id env mid i = (if i = 0 then mid else ve_fresh env i)"

definition variant_ok ::
    "variant_env \<Rightarrow> renderer \<Rightarrow> string \<Rightarrow> string \<Rightarrow> (recipient \<Rightarrow> recipient_result) \<Rightarrow> nat \<Rightarrow> queue_variant \<times> traffic_report option \<Rightarrow> bool" where
  "variant_ok env render payload mid outcome_of i p \<longleftrightarrow>
     (case p of (v, t) \<Rightarrow> qv_id v = variant_id env mid i \<and> qv_recipients v \<noteq> [] \<and> length (qv_recipients v) \<le> MAX_RECIPIENTS_PER_VARIANT
       \<and> (\<forall>(r, a) \<in> set (qv_recipients v). a = Some (oc_assessment (outcome_of r)) \<and> oc_key (outcome_of r) = oc_key (outcome_of (lead v)))
       \<and> t = oc_traffic (outcome_of (lead v)) \<and> wb_payload (qv_raw v) = payload
       \<and> render (oc_scan (outcome_of (lead v))) (qv_id v) = Inr (qv_scan v, to_vec (qv_raw v)))"

definition placed_ok ::
    "variant_env \<Rightarrow> renderer \<Rightarrow> string \<Rightarrow> string \<Rightarrow> (recipient \<Rightarrow> recipient_result) \<Rightarrow> recipient multiset \<Rightarrow> placing \<Rightarrow> bool" where
  "placed_ok env render payload mid outcome_of seen st \<longleftrightarrow>
     named (pc_variants st) = seen
     \<and> (\<forall>i < length (pc_variants st). variant_ok env render payload mid outcome_of i (pc_variants st ! i))
     \<and> (\<forall>k i. pc_groups st k = Some i \<longrightarrow> i < length (pc_variants st) \<and> oc_key (outcome_of (lead (fst (pc_variants st ! i)))) = k)"
lemma join_nth:
  "i < length vs \<Longrightarrow> k < length vs \<Longrightarrow> join_variant i entry vs ! k =
     (if k = i then (fst (vs ! i)\<lparr>qv_recipients := qv_recipients (fst (vs ! i)) @ [entry]\<rparr>, snd (vs ! i)) else vs ! k)"
  "length (join_variant i entry vs) = length vs"
  by (simp_all add: join_variant_def)

lemma lead_append [simp]: "qv_recipients v \<noteq> [] \<Longrightarrow> lead (v\<lparr>qv_recipients := qv_recipients v @ [e]\<rparr>) = lead v"
  by (simp add: lead_def)

lemma joined_ok:
  assumes "variant_ok env render payload mid oc i p" "length (qv_recipients (fst p)) < MAX_RECIPIENTS_PER_VARIANT"
    and "oc_key (oc r) = oc_key (oc (lead (fst p)))"
  shows "variant_ok env render payload mid oc i ((fst p)\<lparr>qv_recipients := qv_recipients (fst p) @ [(r, Some (oc_assessment (oc r)))]\<rparr>, snd p)"
  using assms by (cases p) (auto simp: variant_ok_def)

lemma place_joins:
  assumes "placed_ok env render payload mid oc seen st" "open_group st (oc_key (oc r)) = Some i"
  shows "placed_ok env render payload mid oc (add_mset r seen)
    (st\<lparr>pc_variants := join_variant i (r, Some (oc_assessment (oc r))) (pc_variants st), pc_budget := b\<rparr>)"
proof -
  let ?vs = "pc_variants st"
  from assms(2) have g: "pc_groups st (oc_key (oc r)) = Some i" "length (qv_recipients (fst (?vs ! i))) < MAX_RECIPIENTS_PER_VARIANT"
    by (auto simp: open_group_def option_filter_def split: option.splits if_splits)
  from assms(1) g(1) have i: "i < length ?vs" "oc_key (oc (lead (fst (?vs ! i)))) = oc_key (oc r)" by (auto simp: placed_ok_def)
  have ok: "variant_ok env render payload mid oc k (?vs ! k)" if "k < length ?vs" for k using assms(1) that by (simp add: placed_ok_def)
  have ne: "qv_recipients (fst (?vs ! i)) \<noteq> []" using ok [OF i(1)] by (auto simp: variant_ok_def split: prod.splits)
  have "variant_ok env render payload mid oc k (join_variant i (r, Some (oc_assessment (oc r))) ?vs ! k)" if "k < length ?vs" for k
    using ok [OF that] joined_ok [OF ok [OF i(1)] g(2)] i that by (auto simp: join_nth)
  moreover have "lead (fst (join_variant i (r, Some (oc_assessment (oc r))) ?vs ! k)) = lead (fst (?vs ! k))" if "k < length ?vs" for k
    using i(1) ne that by (simp add: join_nth)
  ultimately show ?thesis using assms(1) i(1) by (auto simp: placed_ok_def named_join join_nth(2))
qed

lemma place_opens:
  assumes "placed_ok env render payload mid oc seen st" "render (oc_scan (oc r)) (next_id env mid (pc_variants st)) = Inr (s, out)"
    and "with_shared_payload out payload = Inr wire"
  shows "placed_ok env render payload mid oc (add_mset r seen)
    \<lparr>pc_variants = pc_variants st @ [(\<lparr>qv_id = next_id env mid (pc_variants st), qv_scan = s, qv_raw = wire,
        qv_recipients = [(r, Some (oc_assessment (oc r)))]\<rparr>, oc_traffic (oc r))],
      pc_budget = b, pc_groups = (pc_groups st)(oc_key (oc r) \<mapsto> length (pc_variants st))\<rparr>"
proof -
  have "variant_ok env render payload mid oc (length (pc_variants st)) (\<lparr>qv_id = next_id env mid (pc_variants st), qv_scan = s, qv_raw = wire,
        qv_recipients = [(r, Some (oc_assessment (oc r)))]\<rparr>, oc_traffic (oc r))"
    using assms(2) shared_payload_kept [OF assms(3)]
    by (auto simp: variant_ok_def lead_def variant_id_def next_id_def MAX_RECIPIENTS_PER_VARIANT_def)
  moreover have "lead \<lparr>qv_id = i, qv_scan = s, qv_raw = wire, qv_recipients = [(r, a)]\<rparr> = r" for i a by (simp add: lead_def)
  ultimately show ?thesis using assms(1)
    by (auto simp: placed_ok_def nth_append less_Suc_eq split: if_splits)
qed

lemma place_recipient_ok:
  assumes "placed_ok env render payload mid oc seen st" "place_recipient env render payload mid r (oc r) st = Inr st'"
  shows "placed_ok env render payload mid oc (add_mset r seen) st'"
proof (cases "open_group st (oc_key (oc r))")
  case (Some i)
  with assms place_joins show ?thesis by (auto simp: place_recipient_def and_then_Inr_iff)
next
  case None
  with assms place_opens show ?thesis by (auto simp: place_recipient_def and_then_Inr_iff Let_def split: prod.splits)
qed

lemma place_all_ok:
  assumes "placed_ok env render payload mid oc seen st" "place_all env render payload mid oc n rs st = Inr st'"
  shows "placed_ok env render payload mid oc (mset rs + seen) st'"
  using assms
proof (induction rs arbitrary: n st seen)
  case (Cons r rs)
  then obtain st1 where "place_recipient env render payload mid r (oc r) st = Inr st1" "place_all env render payload mid oc (Suc n) rs st1 = Inr st'"
    by (auto simp: and_then_Inr_iff)
  with Cons.IH [OF place_recipient_ok [OF Cons.prems(1)]] show ?case by fastforce
qed simp

text \<open>Without decisions of their own the recipients are stored in blocks.\<close>

lemma chunks_concat: "concat (chunk_recipients rs) = rs"
  by (induction rs rule: chunk_recipients.induct) (subst chunk_recipients.simps, simp)

lemma chunks_sized: "c \<in> set (chunk_recipients rs) \<Longrightarrow> c \<noteq> [] \<and> length c \<le> MAX_RECIPIENTS_PER_VARIANT"
proof (induction rs rule: chunk_recipients.induct)
  case (1 rs)
  show ?case
  proof (cases "rs = []")
    case False
    with 1 show ?thesis by (subst (asm) (2) chunk_recipients.simps) (auto simp: MAX_RECIPIENTS_PER_VARIANT_def)
  qed (use 1 in \<open>simp add: chunk_recipients.simps\<close>)
qed

lemma place_chunks_ok:
  assumes "place_chunks env render payload mid base n cs b vs = Inr vs'"
  shows "\<exists>new. vs' = vs @ new \<and> map (\<lambda>p. qv_recipients (fst p)) new = map (map (\<lambda>r. (r, None))) cs
    \<and> (\<forall>k < length new. qv_id (fst (new ! k)) = variant_id env mid (length vs + k) \<and> snd (new ! k) = None
        \<and> render base (qv_id (fst (new ! k))) = Inr (qv_scan (fst (new ! k)), to_vec (qv_raw (fst (new ! k))))
        \<and> (\<forall>body. payload = Some body \<longrightarrow> wb_payload (qv_raw (fst (new ! k))) = body))"
  using assms
proof (induction cs arbitrary: n b vs)
  case (Cons c cs)
  then obtain s out wire b2 where r: "render base (next_id env mid vs) = Inr (s, out)" "pack_variant payload out = Inr wire"
    "place_chunks env render payload mid base (Suc n) cs b2
       (vs @ [(\<lparr>qv_id = next_id env mid vs, qv_scan = s, qv_raw = wire, qv_recipients = map (\<lambda>r. (r, None)) c\<rparr>, None)]) = Inr vs'"
    by (auto simp: and_then_Inr_iff Let_def split: prod.splits)
  let ?v = "(\<lparr>qv_id = next_id env mid vs, qv_scan = s, qv_raw = wire, qv_recipients = map (\<lambda>r. (r, None)) c\<rparr>, None :: traffic_report option)"
  have w: "to_vec wire = out" "payload = Some body \<Longrightarrow> wb_payload wire = body" for body
    using r(2) shared_payload_kept by (auto simp: pack_variant_def to_vec_def wire_of_def split: option.splits)
  from Cons.IH [OF r(3)] obtain new where new: "vs' = (vs @ [?v]) @ new" "map (\<lambda>p. qv_recipients (fst p)) new = map (map (\<lambda>r. (r, None))) cs"
    "\<forall>k < length new. qv_id (fst (new ! k)) = variant_id env mid (length (vs @ [?v]) + k) \<and> snd (new ! k) = None
        \<and> render base (qv_id (fst (new ! k))) = Inr (qv_scan (fst (new ! k)), to_vec (qv_raw (fst (new ! k))))
        \<and> (\<forall>body. payload = Some body \<longrightarrow> wb_payload (qv_raw (fst (new ! k))) = body)" by blast
  have "next_id env mid vs = variant_id env mid (length vs)" by (simp add: next_id_def variant_id_def)
  with new r(1) w show ?case
    by (intro exI [of _ "?v # new"]) (auto simp: nth_Cons split: nat.splits)
qed simp
lemma receipt_present:
  assumes "scan_recipient_decision scan = None" "\<And>s. scan_recipient_decision (ve_score env s) = scan_recipient_decision s"
  shows "\<exists>p d. scan_recipient_decision (oc_scan (recipient_outcome env vc raw scan candidates sender (base_scan env vc scan) r)) = Some d
    \<and> rd_policy_sha256 d = ve_receipt_digest env p"
proof -
  have "scan_recipient_decision (base_scan env vc scan) = None" using assms(1) by (simp add: base_scan_def)
  then have "scan_recipient_decision (fst (recipient_assessed env vc raw scan sender (base_scan env vc scan) r)) = None"
    using assms(2) by (auto simp: recipient_assessed_def weigh_change_def Let_def engine_decide_decided decided_fields engine_predecision_fields
        split: option.split)
  then show ?thesis by (auto simp: recipient_outcome_def record_recipient_def Let_def split: prod.split)
qed

lemma variants_scoped:
  assumes "variants_inner env vc render raw scan candidates sender mid recipients = Inr vs" "recipients \<noteq> []" "recipient_scoped vc candidates"
  shows "\<exists>fs body st. NF_Message.fields raw = Inr (fs, body) \<and> vs = pc_variants st
    \<and> placed_ok env render body mid (recipient_outcome env vc raw scan candidates sender (base_scan env vc scan)) (mset recipients) st"
proof -
  let ?oc = "recipient_outcome env vc raw scan candidates sender (base_scan env vc scan)"
  let ?start = "\<lparr>pc_variants = [], pc_budget = no_budget, pc_groups = Map.empty\<rparr>"
  from assms obtain fs body st where r: "NF_Message.fields raw = Inr (fs, body)" "place_all env render body mid ?oc 0 recipients ?start = Inr st" "vs = pc_variants st"
    by (auto simp: variants_inner_def shared_payload_def and_then_Inr_iff Let_def split: prod.splits)
  have "placed_ok env render body mid ?oc {#} ?start" by (simp add: placed_ok_def named_def)
  from place_all_ok [OF this r(2)] r show ?thesis by auto
qed

lemma variants_chunked:
  assumes "variants_inner env vc render raw scan candidates sender mid recipients = Inr vs" "recipients = [] \<or> \<not> recipient_scoped vc candidates"
  shows "\<exists>base cs payload. cs = (if recipients = [] then [[]] else chunk_recipients recipients)
    \<and> (if recipients = [] then payload = None else \<exists>fs body. NF_Message.fields raw = Inr (fs, body) \<and> payload = Some body)
    \<and> map (\<lambda>p. qv_recipients (fst p)) vs = map (map (\<lambda>r. (r, None))) cs
    \<and> (\<forall>k < length vs. qv_id (fst (vs ! k)) = variant_id env mid k \<and> snd (vs ! k) = None
        \<and> render base (qv_id (fst (vs ! k))) = Inr (qv_scan (fst (vs ! k)), to_vec (qv_raw (fst (vs ! k))))
        \<and> (\<forall>body. payload = Some body \<longrightarrow> wb_payload (qv_raw (fst (vs ! k))) = body))"
proof -
  let ?base = "record_recipient (ve_float env) (ve_receipt_digest env) (base_scan env vc scan) (vc_config vc) None (ve_recorded_at env)"
  let ?cs = "if recipients = [] then [[]] else chunk_recipients recipients"
  from assms obtain payload where p: "if recipients = [] then payload = None else \<exists>fs body. NF_Message.fields raw = Inr (fs, body) \<and> payload = Some body"
    "place_chunks env render payload mid ?base 0 ?cs no_budget [] = Inr vs"
    by (auto simp: variants_inner_def shared_payload_def and_then_Inr_iff Let_def split: prod.splits if_splits)
  from place_chunks_ok [OF p(2)] p(1) show ?thesis by (intro exI [of _ ?base] exI [of _ ?cs] exI [of _ payload]) auto
qed

section \<open>What the queue is given\<close>

text \<open>
  C15: every recipient of a message is stored exactly once. The variants the engine hands over
  name each recipient of the envelope as often as the envelope does, in variants of one to a
  hundred recipients; the first has the identifier of the message and the others fresh ones. Each
  holds what was rendered for it, with the body of the received message byte for byte.
\<close>

theorem recipients_partitioned:
  assumes "variants_inner env vc render raw scan candidates sender mid recipients = Inr vs"
  shows "mset (concat (map (\<lambda>p. map fst (qv_recipients (fst p))) vs)) = mset recipients \<and> vs \<noteq> []
    \<and> (\<forall>i < length vs. qv_id (fst (vs ! i)) = (if i = 0 then mid else ve_fresh env i))
    \<and> (\<forall>p \<in> set vs. length (qv_recipients (fst p)) \<le> 100 \<and> (recipients \<noteq> [] \<longrightarrow> qv_recipients (fst p) \<noteq> [])
        \<and> (\<exists>s. render s (qv_id (fst p)) = Inr (qv_scan (fst p), to_vec (qv_raw (fst p)))))
    \<and> (recipients \<noteq> [] \<longrightarrow> (\<exists>fs body. NF_Message.fields raw = Inr (fs, body) \<and> (\<forall>p \<in> set vs. wb_payload (qv_raw (fst p)) = body)))"
proof (cases "recipients \<noteq> [] \<and> recipient_scoped vc candidates")
  case True
  let ?oc = "recipient_outcome env vc raw scan candidates sender (base_scan env vc scan)"
  from variants_scoped [OF assms] True obtain fs body st where st: "NF_Message.fields raw = Inr (fs, body)" "vs = pc_variants st"
    "placed_ok env render body mid ?oc (mset recipients) st" by blast
  have ok: "variant_ok env render body mid ?oc i (vs ! i)" if "i < length vs" for i using st that by (simp add: placed_ok_def)
  have nm: "named vs = mset recipients" using st by (simp add: placed_ok_def)
  then have "vs \<noteq> []" using True by (auto simp: named_def)
  moreover have "length (qv_recipients (fst p)) \<le> 100 \<and> qv_recipients (fst p) \<noteq> [] \<and> wb_payload (qv_raw (fst p)) = body
      \<and> (\<exists>s. render s (qv_id (fst p)) = Inr (qv_scan (fst p), to_vec (qv_raw (fst p))))" if "p \<in> set vs" for p
    using that ok by (force simp: in_set_conv_nth variant_ok_def MAX_RECIPIENTS_PER_VARIANT_def split: prod.splits)
  moreover have "qv_id (fst (vs ! i)) = (if i = 0 then mid else ve_fresh env i)" if "i < length vs" for i
    using ok [OF that] by (auto simp: variant_ok_def variant_id_def split: prod.splits)
  ultimately show ?thesis using st(1) nm by (auto simp: named_def)
next
  case False
  from variants_chunked [OF assms] False obtain base cs payload where c: "cs = (if recipients = [] then [[]] else chunk_recipients recipients)"
    "if recipients = [] then payload = None else \<exists>fs body. NF_Message.fields raw = Inr (fs, body) \<and> payload = Some body"
    "map (\<lambda>p. qv_recipients (fst p)) vs = map (map (\<lambda>r. (r, None))) cs"
    "\<forall>k < length vs. qv_id (fst (vs ! k)) = variant_id env mid k \<and> snd (vs ! k) = None
        \<and> render base (qv_id (fst (vs ! k))) = Inr (qv_scan (fst (vs ! k)), to_vec (qv_raw (fst (vs ! k))))
        \<and> (\<forall>body. payload = Some body \<longrightarrow> wb_payload (qv_raw (fst (vs ! k))) = body)" by blast
  have "map (map fst) (map (\<lambda>p. qv_recipients (fst p)) vs) = cs" unfolding c(3) by (simp add: o_def)
  then have "map (\<lambda>p. map fst (qv_recipients (fst p))) vs = cs" by (simp add: o_def)
  moreover have "concat cs = recipients" by (simp add: c(1) chunks_concat)
  moreover have "vs \<noteq> []" using c(1,3) chunks_concat [of recipients] by (auto split: if_splits)
  moreover have "length (qv_recipients (fst p)) \<le> 100 \<and> (recipients \<noteq> [] \<longrightarrow> qv_recipients (fst p) \<noteq> [])" if "p \<in> set vs" for p
  proof -
    have "qv_recipients (fst p) \<in> set (map (map (\<lambda>r. (r, None))) cs)" using that by (auto simp flip: c(3))
    then show ?thesis using c(1) chunks_sized by (auto simp: MAX_RECIPIENTS_PER_VARIANT_def split: if_splits)
  qed
  moreover have "\<exists>s. render s (qv_id (fst p)) = Inr (qv_scan (fst p), to_vec (qv_raw (fst p)))"
    "\<forall>body. payload = Some body \<longrightarrow> wb_payload (qv_raw (fst p)) = body" if m: "p \<in> set vs" for p
  proof -
    obtain k where k: "k < length vs" "vs ! k = p" using m by (auto simp: in_set_conv_nth)
    with c(4) show "\<forall>body. payload = Some body \<longrightarrow> wb_payload (qv_raw (fst p)) = body" by blast
    from c(4) k have "render base (qv_id (fst p)) = Inr (qv_scan (fst p), to_vec (qv_raw (fst p)))" by blast
    then show "\<exists>s. render s (qv_id (fst p)) = Inr (qv_scan (fst p), to_vec (qv_raw (fst p)))" ..
  qed
  moreover have "\<forall>i < length vs. qv_id (fst (vs ! i)) = (if i = 0 then mid else ve_fresh env i)"
    using c(4) by (simp add: variant_id_def)
  ultimately show ?thesis using c(2) by (simp split: if_splits) blast
qed
text \<open>
  C16: recipients share a stored message only when their outcomes agree. With recipient policies every
  entry of a variant keeps the recipient's own assessment, and the queue acts on that; the stored message and
  its scan are rendered from the outcome of the variant's first recipient, and every other recipient of the
  variant has the same policy digest, which covers category, threshold, action and rules, and the same key of
  observations. A sender verification is attached only to mail the policy found legitimate and
  did not quarantine itself, so it can never release a quarantine of the policy. Digests have a
  fixed length.
\<close>

theorem variant_members_agree:
  assumes "variants_inner env vc render raw scan candidates sender mid recipients = Inr vs"
    and "recipients \<noteq> []" "recipient_scoped vc candidates" "scan_recipient_decision scan = None"
    and "\<And>s. scan_recipient_decision (ve_score env s) = scan_recipient_decision s" "\<And>p. length (ve_receipt_digest env p) = 64"
    and "oc = recipient_outcome env vc raw scan candidates sender (base_scan env vc scan)"
    and "(v, t) \<in> set vs" "(r, a) \<in> set (qv_recipients v)"
  shows "a = Some (oc_assessment (oc r)) \<and> oc_key (oc r) = oc_key (oc (lead v))
    \<and> map_option rd_policy_sha256 (scan_recipient_decision (oc_scan (oc r)))
       = map_option rd_policy_sha256 (scan_recipient_decision (oc_scan (oc (lead v))))
    \<and> render (oc_scan (oc (lead v))) (qv_id v) = Inr (qv_scan v, to_vec (qv_raw v))
    \<and> t = oc_traffic (oc (lead v))
    \<and> (case t of None \<Rightarrow> True | Some report \<Rightarrow> trp_verification_id report = None
        \<or> (case recipient_assessed env vc raw scan sender (base_scan env vc scan) (lead v) of (_, _, own) \<Rightarrow>
             ca_category own = Cat_Legitimate \<and> ap_effective (ca_action own) \<noteq> Quarantine))"
proof -
  from variants_scoped [OF assms(1-3)] obtain body st where st: "vs = pc_variants st"
    "placed_ok env render body mid oc (mset recipients) st" unfolding assms(7) by blast
  with assms(8) obtain i where "variant_ok env render body mid oc i (v, t)" by (auto simp: placed_ok_def in_set_conv_nth)
  then have v: "a = Some (oc_assessment (oc r))" "oc_key (oc r) = oc_key (oc (lead v))" "t = oc_traffic (oc (lead v))"
    "render (oc_scan (oc (lead v))) (qv_id v) = Inr (qv_scan v, to_vec (qv_raw v))"
    using assms(9) by (auto simp: variant_ok_def)
  have key: "\<exists>d p rest. scan_recipient_decision (oc_scan (oc x)) = Some d \<and> rd_policy_sha256 d = ve_receipt_digest env p
      \<and> oc_key (oc x) = rd_policy_sha256 d @ rest" for x
    using receipt_present [OF assms(4,5), of vc raw candidates sender x]
    by (auto simp: assms(7) recipient_outcome_def variant_key_def Let_def split: prod.splits)
  obtain d1 d2 where "scan_recipient_decision (oc_scan (oc r)) = Some d1" "scan_recipient_decision (oc_scan (oc (lead v))) = Some d2"
    "rd_policy_sha256 d1 = rd_policy_sha256 d2"
    using key [of r] key [of "lead v"] v(2) assms(6) by (metis append_eq_append_conv)
  moreover have "case t of None \<Rightarrow> True | Some report \<Rightarrow> trp_verification_id report = None
        \<or> (case recipient_assessed env vc raw scan sender (base_scan env vc scan) (lead v) of (_, _, own) \<Rightarrow>
             ca_category own = Cat_Legitimate \<and> ap_effective (ca_action own) \<noteq> Quarantine)"
    by (auto simp: v(3) assms(7) recipient_outcome_def settle_traffic_def Let_def split: option.splits prod.splits if_splits)
  ultimately show ?thesis using v by simp
qed

section \<open>A concrete message\<close>

definition sample_variant_env :: variant_env where
  "sample_variant_env = \<lparr>ve_text = ascii_text, ve_float = exact_ops, ve_policy_digest = (\<lambda>_. ''p''), ve_receipt_digest = (\<lambda>_. replicate 64 (CHR ''0'')),
     ve_traffic_digest = (\<lambda>_. []), ve_parse = (\<lambda>_. None), ve_observe = (\<lambda>_ _. \<lparr>rw_identity = None, rw_contact = None, rw_correlation = None\<rparr>),
     ve_score = (\<lambda>s. s), ve_fusion = None, ve_recipient_bytes = (\<lambda>_ _. 1), ve_scan_bytes = (\<lambda>_. 1), ve_chunk_bytes = (\<lambda>_ _. 1),
     ve_in_time = (\<lambda>_. True), ve_fresh = (\<lambda>_. ''n''), ve_recorded_at = 100\<rparr>"

definition sample_variant_config :: variant_config where
  "sample_variant_config = \<lparr>vc_config = sample_config, vc_custom = Some empty_policy, vc_preferences = sample_settings, vc_max_recipients = 10,
     vc_max_analysis_bytes = 1000, vc_identity = False, vc_identity_policy = False, vc_contact_learning = False\<rparr>"

definition plain_render :: renderer where
  "plain_render s vid = Inr (s, sample_dot)"

abbreviation sample_outcome :: "recipient \<Rightarrow> recipient_result" where
  "sample_outcome \<equiv> recipient_outcome sample_variant_env sample_variant_config sample_dot sample_scan [] ''s''
     (base_scan sample_variant_env sample_variant_config sample_scan)"

lemma sample_packed: "with_shared_payload sample_dot (''.x'' @ CRLF) = Inr \<lparr>wb_prefix = ''A: b'' @ CRLF @ CRLF, wb_payload = ''.x'' @ CRLF\<rparr>"
proof -
  have "position_of (CRLF @ CRLF) sample_dot = Some 4" by (simp add: sample_dot_def starts_with_iff_prefix)
  then show ?thesis by (simp add: with_shared_payload_def MAX_HEADER_BYTES_def ensure_def) (simp add: sample_dot_def)
qed

definition sample_stored :: queue_variant where
  "sample_stored = \<lparr>qv_id = ''m'', qv_scan = oc_scan (sample_outcome sample_recipient), qv_raw = \<lparr>wb_prefix = ''A: b'' @ CRLF @ CRLF, wb_payload = ''.x'' @ CRLF\<rparr>,
     qv_recipients = [(sample_recipient, Some (oc_assessment (sample_outcome sample_recipient))),
       (sample_recipient, Some (oc_assessment (sample_outcome sample_recipient)))]\<rparr>"

lemma sample_variants:
  "variants_inner sample_variant_env sample_variant_config plain_render sample_dot sample_scan [] ''s'' ''m'' [sample_recipient, sample_recipient]
     = Inr [(sample_stored, oc_traffic (sample_outcome sample_recipient))]"
proof -
  have scoped: "recipient_scoped sample_variant_config []" by (simp add: recipient_scoped_def sample_variant_config_def)
  have env: "ve_in_time sample_variant_env n" "ve_recipient_bytes sample_variant_env r a = 1" "ve_scan_bytes sample_variant_env s = 1" for n r a s
    by (simp_all add: sample_variant_env_def)
  have limit: "vc_max_recipients sample_variant_config = 10" by (simp add: sample_variant_config_def)
  show ?thesis using scoped env limit sample_packed
    by (simp add: variants_inner_def shared_payload_def sample_dot_fields ensure_def MAX_VARIANTS_def Let_def place_recipient_def budget_metadata_def
        budget_headers_def no_budget_def MAX_BATCH_METADATA_def MAX_BATCH_HEADERS_def open_group_def option_filter_def plain_render_def next_id_def
        join_variant_def sample_stored_def MAX_RECIPIENTS_PER_VARIANT_def)
qed

theorem recipients_partitioned_witness:
  "qv_id sample_stored = ''m'' \<and> mset (map fst (qv_recipients sample_stored)) = {#sample_recipient, sample_recipient#}
     \<and> wb_payload (qv_raw sample_stored) = ''.x'' @ CRLF"
  using recipients_partitioned [OF sample_variants] by (auto simp: sample_dot_fields)

theorem variant_members_agree_witness:
  "map_option rd_policy_sha256 (scan_recipient_decision (oc_scan (sample_outcome sample_recipient)))
     = map_option rd_policy_sha256 (scan_recipient_decision (oc_scan (sample_outcome (lead sample_stored))))"
proof -
  have "recipient_scoped sample_variant_config []" "scan_recipient_decision sample_scan = None"
    by (simp_all add: recipient_scoped_def sample_variant_config_def sample_scan_def)
  from variant_members_agree [OF sample_variants _ this _ _ refl, of sample_stored _ sample_recipient]
  show ?thesis by (simp add: sample_variant_env_def sample_stored_def)
qed

end
