(* ===== verification/Spec2Isabelle.thy ===== *)
theory Spec2Isabelle
  imports NF_Engine NF_Record NF_Preferences NF_SmtpPolicy NF_Cluster NF_Budget NF_Admission
    NF_Probe NF_Variants
begin

text \<open>
  NoiseFence is a mail gateway. It accepts messages over SMTP, analyses them, decides a
  classification and a delivery action for every recipient, stores the accepted message in a durable
  queue and relays it to the destination's servers; several nodes may form a cluster that shares
  policies, budgets and limits. This development models the parts that carry that logic, written
  from the Rust sources under \<open>src/\<close>, and proves the theorems that make them correct.

  \<^bold>\<open>Parts and how they interact.\<close> A connection (\<open>NF_Smtp\<close>) reads lines (\<open>NF_Wire\<close>), asks admission,
  traffic limits and identity checks about a peer (\<open>NF_Admission\<close>, \<open>NF_Traffic\<close>, \<open>NF_SmtpPolicy\<close>),
  receives a message (\<open>NF_Message\<close>) and hands it to an engine. The engine's detectors fill a scan
  (\<open>NF_Scan\<close>) with evidence (\<open>NF_Evidence\<close>); the decision step (\<open>NF_Engine\<close>) runs fusion, malware
  priority, arbitration, confirmation and score resolution (\<open>NF_Decision\<close>, \<open>NF_Confirmation\<close>), whose
  result every reader sees through one assessment (\<open>NF_Assessment\<close>). Recipient policies
  (\<open>NF_Custom\<close>) composed with mailbox preferences (\<open>NF_Preferences\<close>) and the action rules
  (\<open>NF_Actions\<close>) give each recipient an action, frozen in a receipt (\<open>NF_Record\<close>). Recipients with
  the same outcome share one stored variant of the message (\<open>NF_Variants\<close>). The queue
  (\<open>NF_Queue\<close>) stores the batch under the admission gate of coordinated activation (\<open>NF_Gate\<close>),
  workers claim its deliveries and speak to the upstream servers (\<open>NF_Relay\<close>), failures become notices
  (\<open>NF_Backscatter\<close>), and housekeeping, console and coordinator change held mail (\<open>NF_Delivery\<close>,
  \<open>NF_Mailer\<close>). Policies change on all nodes together (\<open>NF_Activation\<close>, \<open>NF_Gate\<close>, \<open>NF_Cluster\<close>);
  money and request quotas are escrowed (\<open>NF_Budget\<close>); shared permits bound the concurrent work
  (\<open>NF_Capacity\<close>).

  \<^bold>\<open>Theories and sources.\<close>
  \<^item> \<open>NF_Prelude\<close>: \<open>f64\<close>, \<open>Result\<close> with early return, strings as UTF-8 bytes, saturating arithmetic,
    stable sorting, shared lemmas and the named collections.
  \<^item> \<open>NF_Evidence\<close>: \<open>evidence.rs\<close>, \<open>evidence/eligibility.rs\<close>, \<open>protection/evidence.rs\<close>. Unknown,
    mixed, stale or conflicting answers never become a detection.
  \<^item> \<open>NF_Scan\<close>: the scan and detector results (\<open>engine.rs\<close>, \<open>llm.rs\<close>, \<open>mailing.rs\<close>, \<open>antivirus.rs\<close>,
    \<open>rbl.rs\<close>, \<open>scoring.rs\<close>, \<open>message_context.rs\<close>, \<open>protection.rs\<close>).
  \<^item> \<open>NF_Confirmation\<close>: \<open>confirmation.rs\<close>. \<open>NF_Decision\<close>: \<open>decision.rs\<close>, every function.
    \<open>NF_Rerun\<close>: the stage in closed form and its idempotence.
  \<^item> \<open>NF_Actions\<close>: \<open>actions.rs\<close>, \<open>action_coverage.rs\<close>. \<open>NF_Assessment\<close>: \<open>assessment.rs\<close>,
    \<open>score_boundary.rs\<close> and the SQL projection of the category.
  \<^item> \<open>NF_Engine\<close>: \<open>Engine::decide\<close>, \<open>fusion/runtime.rs\<close>, \<open>diagnostics.rs\<close>. \<open>NF_Record\<close>:
    \<open>decision_record.rs\<close>. \<open>NF_Variants\<close>: \<open>Engine::variants_inner\<close>, its renderers and
    \<open>finish_unchecked\<close>.
  \<^item> \<open>NF_Config\<close>: addresses, routes and recipients of \<open>config.rs\<close>. \<open>NF_Custom\<close>:
    \<open>custom_filtering.rs\<close>, \<open>policy_trace.rs\<close>. \<open>NF_Preferences\<close>: \<open>preferences.rs\<close>.
  \<^item> \<open>NF_Capacity\<close>: \<open>capacity.rs\<close>, as functions and as interleaved atomic steps.
  \<^item> \<open>NF_SmtpPolicy\<close>: \<open>smtp_policy.rs\<close>. \<open>NF_Traffic\<close>: \<open>traffic.rs\<close>, \<open>traffic/runtime.rs\<close> and the
    tickets of \<open>traffic/verification.rs\<close>. \<open>NF_Admission\<close>: \<open>smtp_admission.rs\<close> and its runtime.
  \<^item> \<open>NF_Activation\<close>: the authority's journal (\<open>cluster/activation.rs\<close>). \<open>NF_Gate\<close>: the admission gate
    and the participant's journal (\<open>cluster/activation/\<close>). \<open>NF_Cluster\<close>: authority, nodes and a
    lossy network (\<open>control/activation.rs\<close>).
  \<^item> \<open>NF_Budget\<close>: the review budget of \<open>llm.rs\<close>, the escrow of \<open>cluster/budget.rs\<close> and the quota of
    \<open>protection/providers.rs\<close>.
  \<^item> \<open>NF_Message\<close>: \<open>message.rs\<close>. \<open>NF_Wire\<close>: \<open>line\<close> and reception in \<open>smtp.rs\<close>, \<open>dot_stuff\<close> in
    \<open>relay.rs\<close>. \<open>NF_Smtp\<close>: the session of \<open>smtp.rs\<close>, every command;
    \<open>NF_Session\<close> has its theorems.
  \<^item> \<open>NF_Relay\<close>: the exchange with an upstream server of \<open>relay.rs\<close>; \<open>NF_Exchange\<close> has its theorems.
    \<open>NF_Probe\<close>: \<open>recipient_verification.rs\<close>.
  \<^item> \<open>NF_Backscatter\<close>: \<open>backscatter.rs\<close>. \<open>NF_Queue\<close>: the queue of \<open>store.rs\<close>, \<open>queue_body.rs\<close>,
    \<open>quarantine.rs\<close>, commands of \<open>cluster/history.rs\<close>, jobs and notices of \<open>relay.rs\<close>.
    \<open>NF_Delivery\<close>: the life cycle of a delivery, the invariant of the tables and the contract
    \<open>queue_operation\<close>, interpreted for every operation. \<open>NF_Mailer\<close>: the system they form, with
    crashes.

  \<^bold>\<open>What the theorems show.\<close> Coordinated activation: no two policies accept mail at the same time,
  nothing is committed that a participant did not prepare, a rollout completes. Queue: accepted mail
  keeps its body until every delivery is settled, a batch is stored whole or not at all, a delivery
  has one sender at a time and follows its life cycle, recovery succeeds, retries and notices
  end. Session: a message is announced as queued only when it is stored, only configured
  recipients are accepted, encryption discards what was said before. Upstream: one server takes a message,
  judged by the lines it was sent and answered, and the queue records that truthfully, nothing of a message travels in clear, internal addresses are
  never used, every command is one line, a cooperating server gets the message, and a recipient is
  rejected only when every route said that it does not exist. Decision: an uncorroborated score
  does not condemn, malware takes precedence, the stage is idempotent and always decides, a displayed
  score comes from where it says, actions are justified by their evidence, receipts do not change. Variants: every recipient is
  stored exactly once and shares a stored message only with recipients of the same outcome. Policies: administrator rules keep their
  authority and the trace is faithful. Admission, traffic and budgets: a greylisted retry is admitted
  after its delay and not before, retries are counted once, budgets are not overspent. Wire: lines do
  not depend on buffering, dot stuffing and parsing invert each other.

  \<^bold>\<open>Modelling choices.\<close> A finite \<open>f64\<close> is a rational with exact comparisons, with NaN and the
  infinities; the two zeros are one value, which every comparison of the source treats alike; operations that round are the argument \<open>float_ops\<close>. Counters whose overflow matters
  are words or natural numbers with the check written out. A \<open>BTreeMap\<close> is an association list in key
  order. A SQL table is a list of rows or a partial function on its key, and a transaction returns the
  new tables or leaves them unchanged. Digests, MIME decoding, base64, the resolver, IPv6 text,
  fresh identifiers, redaction, the fusion prediction and the validation of a bundle's bytes are
  arguments. So is every reading of a clock. Results of the file system, the replica, a peer or an
  upstream server are arguments or answers, which the theorems quantify over. Loops are structural
  recursion, recursion with a measure, or \<open>partial_function\<close> with a proof that it returns; there is
  no fuel except the session's own bound of a thousand commands. Fields that no modelled function
  reads are left out of the records. \<open>ma_accepted\<close> in \<open>NF_Mailer\<close> the logs \<open>us_sent\<close> and \<open>us_heard\<close> of a
  conversation and the histories of \<open>NF_Admission\<close> are kept for the theorems only. A step that the source makes of
  several clock readings has one; the time limit of a whole transfer is a broken read; persisting a
  participant's journal and binding its policy are one step, before which the gate is closed.

  \<^bold>\<open>Not modelled.\<close> The detectors that fill the scan (MIME and content analysis, language models,
  antivirus, reputation lookups, numeric models), since they are third-party parsers, network
  clients and trained weights; the rendering of diagnostic headers; identity directories; the HTTP
  interface, sessions and credentials; central and replicated storage; artifact
  transport and the polling loops of a cluster; quality, learning and research tools; process entry
  points. Of the queue, the import of other nodes' rows, commands that the console sends on to another node or to central
  storage, and errors of the database in the middle of a worker's last transaction. The cluster model has a fixed
  set of registered nodes.
\<close>

section \<open>The decision pipeline\<close>

text \<open>
  C31: the decision stage is idempotent. Whatever history a scan carries (an earlier
  resolution, an earlier arbitration, review rows), running the stage on its own result gives
  the same scan, as long as the decision it starts from has no NaN score.
\<close>

theorem decision_stage_idempotent:
  assumes "\<And>d. scan_decision (decision_prepare s) = Some d \<Longrightarrow> d_score d \<noteq> Some NaN"
  shows "decision_apply (decision_apply s rc) rc = decision_apply s rc"
  using assms by (rule decision_apply_idem)

definition disputed_scan :: scan where
  "disputed_scan = sample_scan
     \<lparr>scan_score := Fin 99,
      scan_decision := Some \<lparr>d_source = Src_Legacy, d_outcome = Unwanted, d_score = Some (Fin 99), d_model = ''m''\<rparr>,
      scan_llm := \<lparr>llm_status_of = Llm_Complete,
        llm_verdict_of = Some \<lparr>lv_category = L_Legitimate, lv_spam_probability = Fin (1/10),
          lv_confidence = Fin (9/10), lv_explanation = ''ok''\<rparr>, llm_grounding = None\<rparr>\<rparr>"

lemma disputed_prepare: "decision_prepare disputed_scan = disputed_scan"
  by (simp add: decision_prepare_def restore_score_resolution_def restore_arbitration_def Let_def
      retain_reasons_def disputed_scan_def sample_scan_def)

theorem decision_stage_idempotent_witness:
  "decision_apply (decision_apply disputed_scan True) True = decision_apply disputed_scan True"
  by (rule decision_stage_idempotent) (simp only: disputed_prepare, simp add: disputed_scan_def)

text \<open>Every uncorroborated abstention of a required stage carries the confirmation row.\<close>

lemma abstention_confirmed:
  assumes "scan_decision u = Some b" and "d_source b = Src_Legacy"
    and "d_outcome b = Undetermined \<longrightarrow> \<not> scan_complete u" and "\<not> corroborated u"
    and "reviewed_decision c True u = Some d" and "d_outcome d = Undetermined"
  shows "confirms True u"
proof (rule ccontr)
  assume "\<not> confirms True u"
  with assms(1-4) have "\<not> abstains u" "d_outcome b = Legitimate"
    by (cases "d_outcome b"; auto simp: confirms_def arbitrated_decision_def split: if_splits)+
  with assms(1,5,6) \<open>\<not> confirms True u\<close> show False
    by (auto simp: reviewed_decision_def confirmed_decision_def arbitrated_decision_def contextual_def
        split: if_splits)
qed

lemma category_not_spam:
  assumes "scan_recipient_decision s = None" and "scan_delivery_classification s = None"
    and "scan_decision s = Some d" and "d_outcome d \<noteq> Unwanted"
  shows "scan_category s t \<noteq> Spam"
  using assms by (auto simp: scan_category_def Let_def split: outcome.splits)

text \<open>
  C6: required corroboration is enforced end to end. A message that only the uncalibrated
  content score condemns (no malware, no eligible adverse observation, no observed threat) is
  never classified as spam when corroboration is required, whatever its score and threshold.
\<close>

theorem corroboration_enforced:
  assumes base: "scan_decision (decision_prepare s) = Some b" "d_source b = Src_Legacy"
      "d_outcome b = Undetermined \<longrightarrow> \<not> scan_complete s"
    and uncorroborated: "\<not> corroborated s" "\<not> observed_threat_with_partial_coverage s"
    and fresh: "scan_recipient_decision s = None"
      "scan_delivery_classification (restore_score_resolution s) = None"
  shows "scan_category (decided s True t) t' \<noteq> Spam"
proof -
  let ?u = "decision_prepare s" and ?r = "decision_apply s True"
  let ?c = "has_reason CONTEXT_REASON (restore_score_resolution s)" and ?f = "restore_score_resolution ?r"
  have av: "av_status (scan_antivirus s) \<noteq> Av_Malware"
    using uncorroborated(1) by (auto simp: corroborated_def)
  have "\<not> observed_threat_with_partial_coverage ?u"
    using uncorroborated(2) observed_threat_observations [OF prepare.stage_observations] by blast
  then have r: "?r = apply_arbitration ?u ?c True" by (rule decision_apply_branches [OF av])
  have u: "\<not> corroborated ?u" "scan_complete ?u = scan_complete s"
    using uncorroborated(1) by (simp_all add: prepare.stage_corroborated prepare.stage_fields)
  obtain d where d: "scan_decision ?r = Some d" "d_source d = Src_Legacy"
    using apply_arbitration_weakens [of ?u ?c True] base(1,2)
    by (auto simp: r stage_weakens_def weakens_def option_rel_Some1)
  have nu: "d_outcome d \<noteq> Unwanted"
    using apply_arbitration_corroboration [OF u(1)] d by (simp add: r)
  have rec: "scan_recipient_decision (decided s True t) = None" using fresh by (simp add: decided_fields)
  have del: "scan_delivery_classification ?f = None"
    using fresh by (simp add: decision_apply_restore_decision delivery_apply)
  show ?thesis
  proof (cases "valid_score (Some t) \<noteq> None \<and> d_outcome d = Undetermined")
    case True
    then have res: "decided s True t = resolve_abstention ?f d t"
      using d del by (auto simp: decided_def finalize_def resolve_by_score_def Let_def
          decision_apply_restore_decision)
    have "confirms True ?u"
      using abstention_confirmed [OF base(1,2)] base(3) u d True by (simp add: r apply_arbitration_fields)
    then have "has_reason CONFIRMATION_REVIEW_REASON ?f"
      by (simp add: restore_score_resolution_def decision_apply_resolution_None Let_def)
         (simp add: r has_reason_def apply_arbitration_fields stage_rows_def)
    then have "corroboration_missing ?f"
      using uncorroborated(1) by (simp add: corroboration_missing_def restore.stage_corroborated decide.stage_corroborated)
    then obtain d' where "scan_decision (decided s True t) = Some d'" "d_outcome d' = Legitimate"
      using resolve_abstention_guarded res by metis
    moreover have "scan_delivery_classification (decided s True t) = None"
      using del by (simp add: res resolve_abstention_def Let_def)
    ultimately show ?thesis using category_not_spam [OF rec] by simp
  next
    case False
    then have "decided s True t = ?f"
      using d del by (auto simp: decided_def finalize_def resolve_by_score_def Let_def
          decision_apply_restore_decision)
    then show ?thesis
      using category_not_spam [OF rec] d(1) nu del by (simp add: decision_apply_restore_decision)
  qed
qed

theorem corroboration_enforced_witness:
  "scan_category (decided disputed_scan True (Fin 50)) (Fin 50) \<noteq> Spam"
proof (rule corroboration_enforced)
  show "scan_decision (decision_prepare disputed_scan)
      = Some \<lparr>d_source = Src_Legacy, d_outcome = Unwanted, d_score = Some (Fin 99), d_model = ''m''\<rparr>"
    by (simp only: disputed_prepare, simp add: disputed_scan_def)
qed (simp_all add: disputed_scan_def sample_scan_def corroborated_def clean_antivirus_def
    observed_threat_with_partial_coverage_def restore_score_resolution_def Let_def)

text \<open>
  C9: malware takes precedence over every other result. For a message that has no recorded
  decision for its recipient and, once an earlier score resolution is undone, no classification by a
  recipient's delivery policy, a detection by the main antivirus ends as spam decided by the
  antivirus, and the action asked for is the one configured for malware. This holds whatever
  the score, the second opinion, the message kind, the coverage and the decision made before.
\<close>

theorem malware_precedence:
  assumes "av_status (scan_antivirus s) = Av_Malware" and "scan_recipient_decision s = None"
    and "scan_delivery_classification (restore_score_resolution s) = None"
  shows "map_option d_source (scan_decision (decided s rc t)) = Some Src_Antivirus
    \<and> scan_category (decided s rc t) t' = Spam
    \<and> ap_requested (actions_evaluate (decided s rc t) cfg) = acp_malware (action_policy_from_config cfg)"
  using assms decided_malware_spam [OF assms]
  by (simp add: decided_fields actions_evaluate_def Let_def constrain_def)

theorem malware_precedence_witness:
  "scan_category (decided (sample_scan\<lparr>scan_antivirus := \<lparr>av_status = Av_Malware, av_signature = None\<rparr>\<rparr>)
     False (Fin 95)) (Fin 95) = Spam"
  using malware_precedence
    [of "sample_scan\<lparr>scan_antivirus := \<lparr>av_status = Av_Malware, av_signature = None\<rparr>\<rparr>" False "Fin 95" "Fin 95"]
  by (simp add: sample_scan_def restore_score_resolution_def Let_def)

text \<open>
  the decision pipeline interprets the detectors' results and never edits them: scores,
  completeness, antivirus, language-model, evidence, protection and message-kind results and
  every explanation row that is not the policy's own are the same after it.
\<close>

theorem pipeline_observations: "observations (decided s rc t) = observations s"
  by (simp add: decided_def finalize_def resolve.stage_observations decide.stage_observations)

text \<open>
  between malware priority and the final policy the stage only abstains. The decision it
  hands over has the source and model of the baseline and either its outcome or none.
\<close>

theorem stage_only_abstains:
  assumes "av_status (scan_antivirus s) \<noteq> Av_Malware"
    and "\<not> observed_threat_with_partial_coverage s"
    and "scan_decision (decision_apply s rc) = Some d"
  shows "\<exists>b. scan_decision (decision_prepare s) = Some b \<and> d_source d = d_source b
     \<and> d_model d = d_model b \<and> (d_outcome d = d_outcome b \<or> d_outcome d = Undetermined)"
proof -
  have "\<not> observed_threat_with_partial_coverage (decision_prepare s)"
    using assms(2) observed_threat_observations [OF prepare.stage_observations] by blast
  from decision_apply_branches [OF assms(1) this, of rc] assms(3) obtain b where
    "scan_decision (decision_prepare s) = Some b" "weakens b d"
    using apply_arbitration_weakens stage_weakensD by metis
  then show ?thesis by (auto simp: weakens_def)
qed

theorem stage_only_abstains_witness:
  "\<exists>d. scan_decision (decision_apply disputed_scan False) = Some d
     \<and> (d_outcome d = Unwanted \<or> d_outcome d = Undetermined)"
proof -
  have p: "scan_decision (decision_prepare disputed_scan)
      = Some \<lparr>d_source = Src_Legacy, d_outcome = Unwanted, d_score = Some (Fin 99), d_model = ''m''\<rparr>"
    by (simp only: disputed_prepare, simp add: disputed_scan_def)
  have av: "av_status (scan_antivirus disputed_scan) \<noteq> Av_Malware"
    by (simp add: disputed_scan_def sample_scan_def clean_antivirus_def)
  have th: "\<not> observed_threat_with_partial_coverage disputed_scan"
    by (simp add: disputed_scan_def sample_scan_def observed_threat_with_partial_coverage_def)
  have "scan_decision (decision_apply disputed_scan False) \<noteq> None"
    using apply_arbitration_fields(1) p decision_apply_branches [OF av] th
      observed_threat_observations [OF prepare.stage_observations, of disputed_scan]
    by (auto simp: reviewed_decision_def confirmed_decision_def arbitrated_decision_def split: if_splits)
  then obtain d where d: "scan_decision (decision_apply disputed_scan False) = Some d" by blast
  from stage_only_abstains [OF av th d] p d show ?thesis by auto
qed

end
